(* ===== verification/Prelude.thy ===== *)
theory Prelude
  imports Main "HOL-Library.List_Lexorder" "HOL-Library.Char_ord"
begin

text \<open>
  The shared ground of the development: JSON values and Python string helpers, and a small
  calculus for asynchronous handlers.

  A handler is a function from a world to a result or an exception and a new world.  The world
  has a shared part (the database tables and the process-wide objects, which other tasks may
  change), the trace of what this task did (audit rows written, external calls made), and a
  counter of the questions asked to the environment.  An environment record answers the
  questions: the clock, fresh ids, whether a transaction fails, and what the other tasks did
  while this one was suspended.  Nothing is known about those answers but what a theorem states.

  Two predicates carry most of the proofs, each with one introduction rule per combinator:
  \<open>guar R m\<close> (every change \<open>m\<close> makes to the shared state is a sequence of \<open>R\<close> steps, whether it
  returns or raises) and \<open>emits A m\<close> (\<open>m\<close> only adds events of the set \<open>A\<close> to the trace).
\<close>

named_theorems guar_intros \<open>introduction rules of guar\<close>
named_theorems emits_intros \<open>introduction rules of emits\<close>
named_theorems run_simps \<open>how each combinator runs\<close>

section \<open>JSON values and strings\<close>

datatype json =
    JNull
  | JBool bool
  | JInt int
  | JFloat string
  | JStr string
  | JArr "json list"
  | JObj "(string \<times> json) list"

type_synonym json_object = "(string \<times> json) list"

text \<open>\<open>type(x).__name__\<close> of the Python value that \<open>json.loads\<close> builds.\<close>

fun type_name :: "json \<Rightarrow> string" where
  "type_name JNull = ''NoneType''"
| "type_name (JBool _) = ''bool''"
| "type_name (JInt _) = ''int''"
| "type_name (JFloat _) = ''float''"
| "type_name (JStr _) = ''str''"
| "type_name (JArr _) = ''list''"
| "type_name (JObj _) = ''dict''"

definition jopt_str :: "string option \<Rightarrow> json" where
  "jopt_str x = (case x of None \<Rightarrow> JNull | Some s \<Rightarrow> JStr s)"

definition jopt_int :: "int option \<Rightarrow> json" where
  "jopt_int x = (case x of None \<Rightarrow> JNull | Some n \<Rightarrow> JInt n)"

text \<open>\<open>d[k] = v\<close> on a dict kept in insertion order, and \<open>d.update(e)\<close>.\<close>

fun dict_set :: "string \<Rightarrow> 'v \<Rightarrow> (string \<times> 'v) list \<Rightarrow> (string \<times> 'v) list" where
  "dict_set k v [] = [(k, v)]"
| "dict_set k v ((k', v') # d) = (if k = k' then (k, v) # d else (k', v') # dict_set k v d)"

definition dict_update :: "(string \<times> 'v) list \<Rightarrow> (string \<times> 'v) list \<Rightarrow> (string \<times> 'v) list" where
  "dict_update d e = fold (\<lambda>(k, v) acc. dict_set k v acc) e d"

lemma map_of_dict_set [simp]: "map_of (dict_set k v d) = (map_of d)(k \<mapsto> v)"
  by (induction d) (auto simp: fun_eq_iff)

text \<open>Decimal rendering, as \<open>str(n)\<close> and an f-string do.\<close>

fun str_of_nat :: "nat \<Rightarrow> string" where
  "str_of_nat n =
     (if n < 10 then [char_of (48 + n)] else str_of_nat (n div 10) @ [char_of (48 + n mod 10)])"

declare str_of_nat.simps [simp del]

definition str_of_int :: "int \<Rightarrow> string" where
  "str_of_int i = (if i < 0 then ''-'' @ str_of_nat (nat (- i)) else str_of_nat (nat i))"

text \<open>
  \<open>str.strip()\<close> and \<open>str.lower()\<close> on the code points below 256, the ones a \<open>char\<close> holds.
\<close>

definition is_space :: "char \<Rightarrow> bool" where
  "is_space c =
     (let n = (of_char c :: nat)
      in (9 \<le> n \<and> n \<le> 13) \<or> (28 \<le> n \<and> n \<le> 32) \<or> n = 133 \<or> n = 160)"

definition strip :: "string \<Rightarrow> string" where
  "strip s = rev (dropWhile is_space (rev (dropWhile is_space s)))"

definition lower_char :: "char \<Rightarrow> char" where
  "lower_char c =
     (let n = (of_char c :: nat)
      in if (65 \<le> n \<and> n \<le> 90) \<or> (192 \<le> n \<and> n \<le> 222 \<and> n \<noteq> 215) then char_of (n + 32) else c)"

definition lower :: "string \<Rightarrow> string" where
  "lower s = map lower_char s"

definition ends_with :: "string \<Rightarrow> string \<Rightarrow> bool" where
  "ends_with s suf = (take (length suf) (rev s) = rev suf)"

fun join_with :: "string \<Rightarrow> string list \<Rightarrow> string" where
  "join_with sep [] = []"
| "join_with sep [x] = x"
| "join_with sep (x # xs) = x @ sep @ join_with sep xs"

definition is_digit :: "char \<Rightarrow> bool" where
  "is_digit c = (let n = (of_char c :: nat) in 48 \<le> n \<and> n \<le> 57)"

definition is_alnum :: "char \<Rightarrow> bool" where
  "is_alnum c =
     (let n = (of_char c :: nat)
      in (48 \<le> n \<and> n \<le> 57) \<or> (65 \<le> n \<and> n \<le> 90) \<or> (97 \<le> n \<and> n \<le> 122))"

definition is_ascii :: "string \<Rightarrow> bool" where
  "is_ascii s = list_all (\<lambda>c. (of_char c :: nat) < 128) s"

text \<open>\<open>s.split(d)\<close> for one character.\<close>

fun split_on :: "char \<Rightarrow> string \<Rightarrow> string list" where
  "split_on d [] = [[]]"
| "split_on d (c # cs) =
     (if c = d then [] # split_on d cs
      else (case split_on d cs of [] \<Rightarrow> [[c]] | w # ws \<Rightarrow> (c # w) # ws))"

text \<open>The line ends of \<open>str.splitlines\<close> below code point 256, with CR LF as one.\<close>

definition is_linebreak :: "char \<Rightarrow> bool" where
  "is_linebreak c = (of_char c \<in> {10, 11, 12, 13, 28, 29, 30, 133 :: nat})"

text \<open>The tests of a character, on binary integers for evaluation.\<close>

lemma char_tests_code [code]:
  "is_space c = (let n = (of_char c :: int) in (9 \<le> n \<and> n \<le> 13) \<or> (28 \<le> n \<and> n \<le> 32) \<or> n = 133 \<or> n = 160)"
  "is_digit c = (let n = (of_char c :: int) in 48 \<le> n \<and> n \<le> 57)"
  "is_alnum c = (let n = (of_char c :: int) in (48 \<le> n \<and> n \<le> 57) \<or> (65 \<le> n \<and> n \<le> 90) \<or> (97 \<le> n \<and> n \<le> 122))"
  "is_linebreak c = (let n = (of_char c :: int) in (10 \<le> n \<and> n \<le> 13) \<or> (28 \<le> n \<and> n \<le> 30) \<or> n = 133)"
proof -
  have n: "(of_char c :: int) = int (of_char c)" by (simp only: of_nat_of_char)
  show "is_space c = (let n = (of_char c :: int) in (9 \<le> n \<and> n \<le> 13) \<or> (28 \<le> n \<and> n \<le> 32) \<or> n = 133 \<or> n = 160)"
    "is_digit c = (let n = (of_char c :: int) in 48 \<le> n \<and> n \<le> 57)"
    "is_alnum c = (let n = (of_char c :: int) in (48 \<le> n \<and> n \<le> 57) \<or> (65 \<le> n \<and> n \<le> 90) \<or> (97 \<le> n \<and> n \<le> 122))"
    "is_linebreak c = (let n = (of_char c :: int) in (10 \<le> n \<and> n \<le> 13) \<or> (28 \<le> n \<and> n \<le> 30) \<or> n = 133)"
    unfolding n Let_def is_space_def is_digit_def is_alnum_def is_linebreak_def insert_iff empty_iff by presburger+
qed

fun split_lines_from :: "string \<Rightarrow> string \<Rightarrow> string list" where
  "split_lines_from acc [] = (if acc = [] then [] else [rev acc])"
| "split_lines_from acc (c # cs) =
     (if is_linebreak c then
        rev acc # split_lines_from []
          (if c = char_of (13 :: nat) \<and> take 1 cs = [char_of (10 :: nat)] then tl cs else cs)
      else split_lines_from (c # acc) cs)"

definition splitlines :: "string \<Rightarrow> string list" where
  "splitlines s = split_lines_from [] s"

text \<open>\<open>str.rfind\<close>: the last position at which \<open>p\<close> occurs.\<close>

definition rfind :: "string \<Rightarrow> string \<Rightarrow> nat option" where
  "rfind p s = find (\<lambda>i. take (length p) (drop i s) = p) (rev [0..<Suc (length s)])"

text \<open>\<open>str.find\<close>: the first position.\<close>

definition find_sub :: "string \<Rightarrow> string \<Rightarrow> nat option" where
  "find_sub p s = find (\<lambda>i. take (length p) (drop i s) = p) [0..<Suc (length s)]"

text \<open>What follows a prefix.\<close>

definition strip_prefix :: "string \<Rightarrow> string \<Rightarrow> string option" where
  "strip_prefix p s = (if take (length p) s = p then Some (drop (length p) s) else None)"

text \<open>\<open>repr\<close> of a string.\<close>

definition hex_digit :: "nat \<Rightarrow> char" where
  "hex_digit n = (if n < 10 then char_of (48 + n) else char_of (87 + n))"

definition repr_char :: "char \<Rightarrow> char \<Rightarrow> string" where
  "repr_char q c =
     (let n = (of_char c :: nat)
      in if c = q \<or> n = 92 then [CHR 0x5C, c]
         else if n = 10 then [CHR 0x5C, CHR ''n'']
         else if n = 13 then [CHR 0x5C, CHR ''r'']
         else if n = 9 then [CHR 0x5C, CHR ''t'']
         else if (32 \<le> n \<and> n \<le> 126) \<or> (161 \<le> n \<and> n \<noteq> 173) then [c]
         else [CHR 0x5C, CHR ''x'', hex_digit (n div 16), hex_digit (n mod 16)])"

definition py_repr :: "string \<Rightarrow> string" where
  "py_repr s =
     (let q = (if CHR 0x27 \<in> set s \<and> CHR 0x22 \<notin> set s then CHR 0x22 else CHR 0x27)
      in [q] @ concat (map (repr_char q) s) @ [q])"

lemma find_last: "k < n \<Longrightarrow> Q k \<Longrightarrow> (\<And>i. k < i \<Longrightarrow> i < n \<Longrightarrow> \<not> Q i) \<Longrightarrow> find Q (rev [0..<n]) = Some k"
proof (induction n)
  case (Suc n)
  show ?case
  proof (cases "k = n")
    case False
    then have "k < n" "\<not> Q n" using Suc.prems by auto
    with Suc show ?thesis by simp
  qed (use Suc.prems(2) in simp)
qed simp

lemma find_first: "k < n \<Longrightarrow> Q k \<Longrightarrow> (\<And>i. i < k \<Longrightarrow> \<not> Q i) \<Longrightarrow> find Q [0..<n] = Some k"
  unfolding find_Some_iff by (intro exI [of _ k]) simp

lemma strip_prefix_append [simp]: "strip_prefix p (p @ s) = Some s"
  by (simp add: strip_prefix_def)

lemma strip_prefix_Some: "strip_prefix p s = Some r \<longleftrightarrow> s = p @ r"
  by (auto simp: strip_prefix_def) (metis append_take_drop_id)

lemma ends_with_append [simp]: "ends_with (xs @ suf) suf"
  by (simp add: ends_with_def)

lemma concat_split_on: "set s \<subseteq> insert d (\<Union> (set ` set (split_on d s)))"
proof (induction s)
  case (Cons c s)
  then show ?case by (cases "split_on d s") auto
qed simp

section \<open>Exceptions and worlds\<close>

datatype docker_error = ExecTimeout string | ConnectionError string | ProtocolError string

datatype exn =
    DbError string
  | IntegrityErr string
  | DockerErr docker_error
  | OSErr string
  | SecretsErr string
  | AssertionErr string
  | ValidationErr string
  | LookupErr string
  | RunbookNotFound string
  | DryRunRequiredForRisky string
  | GrantResolution string string
  | EgressConfiguration string string
  | MalformedIntentFile string string
  | Cancelled

fun docker_msg :: "docker_error \<Rightarrow> string" where
  "docker_msg (ExecTimeout m) = m"
| "docker_msg (ConnectionError m) = m"
| "docker_msg (ProtocolError m) = m"

text \<open>\<open>HttpProblem(status_code, code, message)\<close> of the API (kernel/api/errors.py).\<close>

datatype http_problem = HttpProblem int string string

text \<open>\<open>str(exc)\<close>, with the message each constructor of the source passes to its base class.\<close>

fun exn_msg :: "exn \<Rightarrow> string" where
  "exn_msg (DbError m) = m"
| "exn_msg (IntegrityErr m) = m"
| "exn_msg (DockerErr e) = docker_msg e"
| "exn_msg (OSErr m) = m"
| "exn_msg (SecretsErr m) = m"
| "exn_msg (AssertionErr m) = m"
| "exn_msg (ValidationErr m) = m"
| "exn_msg (LookupErr m) = m"
| "exn_msg (RunbookNotFound i) = ''runbook '' @ i @ '' not found''"
| "exn_msg (DryRunRequiredForRisky i) = ''runbook '' @ i @ '' is risky; use dry_run mode''"
| "exn_msg (GrantResolution r d) = d"
| "exn_msg (EgressConfiguration r d) = d"
| "exn_msg (MalformedIntentFile r d) = (if d = [] then r else d)"
| "exn_msg Cancelled = []"

record ('s, 'e) world =
  shared :: 's
  trace :: "'e list"
  ticks :: nat

record 's env =
  other :: "nat \<Rightarrow> 's \<Rightarrow> 's"
  fault :: "nat \<Rightarrow> string option"
  clock :: "nat \<Rightarrow> int"
  uuid :: "nat \<Rightarrow> string"

type_synonym ('s, 'e, 'a) prog = "('s, 'e) world \<Rightarrow> (exn + 'a) \<times> ('s, 'e) world"

section \<open>Combinators\<close>

definition ret :: "'a \<Rightarrow> ('s, 'e, 'a) prog" where
  "ret x = (\<lambda>w. (Inr x, w))"

definition raise :: "exn \<Rightarrow> ('s, 'e, 'a) prog" where
  "raise e = (\<lambda>w. (Inl e, w))"

definition bindP :: "('s, 'e, 'a) prog \<Rightarrow> ('a \<Rightarrow> ('s, 'e, 'b) prog) \<Rightarrow> ('s, 'e, 'b) prog" where
  "bindP m k = (\<lambda>w. case m w of (Inl e, w') \<Rightarrow> (Inl e, w') | (Inr x, w') \<Rightarrow> k x w')"

definition seqP :: "('s, 'e, 'a) prog \<Rightarrow> ('s, 'e, 'b) prog \<Rightarrow> ('s, 'e, 'b) prog" where
  "seqP m n = bindP m (\<lambda>_. n)"

text \<open>\<open>try: m except: h\<close>; \<open>h\<close> re-raises what its clauses do not name.\<close>

definition tryP :: "('s, 'e, 'a) prog \<Rightarrow> (exn \<Rightarrow> ('s, 'e, 'a) prog) \<Rightarrow> ('s, 'e, 'a) prog" where
  "tryP m h = (\<lambda>w. case m w of (Inl e, w') \<Rightarrow> h e w' | (Inr x, w') \<Rightarrow> (Inr x, w'))"

text \<open>\<open>try: m finally: f\<close>; an exception of \<open>f\<close> replaces the outcome of \<open>m\<close>.\<close>

definition finallyP :: "('s, 'e, 'a) prog \<Rightarrow> ('s, 'e, unit) prog \<Rightarrow> ('s, 'e, 'a) prog" where
  "finallyP m f = (\<lambda>w. case m w of (r, w') \<Rightarrow>
     (case f w' of (Inl e, w'') \<Rightarrow> (Inl e, w'') | (Inr _, w'') \<Rightarrow> (r, w'')))"

definition getS :: "('s \<Rightarrow> 'a) \<Rightarrow> ('s, 'e, 'a) prog" where
  "getS f = (\<lambda>w. (Inr (f (shared w)), w))"

definition modS :: "('s \<Rightarrow> 's) \<Rightarrow> ('s, 'e, unit) prog" where
  "modS f = (\<lambda>w. (Inr (), w\<lparr>shared := f (shared w)\<rparr>))"

definition emit :: "'e \<Rightarrow> ('s, 'e, unit) prog" where
  "emit ev = (\<lambda>w. (Inr (), w\<lparr>trace := trace w @ [ev]\<rparr>))"

text \<open>A question the environment answers without a suspension (clock, directory listing).\<close>

definition ask :: "(nat \<Rightarrow> 'a) \<Rightarrow> ('s, 'e, 'a) prog" where
  "ask f = (\<lambda>w. (Inr (f (ticks w)), w\<lparr>ticks := Suc (ticks w)\<rparr>))"

text \<open>An \<open>await\<close>: the other tasks run for a while.\<close>

definition suspend :: "('s, 'z) env_scheme \<Rightarrow> ('s, 'e, unit) prog" where
  "suspend env = (\<lambda>w. (Inr (), w\<lparr>shared := other env (ticks w) (shared w), ticks := Suc (ticks w)\<rparr>))"

definition awaitP :: "('s, 'z) env_scheme \<Rightarrow> (nat \<Rightarrow> 'a) \<Rightarrow> ('s, 'e, 'a) prog" where
  "awaitP env f = seqP (suspend env) (ask f)"

text \<open>A SELECT in its own connection.\<close>

definition fetch :: "('s, 'z) env_scheme \<Rightarrow> ('s \<Rightarrow> 'a) \<Rightarrow> ('s, 'e, 'a) prog" where
  "fetch env f = seqP (suspend env) (getS f)"

text \<open>
  \<open>async with db.transaction()\<close>: the body runs as one atomic step.  When it raises, or when the
  commit fails, what it wrote (and the audit rows it emitted) is rolled back.
\<close>

definition txn :: "('s, 'z) env_scheme \<Rightarrow> ('s, 'e, 'a) prog \<Rightarrow> ('s, 'e, 'a) prog" where
  "txn env body = seqP (suspend env) (\<lambda>w.
     case body w of
       (Inl e, w') \<Rightarrow> (Inl e, w'\<lparr>shared := shared w, trace := trace w\<rparr>)
     | (Inr x, w') \<Rightarrow>
         (case fault env (ticks w') of
            Some msg \<Rightarrow> (Inl (DbError msg), w'\<lparr>shared := shared w, trace := trace w, ticks := Suc (ticks w')\<rparr>)
          | None \<Rightarrow> (Inr x, w'\<lparr>ticks := Suc (ticks w')\<rparr>)))"

fun for_each :: "'x list \<Rightarrow> ('x \<Rightarrow> ('s, 'e, unit) prog) \<Rightarrow> ('s, 'e, unit) prog" where
  "for_each [] body = ret ()"
| "for_each (x # xs) body = seqP (body x) (for_each xs body)"

definition unlessP :: "bool \<Rightarrow> ('s, 'e, unit) prog \<Rightarrow> ('s, 'e, unit) prog" where
  "unlessP b m = (if b then ret () else m)"

text \<open>Lifting a pure fallible computation.\<close>

definition liftE :: "exn + 'a \<Rightarrow> ('s, 'e, 'a) prog" where
  "liftE r = (case r of Inl e \<Rightarrow> raise e | Inr x \<Rightarrow> ret x)"

lemma run_ret [run_simps]: "ret x w = (Inr x, w)"
  and run_raise [run_simps]: "raise e w = (Inl e, w)"
  and run_getS [run_simps]: "getS f w = (Inr (f (shared w)), w)"
  and run_modS [run_simps]: "modS g w = (Inr (), w\<lparr>shared := g (shared w)\<rparr>)"
  and run_emit [run_simps]: "emit ev w = (Inr (), w\<lparr>trace := trace w @ [ev]\<rparr>)"
  and run_ask [run_simps]: "ask h w = (Inr (h (ticks w)), w\<lparr>ticks := Suc (ticks w)\<rparr>)"
  and run_suspend [run_simps]: "suspend env w =
     (Inr (), w\<lparr>shared := other env (ticks w) (shared w), ticks := Suc (ticks w)\<rparr>)"
  by (simp_all add: ret_def raise_def getS_def modS_def emit_def ask_def suspend_def)

lemma run_bindP_Inr: "m w = (Inr x, w') \<Longrightarrow> bindP m k w = k x w'"
  and run_bindP_Inl: "m w = (Inl e, w') \<Longrightarrow> bindP m k w = (Inl e, w')"
  and run_seqP_Inr: "m w = (Inr x, w') \<Longrightarrow> seqP m n w = n w'"
  and run_seqP_Inl: "m w = (Inl e, w') \<Longrightarrow> seqP m n w = (Inl e, w')"
  by (simp_all add: bindP_def seqP_def)

lemma run_bind_simps [run_simps]:
  "bindP (ret x) k w = k x w"
  "bindP (raise e) k w = (Inl e, w)"
  "bindP (getS f) k w = k (f (shared w)) w"
  "bindP (modS g) k' w = k' () (w\<lparr>shared := g (shared w)\<rparr>)"
  "bindP (ask h) k'' w = k'' (h (ticks w)) (w\<lparr>ticks := Suc (ticks w)\<rparr>)"
  by (simp_all add: bindP_def ret_def raise_def getS_def modS_def ask_def)

section \<open>Guarantees: what a handler may do to the shared state\<close>

definition guar :: "('s \<Rightarrow> 's \<Rightarrow> bool) \<Rightarrow> ('s, 'e, 'a) prog \<Rightarrow> bool" where
  "guar R m \<longleftrightarrow> (\<forall>w. R\<^sup>*\<^sup>* (shared w) (shared (snd (m w))))"

text \<open>The rely: what the other tasks do while this one is suspended is itself a sequence of steps.\<close>

definition rely :: "('s \<Rightarrow> 's \<Rightarrow> bool) \<Rightarrow> ('s, 'z) env_scheme \<Rightarrow> bool" where
  "rely R env \<longleftrightarrow> (\<forall>n s. R\<^sup>*\<^sup>* s (other env n s))"

lemma guarI: "(\<And>w. R\<^sup>*\<^sup>* (shared w) (shared (snd (m w)))) \<Longrightarrow> guar R m"
  by (simp add: guar_def)

lemma guarD: "guar R m \<Longrightarrow> m w = (r, w') \<Longrightarrow> R\<^sup>*\<^sup>* (shared w) (shared w')"
  by (metis guar_def snd_conv)

lemma guar_ret [guar_intros]: "guar R (ret x)"
  and guar_raise [guar_intros]: "guar R (raise e)"
  and guar_getS [guar_intros]: "guar R (getS f)"
  and guar_emit [guar_intros]: "guar R (emit ev)"
  and guar_ask [guar_intros]: "guar R (ask h)"
  by (simp_all add: guar_def run_simps)

lemma guar_modS: "(\<And>s. R\<^sup>*\<^sup>* s (g s)) \<Longrightarrow> guar R (modS g)"
  by (simp add: guar_def run_simps)

lemma guar_modS_step: "(\<And>s. R s (g s)) \<Longrightarrow> guar R (modS g)"
  by (rule guar_modS) auto

lemma guar_suspend [guar_intros]: "rely R env \<Longrightarrow> guar R (suspend env)"
  by (simp add: guar_def rely_def run_simps)

lemma guar_bindP [guar_intros]:
  assumes "guar R m" and "\<And>x. guar R (k x)"
  shows "guar R (bindP m k)"
proof (rule guarI)
  fix w
  obtain r w' where m: "m w = (r, w')" by fastforce
  have 1: "R\<^sup>*\<^sup>* (shared w) (shared w')" using guarD [OF assms(1) m] .
  show "R\<^sup>*\<^sup>* (shared w) (shared (snd (bindP m k w)))"
  proof (cases r)
    case (Inl e)
    with m 1 show ?thesis by (simp add: bindP_def)
  next
    case (Inr x)
    with m have "bindP m k w = k x w'" by (simp add: bindP_def)
    moreover have "R\<^sup>*\<^sup>* (shared w') (shared (snd (k x w')))"
      using assms(2) by (simp add: guar_def)
    ultimately show ?thesis using 1 by simp
  qed
qed

lemma guar_seqP [guar_intros]: "guar R m \<Longrightarrow> guar R n \<Longrightarrow> guar R (seqP m n)"
  unfolding seqP_def by (rule guar_bindP)

lemma guar_tryP [guar_intros]:
  assumes "guar R m" and "\<And>e. guar R (h e)"
  shows "guar R (tryP m h)"
proof (rule guarI)
  fix w
  obtain r w' where m: "m w = (r, w')" by fastforce
  have 1: "R\<^sup>*\<^sup>* (shared w) (shared w')" using guarD [OF assms(1) m] .
  show "R\<^sup>*\<^sup>* (shared w) (shared (snd (tryP m h w)))"
  proof (cases r)
    case (Inl e)
    with m have "tryP m h w = h e w'" by (simp add: tryP_def)
    moreover have "R\<^sup>*\<^sup>* (shared w') (shared (snd (h e w')))"
      using assms(2) by (simp add: guar_def)
    ultimately show ?thesis using 1 by simp
  next
    case (Inr x)
    with m 1 show ?thesis by (simp add: tryP_def)
  qed
qed

lemma guar_finallyP [guar_intros]:
  assumes "guar R m" and "guar R f"
  shows "guar R (finallyP m f)"
proof (rule guarI)
  fix w
  obtain r w' where m: "m w = (r, w')" by fastforce
  obtain r2 w2 where f: "f w' = (r2, w2)" by fastforce
  have "R\<^sup>*\<^sup>* (shared w) (shared w2)"
    using guarD [OF assms(1) m] guarD [OF assms(2) f] by simp
  with m f show "R\<^sup>*\<^sup>* (shared w) (shared (snd (finallyP m f w)))"
    by (auto simp: finallyP_def split: sum.splits)
qed

lemma guar_awaitP [guar_intros]: "rely R env \<Longrightarrow> guar R (awaitP env h)"
  by (simp add: awaitP_def guar_intros)

lemma guar_fetch [guar_intros]: "rely R env \<Longrightarrow> guar R (fetch env f)"
  by (simp add: fetch_def guar_intros)

lemma guar_txn [guar_intros]:
  assumes "rely R env" and "guar R body"
  shows "guar R (txn env body)"
  unfolding txn_def
proof (rule guar_seqP [OF guar_suspend [OF assms(1)]], rule guarI)
  fix w
  obtain r w' where b: "body w = (r, w')" by fastforce
  have "R\<^sup>*\<^sup>* (shared w) (shared w')" using guarD [OF assms(2) b] .
  then show "R\<^sup>*\<^sup>* (shared w) (shared (snd (case body w of
       (Inl e, w') \<Rightarrow> (Inl e, w'\<lparr>shared := shared w, trace := trace w\<rparr>)
     | (Inr x, w') \<Rightarrow>
         (case fault env (ticks w') of
            Some msg \<Rightarrow> (Inl (DbError msg), w'\<lparr>shared := shared w, trace := trace w, ticks := Suc (ticks w')\<rparr>)
          | None \<Rightarrow> (Inr x, w'\<lparr>ticks := Suc (ticks w')\<rparr>)))))"
    by (simp add: b split: sum.splits option.splits)
qed

lemma guar_for_each [guar_intros]: "(\<And>x. guar R (body x)) \<Longrightarrow> guar R (for_each xs body)"
  by (induction xs) (auto intro: guar_intros)

lemma guar_unlessP [guar_intros]: "guar R m \<Longrightarrow> guar R (unlessP b m)"
  by (simp add: unlessP_def guar_intros)

lemma guar_liftE [guar_intros]: "guar R (liftE r)"
  by (simp add: liftE_def guar_intros split: sum.splits)

lemma guar_if [guar_intros]: "guar R m \<Longrightarrow> guar R n \<Longrightarrow> guar R (if b then m else n)"
  by simp

lemma guar_case_option [guar_intros]:
  "guar R m \<Longrightarrow> (\<And>x. guar R (k x)) \<Longrightarrow> guar R (case v of None \<Rightarrow> m | Some x \<Rightarrow> k x)"
  by (cases v) simp_all

lemma guar_case_sum [guar_intros]:
  "(\<And>e. guar R (h e)) \<Longrightarrow> (\<And>x. guar R (k x)) \<Longrightarrow> guar R (case v of Inl e \<Rightarrow> h e | Inr x \<Rightarrow> k x)"
  by (cases v) simp_all

lemma guar_case_prod [guar_intros]:
  "(\<And>x y. guar R (k x y)) \<Longrightarrow> guar R (case v of (x, y) \<Rightarrow> k x y)"
  by (cases v) simp

text \<open>An invariant of the steps is an invariant of every handler that guarantees them.\<close>

definition stable :: "('s \<Rightarrow> 's \<Rightarrow> bool) \<Rightarrow> ('s \<Rightarrow> bool) \<Rightarrow> bool" where
  "stable R I \<longleftrightarrow> (\<forall>s t. R s t \<longrightarrow> I s \<longrightarrow> I t)"

lemma stable_rtranclp: "R\<^sup>*\<^sup>* s t \<Longrightarrow> stable R I \<Longrightarrow> I s \<Longrightarrow> I t"
  by (induction rule: rtranclp_induct) (auto simp: stable_def)

lemma guar_stable:
  assumes "guar R m" and "stable R I" and "I (shared w)"
  shows "I (shared (snd (m w)))"
  using assms stable_rtranclp by (metis guar_def)

section \<open>Emissions: what a handler may do to the outside\<close>

definition emits :: "'e set \<Rightarrow> ('s, 'e, 'a) prog \<Rightarrow> bool" where
  "emits A m \<longleftrightarrow> (\<forall>w. \<exists>es. trace (snd (m w)) = trace w @ es \<and> set es \<subseteq> A)"

lemma emitsD: "emits A m \<Longrightarrow> m w = (r, w') \<Longrightarrow> \<exists>es. trace w' = trace w @ es \<and> set es \<subseteq> A"
  by (metis emits_def snd_conv)

lemma emits_mono: "emits A m \<Longrightarrow> A \<subseteq> B \<Longrightarrow> emits B m"
  unfolding emits_def by (meson order_trans)

lemma emits_ret [emits_intros]: "emits A (ret x)"
  and emits_raise [emits_intros]: "emits A (raise e)"
  and emits_getS [emits_intros]: "emits A (getS f)"
  and emits_modS [emits_intros]: "emits A (modS g)"
  and emits_ask [emits_intros]: "emits A (ask h)"
  and emits_suspend [emits_intros]: "emits A (suspend env)"
  by (simp_all add: emits_def run_simps)

lemma emits_emit [emits_intros]: "ev \<in> A \<Longrightarrow> emits A (emit ev)"
  by (simp add: emits_def run_simps)

lemma emits_trans:
  assumes "emits A n" and "trace w' = trace w @ es" and "set es \<subseteq> A"
  shows "\<exists>es. trace (snd (n w')) = trace w @ es \<and> set es \<subseteq> A"
proof -
  obtain fs where "trace (snd (n w')) = trace w' @ fs" "set fs \<subseteq> A"
    using assms(1) by (auto simp: emits_def)
  with assms(2,3) have "trace (snd (n w')) = trace w @ (es @ fs) \<and> set (es @ fs) \<subseteq> A" by simp
  then show ?thesis by blast
qed

lemma emits_bindP [emits_intros]:
  assumes "emits A m" and "\<And>x. emits A (k x)"
  shows "emits A (bindP m k)"
  unfolding emits_def
proof
  fix w
  obtain r w' where m: "m w = (r, w')" by fastforce
  obtain es where es: "trace w' = trace w @ es" "set es \<subseteq> A"
    using emitsD [OF assms(1) m] by blast
  show "\<exists>es. trace (snd (bindP m k w)) = trace w @ es \<and> set es \<subseteq> A"
  proof (cases r)
    case (Inl e)
    with m es show ?thesis by (simp add: bindP_def)
  next
    case (Inr x)
    with m have "bindP m k w = k x w'" by (simp add: bindP_def)
    with emits_trans [OF assms(2) es] show ?thesis by metis
  qed
qed

lemma emits_seqP [emits_intros]: "emits A m \<Longrightarrow> emits A n \<Longrightarrow> emits A (seqP m n)"
  unfolding seqP_def by (rule emits_bindP)

lemma emits_tryP [emits_intros]:
  assumes "emits A m" and "\<And>e. emits A (h e)"
  shows "emits A (tryP m h)"
  unfolding emits_def
proof
  fix w
  obtain r w' where m: "m w = (r, w')" by fastforce
  obtain es where es: "trace w' = trace w @ es" "set es \<subseteq> A"
    using emitsD [OF assms(1) m] by blast
  show "\<exists>es. trace (snd (tryP m h w)) = trace w @ es \<and> set es \<subseteq> A"
  proof (cases r)
    case (Inl e)
    with m have "tryP m h w = h e w'" by (simp add: tryP_def)
    with emits_trans [OF assms(2) es] show ?thesis by metis
  next
    case (Inr x)
    with m es show ?thesis by (simp add: tryP_def)
  qed
qed

lemma emits_finallyP [emits_intros]:
  assumes "emits A m" and "emits A f"
  shows "emits A (finallyP m f)"
  unfolding emits_def
proof
  fix w
  obtain r w' where m: "m w = (r, w')" by fastforce
  obtain es where es: "trace w' = trace w @ es" "set es \<subseteq> A"
    using emitsD [OF assms(1) m] by blast
  have "trace (snd (finallyP m f w)) = trace (snd (f w'))"
    using m by (auto simp: finallyP_def split: sum.splits prod.splits)
  with emits_trans [OF assms(2) es] show "\<exists>es. trace (snd (finallyP m f w)) = trace w @ es \<and> set es \<subseteq> A"
    by metis
qed

lemma emits_awaitP [emits_intros]: "emits A (awaitP env h)"
  by (simp add: awaitP_def emits_intros)

lemma emits_fetch [emits_intros]: "emits A (fetch env f)"
  by (simp add: fetch_def emits_intros)

lemma emits_txn [emits_intros]:
  assumes "emits A body"
  shows "emits A (txn env body)"
  unfolding txn_def
proof (rule emits_seqP [OF emits_suspend], unfold emits_def, rule allI)
  fix w
  obtain r w' where b: "body w = (r, w')" by fastforce
  from emitsD [OF assms b] show "\<exists>es. trace (snd (case body w of
       (Inl e, w') \<Rightarrow> (Inl e, w'\<lparr>shared := shared w, trace := trace w\<rparr>)
     | (Inr x, w') \<Rightarrow>
         (case fault env (ticks w') of
            Some msg \<Rightarrow> (Inl (DbError msg), w'\<lparr>shared := shared w, trace := trace w, ticks := Suc (ticks w')\<rparr>)
          | None \<Rightarrow> (Inr x, w'\<lparr>ticks := Suc (ticks w')\<rparr>)))) = trace w @ es \<and> set es \<subseteq> A"
    by (simp add: b split: sum.splits option.splits)
qed

lemma emits_for_each [emits_intros]: "(\<And>x. emits A (body x)) \<Longrightarrow> emits A (for_each xs body)"
  by (induction xs) (auto intro: emits_intros)

lemma emits_unlessP [emits_intros]: "emits A m \<Longrightarrow> emits A (unlessP b m)"
  by (simp add: unlessP_def emits_intros)

lemma emits_liftE [emits_intros]: "emits A (liftE r)"
  by (simp add: liftE_def emits_intros split: sum.splits)

lemma emits_if [emits_intros]: "emits A m \<Longrightarrow> emits A n \<Longrightarrow> emits A (if b then m else n)"
  by simp

lemma emits_case_option [emits_intros]:
  "emits A m \<Longrightarrow> (\<And>x. emits A (k x)) \<Longrightarrow> emits A (case v of None \<Rightarrow> m | Some x \<Rightarrow> k x)"
  by (cases v) simp_all

lemma emits_case_sum [emits_intros]:
  "(\<And>e. emits A (h e)) \<Longrightarrow> (\<And>x. emits A (k x)) \<Longrightarrow> emits A (case v of Inl e \<Rightarrow> h e | Inr x \<Rightarrow> k x)"
  by (cases v) simp_all

lemma emits_case_prod [emits_intros]:
  "(\<And>x y. emits A (k x y)) \<Longrightarrow> emits A (case v of (x, y) \<Rightarrow> k x y)"
  by (cases v) simp

text \<open>How emissions are used: a filter that no event of \<open>A\<close> passes leaves nothing of the run.\<close>

lemma emits_filter:
  assumes "emits A m" and "\<And>ev. ev \<in> A \<Longrightarrow> \<not> P ev"
  shows "filter P (trace (snd (m w))) = filter P (trace w)"
proof -
  obtain es where "trace (snd (m w)) = trace w @ es" "set es \<subseteq> A"
    using assms(1) by (auto simp: emits_def)
  moreover have "filter P es = []" using assms(2) calculation(2) by (auto simp: filter_empty_conv)
  ultimately show ?thesis by simp
qed

section \<open>Order of emissions\<close>

text \<open>
  \<open>leads P Q es\<close>: no \<open>Q\<close> event of the trace comes before the first \<open>P\<close> event.  \<open>precedes P Q m\<close>:
  that holds of what \<open>m\<close> emits; \<open>marks P m\<close>: when \<open>m\<close> returns normally it has emitted a \<open>P\<close> event.
\<close>

definition leads :: "('e \<Rightarrow> bool) \<Rightarrow> ('e \<Rightarrow> bool) \<Rightarrow> 'e list \<Rightarrow> bool" where
  "leads P Q es = list_all (\<lambda>e. \<not> Q e) (takeWhile (\<lambda>e. \<not> P e) es)"

definition precedes :: "('e \<Rightarrow> bool) \<Rightarrow> ('e \<Rightarrow> bool) \<Rightarrow> ('s, 'e, 'a) prog \<Rightarrow> bool" where
  "precedes P Q m \<longleftrightarrow> (\<forall>w. \<exists>es. trace (snd (m w)) = trace w @ es \<and> leads P Q es)"

definition marks :: "('e \<Rightarrow> bool) \<Rightarrow> ('s, 'e, 'a) prog \<Rightarrow> bool" where
  "marks P m \<longleftrightarrow>
     (\<forall>w x w'. m w = (Inr x, w') \<longrightarrow> (\<exists>es. trace w' = trace w @ es \<and> (\<exists>e \<in> set es. P e)))"

lemma leads_simps [simp]:
  "leads P Q []" "leads P Q (e # es) \<longleftrightarrow> P e \<or> (\<not> Q e \<and> leads P Q es)"
  by (auto simp: leads_def)

lemma leads_marked: "leads P Q es \<Longrightarrow> e \<in> set es \<Longrightarrow> P e \<Longrightarrow> leads P Q (es @ fs)"
  by (induction es) auto

lemma leads_append: "leads P Q es \<Longrightarrow> leads P Q fs \<Longrightarrow> leads P Q (es @ fs)"
  by (induction es) auto

lemma leads_none: "(\<And>e. e \<in> set es \<Longrightarrow> \<not> Q e) \<Longrightarrow> leads P Q es"
  by (induction es) auto

text \<open>What \<open>leads\<close> says by position.\<close>

lemma leads_nth: "leads P Q es \<Longrightarrow> i < length es \<Longrightarrow> Q (es ! i) \<Longrightarrow> \<exists>j \<le> i. P (es ! j)"
proof (induction es arbitrary: i)
  case (Cons e es)
  show ?case
  proof (cases "P e")
    case False
    with Cons.prems obtain k where k: "i = Suc k" by (cases i) auto
    with Cons False obtain j where "j \<le> k" "P (es ! j)" by auto
    with k show ?thesis by (intro exI [of _ "Suc j"]) simp
  qed force
qed simp

lemma precedes_emits: "emits A m \<Longrightarrow> (\<And>e. e \<in> A \<Longrightarrow> \<not> Q e) \<Longrightarrow> precedes P Q m"
  unfolding emits_def precedes_def using leads_none by (metis subsetD)

lemma precedes_bindP:
  assumes m: "precedes P Q m" and k: "\<And>x. precedes P Q (k x)"
  shows "precedes P Q (bindP m k)"
  unfolding precedes_def
proof
  fix w
  obtain r w' where r: "m w = (r, w')" by fastforce
  obtain es where es: "trace w' = trace w @ es" "leads P Q es"
    using m r unfolding precedes_def by (metis snd_conv)
  show "\<exists>es. trace (snd (bindP m k w)) = trace w @ es \<and> leads P Q es"
  proof (cases r)
    case (Inl e)
    with r es show ?thesis by (simp add: bindP_def)
  next
    case (Inr x)
    obtain fs where "trace (snd (k x w')) = trace w' @ fs" "leads P Q fs"
      using k unfolding precedes_def by blast
    with r es Inr leads_append [OF es(2)] show ?thesis by (auto simp: bindP_def)
  qed
qed

text \<open>Once the first half has emitted a \<open>P\<close> event the rest is free.\<close>

lemma precedes_bindP_marks:
  assumes m: "precedes P Q m" and mark: "marks P m" and k: "\<And>x. emits UNIV (k x)"
  shows "precedes P Q (bindP m k)"
  unfolding precedes_def
proof
  fix w
  obtain r w' where r: "m w = (r, w')" by fastforce
  obtain es where es: "trace w' = trace w @ es" "leads P Q es"
    using m r unfolding precedes_def by (metis snd_conv)
  show "\<exists>es. trace (snd (bindP m k w)) = trace w @ es \<and> leads P Q es"
  proof (cases r)
    case (Inl e)
    with r es show ?thesis by (simp add: bindP_def)
  next
    case (Inr x)
    obtain fs where fs: "trace (snd (k x w')) = trace w' @ fs"
      using k unfolding emits_def by blast
    obtain e where "e \<in> set es" "P e"
      using mark r Inr es(1) unfolding marks_def by (metis same_append_eq)
    with r es fs Inr show ?thesis by (auto simp: bindP_def intro!: leads_marked)
  qed
qed

text \<open>The case where only some results of the first half carry the mark.\<close>

lemma precedes_bindP_cases:
  assumes m: "precedes P Q m"
    and k: "\<And>w x w'. m w = (Inr x, w') \<Longrightarrow>
      (\<exists>es. trace w' = trace w @ es \<and> (\<exists>e \<in> set es. P e)) \<and> emits UNIV (k x) \<or> precedes P Q (k x)"
  shows "precedes P Q (bindP m k)"
  unfolding precedes_def
proof
  fix w
  obtain r w' where r: "m w = (r, w')" by fastforce
  obtain es where es: "trace w' = trace w @ es" "leads P Q es"
    using m r unfolding precedes_def by (metis snd_conv)
  show "\<exists>es. trace (snd (bindP m k w)) = trace w @ es \<and> leads P Q es"
  proof (cases r)
    case (Inl e)
    with r es show ?thesis by (simp add: bindP_def)
  next
    case (Inr x)
    from k [OF r [unfolded Inr]] consider
        e fs where "e \<in> set es" "P e" "trace (snd (k x w')) = trace w' @ fs"
      | fs where "trace (snd (k x w')) = trace w' @ fs" "leads P Q fs"
      using es(1) unfolding emits_def precedes_def by (metis same_append_eq)
    then show ?thesis
    proof cases
      case 1
      with r es Inr show ?thesis by (auto simp: bindP_def intro!: leads_marked)
    next
      case 2
      with r es Inr leads_append [OF es(2)] show ?thesis by (auto simp: bindP_def)
    qed
  qed
qed

lemma precedes_seqP: "precedes P Q m \<Longrightarrow> precedes P Q n \<Longrightarrow> precedes P Q (seqP m n)"
  unfolding seqP_def by (rule precedes_bindP)

lemma precedes_seqP_marks: "precedes P Q m \<Longrightarrow> marks P m \<Longrightarrow> emits UNIV n \<Longrightarrow> precedes P Q (seqP m n)"
  unfolding seqP_def by (rule precedes_bindP_marks)

lemma marks_emit: "P ev \<Longrightarrow> marks P (emit ev)"
  by (simp add: marks_def run_simps)

lemma marks_bindP_right:
  assumes "emits UNIV m" "\<And>x. marks P (k x)"
  shows "marks P (bindP m k)"
  unfolding marks_def
proof (intro allI impI)
  fix w x w' assume b: "bindP m k w = (Inr x, w')"
  obtain r w1 where r: "m w = (r, w1)" by fastforce
  with b obtain y where y: "r = Inr y" "k y w1 = (Inr x, w')" by (cases r) (auto simp: bindP_def)
  obtain es where "trace w1 = trace w @ es" using emitsD [OF assms(1) r] by blast
  moreover obtain fs where "trace w' = trace w1 @ fs" "\<exists>e \<in> set fs. P e"
    using assms(2) y(2) unfolding marks_def by blast
  ultimately show "\<exists>es. trace w' = trace w @ es \<and> (\<exists>e \<in> set es. P e)" by auto
qed

lemma marks_bindP_left:
  assumes "marks P m" "\<And>x. emits UNIV (k x)"
  shows "marks P (bindP m k)"
  unfolding marks_def
proof (intro allI impI)
  fix w x w' assume b: "bindP m k w = (Inr x, w')"
  obtain r w1 where r: "m w = (r, w1)" by fastforce
  with b obtain y where y: "r = Inr y" "k y w1 = (Inr x, w')" by (cases r) (auto simp: bindP_def)
  obtain es where "trace w1 = trace w @ es" "\<exists>e \<in> set es. P e"
    using assms(1) r y(1) unfolding marks_def by blast
  moreover obtain fs where "trace w' = trace w1 @ fs" using emitsD [OF assms(2) y(2)] by blast
  ultimately show "\<exists>es. trace w' = trace w @ es \<and> (\<exists>e \<in> set es. P e)" by auto
qed

lemma marks_seqP: "emits UNIV m \<Longrightarrow> marks P n \<Longrightarrow> marks P (seqP m n)"
  "marks P m \<Longrightarrow> emits UNIV n \<Longrightarrow> marks P (seqP m n)"
  unfolding seqP_def by (simp_all add: marks_bindP_right marks_bindP_left)

lemma marks_txn:
  assumes "marks P body" "emits UNIV body"
  shows "marks P (txn env body)"
  unfolding txn_def
proof (rule marks_seqP(1) [OF emits_suspend], unfold marks_def, intro allI impI)
  fix w x w'
  obtain r w1 where b: "body w = (r, w1)" by fastforce
  assume "(case body w of
       (Inl e, w') \<Rightarrow> (Inl e, w'\<lparr>shared := shared w, trace := trace w\<rparr>)
     | (Inr x, w') \<Rightarrow>
         (case fault env (ticks w') of
            Some msg \<Rightarrow> (Inl (DbError msg), w'\<lparr>shared := shared w, trace := trace w, ticks := Suc (ticks w')\<rparr>)
          | None \<Rightarrow> (Inr x, w'\<lparr>ticks := Suc (ticks w')\<rparr>))) = (Inr x, w')"
  with b obtain y where "r = Inr y" "trace w' = trace w1" by (auto split: sum.splits option.splits)
  with assms(1) b show "\<exists>es. trace w' = trace w @ es \<and> (\<exists>e \<in> set es. P e)"
    unfolding marks_def by metis
qed

text \<open>A first half that may return early; only its normal result reaches the rest.\<close>

lemma precedes_early:
  assumes m: "precedes P Q m" and k: "\<And>x. emits UNIV (k x)" and early: "\<And>y. precedes P Q (early y)"
    and mark: "\<And>w x w'. m w = (Inr (Inr x), w') \<Longrightarrow> \<exists>es. trace w' = trace w @ es \<and> (\<exists>e \<in> set es. P e)"
  shows "precedes P Q (bindP m (\<lambda>r. case r of Inl y \<Rightarrow> early y | Inr x \<Rightarrow> k x))"
proof (rule precedes_bindP_cases [OF m])
  fix w r w' assume run: "m w = (Inr r, w')"
  show "(\<exists>es. trace w' = trace w @ es \<and> (\<exists>e \<in> set es. P e)) \<and>
      emits UNIV (case r of Inl y \<Rightarrow> early y | Inr x \<Rightarrow> k x) \<or>
      precedes P Q (case r of Inl y \<Rightarrow> early y | Inr x \<Rightarrow> k x)"
    using run mark k early by (cases r) auto
qed

lemma precedes_case_sum:
  "(\<And>y. precedes P Q (h y)) \<Longrightarrow> (\<And>x. precedes P Q (k x)) \<Longrightarrow>
     precedes P Q (case r of Inl y \<Rightarrow> h y | Inr x \<Rightarrow> k x)"
  by (cases r) simp_all

lemma precedes_silent:
  "(\<And>A. emits A m) \<Longrightarrow> precedes P Q m"
  by (rule precedes_emits [of "{}"]) auto

section \<open>Normal returns\<close>

lemma bindP_returned:
  assumes "bindP m k w = (Inr y, w')"
  obtains x w1 where "m w = (Inr x, w1)" "k x w1 = (Inr y, w')"
  using assms by (cases "m w"; cases "fst (m w)") (auto simp: bindP_def)

lemma seqP_returned:
  assumes "seqP m n w = (Inr y, w')"
  obtains x w1 where "m w = (Inr x, w1)" "n w1 = (Inr y, w')"
  using assms unfolding seqP_def by (rule bindP_returned)

lemma finallyP_returned:
  assumes "finallyP m f w = (Inr y, w')"
  obtains w1 x where "m w = (Inr y, w1)" "f w1 = (Inr x, w')"
  using assms by (auto simp: finallyP_def split: prod.splits sum.splits)

section \<open>How a transaction runs\<close>

text \<open>The world its body starts from, once the other tasks have run.\<close>

definition entered :: "('s, 'z) env_scheme \<Rightarrow> ('s, 'e) world \<Rightarrow> ('s, 'e) world" where
  "entered env w = w\<lparr>shared := other env (ticks w) (shared w), ticks := Suc (ticks w)\<rparr>"

lemma entered_simps [simp]:
  "shared (entered env w) = other env (ticks w) (shared w)" "trace (entered env w) = trace w"
  "ticks (entered env w) = Suc (ticks w)"
  by (simp_all add: entered_def)

lemma run_fetch: "fetch env f w = (Inr (f (shared (entered env w))), entered env w)"
  by (simp add: fetch_def seqP_def bindP_def run_simps entered_def)

lemma txn_raised:
  assumes "body (entered env w) = (Inl e, w2)"
  shows "\<exists>w3. txn env body w = (Inl e, w3) \<and> shared w3 = shared (entered env w) \<and> trace w3 = trace w"
  using assms by (simp add: txn_def seqP_def bindP_def run_simps entered_def)

lemma txn_returned:
  assumes "body (entered env w) = (Inr x, w2)"
  obtains (committed) "fault env (ticks w2) = None" "txn env body w = (Inr x, w2\<lparr>ticks := Suc (ticks w2)\<rparr>)"
    | (rolled_back) m w3 where "txn env body w = (Inl (DbError m), w3)"
        "shared w3 = shared (entered env w)" "trace w3 = trace w"
  using assms
  by (cases "fault env (ticks w2)") (simp_all add: txn_def seqP_def bindP_def run_simps entered_def)

lemma txn_cases:
  assumes "txn env body w = (r, w')"
  obtains (ok) x w2 where "r = Inr x" "body (entered env w) = (Inr x, w2)" "shared w' = shared w2" "trace w' = trace w2"
    | (bad) e where "r = Inl e" "shared w' = shared (entered env w)" "trace w' = trace w"
proof (cases "body (entered env w)")
  case (Pair q w2)
  show ?thesis
  proof (cases q)
    case (Inl e)
    then show ?thesis using txn_raised [of body env w e w2] Pair assms bad by fastforce
  next
    case (Inr x)
    with Pair have b: "body (entered env w) = (Inr x, w2)" by simp
    from b show ?thesis
    proof (cases rule: txn_returned)
      case committed
      then show ?thesis using ok [of x w2] b assms by simp
    next
      case (rolled_back m w3)
      then show ?thesis using bad [of "DbError m"] assms by simp
    qed
  qed
qed

section \<open>Invariants of the store\<close>

text \<open>
  An invariant as a step relation, so that the rules of \<open>guar\<close> carry over; a value that was read
  comes from a store that satisfied the invariant.
\<close>

definition preserves :: "('s \<Rightarrow> bool) \<Rightarrow> 's \<Rightarrow> 's \<Rightarrow> bool" where
  "preserves I s t \<longleftrightarrow> (I s \<longrightarrow> I t)"

lemma preserves_rtranclp: "(preserves I)\<^sup>*\<^sup>* s t \<longleftrightarrow> preserves I s t"
proof
  show "(preserves I)\<^sup>*\<^sup>* s t \<Longrightarrow> preserves I s t"
    by (induction rule: rtranclp_induct) (auto simp: preserves_def)
qed auto

lemma guar_preserves: "guar (preserves I) m \<longleftrightarrow> (\<forall>w. I (shared w) \<longrightarrow> I (shared (snd (m w))))"
  by (simp add: guar_def preserves_rtranclp) (simp add: preserves_def)

lemma rely_preserves: "rely (preserves I) env \<longleftrightarrow> (\<forall>n s. I s \<longrightarrow> I (other env n s))"
  by (simp add: rely_def preserves_rtranclp) (simp add: preserves_def)

lemma guar_ask_bind:
  "(\<And>k. guar R (m (h k))) \<Longrightarrow> guar R (bindP (ask h) (m :: _ \<Rightarrow> ('s, 'e, 'a) prog))"
proof (rule guarI)
  fix w :: "('s, 'e) world" assume m: "\<And>k. guar R (m (h k))"
  have "R\<^sup>*\<^sup>* (shared (w\<lparr>ticks := Suc (ticks w)\<rparr>)) (shared (snd (m (h (ticks w)) (w\<lparr>ticks := Suc (ticks w)\<rparr>))))"
    using m [of "ticks w"] unfolding guar_def by blast
  then show "R\<^sup>*\<^sup>* (shared w) (shared (snd (bindP (ask h) m w)))" by (simp add: run_simps)
qed

lemma guar_fetch_bind:
  fixes k :: "'x \<Rightarrow> ('a, 'c, 'b) prog"
  assumes "rely (preserves I) env" and "\<And>s. I s \<Longrightarrow> guar (preserves I) (k (f s))"
  shows "guar (preserves I) (bindP (fetch env f) k)"
  unfolding guar_preserves
proof (intro allI impI)
  fix w :: "('a, 'c) world" assume "I (shared w)"
  then have i: "I (shared (entered env w))" using assms(1) by (simp add: rely_preserves)
  have "bindP (fetch env f) k w = k (f (shared (entered env w))) (entered env w)"
    by (simp add: bindP_def run_fetch)
  with i assms(2) [OF i] show "I (shared (snd (bindP (fetch env f) k w)))" by (simp add: guar_preserves)
qed

lemma guar_checked:
  fixes m :: "('s, 'e, 'a) prog"
  assumes "\<And>s. \<not> c s \<Longrightarrow> R s (g s)" and "guar R m"
  shows "guar R (bindP (getS c) (\<lambda>b. if b then raise e else seqP (modS g) m))"
proof (rule guarI)
  fix w :: "('s, 'e) world"
  show "R\<^sup>*\<^sup>* (shared w) (shared (snd (bindP (getS c) (\<lambda>b. if b then raise e else seqP (modS g) m) w)))"
  proof (cases "c (shared w)")
    case True
    then show ?thesis by (simp add: run_simps)
  next
    case False
    have "R\<^sup>*\<^sup>* (shared (w\<lparr>shared := g (shared w)\<rparr>)) (shared (snd (m (w\<lparr>shared := g (shared w)\<rparr>))))"
      using assms(2) unfolding guar_def by blast
    then have "R\<^sup>*\<^sup>* (shared w) (shared (snd (m (w\<lparr>shared := g (shared w)\<rparr>))))"
      using assms(1) [OF False] by (simp add: converse_rtranclp_into_rtranclp)
    with False show ?thesis by (simp add: run_simps seqP_def)
  qed
qed

text \<open>
  \<open>ensures J m Q\<close>: from a store that satisfies \<open>J\<close> the handler leaves one that satisfies \<open>Q\<close>, whether
  it returns or raises; up to the step that matters, \<open>J\<close> is kept.
\<close>

definition ensures :: "('s \<Rightarrow> bool) \<Rightarrow> ('s, 'e, 'a) prog \<Rightarrow> ('s \<Rightarrow> bool) \<Rightarrow> bool" where
  "ensures J m Q \<longleftrightarrow> (\<forall>w. J (shared w) \<longrightarrow> Q (shared (snd (m w))))"

lemma ensures_guar: "guar (preserves J) m \<Longrightarrow> (\<And>s. J s \<Longrightarrow> Q s) \<Longrightarrow> ensures J m Q"
  by (simp add: ensures_def guar_preserves)

lemma ensures_from: "guar (preserves Q) m \<Longrightarrow> (\<And>s. J s \<Longrightarrow> Q s) \<Longrightarrow> ensures J m Q"
  by (simp add: ensures_def guar_preserves)

lemma ensures_bindP:
  assumes "guar (preserves J) m" and "\<And>x. ensures J (k x) Q" and "\<And>s. J s \<Longrightarrow> Q s"
  shows "ensures J (bindP m k) Q"
  unfolding ensures_def
proof (intro allI impI)
  fix w :: "('a, 'b) world" assume J: "J (shared w)"
  obtain r w' where m: "m w = (r, w')" by fastforce
  with J assms(1) have "J (shared w')" by (metis guar_preserves snd_conv)
  with m assms(2,3) show "Q (shared (snd (bindP m k w)))"
    by (cases r) (simp_all add: bindP_def ensures_def)
qed

lemma ensures_seqP:
  "guar (preserves J) m \<Longrightarrow> ensures J n Q \<Longrightarrow> (\<And>s. J s \<Longrightarrow> Q s) \<Longrightarrow> ensures J (seqP m n) Q"
  unfolding seqP_def by (rule ensures_bindP)

lemma ensures_fetch_bind:
  assumes "rely (preserves J) env" and "\<And>s. J s \<Longrightarrow> ensures J (k (f s)) Q"
  shows "ensures J (bindP (fetch env f) k) Q"
  unfolding ensures_def
proof (intro allI impI)
  fix w :: "('a, 'c) world" assume "J (shared w)"
  then have "J (shared (entered env w))" using assms(1) by (simp add: rely_preserves)
  with assms(2) show "Q (shared (snd (bindP (fetch env f) k w)))"
    by (simp add: bindP_def run_fetch ensures_def del: entered_simps)
qed

lemma ensures_ask_bind:
  assumes "\<And>k. ensures J (m (h k)) Q"
  shows "ensures J (bindP (ask h) m) Q"
  unfolding ensures_def
proof (intro allI impI)
  fix w :: "('a, 'b) world" assume "J (shared w)"
  then have "J (shared (w\<lparr>ticks := Suc (ticks w)\<rparr>))" by simp
  with assms have "Q (shared (snd (m (h (ticks w)) (w\<lparr>ticks := Suc (ticks w)\<rparr>))))" unfolding ensures_def by blast
  then show "Q (shared (snd (bindP (ask h) m w)))" by (simp add: run_simps)
qed

lemma ensures_finallyP:
  assumes "ensures J m Q" and "guar (preserves Q) f"
  shows "ensures J (finallyP m f) Q"
  unfolding ensures_def
proof (intro allI impI)
  fix w :: "('a, 'b) world" assume J: "J (shared w)"
  obtain r w' where m: "m w = (r, w')" by fastforce
  with J assms(1) have "Q (shared w')" by (metis ensures_def snd_conv)
  with assms(2) have "Q (shared (snd (f w')))" by (simp add: guar_preserves)
  with m show "Q (shared (snd (finallyP m f w)))" by (auto simp: finallyP_def split: sum.splits prod.splits)
qed

end
