(* ===== verification/AuditLog.thy ===== *)
theory AuditLog
  imports Prelude
begin

text \<open>
  The audit log (kernel/db/audit.py).  A store that has an audit table extends \<open>audit_store\<close>;
  \<open>insert_audit\<close> writes one row on the caller's transaction and leaves the row in the trace of
  the task.  The JSON columns are kept as the mappings they encode.  Timestamps are
  microseconds since the epoch (the theory Timestamps shows why their text form may be
  compared in their place).
\<close>

record audit_row =
  a_id :: string
  a_who :: string
  a_what :: string
  a_when :: int
  a_before :: "json_object option"
  a_after :: "json_object option"
  a_ip :: "string option"

record audit_store =
  s_audits :: "audit_row list"

text \<open>What a task leaves in its trace: an audit row, or an act on the outside world.\<close>

datatype 'x event = Audit audit_row | Act 'x

text \<open>The environment also has the text of the current time, \<open>utc_now_iso()\<close>.\<close>

record 's tenv = "'s env" +
  now_iso :: "nat \<Rightarrow> string"

definition add_audit :: "audit_row \<Rightarrow> ('z) audit_store_scheme \<Rightarrow> 'z audit_store_scheme" where
  "add_audit row s = s\<lparr>s_audits := s_audits s @ [row]\<rparr>"

definition insert_audit ::
  "('z audit_store_scheme, 'y) env_scheme \<Rightarrow> string \<Rightarrow> string \<Rightarrow> json_object option \<Rightarrow>
   json_object option \<Rightarrow> string option \<Rightarrow> int option \<Rightarrow>
   ('z audit_store_scheme, 'x event, unit) prog" where
  "insert_audit env who what before after ip when =
     bindP (ask (uuid env)) (\<lambda>audit_id.
     bindP (case when of None \<Rightarrow> ask (clock env) | Some t \<Rightarrow> ret t) (\<lambda>t.
     let row = \<lparr>a_id = audit_id, a_who = who, a_what = what, a_when = t,
                a_before = before, a_after = after, a_ip = ip\<rparr>
     in seqP (modS (add_audit row)) (emit (Audit row))))"

text \<open>\<open>audit_write\<close>: the same row in a transaction of its own.\<close>

definition audit_write ::
  "('z audit_store_scheme, 'y) env_scheme \<Rightarrow> string \<Rightarrow> string \<Rightarrow> json_object option \<Rightarrow>
   json_object option \<Rightarrow> string option \<Rightarrow> ('z audit_store_scheme, 'x event, unit) prog" where
  "audit_write env who what before after ip =
     txn env (insert_audit env who what before after ip None)"

text \<open>The events that are audit rows of one kind, and the kinds a trace holds.\<close>

definition audits_of :: "string set \<Rightarrow> 'x event set" where
  "audits_of K = {Audit r | r. a_what r \<in> K}"

definition is_act :: "'x event \<Rightarrow> bool" where
  "is_act ev = (case ev of Act _ \<Rightarrow> True | Audit _ \<Rightarrow> False)"

definition acts :: "'x event list \<Rightarrow> 'x list" where
  "acts es = List.map_filter (\<lambda>ev. case ev of Act x \<Rightarrow> Some x | Audit _ \<Rightarrow> None) es"

definition audit_kinds :: "'x event list \<Rightarrow> string list" where
  "audit_kinds es = List.map_filter (\<lambda>ev. case ev of Audit r \<Rightarrow> Some (a_what r) | Act _ \<Rightarrow> None) es"

lemma acts_simps [simp]:
  "acts [] = []" "acts (Act x # es) = x # acts es" "acts (Audit r # es) = acts es"
  "acts (es @ fs) = acts es @ acts fs"
  by (simp_all add: acts_def List.map_filter_def)

lemma audit_kinds_simps [simp]:
  "audit_kinds [] = []" "audit_kinds (Act x # es) = audit_kinds es"
  "audit_kinds (Audit r # es) = a_what r # audit_kinds es"
  "audit_kinds (es @ fs) = audit_kinds es @ audit_kinds fs"
  by (simp_all add: audit_kinds_def List.map_filter_def)

lemma set_acts: "x \<in> set (acts es) \<longleftrightarrow> Act x \<in> set es"
  by (induction es) (auto split: event.splits simp: acts_def List.map_filter_def)

lemma audits_of_iff [simp]: "Audit r \<in> audits_of K \<longleftrightarrow> a_what r \<in> K"
  and Act_not_audits_of [simp]: "Act x \<notin> audits_of K"
  by (auto simp: audits_of_def)

lemma acts_no_Act: "(\<And>x. Act x \<notin> set es) \<Longrightarrow> acts es = []"
  by (metis list.exhaust list.set_intros(1) set_acts)

lemma add_audit_audits [simp]: "s_audits (add_audit row s) = s_audits s @ [row]"
  by (simp add: add_audit_def)

lemma guar_insert_audit:
  assumes "\<And>s row. R s (add_audit row s)"
  shows "guar R (insert_audit env who what before after ip when)"
  unfolding insert_audit_def Let_def
  by (intro guar_intros guar_modS_step) (rule assms)

lemma emits_insert_audit [emits_intros]:
  assumes "\<And>r. a_what r = what \<Longrightarrow> Audit r \<in> A"
  shows "emits A (insert_audit env who what before after ip when)"
  unfolding insert_audit_def Let_def
  by (intro emits_intros) (simp add: assms)

lemma run_insert_audit:
  "\<exists>row w'. insert_audit env who what before after ip when w = (Inr (), w') \<and>
     shared w' = add_audit row (shared w) \<and> trace w' = trace w @ [Audit row] \<and>
     a_what row = what \<and> a_who row = who \<and> a_after row = after"
  by (cases "when") (simp_all add: insert_audit_def bindP_def seqP_def Let_def run_simps)

text \<open>The log only grows: what every step of the program keeps.\<close>

definition audit_prefix :: "('z) audit_store_scheme \<Rightarrow> ('y) audit_store_scheme \<Rightarrow> bool" where
  "audit_prefix s t \<longleftrightarrow> (\<exists>rows. s_audits t = s_audits s @ rows)"

lemma audit_prefix_refl [simp]: "audit_prefix s s"
  by (simp add: audit_prefix_def)

lemma audit_prefix_trans: "audit_prefix s t \<Longrightarrow> audit_prefix t u \<Longrightarrow> audit_prefix s u"
  by (auto simp: audit_prefix_def)

text \<open>An audit row of one kind as a mark of the trace.\<close>

definition audits_what :: "string \<Rightarrow> 'x event \<Rightarrow> bool" where
  "audits_what what ev = (case ev of Audit r \<Rightarrow> a_what r = what | Act _ \<Rightarrow> False)"

lemma audits_what_simps [simp]:
  "audits_what k (Audit r) \<longleftrightarrow> a_what r = k" "\<not> audits_what k (Act x)"
  by (simp_all add: audits_what_def)

lemma marks_insert_audit:
  "marks (audits_what what) (insert_audit env who what before after ip when)"
  unfolding marks_def
proof (intro allI impI)
  fix w x w' assume run: "insert_audit env who what before after ip when w = (Inr x, w')"
  obtain row where "trace w' = trace w @ [Audit row]" "a_what row = what"
    using run_insert_audit [of env who what before after ip "when" w] run by auto
  then show "\<exists>es. trace w' = trace w @ es \<and> (\<exists>e \<in> set es. audits_what what e)" by simp
qed

lemma marks_audit: "marks (audits_what what) (txn env (insert_audit env who what before after ip when))"
  by (rule marks_txn [OF marks_insert_audit]) (intro emits_intros, simp)

lemma audit_txn_returned:
  assumes "txn env (insert_audit env who what before after ip when) w = (Inr (), w')"
  shows "\<exists>row. trace w' = trace w @ [Audit row] \<and> a_what row = what \<and> a_who row = who \<and> a_after row = after"
proof -
  obtain row w2 where r: "insert_audit env who what before after ip when (entered env w) = (Inr (), w2)"
    "trace w2 = trace w @ [Audit row]" "a_what row = what" "a_who row = who" "a_after row = after"
    using run_insert_audit [where w = "entered env w"] by fastforce
  from r(1) show ?thesis by (cases rule: txn_returned) (use assms r in auto)
qed

end

