(* ===== verification/AutofixTypes.thy ===== *)
theory AutofixTypes
  imports AuditLog
begin

text \<open>
  The vocabulary of the auto-fix subsystem (kernel/autofix/types.py, the records of
  kernel/runbooks and kernel/autofix, \<open>FixerRunnerConfig\<close> of kernel/config.py): denial reasons,
  run results, grants, the rows of the tables, the store that holds them with the process-wide
  objects of the orchestrator, the acts on the outside world, and the environment.  Durations
  and times are integers in microseconds.
\<close>

section \<open>Enumerations\<close>

datatype denial_reason =
    KILL_SWITCH | ALLOW_LIST | RATE_LIMIT | COOLDOWN | AMBIGUOUS_MATCH | ALREADY_RUNNING
  | CLAIM_ERROR | APPROVAL_NOT_PENDING | RUNBOOK_CHANGED | RUNBOOK_MISSING

fun denial_value :: "denial_reason \<Rightarrow> string" where
  "denial_value KILL_SWITCH = ''kill_switch''"
| "denial_value ALLOW_LIST = ''allow_list''"
| "denial_value RATE_LIMIT = ''rate_limit''"
| "denial_value COOLDOWN = ''cooldown''"
| "denial_value AMBIGUOUS_MATCH = ''ambiguous_match''"
| "denial_value ALREADY_RUNNING = ''already_running''"
| "denial_value CLAIM_ERROR = ''claim_error''"
| "denial_value APPROVAL_NOT_PENDING = ''approval_not_pending''"
| "denial_value RUNBOOK_CHANGED = ''runbook_changed''"
| "denial_value RUNBOOK_MISSING = ''runbook_missing''"

datatype run_outcome = RAN | DENIED | DRY_RUN_STORED

datatype run_mode = REAL | DRY_RUN

fun mode_value :: "run_mode \<Rightarrow> string" where
  "mode_value REAL = ''real''"
| "mode_value DRY_RUN = ''dry_run''"

datatype initiated_by = ByAlert | ByOperator

fun initiator_value :: "initiated_by \<Rightarrow> string" where
  "initiator_value ByAlert = ''alert''"
| "initiator_value ByOperator = ''operator''"

datatype feedback_kind =
    MISSING_CAPABILITY | CONFIG_CHANGE | RUNBOOK_GAP | BLOCKED | WORKED_AROUND | OTHER | PARSE_ERROR

fun feedback_value :: "feedback_kind \<Rightarrow> string" where
  "feedback_value MISSING_CAPABILITY = ''missing_capability''"
| "feedback_value CONFIG_CHANGE = ''config_change''"
| "feedback_value RUNBOOK_GAP = ''runbook_gap''"
| "feedback_value BLOCKED = ''blocked''"
| "feedback_value WORKED_AROUND = ''worked_around''"
| "feedback_value OTHER = ''other''"
| "feedback_value PARSE_ERROR = ''parse_error''"

definition all_feedback_kinds :: "feedback_kind list" where
  "all_feedback_kinds =
     [MISSING_CAPABILITY, CONFIG_CHANGE, RUNBOOK_GAP, BLOCKED, WORKED_AROUND, OTHER, PARSE_ERROR]"

text \<open>\<open>FeedbackKind(raw)\<close>: \<open>None\<close> is the ValueError.\<close>

definition feedback_of_value :: "string \<Rightarrow> feedback_kind option" where
  "feedback_of_value v = List.find (\<lambda>k. feedback_value k = v) all_feedback_kinds"

section \<open>Results\<close>

record run_result =
  rr_ran :: bool
  rr_outcome :: run_outcome
  rr_runbook_id :: "string option"
  rr_run_id :: "string option"
  rr_exit_code :: "int option"
  rr_denial :: "denial_reason option"
  rr_approval_id :: "string option"

text \<open>The result every denial of the orchestrator returns.\<close>

definition denied :: "string option \<Rightarrow> denial_reason \<Rightarrow> string option \<Rightarrow> run_result" where
  "denied runbook_id reason approval_id =
     \<lparr>rr_ran = False, rr_outcome = DENIED, rr_runbook_id = runbook_id, rr_run_id = None,
      rr_exit_code = None, rr_denial = Some reason, rr_approval_id = approval_id\<rparr>"

record resolved_grants =
  g_docker_container :: "string option"
  g_docker_allowed_actions :: "string list"
  g_ssh_target_id :: "string option"
  g_egress :: "string list"

record exec_result =
  x_exit_code :: int
  x_stdout :: string
  x_stderr :: string

record parsed_feedback_item =
  pf_kind :: feedback_kind
  pf_text :: string
  pf_hint :: "json_object option"

record exec_outcome =
  eo_exec_result :: exec_result
  eo_transcript_path :: "string option"
  eo_error_msg :: "string option"
  eo_errored :: bool
  eo_feedback_items :: "parsed_feedback_item list option"
  eo_grants :: "resolved_grants option"

record kill_result =
  k_killed :: bool
  k_run_id :: "string option"
  k_reason :: string
  k_error :: "string option"
  k_unwind_warning :: "string option"

record current_run =
  c_run_id :: string
  c_container :: string
  c_started_at_monotonic :: int

section \<open>Rows\<close>

record runbook =
  rb_id :: string
  rb_path :: string
  rb_created_at :: int
  rb_patterns :: "json list"
  rb_risk_tag :: string
  rb_dry_run_required :: bool
  rb_rate_limit :: "int option"
  rb_cooldown :: "int option"
  rb_enabled :: bool
  rb_auto_trigger :: bool
  rb_hash :: "string option"

record run_row =
  r_id :: string
  r_runbook_id :: string
  r_created_at :: int
  r_alert_id :: "string option"
  r_mode :: string
  r_prompt :: "string option"
  r_started_at :: int
  r_ended_at :: "int option"
  r_fixer_user :: "string option"
  r_host :: "string option"
  r_hash :: "string option"
  r_transcript_path :: "string option"
  r_exit_code :: "int option"
  r_initiated_by :: string
  r_killed_at :: "int option"
  r_transcript_pruned_at :: "int option"

record approval =
  ap_id :: string
  ap_dry_run_id :: string
  ap_runbook_id :: string
  ap_alert_id :: "string option"
  ap_pinned_hash :: "string option"
  ap_status :: string
  ap_approved_by :: "string option"
  ap_decided_at :: "int option"
  ap_real_run_id :: "string option"
  ap_created_at :: int

record outcome_row =
  o_id :: string
  o_alert_id :: string
  o_outcome :: string
  o_decided_at :: int
  o_decided_by :: string
  o_created_at :: int

record feedback_row =
  fb_id :: string
  fb_run_id :: string
  fb_kind :: string
  fb_text :: string
  fb_hint :: "json_object option"
  fb_created_at :: int

text \<open>The fields of an alert that the orchestrator reads.\<close>

record alert =
  al_id :: string
  al_labels :: "(string \<times> string) list"

section \<open>The store\<close>

text \<open>
  The tables of the subsystem and the objects the orchestrator shares between tasks: the
  in-flight handle (\<open>_current_run\<close>) and the per-runbook locks that are held.
\<close>

record store = audit_store +
  s_runbooks :: "runbook list"
  s_runs :: "run_row list"
  s_approvals :: "approval list"
  s_outcomes :: "outcome_row list"
  s_feedback :: "feedback_row list"
  s_settings :: "(string \<times> string) list"
  s_alerts :: "alert list"
  s_current :: "current_run option"
  s_locks :: "string list"

section \<open>Configuration, acts and environment\<close>

record fixer_config =
  fc_container :: string
  fc_transcript_dir :: string
  fc_exec_log_dir :: string
  fc_fixer_user :: string
  fc_exec_timeout :: int
  fc_rotation_max_count :: int
  fc_rotation_max_age_days :: int
  fc_proxy_container :: string
  fc_allowlist_path :: string
  fc_baseline_hostnames :: "string list"
  fc_reconfigure_timeout :: int

record exec_request =
  q_container :: string
  q_cmd :: "string list"
  q_user :: "string option"
  q_env :: "(string \<times> string) list option"
  q_timeout :: int

datatype act =
    ExecIn exec_request
  | RestartContainer string
  | KillContainer string string int
  | WriteFile string string

text \<open>What the scoped capabilities of a validated runbook config hold.\<close>

record docker_capability =
  dc_container :: string
  dc_allowed_actions :: "string list"

record scoped_capabilities =
  sc_docker :: "docker_capability option"
  sc_ssh_target :: "string option"
  sc_egress :: "string list"

datatype load_error = LoadOSError string | LoadYAMLError string | LoadValueError string

text \<open>What reading a file and passing it to \<open>json.loads\<close> gives.\<close>

datatype json_file = NoFile | ReadFailed string | NotJson string string | Json string json

record container_entry =
  ce_names :: "string list"
  ce_state :: string
  ce_id :: string

text \<open>
  The answers of the environment, each a function of the number of the question: the
  monotonic clock, the Docker daemon, the file system, the YAML loader, the secrets store and
  the SSH registry.
\<close>

record aenv = "store env" +
  monotonic :: "nat \<Rightarrow> int"
  d_exec_capture :: "nat \<Rightarrow> exec_request \<Rightarrow> docker_error + exec_result"
  d_restart :: "nat \<Rightarrow> string \<Rightarrow> docker_error option"
  d_kill :: "nat \<Rightarrow> string \<Rightarrow> docker_error option"
  d_list_containers :: "nat \<Rightarrow> docker_error + container_entry list"
  os_listdir :: "nat \<Rightarrow> string \<Rightarrow> string list option"
  os_getmtime :: "nat \<Rightarrow> string \<Rightarrow> int option"
  os_makedirs :: "nat \<Rightarrow> string \<Rightarrow> string option"
  os_write :: "nat \<Rightarrow> string \<Rightarrow> string option"
  os_exists :: "nat \<Rightarrow> string \<Rightarrow> bool"
  os_resolve :: "string \<Rightarrow> string list option"
  json_read :: "nat \<Rightarrow> string \<Rightarrow> json_file"
  text_read :: "nat \<Rightarrow> string \<Rightarrow> string option"
  load_config :: "nat \<Rightarrow> string \<Rightarrow> load_error + scoped_capabilities"
  ssh_target_ids :: "nat \<Rightarrow> string + string list"
  get_secret :: "nat \<Rightarrow> string \<Rightarrow> string + string option"
  feedback_fault :: "nat \<Rightarrow> string option"
  validation_msg :: "json \<Rightarrow> string"
  hostname :: string

type_synonym 'a afx = "(store, act event, 'a) prog"

text \<open>\<open>_CurrentRun\<close> and the locks: the only process-wide writes.\<close>

definition set_current :: "current_run option \<Rightarrow> store \<Rightarrow> store" where
  "set_current c s = s\<lparr>s_current := c\<rparr>"

definition hold_lock :: "string \<Rightarrow> store \<Rightarrow> store" where
  "hold_lock i s = s\<lparr>s_locks := i # s_locks s\<rparr>"

definition release_lock :: "string \<Rightarrow> store \<Rightarrow> store" where
  "release_lock i s = s\<lparr>s_locks := remove1 i (s_locks s)\<rparr>"

text \<open>\<open>async with self._lock_for(id)\<close>: the wait is a suspension.\<close>

definition with_lock :: "(store, 'z) env_scheme \<Rightarrow> string \<Rightarrow> 'a afx \<Rightarrow> 'a afx" where
  "with_lock env i m =
     seqP (suspend env) (seqP (modS (hold_lock i)) (finallyP m (modS (release_lock i))))"

lemmas process_defs = set_current_def hold_lock_def release_lock_def

section \<open>The settings table (app_settings_repository.py)\<close>

definition setting_of :: "string \<Rightarrow> store \<Rightarrow> string option" where
  "setting_of k s = map_of (s_settings s) k"

definition set_setting :: "string \<Rightarrow> string \<Rightarrow> store \<Rightarrow> store" where
  "set_setting k v s = s\<lparr>s_settings := dict_set k v (s_settings s)\<rparr>"

definition delete_setting :: "string \<Rightarrow> store \<Rightarrow> bool \<times> store" where
  "delete_setting k s =
     (k \<in> fst ` set (s_settings s), s\<lparr>s_settings := filter (\<lambda>(k', _). k' \<noteq> k) (s_settings s)\<rparr>)"

definition is_truthy :: "string option \<Rightarrow> bool" where
  "is_truthy v =
     (case v of None \<Rightarrow> False | Some s \<Rightarrow> lower (strip s) \<in> {''true'', ''1'', ''yes''})"

lemma setting_after_set: "setting_of k (set_setting k' v s) = (if k = k' then Some v else setting_of k s)"
  by (simp add: setting_of_def set_setting_def)

lemma setting_after_delete: "setting_of k (snd (delete_setting k' s)) = (if k = k' then None else setting_of k s)"
proof -
  have "map_of (filter (\<lambda>(x, _). x \<noteq> k') d) k = (if k = k' then None else map_of d k)" for d :: "(string \<times> string) list"
    by (induction d) auto
  then show ?thesis by (simp add: setting_of_def delete_setting_def)
qed

lemma feedback_value_inject: "feedback_of_value (feedback_value k) = Some k"
  by (cases k) (simp_all add: feedback_of_value_def all_feedback_kinds_def)

text \<open>
  A quiet environment, for concrete runs: no other task, no fault, a clock that ticks once per
  question, a daemon that answers every request, an empty file system.
\<close>

definition calm_env :: aenv where
  "calm_env =
     \<lparr>other = (\<lambda>_ s. s), fault = (\<lambda>_. None), clock = (\<lambda>n. int n), uuid = (\<lambda>n. str_of_nat n),
      monotonic = (\<lambda>n. int n), d_exec_capture = (\<lambda>_ _. Inr \<lparr>x_exit_code = 0, x_stdout = [], x_stderr = []\<rparr>),
      d_restart = (\<lambda>_ _. None), d_kill = (\<lambda>_ _. None), d_list_containers = (\<lambda>_. Inr []),
      os_listdir = (\<lambda>_ _. Some []), os_getmtime = (\<lambda>_ _. None), os_makedirs = (\<lambda>_ _. None),
      os_write = (\<lambda>_ _. None), os_exists = (\<lambda>_ _. False), os_resolve = (\<lambda>_. None),
      json_read = (\<lambda>_ _. NoFile), text_read = (\<lambda>_ _. None),
      load_config = (\<lambda>_ _. Inr \<lparr>sc_docker = None, sc_ssh_target = None, sc_egress = []\<rparr>),
      ssh_target_ids = (\<lambda>_. Inr []), get_secret = (\<lambda>_ _. Inr None), feedback_fault = (\<lambda>_. None),
      validation_msg = (\<lambda>_. []), hostname = ''monitor''\<rparr>"

definition empty_store :: store where
  "empty_store =
     \<lparr>s_audits = [], s_runbooks = [], s_runs = [], s_approvals = [], s_outcomes = [], s_feedback = [],
      s_settings = [], s_alerts = [], s_current = None, s_locks = []\<rparr>"

end
