(* ===== verification/Timestamps.thy ===== *)
theory Timestamps
  imports Prelude
begin

text \<open>
  The timestamps of the database (kernel/db/time.py).  Every column holds the text of
  \<open>datetime.isoformat()\<close> and the queries compare texts.  Here: the text form of a UTC datetime
  with its quirk (no fraction when the microsecond is 0), the instant it denotes, and that the
  order of the texts is the order of the instants, so that the repositories may be modelled on
  instants.  \<open>rotator_cutoff_text\<close> is the one place that writes another suffix.
\<close>

datatype datetime = DT (year: nat) (month: nat) (day: nat) (hour: nat) (minute: nat) (second: nat) (micro: nat)

definition is_leap :: "nat \<Rightarrow> bool" where
  "is_leap y \<longleftrightarrow> y mod 4 = 0 \<and> (y mod 100 \<noteq> 0 \<or> y mod 400 = 0)"

definition month_len :: "nat \<Rightarrow> nat \<Rightarrow> nat" where
  "month_len y m =
     (if m = 2 then if is_leap y then 29 else 28 else if m \<in> {4, 6, 9, 11} then 30 else 31)"

fun days_before_month :: "nat \<Rightarrow> nat \<Rightarrow> nat" where
  "days_before_month y 0 = 0"
| "days_before_month y (Suc m) = (if m = 0 then 0 else days_before_month y m + month_len y m)"

fun days_before_year :: "nat \<Rightarrow> nat" where
  "days_before_year 0 = 0"
| "days_before_year (Suc y) = days_before_year y + (if is_leap y then 366 else 365)"

definition valid_datetime :: "datetime \<Rightarrow> bool" where
  "valid_datetime d \<longleftrightarrow> 1 \<le> year d \<and> year d \<le> 9999 \<and> 1 \<le> month d \<and> month d \<le> 12 \<and>
     1 \<le> day d \<and> day d \<le> month_len (year d) (month d) \<and>
     hour d < 24 \<and> minute d < 60 \<and> second d < 60 \<and> micro d < 1000000"

text \<open>Microseconds since the start of year 0 of the proleptic calendar.\<close>

definition day_number :: "datetime \<Rightarrow> nat" where
  "day_number d = days_before_year (year d) + days_before_month (year d) (month d) + (day d - 1)"

definition instant :: "datetime \<Rightarrow> nat" where
  "instant d = (((day_number d * 24 + hour d) * 60 + minute d) * 60 + second d) * 1000000 + micro d"

definition digit :: "nat \<Rightarrow> char" where
  "digit n = char_of (48 + n)"

fun digits :: "nat \<Rightarrow> nat \<Rightarrow> string" where
  "digits 0 n = []"
| "digits (Suc k) n = digits k (n div 10) @ [digit (n mod 10)]"

definition iso_seconds :: "datetime \<Rightarrow> string" where
  "iso_seconds d = digits 4 (year d) @ ''-'' @ digits 2 (month d) @ ''-'' @ digits 2 (day d) @ ''T'' @
     digits 2 (hour d) @ '':'' @ digits 2 (minute d) @ '':'' @ digits 2 (second d)"

definition iso_micros :: "datetime \<Rightarrow> string" where
  "iso_micros d = (if micro d = 0 then [] else ''.'' @ digits 6 (micro d))"

definition utc_now_iso :: "datetime \<Rightarrow> string" where
  "utc_now_iso d = iso_seconds d @ iso_micros d @ ''+00:00''"

text \<open>\<open>cutoff.isoformat().replace("+00:00", "Z")\<close> in the transcript rotator.\<close>

definition rotator_cutoff_text :: "datetime \<Rightarrow> string" where
  "rotator_cutoff_text d = iso_seconds d @ iso_micros d @ ''Z''"

section \<open>Instants follow the components\<close>

lemma days_before_month_bound:
  assumes "1 \<le> m" "m \<le> 12" "d \<le> month_len y m"
  shows "days_before_month y m + d \<le> (if is_leap y then 366 else 365)"
proof -
  have "m \<in> {1,2,3,4,5,6,7,8,9,10,11,12}" using assms(1,2) unfolding insert_iff empty_iff by arith
  then show ?thesis using assms(3) by (auto simp: eval_nat_numeral month_len_def split: if_splits)
qed

lemma days_before_year_mono: "y < y' \<Longrightarrow> days_before_year y + (if is_leap y then 366 else 365) \<le> days_before_year y'"
proof (induction y')
  case (Suc n)
  then show ?case by (cases "y = n") auto
qed simp

lemma days_before_month_mono:
  assumes "1 \<le> m" "m < m'" shows "days_before_month y m + month_len y m \<le> days_before_month y m'"
  using assms(2)
proof (induction m')
  case (Suc n)
  with assms(1) show ?case by (cases "m = n") auto
qed simp

lemma day_number_less:
  assumes "valid_datetime d" "valid_datetime e"
    and "year d < year e \<or> year d = year e \<and> (month d < month e \<or> month d = month e \<and> day d < day e)"
  shows "day_number d < day_number e"
proof -
  have d: "1 \<le> month d" "month d \<le> 12" "1 \<le> day d" "day d \<le> month_len (year d) (month d)"
    and e: "1 \<le> day e" using assms(1,2) by (simp_all add: valid_datetime_def)
  consider "year d < year e" | "year d = year e" "month d < month e"
    | "year d = year e" "month d = month e" "day d < day e" using assms(3) by blast
  then show ?thesis
  proof cases
    case 1
    with days_before_month_bound [OF d(1,2,4)] days_before_year_mono [OF 1] d(3) show ?thesis
      by (simp add: day_number_def)
  next
    case 2
    with days_before_month_mono [OF d(1) 2(2), of "year d"] d e show ?thesis by (simp add: day_number_def)
  next
    case 3
    with d show ?thesis by (simp add: day_number_def)
  qed
qed

text \<open>The sort key of a datetime, most significant component first.\<close>

definition dt_key :: "datetime \<Rightarrow> nat list" where
  "dt_key d = [year d, month d, day d, hour d, minute d, second d, micro d]"

lemma mult_add_less: "(a::nat) < b \<Longrightarrow> r < k \<Longrightarrow> a * k + r < b * k + s"
proof -
  assume "a < b" "r < k"
  then have "a * k + r < a * k + k" by simp
  also have "\<dots> = (a + 1) * k" by (simp add: algebra_simps)
  also have "\<dots> \<le> b * k" using \<open>a < b\<close> by (intro mult_right_mono) simp_all
  finally show ?thesis by simp
qed

lemma instant_less:
  assumes "valid_datetime d" "valid_datetime e" "dt_key d < dt_key e"
  shows "instant d < instant e"
proof -
  have b: "hour d < 24" "minute d < 60" "second d < 60" "micro d < 1000000"
    using assms(1) by (simp_all add: valid_datetime_def)
  define p1 p2 p3 where "p1 x = day_number x * 24 + hour x"
    and "p2 x = p1 x * 60 + minute x" and "p3 x = p2 x * 60 + second x" for x
  have inst: "instant x = p3 x * 1000000 + micro x" for x
    by (simp add: instant_def p1_def p2_def p3_def)
  let ?day = "year d < year e \<or> year d = year e \<and> (month d < month e \<or> month d = month e \<and> day d < day e)"
  have up: "p1 d < p1 e \<Longrightarrow> instant d < instant e" "p2 d < p2 e \<Longrightarrow> instant d < instant e"
    "p3 d < p3 e \<Longrightarrow> instant d < instant e"
    using b by (auto simp: inst p3_def p2_def intro!: mult_add_less)
  consider ?day
    | "day_number d = day_number e" "hour d < hour e"
    | "p1 d = p1 e" "minute d < minute e"
    | "p2 d = p2 e" "second d < second e"
    | "p3 d = p3 e" "micro d < micro e"
    using assms(3) by (auto simp: dt_key_def p1_def p2_def p3_def day_number_def)
  then show ?thesis
  proof cases
    case 1
    from day_number_less [OF assms(1,2) 1] b have "p1 d < p1 e"
      by (auto simp: p1_def intro!: mult_add_less)
    then show ?thesis by (rule up)
  next
    case 2 then have "p1 d < p1 e" by (simp add: p1_def) then show ?thesis by (rule up)
  next
    case 3 then have "p2 d < p2 e" by (simp add: p2_def) then show ?thesis by (rule up)
  next
    case 4 then have "p3 d < p3 e" by (simp add: p3_def) then show ?thesis by (rule up)
  next
    case 5 then show ?thesis by (simp add: inst)
  qed
qed

section \<open>Texts follow the components\<close>

text \<open>Lexicographic order of equally long blocks, then of the rest.\<close>

lemma append_less_iff:
  fixes u v x y :: "'a::linorder list"
  shows "length u = length v \<Longrightarrow> u @ x < v @ y \<longleftrightarrow> u < v \<or> u = v \<and> x < y"
  by (induction u v rule: list_induct2) auto

lemma length_digits [simp]: "length (digits k n) = k"
  by (induction k arbitrary: n) simp_all

lemma digit_less: "a < 10 \<Longrightarrow> b < 10 \<Longrightarrow> digit a < digit b \<longleftrightarrow> a < b"
  by (simp add: digit_def less_char_def)

lemma digits_order:
  "m < 10 ^ k \<Longrightarrow> n < 10 ^ k \<Longrightarrow>
     (digits k m < digits k n \<longleftrightarrow> m < n) \<and> (digits k m = digits k n \<longleftrightarrow> m = n)"
proof (induction k arbitrary: m n)
  case (Suc k)
  have "m div 10 < 10 ^ k" "n div 10 < 10 ^ k"
    using Suc.prems by (simp_all add: less_mult_imp_div_less)
  note IH = Suc.IH [OF this]
  have d: "digit (m mod 10) = digit (n mod 10) \<longleftrightarrow> m mod 10 = n mod 10"
    using digit_less [of "m mod 10" "n mod 10"] digit_less [of "n mod 10" "m mod 10"]
    by (metis less_irrefl linorder_neqE_nat mod_less_divisor zero_less_numeral)
  have l: "digit (m mod 10) < digit (n mod 10) \<longleftrightarrow> m mod 10 < n mod 10"
    by (rule digit_less) simp_all
  have split: "\<exists>a r. x div 10 = a \<and> x mod 10 = r \<and> r < 10 \<and> x = 10 * a + r" for x :: nat
    by simp
  obtain a r where a: "m div 10 = a" "m mod 10 = r" "r < 10" "m = 10 * a + r" using split by blast
  obtain b t where b: "n div 10 = b" "n mod 10 = t" "t < 10" "n = 10 * b + t" using split by blast
  have lt: "a < b \<or> a = b \<and> r < t \<longleftrightarrow> m < n" and eq: "a = b \<and> r = t \<longleftrightarrow> m = n"
    using a(3,4) b(3,4) by arith+
  show ?case using IH [unfolded a b] d [unfolded a b] l [unfolded a b] lt eq a(1,2) b(1,2)
    by (simp add: append_less_iff)
qed simp

lemmas digits_less = digits_order [THEN conjunct1]
  and digits_eq = digits_order [THEN conjunct2]

text \<open>The fraction is absent for microsecond 0, and the suffix after it starts with a plus sign,
  which sorts before the dot: the order is kept all the same.\<close>

lemma micros_less:
  assumes "micro d < 1000000" "micro e < 1000000"
  shows "iso_micros d @ ''+00:00'' < iso_micros e @ ''+00:00'' \<longleftrightarrow> micro d < micro e"
proof -
  have "(10::nat) ^ 6 = 1000000" by simp
  with digits_less [of "micro d" 6 "micro e"] digits_eq [of "micro d" 6 "micro e"] assms show ?thesis
    by (auto simp: iso_micros_def append_less_iff)
qed

lemma iso_seconds_less:
  assumes "valid_datetime d" "valid_datetime e"
  shows "iso_seconds d < iso_seconds e \<longleftrightarrow> take 6 (dt_key d) < take 6 (dt_key e)"
    and "iso_seconds d = iso_seconds e \<longleftrightarrow> take 6 (dt_key d) = take 6 (dt_key e)"
proof -
  have len: "month_len y m < 100" for y m by (simp add: month_len_def)
  have b: "year x < 10 ^ 4 \<and> month x < 10\<^sup>2 \<and> day x < 10\<^sup>2 \<and> hour x < 10\<^sup>2 \<and> minute x < 10\<^sup>2 \<and> second x < 10\<^sup>2"
    if "valid_datetime x" for x
    using that len [of "year x" "month x"] by (auto simp: valid_datetime_def)
  note bd = b [OF assms(1)] and be = b [OF assms(2)]
  show "iso_seconds d = iso_seconds e \<longleftrightarrow> take 6 (dt_key d) = take 6 (dt_key e)"
    using bd be by (simp add: iso_seconds_def dt_key_def digits_eq)
  show "iso_seconds d < iso_seconds e \<longleftrightarrow> take 6 (dt_key d) < take 6 (dt_key e)"
    using bd be by (auto simp: iso_seconds_def dt_key_def digits_eq digits_less append_less_iff)
qed

lemma length_iso_seconds [simp]: "length (iso_seconds d) = 19"
  by (simp add: iso_seconds_def)

lemma iso_less_iff_key:
  assumes "valid_datetime d" "valid_datetime e"
  shows "utc_now_iso d < utc_now_iso e \<longleftrightarrow> dt_key d < dt_key e"
proof -
  have "micro d < 1000000" "micro e < 1000000" using assms by (simp_all add: valid_datetime_def)
  from micros_less [OF this] iso_seconds_less [OF assms] show ?thesis
    by (auto simp: utc_now_iso_def append_less_iff dt_key_def)
qed

lemma key_inject: "dt_key d = dt_key e \<longleftrightarrow> d = e"
  by (cases d; cases e) (simp add: dt_key_def)

lemma key_less_iff_instant:
  assumes "valid_datetime d" "valid_datetime e"
  shows "dt_key d < dt_key e \<longleftrightarrow> instant d < instant e"
proof -
  consider "dt_key d < dt_key e" | "d = e" | "dt_key e < dt_key d"
    using key_inject [of d e] by fastforce
  then show ?thesis
  proof cases
    case 1 with instant_less [OF assms 1] show ?thesis by simp
  next
    case 2 then show ?thesis by simp
  next
    case 3 with instant_less [OF assms(2,1) 3] show ?thesis by auto
  qed
qed

text \<open>
  The text order of two \<open>utc_now_iso\<close> strings is the chronological order, the texts with
  no fraction included.
\<close>

theorem iso_text_order:
  assumes "valid_datetime d" "valid_datetime e"
  shows "utc_now_iso d < utc_now_iso e \<longleftrightarrow> instant d < instant e"
  using iso_less_iff_key [OF assms] key_less_iff_instant [OF assms] by simp

theorem iso_text_order_witness:
  "utc_now_iso (DT 2026 5 5 13 45 18 0) < utc_now_iso (DT 2026 5 5 13 45 18 1)"
  using iso_text_order [of "DT 2026 5 5 13 45 18 0" "DT 2026 5 5 13 45 18 1"]
  by (simp add: valid_datetime_def instant_def day_number_def month_len_def)

section \<open>The cutoff of the transcript rotator\<close>

text \<open>
  \<open>started_at < older_than\<close> when the right side is written with the suffix Z.  The letter sorts
  after the dot and after the plus sign, so a cutoff on a whole second is later than every text
  of that second.
\<close>

definition text_before_cutoff :: "int \<Rightarrow> int \<Rightarrow> bool" where
  "text_before_cutoff started cutoff =
     (if cutoff mod 1000000 = 0 then started div 1000000 \<le> cutoff div 1000000 else started \<le> cutoff)"

definition whole_second :: "datetime \<Rightarrow> datetime" where
  "whole_second d = DT (year d) (month d) (day d) (hour d) (minute d) (second d) 0"

lemma instant_split:
  assumes "valid_datetime d"
  shows "instant d div 1000000 * 1000000 = instant d - micro d" "instant d mod 1000000 = micro d"
    "micro d \<le> instant d"
proof -
  have m: "micro d < 1000000" using assms by (simp add: valid_datetime_def)
  obtain p where p: "instant d = p * 1000000 + micro d" using instant_def by blast
  with m show "instant d mod 1000000 = micro d" "micro d \<le> instant d" by simp_all
  from p m have "instant d div 1000000 = p" by simp
  with p show "instant d div 1000000 * 1000000 = instant d - micro d" by simp
qed

lemma whole_second_facts:
  assumes "valid_datetime d"
  shows "valid_datetime (whole_second d)" "instant (whole_second d) = instant d div 1000000 * 1000000"
    "dt_key (whole_second d) = take 6 (dt_key d) @ [0]"
proof -
  have "instant (whole_second d) = instant d - micro d"
    by (simp add: instant_def whole_second_def day_number_def)
  with instant_split [OF assms] show "instant (whole_second d) = instant d div 1000000 * 1000000" by simp
qed (use assms in \<open>simp_all add: valid_datetime_def whole_second_def dt_key_def\<close>)

lemma seconds_order:
  assumes "valid_datetime d" "valid_datetime e"
  shows "iso_seconds d < iso_seconds e \<longleftrightarrow> instant d div 1000000 < instant e div 1000000"
    and "iso_seconds d = iso_seconds e \<longleftrightarrow> instant d div 1000000 = instant e div 1000000"
proof -
  have len: "length (take 6 (dt_key d)) = length (take 6 (dt_key e))" by (simp add: dt_key_def)
  have lt: "instant d div 1000000 < instant e div 1000000 \<longleftrightarrow> take 6 (dt_key d) < take 6 (dt_key e)"
    if "valid_datetime d" "valid_datetime e" "length (take 6 (dt_key d)) = length (take 6 (dt_key e))" for d e
    using key_less_iff_instant [OF whole_second_facts(1) [OF that(1)] whole_second_facts(1) [OF that(2)]]
    by (simp add: whole_second_facts that append_less_iff [OF that(3)])
  show "iso_seconds d < iso_seconds e \<longleftrightarrow> instant d div 1000000 < instant e div 1000000"
    using lt [OF assms len] iso_seconds_less(1) [OF assms] by simp
  show "iso_seconds d = iso_seconds e \<longleftrightarrow> instant d div 1000000 = instant e div 1000000"
    using lt [OF assms len] lt [OF assms(2,1) len [symmetric]] iso_seconds_less(2) [OF assms]
    by (metis linorder_neq_iff)
qed

lemma cutoff_suffix_order:
  assumes "micro d < 1000000" "micro e < 1000000"
  shows "iso_micros e @ ''+00:00'' < iso_micros d @ ''Z'' \<longleftrightarrow> micro d = 0 \<or> micro e \<le> micro d"
proof -
  have "(10::nat) ^ 6 = 1000000" by simp
  with digits_less [of "micro e" 6 "micro d"] digits_eq [of "micro e" 6 "micro d"] assms show ?thesis
    by (auto simp: iso_micros_def append_less_iff)
qed

text \<open>
  The comparison of a \<open>started_at\<close> text with the rotator's cutoff text is exactly
  \<open>text_before_cutoff\<close> on the instants: a run that started later than a cutoff on a whole second,
  but within that second, counts as older.
\<close>

theorem rotator_cutoff_order:
  assumes "valid_datetime d" "valid_datetime e"
  shows "utc_now_iso e < rotator_cutoff_text d \<longleftrightarrow>
     text_before_cutoff (int (instant e)) (int (instant d))"
proof -
  let ?S = "\<lambda>x. instant x div 1000000"
  have m: "micro d < 1000000" "micro e < 1000000" using assms by (simp_all add: valid_datetime_def)
  have "utc_now_iso e < rotator_cutoff_text d \<longleftrightarrow> ?S e < ?S d \<or> ?S e = ?S d \<and> (micro d = 0 \<or> micro e \<le> micro d)"
    using cutoff_suffix_order [OF m] seconds_order [OF assms(2,1)]
    by (simp add: utc_now_iso_def rotator_cutoff_text_def append_less_iff)
  moreover have "instant x = ?S x * 1000000 + micro x" if "valid_datetime x" for x
    using instant_split [OF that] by simp
  then obtain p q where "instant d = p * 1000000 + micro d" "instant e = q * 1000000 + micro e"
    using assms by metis
  ultimately show ?thesis using m
    by (simp add: text_before_cutoff_def flip: of_nat_mod of_nat_div) arith
qed

theorem rotator_cutoff_order_witness:
  "utc_now_iso (DT 2026 1 1 0 0 0 500000) < rotator_cutoff_text (DT 2026 1 1 0 0 0 0)"
  using rotator_cutoff_order [of "DT 2026 1 1 0 0 0 0" "DT 2026 1 1 0 0 0 500000"]
  by (simp add: valid_datetime_def instant_def day_number_def month_len_def text_before_cutoff_def)

end
