(* ===== verification/RunsRepo.thy ===== *)
theory RunsRepo
  imports AutofixTypes Timestamps Complex_Main "HOL-Library.Product_Lexorder"
begin

text \<open>
  The \<open>runbook_runs\<close> table (kernel/autofix/runs_repository.py): the counters of the gates, the
  writes of the life of a run, the runs-history queries and the candidates of the transcript
  rotator.  A query is a function of the store; a write is a store transformer.
\<close>

section \<open>Counters\<close>

definition runs_of :: "string \<Rightarrow> store \<Rightarrow> run_row list" where
  "runs_of rb s = filter (\<lambda>r. r_runbook_id r = rb) (s_runs s)"

definition count_inflight :: "string \<Rightarrow> int \<Rightarrow> store \<Rightarrow> int" where
  "count_inflight rb stale s =
     int (length (filter (\<lambda>r. r_runbook_id r = rb \<and> r_ended_at r = None \<and> stale \<le> r_started_at r) (s_runs s)))"

definition count_started_since :: "string \<Rightarrow> int \<Rightarrow> store \<Rightarrow> int" where
  "count_started_since rb threshold s =
     int (length (filter (\<lambda>r. r_runbook_id r = rb \<and> threshold \<le> r_started_at r) (s_runs s)))"

fun latest :: "int list \<Rightarrow> int option" where
  "latest [] = None"
| "latest (t # ts) = (case latest ts of None \<Rightarrow> Some t | Some u \<Rightarrow> Some (max t u))"

definition latest_ended_at :: "string \<Rightarrow> store \<Rightarrow> int option" where
  "latest_ended_at rb s = latest (List.map_filter r_ended_at (runs_of rb s))"

lemma latest_None [simp]: "latest ts = None \<longleftrightarrow> ts = []"
  by (cases ts) (auto split: option.splits)

lemma latest_Some: "latest ts = Some u \<Longrightarrow> u \<in> set ts \<and> (\<forall>t \<in> set ts. t \<le> u)"
proof (induction ts arbitrary: u)
  case (Cons t ts)
  show ?case
  proof (cases "latest ts")
    case None
    with Cons.prems show ?thesis by simp
  next
    case (Some v)
    with Cons.prems Cons.IH [OF Some] show ?thesis by (auto simp: max_def split: if_splits)
  qed
qed simp

section \<open>Writes\<close>

definition add_run :: "run_row \<Rightarrow> store \<Rightarrow> store" where
  "add_run row s = s\<lparr>s_runs := s_runs s @ [row]\<rparr>"

definition update_run :: "string \<Rightarrow> (run_row \<Rightarrow> run_row) \<Rightarrow> store \<Rightarrow> store" where
  "update_run i f s = s\<lparr>s_runs := map (\<lambda>r. if r_id r = i then f r else r) (s_runs s)\<rparr>"

definition insert_started ::
  "(store, 'z) env_scheme \<Rightarrow> string \<Rightarrow> string option \<Rightarrow> string \<Rightarrow> string \<Rightarrow> string \<Rightarrow>
   string option \<Rightarrow> run_mode \<Rightarrow> initiated_by \<Rightarrow> string afx" where
  "insert_started env runbook_id alert_id prompt fixer_user host runbook_hash mode initiator =
     bindP (ask (uuid env)) (\<lambda>run_id.
     bindP (ask (clock env)) (\<lambda>now.
     seqP (modS (add_run
       \<lparr>r_id = run_id, r_runbook_id = runbook_id, r_created_at = now, r_alert_id = alert_id,
        r_mode = mode_value mode, r_prompt = Some prompt, r_started_at = now, r_ended_at = None,
        r_fixer_user = Some fixer_user, r_host = Some host, r_hash = runbook_hash,
        r_transcript_path = None, r_exit_code = None, r_initiated_by = initiator_value initiator,
        r_killed_at = None, r_transcript_pruned_at = None\<rparr>))
     (ret run_id)))"

definition complete_run :: "int \<Rightarrow> int \<Rightarrow> string option \<Rightarrow> run_row \<Rightarrow> run_row" where
  "complete_run now exit_code transcript r =
     r\<lparr>r_ended_at := Some now, r_exit_code := Some exit_code, r_transcript_path := transcript\<rparr>"

definition mark_completed_conn ::
  "(store, 'z) env_scheme \<Rightarrow> string \<Rightarrow> int \<Rightarrow> string option \<Rightarrow> unit afx" where
  "mark_completed_conn env run_id exit_code transcript =
     bindP (ask (clock env)) (\<lambda>now. modS (update_run run_id (complete_run now exit_code transcript)))"

definition mark_completed ::
  "(store, 'z) env_scheme \<Rightarrow> string \<Rightarrow> int \<Rightarrow> string option \<Rightarrow> unit afx" where
  "mark_completed env run_id exit_code transcript =
     txn env (mark_completed_conn env run_id exit_code transcript)"

definition kill_run :: "int \<Rightarrow> run_row \<Rightarrow> run_row" where
  "kill_run when r = (if r_killed_at r = None then r\<lparr>r_killed_at := Some when\<rparr> else r)"

definition mark_killed_conn :: "string \<Rightarrow> int \<Rightarrow> unit afx" where
  "mark_killed_conn run_id killed_at = modS (update_run run_id (kill_run killed_at))"

definition prune_run :: "int \<Rightarrow> run_row \<Rightarrow> run_row" where
  "prune_run when r = r\<lparr>r_transcript_path := None, r_transcript_pruned_at := Some when\<rparr>"

definition mark_transcript_pruned_conn :: "string \<Rightarrow> int \<Rightarrow> unit afx" where
  "mark_transcript_pruned_conn run_id pruned_at = modS (update_run run_id (prune_run pruned_at))"

definition get_run :: "string \<Rightarrow> store \<Rightarrow> run_row option" where
  "get_run i s = List.find (\<lambda>r. r_id r = i) (s_runs s)"

lemma add_run_runs [simp]: "s_runs (add_run row s) = s_runs s @ [row]"
  and update_run_runs [simp]: "s_runs (update_run i f s) = map (\<lambda>r. if r_id r = i then f r else r) (s_runs s)"
  by (simp_all add: add_run_def update_run_def)

lemma add_run_frame [simp]:
  "s_audits (add_run row s) = s_audits s" "s_approvals (add_run row s) = s_approvals s"
  "s_outcomes (add_run row s) = s_outcomes s" "s_runbooks (add_run row s) = s_runbooks s"
  "s_settings (add_run row s) = s_settings s" "s_feedback (add_run row s) = s_feedback s"
  by (simp_all add: add_run_def)

lemma update_run_frame [simp]:
  "s_audits (update_run i f s) = s_audits s" "s_approvals (update_run i f s) = s_approvals s"
  "s_outcomes (update_run i f s) = s_outcomes s" "s_runbooks (update_run i f s) = s_runbooks s"
  "s_settings (update_run i f s) = s_settings s" "s_feedback (update_run i f s) = s_feedback s"
  by (simp_all add: update_run_def)

text \<open>What no write of a run changes.\<close>

definition run_key :: "run_row \<Rightarrow> int \<times> string" where
  "run_key r = (r_started_at r, r_id r)"

definition same_claim :: "run_row \<Rightarrow> run_row \<Rightarrow> bool" where
  "same_claim r r' \<longleftrightarrow> r_id r' = r_id r \<and> r_runbook_id r' = r_runbook_id r \<and>
     r_started_at r' = r_started_at r \<and> r_mode r' = r_mode r \<and> r_alert_id r' = r_alert_id r \<and>
     r_hash r' = r_hash r \<and> r_initiated_by r' = r_initiated_by r"

lemma same_claim_writes [simp]:
  "same_claim r (complete_run n c t r)" "same_claim r (kill_run k r)" "same_claim r (prune_run p r)"
  by (simp_all add: same_claim_def complete_run_def kill_run_def prune_run_def)

lemma same_claim_refl [simp]: "same_claim r r"
  by (simp add: same_claim_def)

section \<open>Derived status and the outcome filter\<close>

definition derive_status :: "string \<Rightarrow> int option \<Rightarrow> int option \<Rightarrow> int option \<Rightarrow> string" where
  "derive_status mode ended_at exit_code killed_at =
     (if killed_at \<noteq> None then ''killed''
      else if ended_at = None then ''in_flight''
      else if mode = ''dry_run'' then ''dry_run''
      else if exit_code = Some 0 then ''success''
      else ''failure'')"

record runs_filter =
  f_runbook_id :: "string option"
  f_mode :: "string option"
  f_outcome :: "string option"
  f_initiator :: "string option"
  f_since :: "int option"
  f_until :: "int option"

text \<open>The SQL predicate of the outcome filter; \<open>exit_code != 0\<close> is not true of NULL.\<close>

definition outcome_clause :: "string \<Rightarrow> run_row \<Rightarrow> bool" where
  "outcome_clause oc r =
     (if oc = ''in_flight'' then r_ended_at r = None \<and> r_killed_at r = None
      else if oc = ''killed'' then r_killed_at r \<noteq> None
      else if oc = ''success'' then
        r_ended_at r \<noteq> None \<and> r_killed_at r = None \<and> r_mode r = ''real'' \<and> r_exit_code r = Some 0
      else if oc = ''failure'' then
        r_ended_at r \<noteq> None \<and> r_killed_at r = None \<and> r_mode r = ''real'' \<and>
        (case r_exit_code r of None \<Rightarrow> False | Some n \<Rightarrow> n \<noteq> 0)
      else True)"

definition opt_clause :: "'a option \<Rightarrow> ('a \<Rightarrow> bool) \<Rightarrow> bool" where
  "opt_clause v p = (case v of None \<Rightarrow> True | Some x \<Rightarrow> p x)"

definition matches_filter :: "runs_filter \<Rightarrow> run_row \<Rightarrow> bool" where
  "matches_filter f r \<longleftrightarrow>
     opt_clause (f_runbook_id f) (\<lambda>x. r_runbook_id r = x) \<and>
     opt_clause (f_mode f) (\<lambda>x. r_mode r = x) \<and>
     opt_clause (f_initiator f) (\<lambda>x. r_initiated_by r = x) \<and>
     opt_clause (f_since f) (\<lambda>x. x \<le> r_started_at r) \<and>
     opt_clause (f_until f) (\<lambda>x. r_started_at r < x) \<and>
     opt_clause (f_outcome f) (\<lambda>x. outcome_clause x r)"

text \<open>The inner join with \<open>runbooks\<close>: a run with no runbook row is invisible.\<close>

definition runbook_path :: "store \<Rightarrow> string \<Rightarrow> string option" where
  "runbook_path s i = map_option rb_path (List.find (\<lambda>b. rb_id b = i) (s_runbooks s))"

definition joined_runs :: "store \<Rightarrow> (run_row \<times> string) list" where
  "joined_runs s =
     List.map_filter (\<lambda>r. map_option (\<lambda>p. (r, p)) (runbook_path s (r_runbook_id r))) (s_runs s)"

definition newest_first :: "run_row list \<Rightarrow> run_row list" where
  "newest_first rs = rev (sort_key run_key rs)"

definition list_paged :: "runs_filter \<Rightarrow> nat \<Rightarrow> nat \<Rightarrow> store \<Rightarrow> (run_row \<times> string) list \<times> nat" where
  "list_paged f limit offset s =
     (let hits = filter (\<lambda>(r, _). matches_filter f r) (joined_runs s);
          ordered = rev (sort_key (\<lambda>(r, _). run_key r) hits)
      in (take limit (drop offset ordered), length hits))"

definition get_by_id :: "string \<Rightarrow> store \<Rightarrow> (run_row \<times> string) option" where
  "get_by_id i s = List.find (\<lambda>(r, _). r_id r = i) (joined_runs s)"

section \<open>Statistics\<close>

record runbook_stats =
  st_runbook_id :: string
  st_last_run_at :: "int option"
  st_last_run_status :: "string option"
  st_success_rate :: "rat option"
  st_run_count :: int

definition count_if :: "('a \<Rightarrow> bool) \<Rightarrow> 'a list \<Rightarrow> int" where
  "count_if p xs = int (length (filter p xs))"

definition stats_of_runbook :: "int \<Rightarrow> store \<Rightarrow> runbook \<Rightarrow> runbook_stats" where
  "stats_of_runbook window_start s b =
     (let rs = filter (\<lambda>r. window_start \<le> r_started_at r) (runs_of (rb_id b) s);
          real_ended = count_if (\<lambda>r. r_mode r = ''real'' \<and> r_ended_at r \<noteq> None) rs;
          real_success = count_if (\<lambda>r. r_mode r = ''real'' \<and> r_ended_at r \<noteq> None \<and> r_exit_code r = Some 0) rs
      in \<lparr>st_runbook_id = rb_id b,
          st_last_run_at = latest (map r_started_at rs),
          st_last_run_status =
            (case newest_first rs of [] \<Rightarrow> None
             | r # _ \<Rightarrow> Some (derive_status (r_mode r) (r_ended_at r) (r_exit_code r) (r_killed_at r))),
          st_success_rate = (if real_ended = 0 then None else Some (of_int real_success / of_int real_ended)),
          st_run_count = int (length rs)\<rparr>)"

definition stats_per_runbook :: "int \<Rightarrow> store \<Rightarrow> runbook_stats list" where
  "stats_per_runbook window_start s = map (stats_of_runbook window_start s) (s_runbooks s)"

section \<open>Candidates of the transcript rotator\<close>

definition prunable :: "run_row \<Rightarrow> bool" where
  "prunable r \<longleftrightarrow> r_transcript_path r \<noteq> None \<and> r_transcript_pruned_at r = None"

text \<open>\<open>ROW_NUMBER() OVER (PARTITION BY runbook_id ORDER BY started_at DESC, id DESC)\<close>.\<close>

definition row_number :: "store \<Rightarrow> run_row \<Rightarrow> int" where
  "row_number s r =
     1 + int (length (filter (\<lambda>r'. prunable r' \<and> r_runbook_id r' = r_runbook_id r \<and> run_key r < run_key r') (s_runs s)))"

definition list_prune_candidates ::
  "int \<Rightarrow> int \<Rightarrow> store \<Rightarrow> (string \<times> string \<times> string \<times> bool \<times> bool) list" where
  "list_prune_candidates keep_last_n older_than s =
     (let cands = filter (\<lambda>r. prunable r \<and>
                    (keep_last_n < row_number s r \<or> text_before_cutoff (r_started_at r) older_than)) (s_runs s)
      in map (\<lambda>r. (r_id r, r_runbook_id r, the (r_transcript_path r),
                   keep_last_n < row_number s r, text_before_cutoff (r_started_at r) older_than))
           (sort_key r_runbook_id (newest_first cands)))"

definition count_distinct_runbooks_with_runs :: "store \<Rightarrow> nat" where
  "count_distinct_runbooks_with_runs s = length (remdups (map r_runbook_id (s_runs s)))"

section \<open>Facts\<close>

lemma insert_started_run:
  "insert_started env rb al pr fu ho ha mo ini w =
     (Inr (uuid env (ticks w)),
      w\<lparr>shared := add_run
         \<lparr>r_id = uuid env (ticks w), r_runbook_id = rb, r_created_at = clock env (Suc (ticks w)), r_alert_id = al,
          r_mode = mode_value mo, r_prompt = Some pr, r_started_at = clock env (Suc (ticks w)), r_ended_at = None,
          r_fixer_user = Some fu, r_host = Some ho, r_hash = ha,
          r_transcript_path = None, r_exit_code = None, r_initiated_by = initiator_value ini,
          r_killed_at = None, r_transcript_pruned_at = None\<rparr> (shared w),
        ticks := Suc (Suc (ticks w))\<rparr>)"
  by (simp add: insert_started_def run_simps seqP_def)

text \<open>
  The outcome filter of the runs list selects exactly the rows whose derived status is the
  requested one, for rows that carry an exit code once they ended.
\<close>

theorem outcome_filter_agrees_with_status:
  assumes "r_ended_at r \<noteq> None \<Longrightarrow> r_exit_code r \<noteq> None"
    and "r_mode r = mode_value m"
    and "oc \<in> {''in_flight'', ''killed'', ''success'', ''failure''}"
  shows "outcome_clause oc r \<longleftrightarrow> derive_status (r_mode r) (r_ended_at r) (r_exit_code r) (r_killed_at r) = oc"
proof -
  consider "oc = ''in_flight''" | "oc = ''killed''" | "oc = ''success''" | "oc = ''failure''"
    using assms(3) by blast
  then show ?thesis using assms(1,2)
    by cases (cases m; cases "r_killed_at r"; cases "r_ended_at r"; cases "r_exit_code r";
      simp add: outcome_clause_def derive_status_def)+
qed

definition example_run :: run_row where
  "example_run =
     \<lparr>r_id = ''r1'', r_runbook_id = ''b1'', r_created_at = 0, r_alert_id = None, r_mode = ''real'',
      r_prompt = None, r_started_at = 0, r_ended_at = Some 5, r_fixer_user = None, r_host = None,
      r_hash = None, r_transcript_path = Some ''/t/a'', r_exit_code = Some 1, r_initiated_by = ''alert'',
      r_killed_at = None, r_transcript_pruned_at = None\<rparr>"

theorem outcome_filter_agrees_with_status_witness: "outcome_clause ''failure'' example_run"
  using outcome_filter_agrees_with_status [of example_run REAL "''failure''"]
  by (simp add: example_run_def derive_status_def)

lemma prune_candidate_iff:
  "(i, rb, p, ce, ae) \<in> set (list_prune_candidates n older s) \<longleftrightarrow>
     (\<exists>r \<in> set (s_runs s). prunable r \<and> r_id r = i \<and> r_runbook_id r = rb \<and> the (r_transcript_path r) = p \<and>
        ce = (n < row_number s r) \<and> ae = text_before_cutoff (r_started_at r) older \<and> (ce \<or> ae))"
  by (auto simp: list_prune_candidates_def newest_first_def image_iff)

text \<open>The rows of one runbook whose transcript the count rule keeps are at most \<open>n\<close>.\<close>

lemma card_by_rank:
  fixes key :: "'a \<Rightarrow> 'k::linorder"
  assumes "finite S" "inj_on key S" and "\<And>x. x \<in> S \<Longrightarrow> card {y \<in> S. key x < key y} < n"
  shows "card S \<le> n"
proof (cases "S = {}")
  case False
  then have "Min (key ` S) \<in> key ` S" using assms(1) by simp
  then obtain x where x: "x \<in> S" "Min (key ` S) = key x" by blast
  have le: "key x \<le> key y" if "y \<in> S" for y using that assms(1) by (simp flip: x(2))
  have "S = insert x {y \<in> S. key x < key y}"
  proof (intro set_eqI iffI)
    fix y assume "y \<in> S"
    with le [of y] x(1) assms(2) show "y \<in> insert x {y \<in> S. key x < key y}"
      by (cases "key y = key x") (auto dest: inj_onD)
  qed (use x(1) in auto)
  moreover have "x \<notin> {y \<in> S. key x < key y}" by simp
  ultimately have "card S = Suc (card {y \<in> S. key x < key y})"
    using assms(1) by (metis (no_types, lifting) card_insert_disjoint finite_subset mem_Collect_eq subsetI)
  with assms(3) [OF x(1)] show ?thesis by simp
qed simp

lemma row_number_card:
  assumes "distinct (map r_id (s_runs s))"
  shows "row_number s r =
    1 + int (card {r' \<in> set (s_runs s). prunable r' \<and> r_runbook_id r' = r_runbook_id r \<and> run_key r < run_key r'})"
proof -
  have "distinct (s_runs s)" using assms by (simp add: distinct_map)
  then show ?thesis
    unfolding row_number_def by (subst distinct_length_filter) (auto intro!: arg_cong [of _ _ card])
qed

text \<open>The rows whose transcript a pass with these bounds leaves alone.\<close>

definition kept_runs :: "int \<Rightarrow> int \<Rightarrow> store \<Rightarrow> string \<Rightarrow> run_row set" where
  "kept_runs n older s rb =
     {r \<in> set (s_runs s). prunable r \<and> r_runbook_id r = rb \<and>
        r_id r \<notin> (\<lambda>(i, _). i) ` set (list_prune_candidates n older s)}"

lemma kept_run:
  assumes "r \<in> kept_runs n older s rb"
  shows "row_number s r \<le> n" "\<not> text_before_cutoff (r_started_at r) older"
proof -
  have r: "r \<in> set (s_runs s)" "prunable r" "r_runbook_id r = rb"
    "r_id r \<notin> (\<lambda>(i, _). i) ` set (list_prune_candidates n older s)"
    using assms by (simp_all add: kept_runs_def)
  have "\<not> (n < row_number s r \<or> text_before_cutoff (r_started_at r) older)"
  proof
    assume "n < row_number s r \<or> text_before_cutoff (r_started_at r) older"
    with r have "(r_id r, rb, the (r_transcript_path r), n < row_number s r, text_before_cutoff (r_started_at r) older)
      \<in> set (list_prune_candidates n older s)" by (auto simp: prune_candidate_iff)
    with r(4) show False by force
  qed
  then show "row_number s r \<le> n" "\<not> text_before_cutoff (r_started_at r) older" by auto
qed

text \<open>
  Rotation keeps at most \<open>keep_last_n\<close> transcripts of a runbook; the rows it leaves alone are
  among the newest \<open>keep_last_n\<close> of their runbook and none of them is covered by the age rule.
\<close>

theorem prune_keeps_newest:
  assumes "distinct (map r_id (s_runs s))" and "0 \<le> n"
  shows "int (card (kept_runs n older s rb)) \<le> n \<and>
     kept_runs n older s rb \<subseteq> {r. row_number s r \<le> n \<and> \<not> text_before_cutoff (r_started_at r) older}"
proof
  let ?K = "kept_runs n older s rb"
  have inj: "inj_on r_id (set (s_runs s))" using assms(1) by (simp add: distinct_map)
  have "card ?K \<le> nat n"
  proof (rule card_by_rank [of ?K run_key])
    show "finite ?K" by (simp add: kept_runs_def)
    show "inj_on run_key ?K" using inj by (auto simp: inj_on_def run_key_def kept_runs_def)
    fix r assume r: "r \<in> ?K"
    have "card {y \<in> ?K. run_key r < run_key y} \<le>
        card {r' \<in> set (s_runs s). prunable r' \<and> r_runbook_id r' = r_runbook_id r \<and> run_key r < run_key r'}"
      using r by (intro card_mono) (auto simp: kept_runs_def)
    with kept_run(1) [OF r] row_number_card [OF assms(1), of r]
    show "card {y \<in> ?K. run_key r < run_key y} < nat n" by simp
  qed
  with assms(2) show "int (card ?K) \<le> n" by simp
  show "?K \<subseteq> {r. row_number s r \<le> n \<and> \<not> text_before_cutoff (r_started_at r) older}"
    using kept_run by blast
qed

definition example_store :: store where
  "example_store =
     \<lparr>s_audits = [], s_runbooks = [], s_runs = [example_run, example_run\<lparr>r_id := ''r2'', r_started_at := 9\<rparr>],
      s_approvals = [], s_outcomes = [], s_feedback = [], s_settings = [], s_alerts = [],
      s_current = None, s_locks = []\<rparr>"

theorem prune_keeps_newest_witness:
  "int (card (kept_runs 1 0 example_store ''b1'')) \<le> 1 \<and>
   kept_runs 1 0 example_store ''b1'' \<subseteq>
     {r. row_number example_store r \<le> 1 \<and> \<not> text_before_cutoff (r_started_at r) 0}"
  by (rule prune_keeps_newest) (simp_all add: example_store_def example_run_def)

text \<open>
  The pages of the runs list, laid side by side, are the whole ordered result with no row
  lost or repeated, and every page reports the same total.
\<close>

theorem pages_partition:
  "concat (map (\<lambda>k. fst (list_paged f limit (k * limit) s)) [0..<n]) = fst (list_paged f (n * limit) 0 s)
   \<and> snd (list_paged f limit (k * limit) s) = length (fst (list_paged f (snd (list_paged f 0 0 s)) 0 s))"
proof -
  have "concat (map (\<lambda>k. take limit (drop (k * limit) xs)) [0..<n]) = take (n * limit) xs" for xs :: "'a list"
    by (induction n) (simp_all add: take_add add.commute [of limit])
  then show ?thesis by (simp add: list_paged_def Let_def)
qed

end
