(* ===== verification/Gates.thy ===== *)
theory Gates
  imports RunsRepo
begin

text \<open>
  The gates of the auto-fix orchestrator and the denials they lead to
  (\<open>_check_operational_gates\<close>, \<open>_in_lock_gate\<close>, \<open>_deny\<close>, \<open>_deny_operator\<close>,
  \<open>_audit_trigger_rejected\<close> of kernel/autofix/orchestrator.py).
\<close>

definition hour_us :: int where
  "hour_us = 3600 * 1000000"

definition stale_claim_slack_us :: int where
  "stale_claim_slack_us = 300 * 1000000"

text \<open>\<open>elapsed < cooldown_seconds\<close> for the time since the last completed run.\<close>

definition cooling :: "int \<Rightarrow> int option \<Rightarrow> int \<Rightarrow> bool" where
  "cooling now last_ended cooldown =
     (case last_ended of None \<Rightarrow> False | Some t \<Rightarrow> now - t < cooldown * 1000000)"

section \<open>Operational gates\<close>

definition rate_gate :: "aenv \<Rightarrow> runbook \<Rightarrow> bool afx" where
  "rate_gate env b =
     (case rb_rate_limit b of
        None \<Rightarrow> ret False
      | Some limit \<Rightarrow>
          bindP (ask (clock env)) (\<lambda>now.
          bindP (fetch env (count_started_since (rb_id b) (now - hour_us))) (\<lambda>count.
          ret (limit \<le> count))))"

definition cooldown_gate :: "aenv \<Rightarrow> runbook \<Rightarrow> bool afx" where
  "cooldown_gate env b =
     (case rb_cooldown b of
        None \<Rightarrow> ret False
      | Some cooldown \<Rightarrow>
          if 0 < cooldown then
            bindP (fetch env (latest_ended_at (rb_id b))) (\<lambda>last_ended.
            case last_ended of
              None \<Rightarrow> ret False
            | Some t \<Rightarrow> bindP (ask (clock env)) (\<lambda>now. ret (cooling now (Some t) cooldown)))
          else ret False)"

definition check_operational_gates :: "aenv \<Rightarrow> runbook \<Rightarrow> bool \<Rightarrow> denial_reason option afx" where
  "check_operational_gates env b require_auto_trigger =
     bindP (fetch env (setting_of ''autofix_enabled'')) (\<lambda>flag.
     if \<not> is_truthy flag then ret (Some KILL_SWITCH)
     else if \<not> rb_enabled b then ret (Some ALLOW_LIST)
     else if require_auto_trigger \<and> \<not> rb_auto_trigger b then ret (Some ALLOW_LIST)
     else
       bindP (rate_gate env b) (\<lambda>limited.
       if limited then ret (Some RATE_LIMIT)
       else
         bindP (cooldown_gate env b) (\<lambda>hot.
         ret (if hot then Some COOLDOWN else None))))"

definition opt_int_text :: "int option \<Rightarrow> string" where
  "opt_int_text n = (case n of None \<Rightarrow> ''None'' | Some k \<Rightarrow> str_of_int k)"

definition gate_detail :: "runbook \<Rightarrow> denial_reason \<Rightarrow> string" where
  "gate_detail b reason =
     (if reason = RATE_LIMIT then ''limit='' @ opt_int_text (rb_rate_limit b) @ ''/h''
      else if reason = COOLDOWN then ''cooldown='' @ opt_int_text (rb_cooldown b) @ ''s''
      else denial_value reason)"

section \<open>The gate in the claim transaction\<close>

text \<open>A query of the caller's transaction: nothing runs between its parts.\<close>

definition in_lock_gate :: "aenv \<Rightarrow> runbook \<Rightarrow> int \<Rightarrow> int \<Rightarrow> denial_reason option afx" where
  "in_lock_gate env b stale_threshold rate_threshold =
     bindP (getS (count_inflight (rb_id b) stale_threshold)) (\<lambda>inflight.
     if 0 < inflight then ret (Some ALREADY_RUNNING)
     else
       bindP (case rb_rate_limit b of
                None \<Rightarrow> ret False
              | Some limit \<Rightarrow>
                  bindP (getS (count_started_since (rb_id b) rate_threshold)) (\<lambda>count. ret (limit \<le> count)))
         (\<lambda>limited.
       if limited then ret (Some RATE_LIMIT)
       else
         (case rb_cooldown b of
            None \<Rightarrow> ret None
          | Some cooldown \<Rightarrow>
              if 0 < cooldown then
                bindP (getS (latest_ended_at (rb_id b))) (\<lambda>last_ended.
                case last_ended of
                  None \<Rightarrow> ret None
                | Some t \<Rightarrow>
                    bindP (ask (clock env)) (\<lambda>now.
                    ret (if cooling now (Some t) cooldown then Some COOLDOWN else None)))
              else ret None)))"

definition in_lock_detail :: "runbook \<Rightarrow> denial_reason \<Rightarrow> string" where
  "in_lock_detail b reason =
     (if reason = ALREADY_RUNNING then ''an in-flight run exists''
      else if reason = RATE_LIMIT then ''limit='' @ opt_int_text (rb_rate_limit b) @ ''/h''
      else if reason = COOLDOWN then ''cooldown='' @ opt_int_text (rb_cooldown b) @ ''s''
      else denial_value reason)"

section \<open>Denials\<close>

definition with_credential :: "string option \<Rightarrow> json_object \<Rightarrow> json_object" where
  "with_credential credential after =
     (case credential of None \<Rightarrow> after | Some c \<Rightarrow> dict_set ''credential_type'' (JStr c) after)"

definition deny ::
  "aenv \<Rightarrow> alert \<Rightarrow> string option \<Rightarrow> denial_reason \<Rightarrow> string \<Rightarrow> json_object option \<Rightarrow> run_result afx" where
  "deny env alert runbook_id reason detail extra =
     (let after = [(''runbook_id'', jopt_str runbook_id), (''alert_id'', JStr (al_id alert)),
                   (''gate'', JStr (denial_value reason)), (''detail'', JStr detail)];
          after' = (case extra of None \<Rightarrow> after | Some e \<Rightarrow> dict_update after e)
      in seqP (txn env (insert_audit env ''system:autofix'' ''autofix.denied'' None (Some after') None None))
           (ret (denied runbook_id reason None)))"

definition deny_operator ::
  "aenv \<Rightarrow> runbook \<Rightarrow> denial_reason \<Rightarrow> string \<Rightarrow> string option \<Rightarrow> string option \<Rightarrow> run_result afx" where
  "deny_operator env b reason who ip credential =
     (let after = [(''runbook_id'', JStr (rb_id b)), (''alert_id'', JNull),
                   (''gate'', JStr (denial_value reason)), (''detail'', JStr (gate_detail b reason)),
                   (''initiated_by'', JStr ''operator'')]
      in seqP (txn env (insert_audit env who ''autofix.denied'' None
                 (Some (with_credential credential after)) ip None))
           (ret (denied (Some (rb_id b)) reason None)))"

definition audit_trigger_rejected ::
  "aenv \<Rightarrow> runbook \<Rightarrow> string \<Rightarrow> string option \<Rightarrow> string \<Rightarrow> run_mode \<Rightarrow> string option \<Rightarrow> unit afx" where
  "audit_trigger_rejected env b who ip reason mode credential =
     txn env (insert_audit env who ''autofix.trigger_rejected'' None
       (Some (with_credential credential
          [(''runbook_id'', JStr (rb_id b)), (''reason'', JStr reason),
           (''mode'', JStr (mode_value mode)), (''initiated_by'', JStr ''operator'')])) ip None)"

definition build_claude_cmd :: "runbook \<Rightarrow> bool \<Rightarrow> string list" where
  "build_claude_cmd b dry =
     (if dry then [''claude'', ''-p'', rb_path b, ''--permission-mode'', ''plan'']
      else [''claude'', ''-p'', rb_path b, ''--dangerously-skip-permissions''])"

section \<open>What a passed gate means\<close>

text \<open>The admission condition the in-lock gate decides, as a predicate of the store.\<close>

definition admissible :: "runbook \<Rightarrow> int \<Rightarrow> int \<Rightarrow> int \<Rightarrow> store \<Rightarrow> bool" where
  "admissible b stale rate now s \<longleftrightarrow>
     (\<forall>r \<in> set (runs_of (rb_id b) s). r_ended_at r \<noteq> None \<or> r_started_at r < stale) \<and>
     (\<forall>l. rb_rate_limit b = Some l \<longrightarrow> count_started_since (rb_id b) rate s < l) \<and>
     (\<forall>c. rb_cooldown b = Some c \<longrightarrow> 0 < c \<longrightarrow>
        (\<forall>r \<in> set (runs_of (rb_id b) s). \<forall>e. r_ended_at r = Some e \<longrightarrow> c * 1000000 \<le> now - e))"

lemma count_inflight_zero:
  "\<not> 0 < count_inflight rb stale s \<longleftrightarrow> (\<forall>r \<in> set (runs_of rb s). r_ended_at r \<noteq> None \<or> r_started_at r < stale)"
  by (auto simp: count_inflight_def runs_of_def filter_empty_conv not_le)

lemma latest_ended_at_cases:
  "latest_ended_at rb s = None \<longleftrightarrow> (\<forall>r \<in> set (runs_of rb s). r_ended_at r = None)"
  "latest_ended_at rb s = Some t \<Longrightarrow> r \<in> set (runs_of rb s) \<Longrightarrow> r_ended_at r = Some e \<Longrightarrow> e \<le> t"
proof -
  show "latest_ended_at rb s = None \<longleftrightarrow> (\<forall>r \<in> set (runs_of rb s). r_ended_at r = None)"
    by (auto simp: latest_ended_at_def List.map_filter_def filter_empty_conv)
  assume "latest_ended_at rb s = Some t" "r \<in> set (runs_of rb s)" "r_ended_at r = Some e"
  then show "e \<le> t"
    using latest_Some [of "List.map_filter r_ended_at (runs_of rb s)" t]
    by (force simp: latest_ended_at_def List.map_filter_def)
qed

text \<open>The in-lock gate as a function of one reading of the clock and the store.\<close>

definition gate_decision :: "runbook \<Rightarrow> int \<Rightarrow> int \<Rightarrow> int \<Rightarrow> store \<Rightarrow> denial_reason option" where
  "gate_decision b stale rate now s =
     (if 0 < count_inflight (rb_id b) stale s then Some ALREADY_RUNNING
      else if (case rb_rate_limit b of None \<Rightarrow> False | Some l \<Rightarrow> l \<le> count_started_since (rb_id b) rate s)
      then Some RATE_LIMIT
      else if (case rb_cooldown b of None \<Rightarrow> False
               | Some c \<Rightarrow> 0 < c \<and> cooling now (latest_ended_at (rb_id b) s) c)
      then Some COOLDOWN else None)"

lemma in_lock_gate_run:
  "\<exists>k \<ge> ticks w. in_lock_gate env b stale rate w =
        (Inr (gate_decision b stale rate (clock env (ticks w)) (shared w)), w\<lparr>ticks := k\<rparr>)"
proof -
  have same: "w\<lparr>ticks := ticks w\<rparr> = w" by simp
  let ?late = "ticks w + (if count_inflight (rb_id b) stale (shared w) \<le> 0 \<and>
      (case rb_rate_limit b of None \<Rightarrow> True | Some l \<Rightarrow> count_started_since (rb_id b) rate (shared w) < l) \<and>
      (case rb_cooldown b of None \<Rightarrow> False | Some c \<Rightarrow> 0 < c \<and> latest_ended_at (rb_id b) (shared w) \<noteq> None)
      then 1 else 0)"
  have "in_lock_gate env b stale rate w =
      (Inr (gate_decision b stale rate (clock env (ticks w)) (shared w)), w\<lparr>ticks := ?late\<rparr>)"
    by (cases "rb_rate_limit b"; cases "rb_cooldown b"; cases "latest_ended_at (rb_id b) (shared w)")
      (simp_all add: in_lock_gate_def gate_decision_def cooling_def run_simps bindP_def)
  then show ?thesis by (intro exI [of _ ?late]) simp
qed

lemma not_cooling:
  "\<not> cooling now (latest_ended_at rb s) c \<longleftrightarrow>
     (\<forall>r \<in> set (runs_of rb s). \<forall>e. r_ended_at r = Some e \<longrightarrow> c * 1000000 \<le> now - e)"
proof (cases "latest_ended_at rb s")
  case None
  with latest_ended_at_cases(1) [of rb s] show ?thesis by (simp add: cooling_def)
next
  case (Some t)
  have "t \<in> set (List.map_filter r_ended_at (runs_of rb s))"
    using Some latest_Some by (simp add: latest_ended_at_def)
  then obtain r where r: "r \<in> set (runs_of rb s)" "r_ended_at r = Some t"
    by (auto simp: List.map_filter_def)
  show ?thesis
  proof
    assume "\<not> cooling now (latest_ended_at rb s) c"
    with Some have "c * 1000000 \<le> now - t" by (simp add: cooling_def)
    with latest_ended_at_cases(2) [OF Some]
    show "\<forall>r \<in> set (runs_of rb s). \<forall>e. r_ended_at r = Some e \<longrightarrow> c * 1000000 \<le> now - e" by force
  qed (use Some r in \<open>auto simp: cooling_def\<close>)
qed

lemma gate_decision_None: "gate_decision b stale rate now s = None \<longleftrightarrow> admissible b stale rate now s"
  unfolding admissible_def count_inflight_zero [symmetric] gate_decision_def
  by (cases "rb_rate_limit b"; cases "rb_cooldown b") (auto simp: not_cooling [symmetric])

text \<open>
  The gate re-checked inside the claim transaction lets a claim through exactly when no
  fresh run of the runbook is open, fewer runs than the limit started in the window, and every
  completed run ended at least the cooldown ago.
\<close>

theorem in_lock_gate_decides:
  "fst (in_lock_gate env b stale rate w) = Inr None \<longleftrightarrow>
     admissible b stale rate (clock env (ticks w)) (shared w)"
proof -
  obtain k where "in_lock_gate env b stale rate w =
      (Inr (gate_decision b stale rate (clock env (ticks w)) (shared w)), w\<lparr>ticks := k\<rparr>)"
    using in_lock_gate_run by blast
  then show ?thesis by (simp add: gate_decision_None)
qed

section \<open>Frames\<close>

lemma guar_operational_gates [guar_intros]: "rely R env \<Longrightarrow> guar R (check_operational_gates env b auto)"
  unfolding check_operational_gates_def rate_gate_def cooldown_gate_def by (intro guar_intros)

lemma emits_operational_gates [emits_intros]: "emits A (check_operational_gates env b auto)"
  unfolding check_operational_gates_def rate_gate_def cooldown_gate_def by (intro emits_intros)

lemma guar_in_lock_gate [guar_intros]: "guar R (in_lock_gate env b stale rate)"
  unfolding in_lock_gate_def by (intro guar_intros)

lemma emits_in_lock_gate [emits_intros]: "emits A (in_lock_gate env b stale rate)"
  unfolding in_lock_gate_def by (intro emits_intros)

lemma emits_deny [emits_intros]:
  "(\<And>r. a_what r = ''autofix.denied'' \<Longrightarrow> Audit r \<in> A) \<Longrightarrow> emits A (deny env alert rb reason detail extra)"
  unfolding deny_def Let_def by (intro emits_intros)

lemma emits_deny_operator [emits_intros]:
  "(\<And>r. a_what r = ''autofix.denied'' \<Longrightarrow> Audit r \<in> A) \<Longrightarrow> emits A (deny_operator env b reason who ip cred)"
  unfolding deny_operator_def Let_def by (intro emits_intros)

lemma emits_trigger_rejected [emits_intros]:
  "(\<And>r. a_what r = ''autofix.trigger_rejected'' \<Longrightarrow> Audit r \<in> A) \<Longrightarrow>
     emits A (audit_trigger_rejected env b who ip reason mode cred)"
  unfolding audit_trigger_rejected_def by (intro emits_intros)

text \<open>With the kill switch off, the gates say so and nothing else.\<close>

lemma operational_gates_kill_switch:
  assumes "check_operational_gates env b auto w = (Inr d, w')"
    and "\<not> is_truthy (setting_of ''autofix_enabled'' (other env (ticks w) (shared w)))"
  shows "d = Some KILL_SWITCH"
  using assms by (simp add: check_operational_gates_def fetch_def seqP_def bindP_def run_simps)

lemma operational_gates_None:
  assumes "check_operational_gates env b auto w = (Inr None, w')"
  shows "is_truthy (setting_of ''autofix_enabled'' (other env (ticks w) (shared w)))"
    "rb_enabled b" "auto \<Longrightarrow> rb_auto_trigger b"
  using assms by (auto simp: check_operational_gates_def fetch_def seqP_def bindP_def run_simps split: if_splits)

end
