(* ===== verification/Feedback.thy ===== *)
theory Feedback
  imports AutofixTypes
begin

text \<open>
  Improvement feedback of a fix (kernel/autofix/feedback_parser.py and feedback_repository.py):
  the sentinel file is found in the transcript directory, parsed whole or turned into one
  synthetic error item, and its items are stored with the run.
\<close>

definition suggestion_text_max :: nat where
  "suggestion_text_max = 4096"

definition truncation_suffix :: string where
  "truncation_suffix = [CHR 0x0A] @ ''...[truncated]''"

definition truncate_text :: "string \<Rightarrow> string" where
  "truncate_text text =
     (if length text \<le> suggestion_text_max then text
      else take (suggestion_text_max - length truncation_suffix) text @ truncation_suffix)"

definition synthesize_parse_error :: "string \<Rightarrow> string \<Rightarrow> parsed_feedback_item" where
  "synthesize_parse_error raw_content err_msg =
     \<lparr>pf_kind = PARSE_ERROR,
      pf_text = truncate_text (''parse_error: '' @ err_msg @ [CHR 0x0A] @ ''---'' @ [CHR 0x0A] @ raw_content),
      pf_hint = None\<rparr>"

definition quoted :: "string \<Rightarrow> string" where
  "quoted s = [CHR 0x27] @ s @ [CHR 0x27]"

text \<open>\<open>_parse_item\<close>; \<open>Inl\<close> is the detail of a FeedbackParseError.\<close>

definition parse_item :: "json \<Rightarrow> string + parsed_feedback_item" where
  "parse_item item =
     (case item of
        JObj d \<Rightarrow>
          (case map_of d ''kind'' of
             None \<Rightarrow> Inl (''missing required key '' @ quoted ''kind'')
           | Some raw_kind \<Rightarrow>
          (case map_of d ''suggestion_text'' of
             None \<Rightarrow> Inl (''missing required key '' @ quoted ''suggestion_text'')
           | Some raw_text \<Rightarrow>
          (case raw_kind of
             JStr kind_text \<Rightarrow>
          (case raw_text of
             JStr text \<Rightarrow>
               let raw_hint = (case map_of d ''structured_hint'' of None \<Rightarrow> JNull | Some h \<Rightarrow> h);
                   kind = (case feedback_of_value kind_text of
                             None \<Rightarrow> OTHER | Some k \<Rightarrow> if k = PARSE_ERROR then OTHER else k)
               in (case raw_hint of
                     JNull \<Rightarrow> Inr \<lparr>pf_kind = kind, pf_text = truncate_text text, pf_hint = None\<rparr>
                   | JObj h \<Rightarrow> Inr \<lparr>pf_kind = kind, pf_text = truncate_text text, pf_hint = Some h\<rparr>
                   | _ \<Rightarrow> Inl (quoted ''structured_hint'' @ '' must be object or null, got '' @ type_name raw_hint))
           | _ \<Rightarrow> Inl (quoted ''suggestion_text'' @ '' must be string, got '' @ type_name raw_text))
           | _ \<Rightarrow> Inl (quoted ''kind'' @ '' must be string, got '' @ type_name raw_kind))))
      | _ \<Rightarrow> Inl (''item must be object, got '' @ type_name item))"

fun parse_items :: "string \<Rightarrow> nat \<Rightarrow> json list \<Rightarrow> parsed_feedback_item + parsed_feedback_item list" where
  "parse_items raw idx [] = Inr []"
| "parse_items raw idx (item # items) =
     (case parse_item item of
        Inl detail \<Rightarrow> Inl (synthesize_parse_error raw (''item '' @ str_of_nat idx @ '': '' @ detail))
      | Inr p \<Rightarrow> (case parse_items raw (Suc idx) items of Inl e \<Rightarrow> Inl e | Inr ps \<Rightarrow> Inr (p # ps)))"

fun parse_feedback_file :: "json_file \<Rightarrow> parsed_feedback_item list" where
  "parse_feedback_file NoFile = []"
| "parse_feedback_file (ReadFailed err) = []"
| "parse_feedback_file (NotJson raw err) = [synthesize_parse_error raw (''invalid JSON: '' @ err)]"
| "parse_feedback_file (Json raw payload) =
     (case payload of
        JArr items \<Rightarrow> (case parse_items raw 0 items of Inl e \<Rightarrow> [e] | Inr ps \<Rightarrow> ps)
      | _ \<Rightarrow> [synthesize_parse_error raw (''top-level must be array, got '' @ type_name payload)])"

section \<open>Finding the sentinel\<close>

definition path_join :: "string \<Rightarrow> string \<Rightarrow> string" where
  "path_join dir name = (if ends_with dir ''/'' \<or> dir = [] then dir @ name else dir @ ''/'' @ name)"

text \<open>
  \<open>max(candidates, key=os.path.getmtime)\<close>: every key is read, the first greatest wins, and a
  file that vanished raises.
\<close>

fun newest_by_mtime :: "aenv \<Rightarrow> string \<Rightarrow> (string \<times> int) option \<Rightarrow> string list \<Rightarrow> string option afx" where
  "newest_by_mtime env dir best [] = ret (map_option fst best)"
| "newest_by_mtime env dir best (n # ns) =
     bindP (ask (\<lambda>k. os_getmtime env k (path_join dir n))) (\<lambda>m.
       case m of
         None \<Rightarrow> raise (OSErr n)
       | Some t \<Rightarrow>
           newest_by_mtime env dir
             (case best of None \<Rightarrow> Some (n, t) | Some (b, u) \<Rightarrow> if u < t then Some (n, t) else best) ns)"

definition scan_transcript_dir_for_feedback :: "aenv \<Rightarrow> string \<Rightarrow> string list \<Rightarrow> string option afx" where
  "scan_transcript_dir_for_feedback env dir before =
     bindP (ask (\<lambda>k. os_listdir env k dir)) (\<lambda>listing.
       case listing of
         None \<Rightarrow> ret None
       | Some after \<Rightarrow>
           (let candidates = filter (\<lambda>n. n \<notin> set before \<and> ends_with n ''.feedback.json'') (remdups after)
            in if candidates = [] then ret None
               else bindP (newest_by_mtime env dir None candidates) (\<lambda>newest.
                      ret (map_option (path_join dir) newest))))"

section \<open>Storing\<close>

definition add_feedback :: "feedback_row \<Rightarrow> store \<Rightarrow> store" where
  "add_feedback row s = s\<lparr>s_feedback := s_feedback s @ [row]\<rparr>"

text \<open>\<open>insert_conn\<close>, with the explicit timestamp the orchestrator passes.\<close>

definition insert_feedback :: "aenv \<Rightarrow> string \<Rightarrow> parsed_feedback_item \<Rightarrow> string \<Rightarrow> int \<Rightarrow> unit afx" where
  "insert_feedback env run_id item feedback_id created_at =
     bindP (ask (feedback_fault env)) (\<lambda>f.
       case f of
         Some msg \<Rightarrow> raise (DbError msg)
       | None \<Rightarrow> modS (add_feedback
           \<lparr>fb_id = feedback_id, fb_run_id = run_id, fb_kind = feedback_value (pf_kind item),
            fb_text = pf_text item, fb_hint = pf_hint item, fb_created_at = created_at\<rparr>))"

definition feedback_of_run :: "string \<Rightarrow> store \<Rightarrow> feedback_row list" where
  "feedback_of_run run_id s = filter (\<lambda>f. fb_run_id f = run_id) (s_feedback s)"

section \<open>Facts\<close>

lemma length_truncate_text: "length (truncate_text t) \<le> suggestion_text_max"
  by (simp add: truncate_text_def truncation_suffix_def suggestion_text_max_def)

lemma truncate_text_prefix:
  "length t \<le> suggestion_text_max \<Longrightarrow> truncate_text t = t"
  by (simp add: truncate_text_def)

lemma parse_item_Inr:
  assumes "parse_item j = Inr p"
  shows "pf_kind p \<noteq> PARSE_ERROR \<and> length (pf_text p) \<le> suggestion_text_max"
proof -
  from assms obtain d k t where j: "j = JObj d" "map_of d ''kind'' = Some (JStr k)"
      "map_of d ''suggestion_text'' = Some (JStr t)"
    unfolding parse_item_def by (auto split: json.splits option.splits)
  define h where "h = (case map_of d ''structured_hint'' of None \<Rightarrow> JNull | Some h \<Rightarrow> h)"
  define kd where "kd = (case feedback_of_value k of None \<Rightarrow> OTHER | Some k \<Rightarrow> if k = PARSE_ERROR then OTHER else k)"
  have "kd \<noteq> PARSE_ERROR" by (simp add: kd_def split: option.splits)
  moreover have "pf_kind p = kd \<and> pf_text p = truncate_text t"
    using assms j unfolding parse_item_def by (simp flip: h_def kd_def) (cases h; auto)
  ultimately show ?thesis using length_truncate_text by simp
qed

lemma parse_items_cases:
  "(\<exists>d. parse_items raw k items = Inl (synthesize_parse_error raw d)) \<or>
   (\<exists>ps. parse_items raw k items = Inr ps \<and> map Inr ps = map parse_item items)"
proof (induction raw k items rule: parse_items.induct)
  case (2 raw idx item items)
  show ?case
  proof (cases "parse_item item")
    case (Inr p)
    with "2.IH" [OF Inr] show ?thesis by auto
  qed auto
qed simp

lemma parsed_kind_text:
  assumes "map Inr ps = map parse_item items" "p \<in> set ps"
  shows "pf_kind p \<noteq> PARSE_ERROR \<and> length (pf_text p) \<le> suggestion_text_max"
proof -
  have "Inr p \<in> set (map parse_item items)" using assms by (metis imageI list.set_map)
  then show ?thesis using parse_item_Inr by force
qed

text \<open>
  Whatever the sentinel file holds, the parser returns either items that the wire can never
  have marked as parse errors, or exactly one parse-error item, and no text exceeds the bound.
\<close>

theorem parse_feedback_sound:
  "list_all (\<lambda>p. length (pf_text p) \<le> suggestion_text_max) (parse_feedback_file f) \<and>
   (list_all (\<lambda>p. pf_kind p \<noteq> PARSE_ERROR) (parse_feedback_file f) \<or>
    map pf_kind (parse_feedback_file f) = [PARSE_ERROR])"
proof -
  have synth: "pf_kind (synthesize_parse_error r d) = PARSE_ERROR"
    "length (pf_text (synthesize_parse_error r d)) \<le> suggestion_text_max" for r d
    by (simp_all add: synthesize_parse_error_def length_truncate_text)
  show ?thesis
  proof (cases f)
    case (Json raw payload)
    show ?thesis
    proof (cases payload)
      case (JArr items)
      consider d where "parse_items raw 0 items = Inl (synthesize_parse_error raw d)"
        | ps where "parse_items raw 0 items = Inr ps" "map Inr ps = map parse_item items"
        using parse_items_cases by blast
      then show ?thesis
      proof cases
        case 1
        with Json JArr show ?thesis by (simp add: synth)
      next
        case 2
        with Json JArr parsed_kind_text [OF 2(2)] show ?thesis by (simp add: list_all_iff)
      qed
    qed (use Json synth in simp_all)
  qed (simp_all add: synth)
qed

lemma emits_newest_by_mtime [emits_intros]: "emits A (newest_by_mtime env dir best ns)"
  by (induction ns arbitrary: best) (auto intro!: emits_intros split: option.splits)

lemma guar_newest_by_mtime [guar_intros]: "guar R (newest_by_mtime env dir best ns)"
  by (induction ns arbitrary: best) (auto intro!: guar_intros split: option.splits)

lemma emits_scan_feedback [emits_intros]: "emits A (scan_transcript_dir_for_feedback env dir before)"
  unfolding scan_transcript_dir_for_feedback_def Let_def by (intro emits_intros)

lemma guar_scan_feedback [guar_intros]: "guar R (scan_transcript_dir_for_feedback env dir before)"
  unfolding scan_transcript_dir_for_feedback_def Let_def by (intro guar_intros)

lemma emits_insert_feedback [emits_intros]: "emits A (insert_feedback env run_id item fid t)"
  unfolding insert_feedback_def by (intro emits_intros)

end
