(* ===== verification/Egress.thy ===== *)
theory Egress
  imports AutofixTypes
begin

text \<open>
  The egress allow-list of a real exec (the hostname check and \<open>_configure_egress_for_exec\<close> of
  kernel/autofix/orchestrator.py): the union of the baseline and the granted hosts is validated,
  written to the proxy's file and loaded by the proxy; any failure raises.
\<close>

section \<open>Hostnames\<close>

definition label_char :: "char \<Rightarrow> bool" where
  "label_char c \<longleftrightarrow> is_alnum c \<or> c = CHR ''-''"

text \<open>\<open>[a-zA-Z0-9]([a-zA-Z0-9-]{0,61}[a-zA-Z0-9])?\<close>\<close>

definition label_ok :: "string \<Rightarrow> bool" where
  "label_ok l = (l \<noteq> [] \<and> length l \<le> 63 \<and> is_alnum (hd l) \<and> is_alnum (last l) \<and> list_all label_char l)"

text \<open>
  \<open>_HOSTNAME_RE.match\<close>: the final \<open>$\<close> of a Python pattern matches at the end of the string and
  also just before a newline that ends it.
\<close>

definition hostname_re_match :: "string \<Rightarrow> bool" where
  "hostname_re_match s =
     (list_all label_ok (split_on (CHR ''.'') s) \<or>
      (s \<noteq> [] \<and> last s = CHR 0x0A \<and> list_all label_ok (split_on (CHR ''.'') (butlast s))))"

definition is_valid_hostname :: "string \<Rightarrow> bool" where
  "is_valid_hostname h = (if h = [] \<or> length h > 253 then False else hostname_re_match h)"

section \<open>The allow-list\<close>

definition allowlist :: "fixer_config \<Rightarrow> resolved_grants \<Rightarrow> string list" where
  "allowlist cfg g = sort (remdups (fc_baseline_hostnames cfg @ g_egress g))"

definition allowlist_content :: "string list \<Rightarrow> string" where
  "allowlist_content hs = concat (map (\<lambda>h. h @ [CHR 0x0A]) hs)"

fun check_hostnames :: "string list \<Rightarrow> exn + unit" where
  "check_hostnames [] = Inr ()"
| "check_hostnames (h # hs) =
     (if is_valid_hostname h then check_hostnames hs
      else Inl (EgressConfiguration ''invalid_hostname''
                  (''hostname '' @ py_repr h @ '' failed RFC 1035 validation'')))"

text \<open>\<open>DockerSocketClient.exec_capture\<close>: the request goes out, the daemon answers.\<close>

definition exec_capture :: "aenv \<Rightarrow> exec_request \<Rightarrow> exec_result afx" where
  "exec_capture env q =
     seqP (emit (Act (ExecIn q)))
       (bindP (awaitP env (\<lambda>k. d_exec_capture env k q)) (\<lambda>r.
          case r of Inl e \<Rightarrow> raise (DockerErr e) | Inr x \<Rightarrow> ret x))"

definition reconfigure_request :: "fixer_config \<Rightarrow> exec_request" where
  "reconfigure_request cfg =
     \<lparr>q_container = fc_proxy_container cfg, q_cmd = [''squid'', ''-k'', ''reconfigure''],
      q_user = None, q_env = None, q_timeout = fc_reconfigure_timeout cfg\<rparr>"

fun reconfigure_error :: "exn \<Rightarrow> exn" where
  "reconfigure_error (DockerErr (ExecTimeout m)) = EgressConfiguration ''reconfigure_timeout'' m"
| "reconfigure_error (DockerErr e) = EgressConfiguration ''reconfigure_docker_error'' (docker_msg e)"
| "reconfigure_error e = e"

definition configure_egress_for_exec :: "aenv \<Rightarrow> fixer_config \<Rightarrow> resolved_grants \<Rightarrow> unit afx" where
  "configure_egress_for_exec env cfg g =
     (let hosts = allowlist cfg g; content = allowlist_content hosts
      in seqP (liftE (check_hostnames hosts))
        (seqP (emit (Act (WriteFile (fc_allowlist_path cfg) content)))
        (bindP (ask (\<lambda>k. os_write env k (fc_allowlist_path cfg))) (\<lambda>failed.
           case failed of
             Some err \<Rightarrow> raise (EgressConfiguration ''allowlist_write_failed'' err)
           | None \<Rightarrow>
               bindP (tryP (exec_capture env (reconfigure_request cfg)) (\<lambda>e. raise (reconfigure_error e))) (\<lambda>result.
                 if x_exit_code result \<noteq> 0 then
                   raise (EgressConfiguration ''reconfigure_nonzero''
                     (''exit_code='' @ str_of_int (x_exit_code result) @ '' stderr='' @
                      py_repr (take 256 (x_stderr result))))
                 else ret ())))))"

section \<open>Facts\<close>

lemma set_allowlist [simp]: "set (allowlist cfg g) = set (fc_baseline_hostnames cfg) \<union> set (g_egress g)"
  by (simp add: allowlist_def)

lemma check_hostnames_Inr: "check_hostnames hs = Inr () \<longleftrightarrow> list_all is_valid_hostname hs"
  by (induction hs) simp_all

lemma split_on_chars:
  assumes "list_all label_ok (split_on (CHR ''.'') s)"
  shows "\<forall>c \<in> set s. label_char c \<or> c = CHR ''.''"
proof
  fix c assume "c \<in> set s"
  with concat_split_on [of s "CHR ''.''"] consider "c = CHR ''.''"
    | l where "l \<in> set (split_on (CHR ''.'') s)" "c \<in> set l" by blast
  then show "label_char c \<or> c = CHR ''.''"
  proof cases
    case 2
    with assms have "list_all label_char l" by (simp add: list_all_iff label_ok_def)
    with 2 show ?thesis by (simp add: list_all_iff)
  qed simp
qed

text \<open>The host part of an accepted string: what precedes a final newline.\<close>

definition host_part :: "string \<Rightarrow> string" where
  "host_part h = (if h \<noteq> [] \<and> last h = CHR 0x0A then butlast h else h)"

lemma newline_no_host_char: "label_char c \<or> c = CHR ''.'' \<Longrightarrow> c \<noteq> CHR 0x0A"
  by (auto simp: label_char_def is_alnum_def)

text \<open>
  An accepted hostname consists of ASCII letters, digits, hyphens and dots, except that one
  newline may follow it; nothing else (no space, no comment sign) can reach the allow-list file.
\<close>

theorem valid_hostname_chars:
  assumes "is_valid_hostname h"
  shows "set (host_part h) \<subseteq> {c. label_char c \<or> c = CHR ''.''} \<and> host_part h \<noteq> []"
proof -
  have re: "hostname_re_match h" and ne: "h \<noteq> []" using assms by (auto simp: is_valid_hostname_def split: if_splits)
  have parts: "set s \<subseteq> {c. label_char c \<or> c = CHR ''.''} \<and> s \<noteq> []"
    if "list_all label_ok (split_on (CHR ''.'') s)" for s
    using split_on_chars [OF that] that by (auto simp: label_ok_def)
  consider "list_all label_ok (split_on (CHR ''.'') h)"
    | "last h = CHR 0x0A" "list_all label_ok (split_on (CHR ''.'') (butlast h))"
    using re by (auto simp: hostname_re_match_def)
  then show ?thesis
  proof cases
    case 1
    have "last h \<noteq> CHR 0x0A"
      using split_on_chars [OF 1] last_in_set [OF ne] by (intro newline_no_host_char) blast
    with parts [OF 1] show ?thesis by (simp add: host_part_def)
  next
    case 2
    with parts [OF 2(2)] ne show ?thesis by (simp add: host_part_def)
  qed
qed

theorem valid_hostname_chars_witness:
  "set (host_part ''a-1.b'') \<subseteq> {c. label_char c \<or> c = CHR ''.''} \<and> host_part ''a-1.b'' \<noteq> []"
  by (rule valid_hostname_chars)
    (simp add: is_valid_hostname_def hostname_re_match_def label_ok_def label_char_def is_alnum_def)

text \<open>
  The check accepts a hostname that ends in a newline, so a granted egress entry can put an
  extra line break into the allow-list file, against the stated guarantee of the check.
\<close>

theorem hostname_newline_accepted:
  "is_valid_hostname (''evil.example'' @ [CHR 0x0A]) \<and>
   allowlist_content [''evil.example'' @ [CHR 0x0A]] = ''evil.example'' @ [CHR 0x0A, CHR 0x0A]"
  by (simp add: is_valid_hostname_def hostname_re_match_def label_ok_def label_char_def is_alnum_def
      allowlist_content_def)

section \<open>Frames\<close>

text \<open>The acts of the egress step: the proxy's file and the proxy's reload.\<close>

definition egress_acts :: "fixer_config \<Rightarrow> act event set" where
  "egress_acts cfg = {Act (ExecIn (reconfigure_request cfg))} \<union> range (\<lambda>c. Act (WriteFile (fc_allowlist_path cfg) c))"

lemma emits_exec_capture [emits_intros]:
  "Act (ExecIn q) \<in> A \<Longrightarrow> emits A (exec_capture env q)"
  unfolding exec_capture_def by (intro emits_intros)

lemma guar_exec_capture [guar_intros]: "rely R env \<Longrightarrow> guar R (exec_capture env q)"
  unfolding exec_capture_def by (intro guar_intros)

lemma emits_configure_egress [emits_intros]:
  "egress_acts cfg \<subseteq> A \<Longrightarrow> emits A (configure_egress_for_exec env cfg g)"
  unfolding configure_egress_for_exec_def Let_def
  by (intro emits_intros) (auto simp: egress_acts_def)

lemma guar_configure_egress [guar_intros]: "rely R env \<Longrightarrow> guar R (configure_egress_for_exec env cfg g)"
  unfolding configure_egress_for_exec_def Let_def by (intro guar_intros)

lemma exec_capture_only_docker_error:
  assumes "exec_capture env q w = (Inl e, w')"
  obtains d where "e = DockerErr d"
  using assms unfolding exec_capture_def
  by (auto simp: seqP_def bindP_def run_simps awaitP_def split: sum.splits)

lemma exec_capture_run:
  assumes "exec_capture env q w = (r, w')"
  shows "trace w' = trace w @ [Act (ExecIn q)]" "r = Inl e \<Longrightarrow> \<exists>d. e = DockerErr d"
  using assms unfolding exec_capture_def
  by (auto simp: seqP_def bindP_def run_simps awaitP_def split: sum.splits)

text \<open>
  The egress step either validates every host, writes exactly the sorted union of the baseline
  and the granted hosts to the proxy's file and then has the proxy load it, or raises the one
  exception its caller treats as fail closed; no other exception leaves it.
\<close>

theorem egress_configured_or_reported:
  "case configure_egress_for_exec env cfg g w of
     (Inr _, w') \<Rightarrow>
        list_all is_valid_hostname (allowlist cfg g) \<and>
        trace w' = trace w @
          [Act (WriteFile (fc_allowlist_path cfg) (allowlist_content (allowlist cfg g))),
           Act (ExecIn (reconfigure_request cfg))]
   | (Inl e, w') \<Rightarrow>
        (\<exists>d. e = EgressConfiguration ''invalid_hostname'' d \<and> trace w' = trace w \<and>
             \<not> list_all is_valid_hostname (allowlist cfg g)) \<or>
        (\<exists>r d. e = EgressConfiguration r d \<and> list_all is_valid_hostname (allowlist cfg g) \<and>
             r \<in> {''allowlist_write_failed'', ''reconfigure_timeout'', ''reconfigure_docker_error'', ''reconfigure_nonzero''})"
proof (cases "check_hostnames (allowlist cfg g)")
  case (Inl e)
  have "\<exists>d. e = EgressConfiguration ''invalid_hostname'' d" if "check_hostnames hs = Inl e" for hs
    using that by (induction hs) (auto split: if_splits)
  moreover have "\<not> list_all is_valid_hostname (allowlist cfg g)"
    using Inl check_hostnames_Inr [of "allowlist cfg g"] by auto
  ultimately show ?thesis
    using Inl by (simp add: configure_egress_for_exec_def Let_def liftE_def seqP_def run_simps)
next
  case (Inr u)
  have valid: "list_all is_valid_hostname (allowlist cfg g)"
    using Inr check_hostnames_Inr [of "allowlist cfg g"] by simp
  define w1 where "w1 = w\<lparr>trace := trace w @ [Act (WriteFile (fc_allowlist_path cfg) (allowlist_content (allowlist cfg g)))],
                          ticks := Suc (ticks w)\<rparr>"
  obtain r w2 where x: "exec_capture env (reconfigure_request cfg) w1 = (r, w2)" by fastforce
  show ?thesis
  proof (cases "os_write env (ticks w) (fc_allowlist_path cfg)")
    case (Some err)
    with Inr valid show ?thesis
      by (simp add: configure_egress_for_exec_def Let_def liftE_def seqP_def bindP_def run_simps)
  next
    case None
    let ?tail = "\<lambda>result. if x_exit_code result \<noteq> 0 then
        raise (EgressConfiguration ''reconfigure_nonzero''
          (''exit_code='' @ str_of_int (x_exit_code result) @ '' stderr='' @ py_repr (take 256 (x_stderr result))))
      else ret ()"
    have "configure_egress_for_exec env cfg g w =
        bindP (tryP (exec_capture env (reconfigure_request cfg)) (\<lambda>e. raise (reconfigure_error e))) ?tail w1"
      using Inr None by (simp add: configure_egress_for_exec_def Let_def liftE_def seqP_def bindP_def ret_def
          emit_def ask_def w1_def)
    moreover have "tryP (exec_capture env (reconfigure_request cfg)) (\<lambda>e. raise (reconfigure_error e)) w1 =
        (case r of Inl e \<Rightarrow> (Inl (reconfigure_error e), w2) | Inr y \<Rightarrow> (Inr y, w2))"
      by (cases r) (simp_all add: tryP_def x raise_def)
    ultimately have run: "configure_egress_for_exec env cfg g w =
        (case r of Inl e \<Rightarrow> (Inl (reconfigure_error e), w2) | Inr y \<Rightarrow> ?tail y w2)"
      by (cases r) (simp_all add: run_bindP_Inl run_bindP_Inr)
    show ?thesis
    proof (cases r)
      case (Inl e)
      with exec_capture_run(2) [OF x] obtain d where "e = DockerErr d" by blast
      with Inl run valid show ?thesis by (cases d) simp_all
    next
      case (Inr y)
      with run valid exec_capture_run(1) [OF x] show ?thesis by (simp add: w1_def raise_def ret_def)
    qed
  qed
qed

end
