(* ===== verification/Intents.thy ===== *)
theory Intents
  imports AutofixTypes
begin

text \<open>
  The Docker intents a fix may hand to the orchestrator (kernel/autofix/intents.py): the schema,
  the parser of the intent file and the validator against the envelope of the runbook.
\<close>

record docker_intent =
  i_container :: string
  i_action :: string

datatype intent_validation = IntentAccept | IntentDeny string

definition name_char :: "char \<Rightarrow> bool" where
  "name_char c \<longleftrightarrow> is_alnum c \<or> c = CHR ''_'' \<or> c = CHR ''.'' \<or> c = CHR ''-''"

text \<open>The length bounds and the pattern \<open>^[a-zA-Z0-9][a-zA-Z0-9_.-]{0,254}$\<close> of the field.\<close>

definition container_name_ok :: "string \<Rightarrow> bool" where
  "container_name_ok s =
     (1 \<le> length s \<and> length s \<le> 256 \<and>
      (case s of [] \<Rightarrow> False | c # cs \<Rightarrow> is_alnum c \<and> length cs \<le> 254 \<and> list_all name_char cs))"

text \<open>\<open>DockerIntent.model_validate\<close>: exactly the two keys, the container pattern, the literal action.\<close>

definition validate_entry :: "(json \<Rightarrow> string) \<Rightarrow> json \<Rightarrow> string + docker_intent" where
  "validate_entry msg entry =
     (case entry of
        JObj d \<Rightarrow>
          (if list_all (\<lambda>(k, _). k = ''container'' \<or> k = ''action'') d then
             (case (map_of d ''container'', map_of d ''action'') of
                (Some (JStr c), Some (JStr a)) \<Rightarrow>
                  if container_name_ok c \<and> a = ''restart''
                  then Inr \<lparr>i_container = c, i_action = a\<rparr> else Inl (msg entry)
              | _ \<Rightarrow> Inl (msg entry))
           else Inl (msg entry))
      | _ \<Rightarrow> Inl (msg entry))"

definition max_detail_length :: nat where
  "max_detail_length = 1024"

definition cap_detail :: "string \<Rightarrow> string" where
  "cap_detail raw = (if length raw > max_detail_length then take max_detail_length raw @ ''...'' else raw)"

fun validate_entries :: "(json \<Rightarrow> string) \<Rightarrow> nat \<Rightarrow> json list \<Rightarrow> exn + docker_intent list" where
  "validate_entries msg idx [] = Inr []"
| "validate_entries msg idx (e # es) =
     (case validate_entry msg e of
        Inl err \<Rightarrow> Inl (MalformedIntentFile ''invalid_entry''
                          (cap_detail (''entry '' @ str_of_nat idx @ '': '' @ err)))
      | Inr i \<Rightarrow>
          (case validate_entries msg (Suc idx) es of Inl x \<Rightarrow> Inl x | Inr is \<Rightarrow> Inr (i # is)))"

fun parse_intents :: "(json \<Rightarrow> string) \<Rightarrow> json_file \<Rightarrow> exn + docker_intent list" where
  "parse_intents msg NoFile = Inr []"
| "parse_intents msg (ReadFailed err) =
     Inl (MalformedIntentFile ''not_json'' (cap_detail (''read failed: '' @ err)))"
| "parse_intents msg (NotJson raw err) = Inl (MalformedIntentFile ''not_json'' err)"
| "parse_intents msg (Json raw payload) =
     (case payload of
        JArr entries \<Rightarrow> validate_entries msg 0 entries
      | _ \<Rightarrow> Inl (MalformedIntentFile ''not_a_list''
               (''top-level must be JSON array, got '' @ type_name payload)))"

definition validate_intent :: "docker_intent \<Rightarrow> resolved_grants \<Rightarrow> intent_validation" where
  "validate_intent i g =
     (case g_docker_container g of
        None \<Rightarrow> IntentDeny ''docker not in scoped_capabilities''
      | Some c \<Rightarrow>
          if i_container i \<noteq> c then IntentDeny (''container '' @ [CHR 0x27] @ i_container i @ [CHR 0x27] @ '' not in envelope'')
          else if i_action i \<notin> set (g_docker_allowed_actions g)
          then IntentDeny (''action '' @ [CHR 0x27] @ i_action i @ [CHR 0x27] @ '' not in allowed_actions'')
          else IntentAccept)"

section \<open>Facts\<close>

lemma accept_iff:
  "validate_intent i g = IntentAccept \<longleftrightarrow>
     g_docker_container g = Some (i_container i) \<and> i_action i \<in> set (g_docker_allowed_actions g)"
  by (auto simp: validate_intent_def split: option.splits)

lemma container_name_ok_chars: "container_name_ok s \<Longrightarrow> list_all name_char s \<and> length s \<le> 255 \<and> s \<noteq> []"
  by (cases s) (auto simp: container_name_ok_def name_char_def)

lemma validate_entry_Inr:
  "validate_entry msg e = Inr i \<Longrightarrow> container_name_ok (i_container i) \<and> i_action i = ''restart''"
  unfolding validate_entry_def by (auto split: json.splits option.splits if_splits prod.splits)

lemma validate_entries_Inr:
  "validate_entries msg k es = Inr is \<Longrightarrow>
     length is = length es \<and> list_all (\<lambda>i. container_name_ok (i_container i) \<and> i_action i = ''restart'') is"
proof (induction msg k es arbitrary: "is" rule: validate_entries.induct)
  case (2 msg idx e es)
  then show ?case by (auto split: sum.splits dest: validate_entry_Inr)
qed simp

lemma validate_entries_Inl:
  "validate_entries msg k es = Inl e \<Longrightarrow> \<exists>d. e = MalformedIntentFile ''invalid_entry'' d"
  by (induction msg k es rule: validate_entries.induct) (auto split: sum.splits)

lemma parse_intents_Inr: "parse_intents msg f = Inr is \<Longrightarrow> i \<in> set is \<Longrightarrow> i_action i = ''restart''"
  by (cases f) (auto split: json.splits dest!: validate_entries_Inr simp: list_all_iff)

lemma parse_intents_Inl: "parse_intents msg f = Inl e \<Longrightarrow> \<exists>r d. e = MalformedIntentFile r d"
  by (cases f) (auto split: json.splits dest!: validate_entries_Inl)

text \<open>
  An intent file is taken whole or not at all: either every entry is a restart of a container
  with a well-formed name of 1 to 255 characters, as many intents as entries, or the file is
  rejected with one of the three reasons.
\<close>

theorem parse_intents_all_or_nothing:
  "case parse_intents msg f of
     Inr is \<Rightarrow> list_all (\<lambda>i. i_action i = ''restart'' \<and> list_all name_char (i_container i) \<and>
                            i_container i \<noteq> [] \<and> length (i_container i) \<le> 255) is \<and>
              (f = NoFile \<and> is = [] \<or> (\<exists>raw es. f = Json raw (JArr es) \<and> length is = length es))
   | Inl e \<Rightarrow> \<exists>r d. e = MalformedIntentFile r d \<and> r \<in> {''not_json'', ''not_a_list'', ''invalid_entry''}"
proof -
  have entries: "(case validate_entries msg k es of
       Inr is \<Rightarrow> list_all (\<lambda>i. i_action i = ''restart'' \<and> list_all name_char (i_container i) \<and>
                              i_container i \<noteq> [] \<and> length (i_container i) \<le> 255) is \<and> length is = length es
     | Inl e \<Rightarrow> \<exists>r d. e = MalformedIntentFile r d \<and> r \<in> {''not_json'', ''not_a_list'', ''invalid_entry''})" for k es
  proof (induction msg k es rule: validate_entries.induct)
    case (2 msg idx e es)
    show ?case
    proof (cases "validate_entry msg e")
      case (Inr i)
      with validate_entry_Inr [OF Inr] container_name_ok_chars [of "i_container i"] "2.IH" [OF Inr]
      show ?thesis by (simp split: sum.splits)
    qed simp
  qed simp
  show ?thesis
  proof (cases f)
    case (Json raw payload)
    show ?thesis
    proof (cases payload)
      case (JArr es)
      with Json entries [where k = 0 and es = es] show ?thesis by (simp split: sum.splits)
    qed (use Json in auto)
  qed auto
qed

end
