(* ===== verification/Exec.thy ===== *)
theory Exec
  imports Gates Feedback Egress Intents
begin

text \<open>
  One execution of the fixer (\<open>_resolve_grants\<close>, \<open>_exec_claude\<close>, \<open>_resolve_transcript\<close>,
  \<open>_write_exec_log\<close> of kernel/autofix/orchestrator.py) and the Docker intent gateway
  (\<open>_execute_intents\<close>).  \<open>exec_claude\<close> is cut where the code returns early: the grant phase, the
  egress phase, the run.
\<close>

definition alert_id_json :: "alert option \<Rightarrow> json" where
  "alert_id_json alert = jopt_str (map_option al_id alert)"

section \<open>Grants\<close>

definition unavailable :: "string \<Rightarrow> exn" where
  "unavailable detail = GrantResolution ''scoped_capabilities_unavailable'' detail"

definition load_scoped :: "aenv \<Rightarrow> runbook \<Rightarrow> scoped_capabilities afx" where
  "load_scoped env b =
     (let path = path_join (rb_path b) ''runbook.yaml''
      in bindP (ask (\<lambda>k. load_config env k path)) (\<lambda>r.
         case r of
           Inr scoped \<Rightarrow> ret scoped
         | Inl (LoadOSError m) \<Rightarrow> raise (unavailable (''runbook config unavailable at '' @ path @ '': '' @ m))
         | Inl (LoadYAMLError m) \<Rightarrow>
             raise (unavailable (''runbook config at '' @ path @ '' is malformed YAML: '' @ m))
         | Inl (LoadValueError m) \<Rightarrow> raise (unavailable m)))"

definition check_ssh_target :: "aenv \<Rightarrow> runbook \<Rightarrow> string option \<Rightarrow> unit afx" where
  "check_ssh_target env b target =
     (case target of
        None \<Rightarrow> ret ()
      | Some t \<Rightarrow>
          bindP (ask (ssh_target_ids env)) (\<lambda>r.
          case r of
            Inl m \<Rightarrow> raise (unavailable (''ssh target registry unreadable: '' @ m))
          | Inr known \<Rightarrow>
              if t \<in> set known then ret ()
              else raise (GrantResolution ''unknown_ssh_target_id''
                     (''runbook '' @ rb_id b @ '' declares ssh target_id '' @ py_repr t @
                      '' which is not a known SSH target''))))"

definition resolve_grants :: "aenv \<Rightarrow> runbook \<Rightarrow> resolved_grants afx" where
  "resolve_grants env b =
     bindP (load_scoped env b) (\<lambda>scoped.
     seqP (check_ssh_target env b (sc_ssh_target scoped))
     (ret \<lparr>g_docker_container = map_option dc_container (sc_docker scoped),
           g_docker_allowed_actions = (case sc_docker scoped of None \<Rightarrow> [] | Some d \<Rightarrow> dc_allowed_actions d),
           g_ssh_target_id = sc_ssh_target scoped,
           g_egress = sc_egress scoped\<rparr>))"

section \<open>Transcripts\<close>

definition snapshot_dir :: "aenv \<Rightarrow> string \<Rightarrow> string list afx" where
  "snapshot_dir env path =
     bindP (ask (\<lambda>k. os_listdir env k path)) (\<lambda>l. ret (case l of None \<Rightarrow> [] | Some ns \<Rightarrow> ns))"

text \<open>The new transcripts whose mtime lies in the window; a file that vanished is skipped.\<close>

fun transcript_candidates :: "aenv \<Rightarrow> string \<Rightarrow> int \<Rightarrow> int \<Rightarrow> string list \<Rightarrow> string list afx" where
  "transcript_candidates env path t0 t1 [] = ret []"
| "transcript_candidates env path t0 t1 (n # ns) =
     (if \<not> ends_with n ''.transcript'' then transcript_candidates env path t0 t1 ns
      else
        bindP (ask (\<lambda>k. os_getmtime env k (path_join path n))) (\<lambda>m.
        bindP (transcript_candidates env path t0 t1 ns) (\<lambda>rest.
        ret (case m of None \<Rightarrow> rest | Some t \<Rightarrow> if t0 \<le> t \<and> t \<le> t1 then n # rest else rest))))"

definition resolve_transcript :: "aenv \<Rightarrow> string \<Rightarrow> string list \<Rightarrow> int \<Rightarrow> int \<Rightarrow> string option afx" where
  "resolve_transcript env path before started ended =
     bindP (ask (\<lambda>k. os_listdir env k path)) (\<lambda>listing.
       case listing of
         None \<Rightarrow> ret None
       | Some after \<Rightarrow>
           bindP (transcript_candidates env path started ended
                    (filter (\<lambda>n. n \<notin> set before) (remdups after))) (\<lambda>candidates.
           if candidates = [] then ret None
           else bindP (newest_by_mtime env path None candidates) (\<lambda>newest.
                  ret (map_option (\<lambda>n. path @ ''/'' @ n) newest))))"

definition exec_log_body :: "string \<Rightarrow> alert option \<Rightarrow> runbook \<Rightarrow> exec_result \<Rightarrow> string option \<Rightarrow> string" where
  "exec_log_body run_id alert b x error =
     (let nl = [CHR 0x0A];
          body = ''run_id='' @ run_id @ nl @ ''runbook_id='' @ rb_id b @ nl @ ''alert_id='' @
                 (case alert of None \<Rightarrow> ''none (operator-initiated)'' | Some a \<Rightarrow> al_id a) @ nl @
                 ''exit_code='' @ str_of_int (x_exit_code x) @ nl @ ''--- stdout ---'' @ nl @ x_stdout x @ nl @
                 ''--- stderr ---'' @ nl @ x_stderr x @ nl
      in case error of None \<Rightarrow> body | Some e \<Rightarrow> body @ ''--- error ---'' @ nl @ e @ nl)"

definition write_exec_log ::
  "aenv \<Rightarrow> fixer_config \<Rightarrow> string \<Rightarrow> alert option \<Rightarrow> runbook \<Rightarrow> exec_result \<Rightarrow> string option \<Rightarrow> string afx" where
  "write_exec_log env cfg run_id alert b x error =
     bindP (ask (\<lambda>k. os_makedirs env k (fc_exec_log_dir cfg))) (\<lambda>made.
     case made of
       Some err \<Rightarrow> raise (OSErr err)
     | None \<Rightarrow>
         let path = fc_exec_log_dir cfg @ ''/'' @ run_id @ ''.exec.log''
         in bindP (ask (\<lambda>k. os_write env k path)) (\<lambda>failed.
            case failed of
              Some err \<Rightarrow> raise (OSErr err)
            | None \<Rightarrow> seqP (emit (Act (WriteFile path (exec_log_body run_id alert b x error)))) (ret path)))"

section \<open>The execution\<close>

text \<open>A failed audit write that is only logged.\<close>

definition best_effort :: "unit afx \<Rightarrow> unit afx" where
  "best_effort m = tryP m (\<lambda>_. ret ())"

definition failed_outcome :: "string \<Rightarrow> resolved_grants option \<Rightarrow> exec_outcome" where
  "failed_outcome detail grants =
     \<lparr>eo_exec_result = \<lparr>x_exit_code = 1, x_stdout = [], x_stderr = []\<rparr>, eo_transcript_path = None,
      eo_error_msg = Some detail, eo_errored = True, eo_feedback_items = None, eo_grants = grants\<rparr>"

definition run_fields :: "runbook \<Rightarrow> alert option \<Rightarrow> string \<Rightarrow> json_object" where
  "run_fields b alert run_id =
     [(''runbook_id'', JStr (rb_id b)), (''alert_id'', alert_id_json alert), (''run_id'', JStr run_id)]"

definition jstrs :: "string list \<Rightarrow> json" where
  "jstrs xs = JArr (map JStr xs)"

text \<open>Phase 1: the grants, or the outcome the code returns early with.\<close>

definition grant_phase ::
  "aenv \<Rightarrow> runbook \<Rightarrow> alert option \<Rightarrow> string \<Rightarrow> (exec_outcome + resolved_grants) afx" where
  "grant_phase env b alert run_id =
     bindP (tryP (bindP (resolve_grants env b) (\<lambda>g. ret (Inr g)))
       (\<lambda>e. case e of
          GrantResolution reason detail \<Rightarrow>
            seqP (best_effort (txn env (insert_audit env ''system:autofix'' ''autofix.grant_failed'' None
                    (Some (run_fields b alert run_id @ [(''reason'', JStr reason), (''detail'', JStr detail)])) None None)))
              (ret (Inl (failed_outcome detail None)))
        | _ \<Rightarrow> raise e))
     (\<lambda>r. case r of
        Inl outcome \<Rightarrow> ret (Inl outcome)
      | Inr g \<Rightarrow>
          seqP (txn env (insert_audit env ''system:autofix'' ''autofix.grant_resolved'' None
                  (Some (run_fields b alert run_id @
                     [(''docker_container'', jopt_str (g_docker_container g)),
                      (''docker_allowed_actions'', jstrs (g_docker_allowed_actions g)),
                      (''ssh_target_id'', jopt_str (g_ssh_target_id g)),
                      (''egress'', jstrs (g_egress g))])) None None))
            (ret (Inr g)))"

text \<open>Phase 2, real runs only: the egress allow-list, fail closed.\<close>

definition egress_phase ::
  "aenv \<Rightarrow> fixer_config \<Rightarrow> runbook \<Rightarrow> alert option \<Rightarrow> string \<Rightarrow> resolved_grants \<Rightarrow> (exec_outcome + unit) afx" where
  "egress_phase env cfg b alert run_id g =
     bindP (tryP (bindP (configure_egress_for_exec env cfg g) (\<lambda>u. ret (Inr u)))
       (\<lambda>e. case e of
          EgressConfiguration reason detail \<Rightarrow>
            seqP (best_effort (txn env (insert_audit env ''system:autofix'' ''autofix.egress_configuration_error'' None
                    (Some (run_fields b alert run_id @
                       [(''reason'', JStr reason), (''detail'', JStr detail),
                        (''egress'', jstrs (g_egress g)), (''baseline'', jstrs (fc_baseline_hostnames cfg))])) None None)))
              (ret (Inl (failed_outcome detail (Some g))))
        | _ \<Rightarrow> raise e))
     (\<lambda>r. case r of
        Inl outcome \<Rightarrow> ret (Inl outcome)
      | Inr _ \<Rightarrow>
          seqP (best_effort (txn env (insert_audit env ''system:autofix'' ''autofix.egress_enforced'' None
                  (Some (run_fields b alert run_id @
                     [(''egress'', jstrs (g_egress g)), (''baseline'', jstrs (fc_baseline_hostnames cfg))])) None None)))
            (ret (Inr ())))"

definition claude_request ::
  "fixer_config \<Rightarrow> runbook \<Rightarrow> string option \<Rightarrow> string \<Rightarrow> bool \<Rightarrow> exec_request" where
  "claude_request cfg b api_key run_id dry =
     \<lparr>q_container = fc_container cfg, q_cmd = build_claude_cmd b dry, q_user = Some (fc_fixer_user cfg),
      q_env = Some ((''HM_RUN_ID'', run_id) #
                (case api_key of None \<Rightarrow> [] | Some k \<Rightarrow> [(''ANTHROPIC_API_KEY'', k)])),
      q_timeout = fc_exec_timeout cfg\<rparr>"

definition publish_current :: "aenv \<Rightarrow> fixer_config \<Rightarrow> string \<Rightarrow> unit afx" where
  "publish_current env cfg run_id =
     seqP (suspend env) (bindP (ask (monotonic env)) (\<lambda>t.
       modS (set_current (Some \<lparr>c_run_id = run_id, c_container = fc_container cfg, c_started_at_monotonic = t\<rparr>))))"

definition clear_current :: "aenv \<Rightarrow> unit afx" where
  "clear_current env = seqP (suspend env) (modS (set_current None))"

text \<open>A Docker error of the exec becomes a result: exit code 124 for a timeout, 1 otherwise.\<close>

definition exec_or_error :: "aenv \<Rightarrow> exec_request \<Rightarrow> (exec_result \<times> string option \<times> bool) afx" where
  "exec_or_error env q =
     tryP (bindP (exec_capture env q) (\<lambda>x. ret (x, None, False)))
       (\<lambda>e. case e of
          DockerErr d \<Rightarrow>
            ret (\<lparr>x_exit_code = (case d of ExecTimeout _ \<Rightarrow> 124 | _ \<Rightarrow> 1), x_stdout = [], x_stderr = []\<rparr>,
                 Some (docker_msg d), True)
        | _ \<Rightarrow> raise e)"

text \<open>Phase 3: the run itself, and what it left in the transcript directory.\<close>

definition run_phase ::
  "aenv \<Rightarrow> fixer_config \<Rightarrow> runbook \<Rightarrow> string option \<Rightarrow> string \<Rightarrow> bool \<Rightarrow> resolved_grants \<Rightarrow> exec_outcome afx" where
  "run_phase env cfg b api_key run_id dry g =
     (let dir = fc_transcript_dir cfg
      in bindP (snapshot_dir env dir) (\<lambda>before.
         bindP (ask (clock env)) (\<lambda>started.
         seqP (unlessP dry (publish_current env cfg run_id))
         (bindP (finallyP (exec_or_error env (claude_request cfg b api_key run_id dry))
                   (unlessP dry (clear_current env))) (\<lambda>(x, error_msg, errored).
         bindP (ask (clock env)) (\<lambda>ended.
         bindP (resolve_transcript env dir before started ended) (\<lambda>transcript.
         bindP (scan_transcript_dir_for_feedback env dir before) (\<lambda>sentinel.
         bindP (case sentinel of
                  None \<Rightarrow> ret None
                | Some p \<Rightarrow> bindP (ask (\<lambda>k. json_read env k p)) (\<lambda>f. ret (Some (parse_feedback_file f))))
           (\<lambda>items.
         ret \<lparr>eo_exec_result = x, eo_transcript_path = transcript, eo_error_msg = error_msg,
              eo_errored = errored, eo_feedback_items = items, eo_grants = Some g\<rparr>)))))))))"

definition exec_claude ::
  "aenv \<Rightarrow> fixer_config \<Rightarrow> runbook \<Rightarrow> alert option \<Rightarrow> string \<Rightarrow> bool \<Rightarrow> exec_outcome afx" where
  "exec_claude env cfg b alert run_id dry =
     bindP (awaitP env (\<lambda>k. get_secret env k ''ANTHROPIC_API_KEY'')) (\<lambda>secret.
     case secret of
       Inl m \<Rightarrow> raise (SecretsErr m)
     | Inr api_key \<Rightarrow>
         seqP (suspend env)
         (bindP (grant_phase env b alert run_id) (\<lambda>granted.
          case granted of
            Inl outcome \<Rightarrow> ret outcome
          | Inr g \<Rightarrow>
              bindP (if dry then ret (Inr ()) else egress_phase env cfg b alert run_id g) (\<lambda>enforced.
              case enforced of
                Inl outcome \<Rightarrow> ret outcome
              | Inr _ \<Rightarrow> run_phase env cfg b api_key run_id dry g))))"

section \<open>The intent gateway\<close>

definition intent_fields :: "string \<Rightarrow> runbook \<Rightarrow> alert option \<Rightarrow> json_object" where
  "intent_fields run_id b alert =
     [(''run_id'', JStr run_id), (''runbook_id'', JStr (rb_id b)), (''alert_id'', alert_id_json alert)]"

definition intent_target :: "docker_intent \<Rightarrow> json_object" where
  "intent_target i = [(''container'', JStr (i_container i)), (''action'', JStr (i_action i))]"

definition audit_intent :: "aenv \<Rightarrow> string \<Rightarrow> string \<Rightarrow> json_object \<Rightarrow> unit afx" where
  "audit_intent env who what after = txn env (insert_audit env who what None (Some after) None None)"

text \<open>\<open>DockerSocketClient.restart_container\<close>\<close>

definition restart_container :: "aenv \<Rightarrow> string \<Rightarrow> unit afx" where
  "restart_container env c =
     seqP (emit (Act (RestartContainer c)))
       (bindP (awaitP env (\<lambda>k. d_restart env k c)) (\<lambda>r.
          case r of Some e \<Rightarrow> raise (DockerErr e) | None \<Rightarrow> ret ()))"

text \<open>
  One accepted real intent; the answer says whether the rest of the batch is to be halted
  (a connection error, of which the timeout is a subclass).
\<close>

definition perform_intent ::
  "aenv \<Rightarrow> string \<Rightarrow> runbook \<Rightarrow> alert option \<Rightarrow> string \<Rightarrow> docker_intent \<Rightarrow> bool afx" where
  "perform_intent env run_id b alert who i =
     bindP (tryP (seqP (restart_container env (i_container i)) (ret None))
        (\<lambda>e. case e of DockerErr d \<Rightarrow> ret (Some d) | _ \<Rightarrow> raise e)) (\<lambda>failed.
     case failed of
       None \<Rightarrow>
         seqP (audit_intent env who ''autofix.intent_executed''
                 (intent_fields run_id b alert @ intent_target i)) (ret False)
     | Some d \<Rightarrow>
         seqP (audit_intent env who ''autofix.intent_exec_error''
                 (intent_fields run_id b alert @ intent_target i @ [(''error'', JStr (docker_msg d))]))
           (ret (case d of ProtocolError _ \<Rightarrow> False | _ \<Rightarrow> True)))"

fun intent_loop ::
  "aenv \<Rightarrow> string \<Rightarrow> runbook \<Rightarrow> alert option \<Rightarrow> string \<Rightarrow> bool \<Rightarrow> bool \<Rightarrow>
   (docker_intent \<times> intent_validation) list \<Rightarrow> unit afx" where
  "intent_loop env run_id b alert who dry halted [] = ret ()"
| "intent_loop env run_id b alert who dry halted ((i, verdict) # rest) =
     (if halted then
        seqP (audit_intent env who ''autofix.intent_skipped_after_error''
                (intent_fields run_id b alert @ intent_target i @
                 [(''reason'', JStr ''docker connection error halted batch''), (''dry'', JBool dry)]))
          (intent_loop env run_id b alert who dry halted rest)
      else
        (case verdict of
           IntentDeny reason \<Rightarrow>
             seqP (audit_intent env who ''autofix.intent_denied''
                     (intent_fields run_id b alert @ intent_target i @
                      [(''reason'', JStr reason), (''dry'', JBool dry)]))
               (intent_loop env run_id b alert who dry halted rest)
         | IntentAccept \<Rightarrow>
             if dry then
               seqP (audit_intent env who ''autofix.intent_dry_planned''
                       (intent_fields run_id b alert @ intent_target i))
                 (intent_loop env run_id b alert who dry halted rest)
             else
               bindP (perform_intent env run_id b alert who i) (\<lambda>halt.
                 intent_loop env run_id b alert who dry halt rest)))"

definition execute_intents ::
  "aenv \<Rightarrow> fixer_config \<Rightarrow> string \<Rightarrow> alert option \<Rightarrow> runbook \<Rightarrow> resolved_grants \<Rightarrow> string \<Rightarrow> bool \<Rightarrow> unit afx" where
  "execute_intents env cfg run_id alert b g who dry =
     (let path = path_join (path_join (fc_transcript_dir cfg) run_id) ''docker-intent.json''
      in bindP (ask (\<lambda>k. os_exists env k path)) (\<lambda>exists.
         if \<not> exists then ret ()
         else
           bindP (fetch env (setting_of ''autofix_enabled'')) (\<lambda>flag.
           if \<not> is_truthy flag then
             audit_intent env who ''autofix.intent_kill_switched''
               (intent_fields run_id b alert @ [(''dry'', JBool dry)])
           else
             bindP (ask (\<lambda>k. json_read env k path)) (\<lambda>file.
             case parse_intents (validation_msg env) file of
               Inl (MalformedIntentFile reason detail) \<Rightarrow>
                 audit_intent env who ''autofix.intent_malformed''
                   (intent_fields run_id b alert @
                    [(''reason'', JStr reason), (''detail'', JStr detail), (''dry'', JBool dry)])
             | Inl e \<Rightarrow> raise e
             | Inr intents \<Rightarrow>
                 if intents = [] then ret ()
                 else intent_loop env run_id b alert who dry False
                        (map (\<lambda>i. (i, validate_intent i g)) intents)))))"

section \<open>Which events these can cause\<close>

text \<open>
  A real exec is a fixer command without the plan mode.  The acts a run may cause: its own
  command, the two acts of the egress step, the exec log, the restarts of the intents.
\<close>

definition is_real_exec :: "act event \<Rightarrow> bool" where
  "is_real_exec ev =
     (case ev of
        Act (ExecIn q) \<Rightarrow> q_cmd q \<noteq> [] \<and> last (q_cmd q) = ''--dangerously-skip-permissions''
      | _ \<Rightarrow> False)"

definition is_restart :: "act event \<Rightarrow> bool" where
  "is_restart ev = (case ev of Act (RestartContainer _) \<Rightarrow> True | _ \<Rightarrow> False)"

definition exec_audits :: "act event set" where
  "exec_audits = audits_of {''autofix.grant_failed'', ''autofix.grant_resolved'',
     ''autofix.egress_configuration_error'', ''autofix.egress_enforced''}"

definition intent_audits :: "act event set" where
  "intent_audits = audits_of {''autofix.intent_kill_switched'', ''autofix.intent_malformed'',
     ''autofix.intent_denied'', ''autofix.intent_dry_planned'', ''autofix.intent_executed'',
     ''autofix.intent_exec_error'', ''autofix.intent_skipped_after_error''}"

definition dry_acts :: "runbook \<Rightarrow> act event set" where
  "dry_acts b = {Act (ExecIn q) | q. q_cmd q = build_claude_cmd b True}"

definition real_acts :: "fixer_config \<Rightarrow> runbook \<Rightarrow> act event set" where
  "real_acts cfg b = {Act (ExecIn q) | q. q_cmd q = build_claude_cmd b False} \<union> egress_acts cfg"

definition restart_acts :: "resolved_grants \<Rightarrow> act event set" where
  "restart_acts g =
     {Act (RestartContainer c) | c. g_docker_container g = Some c \<and> ''restart'' \<in> set (g_docker_allowed_actions g)}"

lemma not_real_simps [simp]:
  "\<not> is_real_exec (Audit r)" "\<not> is_real_exec (Act (RestartContainer c))"
  "\<not> is_real_exec (Act (KillContainer c s t))" "\<not> is_real_exec (Act (WriteFile p u))"
  by (simp_all add: is_real_exec_def)

lemma is_restart_simps [simp]:
  "\<not> is_restart (Audit r)" "is_restart (Act (RestartContainer c))" "\<not> is_restart (Act (ExecIn q))"
  "\<not> is_restart (Act (KillContainer c s t))" "\<not> is_restart (Act (WriteFile p u))"
  by (simp_all add: is_restart_def)

lemma dry_acts_not_real: "ev \<in> dry_acts b \<Longrightarrow> \<not> is_real_exec ev"
  by (auto simp: dry_acts_def is_real_exec_def build_claude_cmd_def)

lemma egress_acts_not_real: "ev \<in> egress_acts cfg \<Longrightarrow> \<not> is_real_exec ev"
  by (auto simp: egress_acts_def is_real_exec_def reconfigure_request_def)

lemma exec_audits_not_act: "ev \<in> exec_audits \<Longrightarrow> \<exists>r. ev = Audit r"
  by (auto simp: exec_audits_def audits_of_def)

lemma emits_load_scoped [emits_intros]: "emits A (load_scoped env b)"
  unfolding load_scoped_def Let_def
  by (intro emits_intros) (auto intro!: emits_intros split: sum.splits load_error.splits)

lemma emits_resolve_grants [emits_intros]: "emits A (resolve_grants env b)"
  unfolding resolve_grants_def check_ssh_target_def by (intro emits_intros)

lemma emits_snapshot_dir [emits_intros]: "emits A (snapshot_dir env p)"
  unfolding snapshot_dir_def by (intro emits_intros)

lemma emits_transcript_candidates [emits_intros]: "emits A (transcript_candidates env p t0 t1 ns)"
  by (induction ns) (auto intro!: emits_intros)

lemma emits_resolve_transcript [emits_intros]: "emits A (resolve_transcript env p bef t0 t1)"
  unfolding resolve_transcript_def by (intro emits_intros)

lemma emits_best_effort [emits_intros]: "emits A m \<Longrightarrow> emits A (best_effort m)"
  unfolding best_effort_def by (intro emits_intros)

lemma emits_write_exec_log [emits_intros]:
  "(\<And>p t. Act (WriteFile p t) \<in> A) \<Longrightarrow> emits A (write_exec_log env cfg i al b x err)"
  unfolding write_exec_log_def Let_def by (intro emits_intros)

lemma emits_case_exn [emits_intros]:
  "(\<And>r d. emits A (k r d)) \<Longrightarrow> (\<And>e. emits A (h e)) \<Longrightarrow>
     emits A (case v of GrantResolution r d \<Rightarrow> k r d | e \<Rightarrow> h e)"
  "(\<And>r d. emits A (k r d)) \<Longrightarrow> (\<And>e. emits A (h e)) \<Longrightarrow>
     emits A (case v of EgressConfiguration r d \<Rightarrow> k r d | e \<Rightarrow> h e)"
  "(\<And>r d. emits A (k r d)) \<Longrightarrow> (\<And>e. emits A (h e)) \<Longrightarrow>
     emits A (case v of MalformedIntentFile r d \<Rightarrow> k r d | e \<Rightarrow> h e)"
  "(\<And>d. emits A (k' d)) \<Longrightarrow> (\<And>e. emits A (h e)) \<Longrightarrow>
     emits A (case v of DockerErr d \<Rightarrow> k' d | e \<Rightarrow> h e)"
  by (cases v; simp)+

lemma emits_grant_phase [emits_intros]:
  "exec_audits \<subseteq> A \<Longrightarrow> emits A (grant_phase env b al i)"
  unfolding grant_phase_def
  by (intro emits_intros) (auto simp: exec_audits_def audits_of_def)

lemma emits_egress_phase [emits_intros]:
  "exec_audits \<union> egress_acts cfg \<subseteq> A \<Longrightarrow> emits A (egress_phase env cfg b al i g)"
  unfolding egress_phase_def
  by (intro emits_intros) (auto simp: exec_audits_def audits_of_def)

lemma emits_exec_or_error [emits_intros]: "Act (ExecIn q) \<in> A \<Longrightarrow> emits A (exec_or_error env q)"
  unfolding exec_or_error_def by (intro emits_intros)

lemma emits_publish_clear [emits_intros]:
  "emits A (publish_current env cfg i)" "emits A (clear_current env)"
  unfolding publish_current_def clear_current_def by (intro emits_intros)+

lemma emits_run_phase [emits_intros]:
  "(\<And>q. q_cmd q = build_claude_cmd b dry \<Longrightarrow> Act (ExecIn q) \<in> A) \<Longrightarrow> emits A (run_phase env cfg b key i dry g)"
  unfolding run_phase_def Let_def
  by (intro emits_intros) (simp add: claude_request_def)

lemma emits_exec_dry: "emits (exec_audits \<union> dry_acts b) (exec_claude env cfg b al i True)"
  unfolding exec_claude_def if_True
  by (intro emits_intros) (auto simp: dry_acts_def)

lemma emits_exec_real: "emits (exec_audits \<union> real_acts cfg b) (exec_claude env cfg b al i False)"
  unfolding exec_claude_def if_False
  by (intro emits_intros) (auto simp: real_acts_def)

lemma emits_audit_intent [emits_intros]:
  "(\<And>r. a_what r = what \<Longrightarrow> Audit r \<in> A) \<Longrightarrow> emits A (audit_intent env who what after)"
  unfolding audit_intent_def by (intro emits_intros)

lemma emits_perform_intent [emits_intros]:
  "intent_audits \<subseteq> A \<Longrightarrow> Act (RestartContainer (i_container i)) \<in> A \<Longrightarrow>
     emits A (perform_intent env run b al who i)"
  unfolding perform_intent_def restart_container_def
  by (intro emits_intros) (auto simp: intent_audits_def)

lemma emits_intent_loop:
  assumes "intent_audits \<subseteq> A"
    and "\<And>i. (i, IntentAccept) \<in> set ivs \<Longrightarrow> \<not> dry \<Longrightarrow> Act (RestartContainer (i_container i)) \<in> A"
  shows "emits A (intent_loop env run b al who dry halted ivs)"
  using assms(2)
proof (induction ivs arbitrary: halted)
  case (Cons iv ivs)
  have IH: "emits A (intent_loop env run b al who dry h ivs)" for h using Cons by simp
  have aud: "emits A (audit_intent env who what after)"
    if "what \<in> {''autofix.intent_skipped_after_error'', ''autofix.intent_denied'', ''autofix.intent_dry_planned''}"
    for what after
    using assms(1) that by (intro emits_intros) (auto simp: intent_audits_def)
  obtain i v where iv: "iv = (i, v)" by fastforce
  show ?case
  proof (cases "\<not> halted \<and> v = IntentAccept \<and> \<not> dry")
    case True
    with Cons.prems iv assms(1) have "emits A (perform_intent env run b al who i)"
      by (intro emits_perform_intent) auto
    with True iv IH show ?thesis by (simp add: emits_bindP)
  next
    case False
    with iv IH show ?thesis by (auto split: intent_validation.split intro!: emits_seqP aud)
  qed
qed (simp add: emits_intros)

section \<open>The intent gateway is confined\<close>

lemma validated_accept:
  assumes "parse_intents msg f = Inr is" and "(i, IntentAccept) \<in> set (map (\<lambda>i. (i, validate_intent i g)) is)"
  shows "Act (RestartContainer (i_container i)) \<in> restart_acts g"
proof -
  from assms(2) have i: "i \<in> set is" and v: "validate_intent i g = IntentAccept" by auto
  have "i_action i = ''restart''" using parse_intents_Inr [OF assms(1) i] .
  with v show ?thesis by (simp add: accept_iff restart_acts_def)
qed

lemma emits_execute_intents:
  "emits (intent_audits \<union> (if dry then {} else restart_acts g)) (execute_intents env cfg run al b g who dry)"
proof -
  let ?A = "intent_audits \<union> (if dry then {} else restart_acts g)"
  have loop: "emits ?A (intent_loop env run b al who dry False (map (\<lambda>i. (i, validate_intent i g)) is))"
    if "parse_intents (validation_msg env) f = Inr is" for f "is"
    using validated_accept [OF that] by (intro emits_intent_loop) auto
  have parsed: "emits ?A (case parse_intents (validation_msg env) f of
       Inl (MalformedIntentFile reason detail) \<Rightarrow>
         audit_intent env who ''autofix.intent_malformed''
           (intent_fields run b al @ [(''reason'', JStr reason), (''detail'', JStr detail), (''dry'', JBool dry)])
     | Inl e \<Rightarrow> raise e
     | Inr intents \<Rightarrow>
         if intents = [] then ret ()
         else intent_loop env run b al who dry False (map (\<lambda>i. (i, validate_intent i g)) intents))" for f
  proof (cases "parse_intents (validation_msg env) f")
    case (Inl e)
    then obtain r d where "e = MalformedIntentFile r d"
      using parse_intents_Inl by blast
    with Inl show ?thesis by (auto intro!: emits_intros simp: intent_audits_def)
  next
    case (Inr intents)
    with loop [OF Inr] show ?thesis by (simp add: emits_ret)
  qed
  show ?thesis
    unfolding execute_intents_def Let_def
    by (intro emits_intros parsed) (simp add: intent_audits_def)
qed

text \<open>
  C4: the intent gateway restarts no container but the one the runbook's envelope names, only if
  the envelope allows restarts, and none at all in a dry run, whatever the fixer wrote to the
  intent file and whatever other tasks do meanwhile.
\<close>

theorem restarts_confined_to_grants:
  "\<exists>es. trace (snd (execute_intents env cfg run al b g who dry w)) = trace w @ es \<and>
     set (filter is_restart es) \<subseteq> (if dry then {} else restart_acts g) \<and> filter is_real_exec es = []"
proof -
  obtain es where es: "trace (snd (execute_intents env cfg run al b g who dry w)) = trace w @ es"
    "set es \<subseteq> intent_audits \<union> (if dry then {} else restart_acts g)"
    using emits_execute_intents unfolding emits_def by blast
  have "\<not> is_restart ev" "\<not> is_real_exec ev" if "ev \<in> intent_audits" for ev
    using that by (auto simp: intent_audits_def audits_of_def)
  moreover have "\<not> is_real_exec ev" if "ev \<in> restart_acts g" for ev
    using that by (auto simp: restart_acts_def)
  ultimately have "set (filter is_restart es) \<subseteq> (if dry then {} else restart_acts g)" "filter is_real_exec es = []"
    using es(2) by (auto simp: filter_empty_conv split: if_splits)
  with es(1) show ?thesis by blast
qed

text \<open>
  The kill switch is read before the batch: when it is off at that moment, nothing is
  restarted, and the refusal is the only thing the gateway does.
\<close>

theorem intents_respect_kill_switch:
  assumes "\<not> is_truthy (setting_of ''autofix_enabled'' (other env (Suc (ticks w)) (shared w)))"
  shows "\<exists>es. trace (snd (execute_intents env cfg run al b g who dry w)) = trace w @ es \<and>
     acts es = [] \<and> set (audit_kinds es) \<subseteq> {''autofix.intent_kill_switched''}"
proof (cases "os_exists env (ticks w) (path_join (path_join (fc_transcript_dir cfg) run) ''docker-intent.json'')")
  case False
  then show ?thesis
    by (intro exI [of _ "[]"]) (simp add: execute_intents_def Let_def run_simps)
next
  case True
  define w1 where "w1 = w\<lparr>shared := other env (Suc (ticks w)) (shared w), ticks := Suc (Suc (ticks w))\<rparr>"
  let ?m = "audit_intent env who ''autofix.intent_kill_switched'' (intent_fields run b al @ [(''dry'', JBool dry)])"
  have "execute_intents env cfg run al b g who dry w = ?m w1"
    using True assms by (simp add: execute_intents_def w1_def fetch_def seqP_def bindP_def Let_def run_simps)
  moreover have "emits (audits_of {''autofix.intent_kill_switched''}) ?m" by (intro emits_intros) simp
  moreover have "trace w1 = trace w" by (simp add: w1_def)
  ultimately obtain es where es: "trace (snd (execute_intents env cfg run al b g who dry w)) = trace w @ es"
    "set es \<subseteq> audits_of {''autofix.intent_kill_switched''}"
    unfolding emits_def by metis
  have "acts es = [] \<and> set (audit_kinds es) \<subseteq> {''autofix.intent_kill_switched''}"
    using es(2) by (induction es) (auto simp: audits_of_def)
  with es(1) show ?thesis by blast
qed

definition kill_switched_world :: "(store, act event) world" where
  "kill_switched_world = \<lparr>shared = set_setting ''autofix_enabled'' ''off'' empty_store, trace = [], ticks = 0\<rparr>"

definition example_runbook_row :: runbook where
  "example_runbook_row =
     \<lparr>rb_id = ''b1'', rb_path = ''/rb/b1'', rb_created_at = 0, rb_patterns = [], rb_risk_tag = ''safe'',
      rb_dry_run_required = False, rb_rate_limit = Some 3, rb_cooldown = Some 60, rb_enabled = True,
      rb_auto_trigger = True, rb_hash = Some ''h1''\<rparr>"

definition example_config :: fixer_config where
  "example_config =
     \<lparr>fc_container = ''fixer'', fc_transcript_dir = ''/t'', fc_exec_log_dir = ''/l'', fc_fixer_user = ''u'',
      fc_exec_timeout = 600, fc_rotation_max_count = 10, fc_rotation_max_age_days = 30,
      fc_proxy_container = ''proxy'', fc_allowlist_path = ''/p/allow'', fc_baseline_hostnames = [],
      fc_reconfigure_timeout = 10\<rparr>"

definition example_grants :: resolved_grants where
  "example_grants = \<lparr>g_docker_container = Some ''c'', g_docker_allowed_actions = [''restart''],
     g_ssh_target_id = None, g_egress = []\<rparr>"

theorem intents_respect_kill_switch_witness:
  "\<exists>es. trace (snd (execute_intents (calm_env\<lparr>os_exists := \<lambda>_ _. True\<rparr>) example_config ''r1'' None example_runbook_row
      example_grants ''bob'' False kill_switched_world)) = trace kill_switched_world @ es \<and>
     acts es = [] \<and> set (audit_kinds es) \<subseteq> {''autofix.intent_kill_switched''}"
proof (rule intents_respect_kill_switch)
  show "\<not> is_truthy (setting_of ''autofix_enabled'' (other (calm_env\<lparr>os_exists := \<lambda>_ _. True\<rparr>)
      (Suc (ticks kill_switched_world)) (shared kill_switched_world)))"
    by (simp add: kill_switched_world_def calm_env_def setting_after_set is_truthy_def strip_def is_space_def
        lower_def lower_char_def Let_def)
qed

lemma audit_intent_no_fault:
  assumes "fault env = (\<lambda>_. None)"
  shows "\<exists>row w'. audit_intent env who what after w = (Inr (), w') \<and> trace w' = trace w @ [Audit row] \<and>
    a_what row = what \<and> a_who row = who \<and> a_after row = Some after"
proof -
  define w1 where "w1 = w\<lparr>shared := other env (ticks w) (shared w), ticks := Suc (ticks w)\<rparr>"
  obtain row w2 where "insert_audit env who what None (Some after) None None w1 = (Inr (), w2)"
    "trace w2 = trace w1 @ [Audit row]" "a_what row = what" "a_who row = who" "a_after row = Some after"
    using run_insert_audit by blast
  then show ?thesis
    using assms by (simp add: audit_intent_def txn_def seqP_def bindP_def run_simps w1_def)
qed

lemma restart_run:
  "\<exists>r w'. restart_container env c w = (r, w') \<and> trace w' = trace w @ [Act (RestartContainer c)] \<and>
     (r = Inr () \<or> (\<exists>d. r = Inl (DockerErr d)))"
  by (auto simp: restart_container_def seqP_def bindP_def run_simps awaitP_def split: option.splits)

lemma perform_intent_no_fault:
  assumes "fault env = (\<lambda>_. None)"
  shows "\<exists>row h w'. perform_intent env run b al who i w = (Inr h, w') \<and>
    trace w' = trace w @ [Act (RestartContainer (i_container i)), Audit row] \<and>
    a_what row \<in> {''autofix.intent_executed'', ''autofix.intent_exec_error''} \<and>
    (h \<longrightarrow> a_what row = ''autofix.intent_exec_error'')"
proof -
  obtain r w1 where r: "restart_container env (i_container i) w = (r, w1)"
    "trace w1 = trace w @ [Act (RestartContainer (i_container i))]" "r = Inr () \<or> (\<exists>d. r = Inl (DockerErr d))"
    using restart_run by blast
  from r(3) show ?thesis
  proof
    assume "r = Inr ()"
    moreover obtain row w2 where "audit_intent env who ''autofix.intent_executed''
        (intent_fields run b al @ intent_target i) w1 = (Inr (), w2)" "trace w2 = trace w1 @ [Audit row]"
        "a_what row = ''autofix.intent_executed''"
      using audit_intent_no_fault [OF assms] by blast
    ultimately show ?thesis
      using r(1,2) by (auto simp: perform_intent_def bindP_def seqP_def tryP_def run_simps)
  next
    assume "\<exists>d. r = Inl (DockerErr d)"
    then obtain d where "r = Inl (DockerErr d)" by blast
    moreover obtain row w2 where "audit_intent env who ''autofix.intent_exec_error''
        (intent_fields run b al @ intent_target i @ [(''error'', JStr (docker_msg d))]) w1 = (Inr (), w2)"
        "trace w2 = trace w1 @ [Audit row]" "a_what row = ''autofix.intent_exec_error''"
      using audit_intent_no_fault [OF assms] by blast
    ultimately show ?thesis
      using r(1,2) by (auto simp: perform_intent_def bindP_def seqP_def tryP_def run_simps)
  qed
qed

text \<open>The kinds of audit row an entry of the batch can leave, and the batch as a whole.\<close>

definition entry_kinds :: "bool \<Rightarrow> intent_validation \<Rightarrow> string set" where
  "entry_kinds dry v =
     {''autofix.intent_skipped_after_error''} \<union>
     (case v of
        IntentDeny _ \<Rightarrow> {''autofix.intent_denied''}
      | IntentAccept \<Rightarrow>
          if dry then {''autofix.intent_dry_planned''}
          else {''autofix.intent_executed'', ''autofix.intent_exec_error''})"

fun restarts_of :: "(docker_intent \<times> intent_validation) list \<Rightarrow> string list \<Rightarrow> act list" where
  "restarts_of ((i, v) # ivs) (k # ks) =
     (if k = ''autofix.intent_executed'' \<or> k = ''autofix.intent_exec_error''
      then RestartContainer (i_container i) # restarts_of ivs ks else restarts_of ivs ks)"
| "restarts_of _ _ = []"

definition batch_log :: "bool \<Rightarrow> (docker_intent \<times> intent_validation) list \<Rightarrow> act event list \<Rightarrow> bool" where
  "batch_log dry ivs es \<longleftrightarrow>
     list_all2 (\<lambda>iv k. k \<in> entry_kinds dry (snd iv)) ivs (audit_kinds es) \<and>
     acts es = restarts_of ivs (audit_kinds es) \<and>
     list_all (\<lambda>k. k = ''autofix.intent_skipped_after_error'')
       (dropWhile (\<lambda>k. k \<noteq> ''autofix.intent_skipped_after_error'') (audit_kinds es))"

definition all_skipped :: "act event list \<Rightarrow> bool" where
  "all_skipped es \<longleftrightarrow> list_all (\<lambda>k. k = ''autofix.intent_skipped_after_error'') (audit_kinds es)"

lemma batch_log_Cons:
  assumes "batch_log dry ivs es" and "k \<in> entry_kinds dry v"
    and "k = ''autofix.intent_skipped_after_error'' \<Longrightarrow> all_skipped es"
    and "audit_kinds fs = [k]"
    and "acts fs = (if k = ''autofix.intent_executed'' \<or> k = ''autofix.intent_exec_error''
                    then [RestartContainer (i_container i)] else [])"
  shows "batch_log dry ((i, v) # ivs) (fs @ es)"
  using assms unfolding batch_log_def all_skipped_def by simp

lemma intent_loop_log:
  assumes "fault env = (\<lambda>_. None)"
  shows "\<exists>es. fst (intent_loop env run b al who dry halted ivs w) = Inr () \<and>
    trace (snd (intent_loop env run b al who dry halted ivs w)) = trace w @ es \<and>
    batch_log dry ivs es \<and> (halted \<longrightarrow> all_skipped es)"
proof (induction ivs arbitrary: halted w)
  case Nil
  show ?case by (simp add: run_simps batch_log_def all_skipped_def)
next
  case (Cons iv ivs)
  obtain i v where iv: "iv = (i, v)" by fastforce
  define Q where "Q p \<longleftrightarrow> (\<exists>es. fst p = Inr () \<and> trace (snd p) = trace w @ es \<and>
      batch_log dry (iv # ivs) es \<and> (halted \<longrightarrow> all_skipped es))" for p :: "(exn + unit) \<times> (store, act event) world"
  have audited: "Q (seqP (audit_intent env who k after) (intent_loop env run b al who dry halted ivs) w)"
    if k: "k \<in> entry_kinds dry v" "k = ''autofix.intent_skipped_after_error'' \<longleftrightarrow> halted"
      "k \<noteq> ''autofix.intent_executed''" "k \<noteq> ''autofix.intent_exec_error''" for k after
  proof -
    obtain row w1 where a: "audit_intent env who k after w = (Inr (), w1)" "trace w1 = trace w @ [Audit row]" "a_what row = k"
      using audit_intent_no_fault [OF assms] by blast
    obtain es where es: "fst (intent_loop env run b al who dry halted ivs w1) = Inr ()"
      "trace (snd (intent_loop env run b al who dry halted ivs w1)) = trace w1 @ es"
      "batch_log dry ivs es" "halted \<longrightarrow> all_skipped es" using Cons.IH by blast
    have "batch_log dry (iv # ivs) ([Audit row] @ es)"
      unfolding iv using es k a(3) by (intro batch_log_Cons) auto
    moreover have "halted \<longrightarrow> all_skipped ([Audit row] @ es)" using es(4) k(2) a(3) by (simp add: all_skipped_def)
    ultimately show ?thesis
      using a es unfolding Q_def by (intro exI [of _ "[Audit row] @ es"]) (simp add: run_seqP_Inr)
  qed
  have "Q (intent_loop env run b al who dry halted (iv # ivs) w)"
  proof (cases "halted \<or> dry \<or> v \<noteq> IntentAccept")
    case True
    then show ?thesis using audited unfolding iv
      by (cases halted; cases v; cases dry) (simp_all add: entry_kinds_def)
  next
    case False
    obtain row h w1 where p: "perform_intent env run b al who i w = (Inr h, w1)"
      "trace w1 = trace w @ [Act (RestartContainer (i_container i)), Audit row]"
      "a_what row \<in> {''autofix.intent_executed'', ''autofix.intent_exec_error''}"
      using perform_intent_no_fault [OF assms] by blast
    obtain es where es: "fst (intent_loop env run b al who dry h ivs w1) = Inr ()"
      "trace (snd (intent_loop env run b al who dry h ivs w1)) = trace w1 @ es"
      "batch_log dry ivs es" using Cons.IH by blast
    have "batch_log dry (iv # ivs) ([Act (RestartContainer (i_container i)), Audit row] @ es)"
      unfolding iv using es False p(3) by (intro batch_log_Cons [where k = "a_what row"]) (auto simp: entry_kinds_def)
    with False p es show ?thesis
      unfolding Q_def
      by (intro exI [of _ "[Act (RestartContainer (i_container i)), Audit row] @ es"])
        (simp add: iv run_bindP_Inr)
  qed
  then show ?case by (simp only: Q_def)
qed

text \<open>
  An intent batch is fully accounted for: with no failing transaction, every entry leaves
  exactly one audit row, in the order of the file and of a kind its verdict allows, the restarts
  are those of the rows that say so, and once one entry is skipped all later ones are, whatever
  the daemon answers.
\<close>

theorem intents_fully_audited:
  assumes "fault env = (\<lambda>_. None)"
  shows "\<exists>es. fst (intent_loop env run b al who dry False ivs w) = Inr () \<and>
    trace (snd (intent_loop env run b al who dry False ivs w)) = trace w @ es \<and> batch_log dry ivs es"
  using intent_loop_log [OF assms] by blast

theorem intents_fully_audited_witness:
  "\<exists>es. fst (intent_loop calm_env ''r1'' example_runbook_row None ''bob'' False False
          [(\<lparr>i_container = ''c'', i_action = ''restart''\<rparr>, IntentAccept)] kill_switched_world) = Inr () \<and>
    trace (snd (intent_loop calm_env ''r1'' example_runbook_row None ''bob'' False False
          [(\<lparr>i_container = ''c'', i_action = ''restart''\<rparr>, IntentAccept)] kill_switched_world)) =
      trace kill_switched_world @ es \<and>
    batch_log False [(\<lparr>i_container = ''c'', i_action = ''restart''\<rparr>, IntentAccept)] es"
  by (rule intents_fully_audited) (simp add: calm_env_def)

section \<open>Fail closed\<close>

text \<open>A run of the fixer always ends in an outcome and takes the in-flight handle back.\<close>

lemma exec_or_error_total: "\<exists>x w'. exec_or_error env q w = (Inr x, w')"
proof -
  obtain r w1 where "exec_capture env q w = (r, w1)" by fastforce
  with exec_capture_run(2) [OF this] show ?thesis
    by (cases r) (auto simp: exec_or_error_def tryP_def bindP_def run_simps)
qed

text \<open>Reading the file system changes nothing that is modelled, whether it raises or not.\<close>

definition reads_only :: "'a afx \<Rightarrow> bool" where
  "reads_only m \<longleftrightarrow> (\<forall>w. shared (snd (m w)) = shared w \<and> trace (snd (m w)) = trace w)"

lemma reads_only_basic: "reads_only (ret x)" "reads_only (ask h)" "reads_only (raise e)"
  by (simp_all add: reads_only_def run_simps)

lemma reads_only_bindP: "reads_only m \<Longrightarrow> (\<And>x. reads_only (k x)) \<Longrightarrow> reads_only (bindP m k)"
  unfolding reads_only_def by (simp add: bindP_def split: prod.splits sum.splits) (metis snd_conv)

lemmas reads_only_intros = reads_only_basic reads_only_bindP

lemma reads_only_newest: "reads_only (newest_by_mtime env dir best ns)"
  by (induction ns arbitrary: best) (auto intro!: reads_only_intros split: option.splits)

lemma reads_only_candidates: "reads_only (transcript_candidates env p t0 t1 ns)"
  by (induction ns) (auto intro!: reads_only_intros)

lemma reads_only_resolve: "reads_only (resolve_transcript env p bef t0 t1)"
  unfolding resolve_transcript_def
  by (auto intro!: reads_only_intros reads_only_candidates reads_only_newest split: option.splits)

lemma reads_only_scan: "reads_only (scan_transcript_dir_for_feedback env dir bef)"
  unfolding scan_transcript_dir_for_feedback_def Let_def
  by (auto intro!: reads_only_intros reads_only_newest split: option.splits)

lemma reads_only_snapshot: "reads_only (snapshot_dir env p)"
  unfolding snapshot_dir_def by (intro reads_only_intros)

lemma reads_only_case:
  "(\<And>p. reads_only (k p)) \<Longrightarrow> reads_only (case v of None \<Rightarrow> ret None | Some p \<Rightarrow> k p)"
  by (cases v) (simp_all add: reads_only_basic)

lemma reads_onlyD: "reads_only m \<Longrightarrow> m w = (r, w') \<Longrightarrow> shared w' = shared w \<and> trace w' = trace w"
  unfolding reads_only_def by (metis snd_conv)

lemma reads_only_tail:
  "reads_only k \<Longrightarrow> shared (snd (k w)) = shared w"
  by (simp add: reads_only_def)

text \<open>
  When a real run of the fixer is over, on whatever path (normal end, timeout, daemon error,
  or an error while its transcript is looked up), the in-flight handle is empty, whatever the
  other tasks did while it ran.
\<close>

theorem handle_cleared:
  "s_current (shared (snd (run_phase env cfg b key run False g w))) = None"
proof -
  let ?dir = "fc_transcript_dir cfg"
  obtain r1 w1 where 1: "snapshot_dir env ?dir w = (Inr r1, w1)"
    by (auto simp: snapshot_dir_def bindP_def run_simps)
  define w2 where "w2 = snd (publish_current env cfg run (w1\<lparr>ticks := Suc (ticks w1)\<rparr>))"
  have 2: "publish_current env cfg run (w1\<lparr>ticks := Suc (ticks w1)\<rparr>) = (Inr (), w2)"
    by (simp add: w2_def publish_current_def seqP_def bindP_def run_simps)
  obtain x err bad w3 where 3: "exec_or_error env (claude_request cfg b key run False) w2 = (Inr (x, err, bad), w3)"
    using exec_or_error_total by (metis prod_cases3)
  define w4 where "w4 = snd (clear_current env w3)"
  have 4: "clear_current env w3 = (Inr (), w4)" and none: "s_current (shared w4) = None"
    by (simp_all add: w4_def clear_current_def seqP_def bindP_def run_simps set_current_def)
  let ?fin = "finallyP (exec_or_error env (claude_request cfg b key run False)) (clear_current env)"
  have 5: "?fin w2 = (Inr (x, err, bad), w4)" by (simp add: finallyP_def 3 4)
  define rest where "rest = (\<lambda>started.
      bindP (ask (clock env)) (\<lambda>ended.
      bindP (resolve_transcript env ?dir r1 started ended) (\<lambda>transcript.
      bindP (scan_transcript_dir_for_feedback env ?dir r1) (\<lambda>sentinel.
      bindP (case sentinel of
               None \<Rightarrow> ret None
             | Some p \<Rightarrow> bindP (ask (\<lambda>k. json_read env k p)) (\<lambda>f. ret (Some (parse_feedback_file f))))
        (\<lambda>items.
      ret \<lparr>eo_exec_result = x, eo_transcript_path = transcript, eo_error_msg = err,
           eo_errored = bad, eo_feedback_items = items, eo_grants = Some g\<rparr>)))))"
  have "run_phase env cfg b key run False g w = rest (clock env (ticks w1)) w4"
    unfolding run_phase_def Let_def rest_def
    by (simp add: run_bindP_Inr [where m = "snapshot_dir env ?dir" and w = w, OF 1] run_simps unlessP_def
        run_seqP_Inr [where m = "publish_current env cfg run", OF 2] run_bindP_Inr [where m = ?fin, OF 5])
  moreover have "reads_only (rest t)" for t
    unfolding rest_def
    by (intro reads_only_intros reads_only_resolve reads_only_scan reads_only_case)
  ultimately show ?thesis using reads_only_tail none by metis
qed

section \<open>No real run before its grants and its allow-list\<close>

definition is_reconfigure :: "fixer_config \<Rightarrow> act event \<Rightarrow> bool" where
  "is_reconfigure cfg ev = (ev = Act (ExecIn (reconfigure_request cfg)))"

text \<open>The part of a phase that only its normal result reaches.\<close>

lemma marked_result:
  assumes "bindP m k w = (Inr (Inr y), w')" and "emits UNIV m"
    and "\<And>o'. k (Inl o') = ret (Inl o')" and "\<And>x. marks P (k (Inr x))"
  shows "\<exists>es. trace w' = trace w @ es \<and> (\<exists>e \<in> set es. P e)"
proof -
  obtain r w1 where r: "m w = (r, w1)" by fastforce
  with assms(1) obtain z where z: "r = Inr z" "k z w1 = (Inr (Inr y), w')"
    by (cases r) (auto simp: bindP_def)
  have "\<exists>x. z = Inr x" using z(2) assms(3) by (cases z) (auto simp: run_simps)
  with z(2) assms(4) obtain fs where "trace w' = trace w1 @ fs" "\<exists>e \<in> set fs. P e"
    unfolding marks_def by blast
  moreover obtain es where "trace w1 = trace w @ es" using emitsD [OF assms(2) r] by blast
  ultimately show ?thesis by auto
qed

lemma grant_phase_marks:
  assumes "grant_phase env b al i w = (Inr (Inr g), w')"
  shows "\<exists>es. trace w' = trace w @ es \<and> (\<exists>e \<in> set es. audits_what ''autofix.grant_resolved'' e)"
  using assms unfolding grant_phase_def
  by (rule marked_result) (auto intro!: emits_intros marks_seqP(2) marks_audit)

lemma configure_egress_marks: "marks (is_reconfigure cfg) (configure_egress_for_exec env cfg g)"
proof -
  have run: "marks (is_reconfigure cfg) (exec_capture env (reconfigure_request cfg))"
    unfolding marks_def is_reconfigure_def using exec_capture_run(1) by fastforce
  have reraise: "marks P (tryP m (\<lambda>e. raise (f e)))" if "marks P m" for P m and f :: "exn \<Rightarrow> exn"
    using that unfolding marks_def tryP_def by (auto simp: run_simps split: prod.splits sum.splits)
  have tail: "marks (is_reconfigure cfg) (bindP (tryP (exec_capture env (reconfigure_request cfg))
      (\<lambda>e. raise (reconfigure_error e))) (\<lambda>result. if x_exit_code result \<noteq> 0 then
          raise (EgressConfiguration ''reconfigure_nonzero''
            (''exit_code='' @ str_of_int (x_exit_code result) @ '' stderr='' @ py_repr (take 256 (x_stderr result))))
        else ret ()))"
    by (rule marks_bindP_left [OF reraise [OF run]]) (intro emits_intros)
  have failed: "marks P (raise e)" for P e by (simp add: marks_def run_simps)
  show ?thesis
    unfolding configure_egress_for_exec_def Let_def
    by (intro marks_seqP(1) marks_bindP_right emits_intros UNIV_I) (auto simp: failed tail split: option.split)
qed

text \<open>A protected first half: the handler only returns early results.\<close>

lemma marked_try:
  assumes "bindP (tryP (bindP m (\<lambda>u. ret (Inr u))) h) k w = (Inr (Inr y), w')" and "marks P m"
    and h: "\<And>e w v w'. h e w \<noteq> (Inr (Inr v), w')"
    and "\<And>o'. k (Inl o') = ret (Inl o')" and "\<And>x. emits UNIV (k x)"
  shows "\<exists>es. trace w' = trace w @ es \<and> (\<exists>e \<in> set es. P e)"
proof -
  let ?T = "tryP (bindP m (\<lambda>u. ret (Inr u))) h"
  obtain r w1 where r: "?T w = (r, w1)" by fastforce
  with assms(1) obtain z where z: "r = Inr z" "k z w1 = (Inr (Inr y), w')"
    by (cases r) (auto simp: bindP_def)
  obtain v where v: "z = Inr v" using z(2) assms(4) by (cases z) (auto simp: run_simps)
  obtain c w0 where c: "m w = (c, w0)" by fastforce
  have "w1 = w0 \<and> (\<exists>u. c = Inr u)"
    using r z(1) v c h by (cases c) (auto simp: tryP_def bindP_def run_simps)
  with c assms(2) obtain es where "trace w1 = trace w @ es" "\<exists>e \<in> set es. P e"
    unfolding marks_def by metis
  moreover obtain fs where "trace w' = trace w1 @ fs" using emitsD [OF assms(5) z(2)] by blast
  ultimately show ?thesis by auto
qed

lemma early_only: "seqP m (ret (Inl x)) w \<noteq> (Inr (Inr v), w')"
  by (auto simp: seqP_def bindP_def run_simps split: sum.splits prod.splits)

lemma egress_phase_marks:
  assumes "egress_phase env cfg b al i g w = (Inr (Inr u), w')"
  shows "\<exists>es. trace w' = trace w @ es \<and> (\<exists>e \<in> set es. is_reconfigure cfg e)"
  using assms unfolding egress_phase_def
  by (rule marked_try [OF _ configure_egress_marks])
    (auto simp: early_only run_simps split: exn.splits sum.splits intro!: emits_intros)

lemma exec_parts_quiet:
  "precedes P is_real_exec (grant_phase env b al i)"
  "precedes P is_real_exec (egress_phase env cfg b al i g)"
proof -
  show "precedes P is_real_exec (grant_phase env b al i)"
    by (rule precedes_emits [OF emits_grant_phase [OF subset_refl]]) (auto dest!: exec_audits_not_act)
  show "precedes P is_real_exec (egress_phase env cfg b al i g)"
    by (rule precedes_emits [OF emits_egress_phase [OF subset_refl]])
      (auto dest!: exec_audits_not_act egress_acts_not_real)
qed

lemma grow_parts: "emits UNIV (egress_phase env cfg b al i g)" "emits UNIV (run_phase env cfg b key i dry g)"
  by (intro emits_intros; simp)+

lemma real_exec_ordered:
  "precedes (audits_what ''autofix.grant_resolved'') is_real_exec (exec_claude env cfg b al i False)"
  "precedes (is_reconfigure cfg) is_real_exec (exec_claude env cfg b al i False)"
  unfolding exec_claude_def if_False
  by (intro precedes_bindP precedes_case_sum precedes_seqP precedes_early exec_parts_quiet
      precedes_silent emits_intros grow_parts UNIV_I grant_phase_marks egress_phase_marks; assumption?)+

text \<open>
  A real run of the fixer is started only after its grants were resolved and recorded, and
  after the proxy was told to load the allow-list: in what one execution does, no
  skip-permissions command precedes the first \<open>autofix.grant_resolved\<close> row or the first
  reconfigure request.
\<close>

theorem real_exec_after_grants_and_egress:
  "\<exists>es. trace (snd (exec_claude env cfg b al i False w)) = trace w @ es \<and>
     leads (audits_what ''autofix.grant_resolved'') is_real_exec es \<and>
     leads (is_reconfigure cfg) is_real_exec es"
  using real_exec_ordered [where env = env and cfg = cfg and b = b and al = al and i = i] unfolding precedes_def by (metis same_append_eq)

end
