(* ===== verification/ApprovalsRepo.thy ===== *)
theory ApprovalsRepo
  imports AutofixTypes
begin

text \<open>
  The \<open>runbook_run_approvals\<close> table (kernel/autofix/approvals_repository.py).  Every decision is a
  guarded UPDATE that reports how many rows it hit; the locale \<open>guarded_decisions\<close> states that
  contract and proves that of any number of competing decisions one lands.
\<close>

section \<open>The guarded updates\<close>

text \<open>An UPDATE with a WHERE clause: the new table and the row count.\<close>

definition update_where ::
  "(approval \<Rightarrow> bool) \<Rightarrow> (approval \<Rightarrow> approval) \<Rightarrow> store \<Rightarrow> nat \<times> store" where
  "update_where p f s =
     (length (filter p (s_approvals s)),
      s\<lparr>s_approvals := map (\<lambda>a. if p a then f a else a) (s_approvals s)\<rparr>)"

definition decide :: "string \<Rightarrow> string \<Rightarrow> int \<Rightarrow> approval \<Rightarrow> approval" where
  "decide status by_whom when a =
     a\<lparr>ap_status := status, ap_approved_by := Some by_whom, ap_decided_at := Some when\<rparr>"

definition approve :: "string \<Rightarrow> string \<Rightarrow> int \<Rightarrow> store \<Rightarrow> nat \<times> store" where
  "approve i by_whom when =
     update_where (\<lambda>a. ap_id a = i \<and> ap_status a = ''pending'') (decide ''approved'' by_whom when)"

definition reject :: "string \<Rightarrow> string \<Rightarrow> int \<Rightarrow> store \<Rightarrow> nat \<times> store" where
  "reject i by_whom when =
     update_where (\<lambda>a. ap_id a = i \<and> ap_status a = ''pending'') (decide ''rejected'' by_whom when)"

definition revert_to_pending :: "string \<Rightarrow> store \<Rightarrow> nat \<times> store" where
  "revert_to_pending i =
     update_where (\<lambda>a. ap_id a = i \<and> ap_status a = ''approved'' \<and> ap_real_run_id a = None)
       (\<lambda>a. a\<lparr>ap_status := ''pending'', ap_approved_by := None, ap_decided_at := None\<rparr>)"

definition set_real_run_id :: "string \<Rightarrow> string \<Rightarrow> store \<Rightarrow> nat \<times> store" where
  "set_real_run_id i run = update_where (\<lambda>a. ap_id a = i) (\<lambda>a. a\<lparr>ap_real_run_id := Some run\<rparr>)"

text \<open>A store transformer with a result, run on the caller's connection.\<close>

definition execute :: "(store \<Rightarrow> 'a \<times> store) \<Rightarrow> 'a afx" where
  "execute f = bindP (getS f) (\<lambda>(n, s). seqP (modS (\<lambda>_. s)) (ret n))"

definition mark_approved_conn :: "string \<Rightarrow> string \<Rightarrow> int \<Rightarrow> nat afx" where
  "mark_approved_conn i by_whom when = execute (approve i by_whom when)"

definition mark_rejected_conn :: "string \<Rightarrow> string \<Rightarrow> int \<Rightarrow> nat afx" where
  "mark_rejected_conn i by_whom when = execute (reject i by_whom when)"

definition revert_to_pending_conn :: "string \<Rightarrow> nat afx" where
  "revert_to_pending_conn i = execute (revert_to_pending i)"

definition set_real_run_id_conn :: "string \<Rightarrow> string \<Rightarrow> nat afx" where
  "set_real_run_id_conn i run = execute (set_real_run_id i run)"

definition add_approval :: "approval \<Rightarrow> store \<Rightarrow> store" where
  "add_approval a s = s\<lparr>s_approvals := s_approvals s @ [a]\<rparr>"

definition insert_pending ::
  "(store, 'z) env_scheme \<Rightarrow> string \<Rightarrow> string \<Rightarrow> string option \<Rightarrow> string option \<Rightarrow> string afx" where
  "insert_pending env dry_run_id runbook_id alert_id pinned_hash =
     bindP (ask (uuid env)) (\<lambda>approval_id.
     bindP (ask (clock env)) (\<lambda>now.
     seqP (modS (add_approval
       \<lparr>ap_id = approval_id, ap_dry_run_id = dry_run_id, ap_runbook_id = runbook_id,
        ap_alert_id = alert_id, ap_pinned_hash = pinned_hash, ap_status = ''pending'',
        ap_approved_by = None, ap_decided_at = None, ap_real_run_id = None, ap_created_at = now\<rparr>))
     (ret approval_id)))"

definition get_approval :: "string \<Rightarrow> store \<Rightarrow> approval option" where
  "get_approval i s = List.find (\<lambda>a. ap_id a = i) (s_approvals s)"

definition list_by_status :: "string \<Rightarrow> store \<Rightarrow> approval list" where
  "list_by_status status s =
     rev (sort_key ap_created_at (filter (\<lambda>a. ap_status a = status) (s_approvals s)))"

text \<open>The router's own-transaction reject; its audit row is written on the race path too.\<close>

definition mark_rejected ::
  "(store, 'z) env_scheme \<Rightarrow> string \<Rightarrow> string \<Rightarrow> int option \<Rightarrow> string option \<Rightarrow> nat afx" where
  "mark_rejected env i by_whom when ip =
     bindP (case when of Some t \<Rightarrow> ret t | None \<Rightarrow> ask (clock env)) (\<lambda>decided_at.
     txn env (
       bindP (mark_rejected_conn i by_whom decided_at) (\<lambda>rowcount.
       seqP (insert_audit env by_whom ''autofix.rejected'' None
               (Some [(''approval_id'', JStr i), (''decided_by'', JStr by_whom)]) ip None)
       (ret rowcount))))"

section \<open>Decisions as a contract\<close>

text \<open>
  What a client may rely on: a decision on an item answers whether it landed, lands only on an
  open item, closes it, and leaves the other items alone.
\<close>

locale guarded_decisions =
  fixes is_open :: "'i \<Rightarrow> 's \<Rightarrow> bool"
    and decision :: "'d \<Rightarrow> 'i \<Rightarrow> 's \<Rightarrow> bool \<times> 's"
  assumes lands_iff: "fst (decision d i s) \<longleftrightarrow> is_open i s"
    and closes: "\<not> is_open i (snd (decision d i s))"
    and frame: "i \<noteq> j \<Longrightarrow> is_open j (snd (decision d i s)) \<longleftrightarrow> is_open j s"
begin

text \<open>Competing decisions, in the order in which they reach the database.\<close>

fun run_decisions :: "('d \<times> 'i) list \<Rightarrow> 's \<Rightarrow> bool list \<times> 's" where
  "run_decisions [] s = ([], s)"
| "run_decisions ((d, i) # ds) s =
     (case decision d i s of (b, s') \<Rightarrow> case run_decisions ds s' of (bs, s'') \<Rightarrow> (b # bs, s''))"

lemma no_decision_lands: "\<not> is_open i s \<Longrightarrow> (\<And>d j. (d, j) \<in> set ds \<Longrightarrow> j = i) \<Longrightarrow> \<not> (True \<in> set (fst (run_decisions ds s)))"
proof (induction ds arbitrary: s)
  case (Cons p ds)
  obtain d where p: "p = (d, i)" using Cons.prems(2) [of "fst p" "snd p"] by (cases p) auto
  obtain b s' where d: "decision d i s = (b, s')" by fastforce
  have "\<not> b" "\<not> is_open i s'" using lands_iff [of d i s] closes [of i d s] d Cons.prems(1) by simp_all
  moreover have "\<not> (True \<in> set (fst (run_decisions ds s')))"
    using Cons.IH [OF \<open>\<not> is_open i s'\<close>] Cons.prems(2) by force
  ultimately show ?case using p d by (simp add: case_prod_unfold)
qed simp

lemma one_decision_lands:
  assumes "is_open i s" and "\<And>d j. (d, j) \<in> set ds \<Longrightarrow> j = i" and "ds \<noteq> []"
  shows "\<exists>bs. fst (run_decisions ds s) = True # bs \<and> True \<notin> set bs"
proof -
  obtain p es where ds: "ds = p # es" using assms(3) by (cases ds) auto
  obtain d where p: "p = (d, i)" using assms(2) [of "fst p" "snd p"] ds by (cases p) auto
  obtain b s' where d: "decision d i s = (b, s')" by fastforce
  have "b" "\<not> is_open i s'" using lands_iff [of d i s] closes [of i d s] d assms(1) by simp_all
  moreover have "\<not> (True \<in> set (fst (run_decisions es s')))"
    using no_decision_lands [OF \<open>\<not> is_open i s'\<close>] assms(2) ds by force
  ultimately show ?thesis using p d ds by (simp add: case_prod_unfold)
qed

end

text \<open>The approvals: an item is open while a pending row with its id exists.\<close>

datatype verdict = Approve string int | Reject string int

definition pending :: "string \<Rightarrow> store \<Rightarrow> bool" where
  "pending i s \<longleftrightarrow> (\<exists>a \<in> set (s_approvals s). ap_id a = i \<and> ap_status a = ''pending'')"

definition decide_approval :: "verdict \<Rightarrow> string \<Rightarrow> store \<Rightarrow> bool \<times> store" where
  "decide_approval v i s =
     (case (case v of Approve w t \<Rightarrow> approve i w t s | Reject w t \<Rightarrow> reject i w t s) of
        (n, s') \<Rightarrow> (n \<noteq> 0, s'))"

lemmas approval_updates = approve_def reject_def revert_to_pending_def set_real_run_id_def update_where_def

lemma approval_update_frame [simp]:
  "s_audits (snd (update_where p f s)) = s_audits s" "s_runs (snd (update_where p f s)) = s_runs s"
  "s_runbooks (snd (update_where p f s)) = s_runbooks s" "s_outcomes (snd (update_where p f s)) = s_outcomes s"
  "s_settings (snd (update_where p f s)) = s_settings s" "s_feedback (snd (update_where p f s)) = s_feedback s"
  by (simp_all add: update_where_def)

lemma closing_update:
  assumes "\<And>a. ap_id (f a) = ap_id a" and "\<And>a. ap_status (f a) \<noteq> ''pending''"
    and u: "update_where (\<lambda>a. ap_id a = i \<and> ap_status a = ''pending'') f s = (n, t)"
  shows "n \<noteq> 0 \<longleftrightarrow> pending i s" "\<not> pending i t" "i \<noteq> j \<Longrightarrow> pending j t \<longleftrightarrow> pending j s"
proof -
  have n: "n = length (filter (\<lambda>a. ap_id a = i \<and> ap_status a = ''pending'') (s_approvals s))"
    and t: "s_approvals t = map (\<lambda>a. if ap_id a = i \<and> ap_status a = ''pending'' then f a else a) (s_approvals s)"
    using u by (auto simp: update_where_def)
  show "n \<noteq> 0 \<longleftrightarrow> pending i s" unfolding n pending_def by (simp add: filter_empty_conv)
  show "\<not> pending i t" unfolding pending_def t using assms(1,2) by auto
  assume "i \<noteq> j"
  then show "pending j t \<longleftrightarrow> pending j s" unfolding pending_def t using assms(1,2) by fastforce
qed

lemma decide_simps: "ap_id (decide st who t a) = ap_id a" "ap_status (decide st who t a) = st"
  by (simp_all add: decide_def)

lemma decide_approval_facts:
  "fst (decide_approval v i s) \<longleftrightarrow> pending i s" "\<not> pending i (snd (decide_approval v i s))"
  "i \<noteq> j \<Longrightarrow> pending j (snd (decide_approval v i s)) \<longleftrightarrow> pending j s"
proof -
  define f where "f = (case v of Approve w t \<Rightarrow> decide ''approved'' w t | Reject w t \<Rightarrow> decide ''rejected'' w t)"
  have f: "ap_id (f a) = ap_id a" "ap_status (f a) \<noteq> ''pending''" for a
    by (cases v; simp add: f_def decide_simps)+
  obtain n t where u: "update_where (\<lambda>a. ap_id a = i \<and> ap_status a = ''pending'') f s = (n, t)" by fastforce
  have d: "decide_approval v i s = (n \<noteq> 0, t)"
    using u by (cases v) (simp_all add: decide_approval_def approve_def reject_def f_def)
  note c = closing_update [where f = f, OF f u]
  show "fst (decide_approval v i s) \<longleftrightarrow> pending i s" using c(1) d by simp
  show "\<not> pending i (snd (decide_approval v i s))" using c(2) d by simp
  show "i \<noteq> j \<Longrightarrow> pending j (snd (decide_approval v i s)) \<longleftrightarrow> pending j s" using c(3) d by simp
qed

interpretation approvals: guarded_decisions pending decide_approval
  by unfold_locales (fact decide_approval_facts)+

text \<open>The results of a sequence of verdicts on one approval.\<close>

fun race :: "verdict list \<Rightarrow> string \<Rightarrow> store \<Rightarrow> bool list" where
  "race [] i s = []"
| "race (v # vs) i s = (case decide_approval v i s of (b, s') \<Rightarrow> b # race vs i s')"

lemma race_run_decisions: "race vs i s = fst (approvals.run_decisions (map (\<lambda>v. (v, i)) vs) s)"
  by (induction vs arbitrary: s) (auto split: prod.splits)

text \<open>
  C10: of any number of approve and reject calls racing on one pending approval, in whatever order
  they reach the database, the first lands and every other reports row count 0.
\<close>

theorem approval_decided_once:
  assumes "pending i s" and "vs \<noteq> []"
  shows "race vs i s = True # replicate (length vs - 1) False"
proof -
  obtain bs where bs: "race vs i s = True # bs" "True \<notin> set bs"
    using approvals.one_decision_lands [OF assms(1), of "map (\<lambda>v. (v, i)) vs"] assms(2)
    by (auto simp: race_run_decisions)
  have "length (race us i t) = length us" for us t
    by (induction us arbitrary: t) (auto split: prod.splits)
  with bs(1) have "length bs = length vs - 1" by (metis One_nat_def diff_Suc_1 list.size(4) add.right_neutral add_Suc_right)
  moreover have "bs = replicate (length bs) False" using bs(2) by (metis replicate_length_same)
  ultimately show ?thesis using bs(1) by simp
qed

definition pending_example :: store where
  "pending_example =
     \<lparr>s_audits = [], s_runbooks = [], s_runs = [],
      s_approvals = [\<lparr>ap_id = ''a1'', ap_dry_run_id = ''d1'', ap_runbook_id = ''b1'', ap_alert_id = None,
        ap_pinned_hash = Some ''h'', ap_status = ''pending'', ap_approved_by = None, ap_decided_at = None,
        ap_real_run_id = None, ap_created_at = 0\<rparr>],
      s_outcomes = [], s_feedback = [], s_settings = [], s_alerts = [], s_current = None, s_locks = []\<rparr>"

theorem approval_decided_once_witness:
  "race [Reject ''bob'' 1, Approve ''alice'' 2, Approve ''carol'' 3] ''a1'' pending_example = [True, False, False]"
  using approval_decided_once [of "''a1''" pending_example "[Reject ''bob'' 1, Approve ''alice'' 2, Approve ''carol'' 3]"]
  by (simp add: pending_def pending_example_def)

lemma guar_execute:
  assumes "\<And>s. R\<^sup>*\<^sup>* s (snd (f s))"
  shows "guar R (execute f)"
  unfolding execute_def guar_def bindP_def seqP_def
  using assms by (simp add: run_simps bindP_def case_prod_unfold)

lemma emits_execute [emits_intros]: "emits A (execute f)"
  unfolding execute_def by (intro emits_intros)

lemma run_execute: "execute f w = (Inr (fst (f (shared w))), w\<lparr>shared := snd (f (shared w))\<rparr>)"
  by (simp add: execute_def run_simps seqP_def case_prod_unfold bindP_def)

end
