(* ===== verification/Matcher.thy ===== *)
theory Matcher
  imports AutofixTypes "HOL-Library.Sublist"
begin

text \<open>
  Which runbooks an alert triggers (kernel/autofix/matcher.py), with the matcher model of
  kernel/runbooks/config.py.  A stored pattern is validated each time it is used; the text of a
  validation error is the environment's.
\<close>

record alert_matcher =
  m_alertname :: "string option"
  m_labels :: "(string \<times> string) list"

text \<open>\<open>dict[str, str]\<close>: every value must be a string.\<close>

fun string_values :: "json_object \<Rightarrow> (string \<times> string) list option" where
  "string_values [] = Some []"
| "string_values ((k, v) # d) =
     (case v of JStr s \<Rightarrow> map_option ((#) (k, s)) (string_values d) | _ \<Rightarrow> None)"

definition field_alertname :: "json_object \<Rightarrow> string option option" where
  "field_alertname d =
     (case map_of d ''alertname'' of
        None \<Rightarrow> Some None
      | Some JNull \<Rightarrow> Some None
      | Some (JStr s) \<Rightarrow> if s = [] then None else Some (Some s)
      | Some _ \<Rightarrow> None)"

definition field_labels :: "json_object \<Rightarrow> (string \<times> string) list option" where
  "field_labels d =
     (case map_of d ''labels'' of
        None \<Rightarrow> Some []
      | Some (JObj l) \<Rightarrow> string_values l
      | Some _ \<Rightarrow> None)"

definition some_predicate :: "alert_matcher \<Rightarrow> bool" where
  "some_predicate m \<longleftrightarrow> \<not> (m_alertname m = None \<and> m_labels m = [])"

text \<open>\<open>AlertMatcher.model_validate\<close>, with \<open>extra="forbid"\<close> and the after-validator.\<close>

definition validate_matcher :: "(json \<Rightarrow> string) \<Rightarrow> json \<Rightarrow> exn + alert_matcher" where
  "validate_matcher msg p =
     (case p of
        JObj d \<Rightarrow>
          if list_all (\<lambda>(k, _). k = ''alertname'' \<or> k = ''labels'') d then
            (case (field_alertname d, field_labels d) of
               (Some a, Some l) \<Rightarrow>
                 let m = \<lparr>m_alertname = a, m_labels = l\<rparr>
                 in if some_predicate m then Inr m else Inl (ValidationErr (msg p))
             | _ \<Rightarrow> Inl (ValidationErr (msg p)))
          else Inl (ValidationErr (msg p))
      | _ \<Rightarrow> Inl (ValidationErr (msg p)))"

definition matcher_matches :: "alert_matcher \<Rightarrow> alert \<Rightarrow> bool" where
  "matcher_matches m alert =
     (if m_alertname m \<noteq> None \<and> m_alertname m \<noteq> map_of (al_labels alert) ''alertname'' then False
      else list_all (\<lambda>(k, v). map_of (al_labels alert) k = Some v) (m_labels m))"

fun patterns_match :: "(json \<Rightarrow> string) \<Rightarrow> json list \<Rightarrow> alert \<Rightarrow> exn + bool" where
  "patterns_match msg [] alert = Inr False"
| "patterns_match msg (p # ps) alert =
     (case validate_matcher msg p of
        Inl e \<Rightarrow> Inl e
      | Inr m \<Rightarrow> if matcher_matches m alert then Inr True else patterns_match msg ps alert)"

definition runbook_matches :: "(json \<Rightarrow> string) \<Rightarrow> runbook \<Rightarrow> alert \<Rightarrow> exn + bool" where
  "runbook_matches msg b alert = patterns_match msg (rb_patterns b) alert"

fun matching_runbooks :: "(json \<Rightarrow> string) \<Rightarrow> runbook list \<Rightarrow> alert \<Rightarrow> exn + runbook list" where
  "matching_runbooks msg [] alert = Inr []"
| "matching_runbooks msg (b # bs) alert =
     (case runbook_matches msg b alert of
        Inl e \<Rightarrow> Inl e
      | Inr hit \<Rightarrow>
          (case matching_runbooks msg bs alert of
             Inl e \<Rightarrow> Inl e
           | Inr rest \<Rightarrow> Inr (if hit then b # rest else rest)))"

section \<open>The specification\<close>

text \<open>A pattern list accepts an alert when some valid pattern's predicates all hold of it.\<close>

definition accepts :: "json list \<Rightarrow> alert \<Rightarrow> bool" where
  "accepts ps alert \<longleftrightarrow> (\<exists>p \<in> set ps. \<exists>m. validate_matcher (\<lambda>_. []) p = Inr m \<and>
     (\<forall>a. m_alertname m = Some a \<longrightarrow> map_of (al_labels alert) ''alertname'' = Some a) \<and>
     (\<forall>(k, v) \<in> set (m_labels m). map_of (al_labels alert) k = Some v))"

definition valid_patterns :: "json list \<Rightarrow> bool" where
  "valid_patterns ps \<longleftrightarrow> list_all (\<lambda>p. \<not> isl (validate_matcher (\<lambda>_. []) p)) ps"

lemma validate_matcher_Inr_msg: "validate_matcher msg p = Inr m \<longleftrightarrow> validate_matcher msg' p = Inr m"
  unfolding validate_matcher_def by (auto simp: Let_def split: json.splits option.splits if_splits prod.splits)

lemma validate_matcher_isl_msg: "isl (validate_matcher msg p) = isl (validate_matcher msg' p)"
  by (metis isl_def sum.collapse(2) validate_matcher_Inr_msg sum.disc(2))

lemma matcher_matches_iff:
  "matcher_matches m alert \<longleftrightarrow>
     (\<forall>a. m_alertname m = Some a \<longrightarrow> map_of (al_labels alert) ''alertname'' = Some a) \<and>
     (\<forall>(k, v) \<in> set (m_labels m). map_of (al_labels alert) k = Some v)"
  by (cases "m_alertname m") (auto simp: matcher_matches_def list_all_iff)

lemma patterns_match_iff:
  "valid_patterns ps \<Longrightarrow> patterns_match msg ps alert = Inr (accepts ps alert)"
proof (induction ps)
  case Nil
  then show ?case by (simp add: accepts_def)
next
  case (Cons p ps)
  from Cons.prems obtain m where m: "validate_matcher (\<lambda>_. []) p = Inr m"
    by (cases "validate_matcher (\<lambda>_. []) p") (auto simp: valid_patterns_def)
  then have m': "validate_matcher msg p = Inr m" using validate_matcher_Inr_msg by blast
  have "accepts (p # ps) alert \<longleftrightarrow> matcher_matches m alert \<or> accepts ps alert"
    using m by (auto simp: accepts_def matcher_matches_iff)
  moreover have "patterns_match msg ps alert = Inr (accepts ps alert)"
    using Cons by (simp add: valid_patterns_def)
  ultimately show ?case using m' by simp
qed

text \<open>
  On stored patterns that validate, matching returns exactly the runbooks one of whose
  matchers holds of the alert, in the order they were listed.
\<close>

theorem matching_is_filter:
  assumes "\<And>b. b \<in> set bs \<Longrightarrow> valid_patterns (rb_patterns b)"
  shows "matching_runbooks msg bs alert = Inr (filter (\<lambda>b. accepts (rb_patterns b) alert) bs)"
  using assms by (induction bs) (simp_all add: runbook_matches_def patterns_match_iff)

definition example_runbook :: runbook where
  "example_runbook =
     \<lparr>rb_id = ''b1'', rb_path = ''/r/b1'', rb_created_at = 0,
      rb_patterns = [JObj [(''alertname'', JStr ''Down''), (''labels'', JObj [(''job'', JStr ''dns'')])]],
      rb_risk_tag = ''safe'', rb_dry_run_required = False, rb_rate_limit = Some 2, rb_cooldown = Some 60,
      rb_enabled = True, rb_auto_trigger = True, rb_hash = Some ''h''\<rparr>"

definition example_alert :: alert where
  "example_alert = \<lparr>al_id = ''al1'', al_labels = [(''alertname'', ''Down''), (''job'', ''dns''), (''host'', ''pi'')]\<rparr>"

lemma example_patterns_valid: "valid_patterns (rb_patterns example_runbook)"
  by (simp add: valid_patterns_def example_runbook_def validate_matcher_def field_alertname_def
      field_labels_def some_predicate_def Let_def)

theorem matching_is_filter_witness:
  "matching_runbooks (\<lambda>_. []) [example_runbook] example_alert =
     Inr (filter (\<lambda>b. accepts (rb_patterns b) example_alert) [example_runbook])"
  by (rule matching_is_filter) (simp add: example_patterns_valid)

section \<open>Storing a matcher and reading it back\<close>

text \<open>\<open>m.model_dump(mode="json")\<close> for each matcher, as \<open>_serialize_matchers\<close> stores them.\<close>

definition dump_matcher :: "alert_matcher \<Rightarrow> json" where
  "dump_matcher m = JObj [(''alertname'', jopt_str (m_alertname m)),
     (''labels'', JObj (map (\<lambda>(k, v). (k, JStr v)) (m_labels m)))]"

definition serialize_matchers :: "alert_matcher list \<Rightarrow> json list" where
  "serialize_matchers ms = map dump_matcher ms"

lemma string_values_dump: "string_values (map (\<lambda>(k, v). (k, JStr v)) l) = Some l"
  by (induction l) auto

text \<open>
  A matcher that satisfies the model survives the write to the registry and the read by the
  orchestrator: what is validated at match time is the matcher the author declared.
\<close>

theorem matcher_roundtrip:
  assumes "some_predicate m" and "m_alertname m \<noteq> Some []"
  shows "validate_matcher msg (dump_matcher m) = Inr m"
proof -
  have "field_alertname [(''alertname'', jopt_str (m_alertname m)), (''labels'', l)] = Some (m_alertname m)" for l
    using assms(2) by (simp add: field_alertname_def jopt_str_def split: option.splits)
  moreover have "field_labels [(''alertname'', a), (''labels'', JObj (map (\<lambda>(k, v). (k, JStr v)) (m_labels m)))] =
      Some (m_labels m)" for a
    by (simp add: field_labels_def string_values_dump)
  ultimately show ?thesis using assms(1) by (simp add: validate_matcher_def dump_matcher_def some_predicate_def Let_def)
qed

theorem matcher_roundtrip_witness:
  "validate_matcher (\<lambda>_. []) (dump_matcher \<lparr>m_alertname = None, m_labels = [(''job'', ''dns'')]\<rparr>) =
     Inr \<lparr>m_alertname = None, m_labels = [(''job'', ''dns'')]\<rparr>"
  by (rule matcher_roundtrip) (simp_all add: some_predicate_def)

end
