(* ===== verification/Orchestrator.thy ===== *)
theory Orchestrator
  imports Exec ApprovalsRepo Matcher
begin

text \<open>
  The entry points of the auto-fix orchestrator (kernel/autofix/orchestrator.py): the claim
  transaction, the real and the dry path, the alert handler, the operator trigger, the execution
  of an approved plan.  The arguments \<open>_claim_and_exec\<close> takes by keyword are the record
  \<open>claim_req\<close>; a principal that is \<open>None\<close> is the missing keyword.
\<close>

record claim_req =
  cl_alert :: "alert option"
  cl_runbook :: runbook
  cl_initiator :: initiated_by
  cl_principal :: "string option"
  cl_approving :: "string option"
  cl_credential :: "string option"
  cl_ip :: "string option"

section \<open>Feedback and outcome rows of the completion transaction\<close>

definition process_feedback ::
  "aenv \<Rightarrow> string \<Rightarrow> alert option \<Rightarrow> runbook \<Rightarrow> parsed_feedback_item list option \<Rightarrow> int \<Rightarrow> unit afx" where
  "process_feedback env run_id alert b items now =
     (case items of
        None \<Rightarrow> ret ()
      | Some is \<Rightarrow>
          if is = [] then ret ()
          else
            best_effort (for_each is (\<lambda>item.
              bindP (ask (uuid env)) (\<lambda>feedback_id.
              seqP (insert_feedback env run_id item feedback_id now)
                (if pf_kind item = PARSE_ERROR then
                   insert_audit env ''system:autofix'' ''autofix.feedback_parse_error'' None
                     (Some [(''runbook_id'', JStr (rb_id b)), (''alert_id'', alert_id_json alert),
                            (''run_id'', JStr run_id), (''detail'', JStr (take 512 (pf_text item)))]) None None
                 else ret ())))))"

text \<open>\<open>ON CONFLICT (alert_id, outcome) DO NOTHING\<close>\<close>

definition add_outcome :: "outcome_row \<Rightarrow> store \<Rightarrow> store" where
  "add_outcome row s =
     (if list_ex (\<lambda>o'. o_alert_id o' = o_alert_id row \<and> o_outcome o' = o_outcome row) (s_outcomes s) then s
      else s\<lparr>s_outcomes := s_outcomes s @ [row]\<rparr>)"

definition insert_outcome_conn :: "aenv \<Rightarrow> string \<Rightarrow> string \<Rightarrow> string \<Rightarrow> unit afx" where
  "insert_outcome_conn env alert_id outcome decided_by =
     bindP (ask (uuid env)) (\<lambda>outcome_id.
     bindP (ask (clock env)) (\<lambda>now.
     modS (add_outcome
       \<lparr>o_id = outcome_id, o_alert_id = alert_id, o_outcome = outcome, o_decided_at = now,
        o_decided_by = decided_by, o_created_at = now\<rparr>)))"

definition ran_fields ::
  "aenv \<Rightarrow> fixer_config \<Rightarrow> claim_req \<Rightarrow> string \<Rightarrow> exec_result \<Rightarrow> string option \<Rightarrow> string \<Rightarrow> json_object" where
  "ran_fields env cfg rq run_id x transcript log_path =
     (let b = cl_runbook rq
      in with_credential (cl_credential rq)
          ([(''runbook_id'', JStr (rb_id b)), (''runbook_path'', JStr (rb_path b)),
            (''alert_id'', alert_id_json (cl_alert rq)), (''run_id'', JStr run_id), (''prompt'', JStr (rb_path b)),
            (''transcript_path'', jopt_str transcript), (''exec_log_path'', JStr log_path),
            (''exit_code'', JInt (x_exit_code x)), (''runbook_hash'', jopt_str (rb_hash b)),
            (''fixer_user'', JStr (fc_fixer_user cfg)), (''host'', JStr (hostname env)),
            (''initiated_by'', JStr (initiator_value (cl_initiator rq)))] @
           (case cl_approving rq of None \<Rightarrow> [] | Some p \<Rightarrow> [(''approving_principal'', JStr p)])))"

definition persist_outcome ::
  "aenv \<Rightarrow> fixer_config \<Rightarrow> claim_req \<Rightarrow> string \<Rightarrow> string \<Rightarrow> exec_result \<Rightarrow> string option \<Rightarrow> string \<Rightarrow>
   parsed_feedback_item list option \<Rightarrow> unit afx" where
  "persist_outcome env cfg rq who run_id x transcript log_path items =
     txn env
       (seqP (mark_completed_conn env run_id (x_exit_code x) transcript)
       (seqP (insert_audit env who ''autofix.ran'' None
                (Some (ran_fields env cfg rq run_id x transcript log_path)) (cl_ip rq) None)
       (seqP (case cl_alert rq of
                None \<Rightarrow> ret ()
              | Some a \<Rightarrow>
                  if x_exit_code x = 0 then insert_outcome_conn env (al_id a) ''auto_fixed'' ''autofix''
                  else ret ())
       (bindP (ask (clock env)) (\<lambda>now.
          process_feedback env run_id (cl_alert rq) (cl_runbook rq) items now)))))"

section \<open>The claim\<close>

text \<open>
  The claim transaction: the gates are evaluated again and the run row is inserted in one
  transaction.  \<open>Inl\<close> is the result the code returns from inside it.
\<close>

definition claim_txn ::
  "aenv \<Rightarrow> fixer_config \<Rightarrow> claim_req \<Rightarrow> string \<Rightarrow> run_mode \<Rightarrow> string option \<Rightarrow> int \<Rightarrow> (run_result + string) afx" where
  "claim_txn env cfg rq who mode credential now =
     (let b = cl_runbook rq;
          stale = now - (fc_exec_timeout cfg * 1000000 + stale_claim_slack_us);
          window = now - hour_us
      in txn env
          (bindP (in_lock_gate env b stale window) (\<lambda>denial.
           case denial of
             Some reason \<Rightarrow>
               seqP (insert_audit env who ''autofix.denied'' None
                       (Some (with_credential credential
                          [(''runbook_id'', JStr (rb_id b)), (''alert_id'', alert_id_json (cl_alert rq)),
                           (''gate'', JStr (denial_value reason)), (''detail'', JStr (in_lock_detail b reason)),
                           (''initiated_by'', JStr (initiator_value (cl_initiator rq)))])) None None)
                 (ret (Inl (denied (Some (rb_id b)) reason None)))
           | None \<Rightarrow>
               bindP (insert_started env (rb_id b) (map_option al_id (cl_alert rq)) (rb_path b)
                        (fc_fixer_user cfg) (hostname env) (rb_hash b) mode (cl_initiator rq))
                 (\<lambda>run_id. ret (Inr run_id)))))"

definition claim ::
  "aenv \<Rightarrow> fixer_config \<Rightarrow> claim_req \<Rightarrow> string \<Rightarrow> run_mode \<Rightarrow> string option \<Rightarrow> int \<Rightarrow> (run_result + string) afx" where
  "claim env cfg rq who mode credential now =
     (let b = cl_runbook rq
      in tryP (claim_txn env cfg rq who mode credential now)
          (\<lambda>e. seqP (txn env (insert_audit env who ''autofix.claim_error'' None
                   (Some [(''runbook_id'', JStr (rb_id b)), (''alert_id'', alert_id_json (cl_alert rq)),
                          (''gate'', JStr (denial_value CLAIM_ERROR)), (''error'', JStr (exn_msg e))]) None None))
                (ret (Inl (denied (Some (rb_id b)) CLAIM_ERROR None)))))"

text \<open>The intent gateway, which must not orphan the run row.\<close>

definition intent_gateway ::
  "aenv \<Rightarrow> fixer_config \<Rightarrow> claim_req \<Rightarrow> string \<Rightarrow> string \<Rightarrow> exec_outcome \<Rightarrow> bool \<Rightarrow> unit afx" where
  "intent_gateway env cfg rq who run_id outcome dry =
     (case eo_grants outcome of
        None \<Rightarrow> ret ()
      | Some g \<Rightarrow>
          if eo_errored outcome then ret ()
          else
            tryP (execute_intents env cfg run_id (cl_alert rq) (cl_runbook rq) g who dry)
              (\<lambda>e. txn env (insert_audit env who ''autofix.intent_gateway_failed'' None
                      (Some [(''run_id'', JStr run_id), (''runbook_id'', JStr (rb_id (cl_runbook rq))),
                             (''alert_id'', alert_id_json (cl_alert rq)), (''error'', JStr (exn_msg e))]) None None)))"

definition run_finished :: "claim_req \<Rightarrow> run_outcome \<Rightarrow> string \<Rightarrow> exec_outcome \<Rightarrow> string option \<Rightarrow> run_result" where
  "run_finished rq kind run_id outcome approval_id =
     \<lparr>rr_ran = True, rr_outcome = kind, rr_runbook_id = Some (rb_id (cl_runbook rq)), rr_run_id = Some run_id,
      rr_exit_code = Some (x_exit_code (eo_exec_result outcome)), rr_denial = None, rr_approval_id = approval_id\<rparr>"

section \<open>The real path\<close>

definition audit_who_real :: "claim_req \<Rightarrow> exn + string" where
  "audit_who_real rq =
     (case cl_initiator rq of
        ByOperator \<Rightarrow>
          (case cl_principal rq of
             None \<Rightarrow> Inl (AssertionErr ''operator path must provide principal'')
           | Some p \<Rightarrow> Inr p)
      | ByAlert \<Rightarrow> (case cl_approving rq of Some p \<Rightarrow> Inr p | None \<Rightarrow> Inr ''system:autofix''))"

definition exec_error_fields :: "claim_req \<Rightarrow> string \<Rightarrow> exec_outcome \<Rightarrow> string \<Rightarrow> json_object" where
  "exec_error_fields rq run_id outcome log_path =
     [(''runbook_id'', JStr (rb_id (cl_runbook rq))), (''alert_id'', alert_id_json (cl_alert rq)),
      (''run_id'', JStr run_id), (''error'', jopt_str (eo_error_msg outcome)),
      (''exec_log_path'', JStr log_path)]"

text \<open>What follows the release of the lock.\<close>

definition complete_real ::
  "aenv \<Rightarrow> fixer_config \<Rightarrow> claim_req \<Rightarrow> string \<Rightarrow> string \<Rightarrow> exec_outcome \<Rightarrow> run_result afx" where
  "complete_real env cfg rq who run_id outcome =
     (let b = cl_runbook rq; x = eo_exec_result outcome
      in bindP (write_exec_log env cfg run_id (cl_alert rq) b x (eo_error_msg outcome)) (\<lambda>log_path.
         seqP (intent_gateway env cfg rq who run_id outcome False)
         (seqP
           (if eo_errored outcome then
              txn env
                (seqP (mark_completed_conn env run_id (x_exit_code x) (eo_transcript_path outcome))
                (seqP (insert_audit env who ''autofix.exec_error'' None
                         (Some (exec_error_fields rq run_id outcome log_path)) None None)
                (bindP (ask (clock env)) (\<lambda>now.
                   process_feedback env run_id (cl_alert rq) b (eo_feedback_items outcome) now))))
            else
              persist_outcome env cfg rq who run_id x (eo_transcript_path outcome) log_path
                (eo_feedback_items outcome))
         (ret (run_finished rq RAN run_id outcome None)))))"

definition claim_and_exec :: "aenv \<Rightarrow> fixer_config \<Rightarrow> claim_req \<Rightarrow> run_result afx" where
  "claim_and_exec env cfg rq =
     bindP (liftE (audit_who_real rq)) (\<lambda>who.
     bindP (ask (clock env)) (\<lambda>now.
     bindP (with_lock env (rb_id (cl_runbook rq))
        (bindP (claim env cfg rq who REAL (cl_credential rq) now) (\<lambda>claimed.
         case claimed of
           Inl result \<Rightarrow> ret (Inl result)
         | Inr run_id \<Rightarrow>
             bindP (exec_claude env cfg (cl_runbook rq) (cl_alert rq) run_id False) (\<lambda>outcome.
             ret (Inr (run_id, outcome))))))
     (\<lambda>r. case r of
        Inl result \<Rightarrow> ret result
      | Inr (run_id, outcome) \<Rightarrow> complete_real env cfg rq who run_id outcome)))"

section \<open>The dry path\<close>

definition audit_who_dry :: "claim_req \<Rightarrow> exn + string" where
  "audit_who_dry rq =
     (case cl_initiator rq of
        ByOperator \<Rightarrow>
          (case cl_principal rq of
             None \<Rightarrow> Inl (AssertionErr ''operator path must provide principal'')
           | Some p \<Rightarrow> Inr p)
      | ByAlert \<Rightarrow> Inr ''system:autofix'')"

definition stored_fields ::
  "aenv \<Rightarrow> claim_req \<Rightarrow> string \<Rightarrow> exec_outcome \<Rightarrow> string \<Rightarrow> string \<Rightarrow> json_object" where
  "stored_fields env rq run_id outcome log_path approval_id =
     (let b = cl_runbook rq
      in [(''runbook_id'', JStr (rb_id b)), (''runbook_path'', JStr (rb_path b)),
          (''alert_id'', alert_id_json (cl_alert rq)), (''run_id'', JStr run_id),
          (''approval_id'', JStr approval_id), (''transcript_path'', jopt_str (eo_transcript_path outcome)),
          (''exec_log_path'', JStr log_path), (''exit_code'', JInt (x_exit_code (eo_exec_result outcome))),
          (''runbook_hash'', jopt_str (rb_hash b)), (''host'', JStr (hostname env)),
          (''initiated_by'', JStr (initiator_value (cl_initiator rq)))])"

definition complete_dry ::
  "aenv \<Rightarrow> fixer_config \<Rightarrow> claim_req \<Rightarrow> string \<Rightarrow> string \<Rightarrow> exec_outcome \<Rightarrow> run_result afx" where
  "complete_dry env cfg rq who run_id outcome =
     (let b = cl_runbook rq; x = eo_exec_result outcome
      in bindP (write_exec_log env cfg run_id (cl_alert rq) b x (eo_error_msg outcome)) (\<lambda>log_path.
         seqP (intent_gateway env cfg rq who run_id outcome True)
         (bindP
           (txn env
             (seqP (mark_completed_conn env run_id (x_exit_code x) (eo_transcript_path outcome))
             (bindP
               (if eo_errored outcome then
                  seqP (insert_audit env who ''autofix.exec_error'' None
                          (Some (exec_error_fields rq run_id outcome log_path @
                                 [(''mode'', JStr (mode_value DRY_RUN))])) (cl_ip rq) None)
                    (ret None)
                else
                  bindP (insert_pending env run_id (rb_id b) (map_option al_id (cl_alert rq)) (rb_hash b))
                    (\<lambda>approval_id.
                     seqP (insert_audit env who ''autofix.dry_run_stored'' None
                             (Some (stored_fields env rq run_id outcome log_path approval_id)) (cl_ip rq) None)
                       (ret (Some approval_id))))
             (\<lambda>approval_id.
             bindP (ask (clock env)) (\<lambda>now.
             seqP (process_feedback env run_id (cl_alert rq) b (eo_feedback_items outcome) now)
               (ret approval_id))))))
         (\<lambda>approval_id. ret (run_finished rq DRY_RUN_STORED run_id outcome approval_id)))))"

definition claim_and_store_dry :: "aenv \<Rightarrow> fixer_config \<Rightarrow> claim_req \<Rightarrow> run_result afx" where
  "claim_and_store_dry env cfg rq =
     bindP (liftE (audit_who_dry rq)) (\<lambda>who.
     bindP (ask (clock env)) (\<lambda>now.
     bindP (with_lock env (rb_id (cl_runbook rq))
        (bindP (claim env cfg rq who DRY_RUN None now) (\<lambda>claimed.
         case claimed of
           Inl result \<Rightarrow> ret (Inl result)
         | Inr run_id \<Rightarrow>
             bindP (exec_claude env cfg (cl_runbook rq) (cl_alert rq) run_id True) (\<lambda>outcome.
             ret (Inr (run_id, outcome))))))
     (\<lambda>r. case r of
        Inl result \<Rightarrow> ret result
      | Inr (run_id, outcome) \<Rightarrow> complete_dry env cfg rq who run_id outcome)))"

section \<open>Alerts\<close>

definition list_runbooks :: "store \<Rightarrow> runbook list" where
  "list_runbooks s = sort_key rb_path (s_runbooks s)"

definition get_runbook :: "string \<Rightarrow> store \<Rightarrow> runbook option" where
  "get_runbook i s = List.find (\<lambda>b. rb_id b = i) (s_runbooks s)"

definition alert_claim :: "alert \<Rightarrow> runbook \<Rightarrow> claim_req" where
  "alert_claim alert b =
     \<lparr>cl_alert = Some alert, cl_runbook = b, cl_initiator = ByAlert, cl_principal = None,
      cl_approving = None, cl_credential = None, cl_ip = None\<rparr>"

text \<open>What happens once exactly one runbook matched.\<close>

definition handle_match :: "aenv \<Rightarrow> fixer_config \<Rightarrow> alert \<Rightarrow> runbook \<Rightarrow> run_result afx" where
  "handle_match env cfg alert b =
     bindP (check_operational_gates env b True) (\<lambda>denial.
     case denial of
       Some reason \<Rightarrow> deny env alert (Some (rb_id b)) reason (gate_detail b reason) None
     | None \<Rightarrow>
         if rb_dry_run_required b then claim_and_store_dry env cfg (alert_claim alert b)
         else claim_and_exec env cfg (alert_claim alert b))"

definition dispatch :: "aenv \<Rightarrow> fixer_config \<Rightarrow> alert \<Rightarrow> runbook list \<Rightarrow> run_result option afx" where
  "dispatch env cfg alert matched =
     (case matched of
       [] \<Rightarrow> ret None
     | [b] \<Rightarrow> bindP (handle_match env cfg alert b) (\<lambda>r. ret (Some r))
     | _ \<Rightarrow>
         bindP (deny env alert None AMBIGUOUS_MATCH
                  (''matched '' @ str_of_nat (length matched) @ '' runbooks: '' @ join_with '','' (map rb_id matched))
                  (Some [(''runbook_ids'', jstrs (map rb_id matched))])) (\<lambda>r. ret (Some r)))"

definition handle_alert :: "aenv \<Rightarrow> fixer_config \<Rightarrow> alert \<Rightarrow> run_result option afx" where
  "handle_alert env cfg alert =
     bindP (fetch env list_runbooks) (\<lambda>records.
     bindP (liftE (matching_runbooks (validation_msg env) records alert)) (\<lambda>matched.
     dispatch env cfg alert matched))"

section \<open>The operator trigger\<close>

definition operator_claim :: "runbook \<Rightarrow> string \<Rightarrow> string option \<Rightarrow> string option \<Rightarrow> claim_req" where
  "operator_claim b who credential ip =
     \<lparr>cl_alert = None, cl_runbook = b, cl_initiator = ByOperator, cl_principal = Some who,
      cl_approving = None, cl_credential = credential, cl_ip = ip\<rparr>"

definition handle_operator_trigger ::
  "aenv \<Rightarrow> fixer_config \<Rightarrow> string \<Rightarrow> run_mode \<Rightarrow> string \<Rightarrow> string option \<Rightarrow> string option \<Rightarrow> run_result afx" where
  "handle_operator_trigger env cfg runbook_id mode who ip credential =
     bindP (fetch env (get_runbook runbook_id)) (\<lambda>found.
     case found of
       None \<Rightarrow> raise (RunbookNotFound runbook_id)
     | Some b \<Rightarrow>
         if rb_dry_run_required b \<and> mode = REAL then
           seqP (audit_trigger_rejected env b who ip ''dry_run_required_for_risky'' mode credential)
             (raise (DryRunRequiredForRisky runbook_id))
         else
           bindP (getS (\<lambda>s. runbook_id \<in> set (s_locks s))) (\<lambda>locked.
           if locked then deny_operator env b ALREADY_RUNNING who ip credential
           else
             bindP (check_operational_gates env b False) (\<lambda>denial.
             case denial of
               Some reason \<Rightarrow> deny_operator env b reason who ip credential
             | None \<Rightarrow>
                 if mode = DRY_RUN then claim_and_store_dry env cfg (operator_claim b who None ip)
                 else claim_and_exec env cfg (operator_claim b who credential ip))))"

section \<open>Executing an approved plan\<close>

definition denied_approval :: "string option \<Rightarrow> denial_reason \<Rightarrow> string \<Rightarrow> run_result" where
  "denied_approval runbook_id reason approval_id = denied runbook_id reason (Some approval_id)"

text \<open>The plan is rejected: the runbook is gone or is not the one that was planned.\<close>

definition reject_stale_plan ::
  "aenv \<Rightarrow> approval \<Rightarrow> string \<Rightarrow> string option \<Rightarrow> string option \<Rightarrow> denial_reason \<Rightarrow> (string \<times> json) \<Rightarrow> run_result afx" where
  "reject_stale_plan env ap who ip credential reason field =
     seqP
       (txn env
         (bindP (ask (clock env)) (\<lambda>when.
          bindP (mark_rejected_conn (ap_id ap) who when) (\<lambda>_.
          insert_audit env who ''autofix.rejected'' None
            (Some (with_credential credential
               [(''approval_id'', JStr (ap_id ap)), (''runbook_id'', JStr (ap_runbook_id ap)),
                (''gate'', JStr (denial_value reason)), (''pinned_runbook_hash'', jopt_str (ap_pinned_hash ap)),
                field])) ip None))))
       (ret (denied_approval (Some (ap_runbook_id ap)) reason (ap_id ap)))"

definition load_alert_for_exec :: "aenv \<Rightarrow> string \<Rightarrow> alert afx" where
  "load_alert_for_exec env alert_id =
     bindP (fetch env (\<lambda>s. List.find (\<lambda>a. al_id a = alert_id) (s_alerts s))) (\<lambda>loaded.
     case loaded of
       Some a \<Rightarrow> ret a
     | None \<Rightarrow> bindP (ask (clock env)) (\<lambda>_. ret \<lparr>al_id = alert_id, al_labels = []\<rparr>))"

text \<open>\<open>True\<close>: the approval was pending and is now approved.\<close>

definition approve_plan ::
  "aenv \<Rightarrow> approval \<Rightarrow> runbook \<Rightarrow> string \<Rightarrow> string option \<Rightarrow> string option \<Rightarrow> bool afx" where
  "approve_plan env ap b who ip credential =
     txn env
       (bindP (ask (clock env)) (\<lambda>when.
        bindP (mark_approved_conn (ap_id ap) who when) (\<lambda>rowcount.
        if rowcount = 0 then
          seqP (insert_audit env who ''autofix.denied'' None
                  (Some [(''approval_id'', JStr (ap_id ap)), (''runbook_id'', JStr (rb_id b)),
                         (''gate'', JStr ''approval_not_pending''),
                         (''detail'', JStr ''approval was decided by another caller (race)'')]) ip None)
            (ret False)
        else
          seqP (insert_audit env who ''autofix.approved'' None
                  (Some (with_credential credential
                     [(''approval_id'', JStr (ap_id ap)), (''runbook_id'', JStr (rb_id b)),
                      (''dry_run_id'', JStr (ap_dry_run_id ap)), (''runbook_hash'', jopt_str (rb_hash b))])) ip None)
            (ret True))))"

text \<open>The real run is pinned to the approval, or the approval goes back to pending.\<close>

definition settle_approval ::
  "aenv \<Rightarrow> string \<Rightarrow> string \<Rightarrow> string option \<Rightarrow> run_result \<Rightarrow> unit afx" where
  "settle_approval env approval_id who ip result =
     (case rr_run_id result of
        Some run_id \<Rightarrow>
          txn env (bindP (set_real_run_id_conn approval_id run_id) (\<lambda>_. ret ()))
      | None \<Rightarrow>
          txn env
            (bindP (revert_to_pending_conn approval_id) (\<lambda>rowcount.
             if rowcount = 0 then ret ()
             else insert_audit env who ''autofix.approval_reverted'' None
                    (Some [(''approval_id'', JStr approval_id), (''reason'', JStr ''claim_denied''),
                           (''denial_reason'', JStr (case rr_denial result of None \<Rightarrow> ''unknown''
                                                    | Some d \<Rightarrow> denial_value d))]) ip None)))"

definition approved_claim ::
  "approval \<Rightarrow> alert option \<Rightarrow> runbook \<Rightarrow> string \<Rightarrow> string option \<Rightarrow> string option \<Rightarrow> claim_req" where
  "approved_claim ap alert b who credential ip =
     \<lparr>cl_alert = alert, cl_runbook = b,
      cl_initiator = (if ap_alert_id ap = None then ByOperator else ByAlert),
      cl_principal = Some who, cl_approving = Some who, cl_credential = credential, cl_ip = ip\<rparr>"

text \<open>The steps after the plan was found pending, current and admitted by the gates.\<close>

definition run_approved ::
  "aenv \<Rightarrow> fixer_config \<Rightarrow> approval \<Rightarrow> runbook \<Rightarrow> string \<Rightarrow> string option \<Rightarrow> string option \<Rightarrow> run_result afx" where
  "run_approved env cfg ap b who ip credential =
     bindP (approve_plan env ap b who ip credential) (\<lambda>approved.
     if \<not> approved then ret (denied_approval (Some (rb_id b)) APPROVAL_NOT_PENDING (ap_id ap))
     else
       bindP (case ap_alert_id ap of
                None \<Rightarrow> ret None
              | Some i \<Rightarrow> bindP (load_alert_for_exec env i) (\<lambda>a. ret (Some a))) (\<lambda>alert.
       bindP (claim_and_exec env cfg (approved_claim ap alert b who credential ip)) (\<lambda>result.
       seqP (settle_approval env (ap_id ap) who ip result)
         (ret (result\<lparr>rr_approval_id := Some (ap_id ap)\<rparr>)))))"

text \<open>The operational gates, for a plan whose runbook is the one that was planned.\<close>

definition gate_approved ::
  "aenv \<Rightarrow> fixer_config \<Rightarrow> approval \<Rightarrow> runbook \<Rightarrow> string \<Rightarrow> string option \<Rightarrow> string option \<Rightarrow> run_result afx" where
  "gate_approved env cfg ap b who ip credential =
     bindP (check_operational_gates env b False) (\<lambda>denial.
     case denial of
       Some reason \<Rightarrow>
         seqP (txn env (insert_audit env who ''autofix.denied'' None
                 (Some [(''approval_id'', JStr (ap_id ap)), (''runbook_id'', JStr (rb_id b)),
                        (''gate'', JStr (denial_value reason)), (''detail'', JStr (gate_detail b reason))]) ip None))
           (ret (denied_approval (Some (rb_id b)) reason (ap_id ap)))
     | None \<Rightarrow> run_approved env cfg ap b who ip credential)"

text \<open>The runbook of a pending plan is loaded and compared with the pinned hash.\<close>

definition execute_pending ::
  "aenv \<Rightarrow> fixer_config \<Rightarrow> approval \<Rightarrow> string \<Rightarrow> string option \<Rightarrow> string option \<Rightarrow> run_result afx" where
  "execute_pending env cfg ap who ip credential =
     bindP (fetch env (get_runbook (ap_runbook_id ap))) (\<lambda>record.
     case record of
       None \<Rightarrow> reject_stale_plan env ap who ip credential RUNBOOK_MISSING (''runbook_deleted'', JBool True)
     | Some b \<Rightarrow>
         if rb_hash b \<noteq> ap_pinned_hash ap then
           reject_stale_plan env ap who ip credential RUNBOOK_CHANGED
             (''current_runbook_hash'', jopt_str (rb_hash b))
         else gate_approved env cfg ap b who ip credential)"

definition deny_not_pending ::
  "aenv \<Rightarrow> approval option \<Rightarrow> string \<Rightarrow> string \<Rightarrow> string option \<Rightarrow> run_result afx" where
  "deny_not_pending env found approval_id who ip =
     seqP (txn env (insert_audit env who ''autofix.denied'' None
             (Some [(''approval_id'', JStr approval_id), (''gate'', JStr (denial_value APPROVAL_NOT_PENDING)),
                    (''detail'', JStr ''approval missing or not pending'')]) ip None))
       (ret (denied_approval (map_option ap_runbook_id found) APPROVAL_NOT_PENDING approval_id))"

definition execute_approved ::
  "aenv \<Rightarrow> fixer_config \<Rightarrow> string \<Rightarrow> string \<Rightarrow> string option \<Rightarrow> string option \<Rightarrow> run_result afx" where
  "execute_approved env cfg approval_id who ip credential =
     bindP (fetch env (get_approval approval_id)) (\<lambda>found.
     case found of
       None \<Rightarrow> deny_not_pending env found approval_id who ip
     | Some ap \<Rightarrow>
         if ap_status ap \<noteq> ''pending'' then deny_not_pending env found approval_id who ip
         else execute_pending env cfg ap who ip credential)"

section \<open>The stored plan\<close>

definition read_dry_plan :: "aenv \<Rightarrow> string \<Rightarrow> (string \<times> string \<times> int option) option afx" where
  "read_dry_plan env dry_run_id =
     bindP (fetch env (get_run dry_run_id)) (\<lambda>row.
     case Option.bind row r_transcript_path of
       None \<Rightarrow> ret None
     | Some path \<Rightarrow>
         bindP (awaitP env (\<lambda>k. text_read env k path)) (\<lambda>plan.
         ret (map_option (\<lambda>text. (path, text, Option.bind row r_exit_code)) plan)))"

section \<open>What the paths emit\<close>

definition claim_audits :: "act event set" where
  "claim_audits = audits_of {''autofix.denied'', ''autofix.claim_error''}"

definition finish_events :: "act event set" where
  "finish_events = intent_audits \<union> range (\<lambda>(p, t). Act (WriteFile p t)) \<union>
     audits_of {''autofix.intent_gateway_failed'', ''autofix.exec_error'', ''autofix.ran'',
                ''autofix.dry_run_stored'', ''autofix.feedback_parse_error''}"

definition restart_events :: "act event set" where
  "restart_events = range (\<lambda>c. Act (RestartContainer c))"

lemma emits_with_lock [emits_intros]: "emits A m \<Longrightarrow> emits A (with_lock env i m)"
  unfolding with_lock_def by (intro emits_intros)

lemma emits_insert_started [emits_intros]: "emits A (insert_started env rb al p f h hs mode ini)"
  unfolding insert_started_def by (intro emits_intros)

lemma emits_insert_pending [emits_intros]: "emits A (insert_pending env d rb al h)"
  unfolding insert_pending_def by (intro emits_intros)

lemma emits_mark_completed_conn [emits_intros]: "emits A (mark_completed_conn env i x t)"
  unfolding mark_completed_conn_def by (intro emits_intros)

lemma emits_insert_outcome [emits_intros]: "emits A (insert_outcome_conn env a oc who)"
  unfolding insert_outcome_conn_def by (intro emits_intros)

lemma emits_conns [emits_intros]:
  "emits A (mark_rejected_conn i who t)" "emits A (mark_approved_conn i who t)"
  "emits A (revert_to_pending_conn i)" "emits A (set_real_run_id_conn i run)"
  unfolding mark_rejected_conn_def mark_approved_conn_def revert_to_pending_conn_def set_real_run_id_conn_def
  by (intro emits_intros)+

lemma emits_process_feedback [emits_intros]:
  "finish_events \<subseteq> A \<Longrightarrow> emits A (process_feedback env i al b items now)"
  unfolding process_feedback_def by (intro emits_intros) (auto simp: finish_events_def)

lemma emits_persist_outcome [emits_intros]:
  "finish_events \<subseteq> A \<Longrightarrow> emits A (persist_outcome env cfg rq who i x t lp items)"
  unfolding persist_outcome_def by (intro emits_intros) (auto simp: finish_events_def)

lemma emits_claim [emits_intros]:
  "claim_audits \<subseteq> A \<Longrightarrow> emits A (claim env cfg rq who mode cred now)"
  unfolding claim_def claim_txn_def Let_def by (intro emits_intros) (auto simp: claim_audits_def)

lemma emits_intent_gateway:
  assumes "finish_events \<union> (if dry then {} else restart_events) \<subseteq> A"
  shows "emits A (intent_gateway env cfg rq who i outcome dry)"
proof -
  have "intent_audits \<union> (if dry then {} else restart_acts g) \<subseteq> A" for g
    using assms by (auto simp: finish_events_def restart_acts_def restart_events_def split: if_splits)
  then have "emits A (execute_intents env cfg i (cl_alert rq) (cl_runbook rq) g who dry)" for g
    using emits_execute_intents emits_mono by blast
  then show ?thesis
    unfolding intent_gateway_def by (intro emits_intros) (use assms in \<open>auto simp: finish_events_def\<close>)
qed

lemma emits_complete_real:
  "finish_events \<union> restart_events \<subseteq> A \<Longrightarrow> emits A (complete_real env cfg rq who i outcome)"
  unfolding complete_real_def Let_def
  by (intro emits_intros emits_intent_gateway) (auto simp: finish_events_def)

lemma emits_complete_dry:
  "finish_events \<subseteq> A \<Longrightarrow> emits A (complete_dry env cfg rq who i outcome)"
  unfolding complete_dry_def Let_def
  by (intro emits_intros emits_intent_gateway) (auto simp: finish_events_def)

definition real_path_events :: "fixer_config \<Rightarrow> runbook \<Rightarrow> act event set" where
  "real_path_events cfg b = claim_audits \<union> exec_audits \<union> real_acts cfg b \<union> finish_events \<union> restart_events"

definition dry_path_events :: "runbook \<Rightarrow> act event set" where
  "dry_path_events b = claim_audits \<union> exec_audits \<union> dry_acts b \<union> finish_events"

lemma emits_claim_and_exec:
  "emits (real_path_events cfg (cl_runbook rq)) (claim_and_exec env cfg rq)"
  unfolding claim_and_exec_def
  by (intro emits_intros emits_complete_real emits_mono [OF emits_exec_real])
    (auto simp: real_path_events_def)

lemma emits_claim_and_store_dry:
  "emits (dry_path_events (cl_runbook rq)) (claim_and_store_dry env cfg rq)"
  unfolding claim_and_store_dry_def
  by (intro emits_intros emits_complete_dry emits_mono [OF emits_exec_dry])
    (auto simp: dry_path_events_def)

text \<open>The real runs a handler may start: those of one runbook, or none.\<close>

definition real_runs_of :: "runbook \<Rightarrow> act event set" where
  "real_runs_of b = {Act (ExecIn q) | q. q_cmd q = build_claude_cmd b False}"

lemma real_path_real: "ev \<in> real_path_events cfg b \<Longrightarrow> is_real_exec ev \<Longrightarrow> ev \<in> real_runs_of b"
  by (auto simp: real_path_events_def claim_audits_def exec_audits_def finish_events_def intent_audits_def
      restart_events_def real_acts_def real_runs_of_def audits_of_def dest: egress_acts_not_real)

lemma dry_path_not_real: "ev \<in> dry_path_events b \<Longrightarrow> \<not> is_real_exec ev"
  by (auto simp: dry_path_events_def claim_audits_def exec_audits_def finish_events_def intent_audits_def
      audits_of_def dest: dry_acts_not_real)

lemma dry_path_not_restart: "ev \<in> dry_path_events b \<Longrightarrow> \<not> is_restart ev"
  by (auto simp: dry_path_events_def claim_audits_def exec_audits_def finish_events_def intent_audits_def
      audits_of_def dry_acts_def)

text \<open>\<open>starts R m w\<close>: the real runs started by \<open>m\<close> from \<open>w\<close> all lie in \<open>R\<close>.\<close>

definition starts :: "act event set \<Rightarrow> 'a afx \<Rightarrow> (store, act event) world \<Rightarrow> bool" where
  "starts R m w \<longleftrightarrow>
     (\<exists>es. trace (snd (m w)) = trace w @ es \<and> set (filter is_real_exec es) \<subseteq> R)"

lemma filter_set_subset:
  "set es \<subseteq> A \<Longrightarrow> (\<And>ev. ev \<in> A \<Longrightarrow> p ev \<Longrightarrow> ev \<in> R) \<Longrightarrow> set (filter p es) \<subseteq> R"
  by auto

lemma starts_emits: "emits A m \<Longrightarrow> (\<And>ev. ev \<in> A \<Longrightarrow> is_real_exec ev \<Longrightarrow> ev \<in> R) \<Longrightarrow> starts R m w"
  unfolding emits_def starts_def using filter_set_subset [of _ A is_real_exec R] by meson

lemma starts_mono: "starts R m w \<Longrightarrow> R \<subseteq> S \<Longrightarrow> starts S m w"
  unfolding starts_def by blast

lemma starts_bindP:
  assumes "\<And>A. emits A m" and "\<And>x w'. m w = (Inr x, w') \<Longrightarrow> starts R (k x) w'"
  shows "starts R (bindP m k) w"
proof -
  obtain r w' where r: "m w = (r, w')" by fastforce
  have t: "trace w' = trace w" using emitsD [OF assms(1) [of "{}"] r] by simp
  show ?thesis
  proof (cases r)
    case (Inl e)
    with r t show ?thesis by (simp add: starts_def bindP_def)
  next
    case (Inr x)
    with assms(2) r t show ?thesis by (simp add: starts_def bindP_def)
  qed
qed

lemma starts_then:
  assumes "starts R m w" and "\<And>x. emits A (k x)" and "\<And>ev. ev \<in> A \<Longrightarrow> \<not> is_real_exec ev"
  shows "starts R (bindP m k) w"
proof -
  obtain r w' where r: "m w = (r, w')" by fastforce
  obtain es where es: "trace w' = trace w @ es" "set (filter is_real_exec es) \<subseteq> R"
    using assms(1) r unfolding starts_def by auto
  show ?thesis
  proof (cases r)
    case (Inl e)
    with r es show ?thesis by (simp add: starts_def bindP_def)
  next
    case (Inr x)
    obtain fs where fs: "trace (snd (k x w')) = trace w' @ fs" "set fs \<subseteq> A"
      using assms(2) unfolding emits_def by blast
    have "filter is_real_exec fs = []" using fs(2) assms(3) by (auto simp: filter_empty_conv)
    with r es fs Inr show ?thesis unfolding starts_def bindP_def by (intro exI [of _ "es @ fs"]) simp
  qed
qed

lemma starts_audited:
  assumes "emits A m" "A \<subseteq> range Audit"
  shows "starts R m w"
  using assms by (intro starts_emits [OF assms(1)]) auto

lemma starts_real: "starts (real_runs_of (cl_runbook rq)) (claim_and_exec env cfg rq) w"
  by (rule starts_emits [OF emits_claim_and_exec]) (rule real_path_real)

lemma starts_dry: "starts R (claim_and_store_dry env cfg rq) w"
  by (rule starts_emits [OF emits_claim_and_store_dry]) (auto dest: dry_path_not_real)

lemma starts_deny: "starts R (deny env al rb reason detail extra) w"
  "starts R (deny_operator env b reason who ip cred) w"
  by (rule starts_audited [of "audits_of {''autofix.denied''}"]; (intro emits_intros)?; auto simp: audits_of_def)+

text \<open>
  C3: an alert starts a real run of the fixer only for the one runbook that matched it, only if
  that runbook is not marked risky and is enabled and auto-triggered, and only if the kill switch
  was on when the gates were read, whatever other tasks do meanwhile.
\<close>

theorem alert_runs_gated:
  "starts {ev. \<exists>b. ev \<in> real_runs_of b \<and>
       matching_runbooks (validation_msg env) (list_runbooks (other env (ticks w) (shared w))) alert = Inr [b] \<and>
       \<not> rb_dry_run_required b \<and> rb_enabled b \<and> rb_auto_trigger b \<and>
       is_truthy (setting_of ''autofix_enabled''
         (other env (Suc (ticks w)) (other env (ticks w) (shared w))))}
     (handle_alert env cfg alert) w"
  (is "starts ?R _ _")
proof -
  define s1 where "s1 = other env (ticks w) (shared w)"
  have match: "starts ?R (handle_match env cfg alert b) w'"
    if m: "matching_runbooks (validation_msg env) (list_runbooks s1) alert = Inr [b]"
      and w': "shared w' = s1" "ticks w' = Suc (ticks w)" for b w'
    unfolding handle_match_def
  proof (rule starts_bindP)
    fix d w2 assume g: "check_operational_gates env b True w' = (Inr d, w2)"
    show "starts ?R (case d of Some reason \<Rightarrow> deny env alert (Some (rb_id b)) reason (gate_detail b reason) None
       | None \<Rightarrow> if rb_dry_run_required b then claim_and_store_dry env cfg (alert_claim alert b)
                 else claim_and_exec env cfg (alert_claim alert b)) w2"
    proof (cases d)
      case None
      with operational_gates_None [of env b True w' w2] g w' m
      have "\<not> rb_dry_run_required b \<Longrightarrow> real_runs_of b \<subseteq> ?R" by (auto simp: s1_def)
      with None starts_dry starts_mono [OF starts_real [of "alert_claim alert b" env cfg w2]]
      show ?thesis by (simp add: alert_claim_def)
    qed (simp add: starts_deny)
  qed (rule emits_operational_gates)
  show ?thesis
    unfolding handle_alert_def dispatch_def
  proof (intro starts_bindP, goal_cases)
    case (3 records w1 matches w2)
    from 3(1) have r: "records = list_runbooks s1" "shared w1 = s1" "ticks w1 = Suc (ticks w)"
      by (auto simp: fetch_def seqP_def bindP_def run_simps s1_def)
    from 3(2) have m: "matching_runbooks (validation_msg env) records alert = Inr matches" "w2 = w1"
      by (auto simp: liftE_def run_simps split: sum.splits)
    consider "matches = []" | b where "matches = [b]" | b c ms where "matches = b # c # ms"
      by (cases matches rule: list.exhaust; metis list.exhaust)
    then show ?case
    proof cases
      case 1
      then show ?thesis by (simp add: starts_def run_simps)
    next
      case 2
      with match [of _ w2] m r show ?thesis
        by (auto intro!: starts_then [where A = "{}"] emits_intros)
    next
      case 3
      then show ?thesis by (auto intro!: starts_then [where A = "{}"] starts_deny emits_intros)
    qed
  qed (intro emits_intros)+
qed

end
