(* ===== verification/Safety.thy ===== *)
theory Safety
  imports Orchestrator
begin

text \<open>
  The safety theorems of the orchestrator's entry points: what may start a real run, what a
  claim means, what an approval guarantees, which traces denials leave.
\<close>

section \<open>Operator triggers and approved plans\<close>

lemma starts_quiet: "(\<And>A. emits A m) \<Longrightarrow> starts R m w"
  by (rule starts_emits [where A = "{}"]) simp_all

lemma starts_seq_audit:
  assumes "emits (range Audit) m" and "\<And>A. emits A n"
  shows "starts R (seqP m n) w"
  by (rule starts_audited [of "range Audit"]) (auto intro!: emits_intros assms)

text \<open>
  C6: an operator trigger starts a real run only in real mode, of the runbook it names, only if
  that runbook is enabled, is not marked risky and has no lock held, and only if the kill switch
  was on when the gates were read; the auto-trigger flag plays no part.
\<close>

theorem operator_runs_gated:
  "starts {ev. mode = REAL \<and> (\<exists>b. ev \<in> real_runs_of b \<and>
       get_runbook i (other env (ticks w) (shared w)) = Some b \<and>
       \<not> rb_dry_run_required b \<and> rb_enabled b \<and> i \<notin> set (s_locks (other env (ticks w) (shared w))) \<and>
       is_truthy (setting_of ''autofix_enabled''
         (other env (Suc (ticks w)) (other env (ticks w) (shared w)))))}
     (handle_operator_trigger env cfg i mode who ip cred) w"
  (is "starts ?R _ _")
proof -
  define s1 where "s1 = other env (ticks w) (shared w)"
  define w1 where "w1 = w\<lparr>shared := s1, ticks := Suc (ticks w)\<rparr>"
  have w1: "shared w1 = s1" "ticks w1 = Suc (ticks w)" "trace w1 = trace w" by (simp_all add: w1_def)
  show ?thesis
  proof (cases "get_runbook i s1")
    case None
    then show ?thesis
      by (simp add: handle_operator_trigger_def starts_def bindP_def run_fetch run_simps s1_def)
  next
    case (Some b)
    have gates: "starts ?R (bindP (check_operational_gates env b False) (\<lambda>denial.
             case denial of
               Some reason \<Rightarrow> deny_operator env b reason who ip cred
             | None \<Rightarrow>
                 if mode = DRY_RUN then claim_and_store_dry env cfg (operator_claim b who None ip)
                 else claim_and_exec env cfg (operator_claim b who cred ip))) w1"
      if "\<not> (rb_dry_run_required b \<and> mode = REAL)" "i \<notin> set (s_locks s1)"
    proof (rule starts_bindP [OF emits_operational_gates])
      fix d w2 assume g: "check_operational_gates env b False w1 = (Inr d, w2)"
      show "starts ?R (case d of
               Some reason \<Rightarrow> deny_operator env b reason who ip cred
             | None \<Rightarrow>
                 if mode = DRY_RUN then claim_and_store_dry env cfg (operator_claim b who None ip)
                 else claim_and_exec env cfg (operator_claim b who cred ip)) w2"
      proof (cases d)
        case None
        with operational_gates_None [of env b False w1 w2] g w1 Some that
        have "mode \<noteq> DRY_RUN \<Longrightarrow> real_runs_of b \<subseteq> ?R" by (cases mode) (auto simp: s1_def)
        with None starts_dry starts_mono [OF starts_real [of "operator_claim b who cred ip" env cfg w2]]
        show ?thesis by (simp add: operator_claim_def)
      qed (simp add: starts_deny)
    qed
    define rest where "rest =
      (if rb_dry_run_required b \<and> mode = REAL then
           seqP (audit_trigger_rejected env b who ip ''dry_run_required_for_risky'' mode cred)
             (raise (DryRunRequiredForRisky i))
         else
           bindP (getS (\<lambda>s. i \<in> set (s_locks s))) (\<lambda>locked.
           if locked then deny_operator env b ALREADY_RUNNING who ip cred
           else
             bindP (check_operational_gates env b False) (\<lambda>denial.
             case denial of
               Some reason \<Rightarrow> deny_operator env b reason who ip cred
             | None \<Rightarrow>
                 if mode = DRY_RUN then claim_and_store_dry env cfg (operator_claim b who None ip)
                 else claim_and_exec env cfg (operator_claim b who cred ip))))"
    have run: "handle_operator_trigger env cfg i mode who ip cred w = rest w1"
      unfolding handle_operator_trigger_def rest_def
      using Some by (simp add: bindP_def [of "fetch env (get_runbook i)"] run_fetch entered_def w1_def flip: s1_def)
    have "starts ?R rest w1"
    proof (cases "rb_dry_run_required b \<and> mode = REAL")
      case True
      then show ?thesis unfolding rest_def
        by (auto intro!: starts_seq_audit emits_intros)
    next
      case False
      show ?thesis
      proof (cases "i \<in> set (s_locks s1)")
        case True
        with False starts_deny(2) [of ?R env b ALREADY_RUNNING who ip cred w1] show ?thesis
          unfolding rest_def starts_def by (auto simp: run_simps w1)
      next
        case free: False
        with False gates show ?thesis
          unfolding rest_def starts_def by (auto simp: run_simps w1)
      qed
    qed
    then show ?thesis using w1(3) unfolding starts_def run by simp
  qed
qed

section \<open>The claim\<close>

text \<open>The row a claim inserts.\<close>

definition claimed_row :: "claim_req \<Rightarrow> fixer_config \<Rightarrow> aenv \<Rightarrow> run_mode \<Rightarrow> run_row \<Rightarrow> bool" where
  "claimed_row rq cfg env mode r \<longleftrightarrow>
     r_runbook_id r = rb_id (cl_runbook rq) \<and> r_alert_id r = map_option al_id (cl_alert rq) \<and>
     r_mode r = mode_value mode \<and> r_hash r = rb_hash (cl_runbook rq) \<and>
     r_initiated_by r = initiator_value (cl_initiator rq) \<and> r_ended_at r = None \<and> r_killed_at r = None"

text \<open>The claim transaction by its results.\<close>

lemma claim_txn_results:
  "claim_txn env cfg rq who mode cred now w = (Inr (Inr run_id), w') \<Longrightarrow>
     \<exists>t row. admissible (cl_runbook rq) (now - (fc_exec_timeout cfg * 1000000 + stale_claim_slack_us))
         (now - hour_us) t (other env (ticks w) (shared w)) \<and>
       claimed_row rq cfg env mode row \<and> r_id row = run_id \<and> (\<exists>k \<ge> ticks w. r_started_at row = clock env k) \<and>
       shared w' = add_run row (other env (ticks w) (shared w)) \<and> trace w' = trace w"
  (is "?H1 \<Longrightarrow> ?A1")
  "claim_txn env cfg rq who mode cred now w = (Inr (Inl result), w') \<Longrightarrow>
     \<exists>t row d. \<not> admissible (cl_runbook rq) (now - (fc_exec_timeout cfg * 1000000 + stale_claim_slack_us))
         (now - hour_us) t (other env (ticks w) (shared w)) \<and>
       result = denied (Some (rb_id (cl_runbook rq))) d None \<and> a_what row = ''autofix.denied'' \<and>
       shared w' = add_audit row (other env (ticks w) (shared w)) \<and> trace w' = trace w @ [Audit row]"
  (is "?H2 \<Longrightarrow> ?A2")
  "claim_txn env cfg rq who mode cred now w = (Inl e, w') \<Longrightarrow>
     shared w' = other env (ticks w) (shared w) \<and> trace w' = trace w"
  (is "?H3 \<Longrightarrow> ?A3")
proof -
  let ?b = "cl_runbook rq"
  let ?stale = "now - (fc_exec_timeout cfg * 1000000 + stale_claim_slack_us)"
  let ?s1 = "other env (ticks w) (shared w)"
  define t where "t = clock env (Suc (ticks w))"
  define body where "body = (bindP (in_lock_gate env ?b ?stale (now - hour_us)) (\<lambda>denial.
           case denial of
             Some reason \<Rightarrow>
               seqP (insert_audit env who ''autofix.denied'' None
                       (Some (with_credential cred
                          [(''runbook_id'', JStr (rb_id ?b)), (''alert_id'', alert_id_json (cl_alert rq)),
                           (''gate'', JStr (denial_value reason)), (''detail'', JStr (in_lock_detail ?b reason)),
                           (''initiated_by'', JStr (initiator_value (cl_initiator rq)))])) None None)
                 (ret (Inl (denied (Some (rb_id ?b)) reason None)))
           | None \<Rightarrow>
               bindP (insert_started env (rb_id ?b) (map_option al_id (cl_alert rq)) (rb_path ?b)
                        (fc_fixer_user cfg) (hostname env) (rb_hash ?b) mode (cl_initiator rq))
                 (\<lambda>run_id. ret (Inr run_id))) :: (run_result + string) afx)"
  have claim: "claim_txn env cfg rq who mode cred now = txn env body"
    by (simp add: claim_txn_def Let_def body_def)
  obtain k where g: "in_lock_gate env ?b ?stale (now - hour_us) (entered env w) =
      (Inr (gate_decision ?b ?stale (now - hour_us) t ?s1), (entered env w)\<lparr>ticks := k\<rparr>)" "ticks w \<le> k"
    using in_lock_gate_run [where env = env and b = ?b and stale = ?stale and rate = "now - hour_us" and w = "entered env w"]
    by (auto simp: t_def)
  have all: "case claim_txn env cfg rq who mode cred now w of
     (Inr (Inr run_id), w') \<Rightarrow>
        (\<exists>t row. admissible ?b ?stale (now - hour_us) t ?s1 \<and>
           claimed_row rq cfg env mode row \<and> r_id row = run_id \<and> (\<exists>k \<ge> ticks w. r_started_at row = clock env k) \<and>
           shared w' = add_run row ?s1 \<and> trace w' = trace w)
   | (Inr (Inl result), w') \<Rightarrow>
        (\<exists>t row d. \<not> admissible ?b ?stale (now - hour_us) t ?s1 \<and>
           result = denied (Some (rb_id ?b)) d None \<and> a_what row = ''autofix.denied'' \<and>
           shared w' = add_audit row ?s1 \<and> trace w' = trace w @ [Audit row])
   | (Inl e, w') \<Rightarrow> shared w' = ?s1 \<and> trace w' = trace w"
  proof (cases "gate_decision ?b ?stale (now - hour_us) t ?s1")
    case None
    define row where "row = \<lparr>r_id = uuid env k, r_runbook_id = rb_id ?b, r_created_at = clock env (Suc k),
        r_alert_id = map_option al_id (cl_alert rq), r_mode = mode_value mode, r_prompt = Some (rb_path ?b),
        r_started_at = clock env (Suc k), r_ended_at = None, r_fixer_user = Some (fc_fixer_user cfg),
        r_host = Some (hostname env), r_hash = rb_hash ?b, r_transcript_path = None, r_exit_code = None,
        r_initiated_by = initiator_value (cl_initiator rq), r_killed_at = None, r_transcript_pruned_at = None\<rparr>"
    have row: "claimed_row rq cfg env mode row" "r_id row = uuid env k" "\<exists>k \<ge> ticks w. r_started_at row = clock env k"
      using g(2) by (auto simp: row_def claimed_row_def intro!: exI [of _ "Suc k"])
    have adm: "admissible ?b ?stale (now - hour_us) t ?s1" using None by (simp add: gate_decision_None)
    have "body (entered env w) = (Inr (Inr (uuid env k)),
        (entered env w)\<lparr>shared := add_run row ?s1, ticks := Suc (Suc k)\<rparr>)"
      using None g(1) by (simp add: body_def bindP_def insert_started_run run_simps row_def)
    then show ?thesis
      unfolding claim by (cases rule: txn_returned) (use row adm in auto)
  next
    case (Some reason)
    have adm: "\<not> admissible ?b ?stale (now - hour_us) t ?s1" using Some by (simp flip: gate_decision_None)
    obtain row w2 where ia: "insert_audit env who ''autofix.denied'' None
                       (Some (with_credential cred
                          [(''runbook_id'', JStr (rb_id ?b)), (''alert_id'', alert_id_json (cl_alert rq)),
                           (''gate'', JStr (denial_value reason)), (''detail'', JStr (in_lock_detail ?b reason)),
                           (''initiated_by'', JStr (initiator_value (cl_initiator rq)))])) None None
           ((entered env w)\<lparr>ticks := k\<rparr>) = (Inr (), w2)"
      "shared w2 = add_audit row ?s1" "trace w2 = trace w @ [Audit row]" "a_what row = ''autofix.denied''"
      using run_insert_audit [where w = "(entered env w)\<lparr>ticks := k\<rparr>"] by fastforce
    have "body (entered env w) = (Inr (Inl (denied (Some (rb_id ?b)) reason None)), w2)"
      using Some g(1) ia(1) by (simp add: body_def bindP_def seqP_def run_simps)
    then show ?thesis
      unfolding claim by (cases rule: txn_returned) (use ia adm in auto)
  qed
  show "claim_txn env cfg rq who mode cred now w = (Inr (Inr run_id), w') \<Longrightarrow> ?A1" using all by simp
  show "claim_txn env cfg rq who mode cred now w = (Inr (Inl result), w') \<Longrightarrow> ?A2" using all by simp
  show "claim_txn env cfg rq who mode cred now w = (Inl e, w') \<Longrightarrow> ?A3" using all by simp
qed


section \<open>Approved plans\<close>

lemma emits_settle [emits_intros]:
  "(\<And>r. a_what r = ''autofix.approval_reverted'' \<Longrightarrow> Audit r \<in> A) \<Longrightarrow> emits A (settle_approval env i who ip res)"
  unfolding settle_approval_def by (intro emits_intros)

lemma emits_approve_plan [emits_intros]:
  "(\<And>r. a_what r \<in> {''autofix.denied'', ''autofix.approved''} \<Longrightarrow> Audit r \<in> A) \<Longrightarrow>
     emits A (approve_plan env ap b who ip cred)"
  unfolding approve_plan_def by (intro emits_intros) auto

lemma emits_load_alert [emits_intros]: "emits A (load_alert_for_exec env i)"
  unfolding load_alert_for_exec_def by (intro emits_intros)

lemma emits_reject_stale [emits_intros]:
  "(\<And>r. a_what r = ''autofix.rejected'' \<Longrightarrow> Audit r \<in> A) \<Longrightarrow> emits A (reject_stale_plan env ap who ip cred d f)"
  unfolding reject_stale_plan_def by (intro emits_intros)

lemma emits_run_approved:
  "emits (range Audit \<union> real_path_events cfg b) (run_approved env cfg ap b who ip cred)"
proof -
  have "emits (range Audit \<union> real_path_events cfg b) (claim_and_exec env cfg (approved_claim ap al b who cred ip))" for al
    using emits_mono [OF emits_claim_and_exec [of cfg "approved_claim ap al b who cred ip" env]]
    by (simp add: approved_claim_def)
  then show ?thesis unfolding run_approved_def by (intro emits_intros) auto
qed

lemma starts_run_approved: "starts (real_runs_of b) (run_approved env cfg ap b who ip cred) w"
  by (rule starts_emits [OF emits_run_approved]) (auto dest: real_path_real)

lemma run_liftE: "liftE r w = (r, w)"
  by (cases r) (simp_all add: liftE_def run_simps)

lemma starts_gate_approved:
  "starts {ev. ev \<in> real_runs_of b \<and> rb_enabled b \<and>
       is_truthy (setting_of ''autofix_enabled'' (other env (ticks w) (shared w)))}
     (gate_approved env cfg ap b who ip cred) w"
  (is "starts ?R _ _")
  unfolding gate_approved_def
proof (rule starts_bindP [OF emits_operational_gates], goal_cases)
  case (1 d w2)
  show ?case
  proof (cases d)
    case None
    with operational_gates_None [of env b False w w2] 1 have "real_runs_of b \<subseteq> ?R" by auto
    with None starts_mono [OF starts_run_approved] show ?thesis by simp
  qed (auto intro!: starts_seq_audit emits_intros)
qed

lemma starts_execute_pending:
  "starts {ev. \<exists>b. ev \<in> real_runs_of b \<and> get_runbook (ap_runbook_id ap) (other env (ticks w) (shared w)) = Some b \<and>
       rb_hash b = ap_pinned_hash ap \<and> rb_enabled b \<and>
       is_truthy (setting_of ''autofix_enabled'' (other env (Suc (ticks w)) (other env (ticks w) (shared w))))}
     (execute_pending env cfg ap who ip cred) w"
  (is "starts ?R _ _")
  unfolding execute_pending_def
proof (rule starts_bindP [OF emits_fetch], goal_cases)
  case (1 found w2)
  then have r: "found = get_runbook (ap_runbook_id ap) (other env (ticks w) (shared w))" "w2 = entered env w"
    by (auto simp: run_fetch)
  have rejects: "starts ?R (reject_stale_plan env ap who ip cred d f) w2" for d f
    by (rule starts_audited [of "range Audit"]) (auto intro!: emits_intros)
  show ?case
  proof (cases found)
    case (Some b)
    have "starts ?R (gate_approved env cfg ap b who ip cred) w2" if "rb_hash b = ap_pinned_hash ap"
      by (rule starts_mono [OF starts_gate_approved]) (use that Some r in auto)
    with Some rejects show ?thesis by simp
  qed (simp add: rejects)
qed

text \<open>
  C5: the execution of an approved plan starts a real run only if the approval was pending when
  read, the runbook exists, is enabled and still has the very hash the plan was pinned to, and
  the kill switch was on when the gates were read.
\<close>

theorem approved_runs_gated:
  "starts {ev. \<exists>ap b. ev \<in> real_runs_of b \<and>
       get_approval i (other env (ticks w) (shared w)) = Some ap \<and> ap_status ap = ''pending'' \<and>
       get_runbook (ap_runbook_id ap) (other env (Suc (ticks w)) (other env (ticks w) (shared w))) = Some b \<and>
       rb_hash b = ap_pinned_hash ap \<and> rb_enabled b \<and>
       is_truthy (setting_of ''autofix_enabled'' (other env (Suc (Suc (ticks w)))
          (other env (Suc (ticks w)) (other env (ticks w) (shared w)))))}
     (execute_approved env cfg i who ip cred) w"
  (is "starts ?R _ _")
  unfolding execute_approved_def
proof (rule starts_bindP [OF emits_fetch], goal_cases)
  case (1 found w1)
  then have f: "found = get_approval i (other env (ticks w) (shared w))" "w1 = entered env w"
    by (auto simp: run_fetch)
  have denies: "starts ?R (deny_not_pending env x i who ip) w1" for x
    unfolding deny_not_pending_def by (auto intro!: starts_seq_audit emits_intros)
  show ?case
  proof (cases found)
    case (Some ap)
    have "starts ?R (execute_pending env cfg ap who ip cred) w1" if "ap_status ap = ''pending''"
      by (rule starts_mono [OF starts_execute_pending]) (use that Some f in auto)
    with Some denies show ?thesis by simp
  qed (simp add: denies)
qed

text \<open>The approval is on record before the run it permits.\<close>

lemma approve_plan_marks:
  assumes "approve_plan env ap b who ip cred w = (Inr True, w')"
  shows "\<exists>es. trace w' = trace w @ es \<and> (\<exists>e \<in> set es. audits_what ''autofix.approved'' e)"
proof -
  define n where "n = fst (approve (ap_id ap) who (clock env (Suc (ticks w))) (shared (entered env w)))"
  define s2 where "s2 = snd (approve (ap_id ap) who (clock env (Suc (ticks w))) (shared (entered env w)))"
  define w2 where "w2 = (entered env w)\<lparr>ticks := Suc (Suc (ticks w)), shared := s2\<rparr>"
  define kind where "kind = (if n = 0 then ''autofix.denied'' else ''autofix.approved'')"
  define fields where "fields = (if n = 0
     then [(''approval_id'', JStr (ap_id ap)), (''runbook_id'', JStr (rb_id b)),
           (''gate'', JStr ''approval_not_pending''),
           (''detail'', JStr ''approval was decided by another caller (race)'')]
     else with_credential cred
           [(''approval_id'', JStr (ap_id ap)), (''runbook_id'', JStr (rb_id b)),
            (''dry_run_id'', JStr (ap_dry_run_id ap)), (''runbook_hash'', jopt_str (rb_hash b))])"
  obtain row w3 where ia: "insert_audit env who kind None (Some fields) ip None w2 = (Inr (), w3)"
    "trace w3 = trace w2 @ [Audit row]" "a_what row = kind"
    using run_insert_audit by blast
  define body where "body = bindP (ask (clock env)) (\<lambda>when.
        bindP (mark_approved_conn (ap_id ap) who when) (\<lambda>rowcount.
        if rowcount = 0 then
          seqP (insert_audit env who ''autofix.denied'' None
                  (Some [(''approval_id'', JStr (ap_id ap)), (''runbook_id'', JStr (rb_id b)),
                         (''gate'', JStr ''approval_not_pending''),
                         (''detail'', JStr ''approval was decided by another caller (race)'')]) ip None)
            (ret False)
        else
          seqP (insert_audit env who ''autofix.approved'' None
                  (Some (with_credential cred
                     [(''approval_id'', JStr (ap_id ap)), (''runbook_id'', JStr (rb_id b)),
                      (''dry_run_id'', JStr (ap_dry_run_id ap)), (''runbook_hash'', jopt_str (rb_hash b))])) ip None)
            (ret True)))"
  have plan: "approve_plan env ap b who ip cred = txn env body" by (simp add: approve_plan_def body_def)
  have "body (entered env w) = (Inr (n \<noteq> 0), w3)"
    using ia(1) by (cases "n = 0")
      (simp_all add: body_def run_simps mark_approved_conn_def bindP_def run_execute seqP_def kind_def fields_def
        w2_def s2_def n_def [symmetric] n_def [unfolded entered_simps, symmetric])
  then show ?thesis
  proof (cases rule: txn_returned)
    case committed
    with assms plan have "n \<noteq> 0" "trace w' = trace w3" by auto
    with ia show ?thesis by (auto simp: kind_def w2_def)
  qed (use assms plan in auto)
qed

lemma approved_precedes_run:
  "precedes (audits_what ''autofix.approved'') is_real_exec (run_approved env cfg ap b who ip cred)"
  unfolding run_approved_def
proof (rule precedes_bindP_cases, goal_cases)
  case 1
  show ?case by (rule precedes_emits [of "range Audit"]) (auto intro!: emits_intros)
next
  case (2 w x w')
  show ?case
  proof (cases x)
    case True
    have "emits UNIV (claim_and_exec env cfg rq)" for rq
      using emits_mono [OF emits_claim_and_exec] by blast
    with True approve_plan_marks 2 show ?thesis by (auto intro!: emits_intros)
  next
    case False
    then show ?thesis by (simp add: precedes_silent emits_ret)
  qed
qed

text \<open>
  In everything the execution of an approval does, the audit row that records the approval
  (written in the transaction that turned it from pending to approved) comes before any real run.
\<close>

theorem approval_audited_before_run:
  "\<exists>es. trace (snd (execute_approved env cfg i who ip cred w)) = trace w @ es \<and>
     leads (audits_what ''autofix.approved'') is_real_exec es"
proof -
  have audits: "precedes P is_real_exec m" if "emits (range Audit) m" for P and m :: "run_result afx"
    using that by (rule precedes_emits) auto
  have g: "precedes (audits_what ''autofix.approved'') is_real_exec (gate_approved env cfg ap b who ip cred)" for ap b
    unfolding gate_approved_def
    by (rule precedes_bindP [OF precedes_silent [OF emits_operational_gates]])
      (auto intro!: approved_precedes_run audits emits_intros split: option.split)
  have p: "precedes (audits_what ''autofix.approved'') is_real_exec (execute_pending env cfg ap who ip cred)" for ap
    unfolding execute_pending_def
    by (rule precedes_bindP [OF precedes_silent [OF emits_fetch]])
      (auto intro!: g audits emits_intros split: option.split)
  have "precedes (audits_what ''autofix.approved'') is_real_exec (execute_approved env cfg i who ip cred)"
    unfolding execute_approved_def deny_not_pending_def
    by (rule precedes_bindP [OF precedes_silent [OF emits_fetch]])
      (auto intro!: p audits emits_intros split: option.split)
  then show ?thesis by (simp add: precedes_def)
qed

end
