(* ===== verification/Transitions.thy ===== *)
theory Transitions
  imports Safety
begin

text \<open>
  Interleaving.  \<open>db_step\<close> is one committed write of any task of the process; every handler of the
  orchestrator guarantees that all it does to the shared store is a sequence of such steps,
  provided the other tasks do the same between its awaits.  What every step preserves therefore
  holds at every moment of every interleaving: the history relation \<open>extends\<close>, and the sliding
  windows of the locale \<open>admission\<close>.
\<close>

section \<open>One committed write\<close>

text \<open>
  \<open>quota\<close> is the hourly limit of each runbook, \<open>gap\<close> the time after which an open run counts as
  orphaned.  A claim is admitted by the gate on readings of the clock that are not later than
  the start time of the row it inserts.  The registry may be rewritten, but not the limits: a
  refresh that edits a limit starts a new period.
\<close>

definition quota_kept :: "(string \<Rightarrow> int option) \<Rightarrow> runbook list \<Rightarrow> bool" where
  "quota_kept quota bs \<longleftrightarrow> (\<forall>b \<in> set bs. rb_rate_limit b = quota (rb_id b))"

inductive db_step :: "(string \<Rightarrow> int option) \<Rightarrow> int \<Rightarrow> store \<Rightarrow> store \<Rightarrow> bool"
  for quota :: "string \<Rightarrow> int option" and gap :: int where
  st_audit: "db_step quota gap s (add_audit row s)"
| st_claim: "admissible b stale window t s \<Longrightarrow> rb_rate_limit b = quota (rb_id b) \<Longrightarrow>
     r_runbook_id row = rb_id b \<Longrightarrow> r_ended_at row = None \<Longrightarrow> r_killed_at row = None \<Longrightarrow>
     r_started_at row - gap \<ge> stale \<Longrightarrow> r_started_at row - hour_us \<ge> window \<Longrightarrow>
     db_step quota gap s (add_run row s)"
| st_complete: "db_step quota gap s (update_run i (complete_run now x transcript) s)"
| st_killed: "db_step quota gap s (update_run i (kill_run now) s)"
| st_pruned: "db_step quota gap s (update_run i (prune_run now) s)"
| st_pending: "ap_status a = ''pending'' \<Longrightarrow> ap_real_run_id a = None \<Longrightarrow> db_step quota gap s (add_approval a s)"
| st_approve: "db_step quota gap s (snd (approve i who now s))"
| st_reject: "db_step quota gap s (snd (reject i who now s))"
| st_revert: "db_step quota gap s (snd (revert_to_pending i s))"
| st_real_run: "db_step quota gap s (snd (set_real_run_id i run s))"
| st_outcome: "db_step quota gap s (add_outcome row s)"
| st_feedback: "db_step quota gap s (add_feedback row s)"
| st_set: "db_step quota gap s (set_setting k v s)"
| st_delete: "db_step quota gap s (snd (delete_setting k s))"
| st_current: "db_step quota gap s (set_current c s)"
| st_hold: "db_step quota gap s (hold_lock i s)"
| st_release: "db_step quota gap s (release_lock i s)"
| st_registry: "quota_kept quota bs \<Longrightarrow> db_step quota gap s (s\<lparr>s_runbooks := bs\<rparr>)"
| st_alerts: "db_step quota gap s (s\<lparr>s_alerts := as\<rparr>)"

inductive_cases db_stepE: "db_step quota gap s t"

section \<open>What the parts of the orchestrator may write\<close>

lemma guar_process_feedback:
  assumes "\<And>s row. R s (add_audit row s)" "\<And>s row. R s (add_feedback row s)"
  shows "guar R (process_feedback env i al b items now)"
proof -
  have f: "guar R (insert_feedback env i item fid t)" for item fid t
    unfolding insert_feedback_def by (intro guar_intros guar_modS_step assms)
  show ?thesis
    unfolding process_feedback_def best_effort_def
    by (intro guar_intros guar_insert_audit assms f)
qed

lemma guar_insert_outcome:
  assumes "\<And>s row. R s (add_outcome row s)"
  shows "guar R (insert_outcome_conn env a oc who)"
  unfolding insert_outcome_conn_def by (intro guar_intros guar_modS_step assms)

lemma guar_mark_completed:
  assumes "\<And>s i now x t. R s (update_run i (complete_run now x t) s)"
  shows "guar R (mark_completed_conn env i x t)"
  unfolding mark_completed_conn_def by (intro guar_intros guar_modS_step assms)

lemma guar_insert_pending:
  assumes "\<And>s a. ap_status a = ''pending'' \<Longrightarrow> ap_real_run_id a = None \<Longrightarrow> R s (add_approval a s)"
  shows "guar R (insert_pending env d rb al h)"
  unfolding insert_pending_def by (intro guar_intros guar_modS_step assms) simp_all

lemma guar_conns:
  assumes "\<And>s i who t. R s (snd (approve i who t s))" "\<And>s i who t. R s (snd (reject i who t s))"
    "\<And>s i. R s (snd (revert_to_pending i s))" "\<And>s i run. R s (snd (set_real_run_id i run s))"
  shows "guar R (mark_approved_conn i who t)" "guar R (mark_rejected_conn i who t)"
    "guar R (revert_to_pending_conn i)" "guar R (set_real_run_id_conn i run)"
  unfolding mark_approved_conn_def mark_rejected_conn_def revert_to_pending_conn_def set_real_run_id_conn_def
  by (intro guar_execute r_into_rtranclp assms)+

text \<open>A part of the store that no step of \<open>R\<close> touches.\<close>

definition keeps :: "(store \<Rightarrow> 'v) \<Rightarrow> store \<Rightarrow> store \<Rightarrow> bool" where
  "keeps f s t \<longleftrightarrow> f t = f s"

lemma keeps_rtranclp: "(keeps f)\<^sup>*\<^sup>* s t \<Longrightarrow> f t = f s"
  by (induction rule: rtranclp_induct) (simp_all add: keeps_def)

lemma guar_keeps: "guar (keeps f) m \<Longrightarrow> f (shared (snd (m w))) = f (shared w)"
  using keeps_rtranclp by (metis guar_def)

section \<open>Handlers as sequences of steps\<close>

lemma guar_files:
  "guar R (snapshot_dir env p)" "guar R (transcript_candidates env p t0 t1 ns)"
  "guar R (resolve_transcript env p bef t0 t1)" "guar R (write_exec_log env cfg i al b x err)"
proof -
  show c: "guar R (transcript_candidates env p t0 t1 ns)" for ns
    by (induction ns) (auto intro!: guar_intros)
  show "guar R (snapshot_dir env p)" unfolding snapshot_dir_def by (intro guar_intros)
  show "guar R (resolve_transcript env p bef t0 t1)" unfolding resolve_transcript_def by (intro guar_intros c)
  show "guar R (write_exec_log env cfg i al b x err)" unfolding write_exec_log_def Let_def by (intro guar_intros)
qed

lemma guar_case_exn:
  "(\<And>r d. guar R (k r d)) \<Longrightarrow> (\<And>e. guar R (h e)) \<Longrightarrow>
     guar R (case v of GrantResolution r d \<Rightarrow> k r d | e \<Rightarrow> h e)"
  "(\<And>r d. guar R (k r d)) \<Longrightarrow> (\<And>e. guar R (h e)) \<Longrightarrow>
     guar R (case v of EgressConfiguration r d \<Rightarrow> k r d | e \<Rightarrow> h e)"
  "(\<And>r d. guar R (k r d)) \<Longrightarrow> (\<And>e. guar R (h e)) \<Longrightarrow>
     guar R (case v of MalformedIntentFile r d \<Rightarrow> k r d | e \<Rightarrow> h e)"
  "(\<And>d. guar R (k' d)) \<Longrightarrow> (\<And>e. guar R (h e)) \<Longrightarrow>
     guar R (case v of DockerErr d \<Rightarrow> k' d | e \<Rightarrow> h e)"
  by (cases v; simp)+

text \<open>
  The writes of a plan-only run.  A relation that allows them allows everything the handlers of
  such a run do; the locales below add the writes of the other paths.
\<close>

locale plain_writes =
  fixes R :: "store \<Rightarrow> store \<Rightarrow> bool"
  assumes w_audit: "\<And>s row. R s (add_audit row s)"
    and w_complete: "\<And>s i now x t. R s (update_run i (complete_run now x t) s)"
    and w_pending: "\<And>s a. ap_status a = ''pending'' \<Longrightarrow> ap_real_run_id a = None \<Longrightarrow> R s (add_approval a s)"
    and w_feedback: "\<And>s row. R s (add_feedback row s)"
    and w_current: "\<And>s c. R s (set_current c s)"
    and w_hold: "\<And>s i. R s (hold_lock i s)"
    and w_release: "\<And>s i. R s (release_lock i s)"
begin

lemma guar_audit_txn: "rely R env \<Longrightarrow> guar R (txn env (insert_audit env who what bf af ip t))"
  by (intro guar_intros guar_insert_audit w_audit)

lemma guar_denials:
  assumes "rely R env"
  shows "guar R (deny env al rb reason detail extra)" "guar R (deny_operator env b reason who ip cred)"
    "guar R (audit_trigger_rejected env b who ip why mode cred)" "guar R (deny_not_pending env found i who ip)"
  unfolding deny_def deny_operator_def audit_trigger_rejected_def deny_not_pending_def Let_def
  by (intro guar_intros guar_audit_txn assms)+

lemma guar_exec_claude:
  assumes "rely R env"
  shows "guar R (exec_claude env cfg b al i dry)"
  unfolding exec_claude_def grant_phase_def egress_phase_def run_phase_def resolve_grants_def load_scoped_def
    check_ssh_target_def best_effort_def exec_or_error_def publish_current_def clear_current_def Let_def
  by (intro guar_intros guar_case_exn guar_audit_txn guar_files guar_modS_step w_current assms
      | simp split: load_error.split add: guar_intros)+

lemma guar_execute_intents:
  assumes "rely R env"
  shows "guar R (execute_intents env cfg i al b g who dry)"
proof -
  have audit: "guar R (audit_intent env who what after)" for what after
    unfolding audit_intent_def by (rule guar_audit_txn [OF assms])
  have perform: "guar R (perform_intent env i b al who j)" for j
    unfolding perform_intent_def restart_container_def by (intro guar_intros guar_case_exn audit assms)
  have loop: "guar R (intent_loop env i b al who dry halted ivs)" for halted ivs
    by (induction ivs arbitrary: halted)
      (auto intro!: guar_intros audit perform split: intent_validation.split)
  show ?thesis
    unfolding execute_intents_def Let_def by (intro guar_intros guar_case_exn audit loop assms)
qed

lemma guar_intent_gateway:
  "rely R env \<Longrightarrow> guar R (intent_gateway env cfg rq who i outcome dry)"
  unfolding intent_gateway_def by (intro guar_intros guar_execute_intents guar_audit_txn)

lemma guar_complete_dry:
  "rely R env \<Longrightarrow> guar R (complete_dry env cfg rq who i outcome)"
  unfolding complete_dry_def Let_def
  by (intro guar_intros guar_files guar_intent_gateway guar_insert_audit guar_mark_completed guar_insert_pending
      guar_process_feedback w_audit w_complete w_pending w_feedback)

end

text \<open>With the decisions on approvals and the outcome of a real run.\<close>

locale decision_writes = plain_writes +
  assumes w_outcome: "\<And>s row. R s (add_outcome row s)"
    and w_approve: "\<And>s i who t. R s (snd (approve i who t s))"
    and w_reject: "\<And>s i who t. R s (snd (reject i who t s))"
    and w_revert: "\<And>s i. R s (snd (revert_to_pending i s))"
    and w_real_run: "\<And>s i run. R s (snd (set_real_run_id i run s))"
begin

lemma guar_complete_real:
  "rely R env \<Longrightarrow> guar R (complete_real env cfg rq who i outcome)"
  unfolding complete_real_def persist_outcome_def Let_def
  by (intro guar_intros guar_files guar_intent_gateway guar_insert_audit guar_mark_completed guar_insert_outcome
      guar_process_feedback w_audit w_complete w_outcome w_feedback)

lemma guar_approval_parts:
  assumes "rely R env"
  shows "guar R (approve_plan env ap b who ip cred)" "guar R (settle_approval env i who ip res)"
    "guar R (reject_stale_plan env ap who ip cred d f)" "guar R (load_alert_for_exec env a)"
  unfolding approve_plan_def settle_approval_def reject_stale_plan_def load_alert_for_exec_def
  by (intro guar_intros guar_insert_audit guar_conns w_audit w_approve w_reject w_revert w_real_run assms)+

end

interpretation db: decision_writes "db_step quota gap" for quota gap
  by unfold_locales (rule db_step.intros; assumption?)+

section \<open>Guarantees that depend on the moment\<close>

definition guar_at :: "('s \<Rightarrow> 's \<Rightarrow> bool) \<Rightarrow> ('s, 'e, 'a) prog \<Rightarrow> ('s, 'e) world \<Rightarrow> bool" where
  "guar_at R m w \<longleftrightarrow> R\<^sup>*\<^sup>* (shared w) (shared (snd (m w)))"

lemma guar_at: "guar R m \<Longrightarrow> guar_at R m w"
  by (simp add: guar_def guar_at_def)

lemma guar_at_bindP:
  assumes "guar_at R m w" and "\<And>x w'. m w = (Inr x, w') \<Longrightarrow> guar_at R (k x) w'"
  shows "guar_at R (bindP m k) w"
proof -
  obtain r w' where m: "m w = (r, w')" by fastforce
  show ?thesis
  proof (cases r)
    case (Inl e)
    with m assms(1) show ?thesis by (simp add: guar_at_def bindP_def)
  next
    case (Inr x)
    with m assms(1) assms(2) [of x w'] show ?thesis by (auto simp: guar_at_def bindP_def)
  qed
qed

lemma guar_at_seqP: "guar_at R m w \<Longrightarrow> (\<And>x w'. m w = (Inr x, w') \<Longrightarrow> guar_at R n w') \<Longrightarrow> guar_at R (seqP m n) w"
  unfolding seqP_def by (rule guar_at_bindP)

lemma guar_at_tryP:
  assumes "guar_at R m w" and "\<And>e. guar R (h e)"
  shows "guar_at R (tryP m h) w"
proof -
  obtain r w' where m: "m w = (r, w')" by fastforce
  show ?thesis
  proof (cases r)
    case (Inl e)
    have "R\<^sup>*\<^sup>* (shared w') (shared (snd (h e w')))" using assms(2) by (simp add: guar_def)
    with Inl m assms(1) show ?thesis by (auto simp: guar_at_def tryP_def)
  next
    case (Inr x)
    with m assms(1) show ?thesis by (simp add: guar_at_def tryP_def)
  qed
qed

lemma guar_at_finallyP:
  assumes "guar_at R m w" and "guar R f"
  shows "guar_at R (finallyP m f) w"
proof -
  obtain r w' where m: "m w = (r, w')" by fastforce
  obtain r2 w2 where f: "f w' = (r2, w2)" by fastforce
  have "R\<^sup>*\<^sup>* (shared w) (shared w2)"
    using assms(1) guarD [OF assms(2) f] by (simp add: guar_at_def m)
  with m f show ?thesis by (auto simp: guar_at_def finallyP_def split: sum.splits)
qed

text \<open>The clock of the process does not run backwards.\<close>

definition clock_forward :: "aenv \<Rightarrow> bool" where
  "clock_forward env \<longleftrightarrow> (\<forall>m n. m \<le> n \<longrightarrow> clock env m \<le> clock env n)"

definition gap_of :: "fixer_config \<Rightarrow> int" where
  "gap_of cfg = fc_exec_timeout cfg * 1000000 + stale_claim_slack_us"

lemma guar_claim:
  assumes r: "rely (db_step quota (gap_of cfg)) env" and fwd: "clock_forward env"
    and q: "rb_rate_limit (cl_runbook rq) = quota (rb_id (cl_runbook rq))"
    and now: "now = clock env k" "k \<le> ticks w"
  shows "guar_at (db_step quota (gap_of cfg)) (claim env cfg rq who mode cred now) w"
proof -
  let ?s1 = "other env (ticks w) (shared w)"
  have s1: "(db_step quota (gap_of cfg))\<^sup>*\<^sup>* (shared w) ?s1" using r by (simp add: rely_def)
  obtain res w' where c: "claim_txn env cfg rq who mode cred now w = (res, w')" by fastforce
  consider e where "res = Inl e" | d where "res = Inr (Inl d)" | i where "res = Inr (Inr i)"
    by (metis sum.exhaust)
  then have "guar_at (db_step quota (gap_of cfg)) (claim_txn env cfg rq who mode cred now) w"
  proof cases
    case 1
    with claim_txn_results(3) [OF c [unfolded 1]] s1 show ?thesis by (simp add: guar_at_def c)
  next
    case 2
    then obtain row where "shared w' = add_audit row ?s1" using claim_txn_results(2) [OF c [unfolded 2]] by blast
    with s1 show ?thesis by (simp add: guar_at_def c rtranclp.rtrancl_into_rtrancl st_audit)
  next
    case 3
    then obtain t row n where row:
      "admissible (cl_runbook rq) (now - (fc_exec_timeout cfg * 1000000 + stale_claim_slack_us)) (now - hour_us) t ?s1"
      "claimed_row rq cfg env mode row" "ticks w \<le> n" "r_started_at row = clock env n" "shared w' = add_run row ?s1"
      using claim_txn_results(1) [OF c [unfolded 3]] by blast
    have "clock env k \<le> clock env n" using fwd now(2) row(3) by (simp add: clock_forward_def)
    then have "now \<le> r_started_at row" by (simp add: now(1) row(4))
    with row(2) q have "db_step quota (gap_of cfg) ?s1 (add_run row ?s1)"
      by (intro st_claim [OF row(1)]) (simp_all add: claimed_row_def gap_of_def)
    with s1 row(5) show ?thesis by (simp add: guar_at_def c rtranclp.rtrancl_into_rtrancl)
  qed
  then show ?thesis
    unfolding claim_def Let_def by (intro guar_at_tryP guar_intros db.guar_audit_txn r)
qed

lemma guar_at_ask_then:
  assumes "\<And>x w'. ticks w' = Suc (ticks w) \<Longrightarrow> shared w' = shared w \<Longrightarrow> guar_at R (k (h (ticks w))) w'"
  shows "guar_at R (bindP (ask h) k) w"
  using assms by (simp add: guar_at_def run_simps)

lemma guar_locked_claim:
  assumes r: "rely (db_step quota (gap_of cfg)) env" and fwd: "clock_forward env"
    and q: "rb_rate_limit (cl_runbook rq) = quota (rb_id (cl_runbook rq))"
    and now: "now = clock env k" "k \<le> ticks w" and rest: "\<And>i. guar (db_step quota (gap_of cfg)) (rest i)"
  shows "guar_at (db_step quota (gap_of cfg))
    (with_lock env (rb_id (cl_runbook rq))
        (bindP (claim env cfg rq who mode cred now) (\<lambda>claimed.
         case claimed of Inl result \<Rightarrow> ret (Inl result) | Inr run_id \<Rightarrow> rest run_id))) w"
  unfolding with_lock_def
proof (rule guar_at_seqP [OF guar_at [OF guar_suspend [OF r]]], rule guar_at_seqP)
  fix x w1 assume "suspend env w = (Inr x, w1)"
  then have w1: "ticks w1 = Suc (ticks w)" by (auto simp: run_simps)
  show "guar_at (db_step quota (gap_of cfg)) (modS (hold_lock (rb_id (cl_runbook rq)))) w1"
    by (intro guar_at guar_modS_step st_hold)
  fix y w2 assume "modS (hold_lock (rb_id (cl_runbook rq))) w1 = (Inr y, w2)"
  then have w2: "ticks w2 = Suc (ticks w)" using w1 by (auto simp: run_simps)
  show "guar_at (db_step quota (gap_of cfg)) (finallyP
        (bindP (claim env cfg rq who mode cred now) (\<lambda>claimed.
         case claimed of Inl result \<Rightarrow> ret (Inl result) | Inr run_id \<Rightarrow> rest run_id))
        (modS (release_lock (rb_id (cl_runbook rq))))) w2"
    by (intro guar_at_finallyP guar_at_bindP guar_claim [OF r fwd q now(1)] guar_modS_step st_release)
      (use w2 now(2) rest in \<open>auto intro!: guar_at guar_intros split: sum.split\<close>)
qed

lemma guar_claim_and_exec:
  assumes "rely (db_step quota (gap_of cfg)) env" "clock_forward env"
    and "rb_rate_limit (cl_runbook rq) = quota (rb_id (cl_runbook rq))"
  shows "guar (db_step quota (gap_of cfg)) (claim_and_exec env cfg rq)"
    "guar (db_step quota (gap_of cfg)) (claim_and_store_dry env cfg rq)"
proof -
  have run: "guar (db_step quota (gap_of cfg)) (bindP (exec_claude env cfg (cl_runbook rq) (cl_alert rq) i dry)
       (\<lambda>outcome. ret (Inr (i, outcome))))" for i dry
    by (intro guar_intros db.guar_exec_claude assms)
  have all: "guar R m" if "\<And>w. guar_at R m w" for R and m :: "run_result afx"
    using that by (simp add: guar_def guar_at_def)
  show "guar (db_step quota (gap_of cfg)) (claim_and_exec env cfg rq)"
    unfolding claim_and_exec_def
    by (intro guar_intros all guar_at_ask_then guar_at_bindP guar_locked_claim [OF assms] run)
      (auto intro!: guar_at guar_intros db.guar_complete_real db.guar_complete_dry assms split: sum.split)
  show "guar (db_step quota (gap_of cfg)) (claim_and_store_dry env cfg rq)"
    unfolding claim_and_store_dry_def
    by (intro guar_intros all guar_at_ask_then guar_at_bindP guar_locked_claim [OF assms] run)
      (auto intro!: guar_at guar_intros db.guar_complete_real db.guar_complete_dry assms split: sum.split)
qed

section \<open>The entry points\<close>

text \<open>What a theorem about interleavings assumes of the rest of the process.\<close>

definition orderly :: "(string \<Rightarrow> int option) \<Rightarrow> fixer_config \<Rightarrow> aenv \<Rightarrow> bool" where
  "orderly quota cfg env \<longleftrightarrow> rely (db_step quota (gap_of cfg)) env \<and> clock_forward env"

lemma step_runbooks: "db_step quota gap s t \<Longrightarrow> s_runbooks t = s_runbooks s \<or> quota_kept quota (s_runbooks t)"
  by (erule db_step.cases)
    (simp_all add: add_audit_def approval_updates add_approval_def add_outcome_def add_feedback_def
      set_setting_def delete_setting_def process_defs)

lemma quota_stable: "stable (db_step quota gap) (\<lambda>s. quota_kept quota (s_runbooks s))"
  unfolding stable_def using step_runbooks by metis

lemma quota_entered:
  assumes "rely (db_step quota gap) env" "quota_kept quota (s_runbooks (shared w))"
  shows "quota_kept quota (s_runbooks (shared (entered env w)))"
proof -
  have "(db_step quota gap)\<^sup>*\<^sup>* (shared w) (shared (entered env w))" using assms(1) by (simp add: rely_def)
  from stable_rtranclp [OF this quota_stable assms(2)] show ?thesis .
qed

lemma matching_subset: "matching_runbooks msg bs al = Inr ms \<Longrightarrow> set ms \<subseteq> set bs"
  by (induction bs arbitrary: ms) (fastforce split: sum.splits if_splits)+

lemma get_runbook_in: "get_runbook i s = Some b \<Longrightarrow> b \<in> set (s_runbooks s)"
  by (auto simp: get_runbook_def find_Some_iff)

lemma guar_at_fetch:
  assumes "rely R env" and "\<And>w'. w' = entered env w \<Longrightarrow> guar_at R (k (f (shared (entered env w)))) w'"
  shows "guar_at R (bindP (fetch env f) k) w"
  by (rule guar_at_bindP [OF guar_at [OF guar_fetch [OF assms(1)]]]) (use assms(2) in \<open>auto simp: run_fetch\<close>)

lemma guar_all: "(\<And>w. guar_at R m w) \<Longrightarrow> guar R m"
  by (simp add: guar_def guar_at_def)

lemma guar_handle_alert:
  assumes "orderly quota cfg env" "quota_kept quota (s_runbooks (shared w))"
  shows "guar_at (db_step quota (gap_of cfg)) (handle_alert env cfg alert) w"
proof -
  have r: "rely (db_step quota (gap_of cfg)) env" and fwd: "clock_forward env"
    using assms(1) by (simp_all add: orderly_def)
  have q: "quota_kept quota (s_runbooks (shared (entered env w)))" by (rule quota_entered [OF r assms(2)])
  have match: "guar (db_step quota (gap_of cfg)) (handle_match env cfg alert b)"
    if "rb_rate_limit b = quota (rb_id b)" for b
    unfolding handle_match_def
    by (intro guar_intros db.guar_denials guar_claim_and_exec r fwd) (simp_all add: alert_claim_def that)
  show ?thesis
    unfolding handle_alert_def
  proof (rule guar_at_fetch [OF r], rule guar_at_bindP [OF guar_at [OF guar_liftE]])
    fix matches and w1 and w2 :: "(store, act event) world"
    assume "liftE (matching_runbooks (validation_msg env) (list_runbooks (shared (entered env w))) alert) w1 = (Inr matches, w2)"
    then have "matching_runbooks (validation_msg env) (list_runbooks (shared (entered env w))) alert = Inr matches"
      by (simp add: run_liftE)
    from matching_subset [OF this] have "set matches \<subseteq> set (s_runbooks (shared (entered env w)))"
      by (simp add: list_runbooks_def)
    with q have "rb_rate_limit b = quota (rb_id b)" if "b \<in> set matches" for b
      using that by (auto simp: quota_kept_def)
    then show "guar_at (db_step quota (gap_of cfg)) (dispatch env cfg alert matches) w2"
      unfolding dispatch_def
      by (intro guar_at) (auto intro!: guar_intros match db.guar_denials r split: list.split)
  qed
qed

lemma guar_handle_operator_trigger:
  assumes "orderly quota cfg env" "quota_kept quota (s_runbooks (shared w))"
  shows "guar_at (db_step quota (gap_of cfg)) (handle_operator_trigger env cfg i mode who ip cred) w"
proof -
  have r: "rely (db_step quota (gap_of cfg)) env" and fwd: "clock_forward env"
    using assms(1) by (simp_all add: orderly_def)
  have q: "quota_kept quota (s_runbooks (shared (entered env w)))" by (rule quota_entered [OF r assms(2)])
  show ?thesis
    unfolding handle_operator_trigger_def
  proof (rule guar_at_fetch [OF r])
    fix w1
    have "rb_rate_limit b = quota (rb_id b)" if "get_runbook i (shared (entered env w)) = Some b" for b
      using get_runbook_in [OF that] q by (simp add: quota_kept_def)
    then show "guar_at (db_step quota (gap_of cfg)) (case get_runbook i (shared (entered env w)) of
       None \<Rightarrow> raise (RunbookNotFound i)
     | Some b \<Rightarrow>
         if rb_dry_run_required b \<and> mode = REAL then
           seqP (audit_trigger_rejected env b who ip ''dry_run_required_for_risky'' mode cred)
             (raise (DryRunRequiredForRisky i))
         else
           bindP (getS (\<lambda>s. i \<in> set (s_locks s))) (\<lambda>locked.
           if locked then deny_operator env b ALREADY_RUNNING who ip cred
           else
             bindP (check_operational_gates env b False) (\<lambda>denial.
             case denial of
               Some reason \<Rightarrow> deny_operator env b reason who ip cred
             | None \<Rightarrow>
                 if mode = DRY_RUN then claim_and_store_dry env cfg (operator_claim b who None ip)
                 else claim_and_exec env cfg (operator_claim b who cred ip)))) w1"
      by (intro guar_at)
        (auto intro!: guar_intros db.guar_denials guar_claim_and_exec r fwd simp: operator_claim_def split: option.split)
  qed
qed

lemma guar_execute_approved:
  assumes "orderly quota cfg env" "quota_kept quota (s_runbooks (shared w))"
  shows "guar_at (db_step quota (gap_of cfg)) (execute_approved env cfg i who ip cred) w"
proof -
  have r: "rely (db_step quota (gap_of cfg)) env" and fwd: "clock_forward env"
    using assms(1) by (simp_all add: orderly_def)
  have run: "guar (db_step quota (gap_of cfg)) (gate_approved env cfg ap b who ip cred)"
    if "rb_rate_limit b = quota (rb_id b)" for ap b
    unfolding gate_approved_def run_approved_def
    by (intro guar_intros db.guar_audit_txn db.guar_approval_parts guar_claim_and_exec r fwd)
      (simp add: approved_claim_def that)
  have pend: "guar_at (db_step quota (gap_of cfg)) (execute_pending env cfg ap who ip cred) w1"
    if "quota_kept quota (s_runbooks (shared w1))" for ap w1
    unfolding execute_pending_def
  proof (rule guar_at_fetch [OF r])
    fix w2
    have "rb_rate_limit b = quota (rb_id b)" if "get_runbook (ap_runbook_id ap) (shared (entered env w1)) = Some b" for b
      using get_runbook_in [OF that] quota_entered [OF r \<open>quota_kept quota (s_runbooks (shared w1))\<close>]
      by (simp add: quota_kept_def)
    then show "guar_at (db_step quota (gap_of cfg)) (case get_runbook (ap_runbook_id ap) (shared (entered env w1)) of
       None \<Rightarrow> reject_stale_plan env ap who ip cred RUNBOOK_MISSING (''runbook_deleted'', JBool True)
     | Some b \<Rightarrow>
         if rb_hash b \<noteq> ap_pinned_hash ap then
           reject_stale_plan env ap who ip cred RUNBOOK_CHANGED (''current_runbook_hash'', jopt_str (rb_hash b))
         else gate_approved env cfg ap b who ip cred) w2"
      by (intro guar_at) (auto intro!: db.guar_approval_parts run r split: option.split)
  qed
  have deny: "guar_at (db_step quota (gap_of cfg)) (deny_not_pending env found i who ip) w1" for found w1
    by (intro guar_at db.guar_denials r)
  show ?thesis
    unfolding execute_approved_def
  proof (rule guar_at_fetch [OF r])
    fix w1 assume "w1 = entered env w"
    then show "guar_at (db_step quota (gap_of cfg)) (case get_approval i (shared (entered env w)) of
       None \<Rightarrow> deny_not_pending env (get_approval i (shared (entered env w))) i who ip
     | Some ap \<Rightarrow>
         if ap_status ap \<noteq> ''pending'' then deny_not_pending env (get_approval i (shared (entered env w))) i who ip
         else execute_pending env cfg ap who ip cred) w1"
      using deny pend [OF quota_entered [OF r assms(2)]] by (simp split: option.split)
  qed
qed

text \<open>The three entry points that may start a run, as one family.\<close>

datatype entry_call =
    OnAlert alert
  | OnTrigger string run_mode string "string option" "string option"
  | OnApproval string string "string option" "string option"

definition entry :: "aenv \<Rightarrow> fixer_config \<Rightarrow> entry_call \<Rightarrow> run_result option afx" where
  "entry env cfg c =
     (case c of
        OnAlert a \<Rightarrow> handle_alert env cfg a
      | OnTrigger i mode who ip cred \<Rightarrow>
          bindP (handle_operator_trigger env cfg i mode who ip cred) (\<lambda>r. ret (Some r))
      | OnApproval i who ip cred \<Rightarrow> bindP (execute_approved env cfg i who ip cred) (\<lambda>r. ret (Some r)))"

lemma guar_entry:
  assumes "orderly quota cfg env" "quota_kept quota (s_runbooks (shared w))"
  shows "guar_at (db_step quota (gap_of cfg)) (entry env cfg c) w"
  using guar_handle_alert [OF assms] guar_handle_operator_trigger [OF assms] guar_execute_approved [OF assms]
  by (cases c) (auto simp: entry_def intro!: guar_at_bindP guar_at [OF guar_ret])

end
