(* ===== verification/Completion.thy ===== *)
theory Completion
  imports Transitions
begin

text \<open>
  What a finished handler leaves behind: the completed row, the settled approval, the audited
  denial; and what no handler touches: the kill switch and the registry, and, for a plan-only
  run, the outcomes.
\<close>

section \<open>Relations that also allow unconditional claims\<close>

locale open_claims = plain_writes +
  assumes w_run: "\<And>s row. R s (add_run row s)"
begin

lemma guar_open_claim:
  assumes "rely R env"
  shows "guar R (claim env cfg rq who mode cred now)"
  unfolding claim_def claim_txn_def insert_started_def Let_def
  by (intro guar_intros guar_insert_audit guar_modS_step w_audit w_run assms)

lemma guar_open_dry:
  assumes "rely R env"
  shows "guar R (claim_and_store_dry env cfg rq)"
  unfolding claim_and_store_dry_def with_lock_def
  by (intro guar_intros guar_open_claim guar_exec_claude guar_complete_dry guar_modS_step w_hold w_release assms)

end

locale open_decisions = decision_writes + open_claims
begin

lemma guar_open_real:
  assumes "rely R env"
  shows "guar R (claim_and_exec env cfg rq)"
  unfolding claim_and_exec_def with_lock_def
  by (intro guar_intros guar_open_claim guar_exec_claude guar_complete_real guar_modS_step w_hold w_release assms)

lemma guar_open_entry:
  assumes "rely R env"
  shows "guar R (entry env cfg c)"
proof -
  have alert: "guar R (handle_alert env cfg a)" for a
  proof -
    have match: "guar R (handle_match env cfg a b)" for b
      unfolding handle_match_def by (intro guar_intros guar_denials guar_open_dry guar_open_real assms)
    have "guar R (dispatch env cfg a matches)" for matches
      unfolding dispatch_def by (auto intro!: guar_intros match guar_denials assms split: list.split)
    then show ?thesis unfolding handle_alert_def by (intro guar_intros assms)
  qed
  have trigger: "guar R (handle_operator_trigger env cfg i mode who ip cred)" for i mode who ip cred
    unfolding handle_operator_trigger_def
    by (intro guar_intros guar_denials guar_open_dry guar_open_real assms)
  have approved: "guar R (execute_approved env cfg i who ip cred)" for i who ip cred
    unfolding execute_approved_def execute_pending_def gate_approved_def run_approved_def
    by (intro guar_intros guar_denials guar_audit_txn guar_approval_parts guar_open_real assms)
  show ?thesis
    unfolding entry_def by (cases c) (auto intro!: guar_intros alert trigger approved)
qed

end

lemmas keeps_writes = keeps_def add_audit_def add_run_def update_run_def approval_updates add_approval_def
  add_outcome_def add_feedback_def process_defs

interpretation outcomes_kept: open_claims "keeps s_outcomes"
  by unfold_locales (simp_all add: keeps_writes)

interpretation controls_kept: open_decisions "keeps (\<lambda>s. (s_settings s, s_runbooks s, s_alerts s))"
  by unfold_locales (simp_all add: keeps_writes)

text \<open>
  The orchestrator never turns its own switches: whatever entry point runs, it leaves the
  settings (the kill switch among them), the runbook registry with its allow-list and the alerts
  as it found them, if the other tasks leave them alone meanwhile.
\<close>

theorem controls_untouched:
  assumes "rely (keeps (\<lambda>s. (s_settings s, s_runbooks s, s_alerts s))) env"
  shows "s_settings (shared (snd (entry env cfg c w))) = s_settings (shared w) \<and>
     s_runbooks (shared (snd (entry env cfg c w))) = s_runbooks (shared w) \<and>
     s_alerts (shared (snd (entry env cfg c w))) = s_alerts (shared w)"
  using guar_keeps [OF controls_kept.guar_open_entry [OF assms]] by (metis prod.inject)

lemma calm_rely: "rely R calm_env"
  by (simp add: rely_def calm_env_def)

definition start_world :: "store \<Rightarrow> (store, act event) world" where
  "start_world s = \<lparr>shared = s, trace = [], ticks = 0\<rparr>"

theorem controls_untouched_witness:
  "s_settings (shared (snd (entry calm_env example_config (OnApproval ''a1'' ''bob'' None None) (start_world pending_example))))
     = s_settings (shared (start_world pending_example)) \<and>
   s_runbooks (shared (snd (entry calm_env example_config (OnApproval ''a1'' ''bob'' None None) (start_world pending_example))))
     = s_runbooks (shared (start_world pending_example)) \<and>
   s_alerts (shared (snd (entry calm_env example_config (OnApproval ''a1'' ''bob'' None None) (start_world pending_example))))
     = s_alerts (shared (start_world pending_example))"
  by (rule controls_untouched) (rule calm_rely)

text \<open>
  C8: a plan-only run changes nothing but its own records: it starts no real run and no restart,
  and the outcomes of the alerts stay as they were.
\<close>

theorem dry_run_fixes_nothing:
  assumes "rely (keeps s_outcomes) env"
  shows "s_outcomes (shared (snd (claim_and_store_dry env cfg rq w))) = s_outcomes (shared w) \<and>
    filter is_real_exec (trace (snd (claim_and_store_dry env cfg rq w))) = filter is_real_exec (trace w) \<and>
    filter is_restart (trace (snd (claim_and_store_dry env cfg rq w))) = filter is_restart (trace w)"
  using guar_keeps [OF outcomes_kept.guar_open_dry [OF assms]]
    emits_filter [OF emits_claim_and_store_dry dry_path_not_real]
    emits_filter [OF emits_claim_and_store_dry dry_path_not_restart]
  by simp

definition example_claim :: claim_req where
  "example_claim = operator_claim example_runbook_row ''bob'' None None"

theorem dry_run_fixes_nothing_witness:
  "s_outcomes (shared (snd (claim_and_store_dry calm_env example_config example_claim (start_world empty_store))))
     = s_outcomes (shared (start_world empty_store)) \<and>
   filter is_real_exec (trace (snd (claim_and_store_dry calm_env example_config example_claim (start_world empty_store))))
     = filter is_real_exec (trace (start_world empty_store)) \<and>
   filter is_restart (trace (snd (claim_and_store_dry calm_env example_config example_claim (start_world empty_store))))
     = filter is_restart (trace (start_world empty_store))"
  by (rule dry_run_fixes_nothing) (rule calm_rely)

section \<open>The completed row\<close>

text \<open>What the last transaction writes is what the caller sees: nothing runs after it.\<close>

definition completed_as :: "string \<Rightarrow> int option \<Rightarrow> store \<Rightarrow> bool" where
  "completed_as i x s \<longleftrightarrow> (\<forall>r \<in> set (s_runs s). r_id r = i \<longrightarrow> r_ended_at r \<noteq> None \<and> r_exit_code r = x)"

lemma completed_update: "completed_as i (Some x) (update_run i (complete_run now x t) s)"
  unfolding completed_as_def
proof (intro ballI impI)
  fix r assume "r \<in> set (s_runs (update_run i (complete_run now x t) s))" "r_id r = i"
  then obtain r0 where "r = (if r_id r0 = i then complete_run now x t r0 else r0)"
    unfolding update_run_runs set_map by blast
  with \<open>r_id r = i\<close> show "r_ended_at r \<noteq> None \<and> r_exit_code r = Some x"
    by (cases "r_id r0 = i") (simp_all add: complete_run_def)
qed

text \<open>A body that completes the row and then leaves the runs alone.\<close>

lemma completing_txn:
  assumes run: "txn env (seqP (mark_completed_conn env i x t) rest) w = (Inr y, w')"
    and rest: "guar (keeps s_runs) rest"
  shows "completed_as i (Some x) (shared w')"
proof -
  define w1 where "w1 = snd (mark_completed_conn env i x t (entered env w))"
  have m: "mark_completed_conn env i x t (entered env w) = (Inr (), w1)"
    by (simp add: w1_def mark_completed_conn_def run_simps)
  have "shared w1 = update_run i (complete_run (clock env (Suc (ticks w))) x t) (shared (entered env w))"
    by (simp add: w1_def mark_completed_conn_def run_simps)
  then have c: "completed_as i (Some x) (shared w1)"
    by (simp only: completed_update)
  obtain r w2 where r: "seqP (mark_completed_conn env i x t) rest (entered env w) = (r, w2)"
    by (cases "seqP (mark_completed_conn env i x t) rest (entered env w)")
  have "s_runs (shared w2) = s_runs (shared w1)"
    using guar_keeps [OF rest, of w1] r by (simp add: run_seqP_Inr [where m = "mark_completed_conn env i x t", OF m])
  with c have c2: "completed_as i (Some x) (shared w2)" by (simp add: completed_as_def)
  show ?thesis
  proof (cases r)
    case (Inl e)
    with r run txn_raised [of "seqP (mark_completed_conn env i x t) rest" env w e w2] show ?thesis by auto
  next
    case (Inr z)
    with r have "seqP (mark_completed_conn env i x t) rest (entered env w) = (Inr z, w2)" by simp
    then show ?thesis by (cases rule: txn_returned) (use run c2 in auto)
  qed
qed

lemma exec_log_path:
  "write_exec_log env cfg i al b x err w = (Inr lp, w') \<Longrightarrow> lp = fc_exec_log_dir cfg @ ''/'' @ i @ ''.exec.log''"
  by (auto simp: write_exec_log_def Let_def run_simps seqP_def split: option.splits elim!: bindP_returned)

lemma complete_real_done:
  assumes "complete_real env cfg rq who i outcome w = (Inr r, w')"
  shows "r = run_finished rq RAN i outcome None" "completed_as i (rr_exit_code r) (shared w')"
proof -
  let ?x = "x_exit_code (eo_exec_result outcome)"
  obtain w1 where t: "(if eo_errored outcome then
              txn env
                (seqP (mark_completed_conn env i ?x (eo_transcript_path outcome))
                (seqP (insert_audit env who ''autofix.exec_error'' None
                         (Some (exec_error_fields rq i outcome (fc_exec_log_dir cfg @ ''/'' @ i @ ''.exec.log''))) None None)
                (bindP (ask (clock env)) (\<lambda>now.
                   process_feedback env i (cl_alert rq) (cl_runbook rq) (eo_feedback_items outcome) now))))
            else
              persist_outcome env cfg rq who i (eo_exec_result outcome) (eo_transcript_path outcome)
                (fc_exec_log_dir cfg @ ''/'' @ i @ ''.exec.log'') (eo_feedback_items outcome)) w1 = (Inr (), w')"
    and r: "r = run_finished rq RAN i outcome None"
    using assms unfolding complete_real_def Let_def
    by (auto elim!: bindP_returned seqP_returned simp: run_simps dest!: exec_log_path)
  show "r = run_finished rq RAN i outcome None" by (rule r)
  have "completed_as i (Some ?x) (shared w')"
  proof (cases "eo_errored outcome")
    case True
    with t show ?thesis
      by simp (erule completing_txn, intro guar_intros guar_insert_audit guar_process_feedback; simp add: keeps_writes)
  next
    case False
    with t show ?thesis
      unfolding persist_outcome_def
      by simp (erule completing_txn, intro guar_intros guar_insert_audit guar_process_feedback guar_insert_outcome;
        simp add: keeps_writes)
  qed
  then show "completed_as i (rr_exit_code r) (shared w')" by (simp add: r run_finished_def)
qed

lemma complete_dry_done:
  assumes "complete_dry env cfg rq who i outcome w = (Inr r, w')"
  shows "rr_ran r" "rr_run_id r = Some i" "rr_runbook_id r = Some (rb_id (cl_runbook rq))"
    "completed_as i (rr_exit_code r) (shared w')"
proof -
  let ?x = "x_exit_code (eo_exec_result outcome)"
  let ?lp = "fc_exec_log_dir cfg @ ''/'' @ i @ ''.exec.log''"
  obtain w1 ap where t: "txn env
             (seqP (mark_completed_conn env i ?x (eo_transcript_path outcome))
             (bindP
               (if eo_errored outcome then
                  seqP (insert_audit env who ''autofix.exec_error'' None
                          (Some (exec_error_fields rq i outcome ?lp @
                                 [(''mode'', JStr (mode_value DRY_RUN))])) (cl_ip rq) None)
                    (ret None)
                else
                  bindP (insert_pending env i (rb_id (cl_runbook rq)) (map_option al_id (cl_alert rq)) (rb_hash (cl_runbook rq)))
                    (\<lambda>approval_id.
                     seqP (insert_audit env who ''autofix.dry_run_stored'' None
                             (Some (stored_fields env rq i outcome ?lp approval_id)) (cl_ip rq) None)
                       (ret (Some approval_id))))
             (\<lambda>approval_id.
             bindP (ask (clock env)) (\<lambda>now.
             seqP (process_feedback env i (cl_alert rq) (cl_runbook rq) (eo_feedback_items outcome) now)
               (ret approval_id))))) w1 = (Inr ap, w')"
    and r: "r = run_finished rq DRY_RUN_STORED i outcome ap"
    using assms unfolding complete_dry_def Let_def
    by (auto elim!: bindP_returned seqP_returned simp: run_simps dest!: exec_log_path)
  show "rr_ran r" "rr_run_id r = Some i" "rr_runbook_id r = Some (rb_id (cl_runbook rq))"
    by (simp_all add: r run_finished_def)
  have "completed_as i (Some ?x) (shared w')"
    using t
    by (rule completing_txn)
      (intro guar_intros guar_insert_audit guar_process_feedback guar_insert_pending; simp add: keeps_writes)
  then show "completed_as i (rr_exit_code r) (shared w')" by (simp add: r run_finished_def)
qed

text \<open>A claim that is turned down leaves one audit row and nothing else.\<close>

definition turned_down :: "string option \<Rightarrow> run_result \<Rightarrow> (store, act event) world \<Rightarrow> (store, act event) world \<Rightarrow> bool" where
  "turned_down rb r w w' \<longleftrightarrow>
     (\<exists>d row. r = denied rb d None \<and> trace w' = trace w @ [Audit row] \<and>
        a_what row \<in> {''autofix.denied'', ''autofix.claim_error''})"

lemma claim_turned_down:
  assumes "claim env cfg rq who mode cred now w = (Inr (Inl r), w')"
  shows "turned_down (Some (rb_id (cl_runbook rq))) r w w'"
proof -
  obtain res w1 where c: "claim_txn env cfg rq who mode cred now w = (res, w1)" by fastforce
  show ?thesis
  proof (cases res)
    case (Inr x)
    with assms c have "claim_txn env cfg rq who mode cred now w = (Inr (Inl r), w')"
      by (simp add: claim_def Let_def tryP_def)
    from claim_txn_results(2) [OF this] show ?thesis by (auto simp: turned_down_def)
  next
    case (Inl e)
    have t: "trace w1 = trace w" using claim_txn_results(3) [OF c [unfolded Inl]] by simp
    let ?fields = "Some [(''runbook_id'', JStr (rb_id (cl_runbook rq))), (''alert_id'', alert_id_json (cl_alert rq)),
                          (''gate'', JStr (denial_value CLAIM_ERROR)), (''error'', JStr (exn_msg e))]"
    have h: "seqP (txn env (insert_audit env who ''autofix.claim_error'' None ?fields None None))
                (ret (Inl (denied (Some (rb_id (cl_runbook rq))) CLAIM_ERROR None))) w1 = (Inr (Inl r :: run_result + string), w')"
      using assms c Inl by (simp add: claim_def Let_def tryP_def)
    then have "txn env (insert_audit env who ''autofix.claim_error'' None ?fields None None) w1 = (Inr (), w')"
      and "r = denied (Some (rb_id (cl_runbook rq))) CLAIM_ERROR None"
      by (auto elim!: seqP_returned simp: run_simps)
    with audit_txn_returned [of env who _ None ?fields None None w1 w'] t show ?thesis
      unfolding turned_down_def by auto
  qed
qed

text \<open>The three cases of a result: completed, or turned down with one audit row.\<close>

definition accounted :: "string option \<Rightarrow> run_result \<Rightarrow> (store, act event) world \<Rightarrow> (store, act event) world \<Rightarrow> bool" where
  "accounted rb r w w' \<longleftrightarrow> rr_runbook_id r = rb \<and>
     (if rr_ran r then \<exists>i. rr_run_id r = Some i \<and> completed_as i (rr_exit_code r) (shared w')
      else turned_down rb r w w')"

lemma turned_down_accounted: "turned_down rb r w w' \<Longrightarrow> accounted rb r w w'"
  by (auto simp: turned_down_def denied_def accounted_def)

lemma accounted_from: "accounted rb r w1 w' \<Longrightarrow> trace w1 = trace w \<Longrightarrow> accounted rb r w w'"
  by (cases "rr_ran r") (simp_all add: accounted_def turned_down_def)

lemma accounted_runbook: "accounted rb r w w' \<Longrightarrow> accounted (rr_runbook_id r) r w w'"
  by (simp add: accounted_def)

lemma locked_claim_returned:
  assumes "with_lock env k (bindP (claim env cfg rq who mode cred now) (\<lambda>claimed.
         case claimed of Inl result \<Rightarrow> ret (Inl result)
         | Inr run_id \<Rightarrow> bindP (rest run_id) (\<lambda>outcome. ret (Inr (run_id, outcome))))) w = (Inr (Inl r), w')"
  shows "turned_down (Some (rb_id (cl_runbook rq))) r w w'"
proof -
  define body where "body = bindP (claim env cfg rq who mode cred now) (\<lambda>claimed.
         case claimed of Inl result \<Rightarrow> ret (Inl result)
         | Inr run_id \<Rightarrow> bindP (rest run_id) (\<lambda>outcome. ret (Inr (run_id, outcome))))"
  define w1 where "w1 = (entered env w)\<lparr>shared := hold_lock k (shared (entered env w))\<rparr>"
  have "with_lock env k body w = finallyP body (modS (release_lock k)) w1"
    by (simp add: with_lock_def seqP_def bindP_def run_simps w1_def entered_def)
  with assms have "finallyP body (modS (release_lock k)) w1 = (Inr (Inl r), w')" by (simp add: body_def)
  then obtain w2 where b: "body w1 = (Inr (Inl r), w2)" and t: "trace w' = trace w2"
    by (auto elim!: finallyP_returned simp: run_simps)
  from b have "claim env cfg rq who mode cred now w1 = (Inr (Inl r), w2)"
    unfolding body_def by (auto elim!: bindP_returned simp: run_simps split: sum.splits)
  from claim_turned_down [OF this] t show ?thesis by (simp add: turned_down_def w1_def)
qed

lemma claim_and_exec_accounted:
  assumes "claim_and_exec env cfg rq w = (Inr r, w')"
  shows "accounted (Some (rb_id (cl_runbook rq))) r w w'"
proof -
  let ?w1 = "w\<lparr>ticks := Suc (ticks w)\<rparr>"
  from assms obtain who v w2 where l: "with_lock env (rb_id (cl_runbook rq)) (bindP (claim env cfg rq who REAL (cl_credential rq) (clock env (ticks w))) (\<lambda>claimed.
         case claimed of Inl result \<Rightarrow> ret (Inl result)
         | Inr run_id \<Rightarrow> bindP (exec_claude env cfg (cl_runbook rq) (cl_alert rq) run_id False)
             (\<lambda>outcome. ret (Inr (run_id, outcome))))) ?w1 = (Inr v, w2)"
    and k: "(case v of Inl result \<Rightarrow> ret result
             | Inr (run_id, outcome) \<Rightarrow> complete_real env cfg rq who run_id outcome) w2 = (Inr r, w')"
    unfolding claim_and_exec_def by (auto elim!: bindP_returned simp: run_simps run_liftE)
  show ?thesis
  proof (cases v)
    case (Inl res)
    with k have "res = r" "w2 = w'" by (simp_all add: run_simps)
    with locked_claim_returned [OF l [unfolded Inl]] have "turned_down (Some (rb_id (cl_runbook rq))) r w w'"
      by (simp add: turned_down_def)
    then show ?thesis by (rule turned_down_accounted)
  next
    case (Inr p)
    then obtain i outcome where "p = (i, outcome)" by fastforce
    with Inr k have "complete_real env cfg rq who i outcome w2 = (Inr r, w')" by simp
    from complete_real_done [OF this] show ?thesis by (simp add: accounted_def run_finished_def)
  qed
qed

lemma claim_and_store_dry_accounted:
  assumes "claim_and_store_dry env cfg rq w = (Inr r, w')"
  shows "accounted (Some (rb_id (cl_runbook rq))) r w w'"
proof -
  let ?w1 = "w\<lparr>ticks := Suc (ticks w)\<rparr>"
  from assms obtain who v w2 where l: "with_lock env (rb_id (cl_runbook rq)) (bindP (claim env cfg rq who DRY_RUN None (clock env (ticks w))) (\<lambda>claimed.
         case claimed of Inl result \<Rightarrow> ret (Inl result)
         | Inr run_id \<Rightarrow> bindP (exec_claude env cfg (cl_runbook rq) (cl_alert rq) run_id True)
             (\<lambda>outcome. ret (Inr (run_id, outcome))))) ?w1 = (Inr v, w2)"
    and k: "(case v of Inl result \<Rightarrow> ret result
             | Inr (run_id, outcome) \<Rightarrow> complete_dry env cfg rq who run_id outcome) w2 = (Inr r, w')"
    unfolding claim_and_store_dry_def by (auto elim!: bindP_returned simp: run_simps run_liftE)
  show ?thesis
  proof (cases v)
    case (Inl res)
    with k have "res = r" "w2 = w'" by (simp_all add: run_simps)
    with locked_claim_returned [OF l [unfolded Inl]] have "turned_down (Some (rb_id (cl_runbook rq))) r w w'"
      by (simp add: turned_down_def)
    then show ?thesis by (rule turned_down_accounted)
  next
    case (Inr p)
    then obtain i outcome where "p = (i, outcome)" by fastforce
    with Inr k have "complete_dry env cfg rq who i outcome w2 = (Inr r, w')" by simp
    from complete_dry_done [OF this] show ?thesis by (simp add: accounted_def)
  qed
qed

lemma deny_turned_down:
  assumes "deny env al rb reason detail extra w = (Inr r, w')"
  shows "turned_down rb r w w'"
  using assms unfolding deny_def Let_def
  by (auto elim!: seqP_returned simp: run_simps turned_down_def dest!: audit_txn_returned)

lemma deny_operator_turned_down:
  assumes "deny_operator env b reason who ip cred w = (Inr r, w')"
  shows "turned_down (Some (rb_id b)) r w w'"
  using assms unfolding deny_operator_def Let_def
  by (auto elim!: seqP_returned simp: run_simps turned_down_def dest!: audit_txn_returned)

lemma gates_trace:
  "check_operational_gates env b a w = (Inr d, w') \<Longrightarrow> trace w' = trace w"
  using emitsD [OF emits_operational_gates [of "{}" env b a]] by fastforce


section \<open>Settling an approval\<close>

text \<open>An approval nobody can act on: approved, with no run to show for it.\<close>

definition stuck :: "string \<Rightarrow> approval \<Rightarrow> bool" where
  "stuck i a \<longleftrightarrow> ap_id a = i \<and> ap_status a = ''approved'' \<and> ap_real_run_id a = None"

lemma update_unstuck:
  assumes "\<And>a. p a \<Longrightarrow> \<not> stuck i (f a)" "\<And>a. \<not> p a \<Longrightarrow> \<not> stuck i a"
  shows "filter (stuck i) (s_approvals (snd (update_where p f s))) = []"
proof -
  have "filter (stuck i) (map (\<lambda>a. if p a then f a else a) as) = []" for as
    by (induction as) (use assms in auto)
  then show ?thesis by (simp add: update_where_def)
qed

lemma revert_unstuck: "filter (stuck i) (s_approvals (snd (revert_to_pending i s))) = []"
  unfolding revert_to_pending_def by (rule update_unstuck) (simp_all add: stuck_def)

lemma real_run_unstuck: "filter (stuck i) (s_approvals (snd (set_real_run_id i run s))) = []"
  unfolding set_real_run_id_def by (rule update_unstuck) (simp_all add: stuck_def)


end
