(* ===== verification/Kill.thy ===== *)
theory Kill
  imports Transitions
begin

text \<open>
  The kill switch's panic path (\<open>kill_inflight\<close> of kernel/autofix/orchestrator.py): the run in
  flight is snapshotted, the attempt is audited before the SIGKILL leaves, and the kill is either
  stamped on the run or recorded as a failure or a race.  Then the handler polls until the exec
  has unwound or a deadline has passed.  The poll is a loop of its own, with no bound but the
  monotonic clock, so it is a partial function; that it ends is the theorem \<open>kill_returns\<close>.
  The event trace tells the steps apart by the names of the audit rows; \<open>step_name\<close> also names
  the signal.
\<close>

definition kill_timeout_us :: int where "kill_timeout_us = 5 * 1000000"
definition unwind_deadline_us :: int where "unwind_deadline_us = 5 * 1000000"

section \<open>The handler\<close>

text \<open>\<open>DockerSocketClient.kill_container\<close>\<close>

definition kill_container :: "aenv \<Rightarrow> string \<Rightarrow> string \<Rightarrow> int \<Rightarrow> unit afx" where
  "kill_container env c signal timeout =
     seqP (emit (Act (KillContainer c signal timeout)))
       (bindP (awaitP env (\<lambda>k. d_kill env k c)) (\<lambda>r.
          case r of Some e \<Rightarrow> raise (DockerErr e) | None \<Rightarrow> ret ()))"

definition kill_audit :: "aenv \<Rightarrow> string \<Rightarrow> string option \<Rightarrow> string \<Rightarrow> json_object \<Rightarrow> unit afx" where
  "kill_audit env who ip what after = txn env (insert_audit env who what None (Some after) ip None)"

text \<open>The keys the rows about one attempt share.\<close>

definition attempt_fields :: "current_run \<Rightarrow> string \<Rightarrow> string \<Rightarrow> json_object" where
  "attempt_fields c reason who =
     [(''run_id'', JStr (c_run_id c)), (''reason'', JStr reason), (''killed_by'', JStr who),
      (''container'', JStr (c_container c))]"

text \<open>The attempt is on record before the signal is sent; a refusal of the daemon is re-raised.\<close>

definition send_kill :: "aenv \<Rightarrow> string \<Rightarrow> string \<Rightarrow> string option \<Rightarrow> current_run \<Rightarrow> unit afx" where
  "send_kill env reason who ip c =
     seqP (kill_audit env who ip ''autofix.kill_attempted'' (attempt_fields c reason who))
       (tryP (kill_container env (c_container c) ''SIGKILL'' kill_timeout_us)
          (\<lambda>e. case e of
             DockerErr d \<Rightarrow>
               seqP (kill_audit env who ip ''autofix.kill_failed''
                       [(''run_id'', JStr (c_run_id c)), (''reason'', JStr reason),
                        (''error'', JStr (docker_msg d)), (''container'', JStr (c_container c))])
                 (raise (DockerErr d))
           | _ \<Rightarrow> raise e))"

definition stamp_killed :: "aenv \<Rightarrow> string \<Rightarrow> string \<Rightarrow> string option \<Rightarrow> current_run \<Rightarrow> unit afx" where
  "stamp_killed env reason who ip c =
     bindP (ask (clock env)) (\<lambda>killed_at.
     txn env (seqP (mark_killed_conn (c_run_id c) killed_at)
       (insert_audit env who ''autofix.killed'' None (Some (attempt_fields c reason who)) ip None)))"

definition not_killed :: "string option \<Rightarrow> string \<Rightarrow> string \<Rightarrow> kill_result" where
  "not_killed run_id reason error =
     \<lparr>k_killed = False, k_run_id = run_id, k_reason = reason, k_error = Some error, k_unwind_warning = None\<rparr>"

text \<open>After the signal: a different run in flight is a race, the same or none is a kill.\<close>

definition after_kill ::
  "aenv \<Rightarrow> string \<Rightarrow> string \<Rightarrow> string option \<Rightarrow> current_run \<Rightarrow> (kill_result + current_run option) afx" where
  "after_kill env reason who ip c =
     bindP (fetch env s_current) (\<lambda>post.
     case post of
       Some p \<Rightarrow>
         if c_run_id p \<noteq> c_run_id c then
           seqP (kill_audit env who ip ''autofix.kill_wrong_run_race''
                   [(''snapshot_run_id'', JStr (c_run_id c)), (''current_run_id'', JStr (c_run_id p)),
                    (''reason'', JStr reason), (''killed_by'', JStr who), (''container'', JStr (c_container c))])
             (ret (Inl (not_killed (Some (c_run_id c)) reason ''wrong_run_race'')))
         else seqP (stamp_killed env reason who ip c) (ret (Inr post))
     | None \<Rightarrow> seqP (stamp_killed env reason who ip c) (ret (Inr post)))"

text \<open>
  Everything before the wait: an early result, or the snapshot that was killed and what was in
  flight after it.
\<close>

definition kill_snapshot ::
  "aenv \<Rightarrow> string \<Rightarrow> string \<Rightarrow> string option \<Rightarrow> (kill_result + current_run \<times> current_run option) afx" where
  "kill_snapshot env reason who ip =
     bindP (fetch env s_current) (\<lambda>snapshot.
     case snapshot of
       None \<Rightarrow>
         seqP (kill_audit env who ip ''autofix.kill_no_inflight'' [(''reason'', JStr reason)])
           (ret (Inl (not_killed None reason ''no_inflight_run'')))
     | Some c \<Rightarrow>
         seqP (send_kill env reason who ip c)
           (bindP (after_kill env reason who ip c) (\<lambda>r.
              ret (case r of Inl k \<Rightarrow> Inl k | Inr post \<Rightarrow> Inr (c, post)))))"

text \<open>
  \<open>while time.monotonic() < deadline\<close>: look at the handle under the lock, stop when it is empty,
  else sleep.  The \<open>else\<close> branch of the loop sets the warning.
\<close>

partial_function (option) unwind_wait ::
  "aenv \<Rightarrow> int \<Rightarrow> (store, act event) world \<Rightarrow> (string option \<times> (store, act event) world) option" where
  "unwind_wait env deadline w =
     (if deadline \<le> monotonic env (ticks w)
      then Some (Some ''unwind_deadline_exceeded'', w\<lparr>ticks := Suc (ticks w)\<rparr>)
      else if s_current (shared (entered env (w\<lparr>ticks := Suc (ticks w)\<rparr>))) = None
        then Some (None, entered env (w\<lparr>ticks := Suc (ticks w)\<rparr>))
        else unwind_wait env deadline (entered env (entered env (w\<lparr>ticks := Suc (ticks w)\<rparr>))))"

definition killed_result :: "current_run \<Rightarrow> string \<Rightarrow> string option \<Rightarrow> kill_result" where
  "killed_result c reason warning =
     \<lparr>k_killed = True, k_run_id = Some (c_run_id c), k_reason = reason, k_error = None,
      k_unwind_warning = warning\<rparr>"

definition kill_inflight ::
  "aenv \<Rightarrow> string \<Rightarrow> string \<Rightarrow> string option \<Rightarrow> (store, act event) world \<Rightarrow>
   ((exn + kill_result) \<times> (store, act event) world) option" where
  "kill_inflight env reason who ip w =
     (case kill_snapshot env reason who ip w of
        (Inl e, w') \<Rightarrow> Some (Inl e, w')
      | (Inr (Inl k), w') \<Rightarrow> Some (Inr k, w')
      | (Inr (Inr (c, post)), w') \<Rightarrow>
          (let deadline = monotonic env (ticks w') + unwind_deadline_us;
               w'' = w'\<lparr>ticks := Suc (ticks w')\<rparr>
           in if post = None then Some (Inr (killed_result c reason None), w'')
              else map_option (\<lambda>(warning, v). (Inr (killed_result c reason warning), v))
                     (unwind_wait env deadline w'')))"

section \<open>The wait ends\<close>

text \<open>
  A round of the wait asks the clock, takes the lock and sleeps; the monotonic clock is later
  after it.  The weakest form is enough: it need not advance by the interval that was asked for.
\<close>

definition sleeps :: "aenv \<Rightarrow> bool" where
  "sleeps env \<longleftrightarrow> (\<forall>n. monotonic env n < monotonic env (n + 3))"

lemma round_ticks: "ticks (entered env (entered env (w\<lparr>ticks := Suc (ticks w)\<rparr>))) = ticks w + 3"
  by simp

lemma unwind_wait_returns:
  assumes "sleeps env"
  shows "\<exists>warning w'. unwind_wait env deadline w = Some (warning, w')"
proof (induction "nat (deadline - monotonic env (ticks w))" arbitrary: w rule: less_induct)
  case less
  let ?next = "entered env (entered env (w\<lparr>ticks := Suc (ticks w)\<rparr>))"
  show ?case
  proof (cases "deadline \<le> monotonic env (ticks w)")
    case False
    have "monotonic env (ticks w) < monotonic env (ticks ?next)"
      using assms unfolding sleeps_def round_ticks by blast
    with False have "nat (deadline - monotonic env (ticks ?next)) < nat (deadline - monotonic env (ticks w))" by simp
    from less [OF this] show ?thesis by (subst unwind_wait.simps) (auto simp: False)
  qed (subst unwind_wait.simps, simp)
qed

text \<open>What the wait reports is so, and it writes nothing.\<close>

definition wait_answer :: "aenv \<Rightarrow> int \<Rightarrow> (store, act event) world \<Rightarrow>
    string option \<times> (store, act event) world \<Rightarrow> bool" where
  "wait_answer env deadline w result \<longleftrightarrow> trace (snd result) = trace w \<and>
    (fst result = None \<and> s_current (shared (snd result)) = None \<or>
     fst result = Some ''unwind_deadline_exceeded'' \<and> (\<exists>n. deadline \<le> monotonic env n))"

lemma unwind_wait_answer: "unwind_wait env deadline w = Some result \<Longrightarrow> wait_answer env deadline w result"
proof (erule unwind_wait.raw_induct [rotated])
  fix wait env deadline w result
  assume IH: "\<And>env deadline w result. wait env deadline w = Some result \<Longrightarrow> wait_answer env deadline w result"
    and round: "(if deadline \<le> monotonic env (ticks w)
      then Some (Some ''unwind_deadline_exceeded'', w\<lparr>ticks := Suc (ticks w)\<rparr>)
      else if s_current (shared (entered env (w\<lparr>ticks := Suc (ticks w)\<rparr>))) = None
        then Some (None, entered env (w\<lparr>ticks := Suc (ticks w)\<rparr>))
        else wait env deadline (entered env (entered env (w\<lparr>ticks := Suc (ticks w)\<rparr>)))) = Some result"
  show "wait_answer env deadline w result"
  proof (cases "deadline \<le> monotonic env (ticks w)")
    case True
    with round show ?thesis by (auto simp: wait_answer_def)
  next
    case False
    with round IH [of env deadline "entered env (entered env (w\<lparr>ticks := Suc (ticks w)\<rparr>))" result]
    show ?thesis by (auto simp: wait_answer_def split: if_splits)
  qed
qed

text \<open>
  C11: killing the run in flight always comes to an end: whatever the daemon, the database and the
  other tasks do, the handler answers, because the wait for the exec to unwind is cut off by the
  monotonic clock.
\<close>

theorem kill_returns:
  assumes "sleeps env"
  shows "\<exists>answer w'. kill_inflight env reason who ip w = Some (answer, w')"
proof -
  obtain r w1 where "kill_snapshot env reason who ip w = (r, w1)" by fastforce
  with unwind_wait_returns [OF assms] show ?thesis
    by (fastforce simp: kill_inflight_def Let_def split: sum.split)
qed

theorem kill_returns_witness:
  "\<exists>answer w'. kill_inflight calm_env ''panic'' ''alice'' None
     \<lparr>shared = empty_store\<lparr>s_current :=
        Some \<lparr>c_run_id = ''r1'', c_container = ''fixer'', c_started_at_monotonic = 0\<rparr>\<rparr>, trace = [], ticks = 0\<rparr> = Some (answer, w')"
  by (rule kill_returns) (simp add: sleeps_def calm_env_def)

section \<open>What the trace tells\<close>

fun step_name :: "act event \<Rightarrow> string" where
  "step_name (Audit row) = a_what row"
| "step_name (Act (KillContainer c signal timeout)) = signal"
| "step_name (Act _) = ''other act''"

text \<open>\<open>tells m S\<close>: whatever the world, \<open>S\<close> holds of the answer of \<open>m\<close> and the names of its steps.\<close>

definition tells :: "'a afx \<Rightarrow> (exn + 'a \<Rightarrow> string list \<Rightarrow> bool) \<Rightarrow> bool" where
  "tells m S \<longleftrightarrow> (\<forall>w. \<exists>es. trace (snd (m w)) = trace w @ es \<and> S (fst (m w)) (map step_name es))"

lemma tellsD: "tells m S \<Longrightarrow> m w = (r, w') \<Longrightarrow> \<exists>es. trace w' = trace w @ es \<and> S r (map step_name es)"
  by (metis tells_def fst_conv snd_conv)

lemma tells_conseq: "tells m S \<Longrightarrow> (\<And>r ss. S r ss \<Longrightarrow> T r ss) \<Longrightarrow> tells m T"
  unfolding tells_def by meson

lemma tells_bindP:
  assumes m: "tells m S" and fail: "\<And>e ss. S (Inl e) ss \<Longrightarrow> T (Inl e) ss"
    and k: "\<And>x ss. S (Inr x) ss \<Longrightarrow> tells (k x) (\<lambda>r ts. T r (ss @ ts))"
  shows "tells (bindP m k) T"
  unfolding tells_def
proof
  fix w
  obtain r w' where r: "m w = (r, w')" by fastforce
  from tellsD [OF m r] obtain es where es: "trace w' = trace w @ es" "S r (map step_name es)" by blast
  show "\<exists>es. trace (snd (bindP m k w)) = trace w @ es \<and> T (fst (bindP m k w)) (map step_name es)"
  proof (cases r)
    case (Inl e)
    with r es fail show ?thesis by (auto simp: bindP_def)
  next
    case (Inr x)
    obtain r' w2 where r2: "k x w' = (r', w2)" by fastforce
    from tellsD [OF k r2] es Inr obtain fs where "trace w2 = trace w' @ fs" "T r' (map step_name es @ map step_name fs)"
      by blast
    with r r2 es(1) Inr show ?thesis by (intro exI [of _ "es @ fs"]) (simp add: bindP_def)
  qed
qed

lemma tells_silent:
  assumes "\<And>w. \<exists>w'. m w = (Inr (f w), w') \<and> trace w' = trace w" "\<And>w. S (Inr (f w)) []"
  shows "tells m S"
  unfolding tells_def
proof
  fix w
  from assms(1) [of w] obtain w' where "m w = (Inr (f w), w')" "trace w' = trace w" by blast
  with assms(2) show "\<exists>es. trace (snd (m w)) = trace w @ es \<and> S (fst (m w)) (map step_name es)"
    by (intro exI [of _ "[]"]) simp
qed

lemma tells_iffs [simp]:
  "tells (ret x) S \<longleftrightarrow> S (Inr x) []" "tells (raise e) S \<longleftrightarrow> S (Inl e) []"
  "tells (emit ev) S' \<longleftrightarrow> S' (Inr ()) [step_name ev]"
  by (simp_all add: tells_def run_simps)

lemma tells_ask: "(\<And>x. S (Inr x) []) \<Longrightarrow> tells (ask h) S"
  and tells_fetch: "(\<And>x. S (Inr x) []) \<Longrightarrow> tells (fetch env g) S"
  and tells_awaitP: "(\<And>x. S (Inr x) []) \<Longrightarrow> tells (awaitP env h) S"
  by (simp_all add: tells_def run_simps run_fetch awaitP_def seqP_def bindP_def)

text \<open>A transaction whose body writes one audit row: the row, or a failed commit and nothing.\<close>

definition one_row :: "string \<Rightarrow> exn + unit \<Rightarrow> string list \<Rightarrow> bool" where
  "one_row what r ss \<longleftrightarrow> r = Inr () \<and> ss = [what] \<or> (\<exists>m. r = Inl (DbError m)) \<and> ss = []"

lemma tells_txn_audit:
  assumes "\<And>w. \<exists>w'. pre w = (Inr (), w') \<and> trace w' = trace w"
  shows "tells (txn env (seqP pre (insert_audit env who what bf af ip t))) (one_row what)"
  unfolding tells_def
proof
  fix w
  let ?body = "seqP pre (insert_audit env who what bf af ip t)"
  obtain w1 where w1: "pre (entered env w) = (Inr (), w1)" "trace w1 = trace w" using assms [of "entered env w"] by auto
  obtain row w2 where w2: "?body (entered env w) = (Inr (), w2)" "trace w2 = trace w @ [Audit row]" "a_what row = what"
    using run_insert_audit [where w = w1] w1 by (metis run_seqP_Inr)
  from w2(1) show "\<exists>es. trace (snd (txn env ?body w)) = trace w @ es \<and>
      one_row what (fst (txn env ?body w)) (map step_name es)"
    by (cases rule: txn_returned) (use w2 in \<open>auto simp: one_row_def\<close>)
qed

lemma tells_kill_audit: "tells (kill_audit env who ip what after) (one_row what)"
proof -
  have "seqP (ret ()) m = m" for m :: "unit afx" by (rule ext) (simp add: seqP_def run_simps)
  with tells_txn_audit [of "ret ()"] show ?thesis unfolding kill_audit_def by (simp add: run_simps)
qed

lemma tells_stamp_killed: "tells (stamp_killed env reason who ip c) (one_row ''autofix.killed'')"
  unfolding stamp_killed_def
  by (rule tells_bindP [OF tells_ask [of "\<lambda>r ss. (\<exists>x. r = Inr x) \<and> ss = []"]])
    (auto simp: mark_killed_conn_def run_simps intro: tells_txn_audit)

text \<open>
  What a kill leaves on record.  The signal is never sent without the attempt on record, and the
  answer names what happened after it.
\<close>

definition kill_story :: "exn + kill_result \<Rightarrow> string list \<Rightarrow> bool" where
  "kill_story answer steps =
     (case answer of
        Inr k \<Rightarrow>
          (if k_killed k then k_error k = None \<and>
             steps = [''autofix.kill_attempted'', ''SIGKILL'', ''autofix.killed'']
           else k_error k = Some ''no_inflight_run'' \<and> steps = [''autofix.kill_no_inflight''] \<or>
             k_error k = Some ''wrong_run_race'' \<and>
             steps = [''autofix.kill_attempted'', ''SIGKILL'', ''autofix.kill_wrong_run_race''])
      | Inl (DockerErr d) \<Rightarrow> steps = [''autofix.kill_attempted'', ''SIGKILL'', ''autofix.kill_failed'']
      | Inl (DbError m) \<Rightarrow> steps \<in> {[], [''autofix.kill_attempted''], [''autofix.kill_attempted'', ''SIGKILL'']}
      | Inl _ \<Rightarrow> False)"

lemma tells_tryP:
  assumes m: "tells m S" and ok: "\<And>x ss. S (Inr x) ss \<Longrightarrow> T (Inr x) ss"
    and h: "\<And>e ss. S (Inl e) ss \<Longrightarrow> tells (h e) (\<lambda>r ts. T r (ss @ ts))"
  shows "tells (tryP m h) T"
  unfolding tells_def
proof
  fix w
  obtain r w' where r: "m w = (r, w')" by fastforce
  from tellsD [OF m r] obtain es where es: "trace w' = trace w @ es" "S r (map step_name es)" by blast
  show "\<exists>es. trace (snd (tryP m h w)) = trace w @ es \<and> T (fst (tryP m h w)) (map step_name es)"
  proof (cases r)
    case (Inl e)
    obtain r' w2 where r2: "h e w' = (r', w2)" by fastforce
    from tellsD [OF h r2] es Inl obtain fs where "trace w2 = trace w' @ fs" "T r' (map step_name es @ map step_name fs)"
      by blast
    with r r2 es(1) Inl show ?thesis by (intro exI [of _ "es @ fs"]) (simp add: tryP_def)
  next
    case (Inr x)
    with r es ok show ?thesis by (auto simp: tryP_def)
  qed
qed

lemma tells_seqP:
  assumes "tells m S" "\<And>e ss. S (Inl e) ss \<Longrightarrow> T (Inl e) ss"
    "\<And>x ss. S (Inr x) ss \<Longrightarrow> tells n (\<lambda>r ts. T r (ss @ ts))"
  shows "tells (seqP m n) T"
  unfolding seqP_def by (rule tells_bindP [OF assms])

definition signalled :: "exn + unit \<Rightarrow> string list \<Rightarrow> bool" where
  "signalled r ss \<longleftrightarrow> (case r of Inr _ \<Rightarrow> True | Inl e \<Rightarrow> (\<exists>d. e = DockerErr d)) \<and> ss = [''SIGKILL'']"

lemma tells_kill_container: "tells (kill_container env c ''SIGKILL'' t) signalled"
proof -
  have answer: "tells (case x of None \<Rightarrow> ret () | Some e \<Rightarrow> raise (DockerErr e))
      (\<lambda>r ts. signalled r ([''SIGKILL''] @ ts))" for x :: "docker_error option"
    by (cases x) (simp_all add: signalled_def)
  have daemon: "tells (bindP (awaitP env (\<lambda>k. d_kill env k c)) (\<lambda>r. case r of Some e \<Rightarrow> raise (DockerErr e) | None \<Rightarrow> ret ()))
      (\<lambda>r ts. signalled r ([''SIGKILL''] @ ts))"
    by (rule tells_bindP [OF tells_awaitP [of "\<lambda>r ss. (\<exists>x. r = Inr x) \<and> ss = []"]]) (auto intro: answer [simplified])
  show ?thesis
    unfolding kill_container_def
    by (rule tells_seqP [of _ "\<lambda>r ss. r = Inr () \<and> ss = [''SIGKILL'']"]) (use daemon in auto)
qed

lemma tells_send_kill:
  "tells (send_kill env reason who ip c)
     (\<lambda>r ss. case r of Inr _ \<Rightarrow> ss = [''autofix.kill_attempted'', ''SIGKILL''] | Inl e \<Rightarrow> kill_story (Inl e) ss)"
  (is "tells _ ?T")
proof -
  have failed: "tells (seqP (kill_audit env who ip ''autofix.kill_failed'' f) (raise (DockerErr d)))
      (\<lambda>r ts. ?T r ([''autofix.kill_attempted''] @ [''SIGKILL''] @ ts))" for f d
    by (rule tells_seqP [OF tells_kill_audit]) (auto simp: one_row_def kill_story_def)
  have send: "tells (tryP (kill_container env (c_container c) ''SIGKILL'' kill_timeout_us)
        (\<lambda>e. case e of
             DockerErr d \<Rightarrow>
               seqP (kill_audit env who ip ''autofix.kill_failed''
                       [(''run_id'', JStr (c_run_id c)), (''reason'', JStr reason),
                        (''error'', JStr (docker_msg d)), (''container'', JStr (c_container c))])
                 (raise (DockerErr d))
           | _ \<Rightarrow> raise e)) (\<lambda>r ts. ?T r ([''autofix.kill_attempted''] @ ts))"
    by (rule tells_tryP [OF tells_kill_container]) (use failed in \<open>auto simp: signalled_def\<close>)
  show ?thesis
    unfolding send_kill_def
    by (rule tells_seqP [OF tells_kill_audit]) (use send in \<open>auto simp: one_row_def kill_story_def\<close>)
qed

definition after_story :: "exn + (kill_result + current_run option) \<Rightarrow> string list \<Rightarrow> bool" where
  "after_story r ss =
     (case r of
        Inl e \<Rightarrow> (\<exists>m. e = DbError m) \<and> ss = []
      | Inr (Inl k) \<Rightarrow> \<not> k_killed k \<and> k_error k = Some ''wrong_run_race'' \<and> ss = [''autofix.kill_wrong_run_race'']
      | Inr (Inr post) \<Rightarrow> ss = [''autofix.killed''])"

lemma tells_after_kill: "tells (after_kill env reason who ip c) after_story"
proof -
  have stamped: "tells (seqP (stamp_killed env reason who ip c) (ret (Inr p))) (\<lambda>r ts. after_story r ([] @ ts))" for p
    by (rule tells_seqP [OF tells_stamp_killed]) (auto simp: one_row_def after_story_def)
  have race: "tells (seqP (kill_audit env who ip ''autofix.kill_wrong_run_race'' f)
      (ret (Inl (not_killed i reason ''wrong_run_race'')))) (\<lambda>r ts. after_story r ([] @ ts))" for f i
    by (rule tells_seqP [OF tells_kill_audit]) (auto simp: one_row_def after_story_def not_killed_def)
  show ?thesis
    unfolding after_kill_def
    by (rule tells_bindP [OF tells_fetch [of "\<lambda>r ss. (\<exists>x. r = Inr x) \<and> ss = []"]])
      (use stamped race in \<open>auto split: option.split\<close>)
qed

definition before_wait :: "exn + (kill_result + current_run \<times> current_run option) \<Rightarrow> string list \<Rightarrow> bool" where
  "before_wait r ss =
     (case r of
        Inl e \<Rightarrow> kill_story (Inl e) ss
      | Inr (Inl k) \<Rightarrow> \<not> k_killed k \<and> kill_story (Inr k) ss
      | Inr (Inr (c, post)) \<Rightarrow> ss = [''autofix.kill_attempted'', ''SIGKILL'', ''autofix.killed''])"

lemma tells_kill_snapshot: "tells (kill_snapshot env reason who ip) before_wait"
proof -
  have none: "tells (seqP (kill_audit env who ip ''autofix.kill_no_inflight'' f)
      (ret (Inl (not_killed None reason ''no_inflight_run'')))) (\<lambda>r ts. before_wait r ([] @ ts))" for f
    by (rule tells_seqP [OF tells_kill_audit])
      (auto simp: one_row_def before_wait_def kill_story_def not_killed_def)
  have after: "tells (bindP (after_kill env reason who ip c) (\<lambda>r. ret (case r of Inl k \<Rightarrow> Inl k | Inr post \<Rightarrow> Inr (c, post))))
      (\<lambda>r ts. before_wait r ([''autofix.kill_attempted'', ''SIGKILL''] @ ts))" for c
    by (rule tells_bindP [OF tells_after_kill])
      (auto simp: after_story_def before_wait_def kill_story_def split: sum.splits)
  have some: "tells (seqP (send_kill env reason who ip c) (bindP (after_kill env reason who ip c)
      (\<lambda>r. ret (case r of Inl k \<Rightarrow> Inl k | Inr post \<Rightarrow> Inr (c, post))))) (\<lambda>r ts. before_wait r ([] @ ts))" for c
    by (rule tells_seqP [OF tells_send_kill]) (use after in \<open>auto simp: before_wait_def\<close>)
  show ?thesis
    unfolding kill_snapshot_def
    by (rule tells_bindP [OF tells_fetch [of "\<lambda>r ss. (\<exists>x. r = Inr x) \<and> ss = []"]])
      (use none some in \<open>auto split: option.split\<close>)
qed

text \<open>
  A kill tells the truth: no SIGKILL leaves without the attempt on record; an answer of
  killed has the stamp's audit row behind it, a refusal of the daemon and a race for the handle
  have theirs, and the only other failure is the database's; the wait writes nothing.
\<close>

theorem kill_on_record:
  "case kill_inflight env reason who ip w of
     None \<Rightarrow> True
   | Some (answer, w') \<Rightarrow> \<exists>es. trace w' = trace w @ es \<and> kill_story answer (map step_name es)"
proof (cases "kill_inflight env reason who ip w")
  case (Some result)
  obtain r w1 where r: "kill_snapshot env reason who ip w = (r, w1)" by fastforce
  obtain es where es: "trace w1 = trace w @ es" "before_wait r (map step_name es)"
    using tellsD [OF tells_kill_snapshot r] by blast
  from Some r have "trace (snd result) = trace w1"
    by (auto simp: kill_inflight_def Let_def wait_answer_def split: sum.splits if_splits dest!: unwind_wait_answer)
  moreover have "kill_story (fst result) (map step_name es)"
    using Some r es(2)
    by (auto simp: kill_inflight_def Let_def before_wait_def kill_story_def killed_result_def
        split: sum.splits if_splits)
  ultimately show ?thesis using Some es(1) by (cases result) auto
qed simp

end
