(* ===== verification/Admission.thy ===== *)
theory Admission
  imports Main
begin

text \<open>
  The contract of a sliding-window limiter with staleness, as a locale: what a transition of the
  list of admitted entries may do (append an entry its window has room for, or rewrite entries
  without moving them), and what follows for every window of time.  It is interpreted on the
  table of runs (theory Interleaving) and on the login limiter (theory Limiters).
\<close>

section \<open>Sliding windows\<close>

lemma length_filter_mono:
  "(\<And>x. x \<in> set xs \<Longrightarrow> p x \<Longrightarrow> q x) \<Longrightarrow> length (filter p xs) \<le> length (filter q xs)"
  by (induction xs) auto

locale admission =
  fixes owner :: "'r \<Rightarrow> 'o" and start :: "'r \<Rightarrow> 't::linordered_idom" and is_open :: "'r \<Rightarrow> bool"
    and transit :: "'r list \<Rightarrow> 'r list \<Rightarrow> bool"
    and quota_of :: "'o \<Rightarrow> int option" and width :: 't and gap :: 't
  assumes transit_cases: "transit rs rs' \<Longrightarrow>
      (\<exists>r. rs' = rs @ [r] \<and>
         (\<forall>l. quota_of (owner r) = Some l \<longrightarrow>
            int (length (filter (\<lambda>q. owner q = owner r \<and> start r - width \<le> start q) rs)) < l) \<and>
         (\<forall>q \<in> set rs. owner q = owner r \<longrightarrow> is_open q \<longrightarrow> start q < start r - gap)) \<or>
      (\<exists>f. rs' = map f rs \<and>
         (\<forall>r \<in> set rs. owner (f r) = owner r \<and> start (f r) = start r \<and> (is_open (f r) \<longrightarrow> is_open r)))"
begin

text \<open>Every run was admitted within its window, and no open run was young when a later one came.\<close>

definition windows :: "'r list \<Rightarrow> bool" where
  "windows rs \<longleftrightarrow> (\<forall>i < length rs. \<forall>l. quota_of (owner (rs ! i)) = Some l \<longrightarrow>
     int (length (filter (\<lambda>q. owner q = owner (rs ! i) \<and> start (rs ! i) - width \<le> start q) (take i rs))) < l)"

definition spaced :: "'r list \<Rightarrow> bool" where
  "spaced rs \<longleftrightarrow> (\<forall>j < length rs. \<forall>i < j. owner (rs ! i) = owner (rs ! j) \<longrightarrow> is_open (rs ! i) \<longrightarrow>
     start (rs ! i) < start (rs ! j) - gap)"

lemma windows_transit:
  assumes "transit rs rs'" and "windows rs"
  shows "windows rs'"
  using transit_cases [OF assms(1)]
proof
  assume "\<exists>r. rs' = rs @ [r] \<and>
     (\<forall>l. quota_of (owner r) = Some l \<longrightarrow>
        int (length (filter (\<lambda>q. owner q = owner r \<and> start r - width \<le> start q) rs)) < l) \<and>
     (\<forall>q \<in> set rs. owner q = owner r \<longrightarrow> is_open q \<longrightarrow> start q < start r - gap)"
  with assms(2) show ?thesis by (auto simp: windows_def nth_append less_Suc_eq)
next
  assume "\<exists>f. rs' = map f rs \<and>
     (\<forall>r \<in> set rs. owner (f r) = owner r \<and> start (f r) = start r \<and> (is_open (f r) \<longrightarrow> is_open r))"
  then obtain f where f: "rs' = map f rs" "\<And>r. r \<in> set rs \<Longrightarrow> owner (f r) = owner r \<and> start (f r) = start r" by blast
  have "length (filter p (map f (take i rs))) = length (filter p (take i rs))"
    if "\<And>q. q \<in> set rs \<Longrightarrow> p (f q) = p q" for p i
    using that by (induction i) (auto simp: filter_map o_def intro!: arg_cong [where f = length] filter_cong dest: in_set_takeD)
  with f assms(2) show ?thesis by (simp add: windows_def take_map)
qed

lemma spaced_transit:
  assumes "transit rs rs'" and "spaced rs"
  shows "spaced rs'"
  using transit_cases [OF assms(1)]
proof
  assume "\<exists>r. rs' = rs @ [r] \<and>
     (\<forall>l. quota_of (owner r) = Some l \<longrightarrow>
        int (length (filter (\<lambda>q. owner q = owner r \<and> start r - width \<le> start q) rs)) < l) \<and>
     (\<forall>q \<in> set rs. owner q = owner r \<longrightarrow> is_open q \<longrightarrow> start q < start r - gap)"
  with assms(2) show ?thesis by (auto simp: spaced_def nth_append less_Suc_eq)
next
  assume "\<exists>f. rs' = map f rs \<and>
     (\<forall>r \<in> set rs. owner (f r) = owner r \<and> start (f r) = start r \<and> (is_open (f r) \<longrightarrow> is_open r))"
  with assms(2) show ?thesis by (auto simp: spaced_def)
qed

text \<open>In any window of the width at most the quota was started.\<close>

lemma window_count:
  assumes w: "windows rs" and q: "quota_of k = Some l"
  shows "int (length (filter (\<lambda>r. owner r = k \<and> t \<le> start r \<and> start r \<le> t + width) rs)) \<le> max 0 l"
  using w
proof (induction rs rule: rev_induct)
  case (snoc r rs)
  have w: "windows rs" using snoc.prems by (auto simp: windows_def nth_append less_Suc_eq)
  have IH: "int (length (filter (\<lambda>r. owner r = k \<and> t \<le> start r \<and> start r \<le> t + width) rs)) \<le> max 0 l"
    by (rule snoc.IH [OF w])
  show ?case
  proof (cases "owner r = k \<and> t \<le> start r \<and> start r \<le> t + width")
    case True
    have "int (length (filter (\<lambda>q. owner q = owner r \<and> start r - width \<le> start q) rs)) < l"
      using snoc.prems q True unfolding windows_def by (auto dest!: spec [of _ "length rs"])
    moreover have "length (filter (\<lambda>q. owner q = k \<and> t \<le> start q \<and> start q \<le> t + width) rs)
        \<le> length (filter (\<lambda>q. owner q = owner r \<and> start r - width \<le> start q) rs)"
      using True by (intro length_filter_mono) auto
    ultimately show ?thesis using True by simp
  qed (use IH in auto)
qed simp

end

end
