(* ===== verification/Limiters.thy ===== *)
theory Limiters
  imports Complex_Main Admission
begin

text \<open>
  The in-process rate limiters: login attempts per IP address (kernel/auth/rate_limit.py, a
  sliding window) and heartbeat pings per cron (kernel/heartbeat/rate_limiter.py, a token
  bucket).  Both keep a dict of buckets, here a map, and ask an injected clock once per call,
  here an argument.  Python floats are rationals: the rounding of float arithmetic is not
  modelled.  The abstract limiter remembers every admitted attempt; the deque implements it as
  long as the clock does not run backwards.
\<close>

section \<open>Login attempts\<close>

record login_limiter =
  ll_max :: int
  ll_window :: rat
  ll_buckets :: "string \<Rightarrow> rat list option"

definition default_login_limiter :: login_limiter where
  "default_login_limiter = \<lparr>ll_max = 5, ll_window = 300, ll_buckets = Map.empty\<rparr>"

text \<open>The while loop that pops the left end of the deque is \<open>dropWhile\<close>.\<close>

definition check_and_record :: "login_limiter \<Rightarrow> string \<Rightarrow> rat \<Rightarrow> bool \<times> login_limiter" where
  "check_and_record lm ip now =
     (let bucket = (case ll_buckets lm ip of None \<Rightarrow> [] | Some b \<Rightarrow> b);
          kept = dropWhile (\<lambda>t. t < now - ll_window lm) bucket
      in if ll_max lm \<le> int (length kept)
         then (False, lm\<lparr>ll_buckets := (ll_buckets lm)(ip \<mapsto> kept)\<rparr>)
         else (True, lm\<lparr>ll_buckets := (ll_buckets lm)(ip \<mapsto> kept @ [now])\<rparr>))"

text \<open>A sequence of calls (address, time of the call), with the answers in order.\<close>

fun login_calls :: "login_limiter \<Rightarrow> (string \<times> rat) list \<Rightarrow> bool list" where
  "login_calls lm [] = []"
| "login_calls lm ((ip, now) # cs) =
     (case check_and_record lm ip now of (ok, lm') \<Rightarrow> ok # login_calls lm' cs)"

text \<open>
  The specification: a log of every admitted attempt, never evicted; an attempt is admitted when
  fewer than the maximum of the same address lie in the window that ends now.
\<close>

definition admits :: "int \<Rightarrow> rat \<Rightarrow> (string \<times> rat) list \<Rightarrow> string \<times> rat \<Rightarrow> bool" where
  "admits m width seen c \<longleftrightarrow>
     int (length (filter (\<lambda>q. fst q = fst c \<and> snd c - width \<le> snd q) seen)) < m"

fun spec_calls :: "int \<Rightarrow> rat \<Rightarrow> (string \<times> rat) list \<Rightarrow> (string \<times> rat) list \<Rightarrow> bool list" where
  "spec_calls m width seen [] = []"
| "spec_calls m width seen (c # cs) =
     (if admits m width seen c then True # spec_calls m width (seen @ [c]) cs
      else False # spec_calls m width seen cs)"

definition bucket_of :: "login_limiter \<Rightarrow> string \<Rightarrow> rat list" where
  "bucket_of lm ip = (case ll_buckets lm ip of None \<Rightarrow> [] | Some b \<Rightarrow> b)"

definition times_of :: "'a \<Rightarrow> ('a \<times> rat) list \<Rightarrow> rat list" where
  "times_of ip seen = map snd (filter (\<lambda>q. fst q = ip) seen)"

text \<open>The abstraction: a bucket is the tail of the log of its address that starts at some cutoff.\<close>

definition represents :: "login_limiter \<Rightarrow> (string \<times> rat) list \<Rightarrow> rat \<Rightarrow> bool" where
  "represents lm seen now \<longleftrightarrow>
     (\<forall>ip. sorted (times_of ip seen) \<and> (\<forall>t \<in> set (times_of ip seen). t \<le> now) \<and>
        (\<exists>cut \<le> now - ll_window lm. bucket_of lm ip = filter (\<lambda>t. cut \<le> t) (times_of ip seen)))"

lemma dropWhile_sorted: "sorted xs \<Longrightarrow> dropWhile (\<lambda>t. t < c) xs = filter (\<lambda>t. c \<le> t) (xs :: rat list)"
proof (induction xs)
  case (Cons x xs)
  then show ?case by (cases "x < c") (auto simp: filter_id_conv intro!: filter_True [symmetric])
qed simp

lemma times_of_snoc: "times_of ip (seen @ [(i, t)]) = (if i = ip then times_of ip seen @ [t] else times_of ip seen)"
  by (simp add: times_of_def)

lemma times_of_count:
  "length (filter (\<lambda>t. c \<le> t) (times_of ip seen)) = length (filter (\<lambda>q. fst q = ip \<and> c \<le> snd q) seen)"
  by (simp add: times_of_def filter_map o_def conj_commute)

lemma check_and_record_implements:
  assumes rep: "represents lm seen t0" and later: "t0 \<le> now" and width: "0 \<le> ll_window lm"
    and call: "check_and_record lm ip now = (ok, lm')"
  shows "ok = admits (ll_max lm) (ll_window lm) seen (ip, now)"
    and "represents lm' (if ok then seen @ [(ip, now)] else seen) now"
    and "ll_max lm' = ll_max lm" "ll_window lm' = ll_window lm"
proof -
  let ?cut = "now - ll_window lm"
  let ?kept = "filter (\<lambda>t. ?cut \<le> t) (times_of ip seen)"
  from rep obtain cut where cut: "cut \<le> t0 - ll_window lm" "bucket_of lm ip = filter (\<lambda>t. cut \<le> t) (times_of ip seen)"
    and sorted: "sorted (times_of ip seen)" by (auto simp: represents_def)
  have "dropWhile (\<lambda>t. t < ?cut) (bucket_of lm ip) = filter (\<lambda>t. ?cut \<le> t) (bucket_of lm ip)"
    using sorted by (intro dropWhile_sorted) (simp add: cut(2) sorted_wrt_filter)
  also have "\<dots> = ?kept"
    unfolding cut(2) filter_filter using cut(1) later by (intro filter_cong) auto
  finally have kept: "dropWhile (\<lambda>t. t < ?cut) (bucket_of lm ip) = ?kept" .
  have res: "(ok, lm') = (if ll_max lm \<le> int (length ?kept)
      then (False, lm\<lparr>ll_buckets := (ll_buckets lm)(ip \<mapsto> ?kept)\<rparr>)
      else (True, lm\<lparr>ll_buckets := (ll_buckets lm)(ip \<mapsto> ?kept @ [now])\<rparr>))"
    using call kept by (auto simp: check_and_record_def bucket_of_def Let_def split: if_splits)
  then show "ok = admits (ll_max lm) (ll_window lm) seen (ip, now)"
    by (auto simp: admits_def times_of_count split: if_splits)
  from res show "ll_max lm' = ll_max lm" "ll_window lm' = ll_window lm" by (auto split: if_splits)
  show "represents lm' (if ok then seen @ [(ip, now)] else seen) now"
    unfolding represents_def
  proof (intro allI conjI)
    fix j
    obtain c where c: "c \<le> t0 - ll_window lm" "bucket_of lm j = filter (\<lambda>t. c \<le> t) (times_of j seen)"
      and old: "sorted (times_of j seen)" "\<forall>t \<in> set (times_of j seen). t \<le> now"
      using rep later unfolding represents_def by force
    have "c \<le> now - ll_window lm" using c(1) later by simp
    with c(2) have old3: "\<exists>cut \<le> now - ll_window lm. bucket_of lm j = filter (\<lambda>t. cut \<le> t) (times_of j seen)" by blast
    show "sorted (times_of j (if ok then seen @ [(ip, now)] else seen))"
      using old by (auto simp: times_of_snoc sorted_append)
    show "\<forall>t \<in> set (times_of j (if ok then seen @ [(ip, now)] else seen)). t \<le> now"
      using old by (auto simp: times_of_snoc)
    have lm': "bucket_of lm' j = (if j \<noteq> ip then bucket_of lm j else if ok then ?kept @ [now] else ?kept)"
      "ll_window lm' = ll_window lm"
      using res by (auto simp: bucket_of_def split: if_splits)
    show "\<exists>cut \<le> now - ll_window lm'. bucket_of lm' j =
        filter (\<lambda>t. cut \<le> t) (times_of j (if ok then seen @ [(ip, now)] else seen))"
    proof (cases "j = ip")
      case True
      with lm' width show ?thesis by (intro exI [of _ ?cut]) (simp add: times_of_snoc)
    next
      case False
      with lm' old3 show ?thesis by (simp add: times_of_snoc)
    qed
  qed
qed

lemma login_calls_spec:
  assumes "sorted (map snd cs)" and "0 \<le> width"
  shows "login_calls \<lparr>ll_max = m, ll_window = width, ll_buckets = Map.empty\<rparr> cs = spec_calls m width [] cs"
proof -
  have "login_calls lm cs = spec_calls (ll_max lm) (ll_window lm) seen cs"
    if "represents lm seen t0" "sorted (t0 # map snd cs)" "0 \<le> ll_window lm" for lm seen t0
    using that
  proof (induction cs arbitrary: lm seen t0)
    case (Cons c cs)
    obtain ip now where c: "c = (ip, now)" by (cases c)
    obtain ok lm' where call: "check_and_record lm ip now = (ok, lm')" by fastforce
    have "t0 \<le> now" using Cons.prems(2) c by simp
    note impl = check_and_record_implements [OF Cons.prems(1) this Cons.prems(3) call]
    have "sorted (now # map snd cs)" using Cons.prems(2) c by simp
    with Cons.IH [OF impl(2) this] impl Cons.prems(3) show ?case by (simp add: c call)
  qed simp
  moreover have "represents \<lparr>ll_max = m, ll_window = width, ll_buckets = Map.empty\<rparr> [] t0" for t0
    by (auto simp: represents_def bucket_of_def times_of_def intro: exI [of _ "t0 - width"])
  moreover have "sorted (hd (map snd cs) # map snd cs)" using assms(1) by (cases cs) auto
  ultimately show ?thesis using assms(2) by fastforce
qed

text \<open>
  The deques of the login limiter implement the limiter that never forgets: for calls at
  times that do not run backwards, it gives the answers of the specification that keeps the
  whole log of admitted attempts, whatever addresses call in between.
\<close>

theorem login_limiter_refines:
  assumes "sorted (map snd cs)" and "0 \<le> width"
  shows "login_calls \<lparr>ll_max = m, ll_window = width, ll_buckets = Map.empty\<rparr> cs = spec_calls m width [] cs"
  by (rule login_calls_spec [OF assms])

theorem login_limiter_refines_witness:
  "login_calls \<lparr>ll_max = 1, ll_window = 300, ll_buckets = Map.empty\<rparr> [(''a'', 0), (''b'', 1), (''a'', 2)] =
     spec_calls 1 300 [] [(''a'', 0), (''b'', 1), (''a'', 2)]"
  by (rule login_limiter_refines) simp_all

text \<open>The specification's log is an admission log, so the locale's bound holds of every window.\<close>

definition login_transit :: "int \<Rightarrow> rat \<Rightarrow> (string \<times> rat) list \<Rightarrow> (string \<times> rat) list \<Rightarrow> bool" where
  "login_transit m width seen seen' \<longleftrightarrow> (\<exists>c. admits m width seen c \<and> seen' = seen @ [c])"

interpretation login_log: admission fst snd "\<lambda>_. False" "login_transit m width" "\<lambda>_. Some m" width gap
  for m width gap
  by unfold_locales (auto simp: login_transit_def admits_def)

definition admitted :: "bool list \<Rightarrow> (string \<times> rat) list \<Rightarrow> (string \<times> rat) list" where
  "admitted answers cs = map fst (filter snd (zip cs answers))"

lemma spec_admitted_windows:
  "login_log.windows m width seen \<Longrightarrow>
     login_log.windows m width (seen @ admitted (spec_calls m width seen cs) cs)"
proof (induction cs arbitrary: seen)
  case (Cons c cs)
  show ?case
  proof (cases "admits m width seen c")
    case True
    then have "login_log.windows m width (seen @ [c])"
      using login_log.windows_transit [OF _ Cons.prems, of "seen @ [c]"] unfolding login_transit_def by blast
    from Cons.IH [OF this] True show ?thesis by (simp add: admitted_def)
  next
    case False
    with Cons.IH [OF Cons.prems] show ?thesis by (simp add: admitted_def)
  qed
qed (simp add: admitted_def)

text \<open>
  No address gets more login attempts than the maximum in any stretch of time of the
  window's length, wherever it starts and whoever else calls, for calls at times that do not run
  backwards.
\<close>

theorem login_attempts_bounded:
  assumes "sorted (map snd cs)" and "0 \<le> width"
  shows "int (length (filter (\<lambda>c. fst c = ip \<and> t \<le> snd c \<and> snd c \<le> t + width)
      (admitted (login_calls \<lparr>ll_max = m, ll_window = width, ll_buckets = Map.empty\<rparr> cs) cs))) \<le> max 0 m"
proof -
  have "login_log.windows m width ([] @ admitted (spec_calls m width [] cs) cs)"
    by (rule spec_admitted_windows) (simp add: login_log.windows_def)
  from login_log.window_count [OF this refl, of ip t] login_calls_spec [OF assms]
  show ?thesis by simp
qed

theorem login_attempts_bounded_witness:
  "int (length (filter (\<lambda>c. fst c = ''a'' \<and> 0 \<le> snd c \<and> snd c \<le> 0 + 300)
      (admitted (login_calls \<lparr>ll_max = 1, ll_window = 300, ll_buckets = Map.empty\<rparr> [(''a'', 0), (''a'', 2)])
        [(''a'', 0), (''a'', 2)]))) \<le> max 0 1"
  by (rule login_attempts_bounded) simp_all

section \<open>Heartbeat pings\<close>

record bucket =
  tokens :: rat
  last_refill_at :: rat

record cron_limiter =
  cr_capacity :: rat
  cr_refill_per_second :: rat
  cr_buckets :: "string \<Rightarrow> bucket option"

text \<open>The constructor raises \<open>ValueError\<close> on a capacity or a rate that is not positive.\<close>

definition new_cron_limiter :: "int \<Rightarrow> rat \<Rightarrow> string + cron_limiter" where
  "new_cron_limiter capacity refill =
     (if capacity \<le> 0 then Inl ''capacity must be positive''
      else if refill \<le> 0 then Inl ''refill_per_second must be positive''
      else Inr \<lparr>cr_capacity = rat_of_int capacity, cr_refill_per_second = refill, cr_buckets = Map.empty\<rparr>)"

definition refilled :: "cron_limiter \<Rightarrow> string \<Rightarrow> rat \<Rightarrow> bucket" where
  "refilled lm cron_id now =
     (case cr_buckets lm cron_id of
        None \<Rightarrow> \<lparr>tokens = cr_capacity lm, last_refill_at = now\<rparr>
      | Some b \<Rightarrow>
          \<lparr>tokens = min (cr_capacity lm)
             (tokens b + max 0 (now - last_refill_at b) * cr_refill_per_second lm),
           last_refill_at = now\<rparr>)"

definition try_acquire :: "cron_limiter \<Rightarrow> string \<Rightarrow> rat \<Rightarrow> (bool \<times> rat) \<times> cron_limiter" where
  "try_acquire lm cron_id now =
     (let b = refilled lm cron_id now
      in if 1 \<le> tokens b
         then ((True, 0), lm\<lparr>cr_buckets := (cr_buckets lm)(cron_id \<mapsto> b\<lparr>tokens := tokens b - 1\<rparr>)\<rparr>)
         else ((False, (1 - tokens b) / cr_refill_per_second lm),
               lm\<lparr>cr_buckets := (cr_buckets lm)(cron_id \<mapsto> b)\<rparr>))"

definition reset_cron_limiter :: "cron_limiter \<Rightarrow> cron_limiter" where
  "reset_cron_limiter lm = lm\<lparr>cr_buckets := Map.empty\<rparr>"

fun cron_calls :: "cron_limiter \<Rightarrow> (string \<times> rat) list \<Rightarrow> bool list" where
  "cron_calls lm [] = []"
| "cron_calls lm ((c, now) # cs) = (case try_acquire lm c now of ((ok, _), lm') \<Rightarrow> ok # cron_calls lm' cs)"

text \<open>What the constructor establishes and every call keeps.\<close>

definition cron_limiter_ok :: "cron_limiter \<Rightarrow> bool" where
  "cron_limiter_ok lm \<longleftrightarrow> 1 \<le> cr_capacity lm \<and> 0 < cr_refill_per_second lm \<and>
     (\<forall>c b. cr_buckets lm c = Some b \<longrightarrow> 0 \<le> tokens b \<and> tokens b \<le> cr_capacity lm)"

lemma new_cron_limiter_ok: "new_cron_limiter cap rate = Inr lm \<Longrightarrow> cron_limiter_ok lm"
  by (auto simp: new_cron_limiter_def cron_limiter_ok_def split: if_splits)

lemma refilled_bounds:
  assumes "cron_limiter_ok lm"
  shows "0 \<le> tokens (refilled lm c now)" "tokens (refilled lm c now) \<le> cr_capacity lm"
  using assms by (auto simp: refilled_def cron_limiter_ok_def split: option.split)

lemma try_acquire_ok:
  assumes "cron_limiter_ok lm" "try_acquire lm c now = (r, lm')"
  shows "cron_limiter_ok lm'" "cr_capacity lm' = cr_capacity lm"
    "cr_refill_per_second lm' = cr_refill_per_second lm"
  using assms refilled_bounds [OF assms(1), of c now]
  by (auto simp: try_acquire_def cron_limiter_ok_def Let_def split: if_splits)

text \<open>The tokens a cron has at a time, counting the refill since its last call.\<close>

definition credit :: "cron_limiter \<Rightarrow> string \<Rightarrow> rat \<Rightarrow> rat" where
  "credit lm c t =
     (case cr_buckets lm c of
        None \<Rightarrow> cr_capacity lm
      | Some b \<Rightarrow> tokens b + max 0 (t - last_refill_at b) * cr_refill_per_second lm)"

definition behind :: "cron_limiter \<Rightarrow> rat \<Rightarrow> bool" where
  "behind lm t \<longleftrightarrow> (\<forall>c b. cr_buckets lm c = Some b \<longrightarrow> last_refill_at b \<le> t)"

lemma credit_step:
  assumes ok: "cron_limiter_ok lm" and b: "behind lm now" and le: "now \<le> t"
    and call: "try_acquire lm c now = ((got, wait), lm')"
  shows "credit lm' d t + (if d = c \<and> got then 1 else 0) \<le> credit lm d now + (t - now) * cr_refill_per_second lm"
    and "behind lm' now"
proof -
  have r: "0 < cr_refill_per_second lm" using ok by (simp add: cron_limiter_ok_def)
  then have r0: "0 \<le> (t - now) * cr_refill_per_second lm" using le by simp
  have new: "cr_buckets lm' = (cr_buckets lm)(c \<mapsto> (refilled lm c now)\<lparr>tokens := tokens (refilled lm c now) - (if got then 1 else 0)\<rparr>)"
    "cr_refill_per_second lm' = cr_refill_per_second lm" "cr_capacity lm' = cr_capacity lm"
    using call by (auto simp: try_acquire_def Let_def split: if_splits)
  have last: "last_refill_at (refilled lm c now) = now" by (simp add: refilled_def split: option.split)
  show "behind lm' now" using b last by (auto simp: behind_def new)
  have top: "tokens (refilled lm c now) \<le> credit lm c now"
    by (simp add: refilled_def credit_def split: option.split)
  show "credit lm' d t + (if d = c \<and> got then 1 else 0) \<le> credit lm d now + (t - now) * cr_refill_per_second lm"
  proof (cases "d = c")
    case True
    with top last le show ?thesis by (simp add: credit_def [of lm'] new)
  next
    case False
    show ?thesis
    proof (cases "cr_buckets lm d")
      case None
      with False r0 show ?thesis by (simp add: credit_def new)
    next
      case (Some q)
      with b have "last_refill_at q \<le> now" by (auto simp: behind_def)
      with False Some le show ?thesis by (simp add: credit_def new algebra_simps)
    qed
  qed
qed

lemma credit_wait:
  assumes "cron_limiter_ok lm" "behind lm t0" "t0 \<le> now"
  shows "credit lm d now \<le> credit lm d t0 + (now - t0) * cr_refill_per_second lm"
proof (cases "cr_buckets lm d")
  case None
  with assms show ?thesis by (simp add: credit_def cron_limiter_ok_def)
next
  case (Some b)
  with assms(2) have "last_refill_at b \<le> t0" by (auto simp: behind_def)
  with Some assms(3) show ?thesis by (simp add: credit_def algebra_simps)
qed

lemma cron_calls_bounded:
  assumes "cron_limiter_ok lm" "behind lm t0" "sorted (t0 # map snd cs)" "\<forall>c \<in> set cs. snd c \<le> t1" "t0 \<le> t1"
  shows "rat_of_nat (length (filter (\<lambda>c. fst c = d) (admitted (cron_calls lm cs) cs)))
     \<le> credit lm d t0 + (t1 - t0) * cr_refill_per_second lm"
  using assms
proof (induction cs arbitrary: lm t0)
  case Nil
  then have "0 \<le> credit lm d t0" "0 \<le> (t1 - t0) * cr_refill_per_second lm"
    by (auto simp: credit_def cron_limiter_ok_def split: option.split intro!: add_nonneg_nonneg)
  then show ?case by (simp add: admitted_def)
next
  case (Cons a cs)
  obtain c now where a: "a = (c, now)" by (cases a)
  obtain got wait lm' where call: "try_acquire lm c now = ((got, wait), lm')" by (metis prod.exhaust)
  have t: "t0 \<le> now" "now \<le> t1" "sorted (now # map snd cs)" using Cons.prems(3,4) a by auto
  have b: "behind lm now" using Cons.prems(2) t(1) by (force simp: behind_def)
  note ok' = try_acquire_ok [OF Cons.prems(1) call]
  have step: "credit lm' d now + (if d = c \<and> got then 1 else 0) \<le> credit lm d now"
    using credit_step(1) [OF Cons.prems(1) b order_refl call, of d] by simp
  have wait: "credit lm d now \<le> credit lm d t0 + (now - t0) * cr_refill_per_second lm"
    by (rule credit_wait [OF Cons.prems(1,2) t(1)])
  have "rat_of_nat (length (filter (\<lambda>c. fst c = d) (admitted (cron_calls lm' cs) cs)))
      \<le> credit lm' d now + (t1 - now) * cr_refill_per_second lm'"
    using Cons.prems(4) t by (intro Cons.IH ok'(1) credit_step(2) [OF Cons.prems(1) b order_refl call]) auto
  moreover have "(if d = c \<and> got then 1 else 0) + rat_of_nat (length (filter (\<lambda>c. fst c = d) (admitted (cron_calls lm' cs) cs)))
      = rat_of_nat (length (filter (\<lambda>c. fst c = d) (admitted (cron_calls lm (a # cs)) (a # cs))))"
    by (auto simp: a call admitted_def)
  moreover have "(now - t0) * cr_refill_per_second lm + (t1 - now) * cr_refill_per_second lm
      = (t1 - t0) * cr_refill_per_second lm" by (simp add: algebra_simps)
  ultimately show ?case using step wait unfolding ok'(3) by linarith
qed

text \<open>
  A runaway cron job cannot flood the receiver: from a fresh limiter, in any run of calls
  between two moments, the pings admitted for one cron are at most the capacity plus what the
  rate refills between them, whatever the other crons do.
\<close>

theorem heartbeat_rate_bounded:
  assumes "new_cron_limiter capacity rate = Inr lm"
    and "sorted (t0 # map snd cs)" and "\<forall>c \<in> set cs. snd c \<le> t1" and "t0 \<le> t1"
  shows "rat_of_nat (length (filter (\<lambda>c. fst c = d) (admitted (cron_calls lm cs) cs)))
     \<le> rat_of_int capacity + (t1 - t0) * rate"
proof -
  have "credit lm d t0 = rat_of_int capacity" "behind lm t0" "cr_refill_per_second lm = rate"
    using assms(1) by (auto simp: new_cron_limiter_def credit_def behind_def split: if_splits)
  with cron_calls_bounded [OF new_cron_limiter_ok [OF assms(1)] _ assms(2-4)] show ?thesis by metis
qed

theorem heartbeat_rate_bounded_witness:
  "rat_of_nat (length (filter (\<lambda>c. fst c = ''c'') (admitted (cron_calls
     \<lparr>cr_capacity = 1, cr_refill_per_second = 1, cr_buckets = Map.empty\<rparr> [(''c'', 0), (''c'', 1 / 2)])
     [(''c'', 0), (''c'', 1 / 2)]))) \<le> rat_of_int 1 + (1 - 0) * 1"
  by (rule heartbeat_rate_bounded) (simp_all add: new_cron_limiter_def)

text \<open>
  A refused ping is told when to come back, and that is enough: a call of the same cron that
  comes at least the announced delay later, with no call of it in between, is admitted.
\<close>

theorem retry_after_suffices:
  assumes "cron_limiter_ok lm" and "try_acquire lm c now = ((False, wait), lm')" and "now + wait \<le> later"
  shows "0 < wait \<and> fst (try_acquire lm' c later) = (True, 0)"
proof -
  let ?b = "refilled lm c now" and ?r = "cr_refill_per_second lm"
  have r: "0 < ?r" "1 \<le> cr_capacity lm" using assms(1) by (auto simp: cron_limiter_ok_def)
  have b: "tokens ?b < 1" "wait = (1 - tokens ?b) / ?r" "cr_buckets lm' c = Some ?b" "cr_refill_per_second lm' = ?r"
    "cr_capacity lm' = cr_capacity lm"
    using assms(2) by (auto simp: try_acquire_def Let_def split: if_splits)
  have w: "0 < wait" "wait * ?r = 1 - tokens ?b" using b(1,2) r(1) by auto
  have last: "last_refill_at ?b = now" by (simp add: refilled_def split: option.split)
  have "wait * ?r \<le> (later - now) * ?r" using assms(3) r(1) by (intro mult_right_mono) auto
  with w assms(3) r(2) last have "1 \<le> tokens (refilled lm' c later)"
    by (simp add: refilled_def b)
  with w(1) show ?thesis by (simp add: try_acquire_def Let_def)
qed

theorem retry_after_suffices_witness:
  "0 < (1 :: rat) \<and> fst (try_acquire \<lparr>cr_capacity = 1, cr_refill_per_second = 1,
     cr_buckets = [''c'' \<mapsto> \<lparr>tokens = 0, last_refill_at = 0\<rparr>]\<rparr> ''c'' 1) = (True, 0)"
  by (rule retry_after_suffices [where lm = "\<lparr>cr_capacity = 1, cr_refill_per_second = 1,
      cr_buckets = [''c'' \<mapsto> \<lparr>tokens = 0, last_refill_at = 0\<rparr>]\<rparr>" and now = 0])
    (simp_all add: cron_limiter_ok_def try_acquire_def refilled_def Let_def)

end
