(* ===== verification/Pin.thy ===== *)
theory Pin
  imports Prelude Limiters
begin

text \<open>
  The confirmation PIN of destructive actions (kernel/security/pin.py): the failure limiter with
  its progressive lockout, the hash guard and the credential check of the endpoints.  Seconds
  are rationals (float rounding is not modelled); bcrypt is a parameter of the environment.
\<close>

section \<open>The failure limiter\<close>

record pin_config =
  pc_window :: rat
  pc_curve :: "(int \<times> rat) list"

definition default_pin_rate_limit :: pin_config where
  "default_pin_rate_limit = \<lparr>pc_window = 900, pc_curve = [(3, 5), (4, 30), (5, 300)]\<rparr>"

type_synonym pin_buckets = "int \<Rightarrow> rat list option"

definition pruned :: "pin_config \<Rightarrow> rat \<Rightarrow> rat list \<Rightarrow> rat list" where
  "pruned cfg now b = dropWhile (\<lambda>t. t < now - pc_window cfg) b"

lemma pruned_Nil [simp]: "pruned cfg now [] = []"
  by (simp add: pruned_def)

text \<open>The loops over the reversed curve stop at the first tier that is reached.\<close>

definition tier :: "pin_config \<Rightarrow> nat \<Rightarrow> rat option" where
  "tier cfg n = map_option snd (find (\<lambda>(threshold, _). threshold \<le> int n) (rev (pc_curve cfg)))"

definition pin_check :: "pin_config \<Rightarrow> pin_buckets \<Rightarrow> int \<Rightarrow> rat \<Rightarrow> int option \<times> pin_buckets" where
  "pin_check cfg buckets user now =
     (case buckets user of
        None \<Rightarrow> (None, buckets)
      | Some bucket \<Rightarrow>
          (let kept = pruned cfg now bucket
           in (if kept = [] then None
               else (case tier cfg (length kept) of
                       None \<Rightarrow> None
                     | Some lockout \<Rightarrow>
                         (let remaining = lockout - (now - last kept)
                          in if 0 < remaining then Some (max 1 \<lceil>remaining\<rceil>) else None)),
               buckets(user \<mapsto> kept))))"

text \<open>\<open>int(x)\<close> of a float: towards zero.\<close>

definition int_of_float :: "rat \<Rightarrow> int" where
  "int_of_float x = (if x < 0 then \<lceil>x\<rceil> else \<lfloor>x\<rfloor>)"

definition pin_record_failure :: "pin_config \<Rightarrow> pin_buckets \<Rightarrow> int \<Rightarrow> rat \<Rightarrow> int option \<times> pin_buckets" where
  "pin_record_failure cfg buckets user now =
     (let bucket = (case buckets user of None \<Rightarrow> [] | Some b \<Rightarrow> b);
          kept = pruned cfg now (bucket @ [now])
      in (map_option int_of_float (tier cfg (length kept)), buckets(user \<mapsto> kept)))"

definition pin_record_success :: "pin_buckets \<Rightarrow> int \<Rightarrow> pin_buckets" where
  "pin_record_success buckets user = (if user \<in> dom buckets then buckets(user \<mapsto> []) else buckets)"

definition pin_reset :: "pin_buckets \<Rightarrow> int \<Rightarrow> pin_buckets" where
  "pin_reset buckets user = pin_record_success buckets user"

section \<open>Hashing\<close>

text \<open>\<open>PIN_PATTERN.fullmatch\<close>: four to twelve ASCII digits and nothing after them.\<close>

definition pin_format_ok :: "string \<Rightarrow> bool" where
  "pin_format_ok pin = (4 \<le> length pin \<and> length pin \<le> 12 \<and> list_all is_digit pin)"

definition hash_pin :: "(string \<Rightarrow> string) \<Rightarrow> string \<Rightarrow> string + string" where
  "hash_pin hashpw pin = (if pin_format_ok pin then Inr (hashpw pin) else Inl ''PIN must be 4-12 digits'')"

text \<open>An exception of bcrypt (\<open>None\<close>) counts as a mismatch.\<close>

definition verify_pin :: "(string \<Rightarrow> string \<Rightarrow> bool option) \<Rightarrow> string \<Rightarrow> string \<Rightarrow> bool" where
  "verify_pin checkpw pin h = (case checkpw pin h of None \<Rightarrow> False | Some b \<Rightarrow> b)"

section \<open>The credential check\<close>

datatype credential_type = CredPin | CredPhrase
datatype phrase_match_mode = EXACT | CASE_FOLD

text \<open>\<open>HTTPException\<close>: status, detail, the value of the \<open>Retry-After\<close> header.\<close>

datatype http_error = HTTPException int string "int option"

record pin_store =
  ps_settings :: "(string \<times> string) list"
  ps_buckets :: pin_buckets

record pin_env = "pin_store env" +
  mono_s :: "nat \<Rightarrow> rat"
  checkpw :: "string \<Rightarrow> string \<Rightarrow> bool option"

text \<open>
  \<open>str.casefold()\<close> on the code points below 256: lower case, and the sharp s spelled out.  The
  micro sign folds to a letter outside the range, which no other folded text holds, so keeping
  it in place decides the same comparisons.
\<close>

definition casefold :: "string \<Rightarrow> string" where
  "casefold s = concat (map (\<lambda>c. if (of_char c :: nat) = 223 then ''ss'' else [lower_char c]) s)"

definition phrase_matches :: "phrase_match_mode \<Rightarrow> string \<Rightarrow> string \<Rightarrow> bool" where
  "phrase_matches mode phrase expected =
     (case mode of
        EXACT \<Rightarrow> phrase = expected
      | CASE_FOLD \<Rightarrow> casefold (strip phrase) = casefold (strip expected))"

definition set_buckets :: "pin_buckets \<Rightarrow> pin_store \<Rightarrow> pin_store" where
  "set_buckets b s = s\<lparr>ps_buckets := b\<rparr>"

text \<open>The lockout check, before the hash is read; there is no await in it.\<close>

definition check_lockout :: "pin_env \<Rightarrow> pin_config \<Rightarrow> int \<Rightarrow> (pin_store, 'e, int option) prog" where
  "check_lockout env cfg user =
     bindP (ask (mono_s env)) (\<lambda>now.
     bindP (getS (\<lambda>s. pin_check cfg (ps_buckets s) user now)) (\<lambda>(locked, buckets).
     seqP (modS (set_buckets buckets)) (ret locked)))"

text \<open>The guess itself, once the hash is at hand.\<close>

definition guess_pin ::
  "pin_env \<Rightarrow> pin_config \<Rightarrow> int \<Rightarrow> string \<Rightarrow> string \<Rightarrow> (pin_store, 'e, http_error + credential_type) prog" where
  "guess_pin env cfg user pin pin_hash =
     (if \<not> verify_pin (checkpw env) pin pin_hash then
        bindP (ask (mono_s env)) (\<lambda>now.
        seqP (modS (\<lambda>s. set_buckets (snd (pin_record_failure cfg (ps_buckets s) user now)) s))
          (ret (Inl (HTTPException 400 ''PIN incorrect.'' None))))
      else seqP (modS (\<lambda>s. set_buckets (pin_record_success (ps_buckets s) user) s)) (ret (Inr CredPin)))"

definition verify_destructive_credential ::
  "pin_env \<Rightarrow> pin_config \<Rightarrow> string option \<Rightarrow> string option \<Rightarrow> string \<Rightarrow> phrase_match_mode \<Rightarrow> int \<Rightarrow>
   (pin_store, 'e, http_error + credential_type) prog" where
  "verify_destructive_credential env cfg confirm_pin confirm_phrase expected mode user =
     (case (confirm_pin, confirm_phrase) of
        (Some _, Some _) \<Rightarrow>
          ret (Inl (HTTPException 400 ''supply either confirm_pin or confirm_phrase, not both'' None))
      | (Some pin, None) \<Rightarrow>
          bindP (check_lockout env cfg user) (\<lambda>locked.
          case locked of
            Some retry_after \<Rightarrow>
              ret (Inl (HTTPException 429
                     (''PIN entry locked. Try again in '' @ str_of_int retry_after @ ''s.'') (Some retry_after)))
          | None \<Rightarrow>
              bindP (fetch env (\<lambda>s. map_of (ps_settings s) ''security.pin_hash'')) (\<lambda>stored.
              case stored of
                None \<Rightarrow>
                  ret (Inl (HTTPException 400 ''No PIN configured; supply confirm_phrase or configure a PIN.'' None))
              | Some pin_hash \<Rightarrow> guess_pin env cfg user pin pin_hash))
      | (None, Some phrase) \<Rightarrow>
          if phrase_matches mode phrase expected then ret (Inr CredPhrase)
          else ret (Inl (HTTPException 400 (''confirm_phrase must equal '' @ [CHR 0x27] @ expected @ [CHR 0x27]) None))
      | (None, None) \<Rightarrow>
          ret (Inl (HTTPException 400
                 ''missing confirmation credential (confirm_pin or confirm_phrase required)'' None)))"

section \<open>Guesses that do not overlap\<close>

text \<open>
  Attempts with a wrong PIN, one after the other: the user, the moment of the lockout check and
  the moment the failure is recorded.  The result is the log of the guesses that were evaluated.
\<close>

fun wrong_guesses :: "pin_config \<Rightarrow> pin_buckets \<Rightarrow> (int \<times> rat \<times> rat) list \<Rightarrow> (int \<times> rat) list" where
  "wrong_guesses cfg buckets [] = []"
| "wrong_guesses cfg buckets ((user, t, t') # as) =
     (case pin_check cfg buckets user t of
        (Some _, buckets') \<Rightarrow> wrong_guesses cfg buckets' as
      | (None, buckets') \<Rightarrow> (user, t') # wrong_guesses cfg (snd (pin_record_failure cfg buckets' user t')) as)"

fun in_order :: "rat \<Rightarrow> (int \<times> rat \<times> rat) list \<Rightarrow> bool" where
  "in_order t0 [] = True"
| "in_order t0 ((user, t, t') # as) = (t0 \<le> t \<and> t \<le> t' \<and> in_order t' as)"

definition entries :: "pin_buckets \<Rightarrow> int \<Rightarrow> rat list" where
  "entries buckets user = (case buckets user of None \<Rightarrow> [] | Some b \<Rightarrow> b)"

text \<open>A bucket is what the window of the last call left of the user's failures.\<close>

definition remembers :: "pin_config \<Rightarrow> pin_buckets \<Rightarrow> (int \<times> rat) list \<Rightarrow> rat \<Rightarrow> bool" where
  "remembers cfg buckets fails now \<longleftrightarrow>
     (\<forall>u. sorted (times_of u fails) \<and> (\<forall>t \<in> set (times_of u fails). t \<le> now) \<and>
        (\<exists>cut \<le> now - pc_window cfg. entries buckets u = filter (\<lambda>t. cut \<le> t) (times_of u fails)))"

definition recent :: "pin_config \<Rightarrow> (int \<times> rat) list \<Rightarrow> int \<Rightarrow> rat \<Rightarrow> rat list" where
  "recent cfg fails u now = filter (\<lambda>t. now - pc_window cfg \<le> t) (times_of u fails)"

lemma remembers_pruned:
  assumes "remembers cfg buckets fails t0" "t0 \<le> now"
  shows "pruned cfg now (entries buckets u) = recent cfg fails u now"
proof -
  obtain cut where cut: "cut \<le> t0 - pc_window cfg" "entries buckets u = filter (\<lambda>t. cut \<le> t) (times_of u fails)"
    and "sorted (times_of u fails)" using assms(1) by (auto simp: remembers_def)
  then have "pruned cfg now (entries buckets u) = filter (\<lambda>t. now - pc_window cfg \<le> t) (entries buckets u)"
    unfolding pruned_def by (intro dropWhile_sorted) (simp add: cut(2) sorted_wrt_filter)
  also have "\<dots> = recent cfg fails u now"
    unfolding cut(2) recent_def filter_filter using cut(1) assms(2) by (intro filter_cong) auto
  finally show ?thesis .
qed

lemma remembers_later:
  assumes "remembers cfg buckets fails t0" "t0 \<le> now"
  shows "remembers cfg buckets fails now"
  unfolding remembers_def
proof
  fix u
  obtain cut where "cut \<le> t0 - pc_window cfg" "entries buckets u = filter (\<lambda>t. cut \<le> t) (times_of u fails)"
    using assms(1) by (auto simp: remembers_def)
  with assms(2) have "\<exists>cut \<le> now - pc_window cfg. entries buckets u = filter (\<lambda>t. cut \<le> t) (times_of u fails)"
    by (intro exI [of _ cut]) simp
  moreover have "sorted (times_of u fails)" "\<forall>t \<in> set (times_of u fails). t \<le> now"
    using assms by (force simp: remembers_def)+
  ultimately show "sorted (times_of u fails) \<and> (\<forall>t \<in> set (times_of u fails). t \<le> now) \<and>
      (\<exists>cut \<le> now - pc_window cfg. entries buckets u = filter (\<lambda>t. cut \<le> t) (times_of u fails))" by blast
qed

lemma remembers_update:
  assumes "remembers cfg buckets fails now"
    and "\<And>u. u \<noteq> user \<Longrightarrow> times_of u fails' = times_of u fails"
    and "sorted (times_of user fails')" "\<forall>t \<in> set (times_of user fails'). t \<le> now"
  shows "remembers cfg (buckets(user \<mapsto> recent cfg fails' user now)) fails' now"
  unfolding remembers_def
proof
  fix u
  show "sorted (times_of u fails') \<and> (\<forall>t \<in> set (times_of u fails'). t \<le> now) \<and>
      (\<exists>cut \<le> now - pc_window cfg. entries (buckets(user \<mapsto> recent cfg fails' user now)) u =
        filter (\<lambda>t. cut \<le> t) (times_of u fails'))"
  proof (cases "u = user")
    case True
    with assms(3,4) show ?thesis by (auto simp: entries_def recent_def)
  next
    case False
    with assms(1,2) show ?thesis by (simp add: remembers_def entries_def)
  qed
qed

text \<open>The lockout after so many recent failures, zero below the first tier.\<close>

definition lockout :: "pin_config \<Rightarrow> nat \<Rightarrow> rat" where
  "lockout cfg n = (case tier cfg n of None \<Rightarrow> 0 | Some l \<Rightarrow> l)"

lemma check_result:
  assumes rep: "remembers cfg buckets fails t0" and le: "t0 \<le> now"
  shows "fst (pin_check cfg buckets user now) =
     (let r = recent cfg fails user now; rest = lockout cfg (length r) - (now - last r)
      in if r = [] \<or> tier cfg (length r) = None \<or> rest \<le> 0 then None else Some (max 1 \<lceil>rest\<rceil>))"
    and "remembers cfg (snd (pin_check cfg buckets user now)) fails now"
proof -
  have p: "pruned cfg now (entries buckets user) = recent cfg fails user now"
    by (rule remembers_pruned [OF rep le])
  have rep': "remembers cfg buckets fails now" by (rule remembers_later [OF rep le])
  show "fst (pin_check cfg buckets user now) =
     (let r = recent cfg fails user now; rest = lockout cfg (length r) - (now - last r)
      in if r = [] \<or> tier cfg (length r) = None \<or> rest \<le> 0 then None else Some (max 1 \<lceil>rest\<rceil>))"
    using p by (auto simp: pin_check_def entries_def lockout_def Let_def split: option.splits)
  show "remembers cfg (snd (pin_check cfg buckets user now)) fails now"
    using rep' remembers_update [OF rep', of user fails] p
    by (cases "buckets user") (auto simp: pin_check_def entries_def Let_def remembers_def)
qed

lemma failure_result:
  assumes rep: "remembers cfg buckets fails t0" and le: "t0 \<le> now" and w: "0 \<le> pc_window cfg"
  shows "remembers cfg (snd (pin_record_failure cfg buckets user now)) (fails @ [(user, now)]) now"
proof -
  obtain cut where cut: "cut \<le> t0 - pc_window cfg" "entries buckets user = filter (\<lambda>t. cut \<le> t) (times_of user fails)"
    and s: "sorted (times_of user fails)" "\<forall>t \<in> set (times_of user fails). t \<le> t0" using rep by (auto simp: remembers_def)
  have s': "sorted (times_of user fails @ [now])" using s le by (auto simp: sorted_append)
  have "sorted (entries buckets user @ [now])" using s le unfolding cut(2) by (auto simp: sorted_append sorted_wrt_filter)
  then have "pruned cfg now (entries buckets user @ [now]) =
      filter (\<lambda>t. now - pc_window cfg \<le> t) (entries buckets user @ [now])"
    unfolding pruned_def by (rule dropWhile_sorted)
  also have "\<dots> = recent cfg (fails @ [(user, now)]) user now"
    unfolding cut(2) recent_def using cut(1) le by (auto simp: times_of_snoc intro!: filter_cong)
  finally have "snd (pin_record_failure cfg buckets user now) =
      buckets(user \<mapsto> recent cfg (fails @ [(user, now)]) user now)"
    by (simp add: pin_record_failure_def entries_def Let_def)
  with remembers_update [OF remembers_later [OF rep le], of user "fails @ [(user, now)]"] s s' le
  show ?thesis by (force simp: times_of_snoc)
qed

text \<open>
  A log is spaced when every failure came at least the lockout of the recent failures before it
  after the last of them.
\<close>

definition spaced_fails :: "pin_config \<Rightarrow> (int \<times> rat) list \<Rightarrow> bool" where
  "spaced_fails cfg fails \<longleftrightarrow>
     (\<forall>u n. n < length (times_of u fails) \<longrightarrow>
        (let ts = take n (times_of u fails); x = times_of u fails ! n;
             r = filter (\<lambda>t. x - pc_window cfg \<le> t) ts
         in r \<noteq> [] \<longrightarrow> lockout cfg (length r) \<le> x - last ts))"

text \<open>A curve whose lockouts do not shrink with the count.\<close>

definition rising :: "pin_config \<Rightarrow> bool" where
  "rising cfg \<longleftrightarrow> (\<forall>m n. m \<le> n \<longrightarrow> lockout cfg m \<le> lockout cfg n)"

lemma lockout_default:
  "lockout default_pin_rate_limit n = (if 5 \<le> n then 300 else if 4 \<le> n then 30 else if 3 \<le> n then 5 else 0)"
  by (simp add: lockout_def tier_def default_pin_rate_limit_def)

lemma rising_default: "rising default_pin_rate_limit"
  by (auto simp: rising_def lockout_default)

lemma sorted_le_last: "sorted xs \<Longrightarrow> x \<in> set xs \<Longrightarrow> x \<le> last (xs :: rat list)"
  by (induction xs rule: rev_induct) (auto simp: sorted_append)

lemma last_dropWhile_same: "dropWhile P xs \<noteq> [] \<Longrightarrow> last (dropWhile P xs) = last xs"
  by (metis last_appendR takeWhile_dropWhile_id)

lemma last_filter_last: "filter P xs \<noteq> [] \<Longrightarrow> P (last xs) \<Longrightarrow> last (filter P xs) = last xs"
  by (induction xs rule: rev_induct) auto

lemma spaced_snoc:
  assumes sp: "spaced_fails cfg fails" and rise: "rising cfg" and w: "0 \<le> pc_window cfg"
    and rep: "remembers cfg buckets fails t0" and le: "t0 \<le> t" "t \<le> t'"
    and pass: "fst (pin_check cfg buckets user t) = None"
  shows "spaced_fails cfg (fails @ [(user, t')])"
proof -
  let ?ts = "times_of user fails"
  have sorted: "sorted ?ts" "\<forall>x \<in> set ?ts. x \<le> t0" using rep by (auto simp: remembers_def)
  have new: "lockout cfg (length r) \<le> t' - last ?ts"
    if r: "r = filter (\<lambda>x. t' - pc_window cfg \<le> x) ?ts" "r \<noteq> []" for r
  proof -
    let ?q = "recent cfg fails user t"
    have sub: "length r \<le> length ?q"
      unfolding r(1) recent_def using le by (intro length_filter_mono) auto
    obtain x where x: "x \<in> set ?ts" "t' - pc_window cfg \<le> x" using r by (auto simp: filter_empty_conv)
    then have "?ts \<noteq> []" by auto
    have "x \<le> last ?ts" using sorted(1) x(1) by (rule sorted_le_last)
    then have "t - pc_window cfg \<le> last ?ts" using x(2) le by simp
    moreover have ne: "?q \<noteq> []" using sub r(2) by auto
    ultimately have last: "last ?q = last ?ts" unfolding recent_def by (intro last_filter_last) (auto simp: recent_def)
    have "last ?ts \<le> t" using sorted(2) \<open>?ts \<noteq> []\<close> le(1) last_in_set by (metis order_trans)
    with pass ne last have "lockout cfg (length ?q) \<le> t - last ?ts"
      by (auto simp: check_result(1) [OF rep le(1)] Let_def lockout_def split: if_splits option.splits)
    moreover have "lockout cfg (length r) \<le> lockout cfg (length ?q)" using rise sub by (simp add: rising_def)
    ultimately show ?thesis using le(2) by linarith
  qed
  have "(let ts = take n (times_of u (fails @ [(user, t')])); x = times_of u (fails @ [(user, t')]) ! n;
             r = filter (\<lambda>t. x - pc_window cfg \<le> t) ts
         in r \<noteq> [] \<longrightarrow> lockout cfg (length r) \<le> x - last ts)"
    if n: "n < length (times_of u (fails @ [(user, t')]))" for u n
  proof (cases "u = user \<and> n = length ?ts")
    case True
    with new show ?thesis by (simp add: times_of_snoc Let_def)
  next
    case False
    with n have n': "n < length (times_of u fails)" by (auto simp: times_of_snoc split: if_splits)
    then have "take n (times_of u (fails @ [(user, t')])) = take n (times_of u fails)"
      "times_of u (fails @ [(user, t')]) ! n = times_of u fails ! n" by (auto simp: times_of_snoc nth_append)
    with sp n' show ?thesis unfolding spaced_fails_def by metis
  qed
  then show ?thesis by (simp add: spaced_fails_def)
qed

lemma wrong_guesses_spaced:
  assumes "rising cfg" "0 \<le> pc_window cfg" "remembers cfg buckets fails t0" "spaced_fails cfg fails" "in_order t0 as"
  shows "spaced_fails cfg (fails @ wrong_guesses cfg buckets as) \<and>
    (\<forall>u. sorted (times_of u (fails @ wrong_guesses cfg buckets as)))"
  using assms(3-5)
proof (induction as arbitrary: buckets fails t0)
  case (Cons a as)
  obtain user t t' where a: "a = (user, t, t')" by (cases a)
  obtain locked b where c: "pin_check cfg buckets user t = (locked, b)" by fastforce
  have le: "t0 \<le> t" "t \<le> t'" "in_order t' as" using Cons.prems(3) a by auto
  have rep: "remembers cfg b fails t" using check_result(2) [OF Cons.prems(1) le(1), of user] c by simp
  show ?case
  proof (cases locked)
    case (Some r)
    have "in_order t as" using le by (cases as) auto
    from Cons.IH [OF rep Cons.prems(2) this] show ?thesis by (simp add: a c Some)
  next
    case None
    have "spaced_fails cfg (fails @ [(user, t')])"
      by (rule spaced_snoc [OF Cons.prems(2) assms(1,2) Cons.prems(1) le(1,2)]) (simp add: c None)
    from Cons.IH [OF failure_result [OF rep le(2) assms(2), of user] this le(3)]
    show ?thesis by (simp add: a c None)
  qed
qed (auto simp: remembers_def)

text \<open>How far the last of so many failures lies from the start of a window that holds them.\<close>

fun reach :: "pin_config \<Rightarrow> nat \<Rightarrow> rat" where
  "reach cfg 0 = 0"
| "reach cfg (Suc 0) = 0"
| "reach cfg (Suc (Suc n)) = reach cfg (Suc n) + lockout cfg (Suc n)"

lemma spaced_reach:
  assumes sp: "\<And>n. n < length ts \<Longrightarrow> filter (\<lambda>t. ts ! n - pc_window cfg \<le> t) (take n ts) \<noteq> [] \<Longrightarrow>
      lockout cfg (length (filter (\<lambda>t. ts ! n - pc_window cfg \<le> t) (take n ts))) \<le> ts ! n - last (take n ts)"
    and rise: "rising cfg" and sorted: "sorted ts"
    and S: "S = filter (\<lambda>t. T \<le> t \<and> t \<le> T + pc_window cfg) ts" "S \<noteq> []"
  shows "reach cfg (length S) \<le> last S - T"
  using assms(1,3-5)
proof (induction ts arbitrary: S rule: rev_induct)
  case (snoc x ts)
  let ?S = "filter (\<lambda>t. T \<le> t \<and> t \<le> T + pc_window cfg) ts"
  have IH: "reach cfg (length ?S) \<le> last ?S - T" if "?S \<noteq> []"
  proof (rule snoc.IH [OF _ _ refl that])
    show "sorted ts" using snoc.prems(2) by (simp add: sorted_append)
    show "lockout cfg (length (filter (\<lambda>t. ts ! n - pc_window cfg \<le> t) (take n ts))) \<le> ts ! n - last (take n ts)"
      if "n < length ts" "filter (\<lambda>t. ts ! n - pc_window cfg \<le> t) (take n ts) \<noteq> []" for n
      using snoc.prems(1) [of n] that by (simp add: nth_append)
  qed
  show ?case
  proof (cases "T \<le> x \<and> x \<le> T + pc_window cfg")
    case True
    then have S: "S = ?S @ [x]" using snoc.prems(3) by simp
    show ?thesis
    proof (cases "?S = []")
      case True
      with S \<open>T \<le> x \<and> x \<le> T + pc_window cfg\<close> show ?thesis by simp
    next
      case False
      let ?r = "filter (\<lambda>t. x - pc_window cfg \<le> t) ts"
      have sub: "length ?S \<le> length ?r" using True by (intro length_filter_mono) auto
      then have "?r \<noteq> []" using False by (cases ?r) simp_all
      then have "lockout cfg (length ?r) \<le> x - last ts" using snoc.prems(1) [of "length ts"] by simp
      moreover have "lockout cfg (length ?S) \<le> lockout cfg (length ?r)" using rise sub by (simp add: rising_def)
      moreover have "last ?S \<le> last ts"
        using snoc.prems(2) last_in_set [OF False] by (intro sorted_le_last) (simp_all add: sorted_append)
      moreover obtain k where "length ?S = Suc k" using False by (cases "length ?S") auto
      ultimately show ?thesis using IH [OF False] S by simp
    qed
  next
    case False
    with snoc.prems(3,4) IH show ?thesis by auto
  qed
qed simp

lemma reach_mono: "m \<le> n \<Longrightarrow> reach default_pin_rate_limit m \<le> reach default_pin_rate_limit n"
proof (induction n)
  case (Suc n)
  have "reach default_pin_rate_limit n \<le> reach default_pin_rate_limit (Suc n)"
    by (cases n) (simp_all add: lockout_default)
  with Suc show ?case by (cases "m = Suc n") auto
qed simp

lemma reach_8: "reach default_pin_rate_limit 8 = 935"
  by (simp add: numeral_eq_Suc lockout_default)



text \<open>
  A lockout says how long it lasts and ends then: a check that refuses names at least one
  second, and once that time has passed without another failure, the user may guess again.
\<close>

theorem lockout_ends:
  assumes "fst (pin_check cfg buckets user now) = Some retry_after" and "now + rat_of_int retry_after \<le> later"
    and "rising cfg"
  shows "1 \<le> retry_after \<and>
    fst (pin_check cfg (snd (pin_check cfg buckets user now)) user later) = None"
proof -
  obtain b where b: "buckets user = Some b" using assms(1) by (auto simp: pin_check_def split: option.splits)
  let ?kept = "pruned cfg now b" and ?later = "pruned cfg later (pruned cfg now b)"
  obtain l where l: "?kept \<noteq> []" "tier cfg (length ?kept) = Some l" "0 < l - (now - last ?kept)"
    "retry_after = max 1 \<lceil>l - (now - last ?kept)\<rceil>"
    using assms(1) by (auto simp: pin_check_def b Let_def split: option.splits if_splits)
  have "l - (now - last ?kept) \<le> rat_of_int retry_after" using l(4) by (simp add: ceiling_le_iff le_max_iff_disj) linarith
  with assms(2) have over: "l \<le> later - last ?kept" by linarith
  have suffix: "length ?later \<le> length ?kept" "?later \<noteq> [] \<Longrightarrow> last ?later = last ?kept"
    unfolding pruned_def by (simp_all add: length_dropWhile_le last_dropWhile_same)
  have "lockout cfg (length ?later) \<le> l"
    using assms(3) suffix(1) l(2) unfolding rising_def lockout_def by (metis option.simps(5))
  with over suffix(2) have "fst (pin_check cfg (buckets(user \<mapsto> ?kept)) user later) = None"
    by (auto simp: pin_check_def Let_def lockout_def split: option.splits)
  moreover have "snd (pin_check cfg buckets user now) = buckets(user \<mapsto> ?kept)" by (simp add: pin_check_def b Let_def)
  ultimately show ?thesis using l(4) by simp
qed

theorem lockout_ends_witness:
  "1 \<le> (5 :: int) \<and> fst (pin_check default_pin_rate_limit
     (snd (pin_check default_pin_rate_limit [1 \<mapsto> [0, 0, 0]] 1 0)) 1 5) = None"
proof (rule lockout_ends)
  show "fst (pin_check default_pin_rate_limit [1 \<mapsto> [0, 0, 0]] 1 0) = Some 5"
    by (simp add: pin_check_def pruned_def tier_def default_pin_rate_limit_def Let_def)
qed (simp_all add: rising_default)

section \<open>The credential check\<close>

lemma run_check_lockout:
  "check_lockout env cfg user w =
     (Inr (fst (pin_check cfg (ps_buckets (shared w)) user (mono_s env (ticks w)))),
      w\<lparr>shared := set_buckets (snd (pin_check cfg (ps_buckets (shared w)) user (mono_s env (ticks w)))) (shared w),
        ticks := Suc (ticks w)\<rparr>)"
  by (simp add: check_lockout_def bindP_def seqP_def run_simps split: prod.split)

lemma run_guess_pin:
  "fst (guess_pin env cfg user pin h w) =
     Inr (if verify_pin (checkpw env) pin h then Inr CredPin else Inl (HTTPException 400 ''PIN incorrect.'' None))"
  by (simp add: guess_pin_def bindP_def seqP_def run_simps)

text \<open>The moment the hash is read: after the lockout check and one suspension.\<close>

definition hash_read :: "pin_env \<Rightarrow> pin_config \<Rightarrow> int \<Rightarrow> (pin_store, 'e) world \<Rightarrow> string option" where
  "hash_read env cfg user w =
     map_of (ps_settings (shared (entered env (snd (check_lockout env cfg user w))))) ''security.pin_hash''"

text \<open>
  A destructive action is confirmed only by one credential and only if it is the right one:
  a PIN, with no phrase beside it, when the user is not locked out and bcrypt accepts it for the
  stored hash, or the phrase, with no PIN beside it, when it is the expected one.
\<close>

theorem credential_accepted_iff:
  "fst (verify_destructive_credential env cfg pin phrase expected mode user w) = Inr (Inr cred) \<longleftrightarrow>
     (case cred of
        CredPin \<Rightarrow> phrase = None \<and>
          (\<exists>p h. pin = Some p \<and> hash_read env cfg user w = Some h \<and> checkpw env p h = Some True) \<and>
          fst (pin_check cfg (ps_buckets (shared w)) user (mono_s env (ticks w))) = None
      | CredPhrase \<Rightarrow> pin = None \<and> (\<exists>q. phrase = Some q \<and> phrase_matches mode q expected))"
proof (cases pin)
  case None
  then show ?thesis
    by (cases phrase; cases cred) (simp_all add: verify_destructive_credential_def run_simps)
next
  case (Some p)
  show ?thesis
  proof (cases phrase)
    case None
    show ?thesis
      using Some None
      by (cases "fst (pin_check cfg (ps_buckets (shared w)) user (mono_s env (ticks w)))";
          cases "hash_read env cfg user w"; cases cred)
        (auto simp: verify_destructive_credential_def bindP_def run_check_lockout run_fetch run_guess_pin
          run_simps hash_read_def verify_pin_def split: option.splits if_splits)
  next
    case (Some q)
    with \<open>pin = Some p\<close> show ?thesis
      by (cases cred) (simp_all add: verify_destructive_credential_def run_simps)
  qed
qed

section \<open>Guesses that overlap\<close>

text \<open>
  The lockout is checked before the await that reads the hash, the failure is recorded after it.
  \<open>crowd\<close> is what other requests of the same user do during that await: each records one wrong
  guess, for which it too had passed the check before.
\<close>

definition crowd :: "nat \<Rightarrow> int \<Rightarrow> rat \<Rightarrow> pin_store \<Rightarrow> pin_store" where
  "crowd n user t = (\<lambda>s. set_buckets (snd (pin_record_failure default_pin_rate_limit (ps_buckets s) user t)) s) ^^ n"

definition crowded :: "nat \<Rightarrow> int \<Rightarrow> pin_env" where
  "crowded n user =
     \<lparr>other = (\<lambda>_. crowd n user 0), fault = (\<lambda>_. None), clock = (\<lambda>_. 0), uuid = (\<lambda>_. []),
      mono_s = (\<lambda>_. 0), checkpw = (\<lambda>_ _. Some False)\<rparr>"

definition pin_world :: "(pin_store, unit) world" where
  "pin_world = \<lparr>shared = \<lparr>ps_settings = [(''security.pin_hash'', ''h'')], ps_buckets = Map.empty\<rparr>,
     trace = [], ticks = 0\<rparr>"

lemma record_at_zero:
  "entries b user = replicate n 0 \<Longrightarrow>
     entries (snd (pin_record_failure default_pin_rate_limit b user 0)) user = replicate (Suc n) 0"
proof -
  assume e: "entries b user = replicate n 0"
  have "pruned default_pin_rate_limit 0 (replicate n 0 @ [0]) = replicate n 0 @ [0]"
    by (cases n) (simp_all add: pruned_def default_pin_rate_limit_def)
  moreover have "replicate n 0 @ [0] = replicate (Suc n) (0 :: rat)" by (simp add: replicate_append_same)
  ultimately show ?thesis using e by (simp add: pin_record_failure_def entries_def Let_def)
qed

lemma crowd_entries:
  "entries (ps_buckets s) user = [] \<Longrightarrow>
     entries (ps_buckets (crowd n user 0 s)) user = replicate n 0 \<and> ps_settings (crowd n user 0 s) = ps_settings s"
proof (induction n)
  case (Suc n)
  have "crowd (Suc n) user 0 s = set_buckets
      (snd (pin_record_failure default_pin_rate_limit (ps_buckets (crowd n user 0 s)) user 0)) (crowd n user 0 s)"
    by (simp add: crowd_def)
  with Suc record_at_zero [of "ps_buckets (crowd n user 0 s)" user n] show ?case
    by (simp add: set_buckets_def)
qed (simp add: crowd_def)

text \<open>
  The lockout does not hold against guesses that overlap: for every \<open>n\<close> there is an
  interleaving in which, with no time passing at all, a guess is evaluated after \<open>n\<close> others, and
  the bucket then holds \<open>n + 1\<close> failures of that one moment.
\<close>

theorem overlapping_guesses_pass:
  "fst (verify_destructive_credential (crowded n user) default_pin_rate_limit (Some ''0000'') None
      phrase mode user pin_world) = Inr (Inl (HTTPException 400 ''PIN incorrect.'' None)) \<and>
   entries (ps_buckets (shared (snd (verify_destructive_credential (crowded n user) default_pin_rate_limit
      (Some ''0000'') None phrase mode user pin_world)))) user = replicate (Suc n) 0"
proof -
  let ?s = "\<lparr>ps_settings = [(''security.pin_hash'', ''h'')], ps_buckets = Map.empty\<rparr>"
  let ?w = "\<lparr>shared = crowd n user 0 ?s, trace = [], ticks = Suc (Suc 0)\<rparr> :: (pin_store, unit) world"
  have crowd: "entries (ps_buckets (crowd n user 0 ?s)) user = replicate n 0"
    "ps_settings (crowd n user 0 ?s) = [(''security.pin_hash'', ''h'')]"
    using crowd_entries [of ?s user n] by (simp_all add: entries_def)
  have run: "verify_destructive_credential (crowded n user) default_pin_rate_limit (Some ''0000'') None
      phrase mode user pin_world = guess_pin (crowded n user) default_pin_rate_limit user ''0000'' ''h'' ?w"
    by (simp add: verify_destructive_credential_def bindP_def run_check_lockout run_fetch pin_world_def
        pin_check_def set_buckets_def entered_def crowded_def crowd(2))
  have "entries (ps_buckets (shared (snd (guess_pin (crowded n user) default_pin_rate_limit user ''0000'' ''h'' ?w)))) user
      = replicate (Suc n) 0"
    using record_at_zero [OF crowd(1)]
    by (simp add: guess_pin_def bindP_def seqP_def run_simps verify_pin_def crowded_def set_buckets_def)
  then show ?thesis by (simp add: run run_guess_pin) (simp add: verify_pin_def crowded_def)
qed

end
