(* ===== verification/AlertsRepo.thy ===== *)
theory AlertsRepo
  imports AuditLog "HOL-Library.Product_Lexorder"
begin

text \<open>
  Alerts and their outcomes (kernel/alerts/repository.py with the types of kernel/alerts/types.py).
  A write is a transaction together with its audit row.  Timestamps are the texts the columns
  hold and compare as texts, as SQLite does.  The two unique indexes are part of the inserts: the
  primary key with the partial index on firing fingerprints, and the index on
  \<open>(alert_id, outcome)\<close>.
\<close>

section \<open>Rows\<close>

datatype severity = INFO | WARNING | CRITICAL
datatype alert_status = FIRING | RESOLVED
datatype alert_outcome = ACKED | DISMISSED | AUTO_FIXED | ESCALATED | AUTO_RESOLVED | MAINTENANCE_SUPPRESSED

fun severity_value :: "severity \<Rightarrow> string" where
  "severity_value INFO = ''info''"
| "severity_value WARNING = ''warning''"
| "severity_value CRITICAL = ''critical''"

fun outcome_value :: "alert_outcome \<Rightarrow> string" where
  "outcome_value ACKED = ''acked''"
| "outcome_value DISMISSED = ''dismissed''"
| "outcome_value AUTO_FIXED = ''auto_fixed''"
| "outcome_value ESCALATED = ''escalated''"
| "outcome_value AUTO_RESOLVED = ''auto_resolved''"
| "outcome_value MAINTENANCE_SUPPRESSED = ''maintenance_suppressed''"

record alert_row =
  l_id :: string
  l_fingerprint :: string
  l_source_tool :: string
  l_severity :: severity
  l_status :: alert_status
  l_opened_at :: string
  l_last_seen_at :: string
  l_resolved_at :: "string option"
  l_ack_at :: "string option"
  l_ack_by :: "int option"
  l_payload :: json_object
  l_created_at :: string

record alert_outcome_row =
  u_id :: string
  u_alert_id :: string
  u_outcome :: alert_outcome
  u_decided_at :: string
  u_decided_by :: "string option"
  u_created_at :: string

record alert_store = audit_store +
  t_alerts :: "alert_row list"
  t_outcomes :: "alert_outcome_row list"

section \<open>Queries\<close>

text \<open>\<open>ORDER BY opened_at DESC, id DESC\<close>\<close>

definition age_key :: "alert_row \<Rightarrow> string \<times> string" where
  "age_key r = (l_opened_at r, l_id r)"

definition newest_first :: "alert_row list \<Rightarrow> alert_row list" where
  "newest_first rs = rev (sort_key age_key rs)"

text \<open>\<open>LIMIT n\<close> of SQLite: a negative number is no limit.\<close>

definition sql_limit :: "int \<Rightarrow> 'a list \<Rightarrow> 'a list" where
  "sql_limit n xs = (if n < 0 then xs else take (nat n) xs)"

text \<open>
  With \<open>ORDER BY opened_at DESC LIMIT 1\<close> and at most one firing row of a fingerprint the order
  plays no part; among several the newest comes first.
\<close>

definition find_active_by_fingerprint :: "string \<Rightarrow> 'z alert_store_scheme \<Rightarrow> alert_row option" where
  "find_active_by_fingerprint fp s =
     (case newest_first (filter (\<lambda>r. l_fingerprint r = fp \<and> l_status r = FIRING) (t_alerts s)) of
        [] \<Rightarrow> None
      | r # _ \<Rightarrow> Some r)"

definition get_alert_by_id :: "string \<Rightarrow> 'z alert_store_scheme \<Rightarrow> alert_row option" where
  "get_alert_by_id i s = find (\<lambda>r. l_id r = i) (t_alerts s)"

definition find_active_quarantine_alert :: "string \<Rightarrow> 'z alert_store_scheme \<Rightarrow> alert_row option" where
  "find_active_quarantine_alert collector s =
     (case newest_first (filter (\<lambda>r. l_source_tool r = ''scheduler'' \<and> l_status r = FIRING \<and>
            map_of (l_payload r) ''collector_name'' = Some (JStr collector)) (t_alerts s)) of
        [] \<Rightarrow> None
      | r # _ \<Rightarrow> Some r)"

text \<open>\<open>cursor.split("|", 1)\<close> into exactly two parts that are not empty.\<close>

definition split_cursor :: "string \<Rightarrow> (string \<times> string) option" where
  "split_cursor c =
     (let a = takeWhile (\<lambda>x. x \<noteq> CHR ''|'') c; rest = dropWhile (\<lambda>x. x \<noteq> CHR ''|'') c
      in if rest = [] \<or> a = [] \<or> tl rest = [] then None else Some (a, tl rest))"

definition cursor_of :: "alert_row \<Rightarrow> string" where
  "cursor_of r = l_opened_at r @ ''|'' @ l_id r"

record alert_query =
  q_status :: "alert_status option"
  q_severity :: "severity option"
  q_source_tool :: "string option"
  q_fingerprint :: "string option"

definition selected :: "alert_query \<Rightarrow> alert_row \<Rightarrow> bool" where
  "selected q r =
     ((case q_status q of None \<Rightarrow> True | Some x \<Rightarrow> l_status r = x) \<and>
      (case q_severity q of None \<Rightarrow> True | Some x \<Rightarrow> l_severity r = x) \<and>
      (case q_source_tool q of None \<Rightarrow> True | Some x \<Rightarrow> l_source_tool r = x) \<and>
      (case q_fingerprint q of None \<Rightarrow> True | Some x \<Rightarrow> l_fingerprint r = x))"

definition older_than :: "string \<times> string \<Rightarrow> alert_row \<Rightarrow> bool" where
  "older_than cur r = (l_opened_at r < fst cur \<or> (l_opened_at r = fst cur \<and> l_id r < snd cur))"

definition list_alerts ::
  "alert_query \<Rightarrow> int \<Rightarrow> string option \<Rightarrow> 'z alert_store_scheme \<Rightarrow> exn + (alert_row list \<times> string option)" where
  "list_alerts q limit cursor s =
     (let page = (\<lambda>p.
        let items = sql_limit limit (newest_first (filter (\<lambda>r. selected q r \<and> p r) (t_alerts s)))
        in Inr (items, if int (length items) = limit \<and> items \<noteq> [] then Some (cursor_of (last items)) else None))
      in case cursor of
           None \<Rightarrow> page (\<lambda>_. True)
         | Some c \<Rightarrow>
             if c = [] then page (\<lambda>_. True)
             else (case split_cursor c of
                     None \<Rightarrow> Inl (ValidationErr ''invalid cursor format'')
                   | Some cur \<Rightarrow> page (older_than cur)))"

definition list_outcomes :: "string \<Rightarrow> 'z alert_store_scheme \<Rightarrow> (alert_outcome \<times> string \<times> string option) list" where
  "list_outcomes i s =
     map (\<lambda>u. (u_outcome u, u_decided_at u, u_decided_by u))
       (rev (sort_key u_decided_at (rev (filter (\<lambda>u. u_alert_id u = i) (t_outcomes s)))))"

section \<open>Writes\<close>

definition add_alert :: "alert_row \<Rightarrow> 'z alert_store_scheme \<Rightarrow> 'z alert_store_scheme" where
  "add_alert r s = s\<lparr>t_alerts := t_alerts s @ [r]\<rparr>"

definition on_alert :: "string \<Rightarrow> (alert_row \<Rightarrow> alert_row) \<Rightarrow> 'z alert_store_scheme \<Rightarrow> 'z alert_store_scheme" where
  "on_alert i f s = s\<lparr>t_alerts := map (\<lambda>r. if l_id r = i then f r else r) (t_alerts s)\<rparr>"

definition add_alert_outcome :: "alert_outcome_row \<Rightarrow> 'z alert_store_scheme \<Rightarrow> 'z alert_store_scheme" where
  "add_alert_outcome u s = s\<lparr>t_outcomes := t_outcomes s @ [u]\<rparr>"

definition seen_at :: "string \<Rightarrow> alert_row \<Rightarrow> alert_row" where
  "seen_at ts r = r\<lparr>l_last_seen_at := ts\<rparr>"

definition resolve :: "string \<Rightarrow> alert_row \<Rightarrow> alert_row" where
  "resolve ts r = (if l_status r = FIRING then r\<lparr>l_status := RESOLVED, l_resolved_at := Some ts\<rparr> else r)"

definition acknowledge :: "string \<Rightarrow> int \<Rightarrow> alert_row \<Rightarrow> alert_row" where
  "acknowledge ts who r = r\<lparr>l_ack_at := Some ts, l_ack_by := Some who\<rparr>"

type_synonym ('z, 'x, 'a) alert_prog = "('z alert_store_scheme, 'x event, 'a) prog"
type_synonym ('z, 'y) alert_env = "('z alert_store_scheme, 'y) tenv_scheme"

definition system_audit :: "('z, 'y) alert_env \<Rightarrow> string \<Rightarrow> json_object \<Rightarrow> ('z, 'x, unit) alert_prog" where
  "system_audit env what after = insert_audit env ''system'' what None (Some after) None None"

definition update_last_seen :: "('z, 'y) alert_env \<Rightarrow> string \<Rightarrow> string \<Rightarrow> ('z, 'x, unit) alert_prog" where
  "update_last_seen env alert_id ts =
     txn env (seqP (modS (on_alert alert_id (seen_at ts)))
       (system_audit env ''alert.last_seen'' [(''alert_id'', JStr alert_id), (''last_seen_at'', JStr ts)]))"

text \<open>The INSERT of a firing row, with the unique constraints it may violate.\<close>

definition firing_conflict :: "string \<Rightarrow> string \<Rightarrow> 'z alert_store_scheme \<Rightarrow> bool" where
  "firing_conflict i fp s =
     (\<exists>r \<in> set (t_alerts s). l_id r = i \<or> (l_fingerprint r = fp \<and> l_status r = FIRING))"

definition firing_row :: "string \<Rightarrow> alert_row \<Rightarrow> string \<Rightarrow> alert_row" where
  "firing_row i alert now =
     \<lparr>l_id = i, l_fingerprint = l_fingerprint alert, l_source_tool = l_source_tool alert,
      l_severity = l_severity alert, l_status = FIRING, l_opened_at = now, l_last_seen_at = now,
      l_resolved_at = None, l_ack_at = None, l_ack_by = None, l_payload = l_payload alert, l_created_at = now\<rparr>"

definition insert_firing :: "('z, 'y) alert_env \<Rightarrow> alert_row \<Rightarrow> ('z, 'x, string) alert_prog" where
  "insert_firing env alert =
     bindP (ask (uuid env)) (\<lambda>new_id.
     bindP (ask (now_iso env)) (\<lambda>now.
     tryP
       (txn env
         (bindP (getS (firing_conflict new_id (l_fingerprint alert))) (\<lambda>conflict.
          if conflict then raise (IntegrityErr ''UNIQUE constraint failed'')
          else
            seqP (modS (add_alert (firing_row new_id alert now)))
            (seqP (system_audit env ''alert.fire''
                    [(''alert_id'', JStr new_id), (''fingerprint'', JStr (l_fingerprint alert)),
                     (''source_tool'', JStr (l_source_tool alert)),
                     (''severity'', JStr (severity_value (l_severity alert)))])
              (ret new_id)))))
       (\<lambda>e. case e of
          IntegrityErr m \<Rightarrow>
            bindP (fetch env (find_active_by_fingerprint (l_fingerprint alert))) (\<lambda>existing.
            case existing of
              None \<Rightarrow> raise (IntegrityErr m)
            | Some r \<Rightarrow> seqP (update_last_seen env (l_id r) now) (ret (l_id r)))
        | _ \<Rightarrow> raise e)))"

definition mark_resolved :: "('z, 'y) alert_env \<Rightarrow> string \<Rightarrow> string \<Rightarrow> ('z, 'x, unit) alert_prog" where
  "mark_resolved env alert_id resolved_at =
     txn env
       (bindP (getS (\<lambda>s. length (filter (\<lambda>r. l_id r = alert_id \<and> l_status r = FIRING) (t_alerts s)))) (\<lambda>rowcount.
        seqP (modS (on_alert alert_id (resolve resolved_at)))
          (if 0 < rowcount then
             system_audit env ''alert.resolve'' [(''alert_id'', JStr alert_id), (''resolved_at'', JStr resolved_at)]
           else ret ())))"

definition outcome_present :: "string \<Rightarrow> alert_outcome \<Rightarrow> 'z alert_store_scheme \<Rightarrow> bool" where
  "outcome_present i oc s = (\<exists>u \<in> set (t_outcomes s). u_alert_id u = i \<and> u_outcome u = oc)"

definition outcome_audit ::
  "('z, 'y) alert_env \<Rightarrow> string \<Rightarrow> string \<Rightarrow> alert_outcome \<Rightarrow> string option \<Rightarrow> ('z, 'x, unit) alert_prog" where
  "outcome_audit env alert_id new_id oc decided_by =
     insert_audit env (case decided_by of None \<Rightarrow> ''system'' | Some w \<Rightarrow> w)
       (''alert.outcome.'' @ outcome_value oc) None
       (Some [(''alert_id'', JStr alert_id), (''outcome_id'', JStr new_id), (''outcome'', JStr (outcome_value oc))])
       None None"

text \<open>\<open>INSERT ... ON CONFLICT DO NOTHING\<close>; the answer tells whether the row went in.\<close>

definition put_outcome ::
  "string \<Rightarrow> string \<Rightarrow> alert_outcome \<Rightarrow> string \<Rightarrow> string option \<Rightarrow> string \<Rightarrow> ('z, 'x, bool) alert_prog" where
  "put_outcome new_id alert_id oc decided_at decided_by now =
     bindP (getS (outcome_present alert_id oc)) (\<lambda>present.
     if present then ret False
     else seqP (modS (add_alert_outcome \<lparr>u_id = new_id, u_alert_id = alert_id, u_outcome = oc,
                 u_decided_at = decided_at, u_decided_by = decided_by, u_created_at = now\<rparr>)) (ret True))"

definition insert_outcome ::
  "('z, 'y) alert_env \<Rightarrow> string \<Rightarrow> alert_outcome \<Rightarrow> string option \<Rightarrow> ('z, 'x, string) alert_prog" where
  "insert_outcome env alert_id oc decided_by =
     bindP (ask (uuid env)) (\<lambda>new_id.
     bindP (ask (now_iso env)) (\<lambda>now.
     seqP (txn env (seqP (put_outcome new_id alert_id oc now decided_by now)
                      (outcome_audit env alert_id new_id oc decided_by)))
       (ret new_id)))"

definition insert_outcome_if_absent ::
  "('z, 'y) alert_env \<Rightarrow> string \<Rightarrow> alert_outcome \<Rightarrow> string option \<Rightarrow> string \<Rightarrow> ('z, 'x, bool) alert_prog" where
  "insert_outcome_if_absent env alert_id oc decided_by decided_at =
     bindP (ask (uuid env)) (\<lambda>new_id.
     bindP (ask (now_iso env)) (\<lambda>now.
     txn env
       (bindP (put_outcome new_id alert_id oc decided_at decided_by now) (\<lambda>inserted.
        if \<not> inserted then ret False
        else seqP (outcome_audit env alert_id new_id oc decided_by) (ret True)))))"

definition set_ack :: "('z, 'y) alert_env \<Rightarrow> string \<Rightarrow> string \<Rightarrow> int \<Rightarrow> ('z, 'x, unit) alert_prog" where
  "set_ack env alert_id ack_at ack_by =
     txn env (seqP (modS (on_alert alert_id (acknowledge ack_at ack_by)))
       (insert_audit env (str_of_int ack_by) ''alert.ack'' None
          (Some [(''alert_id'', JStr alert_id), (''ack_at'', JStr ack_at), (''ack_by'', JInt ack_by)]) None None))"

section \<open>The life of an alert\<close>

text \<open>One write of any task: the rows below are all that happens to the two tables.\<close>

inductive alert_step :: "'z alert_store_scheme \<Rightarrow> 'z alert_store_scheme \<Rightarrow> bool" where
  al_fire: "\<not> firing_conflict (l_id r) (l_fingerprint r) s \<Longrightarrow> l_status r = FIRING \<Longrightarrow> l_resolved_at r = None \<Longrightarrow>
     alert_step s (add_alert r s)"
| al_seen: "alert_step s (on_alert i (seen_at ts) s)"
| al_resolve: "alert_step s (on_alert i (resolve ts) s)"
| al_ack: "alert_step s (on_alert i (acknowledge ts who) s)"
| al_outcome: "\<not> outcome_present (u_alert_id u) (u_outcome u) s \<Longrightarrow> alert_step s (add_alert_outcome u s)"
| al_other: "t_alerts t = t_alerts s \<Longrightarrow> t_outcomes t = t_outcomes s \<Longrightarrow> alert_step s t"

lemma guar_guarded:
  assumes "\<And>s. \<not> c s \<Longrightarrow> R\<^sup>*\<^sup>* s (g s)" and "guar R m"
  shows "guar R (bindP (getS c) (\<lambda>b. if b then raise e else seqP (modS g) m))"
proof (rule guarI)
  fix w
  show "R\<^sup>*\<^sup>* (shared w) (shared (snd (bindP (getS c) (\<lambda>b. if b then raise e else seqP (modS g) m) w)))"
  proof (cases "c (shared w)")
    case False
    have "R\<^sup>*\<^sup>* (g (shared w)) (shared (snd (m (w\<lparr>shared := g (shared w)\<rparr>))))"
      using assms(2) by (auto simp: guar_def dest: spec [of _ "w\<lparr>shared := g (shared w)\<rparr>"])
    with assms(1) [OF False] show ?thesis by (simp add: run_simps seqP_def False)
  qed (simp add: run_simps)
qed

text \<open>
  What a relation must allow for every operation of the repository to be a sequence of its steps:
  the writes themselves.  Clients get the guarantees of all operations at once.
\<close>

locale alert_writes =
  fixes R :: "'z alert_store_scheme \<Rightarrow> 'z alert_store_scheme \<Rightarrow> bool"
  assumes w_audit: "\<And>s row. R s (add_audit row s)"
    and w_fire: "\<And>s r. \<not> firing_conflict (l_id r) (l_fingerprint r) s \<Longrightarrow> l_status r = FIRING \<Longrightarrow>
        l_resolved_at r = None \<Longrightarrow> R s (add_alert r s)"
    and w_seen: "\<And>s i ts. R s (on_alert i (seen_at ts) s)"
    and w_resolve: "\<And>s i ts. R s (on_alert i (resolve ts) s)"
    and w_ack: "\<And>s i ts who. R s (on_alert i (acknowledge ts who) s)"
    and w_outcome: "\<And>s u. \<not> outcome_present (u_alert_id u) (u_outcome u) s \<Longrightarrow> R s (add_alert_outcome u s)"
begin

lemma guar_audits:
  "guar R (system_audit env what after)" "guar R (outcome_audit env i n oc by_whom)"
  unfolding system_audit_def outcome_audit_def by (rule guar_insert_audit, rule w_audit)+

lemma guar_put_outcome: "guar R (put_outcome n i oc at_time by_whom now)"
proof (rule guarI)
  fix w :: "('z alert_store_scheme, 'b event) world"
  show "R\<^sup>*\<^sup>* (shared w) (shared (snd (put_outcome n i oc at_time by_whom now w)))"
    by (cases "outcome_present i oc (shared w)")
      (auto simp: put_outcome_def run_simps seqP_def intro!: r_into_rtranclp w_outcome)
qed

lemma guar_alert_writes:
  assumes "rely R env"
  shows "guar R (update_last_seen env i ts)" "guar R (mark_resolved env i ts)"
    "guar R (set_ack env i ts who)" "guar R (insert_outcome env i oc w)"
    "guar R (insert_outcome_if_absent env i oc w ts)"
  unfolding update_last_seen_def mark_resolved_def set_ack_def insert_outcome_def insert_outcome_if_absent_def
  by (intro guar_intros guar_modS_step guar_audits guar_put_outcome guar_insert_audit
      w_audit w_seen w_resolve w_ack assms)+

lemma guar_insert_firing:
  assumes "rely R env"
  shows "guar R (insert_firing env alert)"
proof -
  have fire: "R\<^sup>*\<^sup>* s (add_alert (firing_row i alert now) s)" if "\<not> firing_conflict i (l_fingerprint alert) s" for s i now
    using that by (intro r_into_rtranclp w_fire) (simp_all add: firing_row_def)
  have handler: "guar R (case e of IntegrityErr m \<Rightarrow>
      bindP (fetch env (find_active_by_fingerprint (l_fingerprint alert))) (\<lambda>existing.
            case existing of
              None \<Rightarrow> raise (IntegrityErr m)
            | Some r \<Rightarrow> seqP (update_last_seen env (l_id r) now) (ret (l_id r))) | _ \<Rightarrow> raise e)" for e now
    by (cases e) (auto intro!: guar_intros guar_alert_writes assms)
  show ?thesis
    unfolding insert_firing_def by (intro guar_intros guar_guarded fire handler guar_audits assms)
qed

end

interpretation life: alert_writes alert_step
  by unfold_locales (rule alert_step.intros; (assumption | simp add: add_audit_def))+

text \<open>The contract of the two tables.\<close>

definition alerts_wf :: "'z alert_store_scheme \<Rightarrow> bool" where
  "alerts_wf s \<longleftrightarrow> distinct (map l_id (t_alerts s)) \<and>
     distinct (map l_fingerprint (filter (\<lambda>r. l_status r = FIRING) (t_alerts s))) \<and>
     (\<forall>r \<in> set (t_alerts s). l_status r = FIRING \<longleftrightarrow> l_resolved_at r = None) \<and>
     distinct (map (\<lambda>u. (u_alert_id u, u_outcome u)) (t_outcomes s))"

lemma alerts_wf_same: "t_alerts t = t_alerts s \<Longrightarrow> t_outcomes t = t_outcomes s \<Longrightarrow> alerts_wf t = alerts_wf s"
  by (simp add: alerts_wf_def)

lemma alerts_wf_on_alert:
  assumes "alerts_wf s"
    and f: "\<And>r. l_id (f r) = l_id r \<and> l_fingerprint (f r) = l_fingerprint r"
      "\<And>r. l_status (f r) = FIRING \<Longrightarrow> l_status r = FIRING"
      "\<And>r. (l_status r = FIRING \<longleftrightarrow> l_resolved_at r = None) \<Longrightarrow> (l_status (f r) = FIRING \<longleftrightarrow> l_resolved_at (f r) = None)"
  shows "alerts_wf (on_alert i f s)"
proof -
  let ?g = "\<lambda>r. if l_id r = i then f r else r"
  have ids: "l_id \<circ> ?g = l_id" by (rule ext) (simp add: f(1))
  have open_iff: "\<forall>r \<in> set (map ?g (t_alerts s)). l_status r = FIRING \<longleftrightarrow> l_resolved_at r = None"
  proof
    fix r assume "r \<in> set (map ?g (t_alerts s))"
    then obtain q where "q \<in> set (t_alerts s)" "r = ?g q" by auto
    with assms(1) f(3) [of q] show "l_status r = FIRING \<longleftrightarrow> l_resolved_at r = None"
      unfolding alerts_wf_def by (cases "l_id q = i") auto
  qed
  have fire: "distinct (map l_fingerprint (filter (\<lambda>r. l_status r = FIRING) (map ?g rs)))"
    if "distinct (map l_fingerprint (filter (\<lambda>r. l_status r = FIRING) rs))" for rs
  proof -
    have "filter (\<lambda>r. l_status r = FIRING) (map ?g rs) =
        map ?g (filter (\<lambda>r. l_status (?g r) = FIRING) (filter (\<lambda>r. l_status r = FIRING) rs))"
      unfolding filter_map o_def filter_filter
      by (rule arg_cong [where f = "map ?g"], rule filter_cong) (use f(2) in auto)
    moreover have "l_fingerprint \<circ> ?g = l_fingerprint" by (rule ext) (simp add: f(1))
    ultimately show ?thesis using distinct_map_filter [OF that] by simp
  qed
  show ?thesis
    using assms(1) fire [of "t_alerts s"] open_iff unfolding alerts_wf_def on_alert_def
    by (simp add: ids del: set_map)
qed

lemma alerts_wf_stable: "stable alert_step alerts_wf"
  unfolding stable_def
proof (intro allI impI)
  fix s t :: "'z alert_store_scheme"
  assume "alert_step s t" and wf: "alerts_wf s"
  then show "alerts_wf t"
  proof cases
    case (al_fire r)
    then have "l_id r \<notin> set (map l_id (t_alerts s))"
      "l_fingerprint r \<notin> set (map l_fingerprint (filter (\<lambda>r. l_status r = FIRING) (t_alerts s)))"
      by (auto simp: firing_conflict_def)
    with wf al_fire show ?thesis by (simp add: alerts_wf_def add_alert_def)
  next
    case (al_seen i ts)
    then show ?thesis using alerts_wf_on_alert [OF wf, of "seen_at ts"] by (simp add: seen_at_def)
  next
    case (al_resolve i ts)
    have "alerts_wf (on_alert i (resolve ts) s)" by (rule alerts_wf_on_alert [OF wf]) (auto simp: resolve_def split: if_splits)
    with al_resolve show ?thesis by simp
  next
    case (al_ack i ts who)
    then show ?thesis using alerts_wf_on_alert [OF wf, of "acknowledge ts who"] by (simp add: acknowledge_def)
  next
    case (al_outcome u)
    with wf show ?thesis by (auto simp: alerts_wf_def add_alert_outcome_def outcome_present_def)
  next
    case al_other
    with wf alerts_wf_same show ?thesis by blast
  qed
qed

text \<open>What no task undoes: an alert keeps its identity and opening, and never fires again.\<close>

definition aged :: "alert_row \<Rightarrow> alert_row \<Rightarrow> bool" where
  "aged r r' \<longleftrightarrow> l_id r' = l_id r \<and> l_fingerprint r' = l_fingerprint r \<and> l_severity r' = l_severity r \<and>
     l_opened_at r' = l_opened_at r \<and> l_payload r' = l_payload r \<and>
     (l_status r = RESOLVED \<longrightarrow> l_status r' = RESOLVED \<and> l_resolved_at r' = l_resolved_at r)"

definition alerts_extend :: "'z alert_store_scheme \<Rightarrow> 'z alert_store_scheme \<Rightarrow> bool" where
  "alerts_extend s t \<longleftrightarrow>
     (\<exists>rs new. t_alerts t = rs @ new \<and> list_all2 aged (t_alerts s) rs) \<and>
     (\<exists>us. t_outcomes t = t_outcomes s @ us)"

lemma aged_refl: "aged r r" and aged_trans: "aged r r' \<Longrightarrow> aged r' r'' \<Longrightarrow> aged r r''"
  by (auto simp: aged_def)

lemma alerts_extendI:
  "t_alerts t = rs @ new \<Longrightarrow> list_all2 aged (t_alerts s) rs \<Longrightarrow> t_outcomes t = t_outcomes s @ us \<Longrightarrow>
     alerts_extend s t"
  unfolding alerts_extend_def by blast

lemma aged_all: "list_all2 aged rs rs"
  by (simp add: list.rel_refl aged_refl)

lemma alerts_extend_refl: "alerts_extend s s"
  by (rule alerts_extendI [where rs = "t_alerts s" and new = "[]" and us = "[]"]) (simp_all add: aged_all)

lemma alerts_extend_trans:
  assumes "alerts_extend s t" "alerts_extend t u"
  shows "alerts_extend s u"
proof -
  obtain rs new where 1: "t_alerts t = rs @ new" "list_all2 aged (t_alerts s) rs" using assms(1) by (auto simp: alerts_extend_def)
  obtain rs' new' where 2: "t_alerts u = rs' @ new'" "list_all2 aged (rs @ new) rs'"
    using assms(2) 1(1) by (auto simp: alerts_extend_def)
  then obtain as bs where 3: "rs' = as @ bs" "list_all2 aged rs as" by (auto simp: list_all2_append1)
  have "list_all2 aged (t_alerts s) as" using list_all2_trans [of aged aged aged] aged_trans 1(2) 3(2) by blast
  with 2(1) 3(1) assms show ?thesis by (auto simp: alerts_extend_def)
qed

lemma alerts_extend_on_alert:
  assumes "\<And>r. aged r (f r)"
  shows "alerts_extend s (on_alert i f s)"
  by (rule alerts_extendI [where rs = "map (\<lambda>r. if l_id r = i then f r else r) (t_alerts s)" and new = "[]" and us = "[]"])
    (simp_all add: on_alert_def list_all2_conv_all_nth aged_refl assms)

lemma alert_step_extends:
  assumes "alert_step s t"
  shows "alerts_extend s t"
  using assms
proof cases
  case (al_fire r)
  then show ?thesis
    by (intro alerts_extendI [where rs = "t_alerts s" and new = "[r]" and us = "[]"]) (simp_all add: add_alert_def aged_all)
next
  case (al_seen i ts)
  then show ?thesis by (auto simp: aged_def seen_at_def intro: alerts_extend_on_alert)
next
  case (al_resolve i ts)
  then show ?thesis by (auto simp: aged_def resolve_def intro: alerts_extend_on_alert)
next
  case (al_ack i ts who)
  then show ?thesis by (auto simp: aged_def acknowledge_def intro: alerts_extend_on_alert)
next
  case (al_outcome u)
  then show ?thesis
    using alerts_extend_refl [of s] by (auto simp: alerts_extend_def add_alert_outcome_def)
next
  case al_other
  with alerts_extend_refl [of s] show ?thesis by (simp add: alerts_extend_def)
qed

lemma alert_steps_extend: "alert_step\<^sup>*\<^sup>* s t \<Longrightarrow> alerts_extend s t"
  by (induction rule: rtranclp_induct) (blast intro: alerts_extend_refl alerts_extend_trans alert_step_extends)+

text \<open>The operations of the repository, as one family.\<close>

datatype alert_op =
    Fire alert_row
  | Seen string string
  | Resolve string string
  | Ack string string int
  | Outcome string alert_outcome "string option"
  | OutcomeIfAbsent string alert_outcome "string option" string

fun run_op :: "('z, 'y) alert_env \<Rightarrow> alert_op \<Rightarrow> ('z, 'x, unit) alert_prog" where
  "run_op env (Fire a) = bindP (insert_firing env a) (\<lambda>_. ret ())"
| "run_op env (Seen i ts) = update_last_seen env i ts"
| "run_op env (Resolve i ts) = mark_resolved env i ts"
| "run_op env (Ack i ts who) = set_ack env i ts who"
| "run_op env (Outcome i oc w) = bindP (insert_outcome env i oc w) (\<lambda>_. ret ())"
| "run_op env (OutcomeIfAbsent i oc w ts) = bindP (insert_outcome_if_absent env i oc w ts) (\<lambda>_. ret ())"

lemma guar_run_op: "rely alert_step env \<Longrightarrow> guar alert_step (run_op env op)"
  by (cases op) (auto intro!: guar_intros life.guar_insert_firing life.guar_alert_writes)

text \<open>
  C27: at every moment of every interleaving of repository calls, a fingerprint has at most one
  firing alert, an alert is firing exactly while it has no resolution time, ids are unique, and
  an alert has at most one outcome of a kind.
\<close>

theorem alerts_stay_well_formed:
  assumes "rely alert_step env" and "alerts_wf (shared w)"
  shows "alerts_wf (shared (snd (run_op env op w)))"
  by (rule guar_stable [OF guar_run_op [OF assms(1)] alerts_wf_stable assms(2)])

definition calm_alerts :: "(unit, unit) alert_env" where
  "calm_alerts = \<lparr>other = (\<lambda>_ s. s), fault = (\<lambda>_. None), clock = int, uuid = str_of_nat,
     now_iso = str_of_nat\<rparr>"

definition no_alerts :: "(alert_store, unit event) world" where
  "no_alerts = \<lparr>shared = \<lparr>s_audits = [], t_alerts = [], t_outcomes = []\<rparr>, trace = [], ticks = 0\<rparr>"

lemma calm_alerts_rely: "rely alert_step calm_alerts"
  by (simp add: rely_def calm_alerts_def)

theorem alerts_stay_well_formed_witness:
  "alerts_wf (shared (snd (run_op calm_alerts (Outcome ''a'' ACKED None) no_alerts)))"
  by (rule alerts_stay_well_formed [OF calm_alerts_rely]) (simp add: alerts_wf_def no_alerts_def)

text \<open>
  Alert history is not rewritten: whatever call runs and whatever the other tasks do, every
  alert stays in the table with its fingerprint, severity, payload and opening time, a resolved
  alert stays resolved at the time it was resolved, and no outcome is lost or changed.
\<close>

theorem alert_history_kept:
  assumes "rely alert_step env"
  shows "alerts_extend (shared w) (shared (snd (run_op env op w)))"
  using guar_run_op [OF assms, of op] unfolding guar_def by (blast intro: alert_steps_extend)

theorem alert_history_kept_witness:
  "alerts_extend (shared no_alerts) (shared (snd (run_op calm_alerts (Resolve ''a'' ''t'') no_alerts)))"
  by (rule alert_history_kept [OF calm_alerts_rely])

section \<open>Pages\<close>

text \<open>
  A reader who follows the cursors: the pages up to the one that has no next cursor, with fuel
  for the number of pages.
\<close>

fun read_pages :: "nat \<Rightarrow> alert_query \<Rightarrow> int \<Rightarrow> string option \<Rightarrow> 'z alert_store_scheme \<Rightarrow> (exn + alert_row list) option" where
  "read_pages 0 q limit cursor s = None"
| "read_pages (Suc n) q limit cursor s =
     (case list_alerts q limit cursor s of
        Inl e \<Rightarrow> Some (Inl e)
      | Inr (items, None) \<Rightarrow> Some (Inr items)
      | Inr (items, Some c) \<Rightarrow>
          (case read_pages n q limit (Some c) s of
             None \<Rightarrow> None
           | Some (Inl e) \<Rightarrow> Some (Inl e)
           | Some (Inr rest) \<Rightarrow> Some (Inr (items @ rest))))"

lemma split_cursor_of:
  assumes "CHR ''|'' \<notin> set (l_opened_at r)" "l_opened_at r \<noteq> []" "l_id r \<noteq> []"
  shows "split_cursor (cursor_of r) = Some (age_key r)"
proof -
  have "takeWhile (\<lambda>x. x \<noteq> CHR ''|'') (l_opened_at r @ ''|'' @ l_id r) = l_opened_at r"
    "dropWhile (\<lambda>x. x \<noteq> CHR ''|'') (l_opened_at r @ ''|'' @ l_id r) = ''|'' @ l_id r"
    using assms(1) by (auto simp: takeWhile_append dropWhile_append)
  with assms(2,3) show ?thesis by (simp add: split_cursor_def cursor_of_def age_key_def Let_def)
qed

lemma older_iff_key: "older_than (age_key p) r \<longleftrightarrow> age_key r < age_key p"
  by (auto simp: older_than_def age_key_def less_prod_def)

text \<open>Rows whose keys can be told apart and written as cursors.\<close>

definition pageable :: "alert_row list \<Rightarrow> bool" where
  "pageable rs \<longleftrightarrow> distinct (map l_id rs) \<and>
     (\<forall>r \<in> set rs. CHR ''|'' \<notin> set (l_opened_at r) \<and> l_opened_at r \<noteq> [] \<and> l_id r \<noteq> [])"

lemma newest_first_sorted: "sorted_wrt (\<lambda>a b. age_key b \<le> age_key a) (newest_first rs)"
  unfolding newest_first_def sorted_wrt_rev using sorted_sort_key [of age_key rs] by (simp add: sorted_map)

lemma newest_first_strict:
  assumes "distinct (map l_id rs)"
  shows "sorted_wrt (\<lambda>a b. age_key b < age_key a) (newest_first rs)"
proof -
  have "inj_on age_key (set (newest_first rs))"
    using assms by (auto simp: newest_first_def age_key_def distinct_map inj_on_def)
  moreover have "distinct (newest_first rs)" using assms by (simp add: newest_first_def distinct_map)
  ultimately have d: "distinct (map age_key (newest_first rs))" by (simp add: distinct_map)
  have "sorted_wrt (\<lambda>a b. age_key b < age_key a) xs"
    if "sorted_wrt (\<lambda>a b. age_key b \<le> age_key a) xs" "distinct (map age_key xs)" for xs
    using that by (induction xs) (auto simp: order.strict_iff_order image_iff)
  from this [OF newest_first_sorted d] show ?thesis .
qed

lemma newest_first_filter: "newest_first (filter p rs) = filter p (newest_first rs)"
  by (simp add: newest_first_def filter_sort rev_filter [symmetric])

lemma filter_below_split:
  assumes "sorted_wrt (\<lambda>a b. age_key b < age_key a) (xs @ r # ys)"
  shows "filter (\<lambda>x. age_key x < age_key r) (xs @ r # ys) = ys"
  using assms by (auto simp: sorted_wrt_append filter_empty_conv intro!: filter_True)

text \<open>The page after a prefix of the result is the head of the rest.\<close>

lemma page_after:
  assumes pg: "pageable (t_alerts s)" and all: "newest_first (filter (selected q) (t_alerts s)) = xs @ ys"
    and n: "0 < limit"
  shows "list_alerts q limit (if xs = [] then None else Some (cursor_of (last xs))) s =
     Inr (take (nat limit) ys,
       if int (length (take (nat limit) ys)) = limit then Some (cursor_of (last (take (nat limit) ys))) else None)"
proof (cases "xs = []")
  case True
  with n all show ?thesis by (auto simp: list_alerts_def Let_def sql_limit_def)
next
  case False
  let ?r = "last xs"
  obtain zs where zs: "xs = zs @ [?r]" using False append_butlast_last_id [of xs] by metis
  then have split: "newest_first (filter (selected q) (t_alerts s)) = zs @ ?r # ys"
    using all by (metis append.assoc append_Cons append_Nil)
  have "?r \<in> set (newest_first (filter (selected q) (t_alerts s)))" unfolding split by simp
  then have "?r \<in> set (t_alerts s)" by (simp add: newest_first_def)
  then have cur: "split_cursor (cursor_of ?r) = Some (age_key ?r)" "cursor_of ?r \<noteq> []"
    using pg by (auto simp: pageable_def intro!: split_cursor_of) (simp add: cursor_of_def)
  have "distinct (map l_id (filter (selected q) (t_alerts s)))"
    using pg by (simp add: pageable_def distinct_map_filter)
  from newest_first_strict [OF this] have "sorted_wrt (\<lambda>a b. age_key b < age_key a) (zs @ ?r # ys)"
    unfolding split .
  from filter_below_split [OF this]
  have "filter (older_than (age_key ?r)) (newest_first (filter (selected q) (t_alerts s))) = ys"
    unfolding split older_iff_key [abs_def] .
  moreover have "newest_first (filter (\<lambda>r. selected q r \<and> older_than (age_key ?r) r) (t_alerts s)) =
      filter (older_than (age_key ?r)) (newest_first (filter (selected q) (t_alerts s)))"
    unfolding newest_first_filter [symmetric] filter_filter by (simp add: conj_commute)
  ultimately show ?thesis using False cur n by (auto simp: list_alerts_def Let_def sql_limit_def)
qed

lemma read_pages_rest:
  assumes "pageable (t_alerts s)" "0 < limit"
  shows "newest_first (filter (selected q) (t_alerts s)) = xs @ ys \<Longrightarrow> length ys < n \<Longrightarrow>
    read_pages n q limit (if xs = [] then None else Some (cursor_of (last xs))) s = Some (Inr ys)"
proof (induction n arbitrary: xs ys)
  case (Suc n)
  note page = page_after [OF assms(1) Suc.prems(1) assms(2)]
  show ?case
  proof (cases "int (length (take (nat limit) ys)) = limit")
    case True
    let ?hd = "take (nat limit) ys" and ?tl = "drop (nat limit) ys"
    have ne: "?hd \<noteq> []" using True assms(2) by auto
    then have short: "length ?tl < n" using Suc.prems(2) assms(2) by (cases ys) auto
    have "newest_first (filter (selected q) (t_alerts s)) = (xs @ ?hd) @ ?tl" using Suc.prems(1) by simp
    from Suc.IH [OF this short] ne have rest: "read_pages n q limit (Some (cursor_of (last ?hd))) s = Some (Inr ?tl)"
      by simp
    show ?thesis by (simp only: read_pages.simps(2) page) (simp add: True rest del: take_eq_Nil length_take)
  next
    case False
    then have "take (nat limit) ys = ys" using assms(2) by auto
    with False show ?thesis by (simp only: read_pages.simps(2) page) simp
  qed
qed simp

text \<open>
  Following the cursors reads the whole result: for every filter and every positive page
  size, the pages laid end to end are the matching alerts, newest first, with none lost, none
  twice, and the last page says so.
\<close>

theorem alert_pages_complete:
  assumes "pageable (t_alerts s)" and "0 < limit"
  shows "read_pages (Suc (length (t_alerts s))) q limit None s =
    Some (Inr (newest_first (filter (selected q) (t_alerts s))))"
proof -
  have "length (newest_first (filter (selected q) (t_alerts s))) < Suc (length (t_alerts s))"
    by (simp add: newest_first_def less_Suc_eq_le)
  from read_pages_rest [OF assms, of q "[]", OF _ this] show ?thesis by simp
qed

definition example_alert_row :: "string \<Rightarrow> string \<Rightarrow> alert_row" where
  "example_alert_row i opened =
     \<lparr>l_id = i, l_fingerprint = i, l_source_tool = ''scheduler'', l_severity = WARNING, l_status = FIRING,
      l_opened_at = opened, l_last_seen_at = opened, l_resolved_at = None, l_ack_at = None, l_ack_by = None,
      l_payload = [], l_created_at = opened\<rparr>"

theorem alert_pages_complete_witness:
  "read_pages (Suc (length (t_alerts \<lparr>s_audits = [], t_alerts =
       [example_alert_row ''a'' ''1'', example_alert_row ''b'' ''1''], t_outcomes = []\<rparr>)))
     \<lparr>q_status = None, q_severity = None, q_source_tool = None, q_fingerprint = None\<rparr> 1 None
     \<lparr>s_audits = [], t_alerts = [example_alert_row ''a'' ''1'', example_alert_row ''b'' ''1''], t_outcomes = []\<rparr> =
   Some (Inr (newest_first (filter (selected \<lparr>q_status = None, q_severity = None, q_source_tool = None, q_fingerprint = None\<rparr>)
     (t_alerts \<lparr>s_audits = [], t_alerts =
       [example_alert_row ''a'' ''1'', example_alert_row ''b'' ''1''], t_outcomes = []\<rparr>))))"
  by (rule alert_pages_complete) (simp_all add: pageable_def example_alert_row_def)

end
