(* ===== verification/JsonText.thy ===== *)
theory JsonText
  imports Prelude
begin

text \<open>
  The text of a JSON string as \<open>json.dumps\<close> writes it, with \<open>ensure_ascii\<close> (everything but printable ASCII
  is escaped) and without (only quotes, backslashes and control characters are), and that a quoted
  text can be read back.  A string is a list of code points below 256.
\<close>

section \<open>JSON text\<close>

definition unhex :: "char \<Rightarrow> nat" where
  "unhex c = (let n = of_char c in if n < 58 then n - 48 else n - 87)"

definition escape_char :: "char \<Rightarrow> string" where
  "escape_char c =
     (let n = (of_char c :: nat)
      in if n = 34 then [CHR 0x5C, CHR 0x22]
         else if n = 92 then [CHR 0x5C, CHR 0x5C]
         else if n = 10 then [CHR 0x5C, CHR ''n'']
         else if n = 13 then [CHR 0x5C, CHR ''r'']
         else if n = 9 then [CHR 0x5C, CHR ''t'']
         else if n = 8 then [CHR 0x5C, CHR ''b'']
         else if n = 12 then [CHR 0x5C, CHR ''f'']
         else if 32 \<le> n \<and> n \<le> 126 then [c]
         else [CHR 0x5C, CHR ''u'', CHR ''0'', CHR ''0'', hex_digit (n div 16), hex_digit (n mod 16)])"

text \<open>\<open>ensure_ascii=False\<close>\<close>

definition escape_raw :: "char \<Rightarrow> string" where
  "escape_raw c = (let n = (of_char c :: nat) in if n < 32 \<or> n = 34 \<or> n = 92 then escape_char c else [c])"

definition json_text :: "string \<Rightarrow> string" where
  "json_text s = [CHR 0x22] @ concat (map escape_char s) @ [CHR 0x22]"

definition json_text_raw :: "string \<Rightarrow> string" where
  "json_text_raw s = [CHR 0x22] @ concat (map escape_raw s) @ [CHR 0x22]"

section \<open>The text can be read back\<close>

definition unescape :: "string \<Rightarrow> (char \<times> string) option" where
  "unescape s =
     (case s of
        [] \<Rightarrow> None
      | c # r \<Rightarrow>
          if c = CHR 0x22 then None
          else if c \<noteq> CHR 0x5C then Some (c, r)
          else
            (case r of
               [] \<Rightarrow> None
             | e # r' \<Rightarrow>
                 if e = CHR ''u'' then
                   Some (char_of (16 * unhex (r' ! 2) + unhex (r' ! 3) :: nat), drop 4 r')
                 else
                   Some (if e = CHR ''n'' then CHR 0x0A else if e = CHR ''r'' then CHR 0x0D
                         else if e = CHR ''t'' then CHR 0x09 else if e = CHR ''b'' then CHR 0x08
                         else if e = CHR ''f'' then CHR 0x0C else e, r')))"

lemma unhex_digit: "n < 16 \<Longrightarrow> unhex (hex_digit n) = n"
  by (auto simp: unhex_def hex_digit_def Let_def)

lemma special_chars:
  "char_of (34 :: nat) = CHR 0x22" "char_of (92 :: nat) = CHR 0x5C" "char_of (10 :: nat) = CHR 0x0A"
  "char_of (13 :: nat) = CHR 0x0D" "char_of (9 :: nat) = CHR 0x09" "char_of (8 :: nat) = CHR 0x08"
  "char_of (12 :: nat) = CHR 0x0C"
  by (simp_all add: char_of_def bit_Suc_0_iff)

lemma unescape_escape: "unescape (escape_char c @ rest) = Some (c, rest)"
proof -
  let ?n = "of_char c :: nat"
  have small: "?n < 256" by (rule nat_of_char_less_256)
  then have "?n div 16 < 16" by (intro less_mult_imp_div_less) simp
  then have hex: "16 * unhex (hex_digit (?n div 16)) + unhex (hex_digit (?n mod 16)) = ?n"
    using unhex_digit [of "?n div 16"] unhex_digit [of "?n mod 16"] by simp
  show ?thesis
  proof (cases "?n \<in> {34, 92, 10, 13, 9, 8, 12}")
    case True
    have "c = char_of ?n" by simp
    with True have "c \<in> {CHR 0x22, CHR 0x5C, CHR 0x0A, CHR 0x0D, CHR 0x09, CHR 0x08, CHR 0x0C}"
      by (elim insertE emptyE) (simp_all only: special_chars, simp_all)
    then show ?thesis by (elim insertE emptyE) (simp_all add: escape_char_def unescape_def)
  next
    case False
    then have "c \<noteq> CHR 0x22" "c \<noteq> CHR 0x5C" by auto
    with False hex show ?thesis by (simp add: escape_char_def unescape_def Let_def)
  qed
qed

lemma unescape_raw: "unescape (escape_raw c @ rest) = Some (c, rest)"
proof (cases "(of_char c :: nat) < 32 \<or> of_char c = (34 :: nat) \<or> of_char c = (92 :: nat)")
  case True
  then show ?thesis using unescape_escape by (simp add: escape_raw_def Let_def)
next
  case False
  then have "c \<noteq> CHR 0x22" "c \<noteq> CHR 0x5C" by auto
  with False show ?thesis by (simp add: escape_raw_def unescape_def Let_def)
qed

text \<open>What a quoted text is, and where it ends, is determined by the text.\<close>

fun read_text :: "nat \<Rightarrow> string \<Rightarrow> (string \<times> string) option" where
  "read_text 0 s = None"
| "read_text (Suc n) s =
     (case unescape s of
        None \<Rightarrow> (case s of [] \<Rightarrow> None | c # r \<Rightarrow> if c = CHR 0x22 then Some ([], r) else None)
      | Some (c, r) \<Rightarrow> map_option (\<lambda>(t, q). (c # t, q)) (read_text n r))"

lemma read_escaped:
  assumes "\<And>c rest. unescape (esc c @ rest) = Some (c, rest)"
  shows "length s < n \<Longrightarrow> read_text n (concat (map esc s) @ CHR 0x22 # rest) = Some (s, rest)"
proof (induction s arbitrary: n)
  case Nil
  then obtain m where "n = Suc m" by (cases n) auto
  then show ?case by (simp add: unescape_def)
next
  case (Cons c s)
  then obtain m where m: "n = Suc m" "length s < m" by (cases n) auto
  with Cons.IH [OF m(2)] show ?case by (simp add: assms)
qed

lemma quoted_inject:
  assumes "\<And>c rest. unescape (esc c @ rest) = Some (c, rest)"
    and "concat (map esc s) @ CHR 0x22 # x = concat (map esc t) @ CHR 0x22 # y"
  shows "s = t \<and> x = y"
  using read_escaped [OF assms(1), of s "Suc (length s + length t)" x]
    read_escaped [OF assms(1), of t "Suc (length s + length t)" y] assms(2) by simp

lemma json_text_inject: "json_text s @ x = json_text t @ y \<longleftrightarrow> s = t \<and> x = y"
  using quoted_inject [OF unescape_escape, of s x t y] by (auto simp: json_text_def)

lemma json_text_raw_inject: "json_text_raw s @ x = json_text_raw t @ y \<longleftrightarrow> s = t \<and> x = y"
  using quoted_inject [OF unescape_raw, of s x t y] by (auto simp: json_text_raw_def)

end
