(* ===== verification/Fingerprints.thy ===== *)
theory Fingerprints
  imports JsonText "HOL-Library.Product_Lexorder" "HOL-Library.Multiset"
begin

text \<open>
  Alert fingerprints (kernel/alerts/fingerprinting.py): what is hashed, and that it tells label
  sets, and quarantine reasons, apart.  The SHA-256 digest is a parameter.  Text is a string of
  code points below 256, written as \<open>json.dumps\<close> with \<open>ensure_ascii\<close> and compact separators
  writes it.
\<close>

section \<open>The text of a label set\<close>

text \<open>\<open>json.dumps(d, sort_keys=True, separators=(",", ":"))\<close> of a dict of strings.\<close>

definition member :: "string \<times> string \<Rightarrow> string" where
  "member kv = json_text (fst kv) @ '':'' @ json_text (snd kv)"

definition dump_sorted :: "(string \<times> string) list \<Rightarrow> string" where
  "dump_sorted d = ''{'' @ join_with '','' (map member (sort_key fst d)) @ ''}''"

section \<open>The fingerprints\<close>

record am_item =
  am_labels :: "(string \<times> string) list"
  am_fingerprint :: string

definition compute_fingerprint :: "(string \<Rightarrow> string) \<Rightarrow> am_item \<Rightarrow> string" where
  "compute_fingerprint sha256 item =
     (if am_fingerprint item \<noteq> [] then am_fingerprint item else sha256 (dump_sorted (am_labels item)))"

definition quarantine_payload :: "string \<Rightarrow> string \<Rightarrow> (string \<times> string) list" where
  "quarantine_payload collector reason =
     [(''alertname'', ''collector_quarantined''), (''name'', collector), (''reason'', reason)]"

definition quarantine_fingerprint :: "(string \<Rightarrow> string) \<Rightarrow> string \<Rightarrow> string \<Rightarrow> string" where
  "quarantine_fingerprint sha256 collector reason = sha256 (dump_sorted (quarantine_payload collector reason))"

section \<open>The text can be read back\<close>

lemma member_inject: "member a @ x = member b @ y \<longleftrightarrow> a = b \<and> x = y"
proof -
  have "member p @ z = json_text (fst p) @ (CHR '':'' # (json_text (snd p) @ z))" for p z
    by (simp add: member_def)
  then show ?thesis by (cases a; cases b) (simp add: json_text_inject)
qed

lemma member_start: "\<exists>r. member a = CHR 0x22 # r"
  by (simp add: member_def json_text_def)

lemma join_members_inject:
  "join_with '','' (map member xs) @ ''}'' = join_with '','' (map member ys) @ ''}'' \<Longrightarrow> xs = ys"
proof (induction xs arbitrary: ys)
  case Nil
  show ?case
  proof (cases ys)
    case (Cons b bs)
    obtain r where "member b = CHR 0x22 # r" using member_start by blast
    with Nil Cons show ?thesis by (cases bs) simp_all
  qed simp
next
  case (Cons a as)
  show ?case
  proof (cases ys)
    case Nil
    obtain r where "member a = CHR 0x22 # r" using member_start by blast
    with Cons.prems Nil show ?thesis by (cases as) simp_all
  next
    case ys: (Cons b bs)
    have split: "join_with '','' (map member (p # ps)) @ ''}'' =
        member p @ (if ps = [] then ''}'' else CHR '','' # (join_with '','' (map member ps) @ ''}''))" for p ps
      by (cases ps) simp_all
    from Cons.prems have "member a @ (if as = [] then ''}'' else CHR '','' # (join_with '','' (map member as) @ ''}'')) =
        member b @ (if bs = [] then ''}'' else CHR '','' # (join_with '','' (map member bs) @ ''}''))"
      unfolding ys split .
    then have ab: "a = b" and rest: "(if as = [] then ''}'' else CHR '','' # (join_with '','' (map member as) @ ''}'')) =
        (if bs = [] then ''}'' else CHR '','' # (join_with '','' (map member bs) @ ''}''))"
      by (simp_all only: member_inject)
    from rest have "as = bs" using Cons.IH [of bs] by (auto split: if_splits)
    with ab ys show ?thesis by simp
  qed
qed

lemma dump_sorted_inject: "dump_sorted d = dump_sorted e \<longleftrightarrow> sort_key fst d = sort_key fst e"
  using join_members_inject by (auto simp: dump_sorted_def)

lemma sorted_items_eq:
  assumes "distinct (map fst d)" "distinct (map fst e)"
  shows "sort_key fst d = sort_key fst e \<longleftrightarrow> map_of d = map_of e"
proof
  assume "sort_key fst d = sort_key fst e"
  then have "set d = set e" by (metis set_sort)
  then show "map_of d = map_of e" using assms map_of_inject_set by blast
next
  assume "map_of d = map_of e"
  then have "set d = set e" using assms map_of_inject_set by blast
  moreover have "distinct d" "distinct e" using assms by (simp_all add: distinct_map)
  ultimately have "mset d = mset e" using set_eq_iff_mset_eq_distinct by blast
  then have m: "mset (map fst (sort_key fst d)) = mset (map fst (sort_key fst e))" "set (sort_key fst d) = set (sort_key fst e)"
    using \<open>set d = set e\<close> by simp_all
  then have "map fst (sort_key fst d) = map fst (sort_key fst e)"
    by (metis properties_for_sort sorted_sort_key)
  moreover have "inj_on fst (set (sort_key fst d) \<union> set (sort_key fst e))"
    using assms m(2) by (simp add: distinct_map)
  ultimately show "sort_key fst d = sort_key fst e" using map_inj_on by blast
qed

text \<open>
  What is hashed tells alerts apart: two label sets give the same text exactly when they are
  the same mapping, whatever order their keys were supplied in, and the text of a quarantine is
  that of no other collector or reason, whatever characters their names hold.
\<close>

theorem fingerprint_text_faithful:
  assumes "distinct (map fst d)" and "distinct (map fst e)"
  shows "(dump_sorted d = dump_sorted e \<longleftrightarrow> map_of d = map_of e) \<and>
    (dump_sorted (quarantine_payload c r) = dump_sorted (quarantine_payload c' r') \<longleftrightarrow> c = c' \<and> r = r')"
proof -
  have q: "distinct (map fst (quarantine_payload a b))" for a b by (simp add: quarantine_payload_def)
  have "map_of (quarantine_payload c r) = map_of (quarantine_payload c' r') \<longleftrightarrow> c = c' \<and> r = r'"
  proof
    assume "map_of (quarantine_payload c r) = map_of (quarantine_payload c' r')"
    then have "map_of (quarantine_payload c r) k = map_of (quarantine_payload c' r') k" for k by simp
    from this [of "''name''"] this [of "''reason''"] show "c = c' \<and> r = r'" by (simp add: quarantine_payload_def)
  qed simp
  with sorted_items_eq [OF assms] sorted_items_eq [OF q q] show ?thesis by (simp add: dump_sorted_inject)
qed

theorem fingerprint_text_faithful_witness:
  "(dump_sorted [(''a'', ''1''), (''b'', ''2'')] = dump_sorted [(''b'', ''2''), (''a'', ''1'')] \<longleftrightarrow>
     map_of [(''a'', ''1''), (''b'', ''2'')] = map_of [(''b'', ''2''), (''a'', ''1'')]) \<and>
   (dump_sorted (quarantine_payload ''x:y'' ''z'') = dump_sorted (quarantine_payload ''x'' ''y:z'') \<longleftrightarrow>
     ''x:y'' = ''x'' \<and> ''z'' = ''y:z'')"
  by (rule fingerprint_text_faithful) simp_all

end
