(* ===== verification/FailureBudget.thy ===== *)
theory FailureBudget
  imports Complex_Main AlertsRepo Fingerprints
begin

text \<open>
  The failure budget of the collectors (kernel/scheduler/failure_budget.py) and the clearing of a
  quarantine by the scheduler (\<open>clear_quarantine\<close> and \<open>_extract_last_reason\<close> of
  kernel/scheduler/scheduler.py).  The state is the \<open>collectors\<close> table and the two dicts of the
  process, on top of the alert tables a quarantine writes to.  The dispatcher never raises; what
  is handed to it is an event of the trace.
\<close>

section \<open>State\<close>

record quarantine_state =
  qs_failures :: int
  qs_at :: "string option"
  qs_reason :: "string option"

record collector_row =
  co_name :: string
  co_failures :: int
  co_quarantined_at :: "string option"
  co_reason :: "string option"

record budget_store = alert_store +
  t_collectors :: "collector_row list"
  m_failures :: "(string \<times> int) list"
  m_quarantined :: "(string \<times> quarantine_state) list"
  m_loaded :: bool

record alert_event =
  ev_alert_id :: string
  ev_fingerprint :: string
  ev_severity :: severity
  ev_opened_at :: string
  ev_ts :: string
  ev_labels :: json_object

text \<open>
  What the service tells its surroundings: alert events for the dispatcher, and, from the scheduler,
  samples of its own metrics (kernel/plugins/io.py), the event of a tick for the sink
  (\<open>SchedulerTickEvent\<close> of kernel/events.py), the call of a collector's \<open>run\<close> and the creation of a tick task.
\<close>

datatype sample =
    Gauge string rat "(string \<times> string) list"
  | Counter string rat "(string \<times> string) list"
  | Summary string rat "(string \<times> string) list"

record trigger_context =
  tr_kind :: string
  tr_request_id :: "string option"

record tick_event =
  te_collector :: string
  te_tick_id :: string
  te_outcome :: string
  te_reason :: "string option"
  te_duration :: "rat option"
  te_trigger_kind :: string
  te_request_id :: "string option"
  te_ts :: string

datatype notice =
    FiringNotice alert_event
  | ResolvedNotice alert_event
  | Sample sample
  | TickNotice tick_event
  | Dispatched string string
  | TickTask string "(string \<times> trigger_context) option"

record 's budget_env = "'s tenv" +
  sha256 :: "string \<Rightarrow> string"
  alerts_wired :: bool

type_synonym ('z, 'a) budget_prog = "('z budget_store_scheme, notice event, 'a) prog"

section \<open>Queries\<close>

definition is_quarantined :: "string \<Rightarrow> 'z budget_store_scheme \<Rightarrow> bool" where
  "is_quarantined name s = (name \<in> fst ` set (m_quarantined s))"

definition quarantined_names :: "'z budget_store_scheme \<Rightarrow> string list" where
  "quarantined_names s = sort (map fst (m_quarantined s))"

definition failures_of :: "string \<Rightarrow> 'z budget_store_scheme \<Rightarrow> int" where
  "failures_of name s = (case map_of (m_failures s) name of None \<Rightarrow> 0 | Some n \<Rightarrow> n)"

definition degraded_names :: "'z budget_store_scheme \<Rightarrow> string list" where
  "degraded_names s =
     sort (map fst (filter (\<lambda>(name, count). 0 < count \<and> \<not> is_quarantined name s) (m_failures s)))"

definition quarantine_state_of :: "string \<Rightarrow> 'z budget_store_scheme \<Rightarrow> quarantine_state option" where
  "quarantine_state_of name s = map_of (m_quarantined s) name"

section \<open>Writes\<close>

definition on_collector :: "string \<Rightarrow> (collector_row \<Rightarrow> collector_row) \<Rightarrow> 'z budget_store_scheme \<Rightarrow> 'z budget_store_scheme" where
  "on_collector name f s = s\<lparr>t_collectors := map (\<lambda>c. if co_name c = name then f c else c) (t_collectors s)\<rparr>"

definition set_failures :: "string \<Rightarrow> int \<Rightarrow> 'z budget_store_scheme \<Rightarrow> 'z budget_store_scheme" where
  "set_failures name n s = s\<lparr>m_failures := dict_set name n (m_failures s)\<rparr>"

definition set_quarantined :: "string \<Rightarrow> quarantine_state \<Rightarrow> 'z budget_store_scheme \<Rightarrow> 'z budget_store_scheme" where
  "set_quarantined name q s = s\<lparr>m_quarantined := dict_set name q (m_quarantined s)\<rparr>"

definition unquarantine :: "string \<Rightarrow> 'z budget_store_scheme \<Rightarrow> 'z budget_store_scheme" where
  "unquarantine name s = s\<lparr>m_quarantined := filter (\<lambda>(k, _). k \<noteq> name) (m_quarantined s)\<rparr>"

definition clean_state :: quarantine_state where
  "clean_state = \<lparr>qs_failures = 0, qs_at = None, qs_reason = None\<rparr>"

definition persist_state :: "quarantine_state \<Rightarrow> collector_row \<Rightarrow> collector_row" where
  "persist_state q c = c\<lparr>co_failures := qs_failures q, co_quarantined_at := qs_at q, co_reason := qs_reason q\<rparr>"

definition state_fields :: "string \<Rightarrow> quarantine_state \<Rightarrow> json_object" where
  "state_fields name q =
     [(''name'', JStr name), (''consecutive_failures'', JInt (qs_failures q)),
      (''quarantined_at'', jopt_str (qs_at q)), (''quarantine_reason'', jopt_str (qs_reason q))]"

section \<open>Loading\<close>

text \<open>One row of the SELECT, taken into the dicts.\<close>

definition load_row :: "collector_row \<Rightarrow> 'z budget_store_scheme \<Rightarrow> 'z budget_store_scheme" where
  "load_row c s =
     (let s1 = (if 0 < co_failures c then set_failures (co_name c) (co_failures c) s else s)
      in if co_quarantined_at c = None then s1
         else set_quarantined (co_name c)
                \<lparr>qs_failures = co_failures c, qs_at = co_quarantined_at c, qs_reason = co_reason c\<rparr> s1)"

definition persisted_rows :: "'z budget_store_scheme \<Rightarrow> collector_row list" where
  "persisted_rows s = filter (\<lambda>c. 0 < co_failures c \<or> co_quarantined_at c \<noteq> None) (t_collectors s)"

definition load_state :: "('z budget_store_scheme, 'y) budget_env_scheme \<Rightarrow> ('z, unit) budget_prog" where
  "load_state env =
     bindP (getS m_loaded) (\<lambda>loaded.
     if loaded then ret ()
     else bindP (txn env (getS persisted_rows)) (\<lambda>rows.
            modS (\<lambda>s. (fold load_row rows s)\<lparr>m_loaded := True\<rparr>)))"

section \<open>Outcomes of a tick\<close>

definition record_success :: "string \<Rightarrow> ('z, unit) budget_prog" where
  "record_success name =
     bindP (getS (is_quarantined name)) (\<lambda>q. if q then ret () else modS (set_failures name 0))"

definition reason_text :: "int \<Rightarrow> string \<Rightarrow> string" where
  "reason_text n reason = ''consecutive failures: '' @ str_of_int n @ '' (last reason: '' @ reason @ '')''"

definition quarantine_labels :: "string \<Rightarrow> string \<Rightarrow> json_object" where
  "quarantine_labels name reason =
     [(''alertname'', JStr ''collector_quarantined''), (''collector_name'', JStr name), (''reason'', JStr reason)]"

definition quarantine_alert :: "('z budget_store_scheme, 'y) budget_env_scheme \<Rightarrow> string \<Rightarrow> string \<Rightarrow> int \<Rightarrow> string \<Rightarrow> alert_row" where
  "quarantine_alert env name reason n ts =
     \<lparr>l_id = [], l_fingerprint = quarantine_fingerprint (sha256 env) name reason, l_source_tool = ''scheduler'',
      l_severity = WARNING, l_status = FIRING, l_opened_at = ts, l_last_seen_at = ts, l_resolved_at = None,
      l_ack_at = None, l_ack_by = None,
      l_payload = [(''labels'', JObj (quarantine_labels name reason)), (''annotations'', JObj []),
        (''collector_name'', JStr name), (''reason'', JStr reason), (''consecutive_failures'', JInt n)],
      l_created_at = ts\<rparr>"

definition emit_quarantine_alert :: "('z budget_store_scheme, 'y) budget_env_scheme \<Rightarrow> string \<Rightarrow> string \<Rightarrow> int \<Rightarrow> string \<Rightarrow> ('z, unit) budget_prog" where
  "emit_quarantine_alert env name reason n ts =
     (let fp = quarantine_fingerprint (sha256 env) name reason;
          notify = (\<lambda>(i, opened). emit (Act (FiringNotice
            \<lparr>ev_alert_id = i, ev_fingerprint = fp, ev_severity = WARNING, ev_opened_at = opened, ev_ts = ts,
             ev_labels = quarantine_labels name reason\<rparr>)))
      in bindP (fetch env (find_active_by_fingerprint fp)) (\<lambda>existing.
         case existing of
           Some r \<Rightarrow> seqP (update_last_seen env (l_id r) ts) (notify (l_id r, l_opened_at r))
         | None \<Rightarrow> bindP (insert_firing env (quarantine_alert env name reason n ts)) (\<lambda>i. notify (i, ts))))"

definition enter_quarantine ::
  "('z budget_store_scheme, 'y) budget_env_scheme \<Rightarrow> string \<Rightarrow> string \<Rightarrow> int \<Rightarrow> int \<Rightarrow> ('z, unit) budget_prog" where
  "enter_quarantine env name reason prev n =
     bindP (ask (now_iso env)) (\<lambda>ts.
     let after = \<lparr>qs_failures = n, qs_at = Some ts, qs_reason = Some (reason_text n reason)\<rparr>
     in seqP (txn env (seqP (modS (on_collector name (persist_state after)))
                (insert_audit env ''scheduler'' ''collector.quarantine_entered''
                   (Some (state_fields name \<lparr>qs_failures = prev, qs_at = None, qs_reason = None\<rparr>))
                   (Some (state_fields name after)) None None)))
        (seqP (modS (set_quarantined name after \<circ> set_failures name n))
           (if alerts_wired env then emit_quarantine_alert env name reason n ts else ret ())))"

definition record_failure ::
  "('z budget_store_scheme, 'y) budget_env_scheme \<Rightarrow> int \<Rightarrow> string \<Rightarrow> string \<Rightarrow> int option \<Rightarrow> ('z, unit) budget_prog" where
  "record_failure env default_threshold name reason threshold =
     bindP (getS (is_quarantined name)) (\<lambda>q.
     if q then ret ()
     else
       bindP (getS (failures_of name)) (\<lambda>prev.
       let n = prev + 1; effective = (case threshold of None \<Rightarrow> default_threshold | Some t \<Rightarrow> t)
       in if n < effective then
            seqP (txn env (modS (on_collector name (\<lambda>c. c\<lparr>co_failures := n\<rparr>)))) (modS (set_failures name n))
          else enter_quarantine env name reason prev n))"

section \<open>Clearing\<close>

definition clear_quarantine :: "('z budget_store_scheme, 'y) budget_env_scheme \<Rightarrow> string \<Rightarrow> string \<Rightarrow> ('z, unit) budget_prog" where
  "clear_quarantine env name by_whom =
     seqP (load_state env)
     (bindP (getS (quarantine_state_of name)) (\<lambda>found.
      case found of
        None \<Rightarrow> ret ()
      | Some before \<Rightarrow>
          seqP (txn env (seqP (modS (on_collector name (persist_state clean_state)))
                 (insert_audit env by_whom ''collector.quarantine_cleared''
                    (Some (state_fields name before)) (Some (state_fields name clean_state)) None None)))
          (bindP (getS (is_quarantined name)) (\<lambda>there.
           if there then modS (set_failures name 0 \<circ> unquarantine name)
           else raise (LookupErr name)))))"

definition clear_all_quarantine :: "('z budget_store_scheme, 'y) budget_env_scheme \<Rightarrow> string \<Rightarrow> ('z, nat) budget_prog" where
  "clear_all_quarantine env by_whom =
     seqP (load_state env)
     (bindP (getS (\<lambda>s. map fst (m_quarantined s))) (\<lambda>names.
      seqP (for_each names (\<lambda>name. clear_quarantine env name by_whom)) (ret (length names))))"

definition extract_last_reason :: "string \<Rightarrow> string option" where
  "extract_last_reason text =
     (case rfind ''(last reason: '' text of
        None \<Rightarrow> None
      | Some start \<Rightarrow>
          (let inner_start = start + length ''(last reason: '';
               inner_end = length text - length '')''
           in if \<not> ends_with text '')'' then None
              else if inner_end \<le> inner_start then None
              else Some (take (inner_end - inner_start) (drop inner_start text))))"

definition resolve_quarantine_alert :: "('z budget_store_scheme, 'y) budget_env_scheme \<Rightarrow> string \<Rightarrow> string \<Rightarrow> ('z, unit) budget_prog" where
  "resolve_quarantine_alert env name last_reason =
     bindP (fetch env (find_active_by_fingerprint (quarantine_fingerprint (sha256 env) name last_reason))) (\<lambda>active.
     case active of
       None \<Rightarrow> ret ()
     | Some r \<Rightarrow>
         bindP (ask (now_iso env)) (\<lambda>ts.
         seqP (mark_resolved env (l_id r) ts)
           (emit (Act (ResolvedNotice
              \<lparr>ev_alert_id = l_id r, ev_fingerprint = l_fingerprint r, ev_severity = l_severity r,
               ev_opened_at = l_opened_at r, ev_ts = ts,
               ev_labels = (case map_of (l_payload r) ''labels'' of Some (JObj d) \<Rightarrow> d | _ \<Rightarrow> [])\<rparr>)))))"

definition scheduler_clear_quarantine :: "('z budget_store_scheme, 'y) budget_env_scheme \<Rightarrow> string \<Rightarrow> string \<Rightarrow> ('z, unit) budget_prog" where
  "scheduler_clear_quarantine env name by_whom =
     seqP
       (if alerts_wired env then
          bindP (getS (quarantine_state_of name)) (\<lambda>q.
          case q of
            None \<Rightarrow> ret ()
          | Some st \<Rightarrow>
              (case qs_reason st of
                 None \<Rightarrow> ret ()
               | Some text \<Rightarrow>
                   (case extract_last_reason text of
                      None \<Rightarrow> ret ()
                    | Some last_reason \<Rightarrow> resolve_quarantine_alert env name last_reason)))
        else ret ())
       (clear_quarantine env name by_whom)"

section \<open>The state the budget owns\<close>

definition budget_part :: "'z budget_store_scheme \<Rightarrow> collector_row list \<times> (string \<times> int) list \<times> (string \<times> quarantine_state) list \<times> bool" where
  "budget_part s = (t_collectors s, m_failures s, m_quarantined s, m_loaded s)"

definition same_budget :: "'z budget_store_scheme \<Rightarrow> 'z budget_store_scheme \<Rightarrow> bool" where
  "same_budget s t \<longleftrightarrow> budget_part t = budget_part s"

lemma same_budget_refl: "same_budget s s"
  and same_budget_trans: "same_budget s t \<Longrightarrow> same_budget t u \<Longrightarrow> same_budget s u"
  by (simp_all add: same_budget_def)

lemma same_budget_steps: "same_budget\<^sup>*\<^sup>* s t \<Longrightarrow> same_budget s t"
  by (induction rule: rtranclp_induct) (blast intro: same_budget_refl same_budget_trans)+

interpretation apart: alert_writes same_budget
  by unfold_locales (simp_all add: same_budget_def budget_part_def add_audit_def add_alert_def on_alert_def
      add_alert_outcome_def)

lemma guar_emit_quarantine_alert:
  "rely same_budget env \<Longrightarrow> guar same_budget (emit_quarantine_alert env name reason n ts)"
  unfolding emit_quarantine_alert_def Let_def
  by (intro guar_intros apart.guar_alert_writes apart.guar_insert_firing)

lemma guar_resolve_quarantine_alert:
  "rely same_budget env \<Longrightarrow> guar same_budget (resolve_quarantine_alert env name r)"
  unfolding resolve_quarantine_alert_def by (intro guar_intros apart.guar_alert_writes)

text \<open>What can be read of one collector is a function of that part.\<close>

lemma same_budget_reads:
  assumes "same_budget s t"
  shows "is_quarantined c t = is_quarantined c s" "failures_of c t = failures_of c s"
    "quarantine_state_of c t = quarantine_state_of c s" "t_collectors t = t_collectors s" "m_loaded t = m_loaded s"
  using assms by (simp_all add: same_budget_def budget_part_def is_quarantined_def failures_of_def quarantine_state_of_def)

text \<open>
  A transaction followed by what happens in memory once it is committed: nothing, or both.
  \<open>F\<close> is the change the body makes.
\<close>

lemma txn_then_bind:
  assumes body: "\<And>w. \<exists>x w'. body w = (Inr x, w') \<and> F (shared w) x (shared w')"
    and run: "bindP (txn env body) k w = (r, w')"
  shows "(\<exists>e. r = Inl (DbError e) \<and> shared w' = shared (entered env w)) \<or>
    (\<exists>x w1. F (shared (entered env w)) x (shared w1) \<and> k x w1 = (r, w'))"
proof -
  obtain x w2 where w2: "body (entered env w) = (Inr x, w2)" "F (shared (entered env w)) x (shared w2)"
    using body by blast
  from w2(1) show ?thesis
  proof (cases rule: txn_returned)
    case committed
    with run have "k x (w2\<lparr>ticks := Suc (ticks w2)\<rparr>) = (r, w')" by (simp add: bindP_def)
    with w2(2) show ?thesis by (intro disjI2 exI [of _ x] exI [of _ "w2\<lparr>ticks := Suc (ticks w2)\<rparr>"]) simp
  next
    case (rolled_back msg w3)
    with run show ?thesis by (auto simp: bindP_def)
  qed
qed

lemma txn_then_mem:
  assumes body: "\<And>w. \<exists>w'. body w = (Inr (), w') \<and> F (shared w) (shared w')"
    and run: "seqP (txn env body) m w = (r, w')"
  shows "(\<exists>e. r = Inl (DbError e) \<and> shared w' = shared (entered env w)) \<or>
    (\<exists>w1. F (shared (entered env w)) (shared w1) \<and> m w1 = (r, w'))"
  using txn_then_bind [where body = body and F = "\<lambda>s x t. F s t", OF _ run [unfolded seqP_def]] body by auto

section \<open>The specification\<close>

datatype health = Healthy int | Quarantined

definition health_of :: "string \<Rightarrow> 'z budget_store_scheme \<Rightarrow> health" where
  "health_of name s = (if is_quarantined name s then Quarantined else Healthy (failures_of name s))"

datatype tick_result = Succeeded | Failed string "int option" | Cleared string

definition threshold_of :: "int \<Rightarrow> int option \<Rightarrow> int" where
  "threshold_of dflt t = (case t of None \<Rightarrow> dflt | Some n \<Rightarrow> n)"

fun health_step :: "int \<Rightarrow> tick_result \<Rightarrow> health \<Rightarrow> health" where
  "health_step dflt Succeeded (Healthy n) = Healthy 0"
| "health_step dflt (Failed reason t) (Healthy n) =
     (if n + 1 < threshold_of dflt t then Healthy (n + 1) else Quarantined)"
| "health_step dflt (Cleared by_whom) Quarantined = Healthy 0"
| "health_step dflt _ h = h"

fun budget_call :: "('z budget_store_scheme, 'y) budget_env_scheme \<Rightarrow> int \<Rightarrow> string \<Rightarrow> tick_result \<Rightarrow> ('z, unit) budget_prog" where
  "budget_call env dflt name Succeeded = record_success name"
| "budget_call env dflt name (Failed reason t) = record_failure env dflt name reason t"
| "budget_call env dflt name (Cleared by_whom) = clear_quarantine env name by_whom"

text \<open>One call: on success the step of the specification, on an error that step or none.\<close>

definition implements_step :: "int \<Rightarrow> string \<Rightarrow> tick_result \<Rightarrow> 'z budget_store_scheme \<Rightarrow> exn + unit \<Rightarrow> 'z budget_store_scheme \<Rightarrow> bool" where
  "implements_step dflt name x s r t \<longleftrightarrow>
     (\<forall>c. c \<noteq> name \<longrightarrow> health_of c t = health_of c s) \<and> m_loaded t = m_loaded s \<and>
     (health_of name t = health_step dflt x (health_of name s) \<or> (\<exists>e. r = Inl e) \<and> health_of name t = health_of name s)"

lemma health_of_same: "same_budget s t \<Longrightarrow> health_of c t = health_of c s"
  by (simp add: health_of_def same_budget_reads)

lemma mem_writes:
  "is_quarantined c (set_failures name n s) = is_quarantined c s"
  "failures_of c (set_failures name n s) = (if c = name then n else failures_of c s)"
  "is_quarantined c (set_quarantined name q s) \<longleftrightarrow> c = name \<or> is_quarantined c s"
  "failures_of c (set_quarantined name q s) = failures_of c s"
  "is_quarantined c (unquarantine name s) \<longleftrightarrow> c \<noteq> name \<and> is_quarantined c s"
  "failures_of c (unquarantine name s) = failures_of c s"
  "is_quarantined c (on_collector name f s) = is_quarantined c s"
  "failures_of c (on_collector name f s) = failures_of c s"
  "is_quarantined c (add_audit row s) = is_quarantined c s"
  "failures_of c (add_audit row s) = failures_of c s"
proof -
  have "fst ` set (dict_set name q d) = insert name (fst ` set d)" for d :: "(string \<times> quarantine_state) list"
    by (simp add: dom_map_of_conv_image_fst [symmetric])
  then show "is_quarantined c (set_quarantined name q s) \<longleftrightarrow> c = name \<or> is_quarantined c s"
    by (simp add: is_quarantined_def set_quarantined_def)
qed (auto simp: is_quarantined_def failures_of_def set_failures_def set_quarantined_def unquarantine_def on_collector_def
    add_audit_def)

lemma collector_writes:
  "t_collectors (set_failures name n s) = t_collectors s" "t_collectors (set_quarantined name q s) = t_collectors s"
  "t_collectors (unquarantine name s) = t_collectors s" "t_collectors (add_audit row s) = t_collectors s"
  "t_collectors (on_collector name f s) = map (\<lambda>c. if co_name c = name then f c else c) (t_collectors s)"
  by (simp_all add: set_failures_def set_quarantined_def unquarantine_def on_collector_def add_audit_def)

lemma loaded_writes:
  "m_loaded (set_failures name n s) = m_loaded s" "m_loaded (set_quarantined name q s) = m_loaded s"
  "m_loaded (unquarantine name s) = m_loaded s" "m_loaded (on_collector name f s) = m_loaded s"
  "m_loaded (add_audit row s) = m_loaded s"
  by (simp_all add: set_failures_def set_quarantined_def unquarantine_def on_collector_def add_audit_def)

lemma implements_step_frame:
  assumes "same_budget s s'" and "implements_step dflt name x s' r t" and "same_budget t t'"
  shows "implements_step dflt name x s r t'"
  using assms(2) by (simp add: implements_step_def health_of_same [OF assms(1)] health_of_same [OF assms(3)]
      same_budget_reads(5) [OF assms(1)] same_budget_reads(5) [OF assms(3)])

lemma entered_same:
  assumes "rely same_budget env"
  shows "same_budget (shared w) (shared (entered env w))"
  using assms same_budget_steps by (auto simp: rely_def)

lemma run_modS_total: "\<exists>w'. modS f w = (Inr (), w') \<and> shared w' = f (shared w)"
  by (simp add: run_simps)

lemma run_write_audit:
  "\<exists>w'. seqP (modS f) (insert_audit env who what bf af ip t) w = (Inr (), w') \<and>
     (\<exists>row. shared w' = add_audit row (f (shared w)))"
proof -
  obtain row w' where "insert_audit env who what bf af ip t (w\<lparr>shared := f (shared w)\<rparr>) = (Inr (), w')"
    "shared w' = add_audit row (f (shared w))"
    using run_insert_audit [of env who what bf af ip t "w\<lparr>shared := f (shared w)\<rparr>"] by auto
  then show ?thesis by (auto simp: seqP_def run_simps)
qed

lemma record_success_step: "record_success name w = (r, w') \<Longrightarrow> implements_step d name Succeeded (shared w) r (shared w')"
  by (auto simp: record_success_def run_simps implements_step_def health_of_def mem_writes loaded_writes split: if_splits)

lemma enter_quarantine_step:
  assumes f: "rely same_budget env" and run: "enter_quarantine env name reason prev n w = (r, w')"
    and old: "health_of name (shared w) = Healthy prev" and over: "\<not> n < threshold_of d t" "n = prev + 1"
  shows "implements_step d name (Failed reason t) (shared w) r (shared w')"
proof -
  let ?ts = "now_iso env (ticks w)" and ?w = "w\<lparr>ticks := Suc (ticks w)\<rparr>"
  let ?q = "\<lparr>qs_failures = n, qs_at = Some ?ts, qs_reason = Some (reason_text n reason)\<rparr>"
  let ?body = "seqP (modS (on_collector name (persist_state ?q)))
       (insert_audit env ''scheduler'' ''collector.quarantine_entered''
          (Some (state_fields name \<lparr>qs_failures = prev, qs_at = None, qs_reason = None\<rparr>)) (Some (state_fields name ?q)) None None)"
  let ?mem = "seqP (modS (set_quarantined name ?q \<circ> set_failures name n))
       (if alerts_wired env then emit_quarantine_alert env name reason n ?ts else ret ())"
  have "seqP (txn env ?body) ?mem ?w = (r, w')"
    using run by (simp add: enter_quarantine_def run_simps Let_def)
  from txn_then_mem [OF run_write_audit this] consider
      e where "r = Inl (DbError e)" "shared w' = shared (entered env ?w)"
    | row w1 where "shared w1 = add_audit row (on_collector name (persist_state ?q) (shared (entered env ?w)))" "?mem w1 = (r, w')"
    by blast
  then show ?thesis
  proof cases
    case 1
    have "same_budget (shared w) (shared (entered env ?w))" using entered_same [OF f, of ?w] by simp
    with 1 show ?thesis by (simp add: implements_step_def health_of_same same_budget_reads(5))
  next
    case 2
    let ?s2 = "set_quarantined name ?q (set_failures name n (shared w1))"
    have "guar same_budget (if alerts_wired env then emit_quarantine_alert env name reason n ?ts else ret ())"
      by (intro guar_intros guar_emit_quarantine_alert f)
    moreover have "(if alerts_wired env then emit_quarantine_alert env name reason n ?ts else ret ()) (w1\<lparr>shared := ?s2\<rparr>) = (r, w')"
      using 2(2) by (simp add: seqP_def run_simps)
    ultimately have after: "same_budget ?s2 (shared w')" using same_budget_steps guarD by fastforce
    have same: "same_budget (shared w) (shared (entered env ?w))" using entered_same [OF f, of ?w] by simp
    have "implements_step d name (Failed reason t) (shared (entered env ?w)) r ?s2"
      using over old health_of_same [OF same, of name]
      by (auto simp: implements_step_def health_of_def mem_writes loaded_writes 2(1) split: if_splits)
    from implements_step_frame [OF same this after] show ?thesis .
  qed
qed

lemma record_failure_step:
  assumes f: "rely same_budget env" and run: "record_failure env d name reason t w = (r, w')"
  shows "implements_step d name (Failed reason t) (shared w) r (shared w')"
proof (cases "is_quarantined name (shared w)")
  case True
  with run show ?thesis by (auto simp: record_failure_def run_simps implements_step_def health_of_def)
next
  case False
  let ?n = "failures_of name (shared w) + 1"
  have old: "health_of name (shared w) = Healthy (?n - 1)" using False by (simp add: health_of_def)
  show ?thesis
  proof (cases "?n < threshold_of d t")
    case True
    then have "seqP (txn env (modS (on_collector name (\<lambda>c. c\<lparr>co_failures := ?n\<rparr>)))) (modS (set_failures name ?n)) w = (r, w')"
      using run False by (simp add: record_failure_def run_simps threshold_of_def Let_def)
    from txn_then_mem [OF run_modS_total this] consider
        e where "r = Inl (DbError e)" "shared w' = shared (entered env w)"
      | w1 where "shared w1 = on_collector name (\<lambda>c. c\<lparr>co_failures := ?n\<rparr>) (shared (entered env w))"
          "modS (set_failures name ?n) w1 = (r, w')" by blast
    then show ?thesis
    proof cases
      case 1
      with entered_same [OF f, of w] show ?thesis by (simp add: implements_step_def health_of_same same_budget_reads(5))
    next
      case 2
      let ?s = "shared (entered env w)"
      note reads = same_budget_reads [OF entered_same [OF f, of w]]
      have "shared w' = set_failures name ?n (on_collector name (\<lambda>c. c\<lparr>co_failures := ?n\<rparr>) ?s)"
        using 2 by (auto simp: run_simps)
      then have "implements_step d name (Failed reason t) ?s r (shared w')"
        using True False reads(1,2) by (simp add: implements_step_def health_of_def mem_writes loaded_writes)
      from implements_step_frame [OF entered_same [OF f] this same_budget_refl] show ?thesis .
    qed
  next
    case False': False
    then have "enter_quarantine env name reason (failures_of name (shared w)) ?n w = (r, w')"
      using run False by (simp add: record_failure_def run_simps threshold_of_def Let_def)
    from enter_quarantine_step [OF f this _ False'] old show ?thesis by simp
  qed
qed

lemma quarantine_state_of_None: "quarantine_state_of name s = None \<longleftrightarrow> \<not> is_quarantined name s"
  by (simp add: quarantine_state_of_def is_quarantined_def map_of_eq_None_iff)

lemma load_state_loaded: "m_loaded (shared w) \<Longrightarrow> load_state env w = (Inr (), w)"
  by (simp add: load_state_def run_simps)

lemma clear_quarantine_step:
  assumes f: "rely same_budget env" and l: "m_loaded (shared w)" and run: "clear_quarantine env name by_whom w = (r, w')"
  shows "implements_step d name (Cleared by_whom) (shared w) r (shared w')"
proof (cases "quarantine_state_of name (shared w)")
  case None
  with run l show ?thesis
    by (auto simp: clear_quarantine_def seqP_def bindP_def load_state_loaded run_simps implements_step_def health_of_def
        quarantine_state_of_None split: if_splits)
next
  case (Some q)
  let ?body = "seqP (modS (on_collector name (persist_state clean_state)))
      (insert_audit env by_whom ''collector.quarantine_cleared'' (Some (state_fields name q))
         (Some (state_fields name clean_state)) None None)"
  let ?mem = "bindP (getS (is_quarantined name)) (\<lambda>there.
      if there then modS (set_failures name 0 \<circ> unquarantine name) else raise (LookupErr name))"
  have quar: "is_quarantined name (shared w)" using Some quarantine_state_of_None by (metis option.distinct(1))
  have "seqP (txn env ?body) ?mem w = (r, w')"
    using run l Some by (simp add: clear_quarantine_def seqP_def [of "load_state env"] bindP_def [of "load_state env"]
        load_state_loaded run_simps)
  from txn_then_mem [OF run_write_audit this] consider
      e where "r = Inl (DbError e)" "shared w' = shared (entered env w)"
    | row w1 where "shared w1 = add_audit row (on_collector name (persist_state clean_state) (shared (entered env w)))" "?mem w1 = (r, w')"
    by blast
  then show ?thesis
  proof cases
    case 1
    with entered_same [OF f, of w] show ?thesis by (simp add: implements_step_def health_of_same same_budget_reads(5))
  next
    case 2
    note reads = same_budget_reads [OF entered_same [OF f, of w]]
    have there: "is_quarantined name (shared w1)" using quar reads(1) by (simp add: 2(1) mem_writes)
    have "shared w' = set_failures name 0 (unquarantine name (shared w1))" using 2(2) there by (auto simp: run_simps)
    then have "implements_step d name (Cleared by_whom) (shared (entered env w)) r (shared w')"
      using quar reads(1) by (simp add: implements_step_def health_of_def mem_writes loaded_writes 2(1))
    from implements_step_frame [OF entered_same [OF f] this same_budget_refl] show ?thesis .
  qed
qed

text \<open>A history of one collector: its ticks and clearings in order, up to the first error.\<close>

fun budget_calls :: "('z budget_store_scheme, 'y) budget_env_scheme \<Rightarrow> int \<Rightarrow> string \<Rightarrow> tick_result list \<Rightarrow> ('z, unit) budget_prog" where
  "budget_calls env d name [] = ret ()"
| "budget_calls env d name (x # xs) = seqP (budget_call env d name x) (budget_calls env d name xs)"

lemma budget_call_step:
  assumes "rely same_budget env" "m_loaded (shared w)" "budget_call env d name x w = (r, w')"
  shows "implements_step d name x (shared w) r (shared w')"
  using assms record_success_step record_failure_step clear_quarantine_step by (cases x) auto

lemma budget_calls_fold:
  assumes "rely same_budget env"
  shows "budget_calls env d name xs w = (Inr (), w') \<Longrightarrow> m_loaded (shared w) \<Longrightarrow>
    health_of name (shared w') = fold (health_step d) xs (health_of name (shared w)) \<and>
    (\<forall>c. c \<noteq> name \<longrightarrow> health_of c (shared w') = health_of c (shared w))"
proof (induction xs arbitrary: w)
  case (Cons x xs)
  obtain u w1 where 1: "budget_call env d name x w = (Inr u, w1)" "budget_calls env d name xs w1 = (Inr (), w')"
    using Cons.prems(1) by (auto elim: seqP_returned)
  from budget_call_step [OF assms Cons.prems(2) 1(1)]
  have "implements_step d name x (shared w) (Inr u) (shared w1)" .
  then have h: "health_of name (shared w1) = health_step d x (health_of name (shared w))"
    "m_loaded (shared w1)" "\<forall>c. c \<noteq> name \<longrightarrow> health_of c (shared w1) = health_of c (shared w)"
    using Cons.prems(2) by (auto simp: implements_step_def)
  with Cons.IH [OF 1(2)] show ?case by simp
qed (simp add: run_simps)

text \<open>
  C12: the failure budget implements its state machine: however the database fails, after any
  history of one collector that returned normally its health is what the specification says
  (failures counted one by one, reset by a success, quarantine exactly when the threshold is
  reached, left only by a clearing), and no other collector is affected.
\<close>

theorem budget_refines_health:
  assumes "rely same_budget env" and "m_loaded (shared w)" and "budget_calls env d name xs w = (Inr (), w')"
  shows "health_of name (shared w') = fold (health_step d) xs (health_of name (shared w)) \<and>
    (\<forall>c. c \<noteq> name \<longrightarrow> health_of c (shared w') = health_of c (shared w))"
  by (rule budget_calls_fold [OF assms(1) assms(3) assms(2)])

definition calm_budget :: "budget_store budget_env" where
  "calm_budget = \<lparr>other = (\<lambda>_ s. s), fault = (\<lambda>_. None), clock = int, uuid = str_of_nat, now_iso = str_of_nat,
     sha256 = (\<lambda>t. t), alerts_wired = False\<rparr>"

definition budget_world :: "(budget_store, notice event) world" where
  "budget_world = \<lparr>shared = \<lparr>s_audits = [], t_alerts = [], t_outcomes = [],
     t_collectors = [\<lparr>co_name = ''disk'', co_failures = 0, co_quarantined_at = None, co_reason = None\<rparr>],
     m_failures = [], m_quarantined = [], m_loaded = True\<rparr>, trace = [], ticks = 0\<rparr>"

lemma calm_budget_rely: "rely same_budget calm_budget"
  by (simp add: rely_def calm_budget_def)

theorem budget_refines_health_witness:
  "health_of ''disk'' (shared (snd (budget_calls calm_budget 5 ''disk'' [Failed ''timeout'' (Some 1)] budget_world))) =
     fold (health_step 5) [Failed ''timeout'' (Some 1)] (health_of ''disk'' (shared budget_world)) \<and>
   health_of ''cpu'' (shared (snd (budget_calls calm_budget 5 ''disk'' [Failed ''timeout'' (Some 1)] budget_world))) =
     health_of ''cpu'' (shared budget_world)"
proof -
  have loaded: "m_loaded (shared budget_world)" by (simp add: budget_world_def)
  have "fst (budget_calls calm_budget 5 ''disk'' [Failed ''timeout'' (Some 1)] budget_world) = Inr ()"
    by (simp add: record_failure_def enter_quarantine_def budget_world_def is_quarantined_def failures_of_def seqP_def
        bindP_def run_simps txn_def insert_audit_def Let_def calm_budget_def)
  then have "budget_calls calm_budget 5 ''disk'' [Failed ''timeout'' (Some 1)] budget_world =
      (Inr (), snd (budget_calls calm_budget 5 ''disk'' [Failed ''timeout'' (Some 1)] budget_world))"
    by (metis prod.collapse)
  from budget_refines_health [OF calm_budget_rely loaded this] show ?thesis by simp
qed

section \<open>The alert of a quarantine\<close>

lemma rfind_marker:
  assumes "c \<notin> set p" "c \<notin> set rest"
  shows "rfind (c # p) (a @ (c # p) @ rest) = Some (length a)"
  unfolding rfind_def
proof (rule find_last)
  fix i assume i: "length a < i" "i < Suc (length (a @ (c # p) @ rest))"
  have "drop i (a @ (c # p) @ rest) = drop (i - length a - 1) (p @ rest)"
    using i by (simp add: drop_Cons')
  then have "c \<notin> set (drop i (a @ (c # p) @ rest))" using assms by (auto dest: in_set_dropD)
  moreover have "c \<in> set (drop i (a @ (c # p) @ rest))" if "take (length (c # p)) (drop i (a @ (c # p) @ rest)) = c # p"
    by (rule in_set_takeD [of _ "length (c # p)"]) (simp only: that list.set_intros)
  ultimately show "take (length (c # p)) (drop i (a @ (c # p) @ rest)) \<noteq> c # p" by blast
qed simp_all

lemma extract_reason_text:
  assumes "reason \<noteq> []" "CHR ''('' \<notin> set reason"
  shows "extract_last_reason (reason_text n reason) = Some reason"
proof -
  let ?a = "''consecutive failures: '' @ str_of_int n @ '' ''"
  have shape: "reason_text n reason = ?a @ (CHR ''('' # ''last reason: '') @ (reason @ '')'')"
    by (simp add: reason_text_def)
  have "rfind ''(last reason: '' (reason_text n reason) = Some (length ?a)"
    unfolding shape by (rule rfind_marker) (use assms(2) in auto)
  moreover have "ends_with (reason_text n reason) '')''"
    unfolding shape by (metis append.assoc ends_with_append)
  ultimately show ?thesis using assms(1) by (simp add: extract_last_reason_def shape Let_def)
qed

text \<open>
  The clearing finds the alert the quarantine raised: for every failure kind, the kind read
  back from the stored reason is the one that was written, so the fingerprint that is looked up
  is the fingerprint of the alert.
\<close>

theorem quarantine_reason_roundtrip:
  assumes "reason \<in> {''timeout'', ''exception'', ''result_error''}"
  shows "map_option (quarantine_fingerprint digest name) (extract_last_reason (reason_text n reason)) =
    Some (l_fingerprint (quarantine_alert (env\<lparr>sha256 := digest\<rparr>) name reason n ts))"
proof -
  have "extract_last_reason (reason_text n reason) = Some reason"
    using assms by (intro extract_reason_text) auto
  then show ?thesis by (simp add: quarantine_alert_def)
qed

theorem quarantine_reason_roundtrip_witness:
  "map_option (quarantine_fingerprint (\<lambda>t. t) ''disk'') (extract_last_reason (reason_text 5 ''timeout'')) =
    Some (l_fingerprint (quarantine_alert (calm_budget\<lparr>sha256 := \<lambda>t. t\<rparr>) ''disk'' ''timeout'' 5 ''now''))"
  by (rule quarantine_reason_roundtrip) simp

section \<open>Memory and table\<close>

text \<open>
  \<open>preserves I m\<close>: \<open>m\<close> leaves the invariant true, whether it returns or raises.  The invariant may
  fail inside a step of the process, between a commit and the assignment after it, where no other
  task runs.
\<close>

definition preserves :: "('z budget_store_scheme \<Rightarrow> bool) \<Rightarrow> ('z, 'a) budget_prog \<Rightarrow> bool" where
  "preserves I m \<longleftrightarrow> (\<forall>w. I (shared w) \<longrightarrow> I (shared (snd (m w))))"

lemma preservesD: "preserves I m \<Longrightarrow> I (shared w) \<Longrightarrow> m w = (r, w') \<Longrightarrow> I (shared w')"
  unfolding preserves_def by (metis snd_conv)

lemma preserves_basics [simp]:
  "preserves I (ret x)" "preserves I (raise e)" "preserves I (getS f)" "preserves I (ask h)" "preserves I (emit ev)"
  by (simp_all add: preserves_def run_simps)

lemma preserves_bindP: "preserves I m \<Longrightarrow> (\<And>x. preserves I (k x)) \<Longrightarrow> preserves I (bindP m k)"
  unfolding preserves_def bindP_def by (auto split: prod.splits sum.splits)

lemma preserves_seqP: "preserves I m \<Longrightarrow> preserves I n \<Longrightarrow> preserves I (seqP m n)"
  unfolding seqP_def by (rule preserves_bindP)

lemma preserves_modS: "(\<And>s. I s \<Longrightarrow> I (f s)) \<Longrightarrow> preserves I (modS f)"
  by (simp add: preserves_def run_simps)

lemma preserves_guar:
  assumes "guar R m" and "stable R I"
  shows "preserves I m"
  unfolding preserves_def using guar_stable [OF assms] by blast

text \<open>
  Quarantined in memory exactly when the collector's row says so, once the rows are loaded; the
  name is the key of the table.
\<close>

definition quarantine_agrees :: "'z budget_store_scheme \<Rightarrow> bool" where
  "quarantine_agrees s \<longleftrightarrow> distinct (map co_name (t_collectors s)) \<and>
     (\<forall>c \<in> set (t_collectors s).
        (is_quarantined (co_name c) s \<longrightarrow> co_quarantined_at c \<noteq> None) \<and>
        (m_loaded s \<longrightarrow> co_quarantined_at c \<noteq> None \<longrightarrow> is_quarantined (co_name c) s))"

definition undisturbed :: "('z budget_store_scheme \<Rightarrow> bool) \<Rightarrow> ('z budget_store_scheme, 'y) budget_env_scheme \<Rightarrow> bool" where
  "undisturbed I env \<longleftrightarrow> (\<forall>n s. I s \<longrightarrow> I (other env n s))"

lemma preserves_txn_bind:
  fixes I :: "'z budget_store_scheme \<Rightarrow> bool"
  assumes "undisturbed I env"
    and body: "\<And>w. \<exists>x w'. body w = (Inr x, w') \<and> F (shared w) x (shared w')"
    and mem: "\<And>x w1 s r w'. I s \<Longrightarrow> F s x (shared w1) \<Longrightarrow> k x w1 = (r, w') \<Longrightarrow> I (shared w')"
  shows "preserves I (bindP (txn env body) k)"
  unfolding preserves_def
proof (intro allI impI)
  fix w :: "('z budget_store_scheme, notice event) world" assume i: "I (shared w)"
  obtain r w' where run: "bindP (txn env body) k w = (r, w')" by fastforce
  have start: "I (shared (entered env w))" using assms(1) i by (simp add: undisturbed_def)
  from txn_then_bind [OF body run] show "I (shared (snd (bindP (txn env body) k w)))"
    using start mem run by auto
qed

lemma preserves_txn_mem:
  assumes "undisturbed I env"
    and body: "\<And>w. \<exists>w'. body w = (Inr (), w') \<and> F (shared w) (shared w')"
    and mem: "\<And>w1 s r w'. I s \<Longrightarrow> F s (shared w1) \<Longrightarrow> m w1 = (r, w') \<Longrightarrow> I (shared w')"
  shows "preserves I (seqP (txn env body) m)"
  unfolding seqP_def
  by (rule preserves_txn_bind [OF assms(1), of _ "\<lambda>s x t. F s t"]) (use body mem in auto)

text \<open>The writes to the alert tables keep it; what other tasks do is assumed to.\<close>

definition keeps_agreement :: "'z budget_store_scheme \<Rightarrow> 'z budget_store_scheme \<Rightarrow> bool" where
  "keeps_agreement s t \<longleftrightarrow> (quarantine_agrees s \<longrightarrow> quarantine_agrees t)"

lemma agrees_same: "same_budget s t \<Longrightarrow> quarantine_agrees t = quarantine_agrees s"
  by (simp add: quarantine_agrees_def same_budget_reads)

lemma keeps_of_same: "same_budget s t \<Longrightarrow> keeps_agreement s t"
  by (simp add: keeps_agreement_def agrees_same)

interpretation agreed: alert_writes keeps_agreement
  by unfold_locales
    (rule keeps_of_same, rule apart.w_audit apart.w_fire apart.w_seen apart.w_resolve apart.w_ack apart.w_outcome;
      assumption)+

lemma keeps_agreement_rely: "undisturbed quarantine_agrees env \<Longrightarrow> rely keeps_agreement env"
  by (auto simp: undisturbed_def rely_def keeps_agreement_def)

lemma preserves_alert_parts:
  assumes "undisturbed quarantine_agrees env"
  shows "preserves quarantine_agrees (emit_quarantine_alert env name reason n ts)"
    "preserves quarantine_agrees (resolve_quarantine_alert env name reason)"
proof -
  note r = keeps_agreement_rely [OF assms]
  have st: "stable keeps_agreement quarantine_agrees" by (simp add: stable_def keeps_agreement_def)
  show "preserves quarantine_agrees (emit_quarantine_alert env name reason n ts)"
    unfolding emit_quarantine_alert_def Let_def
    by (rule preserves_guar [OF _ st], intro guar_intros agreed.guar_alert_writes agreed.guar_insert_firing r)
  show "preserves quarantine_agrees (resolve_quarantine_alert env name reason)"
    unfolding resolve_quarantine_alert_def
    by (rule preserves_guar [OF _ st], intro guar_intros agreed.guar_alert_writes r)
qed

lemma agrees_writes:
  "quarantine_agrees (set_failures name n s) = quarantine_agrees s"
  "quarantine_agrees (add_audit row s) = quarantine_agrees s"
  by (simp_all add: quarantine_agrees_def mem_writes loaded_writes collector_writes)

lemma agrees_update:
  assumes old: "quarantine_agrees s"
    and rows: "t_collectors t = map (\<lambda>c. if co_name c = name then f c else c) (t_collectors s)"
      "\<And>c. co_name (f c) = co_name c"
    and l: "m_loaded t = m_loaded s"
    and others: "\<And>c. c \<noteq> name \<Longrightarrow> is_quarantined c t = is_quarantined c s"
    and hit: "\<And>c. c \<in> set (t_collectors s) \<Longrightarrow> co_name c = name \<Longrightarrow>
      (is_quarantined name t \<longrightarrow> co_quarantined_at (f c) \<noteq> None) \<and>
      (m_loaded s \<longrightarrow> co_quarantined_at (f c) \<noteq> None \<longrightarrow> is_quarantined name t)"
  shows "quarantine_agrees t"
  unfolding quarantine_agrees_def
proof (intro conjI ballI)
  have "map co_name (t_collectors t) = map co_name (t_collectors s)" by (simp add: rows)
  with old show "distinct (map co_name (t_collectors t))" by (simp only: quarantine_agrees_def)
next
  fix c assume "c \<in> set (t_collectors t)"
  then obtain d where d: "d \<in> set (t_collectors s)" "c = (if co_name d = name then f d else d)"
    by (auto simp: rows(1))
  have "(is_quarantined (co_name c) t \<longrightarrow> co_quarantined_at c \<noteq> None) \<and>
      (m_loaded t \<longrightarrow> co_quarantined_at c \<noteq> None \<longrightarrow> is_quarantined (co_name c) t)"
  proof (cases "co_name d = name")
    case True
    with hit [OF d(1) True] d(2) l show ?thesis by (simp add: rows(2))
  next
    case False
    with old d l others [OF False] show ?thesis by (simp add: quarantine_agrees_def)
  qed
  then show "is_quarantined (co_name c) t \<longrightarrow> co_quarantined_at c \<noteq> None"
    "m_loaded t \<longrightarrow> co_quarantined_at c \<noteq> None \<longrightarrow> is_quarantined (co_name c) t" by blast+
qed

lemma agrees_count:
  assumes "quarantine_agrees s"
  shows "quarantine_agrees (on_collector name (\<lambda>c. c\<lparr>co_failures := n\<rparr>) s)"
  by (rule agrees_update [OF assms, of _ name "\<lambda>c. c\<lparr>co_failures := n\<rparr>"])
    (use assms in \<open>auto simp: mem_writes loaded_writes collector_writes quarantine_agrees_def\<close>)

lemma agrees_enter:
  assumes "quarantine_agrees s" "qs_at q \<noteq> None"
  shows "quarantine_agrees (set_quarantined name q (on_collector name (persist_state q) s))"
  by (rule agrees_update [OF assms(1), of _ name "persist_state q"])
    (use assms(2) in \<open>simp_all add: mem_writes loaded_writes collector_writes persist_state_def\<close>)

lemma agrees_clear:
  fixes env :: "('z budget_store_scheme, 'y) budget_env_scheme"
  assumes "quarantine_agrees s"
    and "t = unquarantine name (on_collector name (persist_state clean_state) s) \<or>
      t = on_collector name (persist_state clean_state) s \<and> \<not> is_quarantined name s"
  shows "quarantine_agrees t"
proof (rule agrees_update [OF assms(1), of _ name "persist_state clean_state"])
  show "t_collectors t = map (\<lambda>c. if co_name c = name then persist_state clean_state c else c) (t_collectors s)"
    using assms(2) by (auto simp: collector_writes)
qed (use assms(2) in \<open>auto simp: mem_writes loaded_writes persist_state_def clean_state_def\<close>)

text \<open>Loading takes over every quarantined row.\<close>

lemma load_rows_reads:
  "is_quarantined c (fold load_row rows s) \<longleftrightarrow>
     is_quarantined c s \<or> (\<exists>r \<in> set rows. co_name r = c \<and> co_quarantined_at r \<noteq> None)"
  "t_collectors (fold load_row rows s) = t_collectors s"
proof (induction rows arbitrary: s)
  case (Cons r rows)
  {
    case 1
    show ?case using Cons.IH(1) by (auto simp: load_row_def Let_def mem_writes)
  next
    case 2
    show ?case using Cons.IH(2) by (simp add: load_row_def Let_def set_failures_def set_quarantined_def)
  }
qed simp_all

lemma agrees_load:
  assumes "quarantine_agrees s"
  shows "quarantine_agrees ((fold load_row (persisted_rows s) s)\<lparr>m_loaded := True\<rparr>)"
proof -
  let ?t = "(fold load_row (persisted_rows s) s)\<lparr>m_loaded := True\<rparr>"
  have q: "is_quarantined c ?t \<longleftrightarrow>
      is_quarantined c s \<or> (\<exists>r \<in> set (t_collectors s). co_name r = c \<and> co_quarantined_at r \<noteq> None)" for c
    using load_rows_reads(1) [of c "persisted_rows s" s] by (auto simp: is_quarantined_def persisted_rows_def)
  have rows: "t_collectors ?t = t_collectors s" using load_rows_reads(2) [of "persisted_rows s" s] by simp
  show ?thesis
    unfolding quarantine_agrees_def rows q
    using assms by (auto simp: quarantine_agrees_def distinct_map dest: inj_onD)
qed

lemma preserves_if: "(b \<Longrightarrow> preserves I m) \<Longrightarrow> (\<not> b \<Longrightarrow> preserves I n) \<Longrightarrow> preserves I (if b then m else n)"
  and preserves_option: "preserves I m \<Longrightarrow> (\<And>x. preserves I (k x)) \<Longrightarrow> preserves I (case v of None \<Rightarrow> m | Some x \<Rightarrow> k x)"
  by (cases b; cases v; simp)+

lemma preserves_for_each: "(\<And>x. preserves I (f x)) \<Longrightarrow> preserves I (for_each xs f)"
  by (induction xs) (auto intro: preserves_seqP)

lemmas preserves_intros = preserves_bindP preserves_seqP preserves_if preserves_option preserves_for_each preserves_basics

lemma agrees_load_state:
  assumes u: "undisturbed quarantine_agrees env"
  shows "preserves quarantine_agrees (load_state env)"
proof -
  have "preserves quarantine_agrees (bindP (txn env (getS persisted_rows)) (\<lambda>rows. modS (\<lambda>s. (fold load_row rows s)\<lparr>m_loaded := True\<rparr>)))"
    by (rule preserves_txn_bind [OF u, where F = "\<lambda>s rows t. rows = persisted_rows s \<and> t = s"])
      (auto simp: run_simps intro: agrees_load)
  then show ?thesis
    unfolding load_state_def by (auto intro!: preserves_bindP [OF preserves_basics(3)] preserves_if)
qed

lemma agrees_record_failure:
  fixes env :: "('z budget_store_scheme, 'y) budget_env_scheme"
  assumes u: "undisturbed quarantine_agrees env"
  shows "preserves quarantine_agrees (record_failure env d name reason t)"
proof -
  have count: "preserves quarantine_agrees (seqP (txn env (modS (on_collector name (\<lambda>c. c\<lparr>co_failures := n\<rparr>)))) (modS (set_failures name n)))" for n
    by (rule preserves_txn_mem [OF u run_modS_total]) (auto simp: run_simps agrees_writes intro: agrees_count)
  have enter: "preserves quarantine_agrees (enter_quarantine env name reason prev n)" for prev n
    unfolding enter_quarantine_def Let_def
  proof (intro preserves_bindP preserves_basics, rule preserves_txn_mem [OF u run_write_audit])
    fix ts and w1 :: "('z budget_store_scheme, notice event) world" and s r w'
    let ?q = "\<lparr>qs_failures = n, qs_at = Some ts, qs_reason = Some (reason_text n reason)\<rparr>"
    let ?rest = "if alerts_wired env then emit_quarantine_alert env name reason n ts else ret ()"
    assume s: "quarantine_agrees s" and w1: "\<exists>row. shared w1 = add_audit row (on_collector name (persist_state ?q) s)"
      and run: "seqP (modS (set_quarantined name ?q \<circ> set_failures name n)) ?rest w1 = (r, w')"
    from w1 obtain row where row: "shared w1 = add_audit row (on_collector name (persist_state ?q) s)" by blast
    have "set_quarantined name ?q (set_failures name n (add_audit row x)) =
        add_audit row (set_failures name n (set_quarantined name ?q x))" for x :: "'z budget_store_scheme"
      by (simp add: set_quarantined_def set_failures_def add_audit_def)
    then have start: "quarantine_agrees (shared (w1\<lparr>shared := set_quarantined name ?q (set_failures name n (shared w1))\<rparr>))"
      using agrees_enter [OF s, of ?q name] by (simp add: row agrees_writes)
    have keep: "preserves quarantine_agrees ?rest" by (intro preserves_intros preserves_alert_parts u)
    have "?rest (w1\<lparr>shared := set_quarantined name ?q (set_failures name n (shared w1))\<rparr>) = (r, w')"
      using run by (simp add: seqP_def run_simps)
    from preservesD [OF keep start this] show "quarantine_agrees (shared w')" .
  qed
  show ?thesis unfolding record_failure_def Let_def by (intro preserves_intros count enter)
qed

lemma agrees_clear_quarantine:
  fixes env :: "('z budget_store_scheme, 'y) budget_env_scheme"
  assumes u: "undisturbed quarantine_agrees env"
  shows "preserves quarantine_agrees (clear_quarantine env name by_whom)"
proof -
  have "preserves quarantine_agrees (seqP (txn env (seqP (modS (on_collector name (persist_state clean_state)))
          (insert_audit env by_whom what bf af None None)))
      (bindP (getS (is_quarantined name)) (\<lambda>there.
         if there then modS (set_failures name 0 \<circ> unquarantine name) else raise (LookupErr name))))" for what bf af
  proof (rule preserves_txn_mem [OF u run_write_audit])
    fix w1 :: "('z budget_store_scheme, notice event) world" and s r w'
    assume s: "quarantine_agrees s" and "\<exists>row. shared w1 = add_audit row (on_collector name (persist_state clean_state) s)"
      and run: "bindP (getS (is_quarantined name)) (\<lambda>there.
         if there then modS (set_failures name 0 \<circ> unquarantine name) else raise (LookupErr name)) w1 = (r, w')"
    then obtain row where row: "shared w1 = add_audit row (on_collector name (persist_state clean_state) s)" by blast
    have u: "unquarantine name (add_audit row x) = add_audit row (unquarantine name x)" for x
      by (simp add: unquarantine_def add_audit_def)
    show "quarantine_agrees (shared w')"
    proof (cases "is_quarantined name s")
      case True
      then have "shared w' = set_failures name 0 (unquarantine name (shared w1))"
        using run by (auto simp: run_simps row mem_writes)
      then show ?thesis using agrees_clear [OF s, OF disjI1, OF refl, of name] by (simp add: row u agrees_writes)
    next
      case False
      then have "shared w' = shared w1" using run by (auto simp: run_simps row mem_writes)
      then show ?thesis using agrees_clear [OF s, OF disjI2, of _ name] False by (simp add: row agrees_writes)
    qed
  qed
  note cleared = this
  show ?thesis
    unfolding clear_quarantine_def
    by (rule preserves_seqP [OF agrees_load_state [OF u]], rule preserves_bindP, simp, rule preserves_option, simp)
      (rule cleared)
qed

text \<open>Every call of the component and of the scheduler's clearing.\<close>

datatype budget_request = Load | Tick int string tick_result | ClearAll string | Retry string string

fun serve :: "('z budget_store_scheme, 'y) budget_env_scheme \<Rightarrow> budget_request \<Rightarrow> ('z, unit) budget_prog" where
  "serve env Load = load_state env"
| "serve env (Tick d name x) = budget_call env d name x"
| "serve env (ClearAll by_whom) = bindP (clear_all_quarantine env by_whom) (\<lambda>_. ret ())"
| "serve env (Retry name by_whom) = scheduler_clear_quarantine env name by_whom"

text \<open>
  The process and its table never disagree about a quarantine: whatever call runs, whatever
  the database refuses, and whatever calls of other tasks come in between, a loaded collector is
  gated in memory exactly when its row carries a quarantine time, so a restart gates the same
  collectors.
\<close>

theorem quarantine_survives_restart:
  assumes "undisturbed quarantine_agrees env" and "quarantine_agrees (shared w)"
  shows "quarantine_agrees (shared (snd (serve env x w)))"
proof -
  have success: "preserves quarantine_agrees (record_success name)" for name
    unfolding record_success_def by (intro preserves_intros preserves_modS) (simp add: agrees_writes)
  note parts = agrees_load_state [OF assms(1)] agrees_record_failure [OF assms(1)] agrees_clear_quarantine [OF assms(1)]
    preserves_alert_parts [OF assms(1)]
  have "preserves quarantine_agrees (serve env x)"
  proof (cases x)
    case (Tick d name y)
    with parts success show ?thesis by (cases y) simp_all
  next
    case (ClearAll by_whom)
    then show ?thesis by (simp add: clear_all_quarantine_def) (intro preserves_intros parts)
  next
    case (Retry name by_whom)
    show ?thesis
      unfolding Retry serve.simps scheduler_clear_quarantine_def by (intro preserves_intros parts)
  qed (use parts in simp)
  with assms(2) show ?thesis by (simp add: preserves_def)
qed

theorem quarantine_survives_restart_witness:
  "quarantine_agrees (shared (snd (serve calm_budget (Tick 1 ''disk'' (Failed ''timeout'' None)) budget_world)))"
proof (rule quarantine_survives_restart)
  show "undisturbed quarantine_agrees calm_budget" by (simp add: undisturbed_def calm_budget_def)
  show "quarantine_agrees (shared budget_world)"
    by (simp add: quarantine_agrees_def budget_world_def is_quarantined_def)
qed

end
