(* ===== verification/Loader.thy ===== *)
theory Loader
  imports Matcher
begin

text \<open>
  The scan of the runbooks root (kernel/runbooks/loader.py): which folders are loaded and which
  are reported.  What the scan sees of each entry of the root is an argument: its name, whether it
  is a folder, the result of \<open>RunbookConfig.load_from_path\<close> on its \<open>runbook.yaml\<close> (YAML and pydantic
  are third-party code), and what reading its \<open>CLAUDE.md\<close> gives.
\<close>

section \<open>Data\<close>

datatype risk_tag = SAFE | RISKY

fun risk_value :: "risk_tag \<Rightarrow> string" where
  "risk_value SAFE = ''safe''"
| "risk_value RISKY = ''risky''"

record runbook_config =
  g_name :: string
  g_match_patterns :: "alert_matcher list"
  g_risk_tag :: risk_tag
  g_dry_run_required :: bool
  g_rate_limit_per_hour :: int
  g_cooldown_seconds :: int
  g_scoped_capabilities :: scoped_capabilities

record loaded_runbook =
  ld_folder :: string
  ld_config :: runbook_config

record load_report =
  le_path :: string
  le_message :: string

record scan_result =
  sc_loaded :: "loaded_runbook list"
  sc_errors :: "load_report list"

text \<open>
  \<open>read_text(encoding="utf-8")\<close> either gives the text or raises, with an \<open>OSError\<close> or a
  \<open>UnicodeDecodeError\<close>; neither is caught.
\<close>

datatype prompt_file = NoPrompt | PromptRaises exn | Prompt string

record folder_view =
  fv_name :: string
  fv_is_dir :: bool
  fv_config :: "(load_error + runbook_config) option"
  fv_prompt :: prompt_file

section \<open>The scan\<close>

definition folder_path :: "string \<Rightarrow> folder_view \<Rightarrow> string" where
  "folder_path root f = root @ ''/'' @ fv_name f"

text \<open>One turn of the loop: a raise, a skipped entry, a report, or a loaded runbook.\<close>

definition scan_folder :: "string \<Rightarrow> folder_view \<Rightarrow> exn + (load_report + loaded_runbook) option" where
  "scan_folder root f =
     (let report = (\<lambda>m. Inr (Some (Inl \<lparr>le_path = folder_path root f, le_message = m\<rparr>)))
      in if \<not> fv_is_dir f then Inr None
         else if take 1 (fv_name f) = ''_'' then Inr None
         else (case fv_config f of
                 None \<Rightarrow> report ''missing runbook.yaml''
               | Some (Inl (LoadValueError m)) \<Rightarrow> report m
               | Some (Inl (LoadYAMLError m)) \<Rightarrow> report m
               | Some (Inl (LoadOSError m)) \<Rightarrow> Inl (OSErr m)
               | Some (Inr config) \<Rightarrow>
                   (case fv_prompt f of
                      NoPrompt \<Rightarrow> report ''missing CLAUDE.md''
                    | PromptRaises e \<Rightarrow> Inl e
                    | Prompt content \<Rightarrow>
                        if strip content = [] then report ''CLAUDE.md is empty''
                        else Inr (Some (Inr \<lparr>ld_folder = folder_path root f, ld_config = config\<rparr>)))))"

fun scan_folders :: "string \<Rightarrow> folder_view list \<Rightarrow> scan_result \<Rightarrow> exn + scan_result" where
  "scan_folders root [] res = Inr res"
| "scan_folders root (f # fs) res =
     (case scan_folder root f of
        Inl e \<Rightarrow> Inl e
      | Inr None \<Rightarrow> scan_folders root fs res
      | Inr (Some (Inl err)) \<Rightarrow> scan_folders root fs (res\<lparr>sc_errors := sc_errors res @ [err]\<rparr>)
      | Inr (Some (Inr l)) \<Rightarrow> scan_folders root fs (res\<lparr>sc_loaded := sc_loaded res @ [l]\<rparr>))"

text \<open>\<open>None\<close> for a root that is not a directory; the entries are siblings, sorted by name.\<close>

definition scan_runbooks :: "string \<Rightarrow> folder_view list option \<Rightarrow> exn + scan_result" where
  "scan_runbooks root entries =
     (case entries of
        None \<Rightarrow> Inr \<lparr>sc_loaded = [], sc_errors =
          [\<lparr>le_path = root, le_message = ''runbooks root '' @ root @ '' is not a directory''\<rparr>]\<rparr>
      | Some fs \<Rightarrow> scan_folders root (sort_key fv_name fs) \<lparr>sc_loaded = [], sc_errors = []\<rparr>)"

section \<open>What the scan promises\<close>

text \<open>The folders that count, those that are runbooks, and those whose files cannot be read.\<close>

definition candidate :: "folder_view \<Rightarrow> bool" where
  "candidate f \<longleftrightarrow> fv_is_dir f \<and> take 1 (fv_name f) \<noteq> ''_''"

definition valid_config :: "folder_view \<Rightarrow> runbook_config option" where
  "valid_config f =
     (case (fv_config f, fv_prompt f) of
        (Some (Inr config), Prompt content) \<Rightarrow> if strip content = [] then None else Some config
      | _ \<Rightarrow> None)"

definition unreadable :: "folder_view \<Rightarrow> bool" where
  "unreadable f \<longleftrightarrow>
     (case fv_config f of
        Some (Inl (LoadOSError _)) \<Rightarrow> True
      | Some (Inr _) \<Rightarrow> (case fv_prompt f of PromptRaises _ \<Rightarrow> True | _ \<Rightarrow> False)
      | _ \<Rightarrow> False)"

definition runbook_folder :: "folder_view \<Rightarrow> bool" where
  "runbook_folder f \<longleftrightarrow> candidate f \<and> valid_config f \<noteq> None"

definition loaded_from :: "string \<Rightarrow> folder_view \<Rightarrow> loaded_runbook" where
  "loaded_from root f = \<lparr>ld_folder = folder_path root f, ld_config = the (valid_config f)\<rparr>"

lemma scan_folder_cases:
  "candidate f \<Longrightarrow> unreadable f \<Longrightarrow> \<exists>e. scan_folder root f = Inl e"
  "\<not> candidate f \<Longrightarrow> scan_folder root f = Inr None"
  "runbook_folder f \<Longrightarrow> scan_folder root f = Inr (Some (Inr (loaded_from root f)))"
  "candidate f \<Longrightarrow> \<not> unreadable f \<Longrightarrow> valid_config f = None \<Longrightarrow>
     \<exists>m. scan_folder root f = Inr (Some (Inl \<lparr>le_path = folder_path root f, le_message = m\<rparr>))"
  by (auto simp: scan_folder_def candidate_def unreadable_def valid_config_def runbook_folder_def loaded_from_def Let_def
      split: option.splits sum.splits load_error.splits prompt_file.splits if_splits)

lemma runbook_folder_readable: "runbook_folder f \<Longrightarrow> \<not> unreadable f"
  by (auto simp: runbook_folder_def valid_config_def unreadable_def split: option.splits sum.splits prompt_file.splits)

definition refused :: "folder_view \<Rightarrow> bool" where
  "refused f \<longleftrightarrow> candidate f \<and> valid_config f = None"

lemma scan_folders_result:
  "\<forall>f \<in> set fs. \<not> (candidate f \<and> unreadable f) \<Longrightarrow>
   \<exists>res'. scan_folders root fs res = Inr res' \<and>
     sc_loaded res' = sc_loaded res @ map (loaded_from root) (filter runbook_folder fs) \<and>
     map le_path (sc_errors res') = map le_path (sc_errors res) @ map (folder_path root) (filter refused fs)"
proof (induction fs arbitrary: res)
  case (Cons f fs)
  from Cons.prems have later: "\<forall>f \<in> set fs. \<not> (candidate f \<and> unreadable f)" by simp
  consider "\<not> candidate f" | "runbook_folder f" | "refused f" "\<not> unreadable f"
    using Cons.prems unfolding runbook_folder_def refused_def by (cases "candidate f"; cases "valid_config f"; force)
  then show ?case
  proof cases
    case 1
    with Cons.IH [OF later, of res] show ?thesis
      by (simp add: scan_folder_cases runbook_folder_def refused_def)
  next
    case 2
    then have "\<not> refused f" by (simp add: runbook_folder_def refused_def)
    with 2 Cons.IH [OF later, of "res\<lparr>sc_loaded := sc_loaded res @ [loaded_from root f]\<rparr>"] show ?thesis
      by (simp add: scan_folder_cases)
  next
    case 3
    then obtain m where
      m: "scan_folder root f = Inr (Some (Inl \<lparr>le_path = folder_path root f, le_message = m\<rparr>))"
      using scan_folder_cases(4) by (auto simp: refused_def)
    have "\<not> runbook_folder f" using 3 by (simp add: runbook_folder_def refused_def)
    with 3 m Cons.IH [OF later, of "res\<lparr>sc_errors := sc_errors res @ [\<lparr>le_path = folder_path root f, le_message = m\<rparr>]\<rparr>"]
    show ?thesis by simp
  qed
qed simp

lemma scan_folders_raises:
  "f \<in> set fs \<Longrightarrow> candidate f \<Longrightarrow> unreadable f \<Longrightarrow> \<exists>e. scan_folders root fs res = Inl e"
proof (induction fs arbitrary: res)
  case (Cons a fs)
  show ?case
  proof (cases "a = f")
    case True
    with Cons.prems scan_folder_cases(1) [of a root] show ?thesis by auto
  next
    case False
    with Cons show ?thesis by (auto split: sum.split option.split)
  qed
qed simp

text \<open>
  A scan accounts for every folder: unless a file of a folder cannot be read, it returns; it
  loads exactly the folders with a valid configuration and a prompt that is not blank, in name
  order, and it reports every other folder once, by its own path and never by the path of the root.
\<close>

theorem scan_accounts_for_folders:
  assumes "\<forall>f \<in> set fs. candidate f \<longrightarrow> \<not> unreadable f"
  shows "\<exists>res. scan_runbooks root (Some fs) = Inr res \<and>
     sc_loaded res = map (loaded_from root) (filter runbook_folder (sort_key fv_name fs)) \<and>
     map le_path (sc_errors res) = map (folder_path root) (filter refused (sort_key fv_name fs)) \<and>
     root \<notin> set (map le_path (sc_errors res))"
proof -
  have "\<forall>f \<in> set (sort_key fv_name fs). \<not> (candidate f \<and> unreadable f)" using assms by simp
  from scan_folders_result [OF this, of root "\<lparr>sc_loaded = [], sc_errors = []\<rparr>"]
  obtain res where "scan_runbooks root (Some fs) = Inr res"
    "sc_loaded res = map (loaded_from root) (filter runbook_folder (sort_key fv_name fs))"
    "map le_path (sc_errors res) = map (folder_path root) (filter refused (sort_key fv_name fs))"
    by (auto simp: scan_runbooks_def)
  moreover have "root \<notin> set (map (folder_path root) fs')" for fs' by (auto simp: folder_path_def)
  ultimately show ?thesis by metis
qed

text \<open>A prompt that is not UTF-8 raises out of the scan, although only its folder is bad.\<close>

lemma scan_stops_at_unreadable:
  assumes "f \<in> set fs" "candidate f" "unreadable f"
  shows "\<exists>e. scan_runbooks root (Some fs) = Inl e"
  using scan_folders_raises [of f "sort_key fv_name fs"] assms by (simp add: scan_runbooks_def)

definition dns_config :: runbook_config where
  "dns_config =
     \<lparr>g_name = ''dns'', g_match_patterns = [\<lparr>m_alertname = Some ''Down'', m_labels = []\<rparr>], g_risk_tag = SAFE,
      g_dry_run_required = False, g_rate_limit_per_hour = 2, g_cooldown_seconds = 60,
      g_scoped_capabilities = \<lparr>sc_docker = None, sc_ssh_target = Some ''pi'', sc_egress = []\<rparr>\<rparr>"

definition example_folders :: "folder_view list" where
  "example_folders =
     [\<lparr>fv_name = ''dns'', fv_is_dir = True, fv_config = Some (Inr dns_config), fv_prompt = Prompt ''restart it''\<rparr>,
      \<lparr>fv_name = ''_examples'', fv_is_dir = True, fv_config = None, fv_prompt = NoPrompt\<rparr>,
      \<lparr>fv_name = ''cam'', fv_is_dir = True, fv_config = Some (Inl (LoadYAMLError ''bad'')), fv_prompt = NoPrompt\<rparr>]"

theorem scan_accounts_for_folders_witness:
  "\<exists>res. scan_runbooks ''/r'' (Some example_folders) = Inr res \<and>
     sc_loaded res = map (loaded_from ''/r'') (filter runbook_folder (sort_key fv_name example_folders)) \<and>
     map le_path (sc_errors res) = map (folder_path ''/r'') (filter refused (sort_key fv_name example_folders)) \<and>
     ''/r'' \<notin> set (map le_path (sc_errors res))"
  by (rule scan_accounts_for_folders) (simp add: example_folders_def candidate_def unreadable_def)

end
