(* ===== verification/RunbookHash.thy ===== *)
theory RunbookHash
  imports Prelude "HOL-Library.Multiset"
begin

text \<open>
  The content hash of a runbook folder (kernel/runbooks/hashing.py): which folders are refused,
  and that the bytes handed to SHA-256 determine every file of an accepted folder up to line
  ends.  A path is the UTF-8 text of \<open>relative_to(folder).as_posix()\<close>, a content is its bytes; both
  are strings of 8-bit characters.  The digest is a parameter.
\<close>

section \<open>Entries\<close>

record folder_entry =
  fe_rel :: string
  fe_symlink :: bool
  fe_is_file :: bool
  fe_content :: string

definition entry_name :: "folder_entry \<Rightarrow> string" where
  "entry_name e = rev (takeWhile (\<lambda>c. c \<noteq> CHR ''/'') (rev (fe_rel e)))"

text \<open>\<open>PurePath.suffix\<close>: from the last dot of the name, unless it starts or ends the name.\<close>

definition path_suffix :: "string \<Rightarrow> string" where
  "path_suffix name =
     (let after = rev (takeWhile (\<lambda>c. c \<noteq> CHR ''.'') (rev name))
      in if after = [] \<or> length name \<le> Suc (length after) then [] else ''.'' @ after)"

definition allowed_extensions :: "string list" where
  "allowed_extensions = [''.md'', ''.yaml'', ''.yml'', ''.sh'', ''.txt'', ''.json'', ''.toml'']"

definition max_file_size :: nat where "max_file_size = 1048576"
definition max_file_count :: nat where "max_file_count = 50"
definition hash_prefix :: string where "hash_prefix = ''v2:sha256:''"

text \<open>The first check a file fails.\<close>

definition file_error :: "folder_entry \<Rightarrow> string option" where
  "file_error e =
     (if \<not> is_ascii (entry_name e) then Some ''filename contains non-ASCII characters''
      else if max_file_size < length (fe_content e) then Some ''file exceeds size limit''
      else if path_suffix (entry_name e) \<notin> set allowed_extensions then Some ''file has non-allowlisted extension''
      else None)"

fun first_error :: "folder_entry list \<Rightarrow> string option" where
  "first_error [] = None"
| "first_error (e # es) = (case file_error e of Some m \<Rightarrow> Some m | None \<Rightarrow> first_error es)"

text \<open>\<open>content.replace(b"\r\n", b"\n")\<close>\<close>

fun crlf_to_lf :: "string \<Rightarrow> string" where
  "crlf_to_lf (a # b # s) =
     (if a = CHR 0x0D \<and> b = CHR 0x0A then CHR 0x0A # crlf_to_lf s else a # crlf_to_lf (b # s))"
| "crlf_to_lf s = s"

definition chunk :: "string \<times> string \<Rightarrow> string" where
  "chunk f = fst f @ [CHR 0x00] @ str_of_nat (length (snd f)) @ [CHR 0x00] @ snd f @ [CHR 0x00]"

definition normal_file :: "folder_entry \<Rightarrow> string \<times> string" where
  "normal_file e = (fe_rel e, crlf_to_lf (fe_content e))"

definition hashed_bytes :: "folder_entry list \<Rightarrow> string" where
  "hashed_bytes files = concat (map (chunk \<circ> normal_file) (sort_key fe_rel files))"

definition compute_runbook_content_hash :: "(string \<Rightarrow> string) \<Rightarrow> folder_entry list \<Rightarrow> string + string" where
  "compute_runbook_content_hash sha256 entries =
     (if list_ex fe_symlink entries then Inl ''runbook folder contains symlink''
      else
        (let files = filter fe_is_file entries
         in if max_file_count < length files then Inl ''folder exceeds file count limit''
            else (case first_error files of
                    Some m \<Rightarrow> Inl m
                  | None \<Rightarrow> Inr (hash_prefix @ sha256 (hashed_bytes files)))))"

section \<open>The hashed bytes determine the files\<close>

lemma str_of_nat_digits: "set (str_of_nat n) \<subseteq> set (map char_of [48..<58 :: nat])"
proof (induction n rule: less_induct)
  case (less n)
  have digit: "char_of (48 + k :: nat) \<in> set (map char_of [48..<58 :: nat])" if "k < 10" for k
    using that by auto
  show ?case
  proof (cases "n < 10")
    case True
    with digit show ?thesis by (simp add: str_of_nat.simps [of n])
  next
    case False
    then have "set (str_of_nat (n div 10)) \<subseteq> set (map char_of [48..<58 :: nat])" by (intro less) auto
    with digit [of "n mod 10"] False show ?thesis by (simp add: str_of_nat.simps [of n])
  qed
qed

lemma nul_not_digit: "CHR 0x00 \<notin> set (str_of_nat n)"
proof
  assume "CHR 0x00 \<in> set (str_of_nat n)"
  then obtain k :: nat where "48 \<le> k" "k < 58" "char_of k = CHR 0x00" using str_of_nat_digits by fastforce
  then have "(of_char (char_of k) :: nat) = 0" by simp
  with \<open>48 \<le> k\<close> \<open>k < 58\<close> show False by simp
qed

definition decimal :: "string \<Rightarrow> nat" where
  "decimal s = foldl (\<lambda>a c. 10 * a + (of_char c - 48)) 0 s"

lemma decimal_str_of_nat: "decimal (str_of_nat n) = n"
proof (induction n rule: less_induct)
  case (less n)
  show ?case
  proof (cases "n < 10")
    case False
    then have "decimal (str_of_nat (n div 10)) = n div 10" by (intro less) auto
    with False show ?thesis by (simp add: str_of_nat.simps [of n] decimal_def)
  qed (simp add: str_of_nat.simps [of n] decimal_def)
qed

lemma str_of_nat_inject: "str_of_nat m = str_of_nat n \<longleftrightarrow> m = n"
  by (metis decimal_str_of_nat)

lemma split_at_nul:
  "CHR 0x00 \<notin> set a \<Longrightarrow> CHR 0x00 \<notin> set b \<Longrightarrow> a @ CHR 0x00 # x = b @ CHR 0x00 # y \<longleftrightarrow> a = b \<and> x = y"
  by (auto simp: append_eq_append_conv2 append_eq_Cons_conv Cons_eq_append_conv)

lemma chunk_inject:
  assumes "CHR 0x00 \<notin> set (fst f)" "CHR 0x00 \<notin> set (fst g)"
  shows "chunk f @ x = chunk g @ y \<longleftrightarrow> f = g \<and> x = y"
proof
  assume eq: "chunk f @ x = chunk g @ y"
  let ?rest = "\<lambda>h z. str_of_nat (length (snd h)) @ CHR 0x00 # (snd h @ CHR 0x00 # z)"
  have "fst f @ CHR 0x00 # ?rest f x = fst g @ CHR 0x00 # ?rest g y" using eq by (simp add: chunk_def)
  then have names: "fst f = fst g" and "?rest f x = ?rest g y"
    using split_at_nul [OF assms] by blast+
  then have "length (snd f) = length (snd g)" "snd f @ CHR 0x00 # x = snd g @ CHR 0x00 # y"
    using split_at_nul [OF nul_not_digit nul_not_digit] str_of_nat_inject by blast+
  with names show "f = g \<and> x = y" by (simp add: prod_eq_iff)
qed simp

lemma chunks_inject:
  "\<forall>f \<in> set fs. CHR 0x00 \<notin> set (fst f) \<Longrightarrow> \<forall>g \<in> set gs. CHR 0x00 \<notin> set (fst g) \<Longrightarrow>
     concat (map chunk fs) = concat (map chunk gs) \<longleftrightarrow> fs = gs"
proof (induction fs arbitrary: gs)
  case Nil
  then show ?case by (cases gs) (auto simp: chunk_def)
next
  case (Cons f fs)
  show ?case
  proof (cases gs)
    case Nil
    then show ?thesis by (simp add: chunk_def)
  next
    case gs: (Cons g gs')
    have "concat (map chunk (f # fs)) = concat (map chunk gs) \<longleftrightarrow> f = g \<and> concat (map chunk fs) = concat (map chunk gs')"
      using chunk_inject [of f g "concat (map chunk fs)" "concat (map chunk gs')"] Cons.prems gs by simp
    with Cons gs show ?thesis by simp
  qed
qed

text \<open>What a folder holds for the hash: each path with its content after line-end normalization.\<close>

definition folder_contents :: "folder_entry list \<Rightarrow> string \<Rightarrow> string option" where
  "folder_contents files = map_of (map normal_file files)"

lemma sorted_files_eq:
  assumes "distinct (map fe_rel fs)" "distinct (map fe_rel gs)"
  shows "map normal_file (sort_key fe_rel fs) = map normal_file (sort_key fe_rel gs) \<longleftrightarrow>
    folder_contents fs = folder_contents gs"
proof -
  let ?s = "\<lambda>hs. map normal_file (sort_key fe_rel hs)"
  have d: "distinct (map fst (map normal_file hs))" if "distinct (map fe_rel hs)" for hs
    using that by (simp add: normal_file_def o_def)
  have m: "map_of (?s hs) = folder_contents hs" if "distinct (map fe_rel hs)" for hs
  proof -
    have "distinct (map fe_rel (sort_key fe_rel hs))"
      using that by (metis distinct_map distinct_sort set_sort)
    then have "map_of (?s hs) = map_of (map normal_file hs) \<longleftrightarrow> set (?s hs) = set (map normal_file hs)"
      by (intro map_of_inject_set d that)
    then show ?thesis by (simp add: folder_contents_def)
  qed
  have sorted: "sorted (map fst (?s hs))" for hs by (simp add: normal_file_def o_def)
  show ?thesis
  proof
    assume "?s fs = ?s gs"
    with m assms show "folder_contents fs = folder_contents gs" by metis
  next
    assume eq: "folder_contents fs = folder_contents gs"
    have ds: "distinct (map fst (?s hs))" if "distinct (map fe_rel hs)" for hs
      using that by (simp add: normal_file_def o_def distinct_map)
    have "set (?s fs) = set (?s gs)" using m [OF assms(1)] m [OF assms(2)] eq
        map_of_inject_set [OF ds [OF assms(1)] ds [OF assms(2)]] by simp
    moreover have "map fst (?s fs) = map fst (?s gs)"
      using ds assms sorted calculation by (intro sorted_distinct_set_unique) (auto simp del: map_map)
    moreover have "inj_on fst (set (?s fs) \<union> set (?s gs))"
      using ds [OF assms(1)] calculation(1) by (simp only: distinct_map [of fst] Un_absorb)
    ultimately show "?s fs = ?s gs" using map_inj_on by blast
  qed
qed

text \<open>
  A pinned hash stands for the folder's content: for two accepted folders, the bytes that are
  hashed agree exactly when the folders hold the same paths with the same contents up to line
  ends, wherever the folders lie and in whatever order the file system lists them.
\<close>

theorem hashed_bytes_faithful:
  assumes "distinct (map fe_rel fs)" and "distinct (map fe_rel gs)"
    and "\<forall>f \<in> set (fs @ gs). CHR 0x00 \<notin> set (fe_rel f)"
  shows "hashed_bytes fs = hashed_bytes gs \<longleftrightarrow> folder_contents fs = folder_contents gs"
proof -
  have "\<forall>f \<in> set (map normal_file (sort_key fe_rel hs)). CHR 0x00 \<notin> set (fst f)" if "set hs \<subseteq> set (fs @ gs)" for hs
    using assms(3) that by (auto simp: normal_file_def)
  from chunks_inject [OF this this, of fs gs] show ?thesis
    using sorted_files_eq [OF assms(1,2)] by (simp add: hashed_bytes_def)
qed

definition example_file :: "string \<Rightarrow> string \<Rightarrow> folder_entry" where
  "example_file p c = \<lparr>fe_rel = p, fe_symlink = False, fe_is_file = True, fe_content = c\<rparr>"

theorem hashed_bytes_faithful_witness:
  "hashed_bytes [example_file ''a.md'' ''x'', example_file ''b.sh'' ''y''] =
     hashed_bytes [example_file ''b.sh'' ''y'', example_file ''a.md'' ''x''] \<longleftrightarrow>
   folder_contents [example_file ''a.md'' ''x'', example_file ''b.sh'' ''y''] =
     folder_contents [example_file ''b.sh'' ''y'', example_file ''a.md'' ''x'']"
  by (rule hashed_bytes_faithful) (simp_all add: example_file_def)

end
