(* ===== verification/Registry.thy ===== *)
theory Registry
  imports Loader RunbookHash Orchestrator
begin

text \<open>
  The runbook registry (kernel/runbooks/repository.py) with the two routes that write it
  (\<open>refresh_runbooks\<close> and \<open>patch_runbook_gates\<close> of kernel/api/routers/runbooks.py).  The file system
  is the environment's: what the scan of the root finds, the files below a folder, and whether a
  path exists.  Primary key and foreign key are part of the inserts and deletes.  The predicate
  \<open>maintains I m\<close> says that the handler \<open>m\<close> keeps the invariant \<open>I\<close> of the store, whether it returns
  or raises.
\<close>

section \<open>Environment and results\<close>

record renv = aenv +
  runbooks_root :: string
  root_entries :: "nat \<Rightarrow> folder_view list option"
  folder_files :: "nat \<Rightarrow> string \<Rightarrow> folder_entry list"
  sha256_hex :: "string \<Rightarrow> string"

record refresh_outcome =
  rf_registered :: "string list"
  rf_refreshed :: "string list"
  rf_skipped :: "string list"
  rf_errors :: "load_report list"
  rf_pruned :: "string list"
  rf_prune_skipped :: "string list"

definition no_outcome :: refresh_outcome where
  "no_outcome = \<lparr>rf_registered = [], rf_refreshed = [], rf_skipped = [], rf_errors = [], rf_pruned = [], rf_prune_skipped = []\<rparr>"

section \<open>Rows\<close>

definition runbook_at :: "string \<Rightarrow> store \<Rightarrow> runbook option" where
  "runbook_at p s = List.find (\<lambda>b. rb_path b = p) (s_runbooks s)"

definition count_runs :: "string \<Rightarrow> store \<Rightarrow> nat" where
  "count_runs i s = length (filter (\<lambda>r. r_runbook_id r = i) (s_runs s))"

definition add_runbook :: "runbook \<Rightarrow> store \<Rightarrow> store" where
  "add_runbook b s = s\<lparr>s_runbooks := s_runbooks s @ [b]\<rparr>"

definition on_runbook :: "string \<Rightarrow> (runbook \<Rightarrow> runbook) \<Rightarrow> store \<Rightarrow> store" where
  "on_runbook i f s = s\<lparr>s_runbooks := map (\<lambda>b. if rb_id b = i then f b else b) (s_runbooks s)\<rparr>"

definition delete_runbook :: "string \<Rightarrow> store \<Rightarrow> store" where
  "delete_runbook i s = s\<lparr>s_runbooks := filter (\<lambda>b. rb_id b \<noteq> i) (s_runbooks s)\<rparr>"

definition new_row :: "string \<Rightarrow> string \<Rightarrow> runbook_config \<Rightarrow> string \<Rightarrow> int \<Rightarrow> runbook" where
  "new_row new_id folder config content_hash now =
     \<lparr>rb_id = new_id, rb_path = folder, rb_created_at = now,
      rb_patterns = serialize_matchers (g_match_patterns config),
      rb_risk_tag = risk_value (g_risk_tag config), rb_dry_run_required = g_dry_run_required config,
      rb_rate_limit = Some (g_rate_limit_per_hour config), rb_cooldown = Some (g_cooldown_seconds config),
      rb_enabled = False, rb_auto_trigger = False, rb_hash = Some content_hash\<rparr>"

text \<open>The columns a refresh writes: every one that the files decide, neither of the two gates.\<close>

definition recache :: "string \<Rightarrow> runbook_config \<Rightarrow> string \<Rightarrow> runbook \<Rightarrow> runbook" where
  "recache folder config content_hash b = b
     \<lparr>rb_path := folder, rb_patterns := serialize_matchers (g_match_patterns config),
      rb_risk_tag := risk_value (g_risk_tag config), rb_dry_run_required := g_dry_run_required config,
      rb_rate_limit := Some (g_rate_limit_per_hour config), rb_cooldown := Some (g_cooldown_seconds config),
      rb_hash := Some content_hash\<rparr>"

definition set_gates :: "bool option \<Rightarrow> bool option \<Rightarrow> runbook \<Rightarrow> runbook" where
  "set_gates enabled auto_trigger b = b
     \<lparr>rb_enabled := (case enabled of None \<Rightarrow> rb_enabled b | Some v \<Rightarrow> v),
      rb_auto_trigger := (case auto_trigger of None \<Rightarrow> rb_auto_trigger b | Some v \<Rightarrow> v)\<rparr>"

definition config_fields :: "string \<Rightarrow> runbook_config \<Rightarrow> string \<Rightarrow> json_object" where
  "config_fields folder config content_hash =
     [(''path'', JStr folder), (''risk_tag'', JStr (risk_value (g_risk_tag config))),
      (''dry_run_required'', JBool (g_dry_run_required config)),
      (''rate_limit_per_hour'', JInt (g_rate_limit_per_hour config)),
      (''cooldown_seconds'', JInt (g_cooldown_seconds config)), (''content_hash'', JStr content_hash)]"

section \<open>Writes of a refresh\<close>

definition insert_runbook ::
  "renv \<Rightarrow> string \<Rightarrow> runbook_config \<Rightarrow> string \<Rightarrow> string \<Rightarrow> string option \<Rightarrow> unit afx" where
  "insert_runbook env folder config content_hash who ip =
     bindP (ask (clock env)) (\<lambda>now.
     bindP (ask (uuid env)) (\<lambda>new_id.
     txn env
       (bindP (getS (\<lambda>s. new_id \<in> rb_id ` set (s_runbooks s))) (\<lambda>clash.
        if clash then raise (IntegrityErr ''UNIQUE constraint failed: runbooks.id'')
        else
          seqP (modS (add_runbook (new_row new_id folder config content_hash now)))
            (insert_audit env who ''runbook_registered'' None
              (Some ((''id'', JStr new_id) # config_fields folder config content_hash)) ip (Some now))))))"

definition update_cached ::
  "renv \<Rightarrow> string \<Rightarrow> string \<Rightarrow> runbook_config \<Rightarrow> string \<Rightarrow> string \<Rightarrow> string option \<Rightarrow> runbook \<Rightarrow> unit afx" where
  "update_cached env runbook_id folder config content_hash who ip old =
     bindP (ask (clock env)) (\<lambda>now.
     txn env
       (seqP (modS (on_runbook runbook_id (recache folder config content_hash)))
          (insert_audit env who ''runbook_refreshed''
            (Some [(''content_hash'', jopt_str (rb_hash old)), (''risk_tag'', JStr (rb_risk_tag old)),
                   (''dry_run_required'', JBool (rb_dry_run_required old)),
                   (''rate_limit_per_hour'', jopt_int (rb_rate_limit old)),
                   (''cooldown_seconds'', jopt_int (rb_cooldown old)), (''path'', JStr (rb_path old))])
            (Some (config_fields folder config content_hash)) ip (Some now))))"

definition prune :: "renv \<Rightarrow> runbook \<Rightarrow> string \<Rightarrow> string option \<Rightarrow> unit afx" where
  "prune env b who ip =
     txn env
       (bindP (getS (\<lambda>s. 0 < count_runs (rb_id b) s)) (\<lambda>referenced.
        if referenced then raise (IntegrityErr ''FOREIGN KEY constraint failed'')
        else
          seqP (modS (delete_runbook (rb_id b)))
            (insert_audit env who ''runbook_pruned''
              (Some [(''id'', JStr (rb_id b)), (''path'', JStr (rb_path b)), (''content_hash'', jopt_str (rb_hash b)),
                     (''enabled'', JBool (rb_enabled b)), (''auto_trigger'', JBool (rb_auto_trigger b)),
                     (''risk_tag'', JStr (rb_risk_tag b))])
              None ip None)))"

definition emit_prune_skipped :: "renv \<Rightarrow> runbook \<Rightarrow> int \<Rightarrow> string \<Rightarrow> string option \<Rightarrow> unit afx" where
  "emit_prune_skipped env b runs_count who ip =
     txn env (insert_audit env who ''runbook_prune_skipped''
       (Some [(''id'', JStr (rb_id b)), (''path'', JStr (rb_path b)), (''runs_count'', JInt runs_count)]) None ip None)"

section \<open>The refresh\<close>

fun prune_rows ::
  "renv \<Rightarrow> string list \<Rightarrow> string \<Rightarrow> string option \<Rightarrow> runbook list \<Rightarrow> refresh_outcome \<Rightarrow> refresh_outcome afx" where
  "prune_rows env scanned who ip [] out = ret out"
| "prune_rows env scanned who ip (b # bs) out =
     (let skipped = out\<lparr>rf_prune_skipped := rf_prune_skipped out @ [rb_path b]\<rparr>
      in if rb_path b \<in> set scanned then prune_rows env scanned who ip bs out
         else
           bindP (ask (\<lambda>k. os_exists env k (rb_path b))) (\<lambda>exists.
           if exists then prune_rows env scanned who ip bs out
           else
             bindP (fetch env (count_runs (rb_id b))) (\<lambda>runs_count.
             if 0 < runs_count then
               seqP (emit_prune_skipped env b (int runs_count) who ip) (prune_rows env scanned who ip bs skipped)
             else
               bindP (tryP (seqP (prune env b who ip) (ret True))
                        (\<lambda>e. case e of
                           IntegrityErr m \<Rightarrow> seqP (emit_prune_skipped env b (- 1) who ip) (ret False)
                         | _ \<Rightarrow> raise e)) (\<lambda>deleted.
               prune_rows env scanned who ip bs
                 (if deleted then out\<lparr>rf_pruned := rf_pruned out @ [rb_path b]\<rparr> else skipped)))))"

definition root_scan_failed :: "renv \<Rightarrow> scan_result \<Rightarrow> bool" where
  "root_scan_failed env scan \<longleftrightarrow> list_ex (\<lambda>e. le_path e = runbooks_root env) (sc_errors scan)"

definition run_prune_pass ::
  "renv \<Rightarrow> scan_result \<Rightarrow> string \<Rightarrow> string option \<Rightarrow> refresh_outcome \<Rightarrow> refresh_outcome afx" where
  "run_prune_pass env scan who ip out =
     (if root_scan_failed env scan then ret out
      else bindP (fetch env list_runbooks) (\<lambda>all_rows.
        prune_rows env (map ld_folder (sc_loaded scan)) who ip all_rows out))"

fun reconcile_folders ::
  "renv \<Rightarrow> string \<Rightarrow> string option \<Rightarrow> loaded_runbook list \<Rightarrow> refresh_outcome \<Rightarrow> refresh_outcome afx" where
  "reconcile_folders env who ip [] out = ret out"
| "reconcile_folders env who ip (l # ls) out =
     bindP (ask (\<lambda>k. compute_runbook_content_hash (sha256_hex env) (folder_files env k (ld_folder l)))) (\<lambda>hashed.
     case hashed of
       Inl m \<Rightarrow> reconcile_folders env who ip ls
                  (out\<lparr>rf_errors := rf_errors out @ [\<lparr>le_path = ld_folder l, le_message = m\<rparr>]\<rparr>)
     | Inr content_hash \<Rightarrow>
         bindP (fetch env (runbook_at (ld_folder l))) (\<lambda>existing.
         case existing of
           None \<Rightarrow>
             seqP (insert_runbook env (ld_folder l) (ld_config l) content_hash who ip)
               (reconcile_folders env who ip ls (out\<lparr>rf_registered := rf_registered out @ [ld_folder l]\<rparr>))
         | Some b \<Rightarrow>
             if rb_hash b = Some content_hash then
               reconcile_folders env who ip ls (out\<lparr>rf_skipped := rf_skipped out @ [ld_folder l]\<rparr>)
             else
               seqP (update_cached env (rb_id b) (ld_folder l) (ld_config l) content_hash who ip b)
                 (reconcile_folders env who ip ls (out\<lparr>rf_refreshed := rf_refreshed out @ [ld_folder l]\<rparr>))))"

definition reconcile :: "renv \<Rightarrow> scan_result \<Rightarrow> string \<Rightarrow> string option \<Rightarrow> refresh_outcome afx" where
  "reconcile env scan who ip =
     bindP (reconcile_folders env who ip (sc_loaded scan) (no_outcome\<lparr>rf_errors := sc_errors scan\<rparr>))
       (run_prune_pass env scan who ip)"

definition refresh_runbooks :: "renv \<Rightarrow> string \<Rightarrow> string option \<Rightarrow> refresh_outcome afx" where
  "refresh_runbooks env who ip =
     bindP (ask (root_entries env)) (\<lambda>entries.
     bindP (liftE (scan_runbooks (runbooks_root env) entries)) (\<lambda>scan.
     reconcile env scan who ip))"

section \<open>The operator's gates\<close>

text \<open>The value to write, when the request gives one that differs from the stored one.\<close>

definition changed :: "bool option \<Rightarrow> bool \<Rightarrow> bool option" where
  "changed requested current = (if requested = Some (\<not> current) then requested else None)"

definition gate_fields :: "bool option \<Rightarrow> bool option \<Rightarrow> (bool \<Rightarrow> bool) \<Rightarrow> json_object" where
  "gate_fields enabled auto_trigger f =
     (case enabled of None \<Rightarrow> [] | Some v \<Rightarrow> [(''enabled'', JBool (f v))]) @
     (case auto_trigger of None \<Rightarrow> [] | Some v \<Rightarrow> [(''auto_trigger'', JBool (f v))])"

definition patch_gates ::
  "renv \<Rightarrow> string \<Rightarrow> bool option \<Rightarrow> bool option \<Rightarrow> string \<Rightarrow> string option \<Rightarrow> runbook afx" where
  "patch_gates env runbook_id enabled auto_trigger who ip =
     bindP (fetch env (get_runbook runbook_id)) (\<lambda>existing.
     case existing of
       None \<Rightarrow> raise (LookupErr (''runbook '' @ runbook_id @ '' not found''))
     | Some b \<Rightarrow>
         let e = changed enabled (rb_enabled b); a = changed auto_trigger (rb_auto_trigger b)
         in if e = None \<and> a = None then ret b
            else
              bindP (ask (clock env)) (\<lambda>now.
              seqP (txn env
                     (seqP (modS (on_runbook runbook_id (set_gates e a)))
                       (insert_audit env who ''runbook_gates_changed'' (Some (gate_fields e a Not))
                         (Some (gate_fields e a id)) ip (Some now))))
                (ret (set_gates enabled auto_trigger b))))"

definition patch_runbook_gates ::
  "renv \<Rightarrow> string \<Rightarrow> bool option \<Rightarrow> bool option \<Rightarrow> string \<Rightarrow> string option \<Rightarrow> (http_problem + runbook) afx" where
  "patch_runbook_gates env runbook_id enabled auto_trigger who ip =
     (let patch =
        tryP (bindP (patch_gates env runbook_id enabled auto_trigger who ip) (\<lambda>b. ret (Inr b)))
          (\<lambda>e. case e of LookupErr m \<Rightarrow> ret (Inl (HttpProblem 404 ''not_found'' m)) | _ \<Rightarrow> raise e)
      in if auto_trigger = Some True then
           bindP (fetch env (get_runbook runbook_id)) (\<lambda>found.
           case found of
             None \<Rightarrow> ret (Inl (HttpProblem 404 ''not_found'' (''runbook '' @ runbook_id @ '' not found'')))
           | Some b \<Rightarrow>
               if rb_risk_tag b = ''risky'' then
                 ret (Inl (HttpProblem 400 ''risky_auto_trigger_denied''
                   (''cannot enable auto_trigger on risky runbook '' @ runbook_id @
                    ''; flip risk_tag first or use the approval flow'')))
               else patch)
         else patch)"

section \<open>What a refresh may do to the registry\<close>

text \<open>
  The writes of a refresh: a new row has a fresh id and both gates off; a cached row keeps its path,
  since it was found by it; a deleted row was read, may be pruned, and has no runs.
\<close>

locale registry_writes =
  fixes I :: "store \<Rightarrow> bool" and may_prune :: "runbook \<Rightarrow> bool"
  assumes w_audit: "I s \<Longrightarrow> I (add_audit row s)"
    and w_insert: "I s \<Longrightarrow> rb_id b \<notin> rb_id ` set (s_runbooks s) \<Longrightarrow>
      \<not> rb_enabled b \<Longrightarrow> \<not> rb_auto_trigger b \<Longrightarrow> I (add_runbook b s)"
    and w_recache: "I s0 \<Longrightarrow> b \<in> set (s_runbooks s0) \<Longrightarrow> I s \<Longrightarrow>
      I (on_runbook (rb_id b) (recache (rb_path b) config content_hash) s)"
    and w_delete: "I s0 \<Longrightarrow> b \<in> set (s_runbooks s0) \<Longrightarrow> may_prune b \<Longrightarrow> count_runs (rb_id b) s = 0 \<Longrightarrow>
      I s \<Longrightarrow> I (delete_runbook (rb_id b) s)"
begin

lemma guar_audit: "guar (preserves I) (insert_audit env who what bf af ip t)"
  by (rule guar_insert_audit) (simp add: preserves_def w_audit)

lemma guar_insert_runbook:
  assumes "rely (preserves I) env"
  shows "guar (preserves I) (insert_runbook env folder config h who ip)"
  unfolding insert_runbook_def
  by (intro guar_intros guar_checked guar_audit assms) (simp add: preserves_def w_insert new_row_def)

lemma guar_update_cached:
  assumes "rely (preserves I) env" "I s0" "b \<in> set (s_runbooks s0)"
  shows "guar (preserves I) (update_cached env (rb_id b) (rb_path b) config h who ip b)"
  unfolding update_cached_def
  by (intro guar_intros guar_modS_step guar_audit assms) (simp add: preserves_def w_recache [OF assms(2,3)])

lemma guar_prune:
  assumes "rely (preserves I) env" "I s0" "b \<in> set (s_runbooks s0)" "may_prune b"
  shows "guar (preserves I) (prune env b who ip)"
  unfolding prune_def
  by (intro guar_intros guar_checked guar_audit assms) (simp add: preserves_def w_delete [OF assms(2-4)])

lemma guar_prune_rows:
  assumes r: "rely (preserves I) env" and "I s0"
    and may: "\<And>b k. rb_path b \<notin> set scanned \<Longrightarrow> \<not> os_exists env k (rb_path b) \<Longrightarrow> may_prune b"
  shows "set bs \<subseteq> set (s_runbooks s0) \<Longrightarrow> guar (preserves I) (prune_rows env scanned who ip bs out)"
proof (induction bs arbitrary: out)
  case (Cons b bs)
  then have ih: "guar (preserves I) (prune_rows env scanned who ip bs out')" for out' by simp
  have b: "b \<in> set (s_runbooks s0)" using Cons.prems by simp
  have skip: "guar (preserves I) (emit_prune_skipped env b n who ip)" for n
    unfolding emit_prune_skipped_def by (intro guar_intros guar_audit r)
  have race: "guar (preserves I) (case e of IntegrityErr m \<Rightarrow> seqP (emit_prune_skipped env b (- 1) who ip) (ret False) | _ \<Rightarrow> raise e)" for e
    by (cases e) (simp_all add: guar_intros skip)
  show ?case
  proof (cases "rb_path b \<in> set scanned")
    case True
    with ih show ?thesis by (simp add: Let_def)
  next
    case False
    have "guar (preserves I) (if os_exists env k (rb_path b) then prune_rows env scanned who ip bs out
       else bindP (fetch env (count_runs (rb_id b))) (\<lambda>runs_count.
         if 0 < runs_count then
           seqP (emit_prune_skipped env b (int runs_count) who ip)
             (prune_rows env scanned who ip bs (out\<lparr>rf_prune_skipped := rf_prune_skipped out @ [rb_path b]\<rparr>))
         else
           bindP (tryP (seqP (prune env b who ip) (ret True))
                    (\<lambda>e. case e of
                       IntegrityErr m \<Rightarrow> seqP (emit_prune_skipped env b (- 1) who ip) (ret False)
                     | _ \<Rightarrow> raise e)) (\<lambda>deleted.
           prune_rows env scanned who ip bs
             (if deleted then out\<lparr>rf_pruned := rf_pruned out @ [rb_path b]\<rparr>
              else out\<lparr>rf_prune_skipped := rf_prune_skipped out @ [rb_path b]\<rparr>))))" for k
    proof (cases "os_exists env k (rb_path b)")
      case True
      with ih show ?thesis by simp
    next
      case exists: False
      have "guar (preserves I) (prune env b who ip)" by (rule guar_prune [OF r \<open>I s0\<close> b may [OF False exists]])
      with exists show ?thesis by (simp only: if_False) (intro guar_intros ih skip race r)
    qed
    with False show ?thesis by (simp only: prune_rows.simps Let_def if_False) (rule guar_ask_bind)
  qed
qed (simp add: guar_intros)

lemma guar_reconcile_folders:
  assumes r: "rely (preserves I) env"
  shows "guar (preserves I) (reconcile_folders env who ip ls out)"
proof (induction ls arbitrary: out)
  case (Cons l ls)
  have found: "guar (preserves I) (update_cached env (rb_id b) (ld_folder l) (ld_config l) h who ip b)"
    if "I s" "runbook_at (ld_folder l) s = Some b" for s b h
  proof -
    have "b \<in> set (s_runbooks s)" "rb_path b = ld_folder l"
      using that(2) by (auto simp: runbook_at_def find_Some_iff)
    with guar_update_cached [OF r that(1)] show ?thesis by metis
  qed
  show ?case
    unfolding reconcile_folders.simps
    by (intro guar_ask_bind, split sum.split, intro conjI allI impI Cons.IH guar_fetch_bind r, split option.split)
      (auto intro!: guar_intros guar_insert_runbook Cons.IH found r)
qed (simp add: guar_intros)

lemma guar_reconcile:
  assumes r: "rely (preserves I) env"
    and may: "\<And>b k. \<not> root_scan_failed env scan \<Longrightarrow> rb_path b \<notin> ld_folder ` set (sc_loaded scan) \<Longrightarrow>
      \<not> os_exists env k (rb_path b) \<Longrightarrow> may_prune b"
  shows "guar (preserves I) (reconcile env scan who ip)"
proof -
  have "guar (preserves I) (run_prune_pass env scan who ip out)" for out
  proof (cases "root_scan_failed env scan")
    case False
    then show ?thesis
      unfolding run_prune_pass_def
      by (simp only: if_False) (intro guar_fetch_bind guar_prune_rows r; auto simp: list_runbooks_def intro: may)
  qed (simp add: run_prune_pass_def guar_intros)
  then show ?thesis unfolding reconcile_def by (intro guar_intros guar_reconcile_folders r)
qed

end

lemma recache_simps [simp]:
  "rb_id (recache folder c h b) = rb_id b" "rb_path (recache folder c h b) = folder"
  "rb_hash (recache folder c h b) = Some h"
  "rb_enabled (recache folder c h b) = rb_enabled b" "rb_auto_trigger (recache folder c h b) = rb_auto_trigger b"
  by (simp_all add: recache_def)

lemma table_simps [simp]:
  "s_runbooks (add_audit row s) = s_runbooks s" "s_runs (add_audit row s) = s_runs s"
  "s_runbooks (add_runbook b s) = s_runbooks s @ [b]" "s_runs (add_runbook b s) = s_runs s"
  "s_runs (on_runbook i f s) = s_runs s"
  "s_runbooks (delete_runbook i s) = filter (\<lambda>b. rb_id b \<noteq> i) (s_runbooks s)"
  "s_runs (delete_runbook i s) = s_runs s"
  by (simp_all add: add_audit_def add_runbook_def on_runbook_def delete_runbook_def)

lemma on_runbook_rows: "s_runbooks (on_runbook i f s) = map (\<lambda>b. if rb_id b = i then f b else b) (s_runbooks s)"
  by (simp add: on_runbook_def)

lemma map_filter_update:
  "(\<And>b. g (f b) = g b) \<Longrightarrow> (\<And>b. Q (f b) = Q b) \<Longrightarrow>
     map g (filter Q (map (\<lambda>b. if P b then f b else b) bs)) = map g (filter Q bs)"
  by (induction bs) auto

lemma ids_recached: "map rb_id (s_runbooks (on_runbook i (recache p c h) s)) = map rb_id (s_runbooks s)"
  using map_filter_update [of rb_id "recache p c h" "\<lambda>_. True"] by (simp add: on_runbook_rows)

lemma id_set_recached: "rb_id ` set (s_runbooks (on_runbook i (recache p c h) s)) = rb_id ` set (s_runbooks s)"
  using arg_cong [OF ids_recached, of set] by (simp only: list.set_map)

text \<open>First use: a gate that is on was on before, on the same row.\<close>

definition switched_on :: "store \<Rightarrow> (string \<times> bool \<times> bool) list" where
  "switched_on s =
     map (\<lambda>b. (rb_id b, rb_enabled b, rb_auto_trigger b))
       (filter (\<lambda>b. rb_enabled b \<or> rb_auto_trigger b) (s_runbooks s))"

definition gates_kept :: "store \<Rightarrow> store \<Rightarrow> bool" where
  "gates_kept s t \<longleftrightarrow> set (switched_on t) \<subseteq> set (switched_on s)"

lemma switched_on_recached: "switched_on (on_runbook i (recache p c h) s) = switched_on s"
  by (simp add: switched_on_def on_runbook_rows map_filter_update del: filter_map)

lemma gates_kept_trans: "gates_kept s t \<Longrightarrow> gates_kept t u \<Longrightarrow> gates_kept s u"
  by (auto simp: gates_kept_def)

lemma gates_kept_refl: "gates_kept s s"
  by (simp add: gates_kept_def)

interpretation armed: registry_writes "gates_kept s0" "\<lambda>_. True" for s0
  by unfold_locales (auto simp: gates_kept_def switched_on_recached, (auto simp: switched_on_def)+)

text \<open>Second use: every run has its runbook.\<close>

definition runs_have_runbooks :: "store \<Rightarrow> bool" where
  "runs_have_runbooks s \<longleftrightarrow> (\<forall>r \<in> set (s_runs s). r_runbook_id r \<in> rb_id ` set (s_runbooks s))"

interpretation history: registry_writes runs_have_runbooks "\<lambda>_. True"
proof unfold_locales
  fix s s0 b row config content_hash
  show "runs_have_runbooks (add_audit row s)" if "runs_have_runbooks s"
    using that by (simp add: runs_have_runbooks_def)
  show "runs_have_runbooks (add_runbook b s)" if "runs_have_runbooks s"
    using that by (simp add: runs_have_runbooks_def)
  show "runs_have_runbooks (on_runbook (rb_id b) (recache (rb_path b) config content_hash) s)" if "runs_have_runbooks s"
    using that by (simp only: runs_have_runbooks_def id_set_recached table_simps)
  show "runs_have_runbooks (delete_runbook (rb_id b) s)" if none: "count_runs (rb_id b) s = 0" and all: "runs_have_runbooks s"
    unfolding runs_have_runbooks_def table_simps
  proof
    fix r assume r: "r \<in> set (s_runs s)"
    with none have "r_runbook_id r \<noteq> rb_id b" by (auto simp: count_runs_def filter_empty_conv)
    moreover obtain b' where "b' \<in> set (s_runbooks s)" "rb_id b' = r_runbook_id r"
      using all r unfolding runs_have_runbooks_def by fastforce
    ultimately show "r_runbook_id r \<in> rb_id ` set (filter (\<lambda>b'. rb_id b' \<noteq> rb_id b) (s_runbooks s))"
      unfolding image_iff by (intro bexI [of _ b']) simp_all
  qed
qed

text \<open>Third use: a row that was there is there, by its id and its path, unless its path may go.\<close>

definition paths_of :: "string \<Rightarrow> store \<Rightarrow> string set" where
  "paths_of i s = rb_path ` {b \<in> set (s_runbooks s). rb_id b = i}"

definition row_stays :: "runbook \<Rightarrow> store \<Rightarrow> bool" where
  "row_stays b s \<longleftrightarrow> paths_of (rb_id b) s = {rb_path b}"

definition stays_unless :: "(string \<Rightarrow> bool) \<Rightarrow> runbook \<Rightarrow> store \<Rightarrow> bool" where
  "stays_unless P b s \<longleftrightarrow> \<not> P (rb_path b) \<longrightarrow> row_stays b s"

lemma paths_of_writes:
  "paths_of i (add_audit row s) = paths_of i s"
  "paths_of i (add_runbook b s) = (if rb_id b = i then insert (rb_path b) (paths_of i s) else paths_of i s)"
  "paths_of i (delete_runbook j s) = (if j = i then {} else paths_of i s)"
  by (auto simp: paths_of_def)

lemma paths_of_recached:
  "paths_of i (on_runbook j (recache p c h) s) = (if j = i \<and> paths_of i s \<noteq> {} then {p} else paths_of i s)"
proof (cases "j = i")
  case True
  have "rb_path ` set (filter (\<lambda>b. rb_id b = i) (map (\<lambda>b. if rb_id b = i then recache p c h b else b) bs)) =
      (if filter (\<lambda>b. rb_id b = i) bs = [] then {} else {p})" for bs
  proof (induction bs)
    case (Cons b bs)
    then show ?case by (cases "rb_id b = i") (simp_all del: set_filter)
  qed simp
  from this [of "s_runbooks s"] True have "paths_of i (on_runbook j (recache p c h) s) =
      (if filter (\<lambda>b. rb_id b = i) (s_runbooks s) = [] then {} else {p})"
    unfolding paths_of_def on_runbook_rows by (simp only: set_filter)
  moreover have "filter (\<lambda>b. rb_id b = i) (s_runbooks s) = [] \<longleftrightarrow> paths_of i s = {}"
    unfolding paths_of_def filter_empty_conv by blast
  ultimately show ?thesis using True by simp
next
  case False
  have "filter (\<lambda>b. rb_id b = i) (map (\<lambda>b. if rb_id b = j then recache p c h b else b) bs) =
      filter (\<lambda>b. rb_id b = i) bs" for bs
    using False by (induction bs) auto
  from arg_cong [OF this [of "s_runbooks s"], of set] False show ?thesis
    unfolding paths_of_def on_runbook_rows by (simp only: set_filter) simp
qed

lemma id_in_paths: "b \<in> set (s_runbooks s) \<Longrightarrow> rb_path b \<in> paths_of (rb_id b) s"
  by (auto simp: paths_of_def)

lemma row_stays_path: "row_stays b0 s \<Longrightarrow> b \<in> set (s_runbooks s) \<Longrightarrow> rb_id b = rb_id b0 \<Longrightarrow> rb_path b = rb_path b0"
  using id_in_paths by (fastforce simp: row_stays_def)

interpretation rows: registry_writes "stays_unless P b0" "\<lambda>b. P (rb_path b)" for P b0
proof unfold_locales
  fix s s0 b row config content_hash
  show "stays_unless P b0 (add_audit row s)" if "stays_unless P b0 s"
    using that by (simp add: stays_unless_def row_stays_def paths_of_writes)
  show "stays_unless P b0 (add_runbook b s)" if "stays_unless P b0 s" "rb_id b \<notin> rb_id ` set (s_runbooks s)"
  proof -
    have "rb_id b \<noteq> rb_id b0" if "row_stays b0 s"
    proof
      assume "rb_id b = rb_id b0"
      with \<open>rb_id b \<notin> rb_id ` set (s_runbooks s)\<close> have "{b \<in> set (s_runbooks s). rb_id b = rb_id b0} = {}"
        by (metis (mono_tags, lifting) empty_Collect_eq imageI)
      with that show False by (simp only: row_stays_def paths_of_def image_empty) simp
    qed
    with that(1) show ?thesis by (simp add: stays_unless_def row_stays_def paths_of_writes)
  qed
  show "stays_unless P b0 (on_runbook (rb_id b) (recache (rb_path b) config content_hash) s)"
    if "stays_unless P b0 s0" "b \<in> set (s_runbooks s0)" "stays_unless P b0 s"
    using that row_stays_path [of b0 s0 b] by (simp add: stays_unless_def row_stays_def paths_of_recached)
  show "stays_unless P b0 (delete_runbook (rb_id b) s)"
    if "stays_unless P b0 s0" "b \<in> set (s_runbooks s0)" "P (rb_path b)" "stays_unless P b0 s"
    using that row_stays_path [of b0 s0 b] by (auto simp: stays_unless_def row_stays_def paths_of_writes)
qed

section \<open>Safety of a refresh\<close>

text \<open>What was found at the root decides whether rows may go at all.\<close>

definition vanished :: "renv \<Rightarrow> folder_view list option \<Rightarrow> string \<Rightarrow> bool" where
  "vanished env entries p \<longleftrightarrow> entries \<noteq> None \<and> (\<exists>k. \<not> os_exists env k p) \<and>
     (\<forall>scan. scan_runbooks (runbooks_root env) entries = Inr scan \<longrightarrow> p \<notin> ld_folder ` set (sc_loaded scan))"

lemma root_missing_fails:
  "scan_runbooks (runbooks_root env) None = Inr scan \<Longrightarrow> root_scan_failed env scan"
  by (auto simp: scan_runbooks_def root_scan_failed_def)

lemma guar_refresh:
  assumes "\<And>scan. scan_runbooks (runbooks_root env) (root_entries env (ticks w)) = Inr scan \<Longrightarrow>
      guar R (reconcile env scan who ip)"
  shows "R\<^sup>*\<^sup>* (shared w) (shared (snd (refresh_runbooks env who ip w)))"
proof -
  let ?w = "w\<lparr>ticks := Suc (ticks w)\<rparr>"
  have "R\<^sup>*\<^sup>* (shared ?w) (shared (snd (reconcile env scan who ip ?w)))"
    if "scan_runbooks (runbooks_root env) (root_entries env (ticks w)) = Inr scan" for scan
    using assms [OF that] unfolding guar_def by blast
  then show ?thesis
    by (cases "scan_runbooks (runbooks_root env) (root_entries env (ticks w))")
      (simp_all add: refresh_runbooks_def run_simps liftE_def)
qed


text \<open>
  A refresh never deletes a runbook that has runs, also when a run is inserted between the count
  and the delete: if every run has its runbook before, and the other tasks keep it so, then every run
  has its runbook after, whatever the file system answers and however the refresh ends.
\<close>

theorem refresh_keeps_run_history:
  assumes "\<And>n s. runs_have_runbooks s \<Longrightarrow> runs_have_runbooks (other env n s)"
    and "runs_have_runbooks (shared w)"
  shows "runs_have_runbooks (shared (snd (refresh_runbooks env who ip w)))"
proof -
  have "rely (preserves runs_have_runbooks) env" using assms(1) by (auto simp: rely_preserves)
  from guar_refresh [OF history.guar_reconcile [OF this]] have
    "(preserves runs_have_runbooks)\<^sup>*\<^sup>* (shared w) (shared (snd (refresh_runbooks env who ip w)))" by simp
  with assms(2) show ?thesis by (simp add: preserves_rtranclp preserves_def)
qed

text \<open>
  Only vanished folders leave the registry: when the other tasks keep the rows, a row that a
  refresh removes is one whose path was found not to exist, was not loaded by the scan, and the root
  was a directory.  In particular a folder that the loader or the hash rejects keeps its row, and a
  missing root removes nothing.
\<close>

theorem only_vanished_folders_pruned:
  assumes "distinct (map rb_id (s_runbooks (shared w)))"
    and "\<And>n s b. row_stays b s \<Longrightarrow> row_stays b (other env n s)"
    and "b \<in> set (s_runbooks (shared w))"
  shows "row_stays b (shared (snd (refresh_runbooks env who ip w))) \<or>
    vanished env (root_entries env (ticks w)) (rb_path b)"
proof -
  let ?P = "vanished env (root_entries env (ticks w))"
  have r: "rely (preserves (stays_unless ?P b)) env"
    using assms(2) by (auto simp: rely_preserves stays_unless_def)
  have "{b' \<in> set (s_runbooks (shared w)). rb_id b' = rb_id b} = {b}"
    using assms(1,3) by (auto simp: distinct_map dest: inj_onD)
  then have start: "row_stays b (shared w)" by (simp add: row_stays_def paths_of_def)
  have "(preserves (stays_unless ?P b))\<^sup>*\<^sup>* (shared w) (shared (snd (refresh_runbooks env who ip w)))"
  proof (rule guar_refresh)
    fix scan assume scan: "scan_runbooks (runbooks_root env) (root_entries env (ticks w)) = Inr scan"
    show "guar (preserves (stays_unless ?P b)) (reconcile env scan who ip)"
    proof (rule rows.guar_reconcile [OF r])
      fix b' k
      assume "\<not> root_scan_failed env scan" "rb_path b' \<notin> ld_folder ` set (sc_loaded scan)" "\<not> os_exists env k (rb_path b')"
      moreover from this(1) scan have "root_entries env (ticks w) \<noteq> None" using root_missing_fails by metis
      ultimately show "?P (rb_path b')" using scan by (auto simp: vanished_def)
    qed
  qed
  then have "stays_unless ?P b (shared (snd (refresh_runbooks env who ip w)))"
    using start by (simp add: preserves_rtranclp preserves_def stays_unless_def)
  then show ?thesis by (auto simp: stays_unless_def)
qed

section \<open>A refresh settles the registry\<close>

text \<open>Nothing else runs, every commit succeeds, and the file system does not change.\<close>

definition quiet :: "renv \<Rightarrow> bool" where
  "quiet env \<longleftrightarrow> (\<forall>n s. other env n s = s) \<and> (\<forall>n. fault env n = None) \<and>
     (\<forall>n. folder_files env n = folder_files env 0) \<and> (\<forall>n. os_exists env n = os_exists env 0)"

lemma quietD:
  "quiet env \<Longrightarrow> other env n s = s" "quiet env \<Longrightarrow> fault env n = None"
  "quiet env \<Longrightarrow> folder_files env n p = folder_files env 0 p" "quiet env \<Longrightarrow> os_exists env n p = os_exists env 0 p"
  by (simp_all add: quiet_def) metis+

lemma quiet_entered: "quiet env \<Longrightarrow> shared (entered env w) = shared w"
  by (simp add: quiet_def)

definition hash_now :: "renv \<Rightarrow> string \<Rightarrow> string + string" where
  "hash_now env p = compute_runbook_content_hash (sha256_hex env) (folder_files env 0 p)"

definition settled :: "renv \<Rightarrow> loaded_runbook \<Rightarrow> store \<Rightarrow> bool" where
  "settled env l s \<longleftrightarrow>
     (case hash_now env (ld_folder l) of
        Inl m \<Rightarrow> True
      | Inr h \<Rightarrow> (\<exists>b. runbook_at (ld_folder l) s = Some b \<and> rb_hash b = Some h))"

text \<open>What each write leaves behind when it returns.\<close>

lemma txn_InrD:
  assumes "txn env body w = (Inr x, w')"
  shows "\<exists>w2. body (entered env w) = (Inr x, w2) \<and> shared w' = shared w2"
proof (cases "body (entered env w)")
  case (Pair r w2)
  show ?thesis
  proof (cases r)
    case (Inl e)
    with Pair assms show ?thesis by (metis Inl_not_Inr Pair_inject txn_raised)
  next
    case (Inr y)
    with Pair have "body (entered env w) = (Inr y, w2)" by simp
    then show ?thesis by (cases rule: txn_returned) (use assms Pair Inr in auto)
  qed
qed

lemma txn_quiet:
  "quiet env \<Longrightarrow> body (entered env w) = (Inr x, w2) \<Longrightarrow> txn env body w = (Inr x, w2\<lparr>ticks := Suc (ticks w2)\<rparr>)"
  by (simp add: txn_def seqP_def bindP_def run_simps entered_def quietD)

lemma audit_InrD:
  "insert_audit env who what bf af ip t w = (Inr (), w') \<Longrightarrow> \<exists>row. shared w' = add_audit row (shared w)"
  using run_insert_audit [of env who what bf af ip t w] by auto

lemma checked_InrD:
  assumes "bindP (getS c) (\<lambda>b. if b then raise e else seqP (modS g) m) w = (Inr x, w')"
  shows "\<not> c (shared w) \<and> m (w\<lparr>shared := g (shared w)\<rparr>) = (Inr x, w')"
  using assms by (cases "c (shared w)") (simp_all add: run_simps seqP_def)

text \<open>The two shapes of transaction: a write with its audit row, possibly after a constraint check.\<close>

lemma checked_txn_InrD:
  assumes "quiet env"
    and "txn env (bindP (getS c) (\<lambda>b. if b then raise e
           else seqP (modS g) (insert_audit env who what bf af ip t))) w = (Inr (), w')"
  shows "\<not> c (shared w) \<and> (\<exists>row. shared w' = add_audit row (g (shared w)))"
proof -
  obtain w2 where "shared w' = shared w2" and body:
    "bindP (getS c) (\<lambda>b. if b then raise e else seqP (modS g) (insert_audit env who what bf af ip t)) (entered env w) = (Inr (), w2)"
    using txn_InrD [OF assms(2)] by blast
  note run = checked_InrD [OF body, unfolded quiet_entered [OF assms(1)]]
  from audit_InrD [OF conjunct2 [OF run]] run \<open>shared w' = shared w2\<close> show ?thesis by simp
qed

lemma checked_txn_runs:
  assumes "quiet env" and "\<not> c (shared w)"
  shows "\<exists>row w'. txn env (bindP (getS c) (\<lambda>b. if b then raise e
           else seqP (modS g) (insert_audit env who what bf af ip t))) w = (Inr (), w') \<and>
     shared w' = add_audit row (g (shared w))"
proof -
  let ?w = "(entered env w)\<lparr>shared := g (shared w)\<rparr>"
  obtain row w2 where a: "insert_audit env who what bf af ip t ?w = (Inr (), w2)"
    "shared w2 = add_audit row (g (shared w))"
    using run_insert_audit [where w = ?w] by fastforce
  have "shared (entered env w) = shared w" by (rule quiet_entered [OF assms(1)])
  then have "bindP (getS c) (\<lambda>b. if b then raise e else seqP (modS g) (insert_audit env who what bf af ip t))
      (entered env w) = (Inr (), w2)"
    using a(1) assms(2) by (simp add: run_simps seqP_def del: entered_simps)
  then show ?thesis
    using txn_quiet [OF assms(1)] a(2) by fastforce
qed

lemma modify_txn_InrD:
  assumes "quiet env" and "txn env (seqP (modS g) (insert_audit env who what bf af ip t)) w = (Inr (), w')"
  shows "\<exists>row. shared w' = add_audit row (g (shared w))"
proof -
  obtain w2 where w2: "shared w' = shared w2"
    "seqP (modS g) (insert_audit env who what bf af ip t) (entered env w) = (Inr (), w2)"
    using txn_InrD [OF assms(2)] by blast
  then have "insert_audit env who what bf af ip t ((entered env w)\<lparr>shared := g (shared (entered env w))\<rparr>) = (Inr (), w2)"
    by (simp add: seqP_def run_simps del: entered_simps)
  from audit_InrD [OF this] w2(1) show ?thesis by (simp only: quiet_entered [OF assms(1)]) simp
qed

lemma skip_runs:
  assumes "quiet env"
  shows "\<exists>row w'. emit_prune_skipped env b n who ip w = (Inr (), w') \<and> shared w' = add_audit row (shared w)"
proof -
  let ?m = "insert_audit env who ''runbook_prune_skipped''
       (Some [(''id'', JStr (rb_id b)), (''path'', JStr (rb_path b)), (''runs_count'', JInt n)]) None ip None"
  obtain row w2 where a: "?m (entered env w) = (Inr (), w2)" "shared w2 = add_audit row (shared w)"
    using run_insert_audit [where w = "entered env w"] quiet_entered [OF assms, of w] by (metis (no_types, lifting))
  from this(1) show ?thesis
    unfolding emit_prune_skipped_def
    using txn_quiet [OF assms] a(2) by fastforce
qed

lemma insert_InrD:
  assumes "quiet env" and "insert_runbook env folder c h who ip w = (Inr (), w')"
  shows "\<exists>i now row. i \<notin> rb_id ` set (s_runbooks (shared w)) \<and>
     shared w' = add_audit row (add_runbook (new_row i folder c h now) (shared w))"
  using checked_txn_InrD [OF assms(1) assms(2) [unfolded insert_runbook_def run_bind_simps(5)]] by auto

lemma update_InrD:
  assumes "quiet env" and "update_cached env i folder c h who ip old w = (Inr (), w')"
  shows "\<exists>row. shared w' = add_audit row (on_runbook i (recache folder c h) (shared w))"
  using modify_txn_InrD [OF assms(1) assms(2) [unfolded update_cached_def run_bind_simps(5)]] by simp

lemma prune_runs:
  assumes "quiet env" and "count_runs (rb_id b) (shared w) = 0"
  shows "\<exists>row w'. prune env b who ip w = (Inr (), w') \<and> shared w' = add_audit row (delete_runbook (rb_id b) (shared w))"
  unfolding prune_def by (rule checked_txn_runs) (simp_all add: assms)

text \<open>Looking rows up by path after a write.\<close>

definition ids_distinct :: "store \<Rightarrow> bool" where
  "ids_distinct s \<longleftrightarrow> distinct (map rb_id (s_runbooks s))"

lemma ids_distinct_writes:
  "ids_distinct (add_audit row s) = ids_distinct s"
  "ids_distinct s \<Longrightarrow> rb_id b \<notin> rb_id ` set (s_runbooks s) \<Longrightarrow> ids_distinct (add_runbook b s)"
  "ids_distinct (on_runbook i (recache p c h) s) = ids_distinct s"
  by (simp_all add: ids_distinct_def) (simp only: ids_recached)

lemma runbook_at_audit [simp]: "runbook_at p (add_audit row s) = runbook_at p s"
  by (simp add: runbook_at_def)

lemma runbook_at_added:
  "runbook_at p (add_runbook b s) =
     (case runbook_at p s of Some b' \<Rightarrow> Some b' | None \<Rightarrow> if rb_path b = p then Some b else None)"
proof -
  have "List.find P (xs @ [b]) = (case List.find P xs of Some x \<Rightarrow> Some x | None \<Rightarrow> if P b then Some b else None)"
    for P :: "runbook \<Rightarrow> bool" and xs by (induction xs) auto
  then show ?thesis by (simp add: runbook_at_def)
qed

lemma runbook_at_Some: "runbook_at p s = Some b \<Longrightarrow> b \<in> set (s_runbooks s) \<and> rb_path b = p"
  by (auto simp: runbook_at_def find_Some_iff)

lemma runbook_at_recached:
  assumes "ids_distinct s" and b: "runbook_at q s = Some b"
  shows "runbook_at p (on_runbook (rb_id b) (recache q c h) s) =
    (if p = q then Some (recache q c h b) else runbook_at p s)"
proof -
  let ?g = "\<lambda>b'. if rb_id b' = rb_id b then recache q c h b' else b'"
  have only: "b' = b" if "b' \<in> set (s_runbooks s)" "rb_id b' = rb_id b" for b'
    using that assms(1) runbook_at_Some [OF b] by (auto simp: ids_distinct_def distinct_map dest: inj_onD)
  have "rb_path (?g b') = rb_path b'" if "b' \<in> set (s_runbooks s)" for b'
    using only [OF that] runbook_at_Some [OF b] by auto
  then have "List.find (\<lambda>b'. rb_path b' = p) (map ?g bs) = map_option ?g (List.find (\<lambda>b'. rb_path b' = p) bs)"
    if "set bs \<subseteq> set (s_runbooks s)" for bs
    using that by (induction bs) auto
  then have "runbook_at p (on_runbook (rb_id b) (recache q c h) s) = map_option ?g (runbook_at p s)"
    by (simp add: runbook_at_def on_runbook_rows)
  moreover have "rb_id b' \<noteq> rb_id b" if "p \<noteq> q" "runbook_at p s = Some b'" for b'
    using only [of b'] runbook_at_Some [OF that(2)] runbook_at_Some [OF b] that(1) by auto
  ultimately show ?thesis using b by (cases "runbook_at p s") auto
qed

text \<open>After the folders: each one that hashes has a row with that hash, the other paths are as before.\<close>

lemma reconcile_folders_settles:
  assumes q: "quiet env"
  shows "reconcile_folders env who ip ls out w = (Inr out', w') \<Longrightarrow> ids_distinct (shared w) \<Longrightarrow>
     distinct (map ld_folder ls) \<Longrightarrow>
     ids_distinct (shared w') \<and> s_runs (shared w') = s_runs (shared w) \<and> (\<forall>l \<in> set ls. settled env l (shared w')) \<and>
     (\<forall>p. p \<notin> ld_folder ` set ls \<longrightarrow> runbook_at p (shared w') = runbook_at p (shared w))"
proof (induction ls arbitrary: out w)
  case Nil
  then show ?case by (simp add: run_simps)
next
  case (Cons l ls)
  let ?p = "ld_folder l"
  have step: ?case
    if rest: "reconcile_folders env who ip ls outa wa = (Inr out', w')"
      and ids: "ids_distinct (shared wa)" and runs: "s_runs (shared wa) = s_runs (shared w)"
      and l: "settled env l (shared wa)"
      and same: "\<And>p. p \<noteq> ?p \<Longrightarrow> runbook_at p (shared wa) = runbook_at p (shared w)" for outa wa
  proof -
    from Cons.prems(3) have d: "distinct (map ld_folder ls)" "?p \<notin> ld_folder ` set ls" by auto
    note IH = Cons.IH [OF rest ids d(1)]
    then have "runbook_at ?p (shared w') = runbook_at ?p (shared wa)" using d(2) by blast
    with l have "settled env l (shared w')" by (simp add: settled_def split: sum.splits)
    with IH runs same show ?thesis by auto
  qed
  define w0 where "w0 = w\<lparr>ticks := Suc (ticks w)\<rparr>"
  have w0: "shared (entered env w0) = shared w" by (simp only: quiet_entered [OF q]) (simp add: w0_def)
  have hash: "compute_runbook_content_hash (sha256_hex env) (folder_files env (ticks w) ?p) = hash_now env ?p"
    by (simp only: hash_now_def quietD(3) [OF q, of "ticks w"])
  show ?case
  proof (cases "hash_now env ?p")
    case (Inl m)
    with Cons.prems(1) show ?thesis
      by (intro step [where wa = w0]) (simp_all add: run_simps hash w0_def settled_def Cons.prems(2))
  next
    case (Inr h)
    show ?thesis
    proof (cases "runbook_at ?p (shared w)")
      case None
      from Cons.prems(1) obtain w1 out1 where
        i: "insert_runbook env ?p (ld_config l) h who ip (entered env w0) = (Inr (), w1)" and
        rest: "reconcile_folders env who ip ls out1 w1 = (Inr out', w')"
        by (auto simp: run_simps hash Inr run_fetch bindP_def w0 None seqP_def split: sum.splits prod.splits
            simp flip: w0_def simp del: entered_simps)
      obtain i now row where row: "i \<notin> rb_id ` set (s_runbooks (shared w))"
        "shared w1 = add_audit row (add_runbook (new_row i ?p (ld_config l) h now) (shared w))"
        using insert_InrD [OF q i] by (auto simp: w0 simp del: entered_simps)
      show ?thesis
      proof (rule step [OF rest])
        show "ids_distinct (shared w1)"
          using row Cons.prems(2) by (simp add: ids_distinct_writes new_row_def)
        show "settled env l (shared w1)"
          using row(2) None by (simp add: settled_def Inr runbook_at_added new_row_def)
        show "runbook_at p (shared w1) = runbook_at p (shared w)" if "p \<noteq> ?p" for p
          using row(2) that by (simp add: runbook_at_added new_row_def split: option.splits)
      qed (simp add: row(2))
    next
      case (Some b)
      show ?thesis
      proof (cases "rb_hash b = Some h")
        case True
        from Cons.prems(1) show ?thesis
          by (intro step [where wa = "entered env w0"])
            (simp_all add: run_simps hash Inr run_fetch bindP_def w0 Some True Cons.prems(2) settled_def
              flip: w0_def del: entered_simps)
      next
        case False
        from Cons.prems(1) obtain w1 out1 where
          u: "update_cached env (rb_id b) ?p (ld_config l) h who ip b (entered env w0) = (Inr (), w1)" and
          rest: "reconcile_folders env who ip ls out1 w1 = (Inr out', w')"
          by (auto simp: run_simps hash Inr run_fetch bindP_def w0 Some False seqP_def split: sum.splits prod.splits
              simp flip: w0_def simp del: entered_simps)
        obtain row where row: "shared w1 = add_audit row (on_runbook (rb_id b) (recache ?p (ld_config l) h) (shared w))"
          using update_InrD [OF q u] by (auto simp: w0 simp del: entered_simps)
        note found = runbook_at_recached [OF Cons.prems(2) Some]
        show ?thesis
          by (rule step [OF rest])
            (simp_all add: row ids_distinct_writes Cons.prems(2) settled_def Inr found)
      qed
    qed
  qed
qed

text \<open>The prune pass: exactly the rows it lists as dead leave the table.\<close>

definition dead :: "renv \<Rightarrow> string list \<Rightarrow> store \<Rightarrow> runbook \<Rightarrow> bool" where
  "dead env scanned s b \<longleftrightarrow>
     rb_path b \<notin> set scanned \<and> \<not> os_exists env 0 (rb_path b) \<and> count_runs (rb_id b) s = 0"

definition without :: "string set \<Rightarrow> store \<Rightarrow> runbook list" where
  "without ids s = filter (\<lambda>b. rb_id b \<notin> ids) (s_runbooks s)"

lemma dead_cong: "s_runs s = s_runs t \<Longrightarrow> dead env scanned s = dead env scanned t"
  by (simp add: dead_def count_runs_def fun_eq_iff)

lemma prune_rows_runs:
  assumes q: "quiet env"
  shows "\<exists>out' w'. prune_rows env scanned who ip bs out w = (Inr out', w') \<and>
     s_runs (shared w') = s_runs (shared w) \<and>
     s_runbooks (shared w') = without (rb_id ` {b \<in> set bs. dead env scanned (shared w) b}) (shared w) \<and>
     rf_registered out' = rf_registered out \<and> rf_refreshed out' = rf_refreshed out \<and>
     rf_pruned out' = rf_pruned out @ map rb_path (filter (dead env scanned (shared w)) bs)"
proof (induction bs arbitrary: out w)
  case Nil
  then show ?case by (simp add: run_simps without_def)
next
  case (Cons b bs)
  let ?D = "dead env scanned"
  have step: ?case
    if run: "prune_rows env scanned who ip (b # bs) out w = prune_rows env scanned who ip bs outa wa"
      and runs: "s_runs (shared wa) = s_runs (shared w)"
      and rows: "s_runbooks (shared wa) = without (rb_id ` {x \<in> {b}. ?D (shared w) x}) (shared w)"
      and out: "rf_registered outa = rf_registered out" "rf_refreshed outa = rf_refreshed out"
        "rf_pruned outa = rf_pruned out @ map rb_path (filter (?D (shared w)) [b])" for outa wa
  proof -
    have dd: "?D (shared wa) = ?D (shared w)" by (rule dead_cong [OF runs])
    have "without ids (shared wa) = without (rb_id ` {x \<in> {b}. ?D (shared w) x} \<union> ids) (shared w)" for ids
      using rows by (simp add: without_def conj_commute)
    moreover have "{x \<in> set (b # bs). ?D (shared w) x} = {x \<in> {b}. ?D (shared w) x} \<union> {x \<in> set bs. ?D (shared w) x}"
      by auto
    ultimately show ?thesis
      using Cons.IH [of outa wa] run runs out by (auto simp: dd image_Un simp del: prune_rows.simps)
  qed
  have keep: "s_runbooks s = without (rb_id ` {x \<in> {b}. ?D s x}) s" if "\<not> ?D s b" for s
  proof -
    have "{x \<in> {b}. ?D s x} = {}" using that by auto
    then show ?thesis by (simp only: without_def image_empty) simp
  qed
  define w0 where "w0 = w\<lparr>ticks := Suc (ticks w)\<rparr>"
  have w0: "shared (entered env w0) = shared w" by (simp only: quiet_entered [OF q]) (simp add: w0_def)
  have ex: "os_exists env (ticks w) (rb_path b) = os_exists env 0 (rb_path b)" by (rule quietD(4) [OF q])
  show ?case
  proof (cases "rb_path b \<in> set scanned \<or> os_exists env 0 (rb_path b)")
    case True
    then have no: "\<not> ?D (shared w) b" by (auto simp: dead_def)
    show ?thesis
    proof (cases "rb_path b \<in> set scanned")
      case True
      with no keep show ?thesis by (intro step [where wa = w and outa = out]) simp_all
    next
      case False
      with True no keep [OF no] show ?thesis
        by (intro step [where wa = w0 and outa = out]) (simp_all add: Let_def run_simps ex w0_def)
    qed
  next
    case False
    let ?c = "count_runs (rb_id b) (shared w)"
    show ?thesis
    proof (cases "0 < ?c")
      case True
      then have no: "\<not> ?D (shared w) b" by (simp add: dead_def)
      obtain row wa where sk: "emit_prune_skipped env b (int ?c) who ip (entered env w0) = (Inr (), wa)"
        "shared wa = add_audit row (shared w)"
        using skip_runs [OF q, of b "int ?c" who ip "entered env w0"] by (auto simp: w0 simp del: entered_simps)
      have run: "prune_rows env scanned who ip (b # bs) out w = prune_rows env scanned who ip bs
          (out\<lparr>rf_prune_skipped := rf_prune_skipped out @ [rb_path b]\<rparr>) wa"
        using False True sk(1)
        by (simp add: Let_def run_simps ex run_fetch bindP_def w0 seqP_def flip: w0_def del: entered_simps)
      show ?thesis
      proof (rule step [OF run])
        show "s_runbooks (shared wa) = without (rb_id ` {x \<in> {b}. ?D (shared w) x}) (shared w)"
          by (simp only: sk(2) table_simps) (rule keep [OF no])
      qed (use no sk(2) in simp_all)
    next
      case none: False
      with False have yes: "?D (shared w) b" by (simp add: dead_def)
      obtain row wa where pr: "prune env b who ip (entered env w0) = (Inr (), wa)"
        "shared wa = add_audit row (delete_runbook (rb_id b) (shared w))"
        using prune_runs [OF q, of b "entered env w0" who ip] none by (auto simp: w0 simp del: entered_simps)
      have run: "prune_rows env scanned who ip (b # bs) out w = prune_rows env scanned who ip bs
          (out\<lparr>rf_pruned := rf_pruned out @ [rb_path b]\<rparr>) wa"
        using False none pr(1)
        by (simp add: Let_def run_simps ex run_fetch bindP_def tryP_def w0 seqP_def ret_def flip: w0_def del: entered_simps)
      have "{x \<in> {b}. ?D (shared w) x} = {b}" using yes by auto
      then show ?thesis using yes pr(2) by (intro step [OF run]) (simp_all add: without_def)
    qed
  qed
qed

lemma runbook_at_without:
  assumes "ids_distinct s" and "p \<in> set scanned"
  shows "runbook_at p (s\<lparr>s_runbooks := without (rb_id ` {b \<in> set (s_runbooks s). dead env scanned s b}) s\<rparr>) =
    runbook_at p s"
proof -
  let ?gone = "rb_id ` {b \<in> set (s_runbooks s). dead env scanned s b}"
  have stays: "rb_id b \<notin> ?gone" if "b \<in> set (s_runbooks s)" "rb_path b = p" for b
  proof
    assume "rb_id b \<in> ?gone"
    then obtain b' where "b' \<in> set (s_runbooks s)" "dead env scanned s b'" "rb_id b' = rb_id b" by auto
    moreover from this that(1) assms(1) have "b' = b" by (auto simp: ids_distinct_def distinct_map dest: inj_onD)
    ultimately show False using that(2) assms(2) by (simp add: dead_def)
  qed
  have "List.find (\<lambda>b. rb_path b = p) (filter (\<lambda>b. rb_id b \<notin> ?gone) bs) = List.find (\<lambda>b. rb_path b = p) bs"
    if "set bs \<subseteq> set (s_runbooks s)" for bs
    using that
  proof (induction bs)
    case (Cons b bs)
    then show ?case using stays [of b] by (cases "rb_path b = p") simp_all
  qed simp
  then show ?thesis by (simp add: runbook_at_def without_def)
qed

text \<open>A store in which nothing is left to do for the scan.\<close>

definition up_to_date :: "renv \<Rightarrow> scan_result \<Rightarrow> store \<Rightarrow> bool" where
  "up_to_date env scan s \<longleftrightarrow>
     (\<forall>l \<in> set (sc_loaded scan). settled env l s) \<and>
     (root_scan_failed env scan \<or> (\<forall>b \<in> set (s_runbooks s). \<not> dead env (map ld_folder (sc_loaded scan)) s b))"

lemma reconcile_settles:
  assumes q: "quiet env" and ids: "ids_distinct (shared w)" and d: "distinct (map ld_folder (sc_loaded scan))"
    and run: "reconcile env scan who ip w = (Inr out, w')"
  shows "up_to_date env scan (shared w')"
proof -
  let ?paths = "map ld_folder (sc_loaded scan)"
  obtain out1 w1 where r: "reconcile_folders env who ip (sc_loaded scan) (no_outcome\<lparr>rf_errors := sc_errors scan\<rparr>) w = (Inr out1, w1)"
    and pass: "run_prune_pass env scan who ip out1 w1 = (Inr out, w')"
    using run by (auto simp: reconcile_def bindP_def split: prod.splits sum.splits)
  note first = reconcile_folders_settles [OF q r ids d]
  show ?thesis
  proof (cases "root_scan_failed env scan")
    case True
    with pass first show ?thesis by (simp add: run_prune_pass_def run_simps up_to_date_def)
  next
    case False
    let ?w = "entered env w1" and ?s = "shared w1"
    have w: "shared ?w = ?s" by (rule quiet_entered [OF q])
    have pr: "prune_rows env ?paths who ip (list_runbooks ?s) out1 ?w = (Inr out, w')"
      using pass False by (simp add: run_prune_pass_def bindP_def run_fetch w del: entered_simps)
    have after: "s_runs (shared w') = s_runs ?s"
      "s_runbooks (shared w') = without (rb_id ` {b \<in> set (s_runbooks ?s). dead env ?paths ?s b}) ?s"
      using prune_rows_runs [OF q, of ?paths who ip "list_runbooks ?s" out1 ?w] pr
      by (simp_all add: w list_runbooks_def del: entered_simps)
    have found: "runbook_at p (shared w') = runbook_at p ?s" if "p \<in> set ?paths" for p
      using runbook_at_without [OF _ that, of ?s env] first after(2) by (simp add: runbook_at_def)
    have "settled env l (shared w')" if "l \<in> set (sc_loaded scan)" for l
      using first that found [of "ld_folder l"] by (simp add: settled_def split: sum.splits)
    moreover have "\<not> dead env ?paths (shared w') b" if "b \<in> set (s_runbooks (shared w'))" for b
      using that unfolding dead_cong [OF after(1)] after(2) by (auto simp: without_def)
    ultimately show ?thesis by (simp add: up_to_date_def)
  qed
qed

lemma settled_skipped:
  assumes q: "quiet env"
  shows "\<forall>l \<in> set ls. settled env l (shared w) \<Longrightarrow>
    \<exists>out' w'. reconcile_folders env who ip ls out w = (Inr out', w') \<and> shared w' = shared w \<and>
      rf_registered out' = rf_registered out \<and> rf_refreshed out' = rf_refreshed out \<and> rf_pruned out' = rf_pruned out"
proof (induction ls arbitrary: out w)
  case Nil
  then show ?case by (simp add: run_simps)
next
  case (Cons l ls)
  define w0 where "w0 = w\<lparr>ticks := Suc (ticks w)\<rparr>"
  have w0: "shared (entered env w0) = shared w" "shared w0 = shared w"
    by (simp_all only: quiet_entered [OF q]) (simp_all add: w0_def)
  have hash: "compute_runbook_content_hash (sha256_hex env) (folder_files env (ticks w) (ld_folder l)) = hash_now env (ld_folder l)"
    by (simp only: hash_now_def quietD(3) [OF q, of "ticks w"])
  have s: "settled env l (shared w)" and later: "\<forall>l \<in> set ls. settled env l (shared w0)"
    "\<forall>l \<in> set ls. settled env l (shared (entered env w0))"
    using Cons.prems w0 by simp_all
  show ?case
  proof (cases "hash_now env (ld_folder l)")
    case (Inl m)
    then have "reconcile_folders env who ip (l # ls) out w = reconcile_folders env who ip ls
        (out\<lparr>rf_errors := rf_errors out @ [\<lparr>le_path = ld_folder l, le_message = m\<rparr>]\<rparr>) w0"
      by (simp add: run_simps hash w0_def)
    with Cons.IH [OF later(1)] w0(2) show ?thesis by (fastforce simp del: reconcile_folders.simps)
  next
    case (Inr h)
    with s obtain b where "runbook_at (ld_folder l) (shared w) = Some b" "rb_hash b = Some h"
      by (auto simp: settled_def)
    then have "reconcile_folders env who ip (l # ls) out w = reconcile_folders env who ip ls
        (out\<lparr>rf_skipped := rf_skipped out @ [ld_folder l]\<rparr>) (entered env w0)"
      by (simp add: run_simps hash Inr run_fetch bindP_def w0 flip: w0_def del: entered_simps)
    with Cons.IH [OF later(2)] w0(1) show ?thesis
      by (fastforce simp del: reconcile_folders.simps entered_simps)
  qed
qed

text \<open>
  A refresh settles the registry: when nothing else runs and the files stay as they are, a refresh
  that returns leaves every scanned folder with a row that carries the hash of the folder, and a second
  refresh with the same scan returns, registers, refreshes and prunes nothing, and leaves the table
  unchanged.
\<close>

theorem refresh_converges:
  assumes "quiet env" and "ids_distinct (shared w)" and "distinct (map ld_folder (sc_loaded scan))"
    and "reconcile env scan who ip w = (Inr out, w1)"
  shows "(\<forall>l \<in> set (sc_loaded scan). settled env l (shared w1)) \<and>
    (\<exists>again w2. reconcile env scan who' ip' w1 = (Inr again, w2) \<and>
       rf_registered again = [] \<and> rf_refreshed again = [] \<and> rf_pruned again = [] \<and>
       s_runbooks (shared w2) = s_runbooks (shared w1))"
proof -
  let ?paths = "map ld_folder (sc_loaded scan)" and ?out = "no_outcome\<lparr>rf_errors := sc_errors scan\<rparr>"
  have settled: "up_to_date env scan (shared w1)" by (rule reconcile_settles [OF assms])
  then obtain out1 w3 where first: "reconcile_folders env who' ip' (sc_loaded scan) ?out w1 = (Inr out1, w3)"
    "shared w3 = shared w1" "rf_registered out1 = []" "rf_refreshed out1 = []" "rf_pruned out1 = []"
    using settled_skipped [OF assms(1), of "sc_loaded scan" w1 who' ip' ?out]
    by (auto simp: up_to_date_def no_outcome_def)
  have "\<exists>again w2. run_prune_pass env scan who' ip' out1 w3 = (Inr again, w2) \<and> rf_registered again = [] \<and>
      rf_refreshed again = [] \<and> rf_pruned again = [] \<and> s_runbooks (shared w2) = s_runbooks (shared w1)"
  proof (cases "root_scan_failed env scan")
    case True
    with first show ?thesis by (simp add: run_prune_pass_def run_simps)
  next
    case False
    have w: "shared (entered env w3) = shared w1" by (simp only: quiet_entered [OF assms(1)] first(2))
    have alive: "\<not> dead env ?paths (shared w1) b" if "b \<in> set (s_runbooks (shared w1))" for b
      using settled that False by (simp add: up_to_date_def)
    then have "{b \<in> set (list_runbooks (shared w1)). dead env ?paths (shared w1) b} = {}"
      "filter (dead env ?paths (shared w1)) (list_runbooks (shared w1)) = []"
      by (auto simp: list_runbooks_def filter_empty_conv)
    with prune_rows_runs [OF assms(1), of ?paths who' ip' "list_runbooks (shared w1)" out1 "entered env w3"] first(3-5)
    show ?thesis
      using False by (auto simp: run_prune_pass_def bindP_def run_fetch w without_def simp del: entered_simps)
  qed
  with first(1) settled show ?thesis by (auto simp: reconcile_def bindP_def up_to_date_def)
qed

section \<open>The gate switch\<close>

lemma set_gates_same: "changed e (rb_enabled b) = None \<Longrightarrow> changed a (rb_auto_trigger b) = None \<Longrightarrow> set_gates e a b = b"
  by (cases b) (auto simp: changed_def set_gates_def split: option.splits if_splits)

lemma set_gates_changed: "set_gates (changed e (rb_enabled b)) (changed a (rb_auto_trigger b)) b = set_gates e a b"
  by (cases b) (auto simp: changed_def set_gates_def split: option.splits)

lemma only_row:
  assumes "ids_distinct s" and "get_runbook i s = Some b"
  shows "b \<in> set (s_runbooks s)" "rb_id b = i" "\<And>b'. b' \<in> set (s_runbooks s) \<Longrightarrow> rb_id b' = i \<Longrightarrow> b' = b"
  using assms by (auto simp: get_runbook_def find_Some_iff ids_distinct_def distinct_map inj_on_def)

lemma gates_rows:
  assumes "ids_distinct s" and "get_runbook i s = Some b"
  shows "s_runbooks (on_runbook i (set_gates (changed e (rb_enabled b)) (changed a (rb_auto_trigger b))) s) =
    s_runbooks (on_runbook i (set_gates e a) s)"
  using only_row(3) [OF assms] by (auto simp: on_runbook_rows set_gates_changed)

lemma gates_noop:
  assumes "ids_distinct s" and "get_runbook i s = Some b" and "set_gates e a b = b"
  shows "s_runbooks (on_runbook i (set_gates e a) s) = s_runbooks s"
  using only_row(3) [OF assms(1,2)] assms(3) by (auto simp: on_runbook_rows intro!: map_idI)

lemma modify_txn_runs:
  assumes "quiet env"
  shows "\<exists>row w'. txn env (seqP (modS g) (insert_audit env who what bf af ip t)) w = (Inr (), w') \<and>
     shared w' = add_audit row (g (shared w))"
proof -
  let ?w = "(entered env w)\<lparr>shared := g (shared w)\<rparr>"
  obtain row w2 where a: "insert_audit env who what bf af ip t ?w = (Inr (), w2)"
    "shared w2 = add_audit row (g (shared w))"
    using run_insert_audit [where w = ?w] by fastforce
  then have "seqP (modS g) (insert_audit env who what bf af ip t) (entered env w) = (Inr (), w2)"
    by (simp add: run_simps seqP_def quiet_entered [OF assms] del: entered_simps)
  then show ?thesis using txn_quiet [OF assms] a(2) by fastforce
qed

lemma patch_gates_runs:
  assumes q: "quiet env" and "ids_distinct (shared w)" and "get_runbook i (shared w) = Some b"
  shows "\<exists>w'. patch_gates env i e a who ip w = (Inr (set_gates e a b), w') \<and>
    s_runbooks (shared w') = s_runbooks (on_runbook i (set_gates e a) (shared w)) \<and>
    length (s_audits (shared w')) = length (s_audits (shared w)) + (if set_gates e a b = b then 0 else 1)"
proof (cases "changed e (rb_enabled b) = None \<and> changed a (rb_auto_trigger b) = None")
  case True
  then have same: "set_gates e a b = b" by (simp add: set_gates_same)
  have "patch_gates env i e a who ip w = (Inr b, entered env w)"
    using True by (simp add: patch_gates_def bindP_def run_fetch quiet_entered [OF q] assms(3) run_simps del: entered_simps)
  with same gates_noop [OF assms(2,3) same] show ?thesis by (simp add: quiet_entered [OF q] del: entered_simps)
next
  case False
  let ?e = "changed e (rb_enabled b)" and ?a = "changed a (rb_auto_trigger b)"
  let ?w = "(entered env w)\<lparr>ticks := Suc (ticks (entered env w))\<rparr>"
  have w: "shared ?w = shared w" using quiet_entered [OF q, of w] by simp
  obtain row w' where t: "txn env (seqP (modS (on_runbook i (set_gates ?e ?a))) (insert_audit env who ''runbook_gates_changed''
      (Some (gate_fields ?e ?a Not)) (Some (gate_fields ?e ?a id)) ip (Some (clock env (ticks (entered env w)))))) ?w = (Inr (), w')"
    "shared w' = add_audit row (on_runbook i (set_gates ?e ?a) (shared w))"
    using modify_txn_runs [OF q, where w = ?w] unfolding w by blast
  have "set_gates e a b \<noteq> b"
    using False by (cases b) (auto simp: changed_def set_gates_def split: option.splits if_splits)
  moreover have "patch_gates env i e a who ip w = (Inr (set_gates e a b), w')"
    using False t(1) by (auto simp: patch_gates_def bindP_def run_fetch quiet_entered [OF q] assms(3) run_simps Let_def seqP_def
        simp del: entered_simps)
  ultimately show ?thesis
    using t(2) gates_rows [OF assms(2,3)] by (simp add: on_runbook_def add_audit_def)
qed

text \<open>
  The gate switch, request by request: an unknown runbook is a 404 and arming a risky one a 400,
  both without a write; any other request sets exactly the gates it names, on that row only, answers
  with the row as it then is, and writes one audit row when something changed and none otherwise.
\<close>

theorem gate_patch_exact:
  assumes "quiet env" and "ids_distinct (shared w)"
  shows "\<exists>r w'. patch_runbook_gates env i e a who ip w = (Inr r, w') \<and>
    (case get_runbook i (shared w) of
       None \<Rightarrow> r = Inl (HttpProblem 404 ''not_found'' (''runbook '' @ i @ '' not found'')) \<and> shared w' = shared w
     | Some b \<Rightarrow>
         if a = Some True \<and> rb_risk_tag b = ''risky'' then
           r = Inl (HttpProblem 400 ''risky_auto_trigger_denied''
             (''cannot enable auto_trigger on risky runbook '' @ i @ ''; flip risk_tag first or use the approval flow'')) \<and>
           shared w' = shared w
         else
           r = Inr (set_gates e a b) \<and>
           s_runbooks (shared w') = s_runbooks (on_runbook i (set_gates e a) (shared w)) \<and>
           length (s_audits (shared w')) = length (s_audits (shared w)) + (if set_gates e a b = b then 0 else 1))"
proof (cases "get_runbook i (shared w)")
  case None
  have "patch_gates env i e a who ip w1 = (Inl (LookupErr (''runbook '' @ i @ '' not found'')), entered env w1)"
    if "shared w1 = shared w" for w1
    using that None by (simp add: patch_gates_def bindP_def run_fetch quiet_entered [OF assms(1)] run_simps del: entered_simps)
  then show ?thesis
    using None by (simp add: patch_runbook_gates_def Let_def bindP_def tryP_def run_fetch quiet_entered [OF assms(1)] run_simps
        del: entered_simps)
next
  case (Some b)
  have patched: "\<exists>w'. tryP (bindP (patch_gates env i e a who ip) (\<lambda>b. ret (Inr b)))
          (\<lambda>e. case e of LookupErr m \<Rightarrow> ret (Inl (HttpProblem 404 ''not_found'' m)) | _ \<Rightarrow> raise e) w1 =
        (Inr (Inr (set_gates e a b)), w') \<and>
      s_runbooks (shared w') = s_runbooks (on_runbook i (set_gates e a) (shared w)) \<and>
      length (s_audits (shared w')) = length (s_audits (shared w)) + (if set_gates e a b = b then 0 else 1)"
    if "shared w1 = shared w" for w1
    using patch_gates_runs [OF assms(1), of w1 i b e a who ip] assms(2) Some that
    by (auto simp: tryP_def bindP_def run_simps simp del: entered_simps)
  show ?thesis
  proof (cases "a = Some True")
    case True
    with patched [of "entered env w"] Some show ?thesis
      by (auto simp: patch_runbook_gates_def Let_def bindP_def run_fetch quiet_entered [OF assms(1)] run_simps
          simp del: entered_simps)
  next
    case False
    with patched [of w] Some show ?thesis by (auto simp: patch_runbook_gates_def Let_def)
  qed
qed

section \<open>Concrete runs\<close>

definition example_renv :: renv where
  "example_renv = aenv.extend calm_env
     (renv.fields ''/r'' (\<lambda>_. Some example_folders) (\<lambda>_ _. [example_file ''runbook.yaml'' ''name: dns'']) (\<lambda>s. s))"

definition gone_runbook :: runbook where
  "gone_runbook = new_row ''g'' ''/r/gone'' dns_config ''h'' 0"

definition armed_runbook :: runbook where
  "armed_runbook = (new_row ''d'' ''/r/dns'' dns_config ''old'' 0)\<lparr>rb_enabled := True, rb_auto_trigger := True\<rparr>"

definition example_registry :: "(store, act event) world" where
  "example_registry = \<lparr>shared = empty_store\<lparr>s_runbooks := [armed_runbook, gone_runbook]\<rparr>, trace = [], ticks = 0\<rparr>"

definition risky_scan :: scan_result where
  "risky_scan = \<lparr>sc_loaded = [\<lparr>ld_folder = ''/r/dns'', ld_config = dns_config\<lparr>g_risk_tag := RISKY\<rparr>\<rparr>], sc_errors = []\<rparr>"

lemma example_renv_simps:
  "other example_renv = (\<lambda>_ s. s)" "fault example_renv = (\<lambda>_. None)"
  "folder_files example_renv = (\<lambda>_ _. [example_file ''runbook.yaml'' ''name: dns''])"
  "os_exists example_renv = (\<lambda>_ _. False)"
  by (simp_all add: example_renv_def aenv.defs renv.defs calm_env_def)

lemma example_quiet: "quiet example_renv"
  by (simp add: quiet_def example_renv_simps)

lemma example_ids: "ids_distinct (shared example_registry)"
  by (simp add: ids_distinct_def example_registry_def armed_runbook_def gone_runbook_def new_row_def)

text \<open>The runs below are evaluated with the hash of the one file as a known value.\<close>

definition example_hash :: string where
  "example_hash = hash_prefix @ hashed_bytes [example_file ''runbook.yaml'' ''name: dns'']"

lemma example_hashed:
  "compute_runbook_content_hash (sha256_hex example_renv) [example_file ''runbook.yaml'' ''name: dns''] = Inr example_hash"
  by (simp add: compute_runbook_content_hash_def example_renv_def aenv.defs renv.defs example_file_def file_error_def
      entry_name_def is_ascii_def path_suffix_def allowed_extensions_def max_file_size_def max_file_count_def
      example_hash_def Let_def)

lemma example_hash_new [simp]: "example_hash \<noteq> ''old''" "''old'' \<noteq> example_hash"
  by (simp_all add: example_hash_def hash_prefix_def)

lemmas evaluate = reconcile_def run_prune_pass_def root_scan_failed_def list_runbooks_def no_outcome_def
  insert_runbook_def update_cached_def prune_def emit_prune_skipped_def insert_audit_def txn_def fetch_def
  tryP_def bindP_def seqP_def run_simps example_hashed example_renv_simps
  runbook_at_def count_runs_def add_runbook_def on_runbook_def delete_runbook_def add_audit_def
  risky_scan_def example_registry_def armed_runbook_def gone_runbook_def new_row_def recache_def
  empty_store_def Let_def

lemma risky_refresh:
  "\<exists>out w1. reconcile example_renv risky_scan ''user:ops'' None example_registry = (Inr out, w1) \<and>
     map (\<lambda>b. (rb_id b, rb_risk_tag b, rb_enabled b, rb_auto_trigger b)) (s_runbooks (shared w1)) =
       [(''d'', ''risky'', True, True)]"
  by (simp add: evaluate)


theorem refresh_keeps_run_history_witness:
  "runs_have_runbooks (shared (snd (refresh_runbooks example_renv ''user:ops'' None example_registry)))"
  by (rule refresh_keeps_run_history)
    (simp_all add: example_renv_simps runs_have_runbooks_def example_registry_def empty_store_def)

theorem only_vanished_folders_pruned_witness:
  "row_stays gone_runbook (shared (snd (refresh_runbooks example_renv ''user:ops'' None example_registry))) \<or>
     vanished example_renv (root_entries example_renv (ticks example_registry)) (rb_path gone_runbook)"
  by (rule only_vanished_folders_pruned)
    (simp_all add: example_renv_simps example_ids [unfolded ids_distinct_def], simp add: example_registry_def)

theorem refresh_converges_witness:
  "\<exists>out w1. reconcile example_renv risky_scan ''user:ops'' None example_registry = (Inr out, w1) \<and>
     (\<forall>l \<in> set (sc_loaded risky_scan). settled example_renv l (shared w1)) \<and>
     (\<exists>again w2. reconcile example_renv risky_scan ''user:ops'' None w1 = (Inr again, w2) \<and>
        rf_registered again = [] \<and> rf_refreshed again = [] \<and> rf_pruned again = [] \<and>
        s_runbooks (shared w2) = s_runbooks (shared w1))"
proof -
  obtain out w1 where "reconcile example_renv risky_scan ''user:ops'' None example_registry = (Inr out, w1)"
    using risky_refresh by blast
  with refresh_converges [OF example_quiet example_ids _ this] show ?thesis by (auto simp: risky_scan_def)
qed

theorem gate_patch_exact_witness:
  "\<exists>r w'. patch_runbook_gates example_renv ''d'' (Some False) None ''user:ops'' None example_registry = (Inr r, w') \<and>
    (case get_runbook ''d'' (shared example_registry) of
       None \<Rightarrow> r = Inl (HttpProblem 404 ''not_found'' (''runbook '' @ ''d'' @ '' not found'')) \<and> shared w' = shared example_registry
     | Some b \<Rightarrow>
         if (None :: bool option) = Some True \<and> rb_risk_tag b = ''risky'' then
           r = Inl (HttpProblem 400 ''risky_auto_trigger_denied''
             (''cannot enable auto_trigger on risky runbook '' @ ''d'' @ ''; flip risk_tag first or use the approval flow'')) \<and>
           shared w' = shared example_registry
         else
           r = Inr (set_gates (Some False) None b) \<and>
           s_runbooks (shared w') = s_runbooks (on_runbook ''d'' (set_gates (Some False) None) (shared example_registry)) \<and>
           length (s_audits (shared w')) = length (s_audits (shared example_registry)) +
             (if set_gates (Some False) None b = b then 0 else 1))"
  by (rule gate_patch_exact [OF example_quiet example_ids])

text \<open>
  The guard against arming a risky runbook is in the gate switch only: a safe runbook that was armed
  stays armed when an edit of its file makes it risky.
\<close>

lemma risky_runbook_stays_armed:
  "map (\<lambda>b. (rb_id b, rb_risk_tag b, rb_enabled b, rb_auto_trigger b))
     (s_runbooks (shared (snd (reconcile example_renv risky_scan ''user:ops'' None example_registry)))) =
   [(''d'', ''risky'', True, True)]"
  using risky_refresh by auto

text \<open>
  The lookup by path and the insert are two transactions and the path has no unique index: a second
  refresh that inserts in between leaves the folder registered twice.
\<close>

definition racing_renv :: renv where
  "racing_renv = example_renv\<lparr>other := (\<lambda>n s. if n = 4 then add_runbook (new_row ''x'' ''/r/dns'' dns_config ''h'' 0) s else s)\<rparr>"

lemma concurrent_refresh_registers_twice:
  "map rb_path (s_runbooks (shared (snd (reconcile racing_renv risky_scan ''user:ops'' None
     (example_registry\<lparr>shared := empty_store\<rparr>))))) = [''/r/dns'', ''/r/dns'']"
proof -
  have "uuid example_renv (Suc (Suc (Suc 0))) \<noteq> ''x''"
    by (simp add: example_renv_def aenv.defs renv.defs calm_env_def str_of_nat.simps char_of_def)
  then show ?thesis by (simp add: evaluate racing_renv_def)
qed

end
