(* ===== verification/Interleaving.thy ===== *)
theory Interleaving
  imports Transitions Admission
begin

text \<open>
  What holds at every moment of every interleaving.  The locale \<open>admission\<close> (theory Admission)
  is interpreted on the \<open>runbook_runs\<close> table under \<open>db_step\<close>; the limits of the orchestrator are
  its consequences.  \<open>extends\<close> is the history contract of the tables.
\<close>

section \<open>The table of runs is such a limiter\<close>

definition run_transit :: "(string \<Rightarrow> int option) \<Rightarrow> int \<Rightarrow> run_row list \<Rightarrow> run_row list \<Rightarrow> bool" where
  "run_transit quota gap rs rs' \<longleftrightarrow> (\<exists>s t. s_runs s = rs \<and> s_runs t = rs' \<and> db_step quota gap s t)"

lemma update_is_map:
  "(\<And>r. r_runbook_id (g r) = r_runbook_id r \<and> r_started_at (g r) = r_started_at r \<and>
      (r_ended_at (g r) = None \<longrightarrow> r_ended_at r = None)) \<Longrightarrow>
   \<exists>f. s_runs (update_run i g s) = map f (s_runs s) \<and>
     (\<forall>r \<in> set (s_runs s). r_runbook_id (f r) = r_runbook_id r \<and> r_started_at (f r) = r_started_at r \<and>
        (r_ended_at (f r) = None \<longrightarrow> r_ended_at r = None))"
  by (intro exI [of _ "\<lambda>r. if r_id r = i then g r else r"]) simp

lemma unchanged_is_map:
  "rs' = rs \<Longrightarrow> \<exists>f. rs' = map f rs \<and>
     (\<forall>r \<in> set rs. r_runbook_id (f r) = r_runbook_id r \<and> r_started_at (f r) = r_started_at r \<and>
        (r_ended_at (f r) = None \<longrightarrow> r_ended_at r = None))"
  by (intro exI [of _ id]) simp

lemmas store_writes = add_audit_def add_run_def update_run_def approval_updates add_approval_def add_outcome_def
  add_feedback_def set_setting_def delete_setting_def process_defs

lemma run_step_cases:
  assumes "db_step quota gap s t"
  shows "(\<exists>r. s_runs t = s_runs s @ [r] \<and>
         (\<forall>l. quota (r_runbook_id r) = Some l \<longrightarrow>
            int (length (filter (\<lambda>q. r_runbook_id q = r_runbook_id r \<and> r_started_at r - hour_us \<le> r_started_at q) (s_runs s))) < l) \<and>
         (\<forall>q \<in> set (s_runs s). r_runbook_id q = r_runbook_id r \<longrightarrow> r_ended_at q = None \<longrightarrow> r_started_at q < r_started_at r - gap)) \<or>
      (\<exists>f. s_runs t = map f (s_runs s) \<and>
         (\<forall>r \<in> set (s_runs s). r_runbook_id (f r) = r_runbook_id r \<and> r_started_at (f r) = r_started_at r \<and>
            (r_ended_at (f r) = None \<longrightarrow> r_ended_at r = None)))"
  using assms
proof cases
  case (st_claim b stale window t' row)
  let ?new = "filter (\<lambda>q. r_runbook_id q = r_runbook_id row \<and> r_started_at row - hour_us \<le> r_started_at q) (s_runs s)"
  have "length ?new \<le> length (filter (\<lambda>q. r_runbook_id q = rb_id b \<and> window \<le> r_started_at q) (s_runs s))"
    using st_claim(4,8) by (intro length_filter_mono) auto
  then have "int (length ?new) < l" if "quota (r_runbook_id row) = Some l" for l
    using st_claim(2,3,4) that by (auto simp: admissible_def count_started_since_def)
  moreover have "r_started_at q < r_started_at row - gap"
    if "q \<in> set (s_runs s)" "r_runbook_id q = r_runbook_id row" "r_ended_at q = None" for q
    using st_claim(2,4,7) that by (auto simp: admissible_def runs_of_def)
  ultimately show ?thesis using st_claim(1) by auto
next
  case (st_complete i now x transcript)
  then show ?thesis by (intro disjI2) (simp only:, rule update_is_map, simp add: complete_run_def)
next
  case (st_killed i now)
  then show ?thesis by (intro disjI2) (simp only:, rule update_is_map, simp add: kill_run_def)
next
  case (st_pruned i now)
  then show ?thesis by (intro disjI2) (simp only:, rule update_is_map, simp add: prune_run_def)
qed (intro disjI2 unchanged_is_map, simp add: store_writes)+

interpretation run_table: admission r_runbook_id r_started_at "\<lambda>r. r_ended_at r = None" "run_transit quota gap" quota hour_us gap
  for quota gap
  by unfold_locales (auto simp: run_transit_def dest!: run_step_cases)

lemma step_transit: "db_step quota gap s t \<Longrightarrow> run_transit quota gap (s_runs s) (s_runs t)"
  by (auto simp: run_transit_def)

lemma windows_stable: "stable (db_step quota gap) (\<lambda>s. run_table.windows quota (s_runs s))"
  unfolding stable_def using run_table.windows_transit [OF step_transit] by blast

lemma spaced_stable: "stable (db_step quota gap) (\<lambda>s. run_table.spaced gap (s_runs s))"
  unfolding stable_def using run_table.spaced_transit [OF step_transit] by blast

section \<open>The limits of the orchestrator\<close>

text \<open>The same two predicates over the store.\<close>

definition runs_admitted :: "(string \<Rightarrow> int option) \<Rightarrow> store \<Rightarrow> bool" where
  "runs_admitted quota s \<longleftrightarrow> (\<forall>i < length (s_runs s). \<forall>l. quota (r_runbook_id (s_runs s ! i)) = Some l \<longrightarrow>
     int (length (filter (\<lambda>q. r_runbook_id q = r_runbook_id (s_runs s ! i) \<and>
        r_started_at (s_runs s ! i) - hour_us \<le> r_started_at q) (take i (s_runs s)))) < l)"

definition runs_spaced :: "int \<Rightarrow> store \<Rightarrow> bool" where
  "runs_spaced gap s \<longleftrightarrow> (\<forall>j < length (s_runs s). \<forall>i < j. r_runbook_id (s_runs s ! i) = r_runbook_id (s_runs s ! j) \<longrightarrow>
     r_ended_at (s_runs s ! i) = None \<longrightarrow> r_started_at (s_runs s ! i) < r_started_at (s_runs s ! j) - gap)"

lemma runs_admitted_windows: "runs_admitted quota s \<longleftrightarrow> run_table.windows quota (s_runs s)"
  by (simp add: runs_admitted_def run_table.windows_def)

lemma runs_spaced_table: "runs_spaced gap s \<longleftrightarrow> run_table.spaced gap (s_runs s)"
  by (simp add: runs_spaced_def run_table.spaced_def)

definition after_entry :: "aenv \<Rightarrow> fixer_config \<Rightarrow> entry_call \<Rightarrow> (store, act event) world \<Rightarrow> store" where
  "after_entry env cfg c w = shared (snd (entry env cfg c w))"

lemma after_entry_stable:
  assumes "orderly quota cfg env" "quota_kept quota (s_runbooks (shared w))"
    and "stable (db_step quota (gap_of cfg)) I" "I (shared w)"
  shows "I (after_entry env cfg c w)"
  using guar_entry [OF assms(1,2)] stable_rtranclp [OF _ assms(3,4)]
  by (simp add: guar_at_def after_entry_def)

definition lone_world :: "(store, act event) world" where
  "lone_world = \<lparr>shared = set_setting ''autofix_enabled'' ''true'' empty_store, trace = [], ticks = 0\<rparr>"

lemma calm_orderly: "orderly quota cfg calm_env"
  by (simp add: orderly_def rely_def clock_forward_def calm_env_def)

text \<open>
  C1: the hourly rate limit of a runbook is never exceeded: whatever entry point runs, with
  whatever interleaving of the other tasks, in no hour were more runs of the runbook started
  than its limit, if that was so of the runs on record before.
\<close>

theorem rate_limit_never_exceeded:
  assumes "orderly quota cfg env" "quota_kept quota (s_runbooks (shared w))"
    and "runs_admitted quota (shared w)" and "quota rb = Some l"
  shows "int (length (filter (\<lambda>r. r_runbook_id r = rb \<and> t \<le> r_started_at r \<and> r_started_at r \<le> t + hour_us)
      (s_runs (after_entry env cfg c w)))) \<le> max 0 l"
proof -
  have "run_table.windows quota (s_runs (after_entry env cfg c w))"
    using after_entry_stable [OF assms(1,2) windows_stable] assms(3) by (simp add: runs_admitted_windows)
  from run_table.window_count [OF this assms(4)] show ?thesis .
qed

theorem rate_limit_never_exceeded_witness:
  "int (length (filter (\<lambda>r. r_runbook_id r = ''b1'' \<and> 0 \<le> r_started_at r \<and> r_started_at r \<le> 0 + hour_us)
      (s_runs (after_entry calm_env example_config (OnTrigger ''b1'' REAL ''bob'' None None)
         (lone_world\<lparr>shared := (shared lone_world)\<lparr>s_runbooks := [example_runbook_row]\<rparr>\<rparr>))))) \<le> max 0 3"
  by (rule rate_limit_never_exceeded [where quota = "\<lambda>_. Some 3", OF calm_orderly])
    (simp_all add: quota_kept_def runs_admitted_def example_runbook_row_def lone_world_def empty_store_def set_setting_def)

text \<open>
  C2: of two runs of one runbook the earlier of which is still open, the later was claimed only
  after the earlier had gone stale (the exec timeout and the slack): no two live runs of a
  runbook overlap, under every interleaving.
\<close>

theorem no_overlapping_runs:
  assumes "orderly quota cfg env" "quota_kept quota (s_runbooks (shared w))"
    and "runs_spaced (gap_of cfg) (shared w)"
  shows "runs_spaced (gap_of cfg) (after_entry env cfg c w)"
  using after_entry_stable [OF assms(1,2) spaced_stable] assms(3) by (simp add: runs_spaced_table)

theorem no_overlapping_runs_witness:
  "runs_spaced (gap_of example_config) (after_entry calm_env example_config (OnApproval ''a1'' ''bob'' None None) lone_world)"
  by (rule no_overlapping_runs [where quota = "\<lambda>_. None", OF calm_orderly])
    (simp_all add: quota_kept_def runs_spaced_def lone_world_def empty_store_def set_setting_def)

section \<open>History\<close>

definition grows_by :: "('x \<Rightarrow> 'x \<Rightarrow> bool) \<Rightarrow> 'x list \<Rightarrow> 'x list \<Rightarrow> bool" where
  "grows_by p xs ys \<longleftrightarrow> length xs \<le> length ys \<and> list_all2 p xs (take (length xs) ys)"

lemma grows_by_refl: "(\<And>x. p x x) \<Longrightarrow> grows_by p xs xs"
  by (simp add: grows_by_def list_all2_refl)

lemma grows_by_snoc: "(\<And>x. p x x) \<Longrightarrow> grows_by p xs (xs @ [y])"
  by (simp add: grows_by_def list_all2_refl)

lemma grows_by_map: "(\<And>x. p x (f x)) \<Longrightarrow> grows_by p xs (map f xs)"
  by (simp add: grows_by_def list_all2_map2 list_all2_refl)

lemma grows_by_trans:
  assumes "\<And>x y z. p x y \<Longrightarrow> p y z \<Longrightarrow> p x z" "grows_by p xs ys" "grows_by p ys zs"
  shows "grows_by p xs zs"
  unfolding grows_by_def list_all2_conv_all_nth
proof (intro conjI allI impI)
  show "length xs \<le> length zs" "length xs = length (take (length xs) zs)"
    using assms(2,3) by (simp_all add: grows_by_def)
  fix i assume i: "i < length xs"
  with assms(2) have "p (xs ! i) (ys ! i)" "i < length ys"
    by (auto simp: grows_by_def list_all2_conv_all_nth)
  moreover from this(2) assms(3) have "p (ys ! i) (zs ! i)"
    by (auto simp: grows_by_def list_all2_conv_all_nth)
  ultimately show "p (xs ! i) (take (length xs) zs ! i)" using assms(1) i by simp
qed

text \<open>What may happen to a run row and to an approval over time.\<close>

definition run_history :: "run_row \<Rightarrow> run_row \<Rightarrow> bool" where
  "run_history r r' \<longleftrightarrow> same_claim r r' \<and>
     (r_killed_at r \<noteq> None \<longrightarrow> r_killed_at r' = r_killed_at r) \<and>
     (r_ended_at r \<noteq> None \<longrightarrow> r_ended_at r' \<noteq> None)"

definition plan_history :: "approval \<Rightarrow> approval \<Rightarrow> bool" where
  "plan_history a a' \<longleftrightarrow> ap_id a' = ap_id a \<and> ap_dry_run_id a' = ap_dry_run_id a \<and>
     ap_runbook_id a' = ap_runbook_id a \<and> ap_alert_id a' = ap_alert_id a \<and>
     ap_pinned_hash a' = ap_pinned_hash a \<and> ap_created_at a' = ap_created_at a \<and>
     (ap_status a = ''rejected'' \<longrightarrow> ap_status a' = ''rejected'' \<and>
        ap_approved_by a' = ap_approved_by a \<and> ap_decided_at a' = ap_decided_at a)"

definition extends :: "store \<Rightarrow> store \<Rightarrow> bool" where
  "extends s t \<longleftrightarrow> grows_by (=) (s_audits s) (s_audits t) \<and> grows_by run_history (s_runs s) (s_runs t) \<and>
     grows_by plan_history (s_approvals s) (s_approvals t) \<and> grows_by (=) (s_outcomes s) (s_outcomes t) \<and>
     grows_by (=) (s_feedback s) (s_feedback t)"

lemma history_refl [simp]: "run_history r r" "plan_history a a"
  by (simp_all add: run_history_def plan_history_def)

lemma run_history_trans: "run_history a b \<Longrightarrow> run_history b c \<Longrightarrow> run_history a c"
  by (auto simp: run_history_def same_claim_def)

lemma plan_history_trans: "plan_history a b \<Longrightarrow> plan_history b c \<Longrightarrow> plan_history a c"
  by (simp add: plan_history_def)

lemma grows_by_eq_trans: "grows_by (=) xs ys \<Longrightarrow> grows_by (=) ys zs \<Longrightarrow> grows_by (=) xs zs"
  by (rule grows_by_trans [of "(=)" xs ys zs]) simp_all

lemma grows_by_history_trans:
  "grows_by run_history rs rs' \<Longrightarrow> grows_by run_history rs' rs'' \<Longrightarrow> grows_by run_history rs rs''"
  "grows_by plan_history ps ps' \<Longrightarrow> grows_by plan_history ps' ps'' \<Longrightarrow> grows_by plan_history ps ps''"
  by (rule grows_by_trans [of run_history rs rs' rs''], erule (1) run_history_trans, assumption, assumption)
    (rule grows_by_trans [of plan_history ps ps' ps''], erule (1) plan_history_trans, assumption, assumption)

lemma extends_trans: "extends s t \<Longrightarrow> extends t u \<Longrightarrow> extends s u"
  unfolding extends_def
  by (elim conjE, intro conjI) (erule (1) grows_by_eq_trans grows_by_history_trans)+

lemma step_extends:
  assumes "db_step quota gap s t"
  shows "extends s t"
proof -
  have closing: "plan_history a (decide st who t a)" if "ap_status a = ''pending''" for a st who t
    using that by (simp add: plan_history_def decide_def)
  note writes = extends_def store_writes grows_by_refl grows_by_snoc
  show ?thesis
    using assms
  proof cases
    case (st_complete i now x transcript)
    then show ?thesis
      by (simp add: writes) (intro grows_by_map, simp add: run_history_def complete_run_def same_claim_def)
  next
    case (st_killed i now)
    then show ?thesis
      by (simp add: writes) (intro grows_by_map, simp add: run_history_def kill_run_def same_claim_def)
  next
    case (st_pruned i now)
    then show ?thesis
      by (simp add: writes) (intro grows_by_map, simp add: run_history_def prune_run_def same_claim_def)
  next
    case (st_approve i who now)
    then show ?thesis by (simp add: writes) (intro grows_by_map, simp add: closing)
  next
    case (st_reject i who now)
    then show ?thesis by (simp add: writes) (intro grows_by_map, simp add: closing)
  next
    case (st_revert i)
    then show ?thesis by (simp add: writes) (intro grows_by_map, simp add: plan_history_def)
  next
    case (st_real_run i run)
    then show ?thesis by (simp add: writes) (intro grows_by_map, simp add: plan_history_def)
  qed (simp_all add: writes)
qed

lemma steps_extend: "(db_step quota gap)\<^sup>*\<^sup>* s t \<Longrightarrow> extends s t"
proof (induction rule: rtranclp_induct)
  case base
  show ?case by (simp add: extends_def grows_by_refl)
next
  case (step t u)
  from extends_trans [OF step.IH step_extends [OF step.hyps(2)]] show ?case .
qed

text \<open>
  C26: history is kept: whatever entry point runs and whatever the other tasks do, no audit row,
  outcome or feedback row is lost or altered, no run row disappears or changes its claim, no kill
  stamp is overwritten, no run that ended is open again, and a rejected approval stays rejected
  with its decision.
\<close>

theorem history_kept:
  assumes "orderly quota cfg env" "quota_kept quota (s_runbooks (shared w))"
  shows "extends (shared w) (after_entry env cfg c w)"
  using steps_extend [OF guar_entry [OF assms, unfolded guar_at_def]] by (simp add: after_entry_def)

theorem history_kept_witness:
  "extends (shared lone_world) (after_entry calm_env example_config (OnApproval ''a1'' ''bob'' None None) lone_world)"
  by (rule history_kept [where quota = "\<lambda>_. None", OF calm_orderly])
    (simp add: quota_kept_def lone_world_def empty_store_def set_setting_def)

text \<open>One outcome of a kind per alert.\<close>

definition outcomes_unique :: "store \<Rightarrow> bool" where
  "outcomes_unique s \<longleftrightarrow> distinct (map (\<lambda>o'. (o_alert_id o', o_outcome o')) (s_outcomes s))"

lemma outcomes_stable: "stable (db_step quota gap) outcomes_unique"
  unfolding stable_def
proof (intro allI impI)
  fix s t assume "db_step quota gap s t" "outcomes_unique s"
  then show "outcomes_unique t"
    by cases (auto simp: outcomes_unique_def store_writes list_ex_iff)
qed

text \<open>
  An alert never collects a second outcome of the same kind, however often its runbook runs.
\<close>

theorem outcomes_stay_unique:
  assumes "orderly quota cfg env" "quota_kept quota (s_runbooks (shared w))" and "outcomes_unique (shared w)"
  shows "outcomes_unique (after_entry env cfg c w)"
  using after_entry_stable [OF assms(1,2) outcomes_stable assms(3)] .

theorem outcomes_stay_unique_witness:
  "outcomes_unique (after_entry calm_env example_config (OnAlert \<lparr>al_id = ''x'', al_labels = []\<rparr>) lone_world)"
  by (rule outcomes_stay_unique [where quota = "\<lambda>_. None", OF calm_orderly])
    (simp_all add: quota_kept_def outcomes_unique_def lone_world_def empty_store_def set_setting_def)

end
