(* ===== verification/Rotator.thy ===== *)
theory Rotator
  imports Interleaving
begin

text \<open>
  The transcript rotator (kernel/autofix/transcript_rotator.py): one pass deletes the files beyond
  the newest N of a runbook or past the age limit, by \<open>rm\<close> inside the fixer container, and marks
  each run whose file is gone.  The candidates and the text cutoff are those of RunsRepo.
\<close>

section \<open>The pass\<close>

record rotation_outcome =
  ro_files_pruned :: nat
  ro_runs_marked :: nat
  ro_runbooks_scanned :: nat
  ro_skipped_reason :: "string option"

text \<open>\<open>n.lstrip("/")\<close>\<close>

definition lstrip_slash :: "string \<Rightarrow> string" where
  "lstrip_slash n = dropWhile (\<lambda>c. c = CHR ''/'') n"

fun running_id :: "string \<Rightarrow> container_entry list \<Rightarrow> string option" where
  "running_id target [] = None"
| "running_id target (e # es) =
     (if list_ex (\<lambda>n. lstrip_slash n = target) (ce_names e) then
        (if ce_state e = ''running'' then Some (ce_id e) else None)
      else running_id target es)"

definition resolve_running_fixer :: "aenv \<Rightarrow> fixer_config \<Rightarrow> string option afx" where
  "resolve_running_fixer env cfg =
     bindP (awaitP env (d_list_containers env)) (\<lambda>r.
     case r of Inl e \<Rightarrow> ret None | Inr entries \<Rightarrow> ret (running_id (fc_container cfg) entries))"

text \<open>\<open>p.resolve().is_relative_to(base_dir)\<close>, on the parts of the resolved paths.\<close>

definition within_base :: "aenv \<Rightarrow> string \<Rightarrow> string list \<Rightarrow> bool" where
  "within_base env p base =
     (if take 1 p \<noteq> ''/'' then False
      else (case os_resolve env p of None \<Rightarrow> False | Some parts \<Rightarrow> take (length base) parts = base))"

definition rm_request :: "fixer_config \<Rightarrow> string \<Rightarrow> string \<Rightarrow> exec_request" where
  "rm_request cfg container_id p =
     \<lparr>q_container = container_id, q_cmd = [''rm'', ''-f'', ''--'', p], q_user = Some (fc_fixer_user cfg),
      q_env = None, q_timeout = 15\<rparr>"

definition delete_transcript_file :: "aenv \<Rightarrow> fixer_config \<Rightarrow> string \<Rightarrow> string \<Rightarrow> bool afx" where
  "delete_transcript_file env cfg container_id p =
     tryP (bindP (exec_capture env (rm_request cfg container_id p)) (\<lambda>x. ret (x_exit_code x = 0)))
       (\<lambda>e. case e of DockerErr d \<Rightarrow> ret False | _ \<Rightarrow> raise e)"

definition classify_reason :: "bool \<Rightarrow> bool \<Rightarrow> string" where
  "classify_reason count_exceeded age_exceeded =
     (if count_exceeded \<and> age_exceeded then ''both'' else if age_exceeded then ''age_limit'' else ''count_limit'')"

definition mark_pruned :: "aenv \<Rightarrow> string \<Rightarrow> string \<Rightarrow> string \<Rightarrow> string \<Rightarrow> unit afx" where
  "mark_pruned env run_id runbook_id p reason =
     bindP (ask (clock env)) (\<lambda>pruned_at.
     txn env
       (seqP (mark_transcript_pruned_conn run_id pruned_at)
         (insert_audit env ''system:autofix'' ''autofix.transcript_pruned'' None
           (Some [(''run_id'', JStr run_id), (''runbook_id'', JStr runbook_id), (''transcript_path'', JStr p),
                  (''reason'', JStr reason)]) None (Some pruned_at))))"

text \<open>The loop over the candidates; the answer is how many files were pruned and marked.\<close>

fun prune_candidates ::
  "aenv \<Rightarrow> fixer_config \<Rightarrow> string \<Rightarrow> string list \<Rightarrow> (string \<times> string \<times> string \<times> bool \<times> bool) list \<Rightarrow> nat \<Rightarrow> nat afx" where
  "prune_candidates env cfg container_id base [] n = ret n"
| "prune_candidates env cfg container_id base ((run_id, runbook_id, p, count_exceeded, age_exceeded) # cs) n =
     (if \<not> within_base env p base then prune_candidates env cfg container_id base cs n
      else
        bindP (delete_transcript_file env cfg container_id p) (\<lambda>deleted.
        if \<not> deleted then prune_candidates env cfg container_id base cs n
        else
          seqP (mark_pruned env run_id runbook_id p (classify_reason count_exceeded age_exceeded))
            (prune_candidates env cfg container_id base cs (Suc n))))"

definition day_us :: int where "day_us = 86400 * 1000000"

definition rotate_locked :: "aenv \<Rightarrow> fixer_config \<Rightarrow> rotation_outcome afx" where
  "rotate_locked env cfg =
     bindP (resolve_running_fixer env cfg) (\<lambda>found.
     case found of
       None \<Rightarrow>
         seqP (txn env (insert_audit env ''system:autofix'' ''autofix.transcript_rotation_skipped_fixer_disabled'' None
                 (Some [(''fixer_container'', JStr (fc_container cfg))]) None None))
           (ret \<lparr>ro_files_pruned = 0, ro_runs_marked = 0, ro_runbooks_scanned = 0,
                 ro_skipped_reason = Some ''fixer_runner_not_running''\<rparr>)
     | Some container_id \<Rightarrow>
         bindP (ask (clock env)) (\<lambda>now.
         let older_than = now - fc_rotation_max_age_days cfg * day_us
         in bindP (fetch env count_distinct_runbooks_with_runs) (\<lambda>scanned.
            bindP (fetch env (list_prune_candidates (fc_rotation_max_count cfg) older_than)) (\<lambda>candidates.
            case os_resolve env (fc_transcript_dir cfg) of
              None \<Rightarrow> raise (OSErr (fc_transcript_dir cfg))
            | Some base \<Rightarrow>
                bindP (prune_candidates env cfg container_id base candidates 0) (\<lambda>n.
                ret \<lparr>ro_files_pruned = n, ro_runs_marked = n, ro_runbooks_scanned = scanned,
                     ro_skipped_reason = None\<rparr>)))))"

text \<open>The rotator's own lock, under a key no runbook has.\<close>

definition rotation_lock :: string where "rotation_lock = ''transcript rotator''"

definition rotate_transcripts :: "aenv \<Rightarrow> fixer_config \<Rightarrow> rotation_outcome afx" where
  "rotate_transcripts env cfg = with_lock env rotation_lock (rotate_locked env cfg)"

section \<open>What a pass sends and writes\<close>

definition confined_rm :: "aenv \<Rightarrow> fixer_config \<Rightarrow> act event \<Rightarrow> bool" where
  "confined_rm env cfg ev \<longleftrightarrow>
     (case ev of
        Audit _ \<Rightarrow> True
      | Act (ExecIn q) \<Rightarrow>
          (\<exists>c p parts base. q = rm_request cfg c p \<and> take 1 p = ''/'' \<and> os_resolve env p = Some parts \<and>
             os_resolve env (fc_transcript_dir cfg) = Some base \<and> take (length base) parts = base)
      | Act _ \<Rightarrow> False)"

lemma emits_delete:
  assumes "Act (ExecIn (rm_request cfg c p)) \<in> A"
  shows "emits A (delete_transcript_file env cfg c p)"
proof -
  have "emits A (case e of DockerErr d \<Rightarrow> ret False | _ \<Rightarrow> raise e)" for e
    by (cases e) (simp_all add: emits_intros)
  then show ?thesis
    unfolding delete_transcript_file_def by (intro emits_intros emits_exec_capture assms)
qed

lemma emits_prune_candidates:
  assumes "os_resolve env (fc_transcript_dir cfg) = Some base"
  shows "emits (Collect (confined_rm env cfg)) (prune_candidates env cfg c base cs n)"
proof (induction cs arbitrary: n)
  case (Cons x cs)
  obtain i rb p ce ae where x: "x = (i, rb, p, ce, ae)" by (cases x)
  show ?case
  proof (cases "within_base env p base")
    case True
    then have "Act (ExecIn (rm_request cfg c p)) \<in> Collect (confined_rm env cfg)"
      using assms by (auto simp: within_base_def confined_rm_def split: if_splits option.splits)
    moreover have "emits (Collect (confined_rm env cfg)) (mark_pruned env i rb p reason)" for reason
      unfolding mark_pruned_def mark_transcript_pruned_conn_def by (intro emits_intros) (simp add: confined_rm_def)
    ultimately show ?thesis
      using True unfolding x prune_candidates.simps
      by (simp only: not_True_eq_False if_False) (intro emits_intros emits_delete Cons.IH)
  qed (simp add: x Cons.IH)
qed (simp add: emits_intros)

text \<open>
  Rotation reaches outside only by \<open>rm\<close> on transcripts: whatever the table holds, every request
  of a pass runs \<open>rm -f --\<close> on one absolute path that resolves below the transcript directory, as the
  low-privilege user; a corrupted row cannot make it delete another file.
\<close>

theorem rotation_confined:
  "\<exists>es. trace (snd (rotate_transcripts env cfg w)) = trace w @ es \<and> set es \<subseteq> Collect (confined_rm env cfg)"
proof -
  let ?A = "Collect (confined_rm env cfg)"
  have "emits ?A (rotate_transcripts env cfg)"
  proof (cases "os_resolve env (fc_transcript_dir cfg)")
    case None
    show ?thesis
      unfolding rotate_transcripts_def with_lock_def rotate_locked_def resolve_running_fixer_def Let_def None option.case
      by (intro emits_intros) (simp add: confined_rm_def)
  next
    case (Some base)
    show ?thesis
      unfolding rotate_transcripts_def with_lock_def rotate_locked_def resolve_running_fixer_def Let_def Some option.case
      by (intro emits_intros emits_prune_candidates [OF Some]) (simp add: confined_rm_def)
  qed
  then show ?thesis unfolding emits_def by blast
qed

text \<open>The steps of a pass: an audit row, the mark of a run, and the lock.\<close>

definition unmarked :: "run_row \<Rightarrow> run_row" where
  "unmarked r = r\<lparr>r_transcript_path := None, r_transcript_pruned_at := None\<rparr>"

definition only_marks :: "store \<Rightarrow> store \<Rightarrow> bool" where
  "only_marks s t \<longleftrightarrow> audit_prefix s t \<and> map unmarked (s_runs t) = map unmarked (s_runs s) \<and>
     s_runbooks t = s_runbooks s \<and> s_approvals t = s_approvals s \<and> s_outcomes t = s_outcomes s \<and>
     s_feedback t = s_feedback s \<and> s_settings t = s_settings s \<and> s_alerts t = s_alerts s \<and> s_current t = s_current s"

lemma only_marks_steps: "only_marks\<^sup>*\<^sup>* s t \<Longrightarrow> only_marks s t"
proof (induction rule: rtranclp_induct)
  case (step t u)
  then show ?case unfolding only_marks_def by (metis audit_prefix_trans)
qed (simp add: only_marks_def)

text \<open>\<open>I\<close> are the runs a pass may mark.\<close>

locale rotation_writes =
  fixes R :: "store \<Rightarrow> store \<Rightarrow> bool" and I :: "string set"
  assumes v_audit: "\<And>s row. R s (add_audit row s)"
    and v_prune: "\<And>s i now. i \<in> I \<Longrightarrow> R s (update_run i (prune_run now) s)"
    and v_hold: "\<And>s i. R s (hold_lock i s)"
    and v_release: "\<And>s i. R s (release_lock i s)"
begin

lemma guar_prune_candidates:
  assumes r: "rely R env"
  shows "fst ` set cs \<subseteq> I \<Longrightarrow> guar R (prune_candidates env cfg c base cs n)"
proof (induction cs arbitrary: n)
  case (Cons x cs)
  obtain i rb p ce ae where x: "x = (i, rb, p, ce, ae)" by (cases x)
  have i: "i \<in> I" and later: "fst ` set cs \<subseteq> I" using Cons.prems by (simp_all add: x)
  have "guar R (case e of DockerErr d \<Rightarrow> ret False | _ \<Rightarrow> raise e)" for e
    by (cases e) (simp_all add: guar_intros)
  then have "guar R (delete_transcript_file env cfg c p)"
    unfolding delete_transcript_file_def exec_capture_def by (intro guar_intros r)
  moreover have "guar R (mark_pruned env i rb p reason)" for reason
    unfolding mark_pruned_def mark_transcript_pruned_conn_def
    by (intro guar_intros guar_insert_audit guar_modS_step v_audit v_prune [OF i] r)
  ultimately show ?case unfolding x prune_candidates.simps by (intro guar_intros Cons.IH [OF later])
qed (simp add: guar_intros)

lemma guar_rotate:
  assumes r: "rely R env" and all: "I = UNIV"
  shows "guar R (rotate_transcripts env cfg)"
  unfolding rotate_transcripts_def with_lock_def rotate_locked_def resolve_running_fixer_def Let_def
  by (intro guar_intros guar_insert_audit guar_modS_step guar_prune_candidates v_audit v_hold v_release r) (simp add: all)

end

interpretation marks: rotation_writes only_marks UNIV
  by unfold_locales
    (auto simp: only_marks_def audit_prefix_def add_audit_def update_run_def hold_lock_def release_lock_def
      unmarked_def prune_run_def)

text \<open>The pass is one of the tasks the orchestrator is interleaved with.\<close>

interpretation committed: rotation_writes "db_step quota gap" UNIV for quota gap
  by unfold_locales (rule db_step.intros)+

text \<open>
  A rotation pass never loses history: it leaves every row of every table where it was and changes
  nothing in them but the transcript columns of a run, and the audit log only grows.
\<close>

theorem rotation_only_marks:
  assumes "\<And>n s. only_marks s (other env n s)"
  shows "only_marks (shared w) (shared (snd (rotate_transcripts env cfg w)))"
proof -
  have "rely only_marks env" using assms by (auto simp: rely_def)
  from marks.guar_rotate [OF this refl] show ?thesis using only_marks_steps by (simp add: guar_def)
qed

theorem rotation_only_marks_witness:
  "only_marks (shared lone_world) (shared (snd (rotate_transcripts calm_env example_config lone_world)))"
  by (rule rotation_only_marks) (simp add: calm_env_def only_marks_def)

lemma rotation_extends:
  "rely (db_step quota gap) env \<Longrightarrow> extends (shared w) (shared (snd (rotate_transcripts env cfg w)))"
  using committed.guar_rotate [OF _ refl, of quota gap env cfg] steps_extend [of quota gap] by (auto simp: guar_def)

section \<open>What a pass spares\<close>

definition rows_with_id :: "string \<Rightarrow> store \<Rightarrow> run_row list" where
  "rows_with_id i s = filter (\<lambda>r. r_id r = i) (s_runs s)"

interpretation spared: rotation_writes "keeps (rows_with_id i)" "- {i}" for i
proof unfold_locales
  fix s i' now row
  show "keeps (rows_with_id i) s (update_run i' (prune_run now) s)" if "i' \<in> - {i}"
  proof -
    have "filter (\<lambda>r. r_id r = i) (map (\<lambda>r. if r_id r = i' then prune_run now r else r) rs) = filter (\<lambda>r. r_id r = i) rs" for rs
      using that by (induction rs) (auto simp: prune_run_def)
    then show ?thesis by (simp add: keeps_def rows_with_id_def update_run_def)
  qed
qed (simp_all add: keeps_def rows_with_id_def add_audit_def hold_lock_def release_lock_def)

lemma candidate_row:
  assumes "distinct (map r_id (s_runs s))" and "r \<in> set (s_runs s)"
    and "row_number s r \<le> n \<and> \<not> text_before_cutoff (r_started_at r) older"
  shows "fst ` set (list_prune_candidates n older s) \<subseteq> - {r_id r}"
proof
  fix i assume "i \<in> fst ` set (list_prune_candidates n older s)"
  then obtain rb p ce ae where "(i, rb, p, ce, ae) \<in> set (list_prune_candidates n older s)" by force
  then obtain r' where r': "r' \<in> set (s_runs s)" "r_id r' = i" "n < row_number s r' \<or> text_before_cutoff (r_started_at r') older"
    by (auto simp: prune_candidate_iff)
  have "r' \<noteq> r" using r'(3) assms(3) by auto
  with assms(1,2) r'(1,2) show "i \<in> - {r_id r}" by (auto simp: distinct_map dest: inj_onD)
qed

lemma row_number_runs: "s_runs s = s_runs t \<Longrightarrow> row_number s r = row_number t r"
  by (simp add: row_number_def)

text \<open>
  A rotation pass spares what it should keep: while no other task changes the runs, a run that is
  among the newest N of its runbook and inside the age limit at every reading of the clock has the
  same row after the pass, transcript included.
\<close>

theorem rotation_spares_newest:
  assumes "\<And>n s. s_runs (other env n s) = s_runs s"
    and "distinct (map r_id (s_runs (shared w)))" and "r \<in> set (s_runs (shared w))"
    and "row_number (shared w) r \<le> fc_rotation_max_count cfg"
    and "\<And>k. \<not> text_before_cutoff (r_started_at r) (clock env k - fc_rotation_max_age_days cfg * day_us)"
  shows "r \<in> set (s_runs (shared (snd (rotate_transcripts env cfg w))))"
proof -
  let ?J = "\<lambda>s :: store. s_runs s = s_runs (shared w)" and ?Q = "\<lambda>s :: store. rows_with_id (r_id r) s = rows_with_id (r_id r) (shared w)"
  have J: "rely (preserves ?J) env" using assms(1) by (simp add: rely_preserves)
  have JQ: "?Q s" if "?J s" for s using that by (simp add: rows_with_id_def)
  have K: "rely (keeps (rows_with_id (r_id r))) env" using assms(1) by (auto simp: rely_def keeps_def rows_with_id_def)
  have loop: "ensures ?J (bindP (prune_candidates env cfg c base
        (list_prune_candidates (fc_rotation_max_count cfg) (clock env k - fc_rotation_max_age_days cfg * day_us) s) 0)
        (\<lambda>n. ret (f n))) ?Q" if "?J s" for c base k s and f :: "nat \<Rightarrow> rotation_outcome"
  proof -
    have "fst ` set (list_prune_candidates (fc_rotation_max_count cfg) (clock env k - fc_rotation_max_age_days cfg * day_us) s)
        \<subseteq> - {r_id r}"
      using assms(2-5) that by (intro candidate_row) (simp_all add: row_number_runs [of s "shared w"])
    from spared.guar_prune_candidates [OF K this] have
      g: "guar (keeps (rows_with_id (r_id r))) (bindP (prune_candidates env cfg c base
        (list_prune_candidates (fc_rotation_max_count cfg) (clock env k - fc_rotation_max_age_days cfg * day_us) s) 0)
        (\<lambda>n. ret (f n)))" by (intro guar_intros)
    show ?thesis unfolding ensures_def using guar_keeps [OF g] JQ by metis
  qed
  have quiet: "guar (preserves ?J) (insert_audit env who what bf af ip t)" for who what bf af ip t
    by (rule guar_insert_audit) (simp add: preserves_def add_audit_def)
  have body: "ensures ?J (rotate_locked env cfg) ?Q"
    unfolding rotate_locked_def
  proof (rule ensures_bindP)
    show "guar (preserves ?J) (resolve_running_fixer env cfg)"
      unfolding resolve_running_fixer_def by (intro guar_intros J)
    show "?Q s" if "?J s" for s by (rule JQ [OF that])
    fix found
    show "ensures ?J (case found of
       None \<Rightarrow>
         seqP (txn env (insert_audit env ''system:autofix'' ''autofix.transcript_rotation_skipped_fixer_disabled'' None
                 (Some [(''fixer_container'', JStr (fc_container cfg))]) None None))
           (ret \<lparr>ro_files_pruned = 0, ro_runs_marked = 0, ro_runbooks_scanned = 0,
                 ro_skipped_reason = Some ''fixer_runner_not_running''\<rparr>)
     | Some container_id \<Rightarrow>
         bindP (ask (clock env)) (\<lambda>now.
         let older_than = now - fc_rotation_max_age_days cfg * day_us
         in bindP (fetch env count_distinct_runbooks_with_runs) (\<lambda>scanned.
            bindP (fetch env (list_prune_candidates (fc_rotation_max_count cfg) older_than)) (\<lambda>candidates.
            case os_resolve env (fc_transcript_dir cfg) of
              None \<Rightarrow> raise (OSErr (fc_transcript_dir cfg))
            | Some base \<Rightarrow>
                bindP (prune_candidates env cfg container_id base candidates 0) (\<lambda>n.
                ret \<lparr>ro_files_pruned = n, ro_runs_marked = n, ro_runbooks_scanned = scanned,
                     ro_skipped_reason = None\<rparr>))))) ?Q"
    proof (cases found)
      case None
      show ?thesis unfolding None option.case
        by (rule ensures_guar) (intro guar_intros quiet J, rule JQ)
    next
      case (Some c)
      show ?thesis
        unfolding Some option.case Let_def
      proof (rule ensures_ask_bind, intro ensures_fetch_bind [OF J])
        fix k and s s' :: store assume "s_runs s = s_runs (shared w)" and s': "s_runs s' = s_runs (shared w)"
        show "ensures ?J (case os_resolve env (fc_transcript_dir cfg) of
              None \<Rightarrow> raise (OSErr (fc_transcript_dir cfg))
            | Some base \<Rightarrow>
                bindP (prune_candidates env cfg c base (list_prune_candidates (fc_rotation_max_count cfg)
                    (clock env k - fc_rotation_max_age_days cfg * day_us) s') 0) (\<lambda>n.
                ret \<lparr>ro_files_pruned = n, ro_runs_marked = n,
                     ro_runbooks_scanned = count_distinct_runbooks_with_runs s, ro_skipped_reason = None\<rparr>)) ?Q"
        proof (cases "os_resolve env (fc_transcript_dir cfg)")
          case None
          show ?thesis unfolding None option.case by (rule ensures_guar [OF guar_raise JQ])
        next
          case base: (Some base)
          show ?thesis unfolding base option.case by (rule loop [OF s'])
        qed
      qed
    qed
  qed
  have "ensures ?J (rotate_transcripts env cfg) ?Q"
    unfolding rotate_transcripts_def with_lock_def
  proof (intro ensures_seqP ensures_finallyP body)
    show "guar (preserves ?J) (suspend env)" by (rule guar_suspend [OF J])
    show "guar (preserves ?J) (modS (hold_lock rotation_lock))"
      by (rule guar_modS_step) (simp add: preserves_def hold_lock_def)
    show "guar (preserves ?Q) (modS (release_lock rotation_lock))"
      by (rule guar_modS_step) (simp add: preserves_def release_lock_def rows_with_id_def)
  qed (rule JQ, assumption)+
  then have "rows_with_id (r_id r) (shared (snd (rotate_transcripts env cfg w))) = rows_with_id (r_id r) (shared w)"
    by (simp add: ensures_def)
  with assms(3) show ?thesis unfolding rows_with_id_def by (metis (mono_tags, lifting) mem_Collect_eq set_filter)
qed

definition newest_run :: run_row where
  "newest_run = example_run\<lparr>r_id := ''r2'', r_started_at := 5\<rparr>"

theorem rotation_spares_newest_witness:
  "newest_run \<in> set (s_runs (shared (snd (rotate_transcripts (calm_env\<lparr>clock := \<lambda>_. 0\<rparr>)
     (example_config\<lparr>fc_rotation_max_count := 1\<rparr>)
     (lone_world\<lparr>shared := example_store\<lparr>s_runs := [example_run, newest_run]\<rparr>\<rparr>)))))"
proof (rule rotation_spares_newest)
  show "row_number (shared (lone_world\<lparr>shared := example_store\<lparr>s_runs := [example_run, newest_run]\<rparr>\<rparr>)) newest_run
      \<le> fc_rotation_max_count (example_config\<lparr>fc_rotation_max_count := 1\<rparr>)"
    by (simp add: row_number_def newest_run_def example_run_def run_key_def)
  show "\<not> text_before_cutoff (r_started_at newest_run)
      (clock (calm_env\<lparr>clock := \<lambda>_. 0\<rparr>) k -
       fc_rotation_max_age_days (example_config\<lparr>fc_rotation_max_count := 1\<rparr>) * day_us)" for k
    by (simp add: text_before_cutoff_def newest_run_def example_config_def day_us_def)
qed (simp_all add: calm_env_def newest_run_def example_run_def)

end
