(* ===== verification/IsoTime.thy ===== *)
theory IsoTime
  imports Timestamps
begin

text \<open>
  Nanosecond times of log lines (kernel/logs/pagination.py, \<open>_iso_to_ns\<close> and \<open>_ns_to_iso\<close>): the civil
  calendar of \<open>datetime.fromtimestamp\<close>, the text with nine fraction digits that bounds a query, and
  its parser.  \<open>datetime.fromisoformat\<close> is written out for the text YYYY-MM-DDTHH:MM:SS+HH:MM; what it
  makes of any other text is the parameter \<open>other_iso\<close> (None is its ValueError).
\<close>

section \<open>The civil calendar\<close>

definition year_len :: "nat \<Rightarrow> nat" where
  "year_len y = (if is_leap y then 366 else 365)"

lemma year_len_pos [simp]: "0 < year_len y"
  by (simp add: year_len_def)

lemma month_len_pos [simp]: "0 < month_len y m"
  by (simp add: month_len_def)

function find_year :: "nat \<Rightarrow> nat \<Rightarrow> nat \<times> nat" where
  "find_year y d = (if d < year_len y then (y, d) else find_year (Suc y) (d - year_len y))"
  by pat_completeness auto
termination by (relation "measure snd") (auto simp: year_len_def split: if_splits)

function find_month :: "nat \<Rightarrow> nat \<Rightarrow> nat \<Rightarrow> nat \<times> nat" where
  "find_month y m d = (if d < month_len y m then (m, d) else find_month y (Suc m) (d - month_len y m))"
  by pat_completeness auto
termination by (relation "measure (\<lambda>(y, m, d). d)") (auto simp: month_len_def split: if_splits)

declare find_year.simps [simp del] find_month.simps [simp del]

definition datetime_of_seconds :: "nat \<Rightarrow> datetime" where
  "datetime_of_seconds s =
     (let (y, yd) = find_year 0 (s div 86400);
          (m, md) = find_month y 1 yd;
          r = s mod 86400
      in DT y m (Suc md) (r div 3600) (r mod 3600 div 60) (r mod 60) 0)"

lemma find_year_result:
  "find_year y d = (y', d') \<Longrightarrow> d' < year_len y' \<and> days_before_year y' + d' = days_before_year y + d"
proof (induction y d rule: find_year.induct)
  case (1 y d)
  show ?case
  proof (cases "d < year_len y")
    case True
    with "1.prems" show ?thesis by (simp add: find_year.simps)
  next
    case False
    with "1.prems" have "find_year (Suc y) (d - year_len y) = (y', d')" by (subst (asm) find_year.simps) simp
    from "1.IH" [OF False this] False show ?thesis by (simp add: year_len_def)
  qed
qed

lemma find_month_result:
  "find_month y m d = (m', d') \<Longrightarrow> 1 \<le> m \<Longrightarrow>
     d' < month_len y m' \<and> m \<le> m' \<and> days_before_month y m' + d' = days_before_month y m + d"
proof (induction y m d rule: find_month.induct)
  case (1 y m d)
  show ?case
  proof (cases "d < month_len y m")
    case True
    with "1.prems" show ?thesis by (simp add: find_month.simps)
  next
    case False
    with "1.prems" have "find_month y (Suc m) (d - month_len y m) = (m', d')" by (subst (asm) find_month.simps) simp
    from "1.IH" [OF False this] False "1.prems"(2) show ?thesis by simp
  qed
qed

lemma year_months: "days_before_month y 13 = year_len y"
  by (simp add: eval_nat_numeral year_len_def month_len_def)

lemma days_before_month_le: "1 \<le> m \<Longrightarrow> m \<le> m' \<Longrightarrow> days_before_month y m \<le> days_before_month y m'"
proof (induction m' rule: nat_induct)
  case (Suc n)
  then show ?case by (cases "m = Suc n") (auto intro: le_trans)
qed simp

lemma find_month_within_year:
  assumes "find_month y 1 d = (m, d')" and "d < year_len y"
  shows "1 \<le> m" "m \<le> 12" "d' < month_len y m" "days_before_month y m + d' = d"
proof -
  note r = find_month_result [OF assms(1)]
  from r show "1 \<le> m" "d' < month_len y m" "days_before_month y m + d' = d" by simp_all
  then show "m \<le> 12"
    using days_before_month_le [of 13 m y] year_months [of y] assms(2) by (cases "m \<le> 12") simp_all
qed

lemma days_before_year_le: "y \<le> y' \<Longrightarrow> days_before_year y \<le> days_before_year y'"
proof (induction y' rule: nat_induct)
  case (Suc n)
  then show ?case by (cases "y = Suc n") (auto intro: le_trans)
qed simp

text \<open>The closed form of the day count.\<close>

lemma leap_count:
  "(Suc y + 3) div 4 + (y + 99) div 100 + (Suc y + 399) div 400 =
     (y + 3) div 4 + (Suc y + 99) div 100 + (y + 399) div 400 + (if is_leap y then 1 else (0::nat))"
proof -
  have four: "(Suc y + 3) div 4 = (y + 3) div 4 + (if y mod 4 = 0 then 1 else 0)"
    using div_Suc [of "y + 3" 4] by (simp add: mod_add_self2)
  have hundred: "(Suc y + 99) div 100 = (y + 99) div 100 + (if y mod 100 = 0 then 1 else 0)"
    using div_Suc [of "y + 99" 100] by simp
  have fourhundred: "(Suc y + 399) div 400 = (y + 399) div 400 + (if y mod 400 = 0 then 1 else 0)"
    using div_Suc [of "y + 399" 400] by simp
  have "y mod 400 = 0 \<Longrightarrow> y mod 100 = 0" "y mod 100 = 0 \<Longrightarrow> y mod 4 = 0"
    using mod_mod_cancel [of 100 400 y] mod_mod_cancel [of 4 100 y] by simp_all
  then show ?thesis
    unfolding four hundred fourhundred is_leap_def
    by (cases "y mod 4 = 0"; cases "y mod 100 = 0"; cases "y mod 400 = 0") simp_all
qed

lemma days_before_year_closed:
  "days_before_year y + (y + 99) div 100 = 365 * y + (y + 3) div 4 + (y + 399) div 400"
proof (induction y)
  case (Suc y)
  have "days_before_year (Suc y) = days_before_year y + 365 + (if is_leap y then 1 else 0)" by simp
  moreover have "365 * Suc y = 365 * y + 365" by simp
  moreover note leap_count [of y] Suc
  ultimately show ?case by (simp only:)
qed simp

lemma epoch_days: "days_before_year 1970 = 719528" "days_before_year 10000 = 3652425" "days_before_year 1000 = 365243"
  using days_before_year_closed [of 1970] days_before_year_closed [of 10000] days_before_year_closed [of 1000] by simp_all

definition epoch_s :: nat where
  "epoch_s = 719528 * 86400"

definition max_epoch_s :: int where
  "max_epoch_s = 253402300800"

lemma day_clock: "((d * 24 + r div 3600) * 60 + r mod 3600 div 60) * 60 + r mod 60 = d * 86400 + (r::nat)"
proof -
  have "r mod 3600 mod 60 = r mod 60" by (simp add: mod_mod_cancel)
  then have "r div 3600 * 3600 + (r mod 3600 div 60 * 60 + r mod 60) = r"
    using div_mult_mod_eq [of r 3600] div_mult_mod_eq [of "r mod 3600" 60] by simp
  then show ?thesis by (simp add: algebra_simps)
qed

lemma datetime_of_seconds_instant:
  "instant (datetime_of_seconds s) = s * 1000000" "micro (datetime_of_seconds s) = 0"
proof -
  obtain y yd where y: "find_year 0 (s div 86400) = (y, yd)" by fastforce
  obtain m md where m: "find_month y 1 yd = (m, md)" by fastforce
  have "s div 86400 = days_before_year y + yd" "yd < year_len y" using find_year_result [OF y] by simp_all
  with find_month_within_year [OF m] have d: "s div 86400 = days_before_year y + (days_before_month y m + md)" by simp
  have "((s div 86400 * 24 + s mod 86400 div 3600) * 60 + s mod 86400 mod 3600 div 60) * 60 + s mod 86400 mod 60 = s"
    using day_clock [of "s div 86400" "s mod 86400"] by simp
  then show "instant (datetime_of_seconds s) = s * 1000000"
    unfolding datetime_of_seconds_def y m Let_def prod.case instant_def day_number_def by (simp add: d)
  show "micro (datetime_of_seconds s) = 0" unfolding datetime_of_seconds_def y m Let_def prod.case by simp
qed

lemma datetime_of_seconds_valid:
  assumes "365243 * 86400 \<le> s" and "s < 3652425 * 86400"
  shows "valid_datetime (datetime_of_seconds s)" "1000 \<le> year (datetime_of_seconds s)"
proof -
  obtain y yd where y: "find_year 0 (s div 86400) = (y, yd)" by fastforce
  obtain m md where m: "find_month y 1 yd = (m, md)" by fastforce
  have r: "s div 86400 = days_before_year y + yd" "yd < year_len y" using find_year_result [OF y] by simp_all
  have "365243 \<le> s div 86400" "s div 86400 < 3652425" using assms by (simp_all add: less_eq_div_iff_mult_less_eq div_less_iff_less_mult)
  then have "y < 10000" "1000 \<le> y"
    using r days_before_year_le [of 10000 y] days_before_year_le [of "Suc y" 1000] epoch_days
    by (auto simp: year_len_def not_less_eq_eq not_le intro: ccontr split: if_splits)
  with find_month_within_year [OF m r(2)]
  show "valid_datetime (datetime_of_seconds s)" "1000 \<le> year (datetime_of_seconds s)"
    unfolding datetime_of_seconds_def y m Let_def prod.case
    by (simp_all add: valid_datetime_def Suc_leI div_less_iff_less_mult)
qed

section \<open>The text with nine fraction digits\<close>

text \<open>
  \<open>_ns_to_iso\<close>: None is the ValueError of \<open>fromtimestamp\<close> outside the years 1 to 9999.  \<open>%Y\<close> does not pad
  a year below 1000.
\<close>

definition year_text :: "nat \<Rightarrow> string" where
  "year_text y = (if y < 1000 then str_of_nat y else digits 4 y)"

definition strftime_seconds :: "datetime \<Rightarrow> string" where
  "strftime_seconds d = year_text (year d) @ ''-'' @ digits 2 (month d) @ ''-'' @ digits 2 (day d) @ ''T'' @
     digits 2 (hour d) @ '':'' @ digits 2 (minute d) @ '':'' @ digits 2 (second d)"

definition ns_to_iso :: "int \<Rightarrow> string option" where
  "ns_to_iso ns =
     (let secs = ns div 1000000000; frac = nat (ns mod 1000000000); s = secs + int epoch_s in
      if s < int (days_before_year 1) * 86400 \<or> max_epoch_s \<le> secs then None
      else Some (strftime_seconds (datetime_of_seconds (nat s)) @ ''.'' @ digits 9 frac @ ''+00:00''))"

text \<open>\<open>int(text)\<close> on ASCII digits.\<close>

definition dec_value :: "string \<Rightarrow> nat" where
  "dec_value s = foldl (\<lambda>a c. a * 10 + (of_char c - 48)) 0 s"

text \<open>\<open>str.isdigit\<close> holds of the superscript digits too, which \<open>int\<close> refuses.\<close>

definition py_isdigit :: "char \<Rightarrow> bool" where
  "py_isdigit c = (is_digit c \<or> of_char c \<in> {178, 179, 185 :: nat})"

definition is_sign :: "char \<Rightarrow> bool" where
  "is_sign c = (c = CHR ''+'' \<or> c = CHR ''-'')"

text \<open>The text before the zone, and the zone: the first sign at or after the first T.\<close>

definition split_zone :: "string \<Rightarrow> string \<times> string" where
  "split_zone s =
     (let head = takeWhile (\<lambda>c. c \<noteq> CHR ''T'') s; rest = dropWhile (\<lambda>c. c \<noteq> CHR ''T'') s in
      (head @ takeWhile (\<lambda>c. \<not> is_sign c) rest, dropWhile (\<lambda>c. \<not> is_sign c) rest))"

definition slice :: "nat \<Rightarrow> nat \<Rightarrow> string \<Rightarrow> string" where
  "slice i n s = take n (drop i s)"

text \<open>
  \<open>int(datetime.fromisoformat(s).timestamp())\<close> on YYYY-MM-DDTHH:MM:SS+HH:MM; other texts are left to
  \<open>other_iso\<close>.
\<close>

definition canonical_fields :: "string \<Rightarrow> datetime" where
  "canonical_fields s =
     DT (dec_value (slice 0 4 s)) (dec_value (slice 5 2 s)) (dec_value (slice 8 2 s))
        (dec_value (slice 11 2 s)) (dec_value (slice 14 2 s)) (dec_value (slice 17 2 s)) 0"

definition canonical_iso :: "string \<Rightarrow> bool" where
  "canonical_iso s =
     (length s = 25 \<and> s ! 4 = CHR ''-'' \<and> s ! 7 = CHR ''-'' \<and> s ! 10 = CHR ''T'' \<and> s ! 13 = CHR '':'' \<and>
      s ! 16 = CHR '':'' \<and> is_sign (s ! 19) \<and> s ! 22 = CHR '':'' \<and>
      list_all is_digit (slice 0 4 s @ slice 5 2 s @ slice 8 2 s @ slice 11 2 s @ slice 14 2 s @ slice 17 2 s @
        slice 20 2 s @ slice 23 2 s) \<and>
      valid_datetime (canonical_fields s) \<and> dec_value (slice 20 2 s) < 24 \<and> dec_value (slice 23 2 s) < 60)"

definition iso_seconds_of :: "(string \<Rightarrow> int option) \<Rightarrow> string \<Rightarrow> int option" where
  "iso_seconds_of other_iso s =
     (if canonical_iso s then
        (let off = int (dec_value (slice 20 2 s)) * 3600 + int (dec_value (slice 23 2 s)) * 60 in
         Some (int (instant (canonical_fields s)) div 1000000 - int epoch_s
               - (if s ! 19 = CHR ''+'' then off else - off)))
      else other_iso s)"

text \<open>
  \<open>_iso_to_ns\<close>: a text that \<open>fromisoformat\<close> refuses is 0.  None is the one ValueError that escapes: a
  fraction with a superscript digit.
\<close>

definition iso_to_ns :: "(string \<Rightarrow> int option) \<Rightarrow> string \<Rightarrow> int option" where
  "iso_to_ns other_iso ts =
     (let s0 = strip ts;
          s = (if s0 \<noteq> [] \<and> last s0 \<in> {CHR ''Z'', CHR ''z''} then butlast s0 @ ''+00:00'' else s0);
          (body, tz) = split_zone s;
          zone = (if tz = [] then ''+00:00'' else tz);
          whole = takeWhile (\<lambda>c. c \<noteq> CHR ''.'') body;
          frac_digits = take 9 (tl (dropWhile (\<lambda>c. c \<noteq> CHR ''.'') body) @ replicate 9 (CHR ''0''))
      in if CHR ''.'' \<in> set body \<and> list_all py_isdigit frac_digits then
           (if list_all is_digit frac_digits then
              Some (case iso_seconds_of other_iso (whole @ zone) of
                      None \<Rightarrow> 0 | Some e \<Rightarrow> e * 1000000000 + int (dec_value frac_digits))
            else None)
         else
           Some (case iso_seconds_of other_iso (body @ zone) of None \<Rightarrow> 0 | Some e \<Rightarrow> e * 1000000000))"

section \<open>The round trip\<close>

lemma of_digit: "d < 10 \<Longrightarrow> (of_char (digit d) :: nat) = 48 + d"
  by (simp add: digit_def)

lemma digit_facts:
  assumes "d < 10"
  shows "is_digit (digit d)" "digit d \<noteq> CHR ''T''" "\<not> is_sign (digit d)" "digit d \<noteq> CHR ''.''"
    "\<not> is_space (digit d)" "digit d \<noteq> CHR ''Z''" "digit d \<noteq> CHR ''z''" "of_char (digit d) - 48 = d"
proof -
  have n: "digit d \<noteq> c" if "(of_char c :: nat) < 48 \<or> 57 < (of_char c :: nat)" for c
    using that of_digit [OF assms] assms by auto
  show "digit d \<noteq> CHR ''T''" "digit d \<noteq> CHR ''.''" "digit d \<noteq> CHR ''Z''" "digit d \<noteq> CHR ''z''" "\<not> is_sign (digit d)"
    by (rule n, simp)+ (simp add: is_sign_def n)
  show "is_digit (digit d)" "\<not> is_space (digit d)" "of_char (digit d) - 48 = d"
    using assms by (simp_all add: is_digit_def is_space_def of_digit)
qed

lemma digits_all: "(\<And>d. d < 10 \<Longrightarrow> P (digit d)) \<Longrightarrow> list_all P (digits k n)"
  by (induction k n rule: digits.induct) simp_all

lemma foldl_dec: "foldl (\<lambda>a c. a * 10 + (of_char c - 48)) a (digits k n) = a * 10 ^ k + n mod 10 ^ k"
proof (induction k n arbitrary: a rule: digits.induct)
  case (2 k n)
  have "n mod (10 * 10 ^ k) = 10 * (n div 10 mod 10 ^ k) + n mod 10" by (rule mod_mult2_eq)
  then show ?case using digit_facts(8) [of "n mod 10"] by (simp add: 2 algebra_simps)
qed simp

lemma dec_value_digits: "n < 10 ^ k \<Longrightarrow> dec_value (digits k n) = n"
  by (simp add: dec_value_def foldl_dec)

lemma all_takeWhile: "list_all P xs \<Longrightarrow> takeWhile P (xs @ ys) = xs @ takeWhile P ys"
  "list_all P xs \<Longrightarrow> dropWhile P (xs @ ys) = dropWhile P ys"
  by (induction xs) simp_all

lemma slice_append: "slice (length xs + i) n (xs @ ys) = slice i n ys"
  by (simp add: slice_def)

lemma canonical_seconds:
  assumes "valid_datetime d" and "micro d = 0"
  shows "canonical_fields (iso_seconds d @ ''+00:00'') = d" "canonical_iso (iso_seconds d @ ''+00:00'')"
    "dec_value (slice 20 2 (iso_seconds d @ ''+00:00'')) = 0" "dec_value (slice 23 2 (iso_seconds d @ ''+00:00'')) = 0"
proof -
  let ?s = "iso_seconds d @ ''+00:00''"
  have slices: "slice 0 4 ?s = digits 4 (year d)" "slice 5 2 ?s = digits 2 (month d)" "slice 8 2 ?s = digits 2 (day d)"
    "slice 11 2 ?s = digits 2 (hour d)" "slice 14 2 ?s = digits 2 (minute d)" "slice 17 2 ?s = digits 2 (second d)"
    "slice 20 2 ?s = ''00''" "slice 23 2 ?s = ''00''"
    by (simp_all add: slice_def iso_seconds_def)
  have month: "month_len (year d) (month d) \<le> 31" by (simp add: month_len_def)
  have bounds: "year d < 10 ^ 4" "month d < 10 ^ 2" "day d < 10 ^ 2" "hour d < 10 ^ 2" "minute d < 10 ^ 2" "second d < 10 ^ 2"
    using assms(1) month by (simp_all add: valid_datetime_def)
  show fields: "canonical_fields ?s = d"
    unfolding canonical_fields_def slices bounds [THEN dec_value_digits] using assms(2) by (cases d) simp
  show zero: "dec_value (slice 20 2 ?s) = 0" "dec_value (slice 23 2 ?s) = 0" unfolding slices by (simp_all add: dec_value_def)
  have len: "length ?s = 25" and seps: "?s ! 4 = CHR ''-''" "?s ! 7 = CHR ''-''" "?s ! 10 = CHR ''T''" "?s ! 13 = CHR '':''"
    "?s ! 16 = CHR '':''" "is_sign (?s ! 19)" "?s ! 22 = CHR '':''"
    by (simp_all add: iso_seconds_def nth_append is_sign_def)
  have "list_all is_digit (slice 0 4 ?s @ slice 5 2 ?s @ slice 8 2 ?s @ slice 11 2 ?s @ slice 14 2 ?s @ slice 17 2 ?s @
      slice 20 2 ?s @ slice 23 2 ?s)"
    unfolding slices by (simp add: digits_all digit_facts) (simp add: is_digit_def)
  then show "canonical_iso ?s"
    unfolding canonical_iso_def using len seps fields assms(1) zero by simp
qed

lemma iso_seconds_of_canonical:
  assumes "valid_datetime d" and "micro d = 0"
  shows "iso_seconds_of other_iso (iso_seconds d @ ''+00:00'') = Some (int (instant d) div 1000000 - int epoch_s)"
  using canonical_seconds [OF assms] by (simp add: iso_seconds_of_def)

lemma seconds_text_clean:
  "list_all (\<lambda>c. c \<noteq> CHR ''.'') (iso_seconds d)"
  "split_zone (iso_seconds d @ ''.'' @ digits k f @ ''+00:00'') = (iso_seconds d @ ''.'' @ digits k f, ''+00:00'')"
proof -
  show "list_all (\<lambda>c. c \<noteq> CHR ''.'') (iso_seconds d)"
    by (simp add: iso_seconds_def digits_all digit_facts)
  have dash: "list_all (\<lambda>c. c \<noteq> CHR ''T'') (digits 4 (year d) @ ''-'' @ digits 2 (month d) @ ''-'' @ digits 2 (day d))"
    and sign: "list_all (\<lambda>c. \<not> is_sign c) (''T'' @ digits 2 (hour d) @ '':'' @ digits 2 (minute d) @ '':'' @
      digits 2 (second d) @ ''.'' @ digits k f)"
    by (simp_all add: digits_all digit_facts) (simp_all add: is_sign_def)
  have "iso_seconds d @ ''.'' @ digits k f @ ''+00:00'' =
      (digits 4 (year d) @ ''-'' @ digits 2 (month d) @ ''-'' @ digits 2 (day d)) @
      (''T'' @ digits 2 (hour d) @ '':'' @ digits 2 (minute d) @ '':'' @ digits 2 (second d) @ ''.'' @ digits k f) @ ''+00:00''"
    by (simp add: iso_seconds_def)
  then show "split_zone (iso_seconds d @ ''.'' @ digits k f @ ''+00:00'') = (iso_seconds d @ ''.'' @ digits k f, ''+00:00'')"
    using all_takeWhile [OF dash] all_takeWhile [OF sign, of "''+00:00''"]
    by (simp add: split_zone_def Let_def is_sign_def iso_seconds_def)
qed

lemma strip_clean:
  assumes "s \<noteq> []" and "\<not> is_space (hd s)" and "\<not> is_space (last s)"
  shows "strip s = s"
proof -
  have d: "dropWhile is_space s = s" using assms by (cases s) auto
  have "dropWhile is_space (rev s) = rev s" using assms by (cases s rule: rev_cases) auto
  with d show ?thesis by (simp add: strip_def)
qed

lemma iso_ns_roundtrip:
  assumes "0 \<le> ns" and "ns < max_epoch_s * 1000000000"
  shows "\<exists>ts. ns_to_iso ns = Some ts \<and> iso_to_ns other_iso ts = Some ns"
proof -
  define secs where "secs = ns div 1000000000"
  define frac where "frac = nat (ns mod 1000000000)"
  define d where "d = datetime_of_seconds (nat (secs + int epoch_s))"
  have secs: "0 \<le> secs" "secs < max_epoch_s" using assms by (simp_all add: secs_def pos_imp_zdiv_nonneg_iff div_less_iff_less_mult)
  have frac: "frac < 10 ^ 9" by (simp add: frac_def nat_less_iff)
  have range: "365243 * 86400 \<le> nat (secs + int epoch_s)" "nat (secs + int epoch_s) < 3652425 * 86400"
    using secs by (simp_all add: epoch_s_def max_epoch_s_def)
  note valid = datetime_of_seconds_valid [OF range, folded d_def]
  have micro: "micro d = 0" by (simp add: d_def datetime_of_seconds_instant)
  have inst: "int (instant d) div 1000000 - int epoch_s = secs"
    using secs(1) unfolding d_def datetime_of_seconds_instant(1) by simp
  let ?ts = "iso_seconds d @ ''.'' @ digits 9 frac @ ''+00:00''"
  have year1: "days_before_year 1 = 366" by (simp add: is_leap_def)
  have rendered: "ns_to_iso ns = Some ?ts"
    using secs valid(2) unfolding ns_to_iso_def Let_def secs_def [symmetric] frac_def [symmetric] d_def [symmetric]
    by (simp add: strftime_seconds_def year_text_def iso_seconds_def epoch_s_def)
  have "digits 4 (year d) \<noteq> []" by (metis length_digits list.size(3) zero_neq_numeral)
  moreover have "list_all (\<lambda>c. \<not> is_space c) (digits 4 (year d))" by (simp add: digits_all digit_facts)
  ultimately have "\<not> is_space (hd ?ts)" by (cases "digits 4 (year d)") (simp_all add: iso_seconds_def)
  then have clean: "strip ?ts = ?ts" by (intro strip_clean) (simp_all add: is_space_def)
  have digits: "list_all is_digit (digits 9 frac)" "list_all py_isdigit (digits 9 frac)"
    by (simp_all add: digits_all digit_facts py_isdigit_def)
  have dot: "takeWhile (\<lambda>c. c \<noteq> CHR ''.'') (iso_seconds d @ ''.'' @ digits 9 frac) = iso_seconds d"
    "dropWhile (\<lambda>c. c \<noteq> CHR ''.'') (iso_seconds d @ ''.'' @ digits 9 frac) = ''.'' @ digits 9 frac"
    using seconds_text_clean(1) [of d] by (simp_all add: all_takeWhile)
  have "iso_to_ns other_iso ?ts = Some (secs * 1000000000 + int frac)"
    unfolding iso_to_ns_def Let_def clean
    using digits dec_value_digits [OF frac] iso_seconds_of_canonical [OF valid(1) micro] inst
    by (simp add: seconds_text_clean(2) [simplified] dot [simplified])
  then show ?thesis using rendered by (simp add: secs_def frac_def)
qed

end
