(* ===== verification/Base64.thy ===== *)
theory Base64
  imports JsonText
begin

text \<open>
  The opaque page cursors of the API: \<open>base64.urlsafe_b64encode\<close> and the tolerant decoder of
  \<open>base64.urlsafe_b64decode\<close> (letters outside the alphabet are skipped, decoding stops at a complete
  padding), the compact text of \<open>json.dumps\<close>, and the round trips the cursors rest on.  A byte is a
  natural number below 256.
\<close>

section \<open>The alphabet\<close>

definition b64_char :: "nat \<Rightarrow> char" where
  "b64_char v =
     char_of (if v < 26 then 65 + v else if v < 52 then 71 + v else if v < 62 then v - 4
              else if v = 62 then 45 else 95)"

text \<open>\<open>urlsafe_b64decode\<close> translates - and _ to + and / first, which are accepted as well.\<close>

definition sextet :: "char \<Rightarrow> nat option" where
  "sextet c =
     (let n = of_char c :: nat in
      if 65 \<le> n \<and> n \<le> 90 then Some (n - 65)
      else if 97 \<le> n \<and> n \<le> 122 then Some (n - 71)
      else if 48 \<le> n \<and> n \<le> 57 then Some (n + 4)
      else if n = 45 \<or> n = 43 then Some 62
      else if n = 95 \<or> n = 47 then Some 63
      else None)"

lemma of_b64_char:
  "v < 64 \<Longrightarrow> (of_char (b64_char v) :: nat) =
     (if v < 26 then 65 + v else if v < 52 then 71 + v else if v < 62 then v - 4 else if v = 62 then 45 else 95)"
  by (simp add: b64_char_def)

lemma sextet_char [simp]: "v < 64 \<Longrightarrow> sextet (b64_char v) = Some v"
  unfolding sextet_def Let_def by (simp add: of_b64_char; linarith?)

lemma not_pad [simp]: "v < 64 \<Longrightarrow> b64_char v \<noteq> CHR ''=''"
proof
  assume v: "v < 64" and "b64_char v = CHR ''=''"
  then have "(of_char (b64_char v) :: nat) = 61" by simp
  with v show False by (simp add: of_b64_char split: if_splits)
qed

lemma ascii_b64_char: "v < 64 \<Longrightarrow> (of_char (b64_char v) :: nat) < 128"
  by (subst of_b64_char) auto

section \<open>Encoding and decoding\<close>

fun b64encode :: "nat list \<Rightarrow> string" where
  "b64encode [] = []"
| "b64encode [a] = [b64_char (a div 4), b64_char (a mod 4 * 16), CHR ''='', CHR ''='']"
| "b64encode [a, b] = [b64_char (a div 4), b64_char (a mod 4 * 16 + b div 16), b64_char (b mod 16 * 4), CHR ''='']"
| "b64encode (a # b # c # bs) =
     b64_char (a div 4) # b64_char (a mod 4 * 16 + b div 16) # b64_char (b mod 16 * 4 + c div 64) # b64_char (c mod 64) #
     b64encode bs"

text \<open>
  The decoder of \<open>binascii\<close>: \<open>quad\<close> counts the letters of the current group, \<open>left\<close> holds the bits not
  yet written, \<open>pads\<close> the padding seen.  None is \<open>binascii.Error\<close>.
\<close>

fun b64decode_from :: "nat \<Rightarrow> nat \<Rightarrow> nat \<Rightarrow> string \<Rightarrow> nat list option" where
  "b64decode_from quad left pads [] = (if quad = 0 then Some [] else None)"
| "b64decode_from quad left pads (c # cs) =
     (if c = CHR ''='' then
        (if quad \<ge> 2 then
           (if quad + (pads + 1) \<ge> 4 then Some [] else b64decode_from quad left (pads + 1) cs)
         else b64decode_from quad left pads cs)
      else
        (case sextet c of
           None \<Rightarrow> b64decode_from quad left pads cs
         | Some v \<Rightarrow>
             if quad = 0 then b64decode_from 1 v 0 cs
             else if quad = 1 then map_option (Cons (left * 4 + v div 16)) (b64decode_from 2 (v mod 16) 0 cs)
             else if quad = 2 then map_option (Cons (left * 16 + v div 4)) (b64decode_from 3 (v mod 4) 0 cs)
             else map_option (Cons (left * 64 + v)) (b64decode_from 0 0 0 cs)))"

text \<open>A text with a letter outside ASCII is a ValueError before any decoding.\<close>

definition urlsafe_b64decode :: "string \<Rightarrow> nat list option" where
  "urlsafe_b64decode s = (if is_ascii s then b64decode_from 0 0 0 s else None)"

text \<open>\<open>raw + "=" * ((4 - len(raw) % 4) % 4)\<close>\<close>

definition with_padding :: "string \<Rightarrow> string" where
  "with_padding raw = raw @ replicate ((4 - length raw mod 4) mod 4) (CHR ''='')"

lemma byte_high: "b < 256 \<Longrightarrow> b div 16 < (16::nat)" "b < 256 \<Longrightarrow> b div 64 < (4::nat)"
  by (simp_all add: div_less_iff_less_mult)

lemma b64_range:
  "y < 16 \<Longrightarrow> (a::nat) mod 4 * 16 + y < 64"
  "z < 4 \<Longrightarrow> (b::nat) mod 16 * 4 + z < 64"
proof -
  have "a mod 4 < 4" "b mod 16 < 16" by simp_all
  then show "y < 16 \<Longrightarrow> a mod 4 * 16 + y < 64" "z < 4 \<Longrightarrow> b mod 16 * 4 + z < 64" by linarith+
qed

lemma b64_sextets:
  "a < 256 \<Longrightarrow> a div 4 < (64::nat)"
  "b < 256 \<Longrightarrow> a mod 4 * 16 + b div 16 < (64::nat)" "a mod 4 * 16 < (64::nat)"
  "c < 256 \<Longrightarrow> b mod 16 * 4 + c div 64 < (64::nat)" "b mod 16 * 4 < (64::nat)"
  using b64_range(1) [of "b div 16" a] b64_range(1) [of 0 a] b64_range(2) [of "c div 64" b]
    b64_range(2) [of 0 b] byte_high
  by (simp_all add: div_less_iff_less_mult)

lemma pack: "y < k \<Longrightarrow> (x * k + y) div k = (x::nat)" "y < k \<Longrightarrow> (x * k + y) mod k = (y::nat)"
  by simp_all

lemma b64_join:
  assumes "b < 256"
  shows "a div 4 * 4 + (a mod 4 * 16 + b div 16) div 16 = (a::nat)"
    and "(a mod 4 * 16 + b div 16) mod 16 = b div 16"
  using pack [OF byte_high(1) [OF assms], of "a mod 4"] by (simp_all only: div_mult_mod_eq)

lemma b64_join':
  assumes "c < 256"
  shows "b div 16 * 16 + (b mod 16 * 4 + c div 64) div 4 = (b::nat)"
    and "(b mod 16 * 4 + c div 64) mod 4 = c div 64"
  using pack [OF byte_high(2) [OF assms], of "b mod 16"] by (simp_all only: div_mult_mod_eq)

lemma b64_last: "a div 4 * 4 + a mod 4 * 16 div 16 = (a::nat)" "b div 16 * 16 + b mod 16 * 4 div 4 = (b::nat)"
  by simp_all

lemma four_letters:
  assumes "p < 64" "q < 64" "r < 64" "t < 64"
  shows "b64decode_from 0 0 0 (b64_char p # b64_char q # b64_char r # b64_char t # cs) =
    map_option (\<lambda>bs. (p * 4 + q div 16) # (q mod 16 * 16 + r div 4) # (r mod 4 * 64 + t) # bs) (b64decode_from 0 0 0 cs)"
  using assms by (simp add: option.map_comp comp_def)

lemma last_letters:
  assumes "p < 64" "q < 64"
  shows "b64decode_from 0 0 0 [b64_char p, b64_char q, CHR ''='', CHR ''=''] = Some [p * 4 + q div 16]"
    and "r < 64 \<Longrightarrow> b64decode_from 0 0 0 [b64_char p, b64_char q, b64_char r, CHR ''=''] =
      Some [p * 4 + q div 16, q mod 16 * 16 + r div 4]"
  using assms by simp_all

lemma b64decode_encode: "list_all (\<lambda>b. b < 256) bs \<Longrightarrow> b64decode_from 0 0 0 (b64encode bs) = Some bs"
proof (induction bs rule: b64encode.induct)
  case (2 a)
  then show ?case
    unfolding b64encode.simps by (subst last_letters(1)) (simp_all add: b64_sextets)
next
  case (3 a b)
  then have "a < 256" "b < 256" by simp_all
  then show ?case
    unfolding b64encode.simps
    by (subst last_letters(2)) (simp_all only: b64_sextets b64_join b64_last)
next
  case (4 a b c bs)
  then have "a < 256" "b < 256" "c < 256" "b64decode_from 0 0 0 (b64encode bs) = Some bs" by simp_all
  then show ?case
    unfolding b64encode.simps
    by (subst four_letters) (simp_all only: b64_sextets b64_join b64_join' div_mult_mod_eq mod_less_divisor
      option.map zero_less_numeral)
qed simp

lemma length_b64encode: "length (b64encode bs) mod 4 = 0"
  by (induction bs rule: b64encode.induct) simp_all

lemma ascii_b64encode: "list_all (\<lambda>b. b < 256) bs \<Longrightarrow> is_ascii (b64encode bs)"
  by (induction bs rule: b64encode.induct) (simp_all add: is_ascii_def b64_sextets ascii_b64_char)

lemma urlsafe_roundtrip:
  "list_all (\<lambda>b. b < 256) bs \<Longrightarrow> urlsafe_b64decode (with_padding (b64encode bs)) = Some bs"
  by (simp add: urlsafe_b64decode_def with_padding_def length_b64encode ascii_b64encode b64decode_encode)

section \<open>The text of json.dumps\<close>

text \<open>\<open>json.dumps(payload, separators=(",", ":"))\<close>; a float is kept as its text.\<close>

fun dumps :: "json \<Rightarrow> string" where
  "dumps (JStr s) = json_text s"
| "dumps (JInt n) = str_of_int n"
| "dumps (JBool b) = (if b then ''true'' else ''false'')"
| "dumps (JFloat t) = t"
| "dumps (JArr xs) = ''['' @ join_with '','' (map dumps xs) @ '']''"
| "dumps (JObj d) = ''{'' @ join_with '','' (map (\<lambda>(k, v). json_text k @ '':'' @ dumps v) d) @ ''}''"
| "dumps JNull = ''null''"

definition bytes_of :: "string \<Rightarrow> nat list" where
  "bytes_of s = map of_char s"

lemma bytes_of_less [simp]: "list_all (\<lambda>b. b < 256) (bytes_of s)"
  by (simp add: bytes_of_def list_all_iff)

end
