(* ===== verification/LogQuery.thy ===== *)
theory LogQuery
  imports IsoTime Base64
begin

text \<open>
  The bounded query of VictoriaLogs (kernel/logs/victorialogs_client.py): quoting of a phrase, the
  request with its line cap, and the parser of the NDJSON body with the line and byte caps.  The HTTP
  exchange and \<open>json.loads\<close> are parameters.
\<close>

record vl_line =
  ln_timestamp :: string
  ln_message :: string
  ln_stream :: string
  ln_fields :: "(string \<times> string) list"

record vl_limits =
  max_lines :: nat
  max_bytes :: nat

record vl_result =
  vr_lines :: "vl_line list"
  vr_truncated :: bool

datatype log_error =
    VlClientError string "int option"
  | InvalidCursor string
  | PyValueError

text \<open>
  \<open>vl_get expr start end limit\<close> is the HTTP exchange: an httpx error, or a status with a body.
  \<open>loads\<close> is \<open>json.loads\<close> of a text, \<open>loads_bytes\<close> of UTF-8 bytes (None for its ValueErrors), \<open>py_str\<close> is
  \<open>str(v)\<close> of a value that is not a string.
\<close>

record log_env =
  vl_get :: "string \<Rightarrow> string \<Rightarrow> string \<Rightarrow> nat \<Rightarrow> string + (int \<times> string)"
  loads :: "string \<Rightarrow> json option"
  loads_bytes :: "nat list \<Rightarrow> json option"
  py_str :: "json \<Rightarrow> string"
  other_iso :: "string \<Rightarrow> int option"

section \<open>Quoting\<close>

text \<open>\<open>text.replace(c, r)\<close> of one letter.\<close>

definition replace_char :: "char \<Rightarrow> string \<Rightarrow> string \<Rightarrow> string" where
  "replace_char c r s = concat (map (\<lambda>x. if x = c then r else [x]) s)"

definition backslash :: char where
  "backslash = char_of (92 :: nat)"

definition dquote :: char where
  "dquote = char_of (34 :: nat)"

definition logsql_quote_phrase :: "string \<Rightarrow> string" where
  "logsql_quote_phrase t =
     [dquote] @ replace_char dquote [backslash, dquote] (replace_char backslash [backslash, backslash] t) @ [dquote]"

definition build_amode_query :: "string \<Rightarrow> string" where
  "build_amode_query run_id = ''SYSLOG_IDENTIFIER:hmrun AND run_id:'' @ logsql_quote_phrase run_id"

text \<open>A reader of quoted phrases: the phrase up to the first quote that no backslash escapes.\<close>

fun phrase_body :: "string \<Rightarrow> (string \<times> string) option" where
  "phrase_body [] = None"
| "phrase_body (c # cs) =
     (if c = dquote then Some ([], cs)
      else if c = backslash then
        (case cs of
           [] \<Rightarrow> None
         | e # es \<Rightarrow> if e = backslash \<or> e = dquote then map_option (apfst (Cons e)) (phrase_body es) else None)
      else map_option (apfst (Cons c)) (phrase_body cs))"

definition read_phrase :: "string \<Rightarrow> (string \<times> string) option" where
  "read_phrase s = (case s of [] \<Rightarrow> None | c # cs \<Rightarrow> if c = dquote then phrase_body cs else None)"

lemma backslash_dquote [simp]: "backslash \<noteq> dquote" "dquote \<noteq> backslash"
  by (simp_all add: backslash_def dquote_def)

lemma replace_char_simps [simp]:
  "replace_char c r [] = []"
  "replace_char c r (x # xs) = (if x = c then r else [x]) @ replace_char c r xs"
  "replace_char c r (xs @ ys) = replace_char c r xs @ replace_char c r ys"
  by (simp_all add: replace_char_def)

lemma phrase_body_quoted:
  "phrase_body (replace_char dquote [backslash, dquote] (replace_char backslash [backslash, backslash] t) @ dquote # rest) =
     Some (t, rest)"
  by (induction t) simp_all

text \<open>
  Quoting is safe: whatever the text holds, a reader of LogsQL phrases reads back exactly this text
  and stops exactly at its closing quote, so that no value can leave its phrase.
\<close>

theorem quoted_phrase_roundtrip: "read_phrase (logsql_quote_phrase t @ rest) = Some (t, rest)"
  by (simp add: read_phrase_def logsql_quote_phrase_def phrase_body_quoted)

section \<open>The NDJSON body\<close>

text \<open>\<open>len(raw.encode("utf-8"))\<close>\<close>

definition utf8_length :: "string \<Rightarrow> nat" where
  "utf8_length s = sum_list (map (\<lambda>c. if (of_char c :: nat) < 128 then 1 else 2) s)"

definition text_of :: "log_env \<Rightarrow> json \<Rightarrow> string" where
  "text_of env v = (case v of JStr s \<Rightarrow> s | _ \<Rightarrow> py_str env v)"

definition get_text :: "log_env \<Rightarrow> json_object \<Rightarrow> string \<Rightarrow> string" where
  "get_text env d k = (case map_of d k of None \<Rightarrow> [] | Some v \<Rightarrow> text_of env v)"

definition parse_one :: "log_env \<Rightarrow> string \<Rightarrow> vl_line option" where
  "parse_one env raw =
     (case loads env raw of
        Some (JObj d) \<Rightarrow>
          Some \<lparr>ln_timestamp = get_text env d ''_time'', ln_message = get_text env d ''_msg'',
                ln_stream = get_text env d ''_stream_id'',
                ln_fields = map (\<lambda>(k, v). (k, text_of env v))
                  (filter (\<lambda>(k, v). k \<notin> {''_stream_id'', ''_msg'', ''_time''}) d)\<rparr>
      | _ \<Rightarrow> None)"

text \<open>The loop of \<open>_parse_ndjson\<close>: the lines so far, reversed, and the running byte count.\<close>

fun parse_lines :: "log_env \<Rightarrow> vl_limits \<Rightarrow> vl_line list \<Rightarrow> nat \<Rightarrow> string list \<Rightarrow> vl_result" where
  "parse_lines env lim acc bytes [] = \<lparr>vr_lines = rev acc, vr_truncated = False\<rparr>"
| "parse_lines env lim acc bytes (raw # raws) =
     (if strip raw = [] then parse_lines env lim acc bytes raws
      else
        (let bytes' = bytes + utf8_length raw in
         if max_lines lim \<le> length acc \<or> max_bytes lim < bytes' then \<lparr>vr_lines = rev acc, vr_truncated = True\<rparr>
         else
           (case parse_one env raw of
              None \<Rightarrow> parse_lines env lim acc bytes' raws
            | Some ln \<Rightarrow> parse_lines env lim (ln # acc) bytes' raws)))"

definition parse_ndjson :: "log_env \<Rightarrow> vl_limits \<Rightarrow> string \<Rightarrow> vl_result" where
  "parse_ndjson env lim body = parse_lines env lim [] 0 (splitlines body)"

definition vl_query :: "log_env \<Rightarrow> vl_limits \<Rightarrow> string \<Rightarrow> string \<Rightarrow> string \<Rightarrow> log_error + vl_result" where
  "vl_query env lim expr start end_iso =
     (case vl_get env expr start end_iso (max_lines lim + 1) of
        Inl exc \<Rightarrow> Inl (VlClientError (''victorialogs query failed: '' @ exc) None)
      | Inr (status, body) \<Rightarrow>
          if status \<noteq> 200 then Inl (VlClientError (''victorialogs returned status '' @ str_of_int status) (Some status))
          else Inr (parse_ndjson env lim body))"

section \<open>What the parser returns\<close>

lemma parse_lines_length:
  "length acc \<le> max_lines lim \<Longrightarrow> length (vr_lines (parse_lines env lim acc bytes raws)) \<le> max_lines lim"
  by (induction env lim acc bytes raws rule: parse_lines.induct) (auto simp: Let_def split: option.splits)

lemma parse_lines_clean:
  assumes "\<And>raw ln. (raw, ln) \<in> set rls \<Longrightarrow> strip raw \<noteq> [] \<and> parse_one env raw = Some ln"
    and "bytes + sum_list (map (utf8_length \<circ> fst) rls) \<le> max_bytes lim" and "length acc \<le> max_lines lim"
  shows "parse_lines env lim acc bytes (map fst rls) =
    \<lparr>vr_lines = rev acc @ map snd (take (max_lines lim - length acc) rls),
     vr_truncated = (max_lines lim < length acc + length rls)\<rparr>"
  using assms
proof (induction rls arbitrary: acc bytes)
  case (Cons rl rls)
  obtain raw ln where rl: "rl = (raw, ln)" by (cases rl)
  have raw: "strip raw \<noteq> []" "parse_one env raw = Some ln" using Cons.prems(1) rl by auto
  show ?case
  proof (cases "max_lines lim \<le> length acc")
    case True
    with raw Cons.prems(3) show ?thesis by (simp add: rl Let_def)
  next
    case False
    have "parse_lines env lim (ln # acc) (bytes + utf8_length raw) (map fst rls) =
        \<lparr>vr_lines = rev (ln # acc) @ map snd (take (max_lines lim - length (ln # acc)) rls),
         vr_truncated = (max_lines lim < length (ln # acc) + length rls)\<rparr>"
      by (rule Cons.IH) (use Cons.prems False in \<open>auto simp: rl\<close>)
    moreover have "max_lines lim - length acc = Suc (max_lines lim - Suc (length acc))" using False by simp
    ultimately show ?thesis using raw False Cons.prems(2) by (simp add: rl Let_def)
  qed
qed simp

text \<open>
  A query is bounded: whatever VictoriaLogs answers, a result holds at most \<open>max_lines\<close> lines, and it
  is an error exactly when the request failed or the status was not 200.
\<close>

theorem query_bounded:
  "case vl_query env lim expr start end_iso of
     Inr res \<Rightarrow> length (vr_lines res) \<le> max_lines lim \<and> (\<exists>body. vl_get env expr start end_iso (max_lines lim + 1) = Inr (200, body))
   | Inl e \<Rightarrow> \<nexists>body. vl_get env expr start end_iso (max_lines lim + 1) = Inr (200, body)"
  by (simp add: vl_query_def parse_ndjson_def parse_lines_length split: sum.splits prod.splits)

text \<open>
  A message with the control character U+0085 (which JSON does not escape) is cut in two by
  \<open>splitlines\<close>; neither half parses, and the line is lost.
\<close>

lemma next_line_character_loses_line:
  assumes "loads env pre = None" and "loads env post = None"
    and "list_all (\<lambda>c. \<not> is_linebreak c) pre" and "list_all (\<lambda>c. \<not> is_linebreak c) post" and "post \<noteq> []"
  shows "vr_lines (parse_ndjson env lim (pre @ [char_of (133 :: nat)] @ post)) = []"
proof -
  have run: "split_lines_from acc xs = [rev acc @ xs]" if "list_all (\<lambda>c. \<not> is_linebreak c) xs" "xs \<noteq> [] \<or> acc \<noteq> []" for acc xs
    using that by (induction xs arbitrary: acc) auto
  have head: "split_lines_from acc (xs @ char_of (133 :: nat) # ys) = (rev acc @ xs) # split_lines_from [] ys"
    if "list_all (\<lambda>c. \<not> is_linebreak c) xs" for acc xs ys
    using that by (induction xs arbitrary: acc) (auto simp: is_linebreak_def)
  have "splitlines (pre @ [char_of (133 :: nat)] @ post) = [pre, post]"
    unfolding splitlines_def using head [OF assms(3), of "[]" post] run [OF assms(4), of "[]"] assms(5) by simp
  then show ?thesis by (simp add: parse_ndjson_def parse_one_def Let_def assms(1,2))
qed

end
