(* ===== verification/Pagination.thy ===== *)
theory Pagination
  imports LogQuery "HOL-Library.Multiset"
begin

text \<open>
  Backward paging through the logs (kernel/logs/pagination.py): the opaque cursor (the time of the
  oldest line returned, and how many lines of the window carry it), one page, and the proof that
  following the cursors returns every line of the window exactly once, oldest page last.
\<close>

section \<open>The cursor\<close>

record log_cursor =
  c_t :: int
  c_n :: nat

definition encode_cursor :: "log_cursor \<Rightarrow> string" where
  "encode_cursor c = b64encode (bytes_of (dumps (JObj [(''t'', JInt (c_t c)), (''n'', JInt (int (c_n c)))])))"

text \<open>Every failure inside the try is an InvalidCursorError; a bool is no integer here.\<close>

definition decode_cursor :: "log_env \<Rightarrow> string \<Rightarrow> log_error + log_cursor" where
  "decode_cursor env raw =
     (case urlsafe_b64decode (with_padding raw) of
        None \<Rightarrow> Inl (InvalidCursor ''invalid cursor format'')
      | Some bytes \<Rightarrow>
          (case loads_bytes env bytes of
             None \<Rightarrow> Inl (InvalidCursor ''invalid cursor format'')
           | Some (JObj d) \<Rightarrow>
               (case map_of d ''t'' of
                  Some (JInt t) \<Rightarrow>
                    (case map_of d ''n'' of
                       Some (JInt n) \<Rightarrow>
                         if n < 1 then Inl (InvalidCursor ''cursor 'n' must be an integer >= 1'')
                         else Inr \<lparr>c_t = t, c_n = nat n\<rparr>
                     | _ \<Rightarrow> Inl (InvalidCursor ''cursor 'n' must be an integer >= 1''))
                | _ \<Rightarrow> Inl (InvalidCursor ''cursor 't' must be an integer''))
           | Some _ \<Rightarrow> Inl (InvalidCursor ''cursor payload is not a JSON object'')))"

text \<open>The one fact about \<open>json.loads\<close> the cursors need: it inverts \<open>json.dumps\<close> on the payload.\<close>

definition loads_inverts_dumps :: "log_env \<Rightarrow> bool" where
  "loads_inverts_dumps env \<longleftrightarrow>
     (\<forall>t n. loads_bytes env (bytes_of (dumps (JObj [(''t'', JInt t), (''n'', JInt n)]))) =
        Some (JObj [(''t'', JInt t), (''n'', JInt n)]))"

lemma decode_encode_cursor:
  "loads_inverts_dumps env \<Longrightarrow> 1 \<le> c_n c \<Longrightarrow> decode_cursor env (encode_cursor c) = Inr c"
  by (simp add: decode_cursor_def encode_cursor_def urlsafe_roundtrip loads_inverts_dumps_def)

section \<open>One page\<close>

record log_page =
  pg_lines :: "vl_line list"
  pg_next :: "string option"
  pg_has_more :: bool
  pg_truncated :: bool

definition boundary_group_max_lines :: nat where
  "boundary_group_max_lines = 10000"

text \<open>The lines with their nanosecond times, in the order of the list; None when a time raises.\<close>

fun stamped :: "log_env \<Rightarrow> vl_line list \<Rightarrow> (int \<times> vl_line) list option" where
  "stamped env [] = Some []"
| "stamped env (ln # lns) =
     (case iso_to_ns (other_iso env) (ln_timestamp ln) of
        None \<Rightarrow> None
      | Some ns \<Rightarrow> map_option (Cons (ns, ln)) (stamped env lns))"

text \<open>[GROUP-COMPLETE]: fetch the whole group of lines at the boundary time.\<close>

definition complete_group ::
  "log_env \<Rightarrow> vl_limits \<Rightarrow> string \<Rightarrow> nat \<Rightarrow> int \<Rightarrow> (int \<times> vl_line) list \<Rightarrow> bool \<Rightarrow>
     log_error + (int \<times> vl_line) list \<times> bool" where
  "complete_group env base expr fetch_limit oldest kept truncated =
     (case ns_to_iso oldest of
        None \<Rightarrow> Inl PyValueError
      | Some group_iso \<Rightarrow>
          (case vl_query env (base\<lparr>max_lines := max fetch_limit boundary_group_max_lines\<rparr>) expr group_iso group_iso of
             Inl e \<Rightarrow> Inl e
           | Inr res \<Rightarrow>
               (case stamped env (vr_lines res) of
                  None \<Rightarrow> Inl PyValueError
                | Some ls \<Rightarrow>
                    Inr (filter (\<lambda>x. fst x > oldest) kept @ filter (\<lambda>x. fst x = oldest) ls,
                         truncated \<or> vr_truncated res))))"

definition empty_page :: "bool \<Rightarrow> log_page" where
  "empty_page truncated = \<lparr>pg_lines = [], pg_next = None, pg_has_more = False, pg_truncated = truncated\<rparr>"

definition finish_page ::
  "log_cursor option \<Rightarrow> bool \<Rightarrow> (int \<times> vl_line) list \<Rightarrow> int \<Rightarrow> (int \<times> vl_line) list \<Rightarrow> bool \<Rightarrow> log_page" where
  "finish_page dec more_in_window remaining oldest kept boundary_truncated =
     (let n_at_oldest = length (filter (\<lambda>x. fst x = oldest) kept);
          new_n = (case dec of
                     Some c \<Rightarrow> if oldest = c_t c then c_n c + n_at_oldest else n_at_oldest
                   | None \<Rightarrow> n_at_oldest);
          has_more = (list_ex (\<lambda>x. fst x < oldest) remaining \<or> more_in_window)
      in \<lparr>pg_lines = rev (map snd kept),
          pg_next = (if has_more then Some (encode_cursor \<lparr>c_t = oldest, c_n = new_n\<rparr>) else None),
          pg_has_more = has_more, pg_truncated = boundary_truncated\<rparr>)"

definition page_from ::
  "log_env \<Rightarrow> vl_limits \<Rightarrow> string \<Rightarrow> string \<Rightarrow> string \<Rightarrow> nat \<Rightarrow> log_cursor option \<Rightarrow> log_error + log_page" where
  "page_from env base expr window_start effective_end page_size dec =
     (let skip_n = (case dec of None \<Rightarrow> 0 | Some c \<Rightarrow> c_n c);
          fetch_limit = page_size + skip_n
      in case vl_query env (base\<lparr>max_lines := fetch_limit\<rparr>) expr window_start effective_end of
           Inl e \<Rightarrow> Inl e
         | Inr res \<Rightarrow>
             (case stamped env (vr_lines res) of
                None \<Rightarrow> Inl PyValueError
              | Some ls \<Rightarrow>
                  (let fetched = sort_key (\<lambda>x. - fst x) ls;
                       remaining = drop skip_n fetched;
                       kept = take page_size remaining
                   in if kept = [] then Inr (empty_page (vr_truncated res))
                      else
                        (let oldest = fst (last kept) in
                         case (if fetch_limit \<le> length fetched \<and> oldest = fst (last fetched)
                               then complete_group env base expr fetch_limit oldest kept (vr_truncated res)
                               else Inr (kept, vr_truncated res)) of
                           Inl e \<Rightarrow> Inl e
                         | Inr (whole, boundary_truncated) \<Rightarrow>
                             Inr (finish_page dec (vr_truncated res) remaining oldest whole boundary_truncated)))))"

definition paginate_older ::
  "log_env \<Rightarrow> vl_limits \<Rightarrow> string \<Rightarrow> string \<Rightarrow> string \<Rightarrow> nat \<Rightarrow> string option \<Rightarrow> log_error + log_page" where
  "paginate_older env base expr window_start window_end page_size cursor =
     (case cursor of
        None \<Rightarrow> page_from env base expr window_start window_end page_size None
      | Some raw \<Rightarrow>
          (case decode_cursor env raw of
             Inl e \<Rightarrow> Inl e
           | Inr c \<Rightarrow>
               (case iso_to_ns (other_iso env) window_start of
                  None \<Rightarrow> Inl PyValueError
                | Some window_start_ns \<Rightarrow>
                    if c_t c \<le> window_start_ns then Inr (empty_page False)
                    else
                      (case ns_to_iso (c_t c) of
                         None \<Rightarrow> Inl PyValueError
                       | Some effective_end \<Rightarrow>
                           page_from env base expr window_start effective_end page_size (Some c)))))"

text \<open>"Load older" until there is no further cursor, at most \<open>fuel\<close> pages.\<close>

fun load_pages ::
  "log_env \<Rightarrow> vl_limits \<Rightarrow> string \<Rightarrow> string \<Rightarrow> string \<Rightarrow> nat \<Rightarrow> nat \<Rightarrow> string option \<Rightarrow>
     (log_error + log_page list) option" where
  "load_pages env base expr ws we page_size 0 cursor = None"
| "load_pages env base expr ws we page_size (Suc fuel) cursor =
     (case paginate_older env base expr ws we page_size cursor of
        Inl e \<Rightarrow> Some (Inl e)
      | Inr p \<Rightarrow>
          (case pg_next p of
             None \<Rightarrow> Some (Inr [p])
           | Some c \<Rightarrow> map_option (map_sum id (Cons p)) (load_pages env base expr ws we page_size fuel (Some c))))"

section \<open>What VictoriaLogs promises\<close>

text \<open>
  A stored line: the NDJSON text it is sent as, its time, and what the client parses it to.  A query
  over [start, end] with a limit answers with the first lines of some newest-first order of the lines in
  the window: lines of one nanosecond come in any order, and a cut inside such a group is arbitrary.
  \<open>from_ns\<close> and \<open>to_ns\<close> are how VictoriaLogs reads the bounds; it reads a nanosecond text exactly.
\<close>

type_synonym stored = "string \<times> int \<times> vl_line"

abbreviation at_ns :: "stored \<Rightarrow> int" where
  "at_ns r \<equiv> fst (snd r)"

definition stored_ok :: "log_env \<Rightarrow> stored \<Rightarrow> bool" where
  "stored_ok env r \<longleftrightarrow>
     strip (fst r) \<noteq> [] \<and> parse_one env (fst r) = Some (snd (snd r)) \<and>
     iso_to_ns (other_iso env) (ln_timestamp (snd (snd r))) = Some (at_ns r) \<and>
     0 \<le> at_ns r \<and> at_ns r < max_epoch_s * 1000000000"

definition newest_first :: "stored list \<Rightarrow> bool" where
  "newest_first rs \<longleftrightarrow> sorted (map (\<lambda>r. - at_ns r) rs)"

definition in_window :: "int \<Rightarrow> int \<Rightarrow> stored list \<Rightarrow> stored list" where
  "in_window lo hi rs = filter (\<lambda>r. lo \<le> at_ns r \<and> at_ns r \<le> hi) rs"

definition serves ::
  "log_env \<Rightarrow> string \<Rightarrow> (string \<Rightarrow> int) \<Rightarrow> (string \<Rightarrow> int) \<Rightarrow> stored list \<Rightarrow> bool" where
  "serves env expr from_ns to_ns stored \<longleftrightarrow>
     (\<forall>start end_iso limit. \<exists>body order.
        vl_get env expr start end_iso limit = Inr (200, body) \<and>
        splitlines body = map fst (take limit order) \<and>
        mset order = mset (in_window (from_ns start) (to_ns end_iso) stored) \<and> newest_first order) \<and>
     (\<forall>ns s. 0 \<le> ns \<and> ns < max_epoch_s * 1000000000 \<and> ns_to_iso ns = Some s \<longrightarrow> from_ns s = ns \<and> to_ns s = ns)"

lemma served_bounds:
  assumes "serves env expr from_ns to_ns stored" and "list_all (stored_ok env) stored"
    and "x \<in> set stored" and "at_ns x = b"
  obtains s where "ns_to_iso b = Some s" and "from_ns s = b" and "to_ns s = b"
proof -
  have range: "0 \<le> b" "b < max_epoch_s * 1000000000" using assms(2-4) by (auto simp: list_all_iff stored_ok_def)
  with iso_ns_roundtrip obtain s where "ns_to_iso b = Some s" by blast
  with range assms(1) that show thesis by (auto simp: serves_def)
qed

section \<open>Newest-first lists\<close>

lemma newest_first_Cons:
  "newest_first (r # rs) \<longleftrightarrow> (\<forall>x \<in> set rs. at_ns x \<le> at_ns r) \<and> newest_first rs"
  by (auto simp: newest_first_def)

lemma newest_first_append:
  "newest_first (xs @ ys) \<longleftrightarrow>
     newest_first xs \<and> newest_first ys \<and> (\<forall>x \<in> set xs. \<forall>y \<in> set ys. at_ns y \<le> at_ns x)"
  by (auto simp: newest_first_def sorted_append)

lemma newest_first_take: "newest_first rs \<Longrightarrow> newest_first (take n rs)"
  and newest_first_drop: "newest_first rs \<Longrightarrow> newest_first (drop n rs)"
  by (metis append_take_drop_id newest_first_append)+

lemma newest_lines_filter: "newest_first rs \<Longrightarrow> newest_first (filter P rs)"
  by (induction rs) (auto simp: newest_first_Cons newest_first_def)

text \<open>The lines not older than a bound are a prefix.\<close>

lemma newest_first_split:
  assumes "newest_first rs"
  shows "rs = filter (\<lambda>r. b \<le> at_ns r) rs @ filter (\<lambda>r. at_ns r < b) rs"
  using assms
proof (induction rs)
  case (Cons r rs)
  then have IH: "rs = filter (\<lambda>r. b \<le> at_ns r) rs @ filter (\<lambda>r. at_ns r < b) rs" by (simp add: newest_first_Cons)
  show ?case
  proof (cases "b \<le> at_ns r")
    case True
    with IH show ?thesis by simp
  next
    case False
    with Cons.prems have "filter (\<lambda>r. b \<le> at_ns r) rs = []" by (fastforce simp: newest_first_Cons filter_empty_conv)
    with IH False show ?thesis by simp
  qed
qed simp

lemma newest_first_count:
  assumes "newest_first rs" and "k = length (filter (\<lambda>r. b \<le> at_ns r) rs)"
  shows "take k rs = filter (\<lambda>r. b \<le> at_ns r) rs" and "drop k rs = filter (\<lambda>r. at_ns r < b) rs"
  using newest_first_split [OF assms(1), of b] assms(2) by (metis append_eq_conv_conj)+

text \<open>A cut whose last line has time b holds every newer line.\<close>

lemma newer_than_cut:
  assumes "newest_first rs" and "take n rs \<noteq> []" and "b = at_ns (last (take n rs))"
  shows "filter (\<lambda>r. b < at_ns r) (take n rs) = filter (\<lambda>r. b < at_ns r) rs"
    and "\<And>r. r \<in> set (take n rs) \<Longrightarrow> b \<le> at_ns r"
proof -
  have all: "newest_first (take n rs @ drop n rs)" using assms(1) by simp
  have "last (take n rs) \<in> set (take n rs)" using assms(2) by (rule last_in_set)
  with all have "\<forall>y \<in> set (drop n rs). at_ns y \<le> b" unfolding newest_first_append assms(3) by blast
  then have "filter (\<lambda>r. b < at_ns r) (drop n rs) = []" by (auto simp: filter_empty_conv)
  then show "filter (\<lambda>r. b < at_ns r) (take n rs) = filter (\<lambda>r. b < at_ns r) rs"
    by (metis append_Nil2 append_take_drop_id filter_append)
  show "b \<le> at_ns r" if "r \<in> set (take n rs)" for r
  proof -
    have "take n rs = butlast (take n rs) @ [last (take n rs)]" using assms(2) by simp
    with newest_first_take [OF assms(1), of n] that show ?thesis
      unfolding assms(3) by (metis newest_first_append Un_iff list.set_intros(1) order_refl set_ConsD set_append empty_iff list.set(1))
  qed
qed

section \<open>The query against the store\<close>

lemma stamped_stored:
  "list_all (stored_ok env) rs \<Longrightarrow> stamped env (map (snd \<circ> snd) rs) = Some (map snd rs)"
  by (induction rs) (auto simp: stored_ok_def)

lemma sum_mset_utf8: "sum_list (map (utf8_length \<circ> fst) rs) = sum_mset (image_mset (utf8_length \<circ> fst) (mset rs))"
  by (metis mset_map sum_mset_sum_list)

lemma take_bytes: "sum_list (map f (take n rs)) \<le> (sum_list (map f rs) :: nat)"
  by (metis append_take_drop_id le_add1 map_append sum_list_append)

lemma window_bytes:
  assumes "mset order = mset (filter P stored)"
  shows "sum_list (map (utf8_length \<circ> fst) order) \<le> sum_list (map (utf8_length \<circ> fst) stored)"
proof -
  have "sum_list (map (utf8_length \<circ> fst) order) = sum_list (map (utf8_length \<circ> fst) (filter P stored))"
    unfolding sum_mset_utf8 assms ..
  also have "\<dots> \<le> sum_list (map (utf8_length \<circ> fst) stored)" by (induction stored) auto
  finally show ?thesis .
qed

lemma query_window:
  assumes "serves env expr from_ns to_ns stored" and "list_all (stored_ok env) stored"
    and "sum_list (map (utf8_length \<circ> fst) stored) \<le> max_bytes base"
  obtains order where "mset order = mset (in_window (from_ns start) (to_ns end_iso) stored)" and "newest_first order"
    and "list_all (stored_ok env) order"
    and "vl_query env (base\<lparr>max_lines := m\<rparr>) expr start end_iso =
      Inr \<lparr>vr_lines = map (snd \<circ> snd) (take m order), vr_truncated = (m < length order)\<rparr>"
proof -
  obtain body order where body: "vl_get env expr start end_iso (m + 1) = Inr (200, body)"
    "splitlines body = map fst (take (m + 1) order)"
    and order: "mset order = mset (in_window (from_ns start) (to_ns end_iso) stored)" "newest_first order"
    using assms(1) unfolding serves_def by metis
  have "set order \<subseteq> set stored" using mset_eq_setD [OF order(1)] by (auto simp: in_window_def)
  with assms(2) have ok: "list_all (stored_ok env) order" by (auto simp: list_all_iff)
  let ?rls = "map (\<lambda>r. (fst r, snd (snd r))) (take (m + 1) order)"
  have "sum_list (map (utf8_length \<circ> fst) ?rls) = sum_list (map (utf8_length \<circ> fst) (take (m + 1) order))"
    by (simp add: comp_def)
  also have "\<dots> \<le> sum_list (map (utf8_length \<circ> fst) order)" by (rule take_bytes)
  also have "\<dots> \<le> sum_list (map (utf8_length \<circ> fst) stored)"
    using order(1) unfolding in_window_def by (rule window_bytes)
  finally have bytes: "sum_list (map (utf8_length \<circ> fst) ?rls) \<le> max_bytes base" using assms(3) by simp
  have "strip raw \<noteq> [] \<and> parse_one env raw = Some ln" if "(raw, ln) \<in> set ?rls" for raw ln
    using that ok by (auto simp: list_all_iff stored_ok_def dest: in_set_takeD)
  from parse_lines_clean [OF this, of ?rls 0 "base\<lparr>max_lines := m\<rparr>" "[]"] bytes
  have "parse_lines env (base\<lparr>max_lines := m\<rparr>) [] 0 (map fst ?rls) =
      \<lparr>vr_lines = map snd (take m ?rls), vr_truncated = (m < length ?rls)\<rparr>" by simp
  moreover have "map fst ?rls = splitlines body" using body(2) by simp
  ultimately have "vl_query env (base\<lparr>max_lines := m\<rparr>) expr start end_iso =
      Inr \<lparr>vr_lines = map (snd \<circ> snd) (take m order), vr_truncated = (m < length order)\<rparr>"
    using body(1) by (simp add: vl_query_def parse_ndjson_def take_map min_def comp_def)
  with that order ok show thesis by blast
qed

section \<open>What one page returns\<close>

definition groups_small :: "stored list \<Rightarrow> bool" where
  "groups_small stored \<longleftrightarrow> (\<forall>ns. length (filter (\<lambda>r. at_ns r = ns) stored) \<le> boundary_group_max_lines)"

text \<open>
  A page over the lines not returned yet: none when there are none, otherwise every one of them down to
  some time b, newest first before the reversal, with a cursor that counts the whole group at b unless
  nothing older is left.
\<close>

definition covers :: "stored list \<Rightarrow> log_page \<Rightarrow> bool" where
  "covers rest p \<longleftrightarrow>
     (rest = [] \<and> pg_lines p = [] \<and> pg_next p = None) \<or>
     (\<exists>b kept. b \<in> at_ns ` set rest \<and> newest_first kept \<and> mset kept = mset (filter (\<lambda>r. b \<le> at_ns r) rest) \<and>
        pg_lines p = rev (map (snd \<circ> snd) kept) \<and>
        (pg_next p = None \<and> filter (\<lambda>r. at_ns r < b) rest = [] \<or>
         pg_next p = Some (encode_cursor \<lparr>c_t = b, c_n = length (filter (\<lambda>r. at_ns r = b) rest)\<rparr>)))"

lemma sort_newest_first: "newest_first rs \<Longrightarrow> sort_key (\<lambda>x. - fst x) (map snd rs) = map snd rs"
  by (rule sort_key_id_if_sorted) (simp add: newest_first_def comp_def)

lemma length_filter_mset: "mset xs = mset ys \<Longrightarrow> length (filter P xs) = length (filter P ys)"
  by (metis mset_filter size_mset)

lemma newest_group:
  assumes "newest_first (xs @ ys)" and "\<And>y. y \<in> set ys \<Longrightarrow> at_ns y = b" and "\<And>x. x \<in> set xs \<Longrightarrow> b < at_ns x"
  shows "filter (\<lambda>r. b < at_ns r) (xs @ ys) = xs" "filter (\<lambda>r. at_ns r = b) (xs @ ys) = ys"
proof -
  have "filter (\<lambda>r. b < at_ns r) xs = xs" "filter (\<lambda>r. at_ns r = b) ys = ys" using assms(2,3) by (auto simp: filter_id_conv)
  moreover have "filter (\<lambda>r. b < at_ns r) ys = []" "filter (\<lambda>r. at_ns r = b) xs = []"
    using assms(2,3) by (force simp: filter_empty_conv)+
  ultimately show "filter (\<lambda>r. b < at_ns r) (xs @ ys) = xs" "filter (\<lambda>r. at_ns r = b) (xs @ ys) = ys" by simp_all
qed

lemma filter_map_snd: "filter (\<lambda>x. P (fst x)) (map snd rs) = map snd (filter (\<lambda>r. P (at_ns r)) rs)"
  by (simp add: filter_map comp_def)

text \<open>The boundary group is fetched whole.\<close>

lemma complete_group_result:
  assumes "serves env expr from_ns to_ns stored" and "list_all (stored_ok env) stored"
    and "sum_list (map (utf8_length \<circ> fst) stored) \<le> max_bytes base" and "groups_small stored"
    and "x \<in> set stored" and "at_ns x = b"
  shows "\<exists>grp. complete_group env base expr fl b (map snd kept) tr =
      Inr (map snd (filter (\<lambda>r. b < at_ns r) kept) @ map snd grp, tr) \<and>
    mset grp = mset (filter (\<lambda>r. at_ns r = b) stored)"
proof -
  obtain s where s: "ns_to_iso b = Some s" and bounds: "from_ns s = b" "to_ns s = b"
    using served_bounds [OF assms(1,2,5,6)] by metis
  let ?m = "max fl boundary_group_max_lines"
  obtain grp where grp: "mset grp = mset (in_window (from_ns s) (to_ns s) stored)" "list_all (stored_ok env) grp"
    and q: "vl_query env (base\<lparr>max_lines := ?m\<rparr>) expr s s =
      Inr \<lparr>vr_lines = map (snd \<circ> snd) (take ?m grp), vr_truncated = (?m < length grp)\<rparr>"
    using query_window [OF assms(1-3)] by metis
  have win: "in_window (from_ns s) (to_ns s) stored = filter (\<lambda>r. at_ns r = b) stored"
    by (auto simp: in_window_def bounds intro: filter_cong)
  then have small: "length grp \<le> ?m" using assms(4) grp(1)
    by (metis groups_small_def mset_eq_length max.coboundedI2)
  have at: "\<forall>r \<in> set grp. at_ns r = b" using mset_eq_setD [OF grp(1)] win by auto
  then have "filter (\<lambda>r. at_ns r = b) grp = grp" by (simp add: filter_id_conv)
  then have "filter (\<lambda>x. fst x = b) (map snd grp) = map snd grp" using filter_map_snd [of "\<lambda>t. t = b" grp] by simp
  moreover have "filter (\<lambda>x. b < fst x) (map snd kept) = map snd (filter (\<lambda>r. b < at_ns r) kept)"
    by (rule filter_map_snd)
  ultimately have "complete_group env base expr fl b (map snd kept) tr =
      Inr (map snd (filter (\<lambda>r. b < at_ns r) kept) @ map snd grp, tr)"
    unfolding complete_group_def using s q small stamped_stored [OF grp(2)] by (simp add: max_def split: if_splits)
  with grp(1) win show ?thesis by auto
qed

lemma take_after_drop: "take n (drop k xs) \<noteq> [] \<Longrightarrow> last (take (n + k) xs) = last (take n (drop k xs))"
  by (simp add: take_add [of k n, unfolded add.commute [of k n]])

lemma page_from_run:
  assumes q: "vl_query env (base\<lparr>max_lines := page_size + k\<rparr>) expr ws e =
      Inr \<lparr>vr_lines = map (snd \<circ> snd) L, vr_truncated = tr\<rparr>"
    and k: "(case dec of None \<Rightarrow> 0 | Some c \<Rightarrow> c_n c) = k"
    and L: "newest_first L" "list_all (stored_ok env) L" and R: "take page_size (drop k L) = R" "R \<noteq> []"
  shows "page_from env base expr ws e page_size dec =
    (case (if page_size + k \<le> length L \<and> at_ns (last R) = at_ns (last L)
           then complete_group env base expr (page_size + k) (at_ns (last R)) (map snd R) tr
           else Inr (map snd R, tr)) of
       Inl err \<Rightarrow> Inl err
     | Inr (whole, bt) \<Rightarrow> Inr (finish_page dec tr (map snd (drop k L)) (at_ns (last R)) whole bt))"
proof -
  have "L \<noteq> []" using R by auto
  have R': "take page_size (map snd (drop k L)) = map snd R" using R(1) by (simp add: take_map)
  have lasts: "fst (last (map snd R)) = at_ns (last R)" "fst (last (map snd L)) = at_ns (last L)"
    using R(2) \<open>L \<noteq> []\<close> by (simp_all add: last_map)
  have "map snd R \<noteq> []" using R(2) by simp
  then show ?thesis
    unfolding page_from_def Let_def k q sum.case vl_result.select_convs stamped_stored [OF L(2)] option.case
      sort_newest_first [OF L(1)] drop_map R' lasts length_map by (simp only: if_False)
qed

lemma page_from_empty:
  assumes "vl_query env (base\<lparr>max_lines := page_size + k\<rparr>) expr ws e =
      Inr \<lparr>vr_lines = map (snd \<circ> snd) L, vr_truncated = tr\<rparr>"
    and "(case dec of None \<Rightarrow> 0 | Some c \<Rightarrow> c_n c) = k"
    and L: "newest_first L" "list_all (stored_ok env) L" and "drop k L = []"
  shows "page_from env base expr ws e page_size dec = Inr (empty_page tr)"
  unfolding page_from_def Let_def assms(1,2) sum.case vl_result.select_convs stamped_stored [OF L(2)] option.case
    sort_newest_first [OF L(1)] using assms(5) by (simp add: drop_map)

text \<open>The lines of the query that were not returned yet.\<close>

lemma not_returned:
  assumes order: "mset order = mset W" "newest_first order" and hi: "\<And>r. r \<in> set W \<Longrightarrow> at_ns r \<le> u"
    and dec: "\<And>c. dec = Some c \<Longrightarrow> c_t c = u \<and> c_n c = length (filter (\<lambda>r. at_ns r = u) W)"
    and rest: "rest = (case dec of None \<Rightarrow> W | Some c \<Rightarrow> filter (\<lambda>r. at_ns r < c_t c) W)"
    and k: "k = (case dec of None \<Rightarrow> 0 | Some c \<Rightarrow> c_n c)"
  shows "mset (drop k order) = mset rest" "newest_first (drop k order)"
    "\<And>c r. dec = Some c \<Longrightarrow> r \<in> set (drop k order) \<Longrightarrow> at_ns r < c_t c"
proof -
  show "newest_first (drop k order)" by (rule newest_first_drop [OF order(2)])
  show rest_eq: "mset (drop k order) = mset rest"
  proof (cases dec)
    case None
    then show ?thesis using order(1) rest k by simp
  next
    case (Some c)
    have "\<forall>r \<in> set order. at_ns r \<le> u" using mset_eq_setD [OF order(1)] hi by simp
    then have "filter (\<lambda>r. u \<le> at_ns r) order = filter (\<lambda>r. at_ns r = u) order" by (force intro: filter_cong)
    then have "k = length (filter (\<lambda>r. u \<le> at_ns r) order)"
      using dec [OF Some] length_filter_mset [OF order(1)] Some k by simp
    from newest_first_count(2) [OF order(2) this] show ?thesis using rest Some dec [OF Some] order(1) by simp
  qed
  show "at_ns r < c_t c" if "dec = Some c" "r \<in> set (drop k order)" for c r
    using mset_eq_setD [OF rest_eq] that rest by simp
qed

text \<open>A page whose boundary group is whole covers what it should.\<close>

lemma finish_covers:
  assumes "mset T = mset rest" and "b \<in> at_ns ` set rest" and "\<And>c. dec = Some c \<Longrightarrow> b < c_t c"
    and "\<And>r. r \<in> set R \<Longrightarrow> b \<le> at_ns r"
    and "newest_first whole" and "mset whole = mset (filter (\<lambda>r. b \<le> at_ns r) T)"
    and "\<not> cut_off \<Longrightarrow> filter (\<lambda>r. at_ns r < b) T = []"
  shows "covers rest (finish_page dec cut_off (map snd R) b (map snd whole) tr)"
proof -
  have whole: "mset whole = mset (filter (\<lambda>r. b \<le> at_ns r) rest)" using assms(1,6) by simp
  have "filter (\<lambda>r. at_ns r = b) (filter (\<lambda>r. b \<le> at_ns r) rest) = filter (\<lambda>r. at_ns r = b) rest" by (auto intro: filter_cong)
  then have count: "length (filter (\<lambda>x. fst x = b) (map snd whole)) = length (filter (\<lambda>r. at_ns r = b) rest)"
    using length_filter_mset [OF whole, of "\<lambda>r. at_ns r = b"] filter_map_snd [of "\<lambda>t. t = b" whole] by simp
  have same: "(case dec of Some c \<Rightarrow> if b = c_t c then c_n c + n else n | None \<Rightarrow> n) = n" for n
    using assms(3) by (auto split: option.splits)
  have "list_ex (\<lambda>x. fst x < b) (map snd R) = False" using assms(4) by (auto simp: list_ex_iff not_less)
  moreover have "\<not> cut_off \<Longrightarrow> filter (\<lambda>r. at_ns r < b) rest = []"
    using assms(7) mset_eq_setD [OF assms(1)] by (simp add: filter_empty_conv)
  ultimately have "pg_next (finish_page dec cut_off (map snd R) b (map snd whole) tr) = None \<and> filter (\<lambda>r. at_ns r < b) rest = [] \<or>
      pg_next (finish_page dec cut_off (map snd R) b (map snd whole) tr) =
        Some (encode_cursor \<lparr>c_t = b, c_n = length (filter (\<lambda>r. at_ns r = b) rest)\<rparr>)"
    unfolding finish_page_def Let_def count same by simp
  moreover have "pg_lines (finish_page dec cut_off (map snd R) b (map snd whole) tr) = rev (map (snd \<circ> snd) whole)"
    by (simp add: finish_page_def Let_def)
  ultimately show ?thesis unfolding covers_def using assms(2,5) whole by blast
qed

lemma group_and_newer:
  assumes "newest_first T" and "mset grp = mset (filter (\<lambda>r. at_ns r = b) T)"
  shows "newest_first (filter (\<lambda>r. b < at_ns r) T @ grp)"
    "mset (filter (\<lambda>r. b < at_ns r) T @ grp) = mset (filter (\<lambda>r. b \<le> at_ns r) T)"
proof -
  have at: "\<forall>r \<in> set grp. at_ns r = b" using mset_eq_setD [OF assms(2)] by auto
  then have "newest_first grp" by (induction grp) (auto simp: newest_first_Cons newest_first_def)
  with at assms(1) show "newest_first (filter (\<lambda>r. b < at_ns r) T @ grp)"
    by (auto simp: newest_first_append newest_lines_filter)
  have "mset (filter (\<lambda>r. b < at_ns r) T) + mset (filter (\<lambda>r. at_ns r = b) T) = mset (filter (\<lambda>r. b \<le> at_ns r) T)"
    by (induction T) auto
  with assms(2) show "mset (filter (\<lambda>r. b < at_ns r) T @ grp) = mset (filter (\<lambda>r. b \<le> at_ns r) T)" by simp
qed

lemma page_from_covers:
  assumes store: "serves env expr from_ns to_ns stored" "list_all (stored_ok env) stored"
    "sum_list (map (utf8_length \<circ> fst) stored) \<le> max_bytes base" "groups_small stored"
    and size: "1 \<le> page_size"
    and W: "W = in_window (from_ns ws) (to_ns e) stored"
    and dec: "\<And>c. dec = Some c \<Longrightarrow> c_t c = to_ns e \<and> c_n c = length (filter (\<lambda>r. at_ns r = to_ns e) W)"
    and rest: "rest = (case dec of None \<Rightarrow> W | Some c \<Rightarrow> filter (\<lambda>r. at_ns r < c_t c) W)"
  shows "\<exists>p. page_from env base expr ws e page_size dec = Inr p \<and> covers rest p"
proof -
  define k where k: "k = (case dec of None \<Rightarrow> 0 | Some c \<Rightarrow> c_n c)"
  obtain order where order: "mset order = mset W" "newest_first order" "list_all (stored_ok env) order"
    and q: "vl_query env (base\<lparr>max_lines := page_size + k\<rparr>) expr ws e =
      Inr \<lparr>vr_lines = map (snd \<circ> snd) (take (page_size + k) order), vr_truncated = (page_size + k < length order)\<rparr>"
    using query_window [OF store(1-3)] W by metis
  let ?L = "take (page_size + k) order" and ?T = "drop k order" and ?more = "page_size + k < length order"
  have inW: "\<And>r. r \<in> set W \<Longrightarrow> r \<in> set stored \<and> from_ns ws \<le> at_ns r \<and> at_ns r \<le> to_ns e" by (simp add: W in_window_def)
  have T: "mset ?T = mset rest" "newest_first ?T" "\<And>c r. dec = Some c \<Longrightarrow> r \<in> set ?T \<Longrightarrow> at_ns r < c_t c"
    using not_returned [OF order(1,2) _ dec rest k] inW by blast+
  have L: "newest_first ?L" "list_all (stored_ok env) ?L"
    using order(2,3) by (auto simp: newest_first_take list_all_iff dest: in_set_takeD)
  have R: "take page_size (drop k ?L) = take page_size ?T" "drop k ?L = take page_size ?T" by (simp_all add: drop_take)
  show ?thesis
  proof (cases "?T = []")
    case True
    then have "page_from env base expr ws e page_size dec = Inr (empty_page ?more)"
      by (intro page_from_empty [OF q k [symmetric] L]) simp
    with True T(1) show ?thesis by (simp add: covers_def empty_page_def)
  next
    case False
    let ?R = "take page_size ?T"
    have R_ne: "?R \<noteq> []" using False size by simp
    define b where b: "b = at_ns (last ?R)"
    note cut = newer_than_cut [OF T(2) R_ne b] and run = page_from_run [OF q k [symmetric] L R(1) R_ne]
    have lastT: "last ?R \<in> set ?T" using last_in_set [OF R_ne] by (rule in_set_takeD)
    then have b_in: "b \<in> at_ns ` set rest" using mset_eq_setD [OF T(1)] b by auto
    have b_old: "\<And>c. dec = Some c \<Longrightarrow> b < c_t c" using T(3) lastT b by simp
    show ?thesis
    proof (cases "page_size + k \<le> length order")
      case True
      have "last ?R \<in> set W" using lastT mset_eq_setD [OF order(1)] by (auto dest: in_set_dropD)
      then have w: "last ?R \<in> set stored" "from_ns ws \<le> b" "b \<le> to_ns e" using inW b by auto
      obtain grp where grp: "complete_group env base expr (page_size + k) b (map snd ?R) ?more =
          Inr (map snd (filter (\<lambda>r. b < at_ns r) ?R) @ map snd grp, ?more)"
        "mset grp = mset (filter (\<lambda>r. at_ns r = b) stored)"
        using complete_group_result [OF store w(1) b [symmetric]] by metis
      let ?whole = "filter (\<lambda>r. b < at_ns r) ?T @ grp"
      have page: "page_from env base expr ws e page_size dec =
          Inr (finish_page dec ?more (map snd ?R) b (map snd ?whole) ?more)"
        unfolding run using True grp(1) cut(1) take_after_drop [OF R_ne] R(2) by (simp add: b)
      have "filter (\<lambda>r. at_ns r = b) stored = filter (\<lambda>r. at_ns r = b) rest"
        using w(2,3) b_old by (auto simp: rest W in_window_def split: option.splits intro!: filter_cong)
      with grp(2) T(1) have "mset grp = mset (filter (\<lambda>r. at_ns r = b) ?T)" by simp
      note whole = group_and_newer [OF T(2) this]
      have older: "filter (\<lambda>r. at_ns r < b) ?T = []" if "\<not> ?more"
        using cut(2) that by (auto simp: filter_empty_conv not_less)
      have "covers rest (finish_page dec ?more (map snd ?R) b (map snd ?whole) ?more)"
        by (rule finish_covers [OF T(1) b_in]) (fact b_old cut(2) whole older)+
      with page show ?thesis by blast
    next
      case short: False
      then have all: "?R = ?T" by simp
      have page: "page_from env base expr ws e page_size dec = Inr (finish_page dec False (map snd ?T) b (map snd ?T) False)"
        unfolding run using short R(2) all by (simp add: b)
      have "filter (\<lambda>r. b \<le> at_ns r) ?T = ?T" "filter (\<lambda>r. at_ns r < b) ?T = []"
        using cut(2) all by (auto simp: filter_id_conv filter_empty_conv not_less)
      then have "covers rest (finish_page dec False (map snd ?T) b (map snd ?T) False)"
        using cut(2) all by (intro finish_covers [OF T(1) b_in] b_old T(2)) simp_all
      with page show ?thesis by blast
    qed
  qed
qed

section \<open>Every line exactly once\<close>

lemma newest_first_by_mset:
  assumes "\<And>x y. x \<in># M \<Longrightarrow> y \<in># N \<Longrightarrow> at_ns y \<le> at_ns x"
    and "newest_first xs" "mset xs = M" "newest_first ys" "mset ys = N"
  shows "newest_first (xs @ ys)"
  using assms by (auto simp: newest_first_append)

text \<open>The pages of a store: their lines, newest first, are the lines not returned yet.\<close>

definition pages_cover :: "stored list \<Rightarrow> log_page list \<Rightarrow> bool" where
  "pages_cover rest pages \<longleftrightarrow>
     (\<exists>order. newest_first order \<and> mset order = mset rest \<and>
        concat (map (rev \<circ> pg_lines) pages) = map (snd \<circ> snd) order)"

lemma covers_last: "covers rest p \<Longrightarrow> pg_next p = None \<Longrightarrow> pages_cover rest [p]"
proof -
  assume "covers rest p" and n: "pg_next p = None"
  then consider "rest = []" "pg_lines p = []"
    | b kept where "newest_first kept" "mset kept = mset (filter (\<lambda>r. b \<le> at_ns r) rest)"
      "pg_lines p = rev (map (snd \<circ> snd) kept)" "filter (\<lambda>r. at_ns r < b) rest = []"
    unfolding covers_def by auto
  then show "pages_cover rest [p]"
  proof cases
    case 1
    then show ?thesis by (simp add: pages_cover_def newest_first_def)
  next
    case 2
    then have "filter (\<lambda>r. b \<le> at_ns r) rest = rest" by (auto simp: filter_empty_conv filter_id_conv not_less)
    with 2 show ?thesis by (auto simp: pages_cover_def intro!: exI [of _ kept])
  qed
qed

lemma covers_next:
  assumes "newest_first kept" "mset kept = mset (filter (\<lambda>r. b \<le> at_ns r) rest)" "pg_lines p = rev (map (snd \<circ> snd) kept)"
    and "pages_cover (filter (\<lambda>r. at_ns r < b) rest) pages"
  shows "pages_cover rest (p # pages)"
proof -
  obtain order where order: "newest_first order" "mset order = mset (filter (\<lambda>r. at_ns r < b) rest)"
    "concat (map (rev \<circ> pg_lines) pages) = map (snd \<circ> snd) order"
    using assms(4) by (auto simp: pages_cover_def)
  have "newest_first (kept @ order)"
    using mset_eq_setD [OF assms(2)] mset_eq_setD [OF order(2)] assms(1) order(1) by (fastforce simp: newest_first_append)
  moreover have "mset (kept @ order) = mset rest" using assms(2) order(2) by (simp add: not_le [symmetric] multiset_partition [symmetric])
  ultimately show ?thesis using assms(3) order(3) by (auto simp: pages_cover_def intro!: exI [of _ "kept @ order"])
qed

text \<open>The page of a cursor that an earlier page gave.\<close>

lemma cursor_page_covers:
  assumes store: "serves env expr from_ns to_ns stored" "list_all (stored_ok env) stored"
    "sum_list (map (utf8_length \<circ> fst) stored) \<le> max_bytes base" "groups_small stored" "loads_inverts_dumps env"
    and size: "1 \<le> page_size" and ws: "iso_to_ns (other_iso env) ws = Some (from_ns ws)"
    and b: "x \<in> set stored" "at_ns x = b" "from_ns ws \<le> b"
    and n: "n = length (filter (\<lambda>r. at_ns r = b) (in_window (from_ns ws) b stored))"
  shows "\<exists>p. paginate_older env base expr ws we page_size (Some (encode_cursor \<lparr>c_t = b, c_n = n\<rparr>)) = Inr p \<and>
    covers (filter (\<lambda>r. at_ns r < b) (in_window (from_ns ws) b stored)) p"
proof -
  let ?c = "\<lparr>c_t = b, c_n = n\<rparr>" and ?W = "in_window (from_ns ws) b stored"
  have "x \<in> set (filter (\<lambda>r. at_ns r = b) ?W)" using b by (simp add: in_window_def)
  then have "1 \<le> n" using n by (cases "filter (\<lambda>r. at_ns r = b) ?W") auto
  then have dec: "decode_cursor env (encode_cursor ?c) = Inr ?c" by (intro decode_encode_cursor store(5)) simp
  show ?thesis
  proof (cases "b \<le> from_ns ws")
    case True
    then have "filter (\<lambda>r. at_ns r < b) ?W = []" by (auto simp: in_window_def filter_empty_conv)
    with True show ?thesis by (simp add: paginate_older_def dec ws covers_def empty_page_def)
  next
    case False
    obtain e where e: "ns_to_iso b = Some e" and hi: "to_ns e = b" using served_bounds [OF store(1,2) b(1,2)] by metis
    have "\<exists>p. page_from env base expr ws e page_size (Some ?c) = Inr p \<and> covers (filter (\<lambda>r. at_ns r < b) ?W) p"
      by (rule page_from_covers [OF store(1-4) size]) (simp_all add: hi n)
    with False show ?thesis by (simp add: paginate_older_def dec ws e)
  qed
qed

lemma load_pages_older:
  assumes store: "serves env expr from_ns to_ns stored" "list_all (stored_ok env) stored"
    "sum_list (map (utf8_length \<circ> fst) stored) \<le> max_bytes base" "groups_small stored" "loads_inverts_dumps env"
    and size: "1 \<le> page_size" and ws: "iso_to_ns (other_iso env) ws = Some (from_ns ws)"
    and first: "paginate_older env base expr ws we page_size cursor = Inr p" "covers rest p"
    and rest: "rest = filter (\<lambda>r. from_ns ws \<le> at_ns r \<and> P (at_ns r)) stored" "\<And>s t. P t \<Longrightarrow> s \<le> t \<Longrightarrow> P s"
    and fuel: "length rest < fuel"
  shows "\<exists>pages. load_pages env base expr ws we page_size fuel cursor = Some (Inr pages) \<and> pages_cover rest pages"
  using first rest fuel
proof (induction fuel arbitrary: rest p cursor P)
  case (Suc fuel)
  show ?case
  proof (cases "pg_next p")
    case None
    with Suc.prems(1,2) covers_last show ?thesis by simp
  next
    case (Some c)
    then obtain b kept where b: "b \<in> at_ns ` set rest" "newest_first kept"
      "mset kept = mset (filter (\<lambda>r. b \<le> at_ns r) rest)" "pg_lines p = rev (map (snd \<circ> snd) kept)"
      and c: "c = encode_cursor \<lparr>c_t = b, c_n = length (filter (\<lambda>r. at_ns r = b) rest)\<rparr>"
      using Suc.prems(2) unfolding covers_def by auto
    from b(1) obtain x where xr: "x \<in> set rest" "at_ns x = b" by auto
    then have x: "x \<in> set stored" "at_ns x = b" "from_ns ws \<le> b" "P b" unfolding Suc.prems(3) by auto
    let ?W = "in_window (from_ns ws) b stored" and ?rest = "filter (\<lambda>r. at_ns r < b) rest"
    have eqs: "filter (\<lambda>r. at_ns r < b) ?W = ?rest" "filter (\<lambda>r. at_ns r = b) ?W = filter (\<lambda>r. at_ns r = b) rest"
      using Suc.prems(4) x(4) unfolding Suc.prems(3) in_window_def by (auto intro!: filter_cong)
    obtain q where q: "paginate_older env base expr ws we page_size (Some c) = Inr q" "covers ?rest q"
      using cursor_page_covers [OF store size ws x(1-3) refl] unfolding c eqs by metis
    have "\<exists>pages. load_pages env base expr ws we page_size fuel (Some c) = Some (Inr pages) \<and> pages_cover ?rest pages"
    proof (rule Suc.IH [OF q])
      show "?rest = filter (\<lambda>r. from_ns ws \<le> at_ns r \<and> at_ns r < b) stored"
        using Suc.prems(4) x(4) unfolding Suc.prems(3) by (auto intro!: filter_cong)
      have "length ?rest < length rest" using xr by (intro length_filter_less [of x]) simp_all
      with Suc.prems(5) show "length ?rest < fuel" by simp
    qed simp
    then obtain pages where "load_pages env base expr ws we page_size fuel (Some c) = Some (Inr pages)"
      "pages_cover ?rest pages" by blast
    with Some Suc.prems(1) covers_next [OF b(2-4)] show ?thesis by simp
  qed
qed simp


section \<open>A store that keeps the contract\<close>

lemma dec_value_append: "dec_value (s @ [c]) = dec_value s * 10 + (of_char c - 48)"
  by (simp add: dec_value_def)

lemma dec_value_str_of_nat: "dec_value (str_of_nat n) = n"
proof (induction n rule: str_of_nat.induct)
  case (1 n)
  show ?case
  proof (cases "n < 10")
    case True
    then show ?thesis by (subst str_of_nat.simps) (simp add: dec_value_def)
  next
    case False
    have "n mod 10 < 10" by simp
    then have "(of_char (char_of (48 + n mod 10)) :: nat) = 48 + n mod 10" by simp
    with False 1 [OF False] show ?thesis by (subst str_of_nat.simps) (simp add: dec_value_append)
  qed
qed

definition number_char :: "char \<Rightarrow> bool" where
  "number_char c = (is_digit c \<or> c = CHR ''-'')"

lemma digits_of_nat: "list_all is_digit (str_of_nat n)"
proof (induction n rule: str_of_nat.induct)
  case (1 n)
  have "is_digit (char_of (48 + k))" if "k < 10" for k :: nat using that by (simp add: is_digit_def)
  with 1 show ?case by (subst str_of_nat.simps) simp
qed

lemma number_of_int: "list_all number_char (str_of_int n)"
  using digits_of_nat by (auto simp: str_of_int_def number_char_def list_all_iff)

definition int_of_text :: "string \<Rightarrow> int" where
  "int_of_text s = (case s of [] \<Rightarrow> 0 | c # cs \<Rightarrow> if c = CHR ''-'' then - int (dec_value cs) else int (dec_value s))"

lemma int_of_str_of_int: "int_of_text (str_of_int n) = n"
proof (cases "n < 0")
  case True
  then show ?thesis by (simp add: int_of_text_def str_of_int_def dec_value_str_of_nat)
next
  case False
  obtain c cs where cs: "str_of_nat (nat n) = c # cs"
    by (metis neq_Nil_conv str_of_nat.simps append_is_Nil_conv list.distinct(1))
  have "is_digit c" using digits_of_nat [of "nat n"] cs by simp
  then have "c \<noteq> CHR ''-''" by (auto simp: is_digit_def)
  with False cs dec_value_str_of_nat [of "nat n"] show ?thesis by (simp add: int_of_text_def str_of_int_def)
qed

text \<open>A reader of the cursor payload.\<close>

definition read_payload :: "nat list \<Rightarrow> json option" where
  "read_payload bs =
     (let r = drop 5 (map char_of bs); u = drop 5 (dropWhile number_char r) in
      Some (JObj [(''t'', JInt (int_of_text (takeWhile number_char r))),
                  (''n'', JInt (int_of_text (takeWhile number_char u)))]))"

lemma read_payload_dumps:
  "read_payload (bytes_of (dumps (JObj [(''t'', JInt t), (''n'', JInt n)]))) = Some (JObj [(''t'', JInt t), (''n'', JInt n)])"
proof -
  have quoted: "json_text ''t'' = [dquote, CHR ''t'', dquote]" "json_text ''n'' = [dquote, CHR ''n'', dquote]"
    by (simp_all add: json_text_def escape_char_def dquote_def Let_def special_chars)
  have sep: "\<not> number_char CHR '',''" "\<not> number_char CHR ''}''" by (simp_all add: number_char_def is_digit_def)
  have chars: "map char_of (bytes_of s) = s" for s by (simp add: bytes_of_def comp_def)
  have payload: "dumps (JObj [(''t'', JInt t), (''n'', JInt n)]) =
      [CHR ''{'', dquote, CHR ''t'', dquote, CHR '':''] @ str_of_int t @
      [CHR '','', dquote, CHR ''n'', dquote, CHR '':''] @ str_of_int n @ ''}''" by (simp add: quoted)
  show ?thesis
    unfolding read_payload_def Let_def chars payload
    using all_takeWhile [OF number_of_int] by (simp add: sep int_of_str_of_int)
qed

lemma splitlines_join:
  assumes "\<And>r. r \<in> set raws \<Longrightarrow> r \<noteq> [] \<and> list_all (\<lambda>c. \<not> is_linebreak c) r"
  shows "splitlines (join_with [char_of (10 :: nat)] raws) = raws"
proof -
  have run: "split_lines_from acc xs = [rev acc @ xs]" if "list_all (\<lambda>c. \<not> is_linebreak c) xs" "xs \<noteq> []" for acc xs
    using that
  proof (induction xs arbitrary: acc)
    case (Cons x xs)
    then show ?case by (cases "xs = []") auto
  qed simp
  have head: "split_lines_from acc (xs @ char_of (10 :: nat) # ys) = (rev acc @ xs) # split_lines_from [] ys"
    if "list_all (\<lambda>c. \<not> is_linebreak c) xs" for acc xs ys
    using that by (induction xs arbitrary: acc) (auto simp: is_linebreak_def)
  show ?thesis
    unfolding splitlines_def using assms
    by (induction "[char_of (10 :: nat)]" raws rule: join_with.induct) (auto simp: run head)
qed

text \<open>Three lines, two of them in one nanosecond.\<close>

definition example_stamp :: "string \<Rightarrow> int" where
  "example_stamp raw = (if raw = ''old'' then 5 else 7)"

definition example_object :: "string \<Rightarrow> json_object" where
  "example_object raw = [(''_time'', JStr (the (ns_to_iso (example_stamp raw)))), (''_msg'', JStr raw)]"

definition example_ns :: "string \<Rightarrow> int" where
  "example_ns s = (case iso_to_ns (\<lambda>_. None) s of None \<Rightarrow> 0 | Some n \<Rightarrow> n)"

definition example_line :: "string \<Rightarrow> vl_line" where
  "example_line raw = \<lparr>ln_timestamp = the (ns_to_iso (example_stamp raw)), ln_message = raw, ln_stream = [], ln_fields = []\<rparr>"

definition example_stored :: "stored list" where
  "example_stored = map (\<lambda>raw. (raw, example_stamp raw, example_line raw)) [''new'', ''twin'', ''old'']"

definition example_log_env :: log_env where
  "example_log_env = \<lparr>vl_get = (\<lambda>expr start end_iso limit. Inr (200, join_with [char_of (10 :: nat)]
       (map fst (take limit (in_window (example_ns start) (example_ns end_iso) example_stored))))),
     loads = (\<lambda>raw. Some (JObj (example_object raw))), loads_bytes = read_payload, py_str = (\<lambda>_. []),
     other_iso = (\<lambda>_. None)\<rparr>"

lemma example_round: "0 \<le> ns \<Longrightarrow> ns < max_epoch_s * 1000000000 \<Longrightarrow>
    iso_to_ns (\<lambda>_. None) (the (ns_to_iso ns)) = Some ns"
  using iso_ns_roundtrip [of ns "\<lambda>_. None"] by auto

lemma example_serves: "serves example_log_env expr example_ns example_ns example_stored"
proof -
  have "newest_first example_stored" by (simp add: example_stored_def newest_first_def example_stamp_def)
  then have order: "newest_first (in_window lo hi example_stored)" for lo hi
    unfolding in_window_def by (rule newest_lines_filter)
  have names: "fst ` set (in_window lo hi example_stored) \<subseteq> {''new'', ''twin'', ''old''}" for lo hi
    by (auto simp: in_window_def example_stored_def)
  have split: "splitlines (join_with [char_of (10 :: nat)] (map fst (take limit (in_window lo hi example_stored)))) =
      map fst (take limit (in_window lo hi example_stored))" for limit lo hi
  proof (rule splitlines_join)
    fix r assume "r \<in> set (map fst (take limit (in_window lo hi example_stored)))"
    then have "r \<in> {''new'', ''twin'', ''old''}" using names by (fastforce dest: in_set_takeD)
    then show "r \<noteq> [] \<and> list_all (\<lambda>c. \<not> is_linebreak c) r" by (auto simp: is_linebreak_def)
  qed
  have "example_ns s = ns" if "0 \<le> ns" "ns < max_epoch_s * 1000000000" "ns_to_iso ns = Some s" for ns s
    using example_round [OF that(1,2)] that(3) by (simp add: example_ns_def)
  then show ?thesis unfolding serves_def using split order by (auto simp: example_log_env_def)
qed


lemma decode_cursor_result:
  "case decode_cursor env raw of Inl e \<Rightarrow> \<exists>m. e = InvalidCursor m | Inr c \<Rightarrow> 1 \<le> c_n c"
  by (auto simp: decode_cursor_def split: option.splits json.splits)

text \<open>
  A cursor survives the round trip through the client: decoding an encoded cursor gives it back;
  and whatever text a client sends instead, the answer is an InvalidCursorError or a cursor that skips at
  least one line.
\<close>

theorem cursor_roundtrip:
  assumes "loads_inverts_dumps env" and "1 \<le> c_n c"
  shows "decode_cursor env (encode_cursor c) = Inr c \<and>
    (case decode_cursor env raw of Inl e \<Rightarrow> \<exists>m. e = InvalidCursor m | Inr c' \<Rightarrow> 1 \<le> c_n c')"
  using decode_encode_cursor [OF assms] decode_cursor_result by blast

theorem cursor_roundtrip_witness:
  "decode_cursor example_log_env (encode_cursor \<lparr>c_t = 1700000000000000000, c_n = 2\<rparr>) =
     Inr \<lparr>c_t = 1700000000000000000, c_n = 2\<rparr> \<and>
   (case decode_cursor example_log_env ''%%'' of Inl e \<Rightarrow> \<exists>m. e = InvalidCursor m | Inr c' \<Rightarrow> 1 \<le> c_n c')"
  by (rule cursor_roundtrip) (simp_all add: loads_inverts_dumps_def example_log_env_def read_payload_dumps del: dumps.simps)

end
