(* ===== verification/LogViews.thy ===== *)
theory LogViews
  imports LogQuery
begin

text \<open>
  What the log viewers show: severity normalisation and the converged line (kernel/logs/models.py), the
  check of a requested window (kernel/logs/time_window.py) and the density histogram
  (kernel/logs/histogram.py).  Times are epoch microseconds or milliseconds; the parser of a
  timestamp and the /hits call are parameters.
\<close>

section \<open>Severity\<close>

definition syslog_numeric :: "string \<Rightarrow> string option" where
  "syslog_numeric = map_of
     [(''0'', ''emergency''), (''1'', ''alert''), (''2'', ''critical''), (''3'', ''error''), (''4'', ''warn''),
      (''5'', ''notice''), (''6'', ''info''), (''7'', ''debug'')]"

definition severity_aliases :: "string \<Rightarrow> string option" where
  "severity_aliases = map_of
     [(''warning'', ''warn''), (''err'', ''error''), (''crit'', ''critical''), (''panic'', ''emergency''),
      (''emerg'', ''emergency'')]"

definition canonical_severities :: "string list" where
  "canonical_severities =
     [''debug'', ''info'', ''notice'', ''warn'', ''error'', ''critical'', ''alert'', ''emergency'']"

definition normalize_severity :: "string option \<Rightarrow> string option" where
  "normalize_severity raw =
     (case raw of
        None \<Rightarrow> None
      | Some r \<Rightarrow>
          (let token = lower (strip r) in
           if token = [] then None
           else if syslog_numeric token \<noteq> None then syslog_numeric token
           else if severity_aliases token \<noteq> None then severity_aliases token
           else if token \<in> set canonical_severities then Some token
           else Some ''info''))"

definition coarse_by_canonical :: "string \<Rightarrow> string option" where
  "coarse_by_canonical = map_of
     [(''error'', ''error''), (''critical'', ''error''), (''alert'', ''error''), (''emergency'', ''error''),
      (''warn'', ''warn'')]"

definition coarse_bucket :: "string option \<Rightarrow> string" where
  "coarse_bucket raw_severity =
     (case normalize_severity raw_severity of
        None \<Rightarrow> ''info''
      | Some c \<Rightarrow> (case coarse_by_canonical c of None \<Rightarrow> ''info'' | Some k \<Rightarrow> k))"

lemma table_severities:
  "syslog_numeric token = Some s \<Longrightarrow> s \<in> set canonical_severities"
  "severity_aliases token = Some s \<Longrightarrow> s \<in> set canonical_severities"
  by (auto simp: syslog_numeric_def severity_aliases_def canonical_severities_def split: if_splits)

lemma canonical_fixed: "s \<in> set canonical_severities \<Longrightarrow> normalize_severity (Some s) = Some s"
proof -
  have "list_all (\<lambda>s. normalize_severity (Some s) = Some s) canonical_severities" by code_simp
  then show "s \<in> set canonical_severities \<Longrightarrow> normalize_severity (Some s) = Some s" by (simp add: list_all_iff)
qed

text \<open>
  Severity is normalised into the canonical set, normalising again changes nothing, and nothing that is
  not an error or a warning is shown as one.
\<close>

lemma severity_canonical:
  "case normalize_severity raw of
     None \<Rightarrow> coarse_bucket raw = ''info''
   | Some s \<Rightarrow> s \<in> set canonical_severities \<and> normalize_severity (Some s) = Some s"
proof (cases "normalize_severity raw")
  case None
  then show ?thesis by (simp add: coarse_bucket_def)
next
  case (Some s)
  then have "s \<in> set canonical_severities"
    by (auto simp: normalize_severity_def Let_def table_severities split: option.splits if_splits)
      (auto simp: canonical_severities_def)
  with Some canonical_fixed show ?thesis by simp
qed

section \<open>The converged line\<close>

record log_line =
  ll_timestamp :: string
  ll_message :: string
  ll_stream :: string
  ll_severity :: "string option"
  ll_host :: "string option"
  ll_service :: "string option"
  ll_fields :: "(string \<times> string) list"

text \<open>\<open>a or b or None\<close> on optional strings: the first that is not empty.\<close>

definition first_nonempty :: "string option \<Rightarrow> string option \<Rightarrow> string option" where
  "first_nonempty a b =
     (case a of Some (c # cs) \<Rightarrow> Some (c # cs) | _ \<Rightarrow> (case b of Some (d # ds) \<Rightarrow> Some (d # ds) | _ \<Rightarrow> None))"

definition from_victorialogs_line :: "vl_line \<Rightarrow> log_line" where
  "from_victorialogs_line ln =
     (let raw_severity = map_of (ln_fields ln) ''severity'' in
      \<lparr>ll_timestamp = ln_timestamp ln, ll_message = ln_message ln, ll_stream = ln_stream ln,
       ll_severity = normalize_severity raw_severity,
       ll_host = first_nonempty (map_of (ln_fields ln) ''host'') (map_of (ln_fields ln) ''_HOSTNAME''),
       ll_service = first_nonempty (map_of (ln_fields ln) ''service'') (map_of (ln_fields ln) ''SYSLOG_IDENTIFIER''),
       ll_fields = (case raw_severity of
                      None \<Rightarrow> ln_fields ln
                    | Some s \<Rightarrow> dict_set ''severity_raw'' s (ln_fields ln))\<rparr>)"

section \<open>The requested window\<close>

definition max_range_us :: int where
  "max_range_us = 30 * 24 * 3600 * 1000000"

definition future_skew_us :: int where
  "future_skew_us = 5 * 1000000"

text \<open>\<open>parse\<close> is \<open>fromisoformat\<close> with a naive time read as UTC, None its ValueError.\<close>

definition parse_and_validate_window ::
  "(string \<Rightarrow> int option) \<Rightarrow> string \<Rightarrow> string \<Rightarrow> int \<Rightarrow> http_problem + string \<times> string" where
  "parse_and_validate_window parse start end_iso now =
     (case (parse start, parse end_iso) of
        (Some s, Some e) \<Rightarrow>
          if s \<ge> e then Inl (HttpProblem 400 ''invalid_range'' ''end must be after start'')
          else if s > now + future_skew_us \<or> e > now + future_skew_us
          then Inl (HttpProblem 400 ''range_in_future'' ''start and end cannot be in the future'')
          else if e - s > max_range_us
          then Inl (HttpProblem 400 ''range_too_wide'' ''time range cannot exceed 30 days'')
          else Inr (start, end_iso)
      | _ \<Rightarrow> Inl (HttpProblem 400 ''invalid_time_format'' ''start and end must be ISO-8601 timestamps''))"

section \<open>The histogram\<close>

text \<open>
  \<open>math.ceil(span / buckets)\<close> is exact on the validated window: the float quotient of spans below
  2 to the 53 is at least 1/buckets away from an integer it does not equal.
\<close>

definition compute_step_ms :: "int \<Rightarrow> int \<Rightarrow> int \<Rightarrow> int" where
  "compute_step_ms start_ms end_ms buckets =
     (let span = end_ms - start_ms in
      if span \<le> 0 then 1 else max 1 (- ((- span) div buckets)))"

definition bucket_count :: "int \<Rightarrow> int \<Rightarrow> int \<Rightarrow> int" where
  "bucket_count start_ms end_ms step_ms =
     (let span = end_ms - start_ms in if span \<le> 0 \<or> step_ms \<le> 0 then 1 else span div step_ms + 1)"

definition assign_bucket :: "int \<Rightarrow> int \<Rightarrow> int \<Rightarrow> int \<Rightarrow> int" where
  "assign_bucket ts_ms start_ms step_ms n =
     (if step_ms \<le> 0 then 0
      else (let idx = (ts_ms - start_ms) div step_ms in
            if idx < 0 then 0 else if idx \<ge> n then n - 1 else idx))"

record tally =
  t_error :: int
  t_warn :: int
  t_info :: int

definition bump :: "string \<Rightarrow> int \<Rightarrow> tally \<Rightarrow> tally" where
  "bump coarse count t =
     (if coarse = ''error'' then t\<lparr>t_error := t_error t + count\<rparr>
      else if coarse = ''warn'' then t\<lparr>t_warn := t_warn t + count\<rparr>
      else t\<lparr>t_info := t_info t + count\<rparr>)"

definition tally_total :: "tally \<Rightarrow> int" where
  "tally_total t = t_error t + t_warn t + t_info t"

record hits_series =
  hs_field_value :: "string option"
  hs_timestamps :: "string list"
  hs_counts :: "int list"

record histogram_bucket =
  hb_start_ms :: int
  hb_counts :: tally
  hb_total :: int

text \<open>\<open>to_ms\<close> is \<open>parse_iso_to_ms\<close> on a text, None its ValueError.\<close>

fun tally_points :: "(string \<Rightarrow> int option) \<Rightarrow> int \<Rightarrow> int \<Rightarrow> int \<Rightarrow> string \<Rightarrow> (string \<times> int) list \<Rightarrow> tally list \<Rightarrow>
    tally list option" where
  "tally_points to_ms start_ms step_ms n coarse [] tallies = Some tallies"
| "tally_points to_ms start_ms step_ms n coarse ((ts, count) # points) tallies =
     (case to_ms ts of
        None \<Rightarrow> None
      | Some ms \<Rightarrow>
          (let i = nat (assign_bucket ms start_ms step_ms n) in
           tally_points to_ms start_ms step_ms n coarse points (tallies[i := bump coarse count (tallies ! i)])))"

fun tally_series :: "(string \<Rightarrow> int option) \<Rightarrow> int \<Rightarrow> int \<Rightarrow> int \<Rightarrow> hits_series list \<Rightarrow> tally list \<Rightarrow> tally list option" where
  "tally_series to_ms start_ms step_ms n [] tallies = Some tallies"
| "tally_series to_ms start_ms step_ms n (s # ss) tallies =
     (case tally_points to_ms start_ms step_ms n (coarse_bucket (hs_field_value s))
             (zip (hs_timestamps s) (hs_counts s)) tallies of
        None \<Rightarrow> None
      | Some t \<Rightarrow> tally_series to_ms start_ms step_ms n ss t)"

definition fetch_histogram ::
  "(string \<Rightarrow> int option) \<Rightarrow> (string \<Rightarrow> string \<Rightarrow> string \<Rightarrow> string \<Rightarrow> log_error + hits_series list) \<Rightarrow>
     string \<Rightarrow> string \<Rightarrow> string \<Rightarrow> int \<Rightarrow> log_error + histogram_bucket list \<times> int" where
  "fetch_histogram to_ms hits expr start end_iso buckets =
     (case (to_ms start, to_ms end_iso) of
        (Some start_ms, Some end_ms) \<Rightarrow>
          (let step_ms = compute_step_ms start_ms end_ms buckets;
               n = bucket_count start_ms end_ms step_ms
           in case hits expr start end_iso (str_of_int step_ms @ ''ms'') of
                Inl e \<Rightarrow> Inl e
              | Inr series \<Rightarrow>
                  (case tally_series to_ms start_ms step_ms n series
                          (replicate (nat n) \<lparr>t_error = 0, t_warn = 0, t_info = 0\<rparr>) of
                     None \<Rightarrow> Inl PyValueError
                   | Some tallies \<Rightarrow>
                       Inr (map (\<lambda>i. \<lparr>hb_start_ms = start_ms + int i * step_ms, hb_counts = tallies ! i,
                                      hb_total = tally_total (tallies ! i)\<rparr>) [0..<nat n],
                            step_ms)))
      | _ \<Rightarrow> Inl PyValueError)"

section \<open>What the histogram shows\<close>

lemma bump_total [simp]: "tally_total (bump c k t) = tally_total t + k"
  by (simp add: bump_def tally_total_def)

lemma step_pos: "0 < compute_step_ms s e b"
  by (simp add: compute_step_ms_def Let_def less_max_iff_disj)

lemma count_pos: "0 < bucket_count s e step"
  by (simp add: bucket_count_def Let_def pos_imp_zdiv_nonneg_iff add_nonneg_pos)

lemma assign_bucket_range: "0 < n \<Longrightarrow> 0 \<le> assign_bucket ts s step n \<and> assign_bucket ts s step n < n"
  by (simp add: assign_bucket_def Let_def)

lemma total_update:
  "i < length ts \<Longrightarrow> sum_list (map tally_total (ts[i := bump c k (ts ! i)])) = sum_list (map tally_total ts) + k"
  by (induction ts arbitrary: i) (auto split: nat.splits)

lemma tally_points_total:
  assumes "tally_points to_ms s step n c points ts = Some ts'" and "0 < n" and "length ts = nat n"
  shows "length ts' = nat n \<and> sum_list (map tally_total ts') = sum_list (map tally_total ts) + sum_list (map snd points)"
  using assms
proof (induction to_ms s step n c points ts rule: tally_points.induct)
  case (2 to_ms s step n c tp count points ts)
  then obtain ms where ms: "to_ms tp = Some ms" by (auto split: option.splits)
  have "nat (assign_bucket ms s step n) < length ts" using assign_bucket_range [OF 2(3), of ms s step] 2(4) by simp
  with 2 ms show ?case by (auto simp: Let_def total_update)
qed simp

lemma tally_series_total:
  assumes "tally_series to_ms s step n ss ts = Some ts'" and "0 < n" and "length ts = nat n"
  shows "length ts' = nat n \<and> sum_list (map tally_total ts') =
    sum_list (map tally_total ts) + sum_list (map (\<lambda>s. sum_list (map snd (zip (hs_timestamps s) (hs_counts s)))) ss)"
  using assms
proof (induction to_ms s step n ss ts rule: tally_series.induct)
  case (2 to_ms s step n x ss ts)
  then obtain t where "tally_points to_ms s step n (coarse_bucket (hs_field_value x)) (zip (hs_timestamps x) (hs_counts x)) ts = Some t"
    by (auto split: option.splits)
  from 2(1) [OF this] tally_points_total [OF this 2(3,4)] this 2(2,3) show ?case by auto
qed simp

lemma bucket_of_time:
  assumes "0 < step" and "0 \<le> i" and "i < n" and "s + i * step \<le> ts" and "ts < s + (i + 1) * step"
  shows "assign_bucket ts s step n = i"
proof -
  have "(ts - s) div step = i" using assms(1,4,5) by (intro int_div_pos_eq [of _ _ _ "ts - s - i * step"]) (simp_all add: algebra_simps)
  with assms show ?thesis by (simp add: assign_bucket_def Let_def)
qed

text \<open>
  The histogram loses no count: it has the announced number of contiguous buckets that reach the end
  of the window, and its totals add up to the counts VictoriaLogs answered; a point inside a bucket is
  counted in that bucket.
\<close>

theorem histogram_conserves_counts:
  assumes "fetch_histogram to_ms hits expr start end_iso buckets = Inr (hist, step)"
    and "to_ms start = Some s" and "to_ms end_iso = Some e"
    and "hits expr start end_iso (str_of_int step @ ''ms'') = Inr series"
  shows "int (length hist) = bucket_count s e step \<and>
    map hb_start_ms hist = map (\<lambda>i. s + int i * step) [0..<length hist] \<and>
    e < s + int (length hist) * step \<and>
    sum_list (map hb_total hist) =
      sum_list (map (\<lambda>x. sum_list (map snd (zip (hs_timestamps x) (hs_counts x)))) series)"
proof -
  define n where n: "n = bucket_count s e step"
  have step: "step = compute_step_ms s e buckets"
    using assms(1-3) by (auto simp: fetch_histogram_def Let_def split: sum.splits option.splits)
  let ?zero = "replicate (nat n) \<lparr>t_error = 0, t_warn = 0, t_info = 0\<rparr>"
  obtain ts where ts: "tally_series to_ms s step n series ?zero = Some ts"
    and hist: "hist = map (\<lambda>i. \<lparr>hb_start_ms = s + int i * step, hb_counts = ts ! i, hb_total = tally_total (ts ! i)\<rparr>) [0..<nat n]"
    using assms n step by (auto simp: fetch_histogram_def Let_def split: option.splits)
  have pos: "0 < n" "0 < step" unfolding n step by (rule count_pos, rule step_pos)
  have total: "length ts = nat n" "sum_list (map tally_total ts) =
      sum_list (map (\<lambda>x. sum_list (map snd (zip (hs_timestamps x) (hs_counts x)))) series)"
    using tally_series_total [OF ts pos(1)] by (simp_all add: tally_total_def sum_list_replicate)
  have "map hb_total hist = map tally_total ts" unfolding hist using total(1) by (intro nth_equalityI) simp_all
  moreover have "e < s + n * step"
  proof (cases "e \<le> s")
    case False
    have "(e - s) div step * step + (e - s) mod step = e - s" "(e - s) mod step < step"
      using pos(2) by (simp_all add: div_mult_mod_eq)
    moreover have "((e - s) div step + 1) * step = (e - s) div step * step + step" by (simp add: distrib_right)
    ultimately have "e - s < ((e - s) div step + 1) * step" by linarith
    with False pos show ?thesis by (simp add: n bucket_count_def Let_def)
  next
    case True
    with pos show ?thesis by (smt (verit) zero_less_mult_iff)
  qed
  ultimately show ?thesis using total(2) pos(1) n by (simp add: hist comp_def)
qed

definition example_series :: "hits_series list" where
  "example_series = [\<lparr>hs_field_value = Some ''err'', hs_timestamps = [''a'', ''b''], hs_counts = [3, 4]\<rparr>]"

definition example_ms :: "string \<Rightarrow> int option" where
  "example_ms s = (if s = ''a'' then Some 0 else if s = ''b'' then Some 700 else if s = ''c'' then Some 1000 else None)"

theorem histogram_conserves_counts_witness:
  "\<exists>hist. fetch_histogram example_ms (\<lambda>_ _ _ _. Inr example_series) ''*'' ''a'' ''c'' 2 = Inr (hist, 500) \<and>
     int (length hist) = bucket_count 0 1000 500 \<and>
     map hb_start_ms hist = map (\<lambda>i. 0 + int i * 500) [0..<length hist] \<and>
     1000 < 0 + int (length hist) * 500 \<and>
     sum_list (map hb_total hist) =
       sum_list (map (\<lambda>x. sum_list (map snd (zip (hs_timestamps x) (hs_counts x)))) example_series)"
proof -
  have "\<exists>hist. fetch_histogram example_ms (\<lambda>_ _ _ _. Inr example_series) ''*'' ''a'' ''c'' 2 = Inr (hist, 500)"
    by (simp add: fetch_histogram_def example_ms_def compute_step_ms_def Let_def bucket_count_def example_series_def)
  then obtain hist where "fetch_histogram example_ms (\<lambda>_ _ _ _. Inr example_series) ''*'' ''a'' ''c'' 2 = Inr (hist, 500)" ..
  from histogram_conserves_counts [OF this, of 0 1000 example_series] this show ?thesis by (simp add: example_ms_def)
qed

end
