(* ===== verification/Tail.thy ===== *)
theory Tail
  imports LogViews "HOL-Library.Product_Lexorder" "HOL-Library.Multiset"
begin

text \<open>
  Live tail (kernel/logs/tail_service.py): the forward cursor that drops the lines an inclusive poll
  window returns again, the registry of connections, and one poll of a session with its backpressure,
  keepalive and retry rules.  Clock readings are a parameter; a poll asks VictoriaLogs through
  \<open>vl_query\<close>.
\<close>

section \<open>The forward cursor\<close>

record forward_cursor =
  last_seen_ns :: int
  n_at_boundary :: nat

definition tail_key :: "int \<times> vl_line \<Rightarrow> int \<times> string \<times> string" where
  "tail_key d = (fst d, ln_message (snd d), ln_stream (snd d))"

fun decorate :: "log_env \<Rightarrow> vl_line list \<Rightarrow> (int \<times> vl_line) list option" where
  "decorate env [] = Some []"
| "decorate env (ln # lns) =
     (case iso_to_ns (other_iso env) (ln_timestamp ln) of
        None \<Rightarrow> None
      | Some ns \<Rightarrow> map_option (Cons (ns, ln)) (decorate env lns))"

text \<open>The emit loop: \<open>skipped\<close> lines at the boundary were dropped so far.\<close>

fun emit_loop :: "forward_cursor \<Rightarrow> nat \<Rightarrow> (int \<times> vl_line) list \<Rightarrow> vl_line list" where
  "emit_loop c skipped [] = []"
| "emit_loop c skipped ((ns, ln) # ds) =
     (if ns < last_seen_ns c then emit_loop c skipped ds
      else if ns = last_seen_ns c then
        (if skipped < n_at_boundary c then emit_loop c (Suc skipped) ds else ln # emit_loop c skipped ds)
      else ln # emit_loop c skipped ds)"

definition advance_sorted :: "forward_cursor \<Rightarrow> (int \<times> vl_line) list \<Rightarrow> vl_line list \<times> forward_cursor" where
  "advance_sorted c decorated =
     (let max_ns = fst (last decorated);
          n_at_max = length (filter (\<lambda>d. fst d = max_ns) decorated);
          emitted = emit_loop c 0 decorated
      in if emitted = [] then ([], c) else (emitted, \<lparr>last_seen_ns = max_ns, n_at_boundary = n_at_max\<rparr>))"

definition advance :: "log_env \<Rightarrow> forward_cursor \<Rightarrow> vl_line list \<Rightarrow> (vl_line list \<times> forward_cursor) option" where
  "advance env c lns =
     (if lns = [] then Some ([], c)
      else map_option (\<lambda>ds. advance_sorted c (sort_key tail_key ds)) (decorate env lns))"

section \<open>The registry\<close>

record tail_registry =
  tr_max :: int
  tr_active :: int

definition new_registry :: "int \<Rightarrow> tail_registry" where
  "new_registry m = \<lparr>tr_max = m, tr_active = 0\<rparr>"

definition tail_acquire :: "tail_registry \<Rightarrow> bool \<times> tail_registry" where
  "tail_acquire r = (if tr_active r \<ge> tr_max r then (False, r) else (True, r\<lparr>tr_active := tr_active r + 1\<rparr>))"

definition tail_release :: "tail_registry \<Rightarrow> tail_registry" where
  "tail_release r = (if tr_active r > 0 then r\<lparr>tr_active := tr_active r - 1\<rparr> else r)"

section \<open>A poll of a session\<close>

datatype tail_event =
    LineEvent log_line
  | DroppedEvent int
  | ErrorEvent string string
  | KeepaliveEvent

record tail_config =
  tc_max_lines_per_sec :: int
  tc_max_duration_s :: int

record tail_state =
  ts_cursor :: forward_cursor
  ts_failures :: nat
  ts_last_emit :: datetime
  ts_window_start :: datetime
  ts_emitted :: int
  ts_ticks :: nat

definition vl_error_backoff_s :: int where
  "vl_error_backoff_s = 10"

definition max_consecutive_failures :: nat where
  "max_consecutive_failures = 5"

definition keepalive_idle_us :: int where
  "keepalive_idle_us = 30 * 1000000"

text \<open>Microseconds from one reading of the clock to another.\<close>

definition elapsed_us :: "datetime \<Rightarrow> datetime \<Rightarrow> int" where
  "elapsed_us later earlier = int (instant later) - int (instant earlier)"

fun error_text :: "log_error \<Rightarrow> string" where
  "error_text (VlClientError m _) = m"
| "error_text (InvalidCursor m) = m"
| "error_text PyValueError = []"

text \<open>
  The line cap: over budget the newest lines are kept and the surplus is announced.  \<open>clk\<close> gives the
  readings of the clock; \<open>ts_ticks\<close> counts them.
\<close>

definition read_clock :: "(nat \<Rightarrow> datetime) \<Rightarrow> tail_state \<Rightarrow> datetime \<times> tail_state" where
  "read_clock clk st = (clk (ts_ticks st), st\<lparr>ts_ticks := Suc (ts_ticks st)\<rparr>)"

definition note_emit :: "(nat \<Rightarrow> datetime) \<Rightarrow> tail_state \<Rightarrow> tail_state" where
  "note_emit clk st = (let (now, st') = read_clock clk st in st'\<lparr>ts_last_emit := now\<rparr>)"

fun emit_lines :: "(nat \<Rightarrow> datetime) \<Rightarrow> vl_line list \<Rightarrow> tail_state \<Rightarrow> tail_event list \<times> tail_state" where
  "emit_lines clk [] st = ([], st)"
| "emit_lines clk (ln # lns) st =
     (let (evs, st') = emit_lines clk lns (note_emit clk (st\<lparr>ts_emitted := ts_emitted st + 1\<rparr>))
      in (LineEvent (from_victorialogs_line ln) # evs, st'))"

definition reset_window :: "datetime \<Rightarrow> tail_state \<Rightarrow> tail_state" where
  "reset_window now st =
     (if elapsed_us now (ts_window_start st) \<ge> 1000000 then st\<lparr>ts_window_start := now, ts_emitted := 0\<rparr> else st)"

definition apply_cap :: "(nat \<Rightarrow> datetime) \<Rightarrow> tail_config \<Rightarrow> vl_line list \<Rightarrow> tail_state \<Rightarrow>
    tail_event list \<times> vl_line list \<times> tail_state" where
  "apply_cap clk cfg lns st =
     (let remaining = nat (max (tc_max_lines_per_sec cfg - ts_emitted st) 0) in
      if remaining < length lns then
        (let surplus = length lns - remaining in
         ([DroppedEvent (int surplus)], drop surplus lns, note_emit clk st))
      else ([], lns, st))"

definition keepalive :: "(nat \<Rightarrow> datetime) \<Rightarrow> tail_state \<Rightarrow> tail_event list \<times> tail_state" where
  "keepalive clk st =
     (let (now, st') = read_clock clk st in
      if elapsed_us now (ts_last_emit st') \<ge> keepalive_idle_us then ([KeepaliveEvent], note_emit clk st') else ([], st'))"

text \<open>
  One turn of the loop after the sleep: the events yielded, and the next state or None when the stream
  closes.  The outer error is an exception that leaves the generator.
\<close>

definition tail_poll ::
  "log_env \<Rightarrow> (nat \<Rightarrow> datetime) \<Rightarrow> tail_config \<Rightarrow> vl_limits \<Rightarrow> string \<Rightarrow> datetime \<Rightarrow> tail_state \<Rightarrow>
     log_error + tail_event list \<times> tail_state option" where
  "tail_poll env clk cfg lim expr started st =
     (let (now, st1) = read_clock clk st in
      if elapsed_us now started \<ge> tc_max_duration_s cfg * 1000000 then Inr ([], None)
      else
        (case ns_to_iso (last_seen_ns (ts_cursor st1)) of
           None \<Rightarrow> Inl PyValueError
         | Some start_iso \<Rightarrow>
             (case vl_query env lim expr start_iso (utc_now_iso now) of
                Inl e \<Rightarrow>
                  (let st2 = st1\<lparr>ts_failures := Suc (ts_failures st1)\<rparr>; ev = ErrorEvent ''vl_unavailable'' (error_text e)
                   in if ts_failures st2 \<ge> max_consecutive_failures then Inr ([ev], None)
                      else Inr ([ev], Some (note_emit clk st2)))
              | Inr res \<Rightarrow>
                  (case advance env (ts_cursor st1) (vr_lines res) of
                     None \<Rightarrow> Inl PyValueError
                   | Some (lns, cursor) \<Rightarrow>
                       (let st2 = reset_window now (st1\<lparr>ts_failures := 0, ts_cursor := cursor\<rparr>);
                            (dropped, kept, st3) = apply_cap clk cfg lns st2;
                            (shown, st4) = emit_lines clk kept st3;
                            (idle, st5) = keepalive clk st4
                        in Inr (dropped @ shown @ idle, Some st5))))))"

text \<open>A stream of at most \<open>n\<close> polls: its events, and whether it was closed.\<close>

fun tail_polls ::
  "log_env \<Rightarrow> (nat \<Rightarrow> datetime) \<Rightarrow> tail_config \<Rightarrow> vl_limits \<Rightarrow> string \<Rightarrow> datetime \<Rightarrow> nat \<Rightarrow> tail_state \<Rightarrow>
     log_error + tail_event list \<times> bool" where
  "tail_polls env clk cfg lim expr started 0 st = Inr ([], False)"
| "tail_polls env clk cfg lim expr started (Suc n) st =
     (case tail_poll env clk cfg lim expr started st of
        Inl e \<Rightarrow> Inl e
      | Inr (evs, None) \<Rightarrow> Inr (evs, True)
      | Inr (evs, Some st') \<Rightarrow>
          (case tail_polls env clk cfg lim expr started n st' of
             Inl e \<Rightarrow> Inl e
           | Inr (evs', closed) \<Rightarrow> Inr (evs @ evs', closed)))"

section \<open>The cursor emits what is new\<close>

definition key_sorted :: "(int \<times> vl_line) list \<Rightarrow> bool" where
  "key_sorted ds \<longleftrightarrow> sorted (map tail_key ds)"

lemma key_sorted_ns: "key_sorted ds \<Longrightarrow> sorted (map fst ds)"
proof -
  have mono: "fst x \<le> fst y" if "tail_key x \<le> tail_key y" for x y :: "int \<times> vl_line"
    using that by (auto simp: tail_key_def less_eq_prod_def)
  show "key_sorted ds \<Longrightarrow> sorted (map fst ds)"
    unfolding key_sorted_def by (induction ds) (auto simp: mono)
qed

lemma emit_loop_newer: "\<forall>d \<in> set ds. last_seen_ns c < fst d \<Longrightarrow> emit_loop c k ds = map snd ds"
  by (induction ds arbitrary: k) auto

lemma emit_loop_boundary:
  assumes "\<forall>d \<in> set bs. fst d = last_seen_ns c" and "k + length bs = n_at_boundary c"
  shows "emit_loop c k (bs @ ds) = emit_loop c (n_at_boundary c) ds"
  using assms by (induction bs arbitrary: k) auto

lemma emit_loop_rest:
  "\<forall>d \<in> set ds. last_seen_ns c \<le> fst d \<Longrightarrow> emit_loop c (n_at_boundary c) ds = map snd ds"
  by (induction ds) auto

text \<open>
  The state of the cursor after the lines \<open>seen\<close>, in the order of their keys: it names the last time and
  how many lines carry it.
\<close>

definition cursor_after :: "int \<Rightarrow> (int \<times> vl_line) list \<Rightarrow> forward_cursor" where
  "cursor_after anchor seen =
     (if seen = [] then \<lparr>last_seen_ns = anchor, n_at_boundary = 0\<rparr>
      else \<lparr>last_seen_ns = fst (last seen), n_at_boundary = length (filter (\<lambda>d. fst d = fst (last seen)) seen)\<rparr>)"

lemma sorted_last: "sorted (map fst ds) \<Longrightarrow> d \<in> set ds \<Longrightarrow> fst d \<le> (fst (last ds) :: int)"
  by (induction ds) (auto split: if_splits)

lemma window_split:
  assumes "key_sorted (seen @ new)" and "seen \<noteq> []"
  shows "filter (\<lambda>d. fst (last seen) \<le> fst d) (seen @ new) = filter (\<lambda>d. fst d = fst (last seen)) seen @ new"
proof -
  have s: "sorted (map fst seen @ map fst new)" using key_sorted_ns [OF assms(1)] by simp
  then have "fst d \<le> fst (last seen)" if "d \<in> set seen" for d using that sorted_last [of seen d] by (simp add: sorted_append)
  then have "filter (\<lambda>d. fst (last seen) \<le> fst d) seen = filter (\<lambda>d. fst d = fst (last seen)) seen"
    by (force intro: filter_cong)
  moreover have "fst (last seen) \<le> fst d" if "d \<in> set new" for d
    using s that last_in_set [OF assms(2)] by (auto simp: sorted_append)
  then have "filter (\<lambda>d. fst (last seen) \<le> fst d) new = new" by (simp add: filter_id_conv)
  ultimately show ?thesis by simp
qed

lemma advance_sorted_new:
  assumes "key_sorted (seen @ new)" and "seen = [] \<Longrightarrow> \<forall>d \<in> set new. anchor \<le> fst d" and that: "new \<noteq> []"
  shows "advance_sorted (cursor_after anchor seen)
      (filter (\<lambda>d. last_seen_ns (cursor_after anchor seen) \<le> fst d) (seen @ new)) =
    (map snd new, cursor_after anchor (seen @ new))"
proof (cases "seen = []")
  case True
  with assms(2) have "filter (\<lambda>d. anchor \<le> fst d) new = new" by (simp add: filter_id_conv)
  moreover have "emit_loop \<lparr>last_seen_ns = anchor, n_at_boundary = 0\<rparr> 0 new = map snd new"
    using emit_loop_rest [of new "\<lparr>last_seen_ns = anchor, n_at_boundary = 0\<rparr>"] assms(2) True by simp
  ultimately show ?thesis using True that by (simp add: cursor_after_def advance_sorted_def Let_def)
next
  case False
  let ?c = "cursor_after anchor seen" and ?b = "filter (\<lambda>d. fst d = fst (last seen)) seen"
  have c: "last_seen_ns ?c = fst (last seen)" "n_at_boundary ?c = length ?b" using False by (simp_all add: cursor_after_def)
  have ge: "\<forall>d \<in> set new. last_seen_ns ?c \<le> fst d"
    using key_sorted_ns [OF assms(1)] last_in_set [OF False] by (auto simp: c sorted_append)
  have "emit_loop ?c 0 (?b @ new) = map snd new"
    using emit_loop_boundary [of ?b ?c 0 new] emit_loop_rest [OF ge] c by simp
  moreover have "length (filter (\<lambda>d. fst d = fst (last new)) (?b @ new)) = length (filter (\<lambda>d. fst d = fst (last new)) (seen @ new))"
  proof (cases "fst (last new) = fst (last seen)")
    case True
    then show ?thesis by simp
  next
    case n: False
    have "fst (last seen) < fst (last new)" using n ge c(1) last_in_set [OF that] by fastforce
    moreover have "fst d \<le> fst (last seen)" if "d \<in> set seen" for d
      using that sorted_last [of seen d] key_sorted_ns [OF assms(1)] by (simp add: sorted_append)
    ultimately have "filter (\<lambda>d. fst d = fst (last new)) seen = []" "filter (\<lambda>d. fst d = fst (last new)) ?b = []"
      by (force simp: filter_empty_conv)+
    then show ?thesis by simp
  qed
  ultimately show ?thesis
    unfolding advance_sorted_def Let_def c(1) window_split [OF assms(1) False]
    using that False by (simp add: cursor_after_def)
qed

lemma advance_sorted_nothing:
  assumes "key_sorted seen" and "seen \<noteq> []"
  shows "advance_sorted (cursor_after anchor seen) (filter (\<lambda>d. last_seen_ns (cursor_after anchor seen) \<le> fst d) seen) =
    ([], cursor_after anchor seen)"
proof -
  let ?c = "cursor_after anchor seen" and ?b = "filter (\<lambda>d. fst d = fst (last seen)) seen"
  have c: "last_seen_ns ?c = fst (last seen)" "n_at_boundary ?c = length ?b" using assms(2) by (simp_all add: cursor_after_def)
  have "emit_loop ?c 0 ?b = []" using emit_loop_boundary [of ?b ?c 0 "[]"] c by simp
  then show ?thesis
    using window_split [of seen "[]"] assms unfolding advance_sorted_def Let_def c(1) by simp
qed

section \<open>Polls of a growing log\<close>

fun advance_all :: "log_env \<Rightarrow> forward_cursor \<Rightarrow> vl_line list list \<Rightarrow> vl_line list option" where
  "advance_all env c [] = Some []"
| "advance_all env c (p # ps) =
     (case advance env c p of
        None \<Rightarrow> None
      | Some (emitted, c') \<Rightarrow> map_option (append emitted) (advance_all env c' ps))"

text \<open>
  The log grows by batches that sort after what is there; each poll returns, in any order, the lines of
  its inclusive window.
\<close>

fun answers :: "int \<Rightarrow> (int \<times> vl_line) list \<Rightarrow> (int \<times> vl_line) list list \<Rightarrow> vl_line list list \<Rightarrow> bool" where
  "answers anchor seen [] [] \<longleftrightarrow> True"
| "answers anchor seen (b # bs) (p # ps) \<longleftrightarrow>
     mset p = mset (map snd (filter (\<lambda>d. last_seen_ns (cursor_after anchor seen) \<le> fst d) (seen @ b))) \<and>
     answers anchor (seen @ b) bs ps"
| "answers anchor seen _ _ \<longleftrightarrow> False"

definition tail_line :: "log_env \<Rightarrow> int \<Rightarrow> int \<times> vl_line \<Rightarrow> bool" where
  "tail_line env anchor d \<longleftrightarrow> iso_to_ns (other_iso env) (ln_timestamp (snd d)) = Some (fst d) \<and> anchor \<le> fst d"

lemma decorate_lines:
  "\<forall>d \<in> set ds. tail_line env anchor d \<Longrightarrow> mset p = mset (map snd ds) \<Longrightarrow>
     \<exists>ds'. decorate env p = Some ds' \<and> mset ds' = mset ds"
proof -
  assume ds: "\<forall>d \<in> set ds. tail_line env anchor d" and p: "mset p = mset (map snd ds)"
  define ns where "ns ln = the (iso_to_ns (other_iso env) (ln_timestamp ln))" for ln :: vl_line
  have pair: "(ns (snd d), snd d) = d" if "d \<in> set ds" for d using ds that by (auto simp: ns_def tail_line_def prod_eq_iff)
  have "iso_to_ns (other_iso env) (ln_timestamp ln) = Some (ns ln)" if "ln \<in> set p" for ln
    using that mset_eq_setD [OF p] ds by (auto simp: ns_def tail_line_def)
  then have "decorate env p = Some (map (\<lambda>ln. (ns ln, ln)) p)" by (induction p) auto
  moreover have "mset (map (\<lambda>ln. (ns ln, ln)) p) = mset ds"
  proof -
    have "mset (map (\<lambda>ln. (ns ln, ln)) p) = image_mset (\<lambda>ln. (ns ln, ln)) (mset (map snd ds))" unfolding mset_map [of "\<lambda>ln. (ns ln, ln)" p] p ..
    also have "\<dots> = image_mset (\<lambda>d. (ns (snd d), snd d)) (mset ds)" by (simp add: image_mset.compositionality comp_def)
    also have "\<dots> = image_mset id (mset ds)" by (rule image_mset_cong) (use pair in auto)
    finally show ?thesis by simp
  qed
  ultimately show ?thesis by blast
qed

lemma sort_key_unique:
  assumes "mset ds' = mset ds" and "key_sorted ds" and "inj_on tail_key (set ds)"
  shows "sort_key tail_key ds' = ds"
proof -
  have "map tail_key (sort_key tail_key ds') = map tail_key ds"
  proof -
    have "sort (map tail_key ds') = map tail_key ds"
      by (rule properties_for_sort) (use assms(1,2) in \<open>simp_all add: key_sorted_def\<close>)
    moreover have "sort (map tail_key ds') = map tail_key (sort_key tail_key ds')"
      by (rule properties_for_sort) simp_all
    ultimately show ?thesis by simp
  qed
  moreover have "set (sort_key tail_key ds') = set ds" using mset_eq_setD [OF assms(1)] by simp
  ultimately show ?thesis using assms(3) by (intro map_inj_on [of tail_key]) simp_all
qed

lemma advance_poll:
  assumes sorted: "key_sorted (seen @ b)" and inj: "inj_on tail_key (set (seen @ b))"
    and lines: "\<forall>d \<in> set (seen @ b). tail_line env anchor d"
    and p: "mset p = mset (map snd (filter (\<lambda>d. last_seen_ns (cursor_after anchor seen) \<le> fst d) (seen @ b)))"
  shows "advance env (cursor_after anchor seen) p = Some (map snd b, cursor_after anchor (seen @ b))"
proof -
  let ?win = "filter (\<lambda>d. last_seen_ns (cursor_after anchor seen) \<le> fst d) (seen @ b)"
  obtain ds where ds: "decorate env p = Some ds" "mset ds = mset ?win"
    using decorate_lines [OF _ p] lines by (metis filter_is_subset subsetD)
  have "key_sorted ?win" using sorted unfolding key_sorted_def by (rule sorted_filter)
  moreover have "inj_on tail_key (set ?win)" using inj by (rule inj_on_subset) auto
  ultimately have sorted_ds: "sort_key tail_key ds = ?win" by (rule sort_key_unique [OF ds(2)])
  show ?thesis
  proof (cases "b = []")
    case b: False
    have win: "advance_sorted (cursor_after anchor seen) ?win = (map snd b, cursor_after anchor (seen @ b))"
      by (rule advance_sorted_new [OF sorted _ b]) (use lines in \<open>simp add: tail_line_def\<close>)
    have "?win \<noteq> []"
    proof
      assume "?win = []"
      with win b show False by (simp add: advance_sorted_def Let_def split: if_splits)
    qed
    then have "p \<noteq> []" using p by (metis mset.simps(1) mset_zero_iff map_is_Nil_conv)
    with ds(1) sorted_ds win show ?thesis by (simp add: advance_def)
  next
    case b: True
    show ?thesis
    proof (cases "seen = []")
      case True
      with b p show ?thesis by (simp add: advance_def)
    next
      case False
      have "last seen \<in> set ?win" using last_in_set [OF False] False by (simp add: cursor_after_def)
      then have "p \<noteq> []" using p by (metis list.set(1) mset_zero_iff empty_iff map_is_Nil_conv)
      then show ?thesis
        using ds(1) sorted_ds advance_sorted_nothing [of seen anchor] sorted False b by (simp add: advance_def)
    qed
  qed
qed

lemma advance_all_from:
  assumes "answers anchor seen bs ps" and "key_sorted (seen @ concat bs)" and "inj_on tail_key (set (seen @ concat bs))"
    and "\<forall>d \<in> set (seen @ concat bs). tail_line env anchor d"
  shows "advance_all env (cursor_after anchor seen) ps = Some (map snd (concat bs))"
  using assms
proof (induction anchor seen bs ps rule: answers.induct)
  case (2 anchor seen b bs p ps)
  have "key_sorted (seen @ b)" using 2(3) by (auto simp: key_sorted_def sorted_append)
  moreover have "inj_on tail_key (set (seen @ b))" using 2(4) by (rule inj_on_subset) auto
  moreover have "\<forall>d \<in> set (seen @ b). tail_line env anchor d" using 2(5) by auto
  ultimately have "advance env (cursor_after anchor seen) p = Some (map snd b, cursor_after anchor (seen @ b))"
    using 2(2) by (intro advance_poll) simp_all
  moreover have "advance_all env (cursor_after anchor (seen @ b)) ps = Some (map snd (concat bs))"
    using 2 by simp
  ultimately show ?case by simp
qed simp_all


text \<open>
  A line that arrives late with the time of the last line shown, and whose message sorts before it, is
  never shown: the cursor drops it as already emitted and shows the other line a second time.
\<close>

lemma late_line_is_lost:
  assumes "ln_message late < ln_message shown"
  shows "sort_key tail_key [(ns, shown), (ns, late)] = [(ns, late), (ns, shown)]"
    and "advance_sorted \<lparr>last_seen_ns = ns, n_at_boundary = 1\<rparr> [(ns, late), (ns, shown)] =
      ([shown], \<lparr>last_seen_ns = ns, n_at_boundary = 2\<rparr>)"
proof -
  show "sort_key tail_key [(ns, shown), (ns, late)] = [(ns, late), (ns, shown)]"
    using assms by (auto simp: tail_key_def less_eq_prod_def)
qed (simp add: advance_sorted_def Let_def)

section \<open>Bounds of a session\<close>

definition shown_lines :: "tail_event list \<Rightarrow> int" where
  "shown_lines evs = int (length (filter (\<lambda>e. case e of LineEvent _ \<Rightarrow> True | _ \<Rightarrow> False) evs))"

definition dropped_lines :: "tail_event list \<Rightarrow> int" where
  "dropped_lines evs = sum_list (map (\<lambda>e. case e of DroppedEvent n \<Rightarrow> n | _ \<Rightarrow> 0) evs)"

lemma event_counts [simp]:
  "shown_lines [] = 0" "dropped_lines [] = 0"
  "shown_lines (xs @ ys) = shown_lines xs + shown_lines ys" "dropped_lines (xs @ ys) = dropped_lines xs + dropped_lines ys"
  "shown_lines (LineEvent l # es) = 1 + shown_lines es" "dropped_lines (LineEvent l # es) = dropped_lines es"
  "shown_lines [DroppedEvent n] = 0" "dropped_lines [DroppedEvent n] = n"
  "shown_lines [KeepaliveEvent] = 0" "dropped_lines [KeepaliveEvent] = 0"
  by (simp_all add: shown_lines_def dropped_lines_def)

lemma note_emit_fields [simp]:
  "ts_emitted (note_emit clk st) = ts_emitted st" "ts_failures (note_emit clk st) = ts_failures st"
  "ts_cursor (note_emit clk st) = ts_cursor st"
  by (simp_all add: note_emit_def read_clock_def)

lemma emit_lines_counts:
  "emit_lines clk lns st = (evs, st') \<Longrightarrow>
     shown_lines evs = int (length lns) \<and> dropped_lines evs = 0 \<and> ts_emitted st' = ts_emitted st + int (length lns) \<and>
     ts_cursor st' = ts_cursor st"
proof (induction clk lns st arbitrary: evs st' rule: emit_lines.induct)
  case (2 clk ln lns st)
  obtain evs1 st1 where "emit_lines clk lns (note_emit clk (st\<lparr>ts_emitted := ts_emitted st + 1\<rparr>)) = (evs1, st1)" by fastforce
  with 2 show ?case by fastforce
qed simp

lemma keepalive_counts:
  "keepalive clk st = (evs, st') \<Longrightarrow> shown_lines evs = 0 \<and> dropped_lines evs = 0 \<and> ts_emitted st' = ts_emitted st \<and>
     ts_cursor st' = ts_cursor st"
  by (auto simp: keepalive_def read_clock_def split: if_splits)

lemma apply_cap_counts:
  assumes "apply_cap clk cfg lns st = (evs, kept, st')"
  shows "shown_lines evs = 0 \<and> dropped_lines evs + int (length kept) = int (length lns) \<and> ts_cursor st' = ts_cursor st \<and>
    ts_emitted st' = ts_emitted st \<and> int (length kept) \<le> max (tc_max_lines_per_sec cfg - ts_emitted st) 0 \<and>
    kept = drop (length lns - length kept) lns"
  using assms by (auto simp: apply_cap_def Let_def split: if_splits)

text \<open>
  The backpressure of a live tail: within one budget second a stream shows no more than the
  configured number of lines, and every line the cursor gave is either shown or counted in a
  DroppedEvent, the newest being the ones shown.
\<close>

theorem tail_budget_kept:
  assumes "tail_poll env clk cfg lim expr started st = Inr (evs, Some st')"
    and "vl_query env lim expr start_iso (utc_now_iso (clk (ts_ticks st))) = Inr res"
    and "ns_to_iso (last_seen_ns (ts_cursor st)) = Some start_iso"
    and "advance env (ts_cursor st) (vr_lines res) = Some (lns, cursor)"
    and "ts_emitted st \<le> tc_max_lines_per_sec cfg" and "0 \<le> tc_max_lines_per_sec cfg"
  shows "shown_lines evs + dropped_lines evs = int (length lns) \<and> ts_emitted st' \<le> tc_max_lines_per_sec cfg \<and>
    ts_emitted st' = shown_lines evs +
      (if elapsed_us (clk (ts_ticks st)) (ts_window_start st) \<ge> 1000000 then 0 else ts_emitted st) \<and>
    ts_cursor st' = cursor"
proof -
  define now where "now = clk (ts_ticks st)"
  define st1 where "st1 = st\<lparr>ts_ticks := Suc (ts_ticks st)\<rparr>"
  define st2 where "st2 = reset_window now (st1\<lparr>ts_failures := 0, ts_cursor := cursor\<rparr>)"
  obtain dropped kept st3 where cap: "apply_cap clk cfg lns st2 = (dropped, kept, st3)" by (metis prod_cases3)
  obtain shown st4 where em: "emit_lines clk kept st3 = (shown, st4)" by fastforce
  obtain idle st5 where ka: "keepalive clk st4 = (idle, st5)" by fastforce
  have open_stream: "\<not> elapsed_us now started \<ge> tc_max_duration_s cfg * 1000000"
    using assms(1) by (auto simp: tail_poll_def read_clock_def now_def)
  have "tail_poll env clk cfg lim expr started st = Inr (dropped @ shown @ idle, Some st5)"
    using open_stream assms(2-4) cap unfolding now_def st2_def st1_def
    by (simp add: tail_poll_def read_clock_def em ka)
  with assms(1) have r: "evs = dropped @ shown @ idle" "st' = st5" by simp_all
  have emitted: "ts_emitted st2 = (if elapsed_us now (ts_window_start st) \<ge> 1000000 then 0 else ts_emitted st)"
    "ts_cursor st2 = cursor"
    by (simp_all add: st2_def st1_def reset_window_def)
  note c = apply_cap_counts [OF cap] emit_lines_counts [OF em] keepalive_counts [OF ka]
  have "ts_emitted st2 \<le> tc_max_lines_per_sec cfg" using assms(5,6) emitted by simp
  with c emitted show ?thesis by (auto simp: r now_def)
qed

lemma failing_poll:
  assumes "\<And>s e. \<exists>err. vl_query env lim expr s e = Inl err" and "ns_to_iso (last_seen_ns (ts_cursor st)) \<noteq> None"
  shows "(\<exists>evs. tail_poll env clk cfg lim expr started st = Inr (evs, None) \<and> length evs \<le> 1) \<or>
    (\<exists>ev st'. tail_poll env clk cfg lim expr started st = Inr ([ev], Some st') \<and> ts_failures st' = Suc (ts_failures st) \<and>
       ts_cursor st' = ts_cursor st \<and> Suc (ts_failures st) < max_consecutive_failures)"
proof -
  obtain s where s: "ns_to_iso (last_seen_ns (ts_cursor st)) = Some s" using assms(2) by blast
  obtain err where "vl_query env lim expr s (utc_now_iso (clk (ts_ticks st))) = Inl err" using assms(1) by blast
  with s show ?thesis by (simp add: tail_poll_def read_clock_def Let_def)
qed

lemma failing_polls:
  assumes "\<And>s e. \<exists>err. vl_query env lim expr s e = Inl err"
  shows "ns_to_iso (last_seen_ns (ts_cursor st)) \<noteq> None \<Longrightarrow> ts_failures st < max_consecutive_failures \<Longrightarrow>
    max_consecutive_failures - ts_failures st \<le> n \<Longrightarrow>
    \<exists>evs. tail_polls env clk cfg lim expr started n st = Inr (evs, True) \<and> length evs \<le> max_consecutive_failures - ts_failures st"
proof (induction n arbitrary: st)
  case (Suc n)
  from failing_poll [OF assms Suc.prems(1), of clk cfg started] show ?case
  proof (elim disjE exE conjE)
    fix evs assume "tail_poll env clk cfg lim expr started st = Inr (evs, None)" "length evs \<le> 1"
    with Suc.prems(2) show ?thesis by auto
  next
    fix ev st' assume st': "tail_poll env clk cfg lim expr started st = Inr ([ev], Some st')"
      "ts_failures st' = Suc (ts_failures st)" "ts_cursor st' = ts_cursor st" "Suc (ts_failures st) < max_consecutive_failures"
    then obtain evs where "tail_polls env clk cfg lim expr started n st' = Inr (evs, True)"
      "length evs \<le> max_consecutive_failures - ts_failures st'"
      using Suc.IH [of st'] Suc.prems by fastforce
    with st' Suc.prems(2) show ?thesis by fastforce
  qed
qed simp

text \<open>
  A stream does not outlive a dead VictoriaLogs: when every query fails, a session closes itself
  after at most five polls with at most five error events, whatever the clock says.
\<close>

theorem tail_ends_without_backend:
  assumes "\<And>s e. \<exists>err. vl_query env lim expr s e = Inl err" and "ns_to_iso (last_seen_ns (ts_cursor st)) \<noteq> None"
    and "ts_failures st = 0"
  shows "\<exists>evs. tail_polls env clk cfg lim expr started 5 st = Inr (evs, True) \<and> length evs \<le> 5"
  using failing_polls [OF assms(1), of st 5 clk cfg started] assms(2,3) by (simp add: max_consecutive_failures_def)

text \<open>The registry never gives out more slots than configured.\<close>

lemma registry_bounded:
  assumes "0 \<le> tr_active r \<and> tr_active r \<le> max (tr_max r) 0"
  shows "0 \<le> tr_active (snd (tail_acquire r)) \<and> tr_active (snd (tail_acquire r)) \<le> max (tr_max r) 0"
    and "fst (tail_acquire r) \<longleftrightarrow> tr_active r < tr_max r"
    and "0 \<le> tr_active (tail_release r) \<and> tr_active (tail_release r) \<le> max (tr_max r) 0"
    and "fst (tail_acquire r) \<Longrightarrow> tail_release (snd (tail_acquire r)) = r"
  using assms by (auto simp: tail_acquire_def tail_release_def)

section \<open>Examples\<close>

definition noon :: datetime where
  "noon = DT 2024 5 1 12 0 0 0"

definition start_state :: tail_state where
  "start_state = \<lparr>ts_cursor = \<lparr>last_seen_ns = 0, n_at_boundary = 0\<rparr>, ts_failures = 0, ts_last_emit = noon,
     ts_window_start = noon, ts_emitted = 0, ts_ticks = 0\<rparr>"

definition down_env :: log_env where
  "down_env = \<lparr>vl_get = (\<lambda>_ _ _ _. Inl ''refused''), loads = (\<lambda>_. None), loads_bytes = (\<lambda>_. None), py_str = (\<lambda>_. []),
     other_iso = (\<lambda>_. None)\<rparr>"

theorem tail_ends_without_backend_witness:
  "\<exists>evs. tail_polls down_env (\<lambda>_. noon) \<lparr>tc_max_lines_per_sec = 200, tc_max_duration_s = 3600\<rparr>
      \<lparr>max_lines = 10, max_bytes = 100\<rparr> ''*'' noon 5 start_state = Inr (evs, True) \<and> length evs \<le> 5"
proof (rule tail_ends_without_backend)
  show "ns_to_iso (last_seen_ns (ts_cursor start_state)) \<noteq> None"
    using iso_ns_roundtrip [of 0] by (auto simp: start_state_def max_epoch_s_def)
qed (simp_all add: vl_query_def down_env_def start_state_def)

definition tail_example_line :: "string \<Rightarrow> vl_line" where
  "tail_example_line m = \<lparr>ln_timestamp = the (ns_to_iso 7), ln_message = m, ln_stream = [], ln_fields = []\<rparr>"


definition quiet_env :: log_env where
  "quiet_env = \<lparr>vl_get = (\<lambda>_ _ _ _. Inr (200, [])), loads = (\<lambda>_. None), loads_bytes = (\<lambda>_. None), py_str = (\<lambda>_. []),
     other_iso = (\<lambda>_. None)\<rparr>"

theorem tail_budget_kept_witness:
  "\<exists>evs st'. tail_poll quiet_env (\<lambda>_. noon) \<lparr>tc_max_lines_per_sec = 200, tc_max_duration_s = 3600\<rparr>
      \<lparr>max_lines = 10, max_bytes = 100\<rparr> ''*'' noon start_state = Inr (evs, Some st') \<and>
    shown_lines evs + dropped_lines evs = 0 \<and> ts_emitted st' \<le> 200 \<and> ts_emitted st' = shown_lines evs"
proof -
  obtain s where s: "ns_to_iso (last_seen_ns (ts_cursor start_state)) = Some s"
    using iso_ns_roundtrip [of 0] by (auto simp: start_state_def max_epoch_s_def)
  have q: "vl_query quiet_env \<lparr>max_lines = 10, max_bytes = 100\<rparr> ''*'' s e = Inr \<lparr>vr_lines = [], vr_truncated = False\<rparr>" for e
    by (simp add: vl_query_def quiet_env_def parse_ndjson_def splitlines_def)
  obtain evs st' where poll: "tail_poll quiet_env (\<lambda>_. noon) \<lparr>tc_max_lines_per_sec = 200, tc_max_duration_s = 3600\<rparr>
      \<lparr>max_lines = 10, max_bytes = 100\<rparr> ''*'' noon start_state = Inr (evs, Some st')"
    using s q by (simp add: tail_poll_def read_clock_def Let_def start_state_def advance_def elapsed_us_def split_beta)
  have "advance quiet_env (ts_cursor start_state) (vr_lines \<lparr>vr_lines = [], vr_truncated = False\<rparr>) = Some ([], ts_cursor start_state)"
    by (simp add: advance_def)
  from tail_budget_kept [OF poll q s this] show ?thesis
    using poll by (auto simp: start_state_def elapsed_us_def)
qed

end
