(* ===== verification/CronText.thy ===== *)
theory CronText
  imports JsonText
begin

text \<open>
  The texts of a cron: the scrubbing of secrets (kernel/cron/secrets.py), the key that a logged command
  and a crontab line share (kernel/cron/log_match.py), the default name and the identity that is hashed
  (kernel/cron/fingerprint.py) and the dedup key of a log event (kernel/cron/log_event.py).  SHA-256 is a
  parameter.
\<close>

section \<open>Scrubbing\<close>

text \<open>
  \<open>re.sub(PREFIX(\S+), PREFIX<redacted>)\<close>: at each position the first prefix that is followed by a
  letter other than white space; the value runs to the next white space.
\<close>

fun match_value :: "string list \<Rightarrow> string \<Rightarrow> (string \<times> string) option" where
  "match_value [] s = None"
| "match_value (p # ps) s =
     (if take (length p) s = p \<and> drop (length p) s \<noteq> [] \<and> \<not> is_space (hd (drop (length p) s))
      then Some (p, dropWhile (\<lambda>c. \<not> is_space c) (drop (length p) s))
      else match_value ps s)"

lemma value_shorter:
  assumes "drop n s \<noteq> []" and "\<not> is_space (hd (drop n s))"
  shows "length (dropWhile (\<lambda>c. \<not> is_space c) (drop n s)) < length s"
proof -
  obtain c t where t: "drop n s = c # t" using assms(1) by (cases "drop n s") auto
  then have "length (dropWhile (\<lambda>c. \<not> is_space c) (drop n s)) \<le> length t"
    using assms(2) length_dropWhile_le by simp
  also have "length t < length (drop n s)" by (simp add: t)
  finally show ?thesis by simp
qed

lemma match_value_shorter: "match_value ps s = Some (p, r) \<Longrightarrow> length r < length s"
proof (induction ps)
  case (Cons q ps)
  then show ?case using value_shorter [of "length q" s] by (auto simp del: drop_eq_Nil split: if_splits)
qed simp

definition redacted :: string where
  "redacted = ''<redacted>''"

function sub_values :: "string list \<Rightarrow> string \<Rightarrow> string" where
  "sub_values ps [] = []"
| "sub_values ps (c # cs) =
     (case match_value ps (c # cs) of
        None \<Rightarrow> c # sub_values ps cs
      | Some (p, r) \<Rightarrow> p @ redacted @ sub_values ps r)"
  by pat_completeness auto
termination by (relation "measure (\<lambda>(ps, s). length s)") (auto dest: match_value_shorter)

text \<open>\<open>--password\s+(\S+)\<close>\<close>

definition password_flag :: string where
  "password_flag = ''--password''"

definition match_spaced :: "string \<Rightarrow> string option" where
  "match_spaced s =
     (let r = drop (length password_flag) s; v = dropWhile is_space r in
      if take (length password_flag) s = password_flag \<and> r \<noteq> [] \<and> is_space (hd r) \<and> v \<noteq> []
      then Some (dropWhile (\<lambda>c. \<not> is_space c) v) else None)"

lemma match_spaced_shorter: "match_spaced s = Some r \<Longrightarrow> length r < length s"
proof -
  assume m: "match_spaced s = Some r"
  let ?r = "drop (length password_flag) s"
  have "length (dropWhile (\<lambda>c. \<not> is_space c) (dropWhile is_space ?r)) \<le> length ?r"
    using length_dropWhile_le le_trans by blast
  moreover have "length ?r < length s" using m by (auto simp: match_spaced_def Let_def password_flag_def split: if_splits)
  ultimately show ?thesis using m by (auto simp: match_spaced_def Let_def split: if_splits)
qed

function sub_spaced :: "string \<Rightarrow> string" where
  "sub_spaced [] = []"
| "sub_spaced (c # cs) =
     (case match_spaced (c # cs) of
        None \<Rightarrow> c # sub_spaced cs
      | Some r \<Rightarrow> password_flag @ '' '' @ redacted @ sub_spaced r)"
  by pat_completeness auto
termination by (relation "measure length") (auto dest: match_spaced_shorter)

text \<open>\<open>(?<![A-Za-z0-9_-])-p(\S+)\<close>: \<open>prev\<close> is the letter before the position.\<close>

definition flag_context :: "char option \<Rightarrow> bool" where
  "flag_context prev = (case prev of None \<Rightarrow> True | Some c \<Rightarrow> \<not> (is_alnum c \<or> c = CHR ''_'' \<or> c = CHR ''-''))"

function sub_short :: "char option \<Rightarrow> string \<Rightarrow> string" where
  "sub_short prev [] = []"
| "sub_short prev (c # cs) =
     (case (if flag_context prev then match_value [''-p''] (c # cs) else None) of
        None \<Rightarrow> c # sub_short (Some c) cs
      | Some (p, r) \<Rightarrow> p @ redacted @ sub_short (Some CHR ''p'') r)"
  by pat_completeness auto
termination
  by (relation "measure (\<lambda>(prev, s). length s)") (auto dest: match_value_shorter split: if_splits simp del: match_value.simps)

definition scrub_secrets :: "string \<Rightarrow> string" where
  "scrub_secrets command =
     (if command = [] then command
      else sub_values [''--token='']
             (sub_values [''--api-key='', ''--apikey='']
               (sub_values [''MYSQL_PWD='', ''PGPASSWORD='']
                 (sub_short None (sub_spaced (sub_values [''--password=''] command))))))"

section \<open>Names and keys\<close>

text \<open>\<open>s.split()\<close>\<close>

fun words_from :: "string \<Rightarrow> string \<Rightarrow> string list" where
  "words_from acc [] = (if acc = [] then [] else [rev acc])"
| "words_from acc (c # cs) =
     (if is_space c then (if acc = [] then words_from [] cs else rev acc # words_from [] cs)
      else words_from (c # acc) cs)"

definition split_words :: "string \<Rightarrow> string list" where
  "split_words s = words_from [] s"

text \<open>\<open>" ".join(s.split())\<close>\<close>

definition collapse :: "string \<Rightarrow> string" where
  "collapse s = join_with '' '' (split_words s)"

text \<open>The depth scan of the inner text: does the outer pair of parentheses enclose all of it?\<close>

fun balanced_from :: "int \<Rightarrow> string \<Rightarrow> bool" where
  "balanced_from depth [] = (depth = 0)"
| "balanced_from depth (c # cs) =
     (if c = CHR ''('' then balanced_from (depth + 1) cs
      else if c = CHR '')'' then (if depth - 1 < 0 then False else balanced_from (depth - 1) cs)
      else balanced_from depth cs)"

definition canonical_log_key :: "string \<Rightarrow> string" where
  "canonical_log_key command =
     (let collapsed = collapse (scrub_secrets command) in
      if 2 \<le> length collapsed \<and> hd collapsed = CHR ''('' \<and> last collapsed = CHR '')'' then
        (let inner = butlast (tl collapsed) in if balanced_from 0 inner then collapse inner else collapsed)
      else collapsed)"

definition shell_wrappers :: "string list" where
  "shell_wrappers =
     [''bash'', ''sh'', ''zsh'', ''ksh'', ''dash'', ''fish'', ''cd'', ''test'', ''['', ''[['', ''command'', ''if'',
      ''then'', ''else'', ''elif'', ''fi'', ''nohup'', ''sudo'', ''env'', ''exec'', ''time'', ''&&'', ''||'', '';'',
      ''|'', ''&'']"

text \<open>\<open>token.rsplit("/", 1)[-1]\<close>\<close>

definition base_name :: "string \<Rightarrow> string" where
  "base_name token = rev (takeWhile (\<lambda>c. c \<noteq> CHR ''/'') (rev token))"

fun first_candidate :: "string list \<Rightarrow> string" where
  "first_candidate [] = ''cron''"
| "first_candidate (token # tokens) =
     (let candidate = base_name token in
      if candidate \<in> set shell_wrappers then first_candidate tokens
      else if take 1 candidate = ''-'' then first_candidate tokens
      else if CHR ''='' \<in> set candidate then first_candidate tokens
      else if candidate = [] \<or> candidate = ''.'' \<or> candidate = ''..'' then first_candidate tokens
      else candidate)"

definition derive_name :: "string \<Rightarrow> string" where
  "derive_name command = (if strip command = [] then ''cron'' else first_candidate (split_words command))"

section \<open>The identity of a cron\<close>

definition json_or_null :: "string option \<Rightarrow> string" where
  "json_or_null x = (case x of None \<Rightarrow> ''null'' | Some s \<Rightarrow> json_text_raw s)"

text \<open>\<open>json.dumps\<close> of the four fields, sorted by key, with \<open>ensure_ascii=False\<close>.\<close>

definition identity_text :: "string \<Rightarrow> string option \<Rightarrow> string \<Rightarrow> string \<Rightarrow> string" where
  "identity_text host source_path schedule command =
     ''{'' @ json_text_raw ''command'' @ '':'' @ json_text_raw command @ '','' @
     json_text_raw ''host'' @ '':'' @ json_text_raw host @ '','' @
     json_text_raw ''schedule'' @ '':'' @ json_text_raw schedule @ '','' @
     json_text_raw ''source_path'' @ '':'' @ json_or_null source_path @ ''}''"

definition cron_fingerprint :: "(string \<Rightarrow> string) \<Rightarrow> string \<Rightarrow> string option \<Rightarrow> string \<Rightarrow> string \<Rightarrow> string" where
  "cron_fingerprint sha256 host source_path schedule command = sha256 (identity_text host source_path schedule command)"

text \<open>
  The identity is faithful: two crons have the same fingerprint exactly when they agree in host,
  source path (an absent path is not the empty one), schedule and command, as far as SHA-256 tells the
  texts apart.
\<close>

lemma json_text_raw_append: "(json_text_raw s = json_text_raw t) = (s = t)"
  using json_text_raw_inject [of s "[]" t "[]"] by simp

lemma identity_inject:
  "identity_text h sp sc c = identity_text h' sp' sc' c' \<longleftrightarrow> h = h' \<and> sp = sp' \<and> sc = sc' \<and> c = c'"
proof -
  have quote: "\<exists>r. json_text_raw s = CHR 0x22 # r" for s by (simp add: json_text_raw_def)
  have "json_or_null sp @ ''}'' = json_or_null sp' @ ''}'' \<longleftrightarrow> sp = sp'"
  proof (cases sp; cases sp')
    fix a b assume "sp = Some a" "sp' = Some b"
    then show ?thesis by (simp add: json_or_null_def json_text_raw_append)
  next
    fix a assume "sp = None" "sp' = Some a"
    then show ?thesis using quote [of a] by (auto simp: json_or_null_def)
  next
    fix a assume "sp = Some a" "sp' = None"
    then show ?thesis using quote [of a] by (auto simp: json_or_null_def)
  qed simp
  then show ?thesis unfolding identity_text_def by (simp only: append_assoc same_append_eq json_text_raw_inject) blast
qed

end
