(* ===== verification/CronStore.thy ===== *)
theory CronStore
  imports AuditLog CronText Limiters LogViews
begin

text \<open>
  The tables of the cron subsystem: the registry \<open>crons\<close>, the heartbeat states, the runs and the claimed
  log cursors, and the rate limiter of the receiver (the row types of kernel/cron/repository.py and kernel/cron/run_repository.py, the
  constraints of the migrations 0008 and 0015).  Timestamps are texts, compared as the queries compare
  them; a duration is a rational number of seconds.
\<close>

section \<open>Rows\<close>

record cron_row =
  cr_fingerprint :: string
  cr_name :: string
  cr_host :: string
  cr_command :: string
  cr_schedule :: string
  cr_schedule_canonical :: "string option"
  cr_cadence :: int
  cr_grace :: int
  cr_enabled :: bool
  cr_last_seen_state :: string
  cr_created_at :: string
  cr_updated_at :: string
  cr_hidden_at :: "string option"
  cr_source_path :: "string option"
  cr_wrapper_last_seen_at :: "string option"
  cr_last_discovered_at :: "string option"
  cr_soft_deleted_at :: "string option"
  cr_log_match_key :: "string option"
  cr_wrapper_installed :: bool
  cr_wrapper_version :: "string option"

record hb_row =
  hb_fingerprint :: string
  hb_state :: string
  hb_last_start_at :: "string option"
  hb_last_ok_at :: "string option"
  hb_last_fail_at :: "string option"
  hb_streak :: int
  hb_expected_next_at :: "string option"
  hb_duration :: "rat option"
  hb_exit_code :: "int option"
  hb_updated_at :: string
  hb_observed_total :: int
  hb_last_observed_at :: "string option"
  hb_logscrape_runs :: int

record cron_run =
  rn_id :: string
  rn_fingerprint :: string
  rn_source :: string
  rn_state :: string
  rn_started_at :: string
  rn_ended_at :: "string option"
  rn_duration :: "rat option"
  rn_exit_code :: "int option"
  rn_window_start :: "string option"
  rn_window_end :: "string option"
  rn_overlapping :: bool
  rn_enriched_at :: "string option"
  rn_line_count :: "int option"
  rn_byte_count :: "int option"
  rn_digest :: "string option"
  rn_anomaly_flags :: string

text \<open>A row of \<open>cron_run_failure_enrichments\<close>; the lines are kept as the list that \<open>lines_json\<close> encodes.\<close>

record failure_row =
  fe_id :: string
  fe_fingerprint :: string
  fe_run_id :: string
  fe_exit_code :: "int option"
  fe_started_at :: "string option"
  fe_ended_at :: "string option"
  fe_lines :: "log_line list"
  fe_truncated :: bool
  fe_degraded :: bool
  fe_window_start :: "string option"
  fe_window_end :: "string option"
  fe_created_at :: string

record cron_store = audit_store +
  t_crons :: "cron_row list"
  t_hb :: "hb_row list"
  t_runs :: "cron_run list"
  t_cursors :: "(string \<times> string) list"
  t_limiter :: cron_limiter
  t_failures :: "failure_row list"

text \<open>
  The environment: SHA-256, the instant of a timestamp text and the text of an instant (microseconds;
  \<open>datetime.fromisoformat\<close> and \<open>isoformat\<close>), whether a timestamp text has no offset, croniter: the
  canonical form of a schedule (None for an InvalidCronExpression) and its mean interval, the text of a
  float, \<open>time.monotonic()\<close> and \<open>json.loads\<close> (None when it raises).
\<close>

record cron_env = "cron_store tenv" +
  sha256 :: "string \<Rightarrow> string"
  text_us :: "string \<Rightarrow> int"
  us_text :: "int \<Rightarrow> string"
  cron_canonical :: "string \<Rightarrow> string option"
  cron_cadence :: "string \<Rightarrow> int"
  is_naive :: "string \<Rightarrow> bool"
  float_text :: "rat \<Rightarrow> string"
  monotonic :: "nat \<Rightarrow> rat"
  json_loads :: "nat list \<Rightarrow> json option"

text \<open>
  What the cron subsystem does outside of its tables: a counter of the metrics writer with its labels; the
  requests of the wrapper installer to the executor on the host, with their id, and the verdicts it reads
  (kernel/cron/cron_apply_ipc.py).
\<close>

datatype cron_op =
    WrapCrontab string string string string
  | UnwrapCrontab string string string
  | WriteWrapperScript string
  | WriteToken string
  | WriteWrapperEnv string

datatype cron_act =
    Counter string "(string \<times> string) list"
  | RequestWritten string "cron_op list"
  | VerdictRead string bool
  | RequestRemoved string

type_synonym 'a cron_prog = "(cron_store, cron_act event, 'a) prog"

section \<open>Statements\<close>

definition find_cron :: "string \<Rightarrow> cron_store \<Rightarrow> cron_row option" where
  "find_cron fp s = List.find (\<lambda>c. cr_fingerprint c = fp) (t_crons s)"

definition on_cron :: "string \<Rightarrow> (cron_row \<Rightarrow> cron_row) \<Rightarrow> cron_store \<Rightarrow> cron_store" where
  "on_cron fp f s = s\<lparr>t_crons := map (\<lambda>c. if cr_fingerprint c = fp then f c else c) (t_crons s)\<rparr>"

definition add_cron :: "cron_row \<Rightarrow> cron_store \<Rightarrow> cron_store" where
  "add_cron c s = s\<lparr>t_crons := t_crons s @ [c]\<rparr>"

definition find_hb :: "string \<Rightarrow> cron_store \<Rightarrow> hb_row option" where
  "find_hb fp s = List.find (\<lambda>h. hb_fingerprint h = fp) (t_hb s)"

text \<open>\<open>INSERT ... ON CONFLICT(cron_fingerprint) DO UPDATE\<close>: \<open>h\<close> on the insert branch, \<open>f\<close> on the conflict.\<close>

definition upsert_hb :: "hb_row \<Rightarrow> (hb_row \<Rightarrow> hb_row) \<Rightarrow> cron_store \<Rightarrow> cron_store" where
  "upsert_hb h f s =
     (if find_hb (hb_fingerprint h) s = None then s\<lparr>t_hb := t_hb s @ [h]\<rparr>
      else s\<lparr>t_hb := map (\<lambda>g. if hb_fingerprint g = hb_fingerprint h then f g else g) (t_hb s)\<rparr>)"

text \<open>Every audit row of the cron subsystem carries the time of its statement.\<close>

definition cron_audit ::
  "cron_env \<Rightarrow> string \<Rightarrow> string \<Rightarrow> json_object option \<Rightarrow> json_object option \<Rightarrow> string option \<Rightarrow> string \<Rightarrow> unit cron_prog" where
  "cron_audit env who what before after ip now = insert_audit env who what before after ip (Some (text_us env now))"

section \<open>Lemmas on the tables\<close>

lemma cron_table_simps [simp]:
  "t_hb (on_cron fp f s) = t_hb s" "t_runs (on_cron fp f s) = t_runs s" "t_cursors (on_cron fp f s) = t_cursors s"
  "t_hb (add_cron c s) = t_hb s" "t_runs (add_cron c s) = t_runs s" "t_cursors (add_cron c s) = t_cursors s"
  "t_crons (upsert_hb h g s) = t_crons s" "t_runs (upsert_hb h g s) = t_runs s" "t_cursors (upsert_hb h g s) = t_cursors s"
  "t_crons (add_audit row s) = t_crons s" "t_hb (add_audit row s) = t_hb s" "t_runs (add_audit row s) = t_runs s"
  "t_cursors (add_audit row s) = t_cursors s" "t_limiter (on_cron fp f s) = t_limiter s"
  "t_limiter (add_cron c s) = t_limiter s" "t_limiter (upsert_hb h g s) = t_limiter s" "t_limiter (add_audit row s) = t_limiter s"
  "t_hb (s\<lparr>t_crons := cs\<rparr>) = t_hb s"
  by (simp_all add: on_cron_def add_cron_def upsert_hb_def add_audit_def)

lemma find_cron_audit [simp]: "find_cron fp (add_audit row s) = find_cron fp s"
  and find_hb_audit [simp]: "find_hb fp (add_audit row s) = find_hb fp s"
  by (simp_all add: find_cron_def find_hb_def)

lemma find_some_key: "List.find P xs = Some c \<Longrightarrow> c \<in> set xs \<and> P c"
  by (induction xs) (auto split: if_splits)

lemma find_append: "List.find P (xs @ ys) = (case List.find P xs of None \<Rightarrow> List.find P ys | Some x \<Rightarrow> Some x)"
  by (induction xs) simp_all

lemma find_none_key: "List.find (\<lambda>c. k c = x) xs = None \<longleftrightarrow> x \<notin> k ` set xs"
  by (induction xs) auto

lemma find_distinct:
  "distinct (map k xs) \<Longrightarrow> c \<in> set xs \<Longrightarrow> List.find (\<lambda>d. k d = k c) xs = Some c"
  by (induction xs) auto

lemma find_map_key:
  assumes "\<And>c. k (f c) = k c"
  shows "List.find (\<lambda>c. k c = x) (map (\<lambda>c. if k c = y then f c else c) xs) =
    (if x = y then map_option f (List.find (\<lambda>c. k c = x) xs) else List.find (\<lambda>c. k c = x) xs)"
  using assms by (induction xs) auto

lemma find_on_cron:
  "(\<And>c. cr_fingerprint (f c) = cr_fingerprint c) \<Longrightarrow>
     find_cron fp' (on_cron fp f s) = (if fp' = fp then map_option f (find_cron fp' s) else find_cron fp' s)"
  by (simp add: find_cron_def on_cron_def find_map_key)

lemma find_cron_Some: "find_cron fp s = Some c \<Longrightarrow> c \<in> set (t_crons s) \<and> cr_fingerprint c = fp"
  unfolding find_cron_def by (rule find_some_key)

lemma find_hb_Some: "find_hb fp s = Some h \<Longrightarrow> h \<in> set (t_hb s) \<and> hb_fingerprint h = fp"
  unfolding find_hb_def by (rule find_some_key)

lemma find_upsert_hb:
  assumes "\<And>g. hb_fingerprint (f g) = hb_fingerprint g"
  shows "find_hb fp (upsert_hb h f s) =
    (if fp = hb_fingerprint h then Some (case find_hb fp s of None \<Rightarrow> h | Some g \<Rightarrow> f g) else find_hb fp s)"
proof (cases "find_hb (hb_fingerprint h) s")
  case None
  then show ?thesis by (auto simp: upsert_hb_def find_hb_def find_append split: option.splits)
next
  case (Some g)
  then show ?thesis using assms by (simp add: upsert_hb_def) (simp add: find_hb_def find_map_key)
qed

section \<open>The outcome of a transaction\<close>

lemma run_cron_audit:
  "\<exists>row w'. cron_audit env who what before after ip now w = (Inr (), w') \<and>
     shared w' = add_audit row (shared w) \<and> trace w' = trace w @ [Audit row] \<and>
     a_what row = what \<and> a_who row = who \<and> a_after row = after"
  unfolding cron_audit_def by (rule run_insert_audit)

lemma cron_audit_seq:
  assumes "seqP (cron_audit env who what before after ip now) m w = (r, w')"
  obtains row w1 where "m w1 = (r, w')" "shared w1 = add_audit row (shared w)" "trace w1 = trace w @ [Audit row]" "a_what row = what"
proof -
  obtain row w1 where a: "cron_audit env who what before after ip now w = (Inr (), w1)"
    "shared w1 = add_audit row (shared w)" "trace w1 = trace w @ [Audit row]" "a_what row = what"
    using run_cron_audit by metis
  with assms show ?thesis using that by (simp add: run_seqP_Inr)
qed

lemma run_seq_modS [run_simps]: "seqP (modS g) m w = m (w\<lparr>shared := g (shared w)\<rparr>)"
  by (simp add: seqP_def run_simps)

section \<open>A small registry, for the examples\<close>

definition quiet_cron_env :: cron_env where
  "quiet_cron_env =
     \<lparr>other = \<lambda>n s. s, fault = \<lambda>n. None, clock = \<lambda>n. 0, uuid = \<lambda>n. ''id'', now_iso = \<lambda>n. ''2026-01-01'', sha256 = \<lambda>s. s,
      text_us = \<lambda>s. int (length s), us_text = \<lambda>n. ''later'', cron_canonical = (\<lambda>s. if s = [] then None else Some s),
      cron_cadence = \<lambda>s. 60, is_naive = \<lambda>s. False, float_text = \<lambda>x. ''1.0'', monotonic = \<lambda>n. 0, json_loads = \<lambda>b. None\<rparr>"

definition nightly_row :: cron_row where
  "nightly_row =
     \<lparr>cr_fingerprint = ''f1'', cr_name = ''backup'', cr_host = ''nas'', cr_command = ''backup.sh'', cr_schedule = ''@daily'',
      cr_schedule_canonical = None, cr_cadence = 86400, cr_grace = 300, cr_enabled = True, cr_last_seen_state = ''unknown'',
      cr_created_at = ''2025-12-01'', cr_updated_at = ''2025-12-01'', cr_hidden_at = None, cr_source_path = Some ''/etc/crontab'',
      cr_wrapper_last_seen_at = None, cr_last_discovered_at = None, cr_soft_deleted_at = None, cr_log_match_key = None,
      cr_wrapper_installed = False, cr_wrapper_version = None\<rparr>"

definition nightly_store :: cron_store where
  "nightly_store =
     \<lparr>s_audits = [], t_crons = [nightly_row], t_hb = [], t_runs = [], t_cursors = [],
      t_limiter = \<lparr>cr_capacity = 60, cr_refill_per_second = 1, cr_buckets = Map.empty\<rparr>, t_failures = []\<rparr>"

definition nightly :: "(cron_store, cron_act event) world" where
  "nightly = \<lparr>shared = nightly_store, trace = [], ticks = 0\<rparr>"

end
