(* ===== verification/Crontab.thy ===== *)
theory Crontab
  imports CronText
begin

text \<open>
  The text of crontabs: the line of a wrapped cron (kernel/cron/wrapper_constants.py), the parser of crontab
  files (plugins/discoverers/cron_parser.py), and what the wrapper installer makes of a crontab
  (\<open>build_install_kit\<close> and \<open>build_uninstall_kit\<close> of kernel/cron/install.py).  Whether croniter takes a
  schedule, and the content of the files, are arguments.
\<close>

section \<open>The wrapped command\<close>

definition wrapper_path :: string where
  "wrapper_path = ''/usr/local/bin/cron-with-heartbeat.sh''"

definition wrapper_separator :: string where
  "wrapper_separator = ''--''"

definition build_invocation_prefix :: "string \<Rightarrow> string" where
  "build_invocation_prefix fingerprint = wrapper_path @ '' '' @ fingerprint @ '' '' @ wrapper_separator @ '' ''"

text \<open>
  \<open>_WRAPPED_RE\<close>: the path, one word, the separator, and the command up to the end of the text.  The word runs
  to the next white space, which has to be the blank of the separator.
\<close>

definition wrapped_match :: "string \<Rightarrow> (string \<times> string) option" where
  "wrapped_match command =
     (case strip_prefix (wrapper_path @ '' '') command of
        None \<Rightarrow> None
      | Some rest \<Rightarrow>
          (let fp = takeWhile (\<lambda>c. \<not> is_space c) rest in
           if fp = [] then None
           else map_option (\<lambda>cmd. (fp, cmd)) (strip_prefix ('' '' @ wrapper_separator @ '' '') (drop (length fp) rest))))"

definition legacy_match :: "string \<Rightarrow> string option" where
  "legacy_match command = strip_prefix (wrapper_path @ '' '' @ wrapper_separator @ '' '') command"

definition unwrap_command :: "string \<Rightarrow> string" where
  "unwrap_command command =
     (case wrapped_match command of
        Some (_, cmd) \<Rightarrow> cmd
      | None \<Rightarrow> (case legacy_match command of Some cmd \<Rightarrow> cmd | None \<Rightarrow> command))"

definition is_wrapped :: "string \<Rightarrow> bool" where
  "is_wrapped command \<longleftrightarrow> wrapped_match command \<noteq> None \<or> legacy_match command \<noteq> None"

definition wrapped_fingerprint :: "string \<Rightarrow> string option" where
  "wrapped_fingerprint command = map_option fst (wrapped_match command)"

definition is_legacy_wrapped :: "string \<Rightarrow> bool" where
  "is_legacy_wrapped command \<longleftrightarrow> legacy_match command \<noteq> None \<and> wrapped_match command = None"

section \<open>Lines\<close>

datatype cron_source_kind = SYSTEM_WITH_USER_FIELD | USER_CRONTAB

text \<open>\<open>s.split(maxsplit=n)\<close>: the rest keeps its inner and trailing white space.\<close>

fun split_max :: "nat \<Rightarrow> string \<Rightarrow> string list" where
  "split_max n s =
     (let r = dropWhile is_space s in
      if r = [] then []
      else (case n of
              0 \<Rightarrow> [r]
            | Suc m \<Rightarrow> takeWhile (\<lambda>c. \<not> is_space c) r # split_max m (dropWhile (\<lambda>c. \<not> is_space c) r)))"

declare split_max.simps [simp del]

text \<open>\<open>^[A-Z_][A-Z0-9_]*\s*=\<close>\<close>

definition is_env_start :: "char \<Rightarrow> bool" where
  "is_env_start c = (let n = (of_char c :: nat) in (65 \<le> n \<and> n \<le> 90) \<or> c = CHR ''_'')"

lemma is_env_start_code [code]: "is_env_start c = (let n = (of_char c :: int) in (65 \<le> n \<and> n \<le> 90) \<or> c = CHR ''_'')"
proof -
  have n: "(of_char c :: int) = int (of_char c)" by (simp only: of_nat_of_char)
  show ?thesis unfolding n Let_def is_env_start_def by linarith
qed

definition is_env_line :: "string \<Rightarrow> bool" where
  "is_env_line line \<longleftrightarrow>
     line \<noteq> [] \<and> is_env_start (hd line) \<and>
     take 1 (dropWhile is_space (dropWhile (\<lambda>c. is_env_start c \<or> is_digit c) line)) = ''=''"

definition nicknames :: "string list" where
  "nicknames = [''@hourly'', ''@daily'', ''@weekly'', ''@monthly'', ''@yearly'', ''@annually'', ''@midnight'', ''@reboot'']"

definition parse_nickname_line :: "cron_source_kind \<Rightarrow> string \<Rightarrow> string + string \<times> string" where
  "parse_nickname_line kind line =
     (let parts = split_max 2 line in
      if length parts < 2 then Inl (''malformed nickname line (no command): '' @ py_repr line)
      else if hd parts \<notin> set nicknames then Inl (''unknown cron nickname: '' @ py_repr (hd parts))
      else if kind = USER_CRONTAB then Inr (hd parts, join_with '' '' (tl parts))
      else Inr (hd parts, if length parts = 3 then parts ! 2 else parts ! 1))"

definition parse_fielded_line :: "cron_source_kind \<Rightarrow> string \<Rightarrow> string + string \<times> string" where
  "parse_fielded_line kind line =
     (let parts = split_max (if kind = SYSTEM_WITH_USER_FIELD then 6 else 5) line;
          min_tokens = (if kind = SYSTEM_WITH_USER_FIELD then 7 else 6 :: nat)
      in if length parts < min_tokens
         then Inl (''malformed line (expected '' @ str_of_nat min_tokens @ '' tokens, got '' @ str_of_nat (length parts) @
                ''): '' @ py_repr line)
         else Inr (join_with '' '' (take 5 parts), parts ! (if kind = SYSTEM_WITH_USER_FIELD then 6 else 5)))"

text \<open>What both readers of a line share: blank lines, comments and variables are no cron line.\<close>

definition skipped_line :: "string \<Rightarrow> bool" where
  "skipped_line line \<longleftrightarrow> line = [] \<or> take 1 line = ''#'' \<or> is_env_line line"

definition parse_line :: "cron_source_kind \<Rightarrow> string \<Rightarrow> string + string \<times> string" where
  "parse_line kind line = (if take 1 line = ''@'' then parse_nickname_line kind line else parse_fielded_line kind line)"

definition parse_one_line :: "cron_source_kind \<Rightarrow> bool \<Rightarrow> string \<Rightarrow> (string \<times> string) option" where
  "parse_one_line kind unwrap line =
     (if skipped_line line then None
      else (case parse_line kind line of
              Inl _ \<Rightarrow> None
            | Inr (schedule, command) \<Rightarrow> Some (schedule, if unwrap then unwrap_command command else command)))"

section \<open>Files\<close>

record parsed_entry =
  pe_host :: string
  pe_source_path :: string
  pe_schedule :: string
  pe_command :: string
  pe_wrapped :: bool

record scan_error =
  se_source_path :: string
  se_error :: string

fun parse_lines_of_file ::
  "(string \<Rightarrow> bool) \<Rightarrow> cron_source_kind \<Rightarrow> string \<Rightarrow> string \<Rightarrow> string list \<Rightarrow> parsed_entry list \<times> scan_error list" where
  "parse_lines_of_file valid kind host path [] = ([], [])"
| "parse_lines_of_file valid kind host path (raw_line # ls) =
     (let line = strip raw_line; (es, errs) = parse_lines_of_file valid kind host path ls in
      if skipped_line line then (es, errs)
      else (case parse_line kind line of
              Inl msg \<Rightarrow> (es, \<lparr>se_source_path = path, se_error = msg\<rparr> # errs)
            | Inr (schedule, command) \<Rightarrow>
                if schedule \<noteq> ''@reboot'' \<and> \<not> valid schedule
                then (es, \<lparr>se_source_path = path, se_error = ''invalid schedule: '' @ py_repr schedule\<rparr> # errs)
                else (\<lparr>pe_host = host, pe_source_path = path, pe_schedule = schedule,
                       pe_command = unwrap_command command, pe_wrapped = is_wrapped command\<rparr> # es, errs)))"

definition parse_cron_file ::
  "(string \<Rightarrow> bool) \<Rightarrow> cron_source_kind \<Rightarrow> string \<Rightarrow> string \<Rightarrow> string \<Rightarrow> parsed_entry list \<times> scan_error list" where
  "parse_cron_file valid kind host path content = parse_lines_of_file valid kind host path (splitlines content)"

section \<open>The installer's kits\<close>

text \<open>The exceptions of the installer; the last stands for an OSError of its reads, which it lets through.\<close>

datatype install_error =
    WrapperInstallError string
  | RemoteHostError string
  | CronLineNotFoundError string
  | AlreadyWrappedError string
  | NotWrappedError string
  | CrontabWriteError string
  | CronApplyUnavailableError string
  | ReadError string

text \<open>Reading a file: \<open>exists()\<close> may raise, and so may \<open>read_text\<close>.\<close>

datatype file_read = Absent | StatFails string | ReadFails string | Content string

record crontab_diff =
  cd_source_path :: string
  cd_container_file :: string
  cd_old_line :: string
  cd_new_line :: string
  cd_line_index :: nat
  cd_inner_command :: string

definition starts_with :: "string \<Rightarrow> string \<Rightarrow> bool" where
  "starts_with s p \<longleftrightarrow> strip_prefix p s \<noteq> None"

definition source_kind_from_path :: "string \<Rightarrow> cron_source_kind" where
  "source_kind_from_path path = (if starts_with path ''crontab:'' then USER_CRONTAB else SYSTEM_WITH_USER_FIELD)"

text \<open>The file the installer reads: below the mount of /etc, or the snapshot of a user's crontab.\<close>

definition resolve_container_path :: "string \<Rightarrow> string \<Rightarrow> string \<Rightarrow> install_error + string" where
  "resolve_container_path host_root snapshot_dir source_path =
     (if source_path = ''/etc/crontab'' then Inr (host_root @ ''/etc/crontab'')
      else case strip_prefix ''/etc/cron.d/'' source_path of
        Some name \<Rightarrow> Inr (host_root @ ''/etc/cron.d/'' @ name)
      | None \<Rightarrow>
          (case strip_prefix ''crontab:'' source_path of
             Some user \<Rightarrow> Inr (snapshot_dir @ ''/'' @ user)
           | None \<Rightarrow> Inl (WrapperInstallError (''unrecognized source_path: '' @ py_repr source_path))))"

record line_match =
  lm_index :: nat
  lm_raw :: string
  lm_schedule :: string
  lm_inner :: string
  lm_wrapped :: bool
  lm_command :: string

text \<open>The identity of the cron whose line is looked for: what its fingerprint is compared with.\<close>

fun find_line :: "(string \<Rightarrow> string \<Rightarrow> string) \<Rightarrow> cron_source_kind \<Rightarrow> string \<Rightarrow> nat \<Rightarrow> string list \<Rightarrow> line_match option" where
  "find_line fp_of kind fingerprint i [] = None"
| "find_line fp_of kind fingerprint i (raw_line # ls) =
     (case parse_one_line kind False raw_line of
        None \<Rightarrow> find_line fp_of kind fingerprint (Suc i) ls
      | Some (schedule, raw_command) \<Rightarrow>
          if fp_of schedule (unwrap_command raw_command) = fingerprint
          then Some \<lparr>lm_index = i, lm_raw = raw_line, lm_schedule = schedule, lm_inner = unwrap_command raw_command,
                 lm_wrapped = is_wrapped raw_command, lm_command = raw_command\<rparr>
          else find_line fp_of kind fingerprint (Suc i) ls)"

definition find_matching_line ::
  "(string \<Rightarrow> string) \<Rightarrow> string \<Rightarrow> string \<Rightarrow> string \<Rightarrow> string \<Rightarrow> install_error + line_match" where
  "find_matching_line sha256 content host source_path fingerprint =
     (case find_line (cron_fingerprint sha256 host (Some source_path)) (source_kind_from_path source_path) fingerprint 0
             (splitlines content) of
        Some m \<Rightarrow> Inr m
      | None \<Rightarrow> Inl (CronLineNotFoundError (''no crontab line matches fingerprint '' @ fingerprint)))"

definition rewrite_line :: "string \<Rightarrow> string \<Rightarrow> string \<Rightarrow> install_error + string" where
  "rewrite_line raw_line inner_command fingerprint =
     (let legacy_segment = wrapper_path @ '' '' @ wrapper_separator @ '' '' @ inner_command;
          new_segment = build_invocation_prefix fingerprint @ inner_command
      in case rfind legacy_segment raw_line of
           Some i \<Rightarrow> Inr (take i raw_line @ new_segment @ drop (i + length legacy_segment) raw_line)
         | None \<Rightarrow>
             (case rfind inner_command raw_line of
                None \<Rightarrow> Inl (WrapperInstallError ''internal: command not found in raw line'')
              | Some i \<Rightarrow> Inr (take i raw_line @ build_invocation_prefix fingerprint @ inner_command)))"

definition remove_prefix :: "string \<Rightarrow> string \<Rightarrow> install_error + string" where
  "remove_prefix raw_line fingerprint =
     (let p = build_invocation_prefix fingerprint in
      case find_sub p raw_line of
        None \<Rightarrow> Inl (WrapperInstallError ''internal: wrapper prefix not found in raw line'')
      | Some i \<Rightarrow> Inr (take i raw_line @ drop (i + length p) raw_line))"

definition diff_of :: "string \<Rightarrow> string \<Rightarrow> line_match \<Rightarrow> string \<Rightarrow> crontab_diff" where
  "diff_of source_path file m new_line =
     \<lparr>cd_source_path = source_path, cd_container_file = file, cd_old_line = lm_raw m, cd_new_line = new_line, cd_line_index = lm_index m,
      cd_inner_command = lm_inner m\<rparr>"

text \<open>
  Both kits read the crontab of the cron's source path.  The wrapper script of the kit is a constant text and left out.
\<close>

definition kit_line ::
  "(string \<Rightarrow> string) \<Rightarrow> (string \<Rightarrow> file_read) \<Rightarrow> string \<Rightarrow> string \<Rightarrow> string \<Rightarrow> string \<Rightarrow> string option \<Rightarrow> string \<Rightarrow>
   install_error + string \<times> string \<times> line_match" where
  "kit_line sha256 read_file host_root snapshot_dir fingerprint host source_path operation =
     (case source_path of
        None \<Rightarrow> Inl (WrapperInstallError (''cron '' @ fingerprint @ '' has no source_path (remote-only); wrapper '' @
                  operation @ '' requires a local crontab file''))
      | Some path \<Rightarrow>
          (case resolve_container_path host_root snapshot_dir path of
             Inl e \<Rightarrow> Inl e
           | Inr file \<Rightarrow>
               (case read_file file of
                  Absent \<Rightarrow> Inl (CronLineNotFoundError (''crontab file not found: '' @ file))
                | StatFails msg \<Rightarrow> Inl (ReadError msg)
                | ReadFails msg \<Rightarrow> Inl (ReadError msg)
                | Content content \<Rightarrow>
                    map_sum id (\<lambda>m. (path, file, m)) (find_matching_line sha256 content host path fingerprint))))"

definition build_install_kit ::
  "(string \<Rightarrow> string) \<Rightarrow> (string \<Rightarrow> file_read) \<Rightarrow> string \<Rightarrow> string \<Rightarrow> string \<Rightarrow> string \<Rightarrow> string option \<Rightarrow> install_error + crontab_diff" where
  "build_install_kit sha256 read_file host_root snapshot_dir fingerprint host source_path =
     (case kit_line sha256 read_file host_root snapshot_dir fingerprint host source_path ''install'' of
        Inl e \<Rightarrow> Inl e
      | Inr (path, file, m) \<Rightarrow>
          if lm_wrapped m \<and> \<not> is_legacy_wrapped (lm_command m)
          then Inl (AlreadyWrappedError (''crontab line is already wrapped for '' @ fingerprint))
          else map_sum id (diff_of path file m) (rewrite_line (lm_raw m) (lm_inner m) fingerprint))"

definition build_uninstall_kit ::
  "(string \<Rightarrow> string) \<Rightarrow> (string \<Rightarrow> file_read) \<Rightarrow> string \<Rightarrow> string \<Rightarrow> string \<Rightarrow> string \<Rightarrow> string option \<Rightarrow> install_error + crontab_diff" where
  "build_uninstall_kit sha256 read_file host_root snapshot_dir fingerprint host source_path =
     (case kit_line sha256 read_file host_root snapshot_dir fingerprint host source_path ''uninstall'' of
        Inl e \<Rightarrow> Inl e
      | Inr (path, file, m) \<Rightarrow>
          if \<not> lm_wrapped m
          then Inl (NotWrappedError (''crontab line is not wrapped for '' @ fingerprint @ ''; nothing to remove''))
          else map_sum id (diff_of path file m) (remove_prefix (lm_raw m) fingerprint))"

end
