(* ===== verification/Crons.thy ===== *)
theory Crons
  imports CronStore Crontab
begin

text \<open>
  The cron registry (kernel/cron/repository.py): queries, the operator's PATCH and hide, registration by
  a wrapper, the bookkeeping of wrapper installs, discovery and the reconciliation of soft deletes.
  croniter and SHA-256 are fields of the environment.
\<close>

section \<open>Queries\<close>

text \<open>SQLite's LIKE, case-insensitive on ASCII, and LOWER.\<close>

definition sql_lower :: "string \<Rightarrow> string" where
  "sql_lower s = map (\<lambda>c. let n = (of_char c :: nat) in if 65 \<le> n \<and> n \<le> 90 then char_of (n + 32) else c) s"

fun like_match :: "string \<Rightarrow> string \<Rightarrow> bool" where
  "like_match [] s = (s = [])"
| "like_match (p # ps) s =
     (if p = CHR ''%'' then like_match ps s \<or> (case s of [] \<Rightarrow> False | _ # cs \<Rightarrow> like_match (p # ps) cs)
      else (case s of [] \<Rightarrow> False | c # cs \<Rightarrow> (p = CHR ''_'' \<or> p = c) \<and> like_match ps cs))"

definition sql_like :: "string \<Rightarrow> string \<Rightarrow> bool" where
  "sql_like s pat = like_match (sql_lower pat) (sql_lower s)"

record cron_filter =
  fl_host :: "string option"
  fl_enabled :: "bool option"
  fl_state :: "string option"
  fl_q :: "string option"
  fl_include_hidden :: bool
  fl_include_soft_deleted :: bool
  fl_wrapper_installed :: "bool option"

definition cron_selected :: "cron_filter \<Rightarrow> cron_row \<Rightarrow> bool" where
  "cron_selected q c \<longleftrightarrow>
     (fl_include_hidden q \<or> cr_hidden_at c = None) \<and>
     (fl_include_soft_deleted q \<or> cr_soft_deleted_at c = None) \<and>
     (case fl_host q of None \<Rightarrow> True | Some h \<Rightarrow> cr_host c = h) \<and>
     (case fl_enabled q of None \<Rightarrow> True | Some b \<Rightarrow> cr_enabled c = b) \<and>
     (case fl_state q of None \<Rightarrow> True | Some st \<Rightarrow> cr_last_seen_state c = st) \<and>
     (case fl_q q of
        None \<Rightarrow> True
      | Some t \<Rightarrow> strip t = [] \<or>
          sql_like (sql_lower (cr_name c)) (''%'' @ lower (strip t) @ ''%'') \<or>
          sql_like (sql_lower (cr_command c)) (''%'' @ lower (strip t) @ ''%'')) \<and>
     (case fl_wrapper_installed q of None \<Rightarrow> True | Some b \<Rightarrow> (cr_wrapper_last_seen_at c \<noteq> None) = b)"

text \<open>\<open>ORDER BY name, fingerprint LIMIT page_size OFFSET (page - 1) * page_size\<close>, for \<open>page \<ge> 1\<close>.\<close>

definition cron_order :: "cron_row list \<Rightarrow> cron_row list" where
  "cron_order cs = sort_key cr_name (sort_key cr_fingerprint cs)"

record cron_list_page =
  lp_items :: "(cron_row \<times> string option) list"
  lp_total :: nat

definition list_crons :: "cron_filter \<Rightarrow> nat \<Rightarrow> nat \<Rightarrow> cron_store \<Rightarrow> cron_list_page" where
  "list_crons q page page_size s =
     (let rows = filter (cron_selected q) (t_crons s) in
      \<lparr>lp_items = map (\<lambda>c. (c, case find_hb (cr_fingerprint c) s of None \<Rightarrow> None | Some h \<Rightarrow> hb_last_ok_at h))
          (take page_size (drop ((page - 1) * page_size) (cron_order rows))),
       lp_total = length rows\<rparr>)"

definition get_cron :: "string \<Rightarrow> bool \<Rightarrow> cron_store \<Rightarrow> cron_row option" where
  "get_cron fp include_hidden s =
     (case find_cron fp s of
        None \<Rightarrow> None
      | Some c \<Rightarrow> if \<not> include_hidden \<and> cr_hidden_at c \<noteq> None then None else Some c)"

definition get_cron_with_state :: "cron_env \<Rightarrow> string \<Rightarrow> bool \<Rightarrow> (cron_row \<times> hb_row option) option cron_prog" where
  "get_cron_with_state env fp include_hidden =
     bindP (fetch env (get_cron fp include_hidden)) (\<lambda>r.
     case r of None \<Rightarrow> ret None | Some c \<Rightarrow> bindP (fetch env (find_hb fp)) (\<lambda>h. ret (Some (c, h))))"

definition match_by_log_key :: "string \<Rightarrow> string \<Rightarrow> cron_store \<Rightarrow> cron_row list" where
  "match_by_log_key host key s =
     (if strip key = [] then []
      else filter (\<lambda>c. cr_host c = host \<and> cr_log_match_key c = Some key \<and> cr_soft_deleted_at c = None) (t_crons s))"

definition list_source_paths_for_host :: "string \<Rightarrow> cron_store \<Rightarrow> string list" where
  "list_source_paths_for_host host s =
     remdups (List.map_filter cr_source_path (filter (\<lambda>c. cr_host c = host) (t_crons s)))"

section \<open>The log cursors\<close>

definition insert_cursor :: "string \<Rightarrow> string \<Rightarrow> cron_store \<Rightarrow> cron_store" where
  "insert_cursor c now s = s\<lparr>t_cursors := t_cursors s @ [(c, now)]\<rparr>"

definition try_claim_cursor :: "cron_env \<Rightarrow> string \<Rightarrow> string \<Rightarrow> bool cron_prog" where
  "try_claim_cursor env journal_cursor now =
     txn env (bindP (getS (\<lambda>s. journal_cursor \<in> fst ` set (t_cursors s))) (\<lambda>claimed.
       if claimed then ret False else seqP (modS (insert_cursor journal_cursor now)) (ret True)))"

section \<open>The operator's changes\<close>

text \<open>A field of the PATCH body: None when it is absent, \<open>Some None\<close> for a JSON null.\<close>

record cron_update =
  cu_name :: "string option option"
  cu_grace :: "int option option"
  cu_enabled :: "bool option option"
  cu_hidden_at :: "string option option"

definition changed :: "'a option option \<Rightarrow> 'a option \<Rightarrow> 'a option option" where
  "changed provided old = (case provided of None \<Rightarrow> None | Some new \<Rightarrow> if new = old then None else Some new)"

text \<open>\<open>bool(new_val)\<close>: a null counts as false.\<close>

definition changed_enabled :: "bool option option \<Rightarrow> bool \<Rightarrow> bool option" where
  "changed_enabled provided old =
     (case provided of None \<Rightarrow> None | Some new \<Rightarrow> if (new = Some True) = old then None else Some (new = Some True))"

definition set_field :: "'a option \<Rightarrow> ('a \<Rightarrow> 'r \<Rightarrow> 'r) \<Rightarrow> 'r \<Rightarrow> 'r" where
  "set_field v upd r = (case v of None \<Rightarrow> r | Some x \<Rightarrow> upd x r)"

definition patch_cron ::
  "string option \<Rightarrow> int option \<Rightarrow> bool option \<Rightarrow> string option option \<Rightarrow> string \<Rightarrow> cron_row \<Rightarrow> cron_row" where
  "patch_cron name grace enabled hidden now c =
     set_field name (\<lambda>x c. c\<lparr>cr_name := x\<rparr>)
       (set_field grace (\<lambda>x c. c\<lparr>cr_grace := x\<rparr>)
         (set_field enabled (\<lambda>x c. c\<lparr>cr_enabled := x\<rparr>)
           (set_field hidden (\<lambda>x c. c\<lparr>cr_hidden_at := x\<rparr>) (c\<lparr>cr_updated_at := now\<rparr>))))"

definition update_verb :: "bool \<Rightarrow> string option option \<Rightarrow> string option \<Rightarrow> string" where
  "update_verb others hidden old_hidden =
     (let went_to_hidden = (case hidden of Some (Some _) \<Rightarrow> old_hidden = None | _ \<Rightarrow> False);
          went_to_visible = (hidden = Some None \<and> old_hidden \<noteq> None)
      in if went_to_hidden \<and> \<not> others then ''crons.hide''
         else if went_to_visible \<and> \<not> others then ''crons.unhide''
         else if went_to_hidden \<or> went_to_visible then (if went_to_hidden then ''crons.hide'' else ''crons.unhide'')
         else ''crons.update'')"

definition diff_fields ::
  "string option \<Rightarrow> int option \<Rightarrow> bool option \<Rightarrow> string option option \<Rightarrow> string \<Rightarrow> string \<Rightarrow> json_object" where
  "diff_fields name grace enabled hidden updated_at fp =
     (case name of None \<Rightarrow> [] | Some x \<Rightarrow> [(''name'', JStr x)]) @
     (case grace of None \<Rightarrow> [] | Some x \<Rightarrow> [(''expected_grace_seconds'', JInt x)]) @
     (case enabled of None \<Rightarrow> [] | Some x \<Rightarrow> [(''enabled'', JBool x)]) @
     (case hidden of None \<Rightarrow> [] | Some x \<Rightarrow> [(''hidden_at'', jopt_str x)]) @
     [(''updated_at'', JStr updated_at), (''fingerprint'', JStr fp)]"

text \<open>
  A null for a NOT NULL column passes the comparison, reaches the UPDATE and is refused by SQLite; the
  transaction is rolled back.
\<close>

definition update_cron :: "cron_env \<Rightarrow> string \<Rightarrow> cron_update \<Rightarrow> string \<Rightarrow> string option \<Rightarrow> cron_row cron_prog" where
  "update_cron env fp payload who ip =
     txn env (bindP (getS (find_cron fp)) (\<lambda>r.
     case r of
       None \<Rightarrow> raise (LookupErr (''cron not found: '' @ fp))
     | Some existing \<Rightarrow>
         (let name = changed (cu_name payload) (Some (cr_name existing));
              grace = changed (cu_grace payload) (Some (cr_grace existing));
              enabled = changed_enabled (cu_enabled payload) (cr_enabled existing);
              hidden = changed (cu_hidden_at payload) (cr_hidden_at existing);
              others = (name \<noteq> None \<or> grace \<noteq> None \<or> enabled \<noteq> None)
          in if \<not> others \<and> hidden = None then ret existing
             else
               bindP (ask (now_iso env)) (\<lambda>now.
               case (name, grace) of
                 (Some None, _) \<Rightarrow> raise (IntegrityErr ''NOT NULL constraint failed: crons.name'')
               | (_, Some None) \<Rightarrow> raise (IntegrityErr ''NOT NULL constraint failed: crons.expected_grace_seconds'')
               | _ \<Rightarrow>
                   (let new_name = Option.bind name id; new_grace = Option.bind grace id;
                        patch = patch_cron new_name new_grace enabled hidden now
                    in seqP (modS (on_cron fp patch))
                       (seqP (cron_audit env who (update_verb others hidden (cr_hidden_at existing))
                               (Some (diff_fields (map_option (\<lambda>_. cr_name existing) new_name)
                                  (map_option (\<lambda>_. cr_grace existing) new_grace)
                                  (map_option (\<lambda>_. cr_enabled existing) enabled)
                                  (map_option (\<lambda>_. cr_hidden_at existing) hidden) (cr_updated_at existing) fp))
                               (Some (diff_fields new_name new_grace enabled hidden now fp)) ip now)
                         (ret (patch existing))))))))"

definition soft_delete_cron :: "cron_env \<Rightarrow> string \<Rightarrow> string \<Rightarrow> string option \<Rightarrow> cron_row cron_prog" where
  "soft_delete_cron env fp who ip =
     bindP (fetch env (get_cron fp True)) (\<lambda>r.
     case r of
       None \<Rightarrow> raise (LookupErr (''cron not found: '' @ fp))
     | Some existing \<Rightarrow>
         if cr_hidden_at existing \<noteq> None then raise (LookupErr (''cron already hidden: '' @ fp))
         else
           bindP (ask (now_iso env)) (\<lambda>now.
           update_cron env fp \<lparr>cu_name = None, cu_grace = None, cu_enabled = None, cu_hidden_at = Some (Some now)\<rparr> who ip))"

section \<open>Registration and wrapper installs\<close>

record register_body =
  rg_host :: string
  rg_source_path :: "string option"
  rg_schedule :: string
  rg_command :: string
  rg_wrapper :: bool

definition log_match_key_or_none :: "string \<Rightarrow> string option" where
  "log_match_key_or_none command = (let key = canonical_log_key command in if strip key = [] then None else Some key)"

definition cron_audit_after :: "cron_row \<Rightarrow> json_object" where
  "cron_audit_after c =
     [(''fingerprint'', JStr (cr_fingerprint c)), (''name'', JStr (cr_name c)), (''host'', JStr (cr_host c)),
      (''command'', JStr (cr_command c)), (''schedule'', JStr (cr_schedule c)),
      (''schedule_canonical'', jopt_str (cr_schedule_canonical c)), (''cadence_seconds'', JInt (cr_cadence c)),
      (''expected_grace_seconds'', JInt (cr_grace c)), (''enabled'', JBool (cr_enabled c)),
      (''last_seen_state'', JStr (cr_last_seen_state c)), (''created_at'', JStr (cr_created_at c)),
      (''updated_at'', JStr (cr_updated_at c)), (''hidden_at'', jopt_str (cr_hidden_at c)),
      (''source_path'', jopt_str (cr_source_path c)), (''wrapper_last_seen_at'', jopt_str (cr_wrapper_last_seen_at c)),
      (''last_discovered_at'', jopt_str (cr_last_discovered_at c)), (''soft_deleted_at'', jopt_str (cr_soft_deleted_at c)),
      (''log_match_key'', jopt_str (cr_log_match_key c)), (''wrapper_installed'', JBool (cr_wrapper_installed c)),
      (''wrapper_format_version'', jopt_str (cr_wrapper_version c))]"

definition new_cron ::
  "string \<Rightarrow> string \<Rightarrow> string \<Rightarrow> string \<Rightarrow> string \<Rightarrow> string option \<Rightarrow> int \<Rightarrow> string option \<Rightarrow> string option \<Rightarrow>
     string option \<Rightarrow> string option \<Rightarrow> bool \<Rightarrow> string \<Rightarrow> cron_row" where
  "new_cron fp name host command schedule canonical cadence source_path wrapper_seen discovered key wrapped now =
     \<lparr>cr_fingerprint = fp, cr_name = name, cr_host = host, cr_command = command, cr_schedule = schedule,
      cr_schedule_canonical = canonical, cr_cadence = cadence, cr_grace = 300, cr_enabled = True,
      cr_last_seen_state = ''unknown'', cr_created_at = now, cr_updated_at = now, cr_hidden_at = None,
      cr_source_path = source_path, cr_wrapper_last_seen_at = wrapper_seen, cr_last_discovered_at = discovered,
      cr_soft_deleted_at = None, cr_log_match_key = key, cr_wrapper_installed = wrapped, cr_wrapper_version = None\<rparr>"

definition restore_cron :: "string \<Rightarrow> cron_row \<Rightarrow> cron_row" where
  "restore_cron now c = c\<lparr>cr_soft_deleted_at := None, cr_updated_at := now\<rparr>"

definition wrapper_seen :: "string option \<Rightarrow> string \<Rightarrow> cron_row \<Rightarrow> cron_row" where
  "wrapper_seen at_time now c = c\<lparr>cr_wrapper_last_seen_at := at_time, cr_updated_at := now\<rparr>"

text \<open>
  \<open>register_cron\<close>: the router has checked the fingerprint against the body.  The two croniter calls come
  before the transaction and may raise InvalidCronExpression, a ValueError.
\<close>

definition register_cron ::
  "cron_env \<Rightarrow> register_body \<Rightarrow> string \<Rightarrow> string \<Rightarrow> string option \<Rightarrow> (cron_row \<times> bool) cron_prog" where
  "register_cron env body fp who ip =
     bindP (ask (now_iso env)) (\<lambda>now.
     case cron_canonical env (rg_schedule body) of
       None \<Rightarrow> raise (ValidationErr ''invalid cron expression'')
     | Some canonical \<Rightarrow>
         txn env (bindP (getS (find_cron fp)) (\<lambda>r.
         case r of
           None \<Rightarrow>
             (let row = new_cron fp (derive_name (rg_command body)) (rg_host body) (rg_command body) (rg_schedule body)
                          (Some canonical) (cron_cadence env (rg_schedule body)) (rg_source_path body)
                          (if rg_wrapper body then Some now else None) None
                          (log_match_key_or_none (rg_command body)) (rg_wrapper body) now
              in seqP (modS (add_cron row))
                 (seqP (cron_audit env who ''crons.register'' None (Some (cron_audit_after row)) ip now)
                   (ret (row, True))))
         | Some existing \<Rightarrow>
             seqP (unlessP (cr_soft_deleted_at existing = None)
                    (seqP (modS (on_cron fp (restore_cron now)))
                      (cron_audit env who ''crons.restore''
                        (Some [(''fingerprint'', JStr fp), (''soft_deleted_at'', jopt_str (cr_soft_deleted_at existing))])
                        (Some [(''fingerprint'', JStr fp), (''soft_deleted_at'', JNull)]) ip now)))
               (if \<not> rg_wrapper body then
                  ret (if cr_soft_deleted_at existing = None then existing else restore_cron now existing, False)
                else
                  seqP (modS (on_cron fp (wrapper_seen (Some now) now)))
                  (seqP (cron_audit env who ''crons.register''
                          (Some [(''fingerprint'', JStr fp), (''wrapper_last_seen_at'', jopt_str (cr_wrapper_last_seen_at existing))])
                          (Some [(''fingerprint'', JStr fp), (''wrapper_last_seen_at'', JStr now)]) ip now)
                    (ret (wrapper_seen (Some now) now
                            (if cr_soft_deleted_at existing = None then existing else restore_cron now existing), False)))))))"

definition record_wrapper_installed :: "cron_env \<Rightarrow> string \<Rightarrow> string \<Rightarrow> string option \<Rightarrow> unit cron_prog" where
  "record_wrapper_installed env fp who ip =
     bindP (ask (now_iso env)) (\<lambda>now.
     txn env (cron_audit env who ''crons.wrapper_installed'' None
       (Some [(''fingerprint'', JStr fp), (''wrapper_path'', JStr wrapper_path)]) ip now))"

definition record_wrapper_uninstalled :: "cron_env \<Rightarrow> string \<Rightarrow> string \<Rightarrow> string option \<Rightarrow> unit cron_prog" where
  "record_wrapper_uninstalled env fp who ip =
     bindP (ask (now_iso env)) (\<lambda>now.
     txn env (bindP (getS (\<lambda>s. Option.bind (find_cron fp s) cr_wrapper_last_seen_at)) (\<lambda>prev.
       seqP (modS (on_cron fp (wrapper_seen None now)))
         (cron_audit env who ''crons.wrapper_uninstalled''
           (Some [(''fingerprint'', JStr fp), (''wrapper_path'', JStr wrapper_path), (''wrapper_last_seen_at'', jopt_str prev)])
           (Some [(''fingerprint'', JStr fp), (''wrapper_last_seen_at'', JNull)]) ip now))))"

definition set_wrapper_format_version :: "cron_env \<Rightarrow> string \<Rightarrow> string \<Rightarrow> unit cron_prog" where
  "set_wrapper_format_version env fp version =
     bindP (ask (now_iso env)) (\<lambda>now.
     txn env (modS (on_cron fp (\<lambda>c. c\<lparr>cr_wrapper_version := Some version, cr_updated_at := now\<rparr>))))"

section \<open>Discovery\<close>

record discovered =
  ds_host :: string
  ds_source_path :: string
  ds_schedule :: string
  ds_command :: string
  ds_wrapped :: bool

text \<open>The fields that discovery compares: (column, old value, new value), those that differ.\<close>

definition drift :: "string \<Rightarrow> json \<Rightarrow> json \<Rightarrow> (string \<times> json \<times> json) list" where
  "drift column old new = (if old = new then [] else [(column, old, new)])"

definition discovery_diff :: "cron_env \<Rightarrow> discovered \<Rightarrow> string option \<Rightarrow> cron_row \<Rightarrow> (string \<times> json \<times> json) list" where
  "discovery_diff env d canonical c =
     drift ''command'' (JStr (cr_command c)) (JStr (scrub_secrets (ds_command d))) @
     drift ''name'' (JStr (cr_name c)) (JStr (derive_name (ds_command d))) @
     drift ''schedule_canonical'' (jopt_str (cr_schedule_canonical c)) (jopt_str canonical) @
     drift ''cadence_seconds'' (JInt (cr_cadence c)) (JInt (cron_cadence env (ds_schedule d))) @
     drift ''log_match_key'' (jopt_str (cr_log_match_key c)) (jopt_str (log_match_key_or_none (ds_command d))) @
     drift ''wrapper_installed'' (JBool (cr_wrapper_installed c)) (JBool (ds_wrapped d))"

text \<open>The UPDATE: a column that does not differ is left alone, which is to say set to the value it has.\<close>

definition rediscover :: "cron_env \<Rightarrow> discovered \<Rightarrow> string option \<Rightarrow> string \<Rightarrow> cron_row \<Rightarrow> cron_row" where
  "rediscover env d canonical now c =
     c\<lparr>cr_command := scrub_secrets (ds_command d), cr_name := derive_name (ds_command d),
       cr_schedule_canonical := canonical, cr_cadence := cron_cadence env (ds_schedule d),
       cr_log_match_key := log_match_key_or_none (ds_command d), cr_wrapper_installed := ds_wrapped d,
       cr_last_discovered_at := Some now, cr_updated_at := now\<rparr>"

definition discovered_fingerprint :: "cron_env \<Rightarrow> discovered \<Rightarrow> string" where
  "discovered_fingerprint env d =
     cron_fingerprint (sha256 env) (ds_host d) (Some (ds_source_path d)) (ds_schedule d) (ds_command d)"

definition upsert_discovered :: "cron_env \<Rightarrow> discovered \<Rightarrow> string \<Rightarrow> (cron_row \<times> bool \<times> bool) cron_prog" where
  "upsert_discovered env d now =
     (case cron_canonical env (ds_schedule d) of
        None \<Rightarrow> raise (ValidationErr ''invalid cron expression'')
      | Some canonical \<Rightarrow>
          let fp = discovered_fingerprint env d in
          txn env (bindP (getS (find_cron fp)) (\<lambda>r.
          case r of
            None \<Rightarrow>
              (let row = new_cron fp (derive_name (ds_command d)) (ds_host d) (scrub_secrets (ds_command d)) (ds_schedule d)
                           (Some canonical) (cron_cadence env (ds_schedule d)) (Some (ds_source_path d)) None (Some now)
                           (log_match_key_or_none (ds_command d)) (ds_wrapped d) now
               in seqP (modS (add_cron row))
                  (seqP (cron_audit env ''system'' ''crons.discover'' None (Some (cron_audit_after row)) None now)
                    (ret (row, True, False))))
          | Some existing \<Rightarrow>
              (let diff = discovery_diff env d (Some canonical) existing in
               seqP (modS (on_cron fp (rediscover env d (Some canonical) now)))
               (seqP (unlessP (diff = [])
                  (cron_audit env ''system'' ''crons.discover.update''
                     (Some (map (\<lambda>(k, old, new). (k, old)) diff @
                        [(''fingerprint'', JStr fp), (''updated_at'', JStr (cr_updated_at existing))]))
                     (Some (map (\<lambda>(k, old, new). (k, new)) diff @
                        [(''fingerprint'', JStr fp), (''updated_at'', JStr now)])) None now))
                 (ret (rediscover env d (Some canonical) now existing, False, diff \<noteq> []))))))) "

section \<open>Soft deletion\<close>

definition mark_deleted :: "string option \<Rightarrow> string \<Rightarrow> cron_row \<Rightarrow> cron_row" where
  "mark_deleted when_deleted now c = c\<lparr>cr_soft_deleted_at := when_deleted, cr_updated_at := now\<rparr>"

text \<open>One selected row: the counts are threaded through the loops.\<close>

definition reconcile_row ::
  "cron_env \<Rightarrow> string list \<Rightarrow> string \<Rightarrow> string \<times> string option \<Rightarrow> nat \<times> nat \<Rightarrow> (nat \<times> nat) cron_prog" where
  "reconcile_row env found now row counts =
     (case row of (fp, deleted_at) \<Rightarrow>
        let in_scan = (fp \<in> set found) in
        if \<not> in_scan \<and> deleted_at = None then
          seqP (modS (on_cron fp (mark_deleted (Some now) now)))
          (seqP (cron_audit env ''system'' ''crons.soft_delete''
                  (Some [(''fingerprint'', JStr fp), (''soft_deleted_at'', JNull)])
                  (Some [(''fingerprint'', JStr fp), (''soft_deleted_at'', JStr now)]) None now)
            (ret (fst counts + 1, snd counts)))
        else if in_scan \<and> deleted_at \<noteq> None then
          seqP (modS (on_cron fp (mark_deleted None now)))
          (seqP (cron_audit env ''system'' ''crons.restore''
                  (Some [(''fingerprint'', JStr fp), (''soft_deleted_at'', jopt_str deleted_at)])
                  (Some [(''fingerprint'', JStr fp), (''soft_deleted_at'', JNull)]) None now)
            (ret (fst counts, snd counts + 1)))
        else ret counts)"

fun fold_prog :: "('x \<Rightarrow> 'b \<Rightarrow> ('s, 'e, 'b) prog) \<Rightarrow> 'x list \<Rightarrow> 'b \<Rightarrow> ('s, 'e, 'b) prog" where
  "fold_prog f [] b = ret b"
| "fold_prog f (x # xs) b = bindP (f x b) (fold_prog f xs)"

definition rows_of_path :: "string \<Rightarrow> string \<Rightarrow> cron_store \<Rightarrow> (string \<times> string option) list" where
  "rows_of_path host path s =
     map (\<lambda>c. (cr_fingerprint c, cr_soft_deleted_at c))
       (filter (\<lambda>c. cr_host c = host \<and> cr_source_path c = Some path) (t_crons s))"

text \<open>\<open>found_by_path\<close> is a map with its default, the empty set; \<open>sorted(clean_paths)\<close> of distinct paths.\<close>

definition reconcile_soft_deletes ::
  "cron_env \<Rightarrow> string \<Rightarrow> string list \<Rightarrow> (string \<Rightarrow> string list) \<Rightarrow> string \<Rightarrow> (nat \<times> nat) cron_prog" where
  "reconcile_soft_deletes env host clean_paths found_by_path now =
     (if clean_paths = [] then ret (0, 0)
      else txn env (fold_prog (\<lambda>path counts.
             bindP (getS (rows_of_path host path)) (\<lambda>rows.
               fold_prog (reconcile_row env (found_by_path path) now) rows counts))
           (sort (remdups clean_paths)) (0, 0)))"

end
