(* ===== verification/Heartbeats.thy ===== *)
theory Heartbeats
  imports CronStore
begin

text \<open>
  The heartbeat states of the crons (kernel/heartbeat/repository.py): every ping writes the state row, the
  mirror in the registry and an audit row in one transaction; an observed run only counts.
\<close>

section \<open>Times\<close>

text \<open>\<open>timedelta(seconds=x)\<close> rounds to the nearest microsecond, halves to the even one.\<close>

definition round_half_even :: "rat \<Rightarrow> int" where
  "round_half_even x =
     (let n = \<lfloor>x\<rfloor>; r = x - of_int n
      in if r < 1 / 2 then n else if 1 / 2 < r then n + 1 else if even n then n else n + 1)"

definition seconds_us :: "rat \<Rightarrow> int" where
  "seconds_us x = round_half_even (x * 1000000)"

definition compute_expected_next_at :: "cron_env \<Rightarrow> string \<Rightarrow> int \<Rightarrow> int \<Rightarrow> exn + string option" where
  "compute_expected_next_at env last_ok_at cadence grace =
     (if cadence \<le> 0 then Inr None
      else if is_naive env last_ok_at then Inl (ValidationErr ''last_ok_at must be tz-aware ISO'')
      else Inr (Some (us_text env (text_us env last_ok_at + (cadence + grace) * 1000000))))"

section \<open>The state row\<close>

definition compute_streak :: "hb_row option \<Rightarrow> string \<Rightarrow> int" where
  "compute_streak previous new_state =
     (case previous of None \<Rightarrow> 1 | Some p \<Rightarrow> if hb_state p = new_state then hb_streak p + 1 else 1)"

definition merge_optional :: "'a option \<Rightarrow> 'a option \<Rightarrow> 'a option" where
  "merge_optional previous provided = (case provided of None \<Rightarrow> previous | Some x \<Rightarrow> Some x)"

record transition =
  tr_state :: string
  tr_start_at :: "string option"
  tr_ok_at :: "string option"
  tr_fail_at :: "string option"
  tr_duration :: "rat option"
  tr_exit_code :: "int option"
  tr_what :: string

definition expected_next :: "cron_env \<Rightarrow> transition \<Rightarrow> cron_row \<Rightarrow> exn + string option" where
  "expected_next env tr c =
     (case tr_ok_at tr of
        Some ok_at \<Rightarrow> if tr_state tr = ''ok'' then compute_expected_next_at env ok_at (cr_cadence c) (cr_grace c) else Inr None
      | None \<Rightarrow> Inr None)"

definition hb_values :: "string \<Rightarrow> hb_row option \<Rightarrow> transition \<Rightarrow> string option \<Rightarrow> string \<Rightarrow> hb_row" where
  "hb_values fp previous tr expected now =
     \<lparr>hb_fingerprint = fp, hb_state = tr_state tr,
      hb_last_start_at = merge_optional (Option.bind previous hb_last_start_at) (tr_start_at tr),
      hb_last_ok_at = merge_optional (Option.bind previous hb_last_ok_at) (tr_ok_at tr),
      hb_last_fail_at = merge_optional (Option.bind previous hb_last_fail_at) (tr_fail_at tr),
      hb_streak = compute_streak previous (tr_state tr), hb_expected_next_at = expected,
      hb_duration = merge_optional (Option.bind previous hb_duration) (tr_duration tr),
      hb_exit_code = merge_optional (Option.bind previous hb_exit_code) (tr_exit_code tr), hb_updated_at = now,
      hb_observed_total = (case previous of None \<Rightarrow> 0 | Some p \<Rightarrow> hb_observed_total p),
      hb_last_observed_at = Option.bind previous hb_last_observed_at, hb_logscrape_runs = 0\<rparr>"

text \<open>The conflict branch leaves the two columns of the observed runs alone.\<close>

definition hb_conflict :: "hb_row \<Rightarrow> hb_row \<Rightarrow> hb_row" where
  "hb_conflict v g = v\<lparr>hb_fingerprint := hb_fingerprint g, hb_observed_total := hb_observed_total g,
                      hb_last_observed_at := hb_last_observed_at g\<rparr>"

definition seen_state :: "string \<Rightarrow> string \<Rightarrow> cron_row \<Rightarrow> cron_row" where
  "seen_state st now c = c\<lparr>cr_last_seen_state := st, cr_updated_at := now\<rparr>"

definition hb_audit_before :: "string \<Rightarrow> hb_row option \<Rightarrow> json_object option" where
  "hb_audit_before fp previous =
     (case previous of
        None \<Rightarrow> None
      | Some p \<Rightarrow> Some [(''cron_fingerprint'', JStr fp), (''current_state'', JStr (hb_state p)), (''current_streak'', JInt (hb_streak p))])"

definition hb_audit_after :: "cron_env \<Rightarrow> hb_row \<Rightarrow> string \<Rightarrow> json_object" where
  "hb_audit_after env v host =
     [(''cron_fingerprint'', JStr (hb_fingerprint v)), (''current_state'', JStr (hb_state v)),
      (''current_streak'', JInt (hb_streak v)),
      (''duration_seconds'', case hb_duration v of None \<Rightarrow> JNull | Some x \<Rightarrow> JFloat (float_text env x)),
      (''exit_code'', jopt_int (hb_exit_code v)), (''host'', JStr host)]"

definition record_state_transition ::
  "cron_env \<Rightarrow> string \<Rightarrow> transition \<Rightarrow> string \<Rightarrow> string \<Rightarrow> string option \<Rightarrow> hb_row cron_prog" where
  "record_state_transition env fp tr now who ip =
     txn env (bindP (getS (find_cron fp)) (\<lambda>r.
     case r of
       None \<Rightarrow> raise (LookupErr (''cron not found: '' @ fp))
     | Some c \<Rightarrow>
         bindP (getS (find_hb fp)) (\<lambda>previous.
         bindP (liftE (expected_next env tr c)) (\<lambda>expected.
         let v = hb_values fp previous tr expected now in
         seqP (modS (upsert_hb v (hb_conflict v)))
         (seqP (modS (on_cron fp (seen_state (tr_state tr) now)))
         (seqP (cron_audit env who (tr_what tr) (hb_audit_before fp previous) (Some (hb_audit_after env v (cr_host c))) ip now)
         (bindP (getS (find_hb fp)) (\<lambda>row. case row of None \<Rightarrow> raise (AssertionErr []) | Some h \<Rightarrow> ret h))))))))"

datatype ping = PingStart | PingOk "rat option" | PingFail "rat option" "int option"

definition ping_transition :: "ping \<Rightarrow> string \<Rightarrow> transition" where
  "ping_transition p now =
     (case p of
        PingStart \<Rightarrow>
          \<lparr>tr_state = ''running'', tr_start_at = Some now, tr_ok_at = None, tr_fail_at = None, tr_duration = None,
           tr_exit_code = None, tr_what = ''heartbeat.start''\<rparr>
      | PingOk d \<Rightarrow>
          \<lparr>tr_state = ''ok'', tr_start_at = None, tr_ok_at = Some now, tr_fail_at = None, tr_duration = d,
           tr_exit_code = None, tr_what = ''heartbeat.ok''\<rparr>
      | PingFail d x \<Rightarrow>
          \<lparr>tr_state = ''failed'', tr_start_at = None, tr_ok_at = None, tr_fail_at = Some now, tr_duration = d,
           tr_exit_code = x, tr_what = ''heartbeat.fail''\<rparr>)"

definition record_ping :: "cron_env \<Rightarrow> string \<Rightarrow> ping \<Rightarrow> string \<Rightarrow> string option \<Rightarrow> hb_row cron_prog" where
  "record_ping env fp p who ip =
     bindP (ask (now_iso env)) (\<lambda>now. record_state_transition env fp (ping_transition p now) now who ip)"

definition record_start :: "cron_env \<Rightarrow> string \<Rightarrow> string \<Rightarrow> string option \<Rightarrow> hb_row cron_prog" where
  "record_start env fp who ip = record_ping env fp PingStart who ip"

definition record_ok :: "cron_env \<Rightarrow> string \<Rightarrow> rat option \<Rightarrow> string \<Rightarrow> string option \<Rightarrow> hb_row cron_prog" where
  "record_ok env fp d who ip = record_ping env fp (PingOk d) who ip"

definition record_fail :: "cron_env \<Rightarrow> string \<Rightarrow> rat option \<Rightarrow> int option \<Rightarrow> string \<Rightarrow> string option \<Rightarrow> hb_row cron_prog" where
  "record_fail env fp d x who ip = record_ping env fp (PingFail d x) who ip"

section \<open>Observed runs\<close>

definition observed_insert :: "string \<Rightarrow> string \<Rightarrow> hb_row" where
  "observed_insert fp observed_at =
     \<lparr>hb_fingerprint = fp, hb_state = ''unknown'', hb_last_start_at = None, hb_last_ok_at = None, hb_last_fail_at = None,
      hb_streak = 0, hb_expected_next_at = None, hb_duration = None, hb_exit_code = None, hb_updated_at = observed_at,
      hb_observed_total = 1, hb_last_observed_at = Some observed_at, hb_logscrape_runs = 1\<rparr>"

definition observed_conflict :: "string \<Rightarrow> hb_row \<Rightarrow> hb_row" where
  "observed_conflict observed_at h =
     h\<lparr>hb_observed_total := hb_observed_total h + 1, hb_last_observed_at := Some observed_at, hb_updated_at := observed_at,
       hb_logscrape_runs := hb_logscrape_runs h + 1\<rparr>"

definition record_observed_run :: "cron_env \<Rightarrow> string \<Rightarrow> string \<Rightarrow> string \<Rightarrow> string option \<Rightarrow> hb_row cron_prog" where
  "record_observed_run env fp observed_at who ip =
     txn env (bindP (getS (find_cron fp)) (\<lambda>r.
     case r of
       None \<Rightarrow> raise (LookupErr (''cron not found: '' @ fp))
     | Some c \<Rightarrow>
         bindP (getS (find_hb fp)) (\<lambda>previous.
         seqP (modS (upsert_hb (observed_insert fp observed_at) (observed_conflict observed_at)))
         (bindP (getS (find_hb fp)) (\<lambda>row.
         case row of
           None \<Rightarrow> raise (AssertionErr [])
         | Some h \<Rightarrow>
             seqP (cron_audit env who ''cron.observed_run''
                (case previous of
                   None \<Rightarrow> None
                 | Some p \<Rightarrow> Some [(''cron_fingerprint'', JStr fp), (''observed_runs_total'', JInt (hb_observed_total p))])
                (Some [(''cron_fingerprint'', JStr fp), (''observed_runs_total'', JInt (hb_observed_total h)),
                       (''host'', JStr (cr_host c))]) ip observed_at)
             (ret h))))))"

section \<open>What a ping leaves\<close>

lemma hb_values_key [simp]: "hb_fingerprint (hb_values fp p tr e now) = fp"
  by (simp add: hb_values_def)

lemma hb_conflict_key [simp]: "hb_fingerprint (hb_conflict v g) = hb_fingerprint g"
  by (simp add: hb_conflict_def)

lemma seen_state_key [simp]: "cr_fingerprint (seen_state st now c) = cr_fingerprint c"
  "cr_last_seen_state (seen_state st now c) = st"
  by (simp_all add: seen_state_def)

text \<open>The columns the conflict branch keeps hold what the insert branch would write.\<close>

lemma upserted_values:
  "find_hb fp (upsert_hb (hb_values fp (find_hb fp s) tr e now) (hb_conflict (hb_values fp (find_hb fp s) tr e now)) s) =
     Some (hb_values fp (find_hb fp s) tr e now)"
  by (subst find_upsert_hb) (auto simp: hb_conflict_def hb_values_def dest!: find_hb_Some split: option.splits)

lemma find_hb_on_cron [simp]: "find_hb fp (on_cron fp' f s) = find_hb fp s"
  and find_cron_upsert [simp]: "find_cron fp (upsert_hb h g s) = find_cron fp s"
  by (simp_all add: find_hb_def find_cron_def)

lemma transition_run:
  assumes "record_state_transition env fp tr now who ip w = (r, w')"
  defines "s \<equiv> shared (entered env w)"
  shows "case r of
      Inl x \<Rightarrow> shared w' = s
    | Inr h \<Rightarrow> \<exists>c e. find_cron fp s = Some c \<and> expected_next env tr c = Inr e \<and> h = hb_values fp (find_hb fp s) tr e now \<and>
        find_hb fp (shared w') = Some h \<and> find_cron fp (shared w') = Some (seen_state (tr_state tr) now c)"
  using assms(1) unfolding record_state_transition_def
proof (cases rule: txn_cases)
  case (bad e)
  then show ?thesis by (simp add: s_def del: entered_simps)
next
  case (ok h w2)
  then obtain c where c: "find_cron fp s = Some c"
    by (auto simp: run_simps s_def simp del: entered_simps split: option.splits)
  with ok obtain e where e: "expected_next env tr c = Inr e"
    by (cases "expected_next env tr c") (auto simp: run_simps s_def liftE_def simp del: entered_simps)
  let ?v = "hb_values fp (find_hb fp s) tr e now"
  let ?t = "on_cron fp (seen_state (tr_state tr) now) (upsert_hb ?v (hb_conflict ?v) s)"
  from ok c e have "seqP (cron_audit env who (tr_what tr) (hb_audit_before fp (find_hb fp s))
      (Some (hb_audit_after env ?v (cr_host c))) ip now)
      (bindP (getS (find_hb fp)) (\<lambda>row. case row of None \<Rightarrow> raise (AssertionErr []) | Some h \<Rightarrow> ret h))
      ((entered env w)\<lparr>shared := ?t\<rparr>) = (Inr h, w2)"
    by (simp add: run_simps s_def liftE_def Let_def del: entered_simps)
  then obtain row w1 where w1: "bindP (getS (find_hb fp)) (\<lambda>row. case row of None \<Rightarrow> raise (AssertionErr []) | Some h \<Rightarrow> ret h) w1 = (Inr h, w2)"
    "shared w1 = add_audit row ?t" by (rule cron_audit_seq) simp
  then have h: "find_hb fp ?t = Some h" "shared w2 = shared w1" by (auto simp: run_simps split: option.splits)
  then have "h = ?v" by (simp add: upserted_values)
  moreover have "find_cron fp (shared w2) = Some (seen_state (tr_state tr) now c)" using w1 h c by (simp add: find_on_cron)
  moreover have "find_hb fp (shared w2) = Some h" using w1 h by simp
  ultimately show ?thesis using ok c e by simp
qed

lemma observed_run:
  assumes "record_observed_run env fp observed_at who ip w = (r, w')"
  defines "s \<equiv> shared (entered env w)"
  shows "case r of
      Inl x \<Rightarrow> shared w' = s
    | Inr h \<Rightarrow> h = (case find_hb fp s of None \<Rightarrow> observed_insert fp observed_at | Some g \<Rightarrow> observed_conflict observed_at g) \<and>
        find_hb fp (shared w') = Some h \<and> t_crons (shared w') = t_crons s"
  using assms(1) unfolding record_observed_run_def
proof (cases rule: txn_cases)
  case (bad e)
  then show ?thesis by (simp add: s_def del: entered_simps)
next
  case (ok h w2)
  then obtain c where c: "find_cron fp s = Some c"
    by (auto simp: run_simps s_def simp del: entered_simps split: option.splits)
  let ?t = "upsert_hb (observed_insert fp observed_at) (observed_conflict observed_at) s"
  have t: "find_hb fp ?t = Some (case find_hb fp s of None \<Rightarrow> observed_insert fp observed_at | Some g \<Rightarrow> observed_conflict observed_at g)"
    by (subst find_upsert_hb) (simp_all add: observed_conflict_def observed_insert_def split: option.splits)
  let ?h = "case find_hb fp s of None \<Rightarrow> observed_insert fp observed_at | Some g \<Rightarrow> observed_conflict observed_at g"
  from ok c t have "seqP (cron_audit env who ''cron.observed_run''
      (case find_hb fp s of None \<Rightarrow> None
       | Some p \<Rightarrow> Some [(''cron_fingerprint'', JStr fp), (''observed_runs_total'', JInt (hb_observed_total p))])
      (Some [(''cron_fingerprint'', JStr fp), (''observed_runs_total'', JInt (hb_observed_total ?h)), (''host'', JStr (cr_host c))])
      ip observed_at) (ret ?h) ((entered env w)\<lparr>shared := ?t\<rparr>) = (Inr h, w2)"
    by (simp add: run_simps s_def del: entered_simps)
  then obtain row w1 where "ret ?h w1 = (Inr h, w2)" "shared w1 = add_audit row ?t"
    by (rule cron_audit_seq) simp
  with ok t show ?thesis by (auto simp: run_simps)
qed

section \<open>The history a row stands for\<close>

datatype hb_event = Pinged ping | Observed string

definition run_hb_event :: "cron_env \<Rightarrow> string \<Rightarrow> string \<Rightarrow> string option \<Rightarrow> hb_event \<Rightarrow> hb_row cron_prog" where
  "run_hb_event env fp who ip ev =
     (case ev of
        Pinged PingStart \<Rightarrow> record_start env fp who ip
      | Pinged (PingOk d) \<Rightarrow> record_ok env fp d who ip
      | Pinged (PingFail d x) \<Rightarrow> record_fail env fp d x who ip
      | Observed t \<Rightarrow> record_observed_run env fp t who ip)"

lemma run_hb_event_simps:
  "run_hb_event env fp who ip (Pinged p) = record_ping env fp p who ip"
  "run_hb_event env fp who ip (Observed t) = record_observed_run env fp t who ip"
  by (cases p) (simp_all add: run_hb_event_def record_start_def record_ok_def record_fail_def)

text \<open>The requests of one cron, one after the other; the answer lists those that did not raise.\<close>

fun serve_events ::
  "cron_env \<Rightarrow> string \<Rightarrow> string \<Rightarrow> string option \<Rightarrow> hb_event list \<Rightarrow> (cron_store, cron_act event) world \<Rightarrow>
     hb_event list \<times> (cron_store, cron_act event) world" where
  "serve_events env fp who ip [] w = ([], w)"
| "serve_events env fp who ip (e # es) w =
     (case run_hb_event env fp who ip e w of
        (r, w1) \<Rightarrow> (case serve_events env fp who ip es w1 of (done_es, w2) \<Rightarrow> ((if isl r then done_es else e # done_es), w2)))"

definition pings_of :: "hb_event list \<Rightarrow> ping list" where
  "pings_of es = List.map_filter (\<lambda>e. case e of Pinged p \<Rightarrow> Some p | Observed _ \<Rightarrow> None) es"

definition is_observed :: "hb_event \<Rightarrow> bool" where
  "is_observed e = (case e of Pinged _ \<Rightarrow> False | Observed _ \<Rightarrow> True)"

definition ping_state :: "ping \<Rightarrow> string" where
  "ping_state p = (case p of PingStart \<Rightarrow> ''running'' | PingOk _ \<Rightarrow> ''ok'' | PingFail _ _ \<Rightarrow> ''failed'')"

definition ping_duration :: "ping \<Rightarrow> rat option" where
  "ping_duration p = (case p of PingStart \<Rightarrow> None | PingOk d \<Rightarrow> d | PingFail d _ \<Rightarrow> d)"

definition ping_exit :: "ping \<Rightarrow> int option" where
  "ping_exit p = (case p of PingFail _ x \<Rightarrow> x | _ \<Rightarrow> None)"

definition last_given :: "('a \<Rightarrow> 'b option) \<Rightarrow> 'a list \<Rightarrow> 'b option" where
  "last_given f xs = (case List.map_filter f (rev xs) of [] \<Rightarrow> None | y # _ \<Rightarrow> Some y)"

definition row_of_history :: "hb_event list \<Rightarrow> hb_row \<Rightarrow> bool" where
  "row_of_history es h \<longleftrightarrow>
     hb_state h = (if pings_of es = [] then ''unknown'' else ping_state (last (pings_of es))) \<and>
     hb_streak h = int (length (takeWhile (\<lambda>p. ping_state p = hb_state h) (rev (pings_of es)))) \<and>
     hb_observed_total h = int (length (filter is_observed es)) \<and>
     hb_logscrape_runs h = int (length (takeWhile is_observed (rev es))) \<and>
     hb_duration h = last_given ping_duration (pings_of es) \<and>
     hb_exit_code h = last_given ping_exit (pings_of es) \<and>
     (hb_state h \<noteq> ''ok'' \<longrightarrow> hb_expected_next_at h = None)"

definition history_of :: "string \<Rightarrow> hb_event list \<Rightarrow> cron_store \<Rightarrow> bool" where
  "history_of fp es s = (case find_hb fp s of None \<Rightarrow> es = [] | Some h \<Rightarrow> row_of_history es h)"

lemma pings_of_snoc [simp]:
  "pings_of [] = []" "pings_of [Pinged p] = [p]" "pings_of [Observed t] = []" "pings_of (es @ [Pinged p]) = pings_of es @ [p]" "pings_of (es @ [Observed t]) = pings_of es"
  by (simp_all add: pings_of_def List.map_filter_def)

lemma is_observed_simps [simp]: "is_observed (Observed t)" "\<not> is_observed (Pinged p)"
  by (simp_all add: is_observed_def)

lemma merge_None [simp]: "merge_optional None x = x" "merge_optional x None = x"
  by (simp_all add: merge_optional_def split: option.split)

lemma last_given_snoc: "last_given f [] = None" "last_given f [x] = f x" "last_given f (xs @ [x]) = merge_optional (last_given f xs) (f x)"
  by (auto simp: last_given_def merge_optional_def List.map_filter_def split: option.split)

lemma ping_state_known: "ping_state p \<noteq> ''unknown''"
  by (simp add: ping_state_def split: ping.split)

lemma tr_of_ping [simp]:
  "tr_state (ping_transition p now) = ping_state p" "tr_duration (ping_transition p now) = ping_duration p"
  "tr_exit_code (ping_transition p now) = ping_exit p"
  by (simp_all add: ping_transition_def ping_state_def ping_duration_def ping_exit_def split: ping.split)

lemma expected_only_ok: "expected_next env tr c = Inr e \<Longrightarrow> tr_state tr \<noteq> ''ok'' \<Longrightarrow> e = None"
  by (auto simp: expected_next_def split: option.splits if_splits)

lemma bind_find: "Option.bind (Some h) f = f h" "Option.bind None f = None"
  by simp_all

lemma history_ping:
  assumes "history_of fp es s" and "ping_state p \<noteq> ''ok'' \<Longrightarrow> e = None"
  shows "row_of_history (es @ [Pinged p]) (hb_values fp (find_hb fp s) (ping_transition p now) e now)"
proof (cases "find_hb fp s")
  case None
  with assms show ?thesis
    by (simp add: history_of_def row_of_history_def hb_values_def compute_streak_def last_given_snoc)
next
  case (Some h)
  with assms(1) have h: "row_of_history es h" by (simp add: history_of_def)
  have streak: "(if hb_state h = ping_state p then hb_streak h + 1 else 1) =
    int (length (takeWhile (\<lambda>q. ping_state q = ping_state p) (rev (pings_of es @ [p]))))"
  proof (cases "hb_state h = ping_state p")
    case True
    with h show ?thesis by (simp add: row_of_history_def)
  next
    case False
    then have "takeWhile (\<lambda>q. ping_state q = ping_state p) (rev (pings_of es)) = []"
      using h by (cases "pings_of es" rule: rev_cases) (auto simp: row_of_history_def)
    with False show ?thesis by simp
  qed
  show ?thesis
    using h assms(2) Some streak
    by (simp add: row_of_history_def hb_values_def compute_streak_def last_given_snoc)
qed

lemma history_observed:
  assumes "history_of fp es s"
  shows "row_of_history (es @ [Observed t])
    (case find_hb fp s of None \<Rightarrow> observed_insert fp t | Some g \<Rightarrow> observed_conflict t g)"
  using assms
  by (auto simp: history_of_def row_of_history_def observed_insert_def observed_conflict_def last_given_snoc split: option.splits)

lemma event_history:
  assumes h: "history_of fp es (shared w)" and o: "\<And>n s. find_hb fp (other env n s) = find_hb fp s"
    and run: "run_hb_event env fp who ip e w = (r, w')"
  shows "history_of fp (if isl r then es else es @ [e]) (shared w')"
proof -
  have same: "history_of fp es (other env n s) = history_of fp es s" for n s by (simp add: history_of_def o)
  show ?thesis
  proof (cases e)
    case (Pinged p)
    let ?w = "w\<lparr>ticks := Suc (ticks w)\<rparr>"
    from run Pinged have t: "record_state_transition env fp (ping_transition p (now_iso env (ticks w))) (now_iso env (ticks w)) who ip ?w = (r, w')"
      by (simp add: run_hb_event_simps record_ping_def run_simps)
    show ?thesis
    proof (cases r)
      case (Inl x)
      with transition_run [OF t] h show ?thesis by (simp add: same)
    next
      case (Inr g)
      with transition_run [OF t] obtain c ex where
        "expected_next env (ping_transition p (now_iso env (ticks w))) c = Inr ex"
        "g = hb_values fp (find_hb fp (shared (entered env ?w))) (ping_transition p (now_iso env (ticks w))) ex (now_iso env (ticks w))"
        "find_hb fp (shared w') = Some g" by auto
      moreover from this(1) have "ping_state p \<noteq> ''ok'' \<Longrightarrow> ex = None" using expected_only_ok by fastforce
      ultimately show ?thesis
        using history_ping [of fp es "shared (entered env ?w)" p ex] h Inr Pinged by (simp add: history_of_def same o)
    qed
  next
    case (Observed t)
    from run Observed have "record_observed_run env fp t who ip w = (r, w')" by (simp add: run_hb_event_simps)
    from observed_run [OF this] show ?thesis
      using history_observed [of fp es "shared (entered env w)" t] h Observed
      by (cases r) (simp_all add: history_of_def same o)
  qed
qed

lemma events_history:
  assumes "history_of fp es (shared w)" and "\<And>n s. find_hb fp (other env n s) = find_hb fp s"
    and "serve_events env fp who ip evs w = (served, w')"
  shows "history_of fp (es @ served) (shared w')"
  using assms(1,3)
proof (induction evs arbitrary: es w served)
  case (Cons e evs)
  obtain r w1 where r: "run_hb_event env fp who ip e w = (r, w1)" by fastforce
  with Cons.prems(2) obtain rest where rest: "serve_events env fp who ip evs w1 = (rest, w')"
    "served = (if isl r then rest else e # rest)" by (auto split: prod.splits)
  from event_history [OF Cons.prems(1) assms(2) r]
  have "history_of fp ((if isl r then es else es @ [e]) @ rest) (shared w')"
    using Cons.IH [OF _ rest(1)] by blast
  with rest(2) show ?case by (auto split: if_splits)
qed simp

text \<open>
  C29: The heartbeat row of a cron stands for the history of its requests.  Whatever sequence of start, ok
  and fail pings and observed runs the receiver serves for a cron that had no row, and whichever of them
  raise (and are rolled back), the row afterwards says exactly what the served ones amount to: the
  state of the last ping, a streak of the pings in a row with that state, all observed runs counted,
  those since the last ping counted apart, the last duration and exit code that were given, and a
  deadline only while the last ping was an ok.
\<close>

theorem heartbeat_row_refines_history:
  assumes "find_hb fp (shared w) = None" and "\<And>n s. find_hb fp (other env n s) = find_hb fp s"
    and "serve_events env fp who ip evs w = (served, w')"
  shows "case find_hb fp (shared w') of None \<Rightarrow> served = [] | Some h \<Rightarrow> row_of_history served h"
proof -
  have "history_of fp [] (shared w)" using assms(1) by (simp add: history_of_def)
  from events_history [OF this assms(2,3)] show ?thesis by (simp add: history_of_def)
qed

lemmas demo_simps = run_hb_event_simps record_ping_def record_state_transition_def run_simps txn_def bindP_def seqP_def
  quiet_cron_env_def nightly_def nightly_store_def find_cron_def nightly_row_def find_hb_def ping_transition_def
  expected_next_def compute_expected_next_at_def liftE_def upsert_hb_def on_cron_def
  seen_state_def cron_audit_def insert_audit_def add_audit_def Let_def hb_values_def hb_conflict_def

definition night_events :: "hb_event list" where
  "night_events = [Pinged (PingFail None (Some 1)), Pinged (PingFail None None)]"

theorem heartbeat_row_refines_history_witness:
  "case serve_events quiet_cron_env ''f1'' ''token'' None night_events nightly of
     (served, w') \<Rightarrow> served = night_events \<and>
       (case find_hb ''f1'' (shared w') of None \<Rightarrow> False | Some h \<Rightarrow> row_of_history night_events h)"
proof -
  obtain served w' where s: "serve_events quiet_cron_env ''f1'' ''token'' None night_events nightly = (served, w')" by fastforce
  have hist: "case find_hb ''f1'' (shared w') of None \<Rightarrow> served = [] | Some h \<Rightarrow> row_of_history served h"
    by (rule heartbeat_row_refines_history [OF _ _ s]) (simp_all add: nightly_def nightly_store_def find_hb_def quiet_cron_env_def)
  have "fst (serve_events quiet_cron_env ''f1'' ''token'' None night_events nightly) = night_events"
    by (simp add: night_events_def demo_simps)
  with s have "served = night_events" by simp
  moreover have "night_events \<noteq> []" by (simp add: night_events_def)
  ultimately show ?thesis unfolding s using hist by (auto split: option.splits)
qed

text \<open>
  The mirror.  After any ping that is answered, the registry shows the state of the heartbeat row
  of that cron (Decision 4, written in one transaction), whatever the other tasks did before it.
\<close>

theorem ping_writes_both_tables:
  assumes "record_ping env fp p who ip w = (Inr h, w')"
  shows "find_hb fp (shared w') = Some h \<and>
    (\<exists>c. find_cron fp (shared w') = Some c \<and> cr_last_seen_state c = hb_state h \<and> hb_state h = ping_state p)"
proof -
  let ?w = "w\<lparr>ticks := Suc (ticks w)\<rparr>"
  from assms have t: "record_state_transition env fp (ping_transition p (now_iso env (ticks w))) (now_iso env (ticks w)) who ip ?w = (Inr h, w')"
    by (simp add: record_ping_def run_simps)
  from transition_run [OF t] show ?thesis by (auto simp: hb_values_def)
qed

theorem ping_writes_both_tables_witness:
  "case record_ping quiet_cron_env ''f1'' (PingOk (Some 3)) ''token'' None nightly of
     (Inr h, w') \<Rightarrow> find_hb ''f1'' (shared w') = Some h \<and>
       (\<exists>c. find_cron ''f1'' (shared w') = Some c \<and> cr_last_seen_state c = hb_state h \<and> hb_state h = ping_state (PingOk (Some 3)))
   | (Inl _, _) \<Rightarrow> False"
proof -
  obtain r w' where s: "record_ping quiet_cron_env ''f1'' (PingOk (Some 3)) ''token'' None nightly = (r, w')" by fastforce
  have "\<not> isl (fst (record_ping quiet_cron_env ''f1'' (PingOk (Some 3)) ''token'' None nightly))"
    by (simp add: demo_simps hb_values_def)
  with s obtain h where r: "r = Inr h" by (cases r) auto
  from ping_writes_both_tables [OF s [unfolded r]] show ?thesis by (simp add: s r)
qed

end
