(* ===== verification/CronRuns.thy ===== *)
theory CronRuns
  imports Heartbeats Base64 "HOL-Library.Product_Lexorder"
begin

text \<open>
  The history of runs (kernel/cron/run_repository.py): the statements on \<open>cron_runs\<close>, the queries, the
  pages of one cron with their cursor, and pruning by age and by count.
\<close>

section \<open>Statements\<close>

definition find_run :: "string \<Rightarrow> cron_store \<Rightarrow> cron_run option" where
  "find_run i s = List.find (\<lambda>r. rn_id r = i) (t_runs s)"

definition on_run :: "string \<Rightarrow> (cron_run \<Rightarrow> cron_run) \<Rightarrow> cron_store \<Rightarrow> cron_store" where
  "on_run i f s = s\<lparr>t_runs := map (\<lambda>r. if rn_id r = i then f r else r) (t_runs s)\<rparr>"

definition new_run :: "string \<Rightarrow> string \<Rightarrow> string \<Rightarrow> string \<Rightarrow> string \<Rightarrow> cron_run" where
  "new_run i fp source started_at window_start =
     \<lparr>rn_id = i, rn_fingerprint = fp, rn_source = source, rn_state = ''running'', rn_started_at = started_at,
      rn_ended_at = None, rn_duration = None, rn_exit_code = None, rn_window_start = Some window_start,
      rn_window_end = None, rn_overlapping = False, rn_enriched_at = None, rn_line_count = None,
      rn_byte_count = None, rn_digest = None, rn_anomaly_flags = []\<rparr>"

text \<open>\<open>INSERT OR IGNORE\<close>\<close>

definition ignore_or_insert :: "cron_run \<Rightarrow> cron_store \<Rightarrow> cron_store" where
  "ignore_or_insert r s = (if find_run (rn_id r) s = None then s\<lparr>t_runs := t_runs s @ [r]\<rparr> else s)"

definition insert_run :: "cron_env \<Rightarrow> string \<Rightarrow> string \<Rightarrow> string \<Rightarrow> string \<Rightarrow> string \<Rightarrow> unit cron_prog" where
  "insert_run env i fp source started_at window_start =
     txn env (modS (ignore_or_insert (new_run i fp source started_at window_start)))"

definition derive_started_at :: "cron_env \<Rightarrow> string \<Rightarrow> rat option \<Rightarrow> string" where
  "derive_started_at env ended_at duration =
     (case duration of None \<Rightarrow> ended_at | Some d \<Rightarrow> us_text env (text_us env ended_at - seconds_us d))"

definition close_values :: "string \<Rightarrow> string \<Rightarrow> rat option \<Rightarrow> int option \<Rightarrow> string \<Rightarrow> cron_run \<Rightarrow> cron_run" where
  "close_values st ended_at duration exit_code window_end r =
     r\<lparr>rn_state := st, rn_ended_at := Some ended_at, rn_duration := duration, rn_exit_code := exit_code,
       rn_window_end := Some window_end\<rparr>"

text \<open>The UPSERT: a run that was never started starts when it must have.\<close>

definition upsert_closed ::
  "cron_env \<Rightarrow> string \<Rightarrow> string \<Rightarrow> string \<Rightarrow> string \<Rightarrow> string \<Rightarrow> rat option \<Rightarrow> int option \<Rightarrow> string \<Rightarrow> cron_store \<Rightarrow> cron_store" where
  "upsert_closed env i fp source st ended_at duration exit_code window_end s =
     (let f = close_values st ended_at duration exit_code window_end; started = derive_started_at env ended_at duration
      in if find_run i s = None then s\<lparr>t_runs := t_runs s @ [f (new_run i fp source started started)]\<rparr>
         else on_run i f s)"

definition close_run ::
  "cron_env \<Rightarrow> string \<Rightarrow> string \<Rightarrow> string \<Rightarrow> string \<Rightarrow> string \<Rightarrow> rat option \<Rightarrow> int option \<Rightarrow> string \<Rightarrow> unit cron_prog" where
  "close_run env i fp source st ended_at duration exit_code window_end =
     txn env (modS (upsert_closed env i fp source st ended_at duration exit_code window_end))"

text \<open>\<open>UPDATE ... WHERE run_id = :run_id AND state = 'running' AND source = 'logscrape'\<close>\<close>

definition finalize_values :: "string \<Rightarrow> string \<Rightarrow> rat option \<Rightarrow> cron_run \<Rightarrow> cron_run" where
  "finalize_values st ended_at duration r =
     (if rn_state r = ''running'' \<and> rn_source r = ''logscrape''
      then r\<lparr>rn_state := st, rn_ended_at := Some ended_at, rn_duration := duration, rn_window_end := Some ended_at\<rparr> else r)"

definition finalize_bmode_run :: "cron_env \<Rightarrow> string \<Rightarrow> string \<Rightarrow> string \<Rightarrow> rat option \<Rightarrow> unit cron_prog" where
  "finalize_bmode_run env i st ended_at duration = txn env (modS (on_run i (finalize_values st ended_at duration)))"

definition set_overlapping :: "cron_env \<Rightarrow> string \<Rightarrow> unit cron_prog" where
  "set_overlapping env i = txn env (modS (on_run i (\<lambda>r. r\<lparr>rn_overlapping := True\<rparr>)))"

definition enrichment_values :: "int \<Rightarrow> int \<Rightarrow> string \<Rightarrow> string \<Rightarrow> cron_run \<Rightarrow> cron_run" where
  "enrichment_values lines bytes digest enriched_at r =
     r\<lparr>rn_line_count := Some lines, rn_byte_count := Some bytes, rn_digest := Some digest, rn_enriched_at := Some enriched_at\<rparr>"

definition set_enrichment :: "cron_env \<Rightarrow> string \<Rightarrow> int \<Rightarrow> int \<Rightarrow> string \<Rightarrow> string \<Rightarrow> unit cron_prog" where
  "set_enrichment env i lines bytes digest enriched_at =
     txn env (modS (on_run i (enrichment_values lines bytes digest enriched_at)))"

definition set_anomaly_flags :: "cron_env \<Rightarrow> string \<Rightarrow> string \<Rightarrow> unit cron_prog" where
  "set_anomaly_flags env i flags = txn env (modS (on_run i (\<lambda>r. r\<lparr>rn_anomaly_flags := flags\<rparr>)))"

section \<open>Queries\<close>

text \<open>\<open>ORDER BY started_at DESC, run_id DESC\<close>\<close>

definition run_key :: "cron_run \<Rightarrow> string \<times> string" where
  "run_key r = (rn_started_at r, rn_id r)"

definition newest_runs :: "cron_run list \<Rightarrow> cron_run list" where
  "newest_runs rs = rev (sort_key run_key rs)"

definition list_open_bmode_runs :: "cron_store \<Rightarrow> cron_run list" where
  "list_open_bmode_runs s =
     sort_key (\<lambda>r. (rn_fingerprint r, rn_started_at r))
       (filter (\<lambda>r. rn_source r = ''logscrape'' \<and> rn_state r = ''running'') (t_runs s))"

definition find_open_run_by_fingerprint :: "string \<Rightarrow> string \<Rightarrow> cron_store \<Rightarrow> cron_run option" where
  "find_open_run_by_fingerprint fp at_ts s =
     (case newest_runs (filter (\<lambda>r. rn_fingerprint r = fp \<and> rn_state r = ''running'' \<and> rn_started_at r \<le> at_ts) (t_runs s)) of
        [] \<Rightarrow> None
      | r # _ \<Rightarrow> Some r)"

definition list_runs_needing_enrich :: "string \<Rightarrow> cron_store \<Rightarrow> cron_run list" where
  "list_runs_needing_enrich cutoff s =
     sort_key (\<lambda>r. case rn_ended_at r of None \<Rightarrow> [] | Some e \<Rightarrow> e)
       (filter (\<lambda>r. rn_enriched_at r = None \<and> rn_state r \<noteq> ''running'' \<and>
                    (case rn_ended_at r of None \<Rightarrow> False | Some e \<Rightarrow> e \<le> cutoff)) (t_runs s))"

definition list_recent_completed :: "string \<Rightarrow> nat \<Rightarrow> string \<Rightarrow> cron_store \<Rightarrow> cron_run list" where
  "list_recent_completed fp n exclude s =
     take n (newest_runs (filter (\<lambda>r. rn_fingerprint r = fp \<and> rn_state r \<noteq> ''running'' \<and> rn_id r \<noteq> exclude) (t_runs s)))"

section \<open>Pages\<close>

definition encode_runs_cursor :: "string \<Rightarrow> string \<Rightarrow> string" where
  "encode_runs_cursor started_at i = b64encode (bytes_of (dumps (JObj [(''s'', JStr started_at), (''r'', JStr i)])))"

definition decode_runs_cursor :: "cron_env \<Rightarrow> string \<Rightarrow> exn + string \<times> string" where
  "decode_runs_cursor env cursor =
     (case urlsafe_b64decode (with_padding cursor) of
        None \<Rightarrow> Inl (ValidationErr ''invalid cursor format'')
      | Some bytes \<Rightarrow>
          (case json_loads env bytes of
             None \<Rightarrow> Inl (ValidationErr ''invalid cursor format'')
           | Some (JObj d) \<Rightarrow>
               (case (map_of d ''s'', map_of d ''r'') of
                  (Some (JStr started_at), Some (JStr i)) \<Rightarrow> Inr (started_at, i)
                | _ \<Rightarrow> Inl (ValidationErr ''cursor missing or invalid 's' or 'r' fields''))
           | Some _ \<Rightarrow> Inl (ValidationErr ''cursor payload is not a JSON object'')))"

record run_page =
  rp_items :: "cron_run list"
  rp_next :: "string option"

text \<open>
  \<open>items[-1]\<close> of an empty page is an IndexError; the router admits no limit below one.
\<close>

definition run_listed :: "string \<Rightarrow> string option \<Rightarrow> (string \<times> string) option \<Rightarrow> cron_run \<Rightarrow> bool" where
  "run_listed fp state_filter below r \<longleftrightarrow>
     rn_fingerprint r = fp \<and> (case state_filter of None \<Rightarrow> True | Some st \<Rightarrow> rn_state r = st) \<and>
     (case below of
        None \<Rightarrow> True
      | Some (cs, ci) \<Rightarrow> rn_started_at r < cs \<or> (rn_started_at r = cs \<and> rn_id r < ci))"

definition runs_page :: "string \<Rightarrow> nat \<Rightarrow> (string \<times> string) option \<Rightarrow> string option \<Rightarrow> cron_store \<Rightarrow> exn + run_page" where
  "runs_page fp limit below state_filter s =
     (let rows = take (limit + 1) (newest_runs (filter (run_listed fp state_filter below) (t_runs s)))
      in if limit < length rows then
           (if take limit rows = [] then Inl (LookupErr ''list index out of range'')
            else (let last_item = last (take limit rows)
                  in Inr \<lparr>rp_items = take limit rows,
                          rp_next = Some (encode_runs_cursor (rn_started_at last_item) (rn_id last_item))\<rparr>))
         else Inr \<lparr>rp_items = rows, rp_next = None\<rparr>)"

definition list_runs :: "cron_env \<Rightarrow> string \<Rightarrow> nat \<Rightarrow> string option \<Rightarrow> string option \<Rightarrow> cron_store \<Rightarrow> exn + run_page" where
  "list_runs env fp limit cursor state_filter s =
     (case cursor of
        None \<Rightarrow> runs_page fp limit None state_filter s
      | Some c \<Rightarrow>
          (case decode_runs_cursor env c of
             Inl e \<Rightarrow> Inl e
           | Inr key \<Rightarrow> runs_page fp limit (Some key) state_filter s))"

section \<open>Pruning\<close>

definition newest_ids :: "string \<Rightarrow> nat \<Rightarrow> cron_run list \<Rightarrow> string list" where
  "newest_ids fp max_rows rs = map rn_id (take max_rows (newest_runs (filter (\<lambda>r. rn_fingerprint r = fp) rs)))"

definition prune_by_count :: "string \<Rightarrow> nat \<Rightarrow> cron_run list \<Rightarrow> cron_run list" where
  "prune_by_count fp max_rows rs = filter (\<lambda>r. \<not> (rn_fingerprint r = fp \<and> rn_id r \<notin> set (newest_ids fp max_rows rs))) rs"

definition prune_all_counts :: "nat \<Rightarrow> cron_run list \<Rightarrow> cron_run list" where
  "prune_all_counts max_rows rs = fold (\<lambda>fp. prune_by_count fp max_rows) (remdups (map rn_fingerprint rs)) rs"

definition pruned :: "string \<Rightarrow> nat \<Rightarrow> cron_run list \<Rightarrow> cron_run list" where
  "pruned cutoff max_rows rs = prune_all_counts max_rows (filter (\<lambda>r. \<not> rn_started_at r < cutoff) rs)"

definition prune_runs :: "cron_env \<Rightarrow> string \<Rightarrow> nat \<Rightarrow> nat cron_prog" where
  "prune_runs env cutoff max_rows =
     txn env (bindP (getS t_runs) (\<lambda>rs.
       seqP (modS (\<lambda>s. s\<lparr>t_runs := pruned cutoff max_rows (t_runs s)\<rparr>))
         (ret (length rs - length (pruned cutoff max_rows rs)))))"

section \<open>The pages partition the history\<close>

definition later_first :: "cron_run list \<Rightarrow> bool" where
  "later_first rs \<longleftrightarrow> sorted_wrt (\<lambda>a b. run_key b < run_key a) rs"

lemma set_newest [simp]: "set (newest_runs rs) = set rs" "length (newest_runs rs) = length rs"
  by (simp_all add: newest_runs_def)

lemma newest_filter: "newest_runs (filter P rs) = filter P (newest_runs rs)"
  by (simp add: newest_runs_def filter_sort [symmetric] rev_filter)

lemma distinct_newest_ids: "distinct (map rn_id rs) \<Longrightarrow> distinct (map rn_id (newest_runs rs))"
  by (simp add: newest_runs_def rev_map [symmetric] distinct_map)

lemma sorted_distinct_strict:
  "sorted (map run_key rs) \<Longrightarrow> distinct (map run_key rs) \<Longrightarrow> sorted_wrt (\<lambda>a b. run_key a < run_key b) rs"
  by (induction rs) (force simp: less_le)+

lemma newest_later_first:
  assumes "distinct (map rn_id rs)"
  shows "later_first (newest_runs rs)"
proof -
  have "distinct (map run_key rs)" using assms by (auto simp: distinct_map inj_on_def run_key_def)
  then have "distinct (map run_key (sort_key run_key rs))" by (simp add: distinct_map)
  then have "sorted_wrt (\<lambda>a b. run_key a < run_key b) (sort_key run_key rs)" by (simp add: sorted_distinct_strict)
  then show ?thesis by (simp add: later_first_def newest_runs_def sorted_wrt_rev)
qed

lemma below_last:
  assumes "later_first (shown @ rest)" and "shown \<noteq> []"
  shows "filter (\<lambda>r. run_key r < run_key (last shown)) (shown @ rest) = rest"
proof -
  obtain ys y where y: "shown = ys @ [y]" using assms(2) by (cases shown rule: rev_cases) auto
  have "\<not> run_key r < run_key y" if "r \<in> set shown" for r
    using assms(1) that by (auto simp: later_first_def y sorted_wrt_append)
  moreover have "run_key r < run_key y" if "r \<in> set rest" for r
    using assms(1) that by (auto simp: later_first_def y sorted_wrt_append)
  ultimately show ?thesis by (simp add: y filter_empty_conv filter_id_conv)
qed

lemma run_listed_below:
  "run_listed fp st (Some (run_key x)) r \<longleftrightarrow> run_listed fp st None r \<and> run_key r < run_key x"
  by (auto simp: run_listed_def run_key_def less_prod_def' less_le)

fun load_runs :: "nat \<Rightarrow> cron_env \<Rightarrow> string \<Rightarrow> nat \<Rightarrow> string option \<Rightarrow> string option \<Rightarrow> cron_store \<Rightarrow> cron_run list option" where
  "load_runs 0 env fp limit cursor st s = None"
| "load_runs (Suc n) env fp limit cursor st s =
     (case list_runs env fp limit cursor st s of
        Inl e \<Rightarrow> None
      | Inr p \<Rightarrow>
          (case rp_next p of
             None \<Rightarrow> Some (rp_items p)
           | Some c \<Rightarrow> map_option (\<lambda>rs. rp_items p @ rs) (load_runs n env fp limit (Some c) st s)))"

definition loads_inverts_runs :: "cron_env \<Rightarrow> bool" where
  "loads_inverts_runs env \<longleftrightarrow>
     (\<forall>a b. json_loads env (bytes_of (dumps (JObj [(''s'', JStr a), (''r'', JStr b)]))) = Some (JObj [(''s'', JStr a), (''r'', JStr b)]))"

lemma decode_encode_runs: "loads_inverts_runs env \<Longrightarrow> decode_runs_cursor env (encode_runs_cursor a b) = Inr (a, b)"
  by (simp add: decode_runs_cursor_def encode_runs_cursor_def urlsafe_roundtrip loads_inverts_runs_def)

lemma last_of_page: "1 \<le> n \<Longrightarrow> n < length xs \<Longrightarrow> last (take n xs) = xs ! (n - 1) \<and> take n xs \<noteq> []"
  by (cases xs) (auto simp: last_conv_nth min_def)

text \<open>A page over the rows \<open>rest\<close> that are still to be shown.\<close>

lemma page_of_rest:
  assumes "newest_runs (filter (run_listed fp st below) (t_runs s)) = rest" and "1 \<le> limit"
  shows "runs_page fp limit below st s =
    (if limit < length rest
     then Inr \<lparr>rp_items = take limit rest, rp_next = Some (encode_runs_cursor (rn_started_at (rest ! (limit - 1))) (rn_id (rest ! (limit - 1))))\<rparr>
     else Inr \<lparr>rp_items = rest, rp_next = None\<rparr>)"
proof -
  show ?thesis using last_of_page [OF assms(2), of rest] assms(2) unfolding runs_page_def Let_def assms(1) by (auto simp: min_def)
qed

lemma load_rest:
  assumes all: "newest_runs (filter (run_listed fp st None) (t_runs s)) = shown @ rest" and o: "later_first (shown @ rest)"
    and env: "loads_inverts_runs env" and limit: "1 \<le> limit"
    and c: "cursor = (if shown = [] then None else Some (encode_runs_cursor (rn_started_at (last shown)) (rn_id (last shown))))"
    and fuel: "length rest < n"
  shows "load_runs n env fp limit cursor st s = Some rest"
  using all o c fuel
proof (induction n arbitrary: shown rest cursor)
  case (Suc n)
  define below where "below = (if shown = [] then None else Some (run_key (last shown)))"
  have page: "list_runs env fp limit cursor st s = runs_page fp limit below st s"
    using Suc.prems(3) env by (simp add: list_runs_def below_def decode_encode_runs run_key_def)
  have "newest_runs (filter (run_listed fp st below) (t_runs s)) = rest"
  proof (cases "shown = []")
    case False
    then have "filter (run_listed fp st below) (t_runs s) =
        filter (\<lambda>r. run_key r < run_key (last shown)) (filter (run_listed fp st None) (t_runs s))"
      by (auto simp: below_def run_listed_below intro!: filter_cong)
    then show ?thesis
      using Suc.prems(1) below_last [OF Suc.prems(2) False] by (simp only: newest_filter [of "\<lambda>r. run_key r < run_key (last shown)"])
  qed (use Suc.prems(1) in \<open>simp add: below_def\<close>)
  note p = page_of_rest [OF this limit]
  show ?case
  proof (cases "limit < length rest")
    case True
    have "load_runs n env fp limit (Some (encode_runs_cursor (rn_started_at (rest ! (limit - 1))) (rn_id (rest ! (limit - 1))))) st s =
        Some (drop limit rest)"
    proof (rule Suc.IH)
      show "newest_runs (filter (run_listed fp st None) (t_runs s)) = (shown @ take limit rest) @ drop limit rest"
        "later_first ((shown @ take limit rest) @ drop limit rest)" using Suc.prems(1,2) by simp_all
      have "last (take limit rest) = rest ! (limit - 1)" "take limit rest \<noteq> []"
        using last_of_page [OF limit True] by simp_all
      then show "Some (encode_runs_cursor (rn_started_at (rest ! (limit - 1))) (rn_id (rest ! (limit - 1)))) =
          (if shown @ take limit rest = [] then None
           else Some (encode_runs_cursor (rn_started_at (last (shown @ take limit rest))) (rn_id (last (shown @ take limit rest)))))"
        by simp
      show "length (drop limit rest) < n" using True limit Suc.prems(4) by simp
    qed
    with True show ?thesis by (simp add: page p)
  qed (simp add: page p)
qed simp

text \<open>
  Paging through the run history of a cron shows every run exactly once.  Following the cursors from
  the first page, with any page size from one and any state filter, ends, and the pages one after the
  other are all runs of the cron with that state, newest first, each exactly once, as long as no run is
  written in between (run ids are unique and \<open>json.loads\<close> reads back what \<open>json.dumps\<close> wrote).
\<close>

theorem run_pages_complete:
  assumes "distinct (map rn_id (t_runs s))" and "loads_inverts_runs env" and "1 \<le> limit"
  shows "load_runs (Suc (length (t_runs s))) env fp limit None st s =
    Some (newest_runs (filter (run_listed fp st None) (t_runs s)))"
proof (rule load_rest [where shown = "[]"])
  have "distinct (map rn_id (filter (run_listed fp st None) (t_runs s)))" using assms(1) by (rule distinct_map_filter)
  then show "later_first ([] @ newest_runs (filter (run_listed fp st None) (t_runs s)))" by (simp add: newest_later_first)
qed (use assms in \<open>simp_all add: le_imp_less_Suc\<close>)

section \<open>What pruning keeps\<close>

lemma filter_take_keys:
  "distinct (map f xs) \<Longrightarrow> filter (\<lambda>x. f x \<in> set (map f (take n xs))) xs = take n xs"
proof (induction n arbitrary: xs)
  case (Suc n)
  show ?case
  proof (cases xs)
    case (Cons x ys)
    then have d: "f x \<notin> f ` set ys" "distinct (map f ys)" using Suc.prems by auto
    have "filter (\<lambda>y. f y = f x \<or> f y \<in> set (map f (take n ys))) ys = filter (\<lambda>y. f y \<in> set (map f (take n ys))) ys"
      using d(1) by (intro filter_cong refl) (metis imageI)
    with Cons Suc.IH [OF d(2)] show ?thesis by simp
  qed simp
qed simp

lemma prune_distinct: "distinct (map rn_id rs) \<Longrightarrow> distinct (map rn_id (prune_by_count fp n rs))"
  unfolding prune_by_count_def by (rule distinct_map_filter)

lemma prune_one:
  assumes "distinct (map rn_id rs)"
  shows "newest_runs (filter (\<lambda>r. rn_fingerprint r = fp) (prune_by_count fp n rs)) =
    take n (newest_runs (filter (\<lambda>r. rn_fingerprint r = fp) rs))"
proof -
  let ?own = "filter (\<lambda>r. rn_fingerprint r = fp) rs"
  have "filter (\<lambda>r. rn_fingerprint r = fp) (prune_by_count fp n rs) = filter (\<lambda>r. rn_id r \<in> set (newest_ids fp n rs)) ?own"
    by (auto simp: prune_by_count_def intro: filter_cong)
  then have "newest_runs (filter (\<lambda>r. rn_fingerprint r = fp) (prune_by_count fp n rs)) =
      filter (\<lambda>r. rn_id r \<in> set (map rn_id (take n (newest_runs ?own)))) (newest_runs ?own)"
    by (simp only: newest_filter newest_ids_def)
  then show ?thesis using assms by (simp only: filter_take_keys distinct_newest_ids distinct_map_filter)
qed

lemma prune_others: "fp' \<noteq> fp \<Longrightarrow> filter (\<lambda>r. rn_fingerprint r = fp) (prune_by_count fp' n rs) = filter (\<lambda>r. rn_fingerprint r = fp) rs"
  by (auto simp: prune_by_count_def intro: filter_cong)

lemma prune_fold:
  assumes "distinct (map rn_id rs)" and "distinct fps"
  shows "newest_runs (filter (\<lambda>r. rn_fingerprint r = fp) (fold (\<lambda>fp. prune_by_count fp n) fps rs)) =
    (if fp \<in> set fps then take n (newest_runs (filter (\<lambda>r. rn_fingerprint r = fp) rs))
     else newest_runs (filter (\<lambda>r. rn_fingerprint r = fp) rs))"
  using assms
proof (induction fps arbitrary: rs)
  case (Cons g fps)
  then show ?case using prune_distinct [OF Cons.prems(1)] by (cases "g = fp") (auto simp: prune_one prune_others)
qed simp

text \<open>
  Retention is exact.  After pruning, the runs of each cron are precisely its newest \<open>max_rows\<close> runs
  among those that started at or after the cutoff: none of these is lost, none beyond the bound and none
  older than the cutoff is left, whatever the other crons have.
\<close>

theorem run_prune_keeps_newest:
  assumes "distinct (map rn_id rs)"
  shows "newest_runs (filter (\<lambda>r. rn_fingerprint r = fp) (pruned cutoff max_rows rs)) =
    take max_rows (newest_runs (filter (\<lambda>r. rn_fingerprint r = fp \<and> \<not> rn_started_at r < cutoff) rs))"
proof -
  let ?rs = "filter (\<lambda>r. \<not> rn_started_at r < cutoff) rs"
  have "distinct (map rn_id ?rs)" using assms by (rule distinct_map_filter)
  note f = prune_fold [OF this, of "remdups (map rn_fingerprint ?rs)" fp max_rows]
  show ?thesis
  proof (cases "fp \<in> rn_fingerprint ` set ?rs")
    case True
    with f show ?thesis by (simp add: pruned_def prune_all_counts_def) (simp add: conj_commute)
  next
    case False
    then have "filter (\<lambda>r. rn_fingerprint r = fp \<and> \<not> rn_started_at r < cutoff) rs = []" by (auto simp: filter_empty_conv)
    moreover from this have "filter (\<lambda>r. rn_fingerprint r = fp) ?rs = []" by (auto simp: filter_empty_conv)
    ultimately show ?thesis using f False by (simp add: pruned_def prune_all_counts_def newest_runs_def)
  qed
qed

section \<open>Examples\<close>

text \<open>A reader of the cursors' own payloads, to show that the law of \<open>json.loads\<close> can hold.\<close>

definition read_runs_payload :: "nat list \<Rightarrow> json option" where
  "read_runs_payload bs =
     (let t = map char_of bs in
      case read_text (Suc (length t)) (drop 6 t) of
        None \<Rightarrow> None
      | Some (a, r) \<Rightarrow>
          (case read_text (Suc (length t)) (drop 6 r) of
             None \<Rightarrow> None
           | Some (b, _) \<Rightarrow> Some (JObj [(''s'', JStr a), (''r'', JStr b)])))"

lemma escaped_length: "length s \<le> length (concat (map escape_char s))"
proof (induction s)
  case (Cons c s)
  have "escape_char c \<noteq> []" by (simp add: escape_char_def Let_def)
  then have "1 \<le> length (escape_char c)" by (cases "escape_char c") auto
  with Cons show ?case by simp
qed simp

lemma read_runs_payload_dumps:
  "read_runs_payload (bytes_of (dumps (JObj [(''s'', JStr a), (''r'', JStr b)]))) = Some (JObj [(''s'', JStr a), (''r'', JStr b)])"
proof -
  let ?q = "CHR 0x22"
  let ?A = "concat (map escape_char a)" and ?B = "concat (map escape_char b)"
  define t where "t = [CHR ''{'', ?q, CHR ''s'', ?q, CHR '':'', ?q] @ ?A @ ?q # ([CHR '','', ?q, CHR ''r'', ?q, CHR '':'', ?q] @ ?B @ ?q # ''}'')"
  have quoted: "json_text ''s'' = [?q, CHR ''s'', ?q]" "json_text ''r'' = [?q, CHR ''r'', ?q]"
    by (simp_all add: json_text_def escape_char_def Let_def special_chars)
  have "dumps (JObj [(''s'', JStr a), (''r'', JStr b)]) = t"
    by (simp add: quoted t_def) (simp add: json_text_def)
  moreover have "map char_of (bytes_of t) = t" by (simp add: bytes_of_def comp_def)
  moreover have "length a < Suc (length t)" "length b < Suc (length t)"
    using escaped_length [of a] escaped_length [of b] by (simp_all add: t_def)
  moreover have "drop 6 t = ?A @ ?q # ([CHR '','', ?q, CHR ''r'', ?q, CHR '':'', ?q] @ ?B @ ?q # ''}'')" by (simp add: t_def)
  moreover have "drop 6 ([CHR '','', ?q, CHR ''r'', ?q, CHR '':'', ?q] @ ?B @ ?q # ''}'') = ?B @ ?q # ''}''" by simp
  ultimately show ?thesis
    using read_escaped [OF unescape_escape, of a "Suc (length t)" "[CHR '','', ?q, CHR ''r'', ?q, CHR '':'', ?q] @ ?B @ ?q # ''}''"]
      read_escaped [OF unescape_escape, of b "Suc (length t)" "''}''"]
    unfolding read_runs_payload_def Let_def by (simp del: read_text.simps)
qed

definition reading_env :: cron_env where
  "reading_env = quiet_cron_env\<lparr>json_loads := read_runs_payload\<rparr>"

definition three_runs :: "cron_run list" where
  "three_runs = [new_run ''a'' ''f1'' ''wrapper'' ''2026-01-01'' ''w'', new_run ''c'' ''f1'' ''wrapper'' ''2026-01-03'' ''w'',
                 new_run ''b'' ''f1'' ''wrapper'' ''2026-01-02'' ''w'']"

lemma three_newest: "map rn_id (newest_runs three_runs) = [''c'', ''b'', ''a'']"
  by (simp add: newest_runs_def three_runs_def new_run_def run_key_def less_eq_prod_def)

theorem run_pages_complete_witness:
  "load_runs 4 reading_env ''f1'' 2 None None (nightly_store\<lparr>t_runs := three_runs\<rparr>) = Some (newest_runs three_runs)"
proof -
  have "load_runs (Suc (length (t_runs (nightly_store\<lparr>t_runs := three_runs\<rparr>)))) reading_env ''f1'' 2 None None (nightly_store\<lparr>t_runs := three_runs\<rparr>) =
    Some (newest_runs (filter (run_listed ''f1'' None None) (t_runs (nightly_store\<lparr>t_runs := three_runs\<rparr>))))"
  proof (rule run_pages_complete)
    show "loads_inverts_runs reading_env"
      by (simp add: loads_inverts_runs_def reading_env_def read_runs_payload_dumps del: dumps.simps)
  qed (simp_all add: three_runs_def new_run_def)
  moreover have "filter (run_listed ''f1'' None None) three_runs = three_runs"
    by (simp add: three_runs_def new_run_def run_listed_def)
  moreover have "Suc (length three_runs) = 4" by (simp add: three_runs_def)
  ultimately show ?thesis by simp
qed

theorem run_prune_keeps_newest_witness:
  "map rn_id (newest_runs (filter (\<lambda>r. rn_fingerprint r = ''f1'') (pruned ''2026'' 2 three_runs))) = [''c'', ''b'']"
proof -
  have "distinct (map rn_id three_runs)" by (simp add: three_runs_def new_run_def)
  from run_prune_keeps_newest [OF this, of "''f1''" "''2026''" 2]
  have "newest_runs (filter (\<lambda>r. rn_fingerprint r = ''f1'') (pruned ''2026'' 2 three_runs)) = take 2 (newest_runs three_runs)"
    by (simp add: three_runs_def new_run_def)
  then show ?thesis using three_newest by (simp add: take_map [symmetric])
qed

end
