(* ===== verification/RunHealth.thy ===== *)
theory RunHealth
  imports CronRuns "HOL-Library.Multiset"
begin

text \<open>
  What the reconciler derives from a closed run: the digest of its output, which sees the shape of the
  lines but no time, process id or number (kernel/metrics/cron_run_reconciler.py), and the rule-based
  anomaly flags against the recent history of the cron (kernel/cron/run_anomaly.py).  Python floats are
  rationals.
\<close>

section \<open>The digest\<close>

text \<open>
  A matcher gives the rest of the text after a match at its head.  \<open>sub_all\<close> is \<open>pattern.sub("", s)\<close>: at
  each position, from the left, a match is dropped, else the letter is kept; \<open>prev\<close> is the letter
  before the position, which \<open>\b\<close> looks at.
\<close>

fun some_digits :: "nat \<Rightarrow> string \<Rightarrow> string option" where
  "some_digits 0 s = Some s"
| "some_digits (Suc n) s = (case s of [] \<Rightarrow> None | c # cs \<Rightarrow> if is_digit c then some_digits n cs else None)"

definition one_of :: "string \<Rightarrow> string \<Rightarrow> string option" where
  "one_of set_of s = (case s of [] \<Rightarrow> None | c # cs \<Rightarrow> if c \<in> set set_of then Some cs else None)"

definition and_then :: "(string \<Rightarrow> string option) \<Rightarrow> (string \<Rightarrow> string option) \<Rightarrow> string \<Rightarrow> string option" where
  "and_then m n s = Option.bind (m s) n"

definition optionally :: "(string \<Rightarrow> string option) \<Rightarrow> string \<Rightarrow> string option" where
  "optionally m s = (case m s of None \<Rightarrow> Some s | Some r \<Rightarrow> Some r)"

definition one_or_more :: "(char \<Rightarrow> bool) \<Rightarrow> string \<Rightarrow> string option" where
  "one_or_more p s = (case s of [] \<Rightarrow> None | c # cs \<Rightarrow> if p c then Some (dropWhile p cs) else None)"

fun in_order :: "(string \<Rightarrow> string option) list \<Rightarrow> string \<Rightarrow> string option" where
  "in_order [] = Some"
| "in_order (m # ms) = and_then m (in_order ms)"

text \<open>\<open>\d{4}-\d{2}-\d{2}[T ]\d{2}:\d{2}:\d{2}(?:\.\d+)?(?:[+-]\d{2}:?\d{2}|Z)?\<close>\<close>

definition match_iso :: "string \<Rightarrow> string option" where
  "match_iso =
     in_order [some_digits 4, one_of ''-'', some_digits 2, one_of ''-'', some_digits 2, one_of ''T '',
               some_digits 2, one_of '':'', some_digits 2, one_of '':'', some_digits 2,
               optionally (in_order [one_of ''.'', one_or_more is_digit]),
               optionally (\<lambda>s. case in_order [one_of ''+-'', some_digits 2, optionally (one_of '':''), some_digits 2] s of
                                 None \<Rightarrow> one_of ''Z'' s | Some r \<Rightarrow> Some r)]"

definition is_upper :: "char \<Rightarrow> bool" where
  "is_upper c = (let n = of_char c :: nat in 65 \<le> n \<and> n \<le> 90)"

definition is_lower :: "char \<Rightarrow> bool" where
  "is_lower c = (let n = of_char c :: nat in 97 \<le> n \<and> n \<le> 122)"

definition one_char :: "(char \<Rightarrow> bool) \<Rightarrow> string \<Rightarrow> string option" where
  "one_char p s = (case s of [] \<Rightarrow> None | c # cs \<Rightarrow> if p c then Some cs else None)"

text \<open>\<open>[A-Z][a-z]{2}\s+\d{1,2}\s+\d{2}:\d{2}:\d{2}\<close>; the classes are disjoint, so greedy is enough.\<close>

definition match_syslog :: "string \<Rightarrow> string option" where
  "match_syslog =
     in_order [one_char is_upper, one_char is_lower, one_char is_lower, one_or_more is_space, some_digits 1,
               optionally (some_digits 1), one_or_more is_space, some_digits 2, one_of '':'', some_digits 2, one_of '':'',
               some_digits 2]"

text \<open>\<open>\[\d+\]\<close>\<close>

definition match_pid :: "string \<Rightarrow> string option" where
  "match_pid = in_order [one_of ''['', one_or_more is_digit, one_of '']'']"

text \<open>
  \<open>\b\d+\b\<close>: the run of digits is preceded and followed by no word letter.  The letters above ASCII
  that \<open>\w\<close> admits are those of \<open>str.isalnum\<close>.
\<close>

definition is_word :: "char \<Rightarrow> bool" where
  "is_word c =
     (let n = of_char c :: nat in
      is_alnum c \<or> n = 95 \<or> n \<in> {170, 178, 179, 181, 185, 186, 188, 189, 190} \<or> (192 \<le> n \<and> n \<noteq> 215 \<and> n \<noteq> 247))"

definition match_int :: "char option \<Rightarrow> string \<Rightarrow> string option" where
  "match_int prev s =
     (if (case prev of None \<Rightarrow> False | Some c \<Rightarrow> is_word c) then None
      else (case one_or_more is_digit s of
              None \<Rightarrow> None
            | Some r \<Rightarrow> (case r of [] \<Rightarrow> Some r | c # _ \<Rightarrow> if is_word c then None else Some r)))"

text \<open>
  The patterns match no empty text, so that the rest is shorter; after a match the letter before the
  position is the last one of the match.
\<close>

fun sub_fuel :: "nat \<Rightarrow> (char option \<Rightarrow> string \<Rightarrow> string option) \<Rightarrow> char option \<Rightarrow> string \<Rightarrow> string" where
  "sub_fuel 0 m prev s = s"
| "sub_fuel (Suc n) m prev s =
     (case s of
        [] \<Rightarrow> []
      | c # cs \<Rightarrow>
          (case m prev s of
             None \<Rightarrow> c # sub_fuel n m (Some c) cs
           | Some r \<Rightarrow> sub_fuel n m (Some (last (take (length s - length r) s))) r))"

definition sub_all :: "(char option \<Rightarrow> string \<Rightarrow> string option) \<Rightarrow> string \<Rightarrow> string" where
  "sub_all m s = sub_fuel (Suc (length s)) m None s"

definition normalize_for_digest :: "string \<Rightarrow> string" where
  "normalize_for_digest message =
     sub_all match_int (sub_all (\<lambda>_. match_pid) (sub_all (\<lambda>_. match_syslog) (sub_all (\<lambda>_. match_iso) message)))"

definition compute_content_digest :: "cron_env \<Rightarrow> string list \<Rightarrow> string" where
  "compute_content_digest env messages =
     sha256 env (join_with [char_of (10 :: nat)] (map normalize_for_digest messages))"

section \<open>Anomaly flags\<close>

record anomaly_config =
  an_min_history :: nat
  an_rolling_window :: nat
  an_duration_k :: rat
  an_output_band :: rat

text \<open>\<open>statistics.quantiles(values, n=20, method="inclusive")[18]\<close>\<close>

definition p95 :: "rat list \<Rightarrow> rat option" where
  "p95 xs =
     (if xs = [] then None
      else if length xs < 2 then Some (hd xs)
      else (let ys = sort xs; m = length xs - 1; j = 19 * m div 20; delta = 19 * m mod 20
            in Some ((ys ! j * of_nat (20 - delta) + ys ! (j + 1) * of_nat delta) / 20)))"

definition median :: "rat list \<Rightarrow> rat option" where
  "median xs =
     (if xs = [] then None
      else (let ys = sort xs; n = length xs; i = n div 2
            in Some (if odd n then ys ! i else (ys ! (i - 1) + ys ! i) / 2)))"

definition given :: "('a \<Rightarrow> 'b option) \<Rightarrow> 'a list \<Rightarrow> 'b list" where
  "given f xs = List.map_filter f xs"

text \<open>The most common code, the lower one on a tie: the least of (- count, code).\<close>

definition dominant_exit_code :: "cron_run list \<Rightarrow> int option" where
  "dominant_exit_code history =
     (let codes = given rn_exit_code history in
      if codes = [] then None
      else Some (snd (Min ((\<lambda>c. (- int (count_list codes c), c)) ` set codes))))"

definition rule_duration_outlier :: "cron_run \<Rightarrow> cron_run list \<Rightarrow> rat \<Rightarrow> string option" where
  "rule_duration_outlier run history k =
     (case rn_duration run of
        None \<Rightarrow> None
      | Some d \<Rightarrow>
          (case p95 (given rn_duration history) of
             None \<Rightarrow> None
           | Some p \<Rightarrow> if p \<le> 0 then None else if k * p < d then Some ''duration_outlier'' else None))"

definition rule_exit_code_changed :: "cron_run \<Rightarrow> cron_run list \<Rightarrow> string option" where
  "rule_exit_code_changed run history =
     (case rn_exit_code run of
        None \<Rightarrow> None
      | Some x \<Rightarrow>
          (case dominant_exit_code history of
             None \<Rightarrow> None
           | Some y \<Rightarrow> if x \<noteq> y then Some ''exit_code_changed'' else None))"

definition line_median :: "cron_run list \<Rightarrow> rat option" where
  "line_median history = median (map of_int (given rn_line_count history))"

definition rule_output_size_spike :: "cron_run \<Rightarrow> cron_run list \<Rightarrow> rat \<Rightarrow> string option" where
  "rule_output_size_spike run history band =
     (case rn_line_count run of
        None \<Rightarrow> None
      | Some n \<Rightarrow>
          (case line_median history of
             None \<Rightarrow> None
           | Some med \<Rightarrow>
               if med = 0 then (if 0 < n then Some ''output_size_spike'' else None)
               else if med * (1 + band) < of_int n then Some ''output_size_spike'' else None))"

definition rule_output_size_drop :: "cron_run \<Rightarrow> cron_run list \<Rightarrow> rat \<Rightarrow> string option" where
  "rule_output_size_drop run history band =
     (case rn_line_count run of
        None \<Rightarrow> None
      | Some n \<Rightarrow>
          (case line_median history of
             None \<Rightarrow> None
           | Some med \<Rightarrow> if med = 0 then None else if of_int n < med * (1 - band) then Some ''output_size_drop'' else None))"

definition rule_unexpected_empty :: "cron_run \<Rightarrow> cron_run list \<Rightarrow> string option" where
  "rule_unexpected_empty run history =
     (if rn_line_count run \<noteq> Some 0 then None
      else (let lcs = given rn_line_count history in
            if lcs \<noteq> [] \<and> length lcs < length (filter (\<lambda>c. 0 < c) lcs) * 2 then Some ''unexpected_empty'' else None))"

definition rule_new_failure :: "cron_run \<Rightarrow> cron_run list \<Rightarrow> string option" where
  "rule_new_failure run history =
     (if rn_state run \<noteq> ''fail'' then None
      else if history \<noteq> [] \<and> list_all (\<lambda>r. rn_state r = ''ok'') history then Some ''new_failure'' else None)"

definition evaluate_run :: "cron_run \<Rightarrow> cron_run list \<Rightarrow> anomaly_config \<Rightarrow> string" where
  "evaluate_run run history cfg =
     (if length history < an_min_history cfg then []
      else join_with '',''
        (given id
          [rule_duration_outlier run history (an_duration_k cfg), rule_exit_code_changed run history,
           rule_output_size_spike run history (an_output_band cfg), rule_output_size_drop run history (an_output_band cfg),
           rule_unexpected_empty run history, rule_new_failure run history]))"

section \<open>The flags depend on what the history holds, not on its order\<close>

lemma given_set: "set (given f xs) = {y. \<exists>x \<in> set xs. f x = Some y}"
  by (force simp: given_def List.map_filter_def)

lemma given_mset: "mset xs = mset ys \<Longrightarrow> mset (given f xs) = mset (given f ys)"
  by (simp add: given_def List.map_filter_def mset_filter)

lemma same_multiset:
  assumes "mset xs = mset ys"
  shows "sort xs = sort ys" "length xs = length ys" "xs = [] \<longleftrightarrow> ys = []"
proof -
  show "sort xs = sort ys" by (rule properties_for_sort) (simp_all add: assms)
  show "length xs = length ys" using assms by (rule mset_eq_length)
  then show "xs = [] \<longleftrightarrow> ys = []" by auto
qed

lemma p95_mset: "mset xs = mset ys \<Longrightarrow> p95 xs = p95 ys"
proof -
  assume m: "mset xs = mset ys"
  then have "sort xs = sort ys" "length xs = length ys" "xs = [] \<longleftrightarrow> ys = []"
    by (rule same_multiset)+
  moreover have "length xs < 2 \<Longrightarrow> xs \<noteq> [] \<Longrightarrow> hd xs = hd ys"
    using m by (cases xs; cases "tl xs"; cases ys) auto
  ultimately show ?thesis by (simp add: p95_def)
qed

lemma median_mset: "mset xs = mset ys \<Longrightarrow> median xs = median ys"
proof -
  assume m: "mset xs = mset ys"
  then have "sort xs = sort ys" "length xs = length ys" "xs = [] \<longleftrightarrow> ys = []"
    by (rule same_multiset)+
  then show ?thesis by (simp add: median_def)
qed

lemma dominant_mset: "mset xs = mset ys \<Longrightarrow> dominant_exit_code xs = dominant_exit_code ys"
proof -
  assume "mset xs = mset ys"
  then have m: "mset (given rn_exit_code xs) = mset (given rn_exit_code ys)" by (rule given_mset)
  then have "set (given rn_exit_code xs) = set (given rn_exit_code ys)" by (rule mset_eq_setD)
  moreover have "count_list (given rn_exit_code xs) = count_list (given rn_exit_code ys)"
    using m by (auto simp: fun_eq_iff count_mset [symmetric])
  moreover have "given rn_exit_code xs = [] \<longleftrightarrow> given rn_exit_code ys = []" using same_multiset [OF m] by simp
  ultimately show ?thesis unfolding dominant_exit_code_def Let_def by simp
qed

lemma flags_mset:
  assumes "mset h = mset h'"
  shows "evaluate_run run h cfg = evaluate_run run h' cfg"
proof -
  have m: "mset (given f h) = mset (given f h')" for f :: "cron_run \<Rightarrow> 'x option" using assms by (rule given_mset)
  have dur: "p95 (given rn_duration h) = p95 (given rn_duration h')" by (rule p95_mset [OF m])
  have med: "line_median h = line_median h'"
    unfolding line_median_def using m [of rn_line_count] by (intro median_mset) simp
  have lens: "length (given rn_line_count h) = length (given rn_line_count h')" using m by (rule mset_eq_length)
  have "mset (filter ((<) 0) (given rn_line_count h)) = mset (filter ((<) 0) (given rn_line_count h'))"
    using m [of rn_line_count] by simp
  then have pos: "length (filter ((<) 0) (given rn_line_count h)) = length (filter ((<) 0) (given rn_line_count h'))"
    by (rule mset_eq_length)
  have sets: "set h = set h'" "length h = length h'" using assms by (auto dest: mset_eq_setD mset_eq_length)
  then have ok: "list_all (\<lambda>r. rn_state r = ''ok'') h = list_all (\<lambda>r. rn_state r = ''ok'') h'" by (simp add: list_all_iff)
  have emp: "h = [] \<longleftrightarrow> h' = []" "given rn_line_count h = [] \<longleftrightarrow> given rn_line_count h' = []"
    using sets lens by auto
  show ?thesis
    unfolding evaluate_run_def rule_duration_outlier_def rule_exit_code_changed_def rule_output_size_spike_def
      rule_output_size_drop_def rule_unexpected_empty_def rule_new_failure_def Let_def
    by (simp only: dur med lens pos ok emp sets dominant_mset [OF assms])
qed

section \<open>A steady cron\<close>

lemma given_steady: "(\<And>x. x \<in> set xs \<Longrightarrow> f x = Some y) \<Longrightarrow> given f xs = replicate (length xs) y"
proof (induction xs)
  case (Cons x xs)
  then show ?case by (simp add: given_def List.map_filter_def)
qed (simp add: given_def List.map_filter_def)

lemma sort_replicate: "sort (replicate n x) = replicate n x"
  by (rule sort_key_id_if_sorted) (simp add: sorted_replicate)

lemma p95_steady: "0 < n \<Longrightarrow> p95 (replicate n d) = Some d"
proof -
  assume n: "0 < n"
  show ?thesis
  proof (cases "n < 2")
    case True
    with n show ?thesis by (simp add: p95_def)
  next
    case False
    let ?j = "19 * (n - 1) div 20" and ?delta = "19 * (n - 1) mod 20"
    have j: "?j + 1 < n" using False by linarith
    have "?delta < 20" by simp
    then have "(of_nat (20 - ?delta) + of_nat ?delta :: rat) = 20" by (simp add: of_nat_diff)
    then have "(d * of_nat (20 - ?delta) + d * of_nat ?delta) / 20 = d" by (simp add: distrib_left [symmetric])
    with False n j show ?thesis by (simp add: p95_def Let_def sort_replicate)
  qed
qed

lemma median_steady: "0 < n \<Longrightarrow> median (replicate n m) = Some m"
proof -
  assume n: "0 < n"
  then have "n div 2 < n" "n div 2 - 1 < n" by auto
  with n show ?thesis by (simp add: median_def Let_def sort_replicate)
qed

text \<open>
  A cron that behaves as it always did is never flagged: when every run of the history succeeded with
  the same duration, exit code and number of lines, a run with these values that did not fail gets no
  flag, for every multiplier from one and every band from zero; and the flags of any run depend on which
  runs the history holds, not on their order.
\<close>

theorem steady_run_unflagged:
  assumes "\<And>r. r \<in> set history \<Longrightarrow> rn_duration r = rn_duration run \<and> rn_exit_code r = rn_exit_code run \<and>
      rn_line_count r = rn_line_count run"
    and "rn_duration run = Some d" and "rn_exit_code run = Some x" and "rn_line_count run = Some n" and "0 \<le> n"
    and "rn_state run \<noteq> ''fail''" and "1 \<le> an_duration_k cfg" and "0 \<le> an_output_band cfg" and "history \<noteq> []"
  shows "evaluate_run run history cfg = [] \<and>
    (mset history = mset other_history \<longrightarrow> evaluate_run any_run history cfg = evaluate_run any_run other_history cfg)"
proof
  let ?l = "length history"
  have l: "0 < ?l" using assms(9) by simp
  have g: "given rn_duration history = replicate ?l d" "given rn_exit_code history = replicate ?l x"
    "given rn_line_count history = replicate ?l n"
    using assms(1-4) by (simp_all add: given_steady)
  have dur: "rule_duration_outlier run history (an_duration_k cfg) = None"
  proof -
    show ?thesis using assms(2,7) by (simp add: rule_duration_outlier_def g p95_steady [OF l])
  qed
  have "dominant_exit_code history = Some x"
    using l by (simp add: dominant_exit_code_def Let_def g)
  then have ex: "rule_exit_code_changed run history = None" by (simp add: rule_exit_code_changed_def assms(3))
  have med: "line_median history = Some (of_int n)" using median_steady [OF l] by (simp add: line_median_def g)
  have n: "\<not> rat_of_int n * an_output_band cfg < 0" using assms(5,8) by (simp add: not_less)
  have spike: "rule_output_size_spike run history (an_output_band cfg) = None"
    using n assms(5) by (simp add: rule_output_size_spike_def assms(4) med distrib_left)
  have drop: "rule_output_size_drop run history (an_output_band cfg) = None"
    using n by (simp add: rule_output_size_drop_def assms(4) med right_diff_distrib)
  have emp: "rule_unexpected_empty run history = None" by (simp add: rule_unexpected_empty_def assms(4) g Let_def)
  have new: "rule_new_failure run history = None" by (simp add: rule_new_failure_def assms(6))
  show "evaluate_run run history cfg = []"
    by (simp add: evaluate_run_def dur ex spike drop emp new given_def List.map_filter_def)
  show "mset history = mset other_history \<longrightarrow> evaluate_run any_run history cfg = evaluate_run any_run other_history cfg"
    using flags_mset by blast
qed

definition steady_run :: "string \<Rightarrow> cron_run" where
  "steady_run i = (new_run i ''f1'' ''wrapper'' ''t'' ''t'')\<lparr>rn_state := ''ok'', rn_duration := Some 30, rn_exit_code := Some 0, rn_line_count := Some 12\<rparr>"

definition slow_run :: cron_run where
  "slow_run = (steady_run ''z'')\<lparr>rn_duration := Some 500, rn_line_count := Some 0\<rparr>"

definition default_anomaly :: anomaly_config where
  "default_anomaly = \<lparr>an_min_history = 2, an_rolling_window = 20, an_duration_k = 4, an_output_band = 1 / 2\<rparr>"

lemma slow_run_flagged:
  "evaluate_run slow_run [steady_run ''a'', steady_run ''b'', steady_run ''c''] default_anomaly =
     ''duration_outlier,output_size_drop,unexpected_empty''"
  by (simp add: slow_run_def steady_run_def new_run_def default_anomaly_def evaluate_run_def rule_duration_outlier_def
    rule_exit_code_changed_def rule_output_size_spike_def rule_output_size_drop_def rule_unexpected_empty_def rule_new_failure_def
    dominant_exit_code_def line_median_def p95_def median_def given_def List.map_filter_def Let_def)

theorem steady_run_unflagged_witness:
  "evaluate_run (steady_run ''z'') [steady_run ''a'', steady_run ''b''] default_anomaly = [] \<and>
   evaluate_run slow_run [steady_run ''a'', steady_run ''b''] default_anomaly =
     evaluate_run slow_run [steady_run ''b'', steady_run ''a''] default_anomaly"
proof -
  have "evaluate_run (steady_run ''z'') [steady_run ''a'', steady_run ''b''] default_anomaly = [] \<and>
    (mset [steady_run ''a'', steady_run ''b''] = mset [steady_run ''b'', steady_run ''a''] \<longrightarrow>
     evaluate_run slow_run [steady_run ''a'', steady_run ''b''] default_anomaly =
       evaluate_run slow_run [steady_run ''b'', steady_run ''a''] default_anomaly)"
    by (rule steady_run_unflagged [where d = 30 and x = 0 and n = 12]) (auto simp: steady_run_def new_run_def default_anomaly_def)
  then show ?thesis by simp
qed

end
