(* ===== verification/TableWrites.thy ===== *)
theory TableWrites
  imports CronStore
begin

text \<open>
  The contract of a table whose rows are only changed in ways a relation allows: every row of a table is
  found again, related, after any write.  Each operation satisfies it when each of its statements does.
\<close>

definition kept_rows :: "('s \<Rightarrow> 'r list) \<Rightarrow> ('r \<Rightarrow> 'r \<Rightarrow> bool) \<Rightarrow> 's \<Rightarrow> 's \<Rightarrow> bool" where
  "kept_rows rows keep s t \<longleftrightarrow> (\<forall>r \<in> set (rows s). \<exists>r' \<in> set (rows t). keep r r')"

locale table_writes =
  fixes rows :: "cron_store \<Rightarrow> 'r list" and keep :: "'r \<Rightarrow> 'r \<Rightarrow> bool"
  assumes keep_refl: "keep r r"
    and keep_trans: "keep r1 r2 \<Longrightarrow> keep r2 r3 \<Longrightarrow> keep r1 r3"
    and audit_rows: "rows (add_audit row s) = rows s"
begin

lemma kept_refl: "kept_rows rows keep s s"
  using keep_refl by (auto simp: kept_rows_def)

lemma kept_star: "(kept_rows rows keep)\<^sup>*\<^sup>* s t \<Longrightarrow> kept_rows rows keep s t"
proof (induction rule: rtranclp_induct)
  case base
  show ?case by (rule kept_refl)
next
  case (step t u)
  then show ?case using keep_trans unfolding kept_rows_def by meson
qed

lemma same_rows: "(\<And>s. rows (g s) = rows s) \<Longrightarrow> guar (kept_rows rows keep) (modS g)"
  by (rule guar_modS_step) (use kept_refl in \<open>simp add: kept_rows_def\<close>)

lemma mapped_rows:
  assumes "\<And>s. rows (g s) = map (f s) (rows s)" and "\<And>s r. keep r (f s r)"
  shows "guar (kept_rows rows keep) (modS g)"
  by (rule guar_modS_step) (use assms in \<open>auto simp: kept_rows_def\<close>)

lemma added_rows:
  assumes "\<And>s. \<exists>rs. rows (g s) = rows s @ rs"
  shows "guar (kept_rows rows keep) (modS g)"
proof (rule guar_modS_step)
  fix s show "kept_rows rows keep s (g s)" using assms [of s] keep_refl unfolding kept_rows_def by (metis UnI1 set_append)
qed

lemma audited: "guar (kept_rows rows keep) (cron_audit env who what before after ip now)"
  unfolding cron_audit_def
  by (rule guar_insert_audit) (use keep_refl audit_rows in \<open>auto simp: kept_rows_def\<close>)

lemma returned:
  assumes "guar (kept_rows rows keep) m" and "m w = (x, w')" and "r \<in> set (rows (shared w))"
  shows "\<exists>r' \<in> set (rows (shared w')). keep r r'"
  using kept_star [OF guarD [OF assms(1,2)]] assms(3) by (simp add: kept_rows_def)

end

end
