(* ===== verification/CronEvents.thy ===== *)
theory CronEvents
  imports Crons RunHealth TableWrites
begin

text \<open>
  Where the cron components meet: the ingest of log events (kernel/api/routers/cron_events.py and
  kernel/cron/log_event.py), the heartbeat receiver (kernel/api/routers/heartbeat.py) and the tick of the
  run reconciler with the failure snapshots (kernel/metrics/cron_run_reconciler.py,
  kernel/logs/cron_run_failure_enrichments_repo.py).
\<close>

section \<open>Ingest\<close>

record log_event =
  ev_host :: string
  ev_command :: string
  ev_timestamp :: string
  ev_exit_code :: "int option"
  ev_cursor :: "string option"

datatype disposition = ObservedRun | StateOk | StateFail | ReplaySkipped | NoMatch | Ambiguous

definition synthesize_cursor :: "cron_env \<Rightarrow> log_event \<Rightarrow> string" where
  "synthesize_cursor env ev =
     ''syslog|'' @ sha256 env (ev_host ev @ ''|'' @ ev_timestamp ev @ ''|'' @ ev_command ev @ ''|'' @
       (case ev_exit_code ev of None \<Rightarrow> ''None'' | Some x \<Rightarrow> str_of_int x))"

text \<open>\<open>event.journal_cursor or synthesize_cursor(event)\<close>: an empty cursor counts as none.\<close>

definition event_cursor :: "cron_env \<Rightarrow> log_event \<Rightarrow> string" where
  "event_cursor env ev =
     (case ev_cursor ev of
        None \<Rightarrow> synthesize_cursor env ev
      | Some c \<Rightarrow> if c = [] then synthesize_cursor env ev else c)"

definition ingest_who :: string where
  "ingest_who = ''system:log-scrape''"

definition seconds_between :: "cron_env \<Rightarrow> string \<Rightarrow> string \<Rightarrow> rat" where
  "seconds_between env from_ts to_ts = of_int (text_us env to_ts - text_us env from_ts) / 1000000"

definition close_bmode_run :: "cron_env \<Rightarrow> string \<Rightarrow> log_event \<Rightarrow> string \<Rightarrow> unit cron_prog" where
  "close_bmode_run env fp ev st =
     bindP (fetch env (find_open_run_by_fingerprint fp (ev_timestamp ev))) (\<lambda>open_run.
     case open_run of
       None \<Rightarrow> ret ()
     | Some r \<Rightarrow>
         close_run env (rn_id r) fp ''logscrape'' st (ev_timestamp ev)
           (Some (seconds_between env (rn_started_at r) (ev_timestamp ev))) (ev_exit_code ev) (ev_timestamp ev))"

definition apply_event :: "cron_env \<Rightarrow> string \<Rightarrow> log_event \<Rightarrow> disposition cron_prog" where
  "apply_event env fp ev =
     (case ev_exit_code ev of
        None \<Rightarrow>
          seqP (record_observed_run env fp (ev_timestamp ev) ingest_who None)
          (bindP (ask (uuid env)) (\<lambda>i.
          seqP (insert_run env i fp ''logscrape'' (ev_timestamp ev) (ev_timestamp ev)) (ret ObservedRun)))
      | Some x \<Rightarrow>
          if x = 0 then
            seqP (record_ok env fp None ingest_who None) (seqP (close_bmode_run env fp ev ''ok'') (ret StateOk))
          else
            seqP (record_fail env fp None (Some x) ingest_who None) (seqP (close_bmode_run env fp ev ''fail'') (ret StateFail)))"

definition process_one :: "cron_env \<Rightarrow> log_event \<Rightarrow> disposition cron_prog" where
  "process_one env ev =
     bindP (ask (now_iso env)) (\<lambda>now.
     bindP (try_claim_cursor env (event_cursor env ev) now) (\<lambda>claimed.
     if \<not> claimed then ret ReplaySkipped
     else
       bindP (fetch env (match_by_log_key (ev_host ev) (canonical_log_key (ev_command ev)))) (\<lambda>candidates.
       case candidates of
         [] \<Rightarrow> ret NoMatch
       | c # others \<Rightarrow>
           if others \<noteq> [] then
             seqP (emit (Act (Counter ''homelab_cron_logscrape_ambiguous_total'' [(''host'', ev_host ev)]))) (ret Ambiguous)
           else
             seqP (emit (Act (Counter ''homelab_cron_logscrape_matches_total'' [(''host'', ev_host ev)])))
               (apply_event env (cr_fingerprint c) ev))))"

text \<open>The batch: the counts of the answer are those of the dispositions, in this order.\<close>

fun ingest_dispositions :: "cron_env \<Rightarrow> log_event list \<Rightarrow> disposition list cron_prog" where
  "ingest_dispositions env [] = ret []"
| "ingest_dispositions env (ev # evs) =
     bindP (process_one env ev) (\<lambda>d. bindP (ingest_dispositions env evs) (\<lambda>ds. ret (d # ds)))"

record ingest_reply =
  ig_received :: nat
  ig_counts :: "disposition \<Rightarrow> nat"

definition ingest_cron_events :: "cron_env \<Rightarrow> log_event list \<Rightarrow> ingest_reply cron_prog" where
  "ingest_cron_events env evs =
     bindP (ingest_dispositions env evs) (\<lambda>ds. ret \<lparr>ig_received = length evs, ig_counts = count_list ds\<rparr>)"

section \<open>The receiver\<close>

datatype hb_reply = NoContent | RateLimited int | CronNotFound string

definition limit_check :: "cron_env \<Rightarrow> string \<Rightarrow> int option cron_prog" where
  "limit_check env fp =
     bindP (ask (monotonic env)) (\<lambda>t.
     bindP (getS (\<lambda>s. try_acquire (t_limiter s) fp t)) (\<lambda>answer.
     case answer of ((allowed, retry_after), lm) \<Rightarrow>
       seqP (modS (\<lambda>s. s\<lparr>t_limiter := lm\<rparr>)) (ret (if allowed then None else Some (max 1 \<lceil>retry_after\<rceil>)))))"

record hb_query =
  hq_duration :: "rat option"
  hq_exit_code :: "int option"
  hq_run_id :: "string option"

definition query_ping :: "ping \<Rightarrow> hb_query \<Rightarrow> ping" where
  "query_ping kind q =
     (case kind of PingStart \<Rightarrow> PingStart | PingOk _ \<Rightarrow> PingOk (hq_duration q)
      | PingFail _ _ \<Rightarrow> PingFail (hq_duration q) (hq_exit_code q))"

text \<open>The write to \<open>cron_runs\<close>, in a transaction of its own.\<close>

definition run_of_ping :: "cron_env \<Rightarrow> string \<Rightarrow> ping \<Rightarrow> hb_query \<Rightarrow> unit cron_prog" where
  "run_of_ping env fp kind q =
     (case hq_run_id q of
        None \<Rightarrow> ret ()
      | Some i \<Rightarrow>
          bindP (ask (now_iso env)) (\<lambda>now.
          case kind of
            PingStart \<Rightarrow> insert_run env i fp ''wrapper'' now now
          | PingOk _ \<Rightarrow>
              close_run env i fp ''wrapper'' ''ok'' now (hq_duration q)
                (Some (case hq_exit_code q of None \<Rightarrow> 0 | Some x \<Rightarrow> x)) now
          | PingFail _ _ \<Rightarrow> close_run env i fp ''wrapper'' ''fail'' now (hq_duration q) (hq_exit_code q) now))"

definition receive_ping :: "cron_env \<Rightarrow> string \<Rightarrow> ping \<Rightarrow> hb_query \<Rightarrow> string \<Rightarrow> string option \<Rightarrow> hb_reply cron_prog" where
  "receive_ping env fp kind q who ip =
     bindP (fetch env (find_cron fp)) (\<lambda>r.
     case r of
       None \<Rightarrow> ret (CronNotFound (''cron not found: '' @ fp))
     | Some _ \<Rightarrow>
         bindP (limit_check env fp) (\<lambda>limited.
         case limited of
           Some n \<Rightarrow> ret (RateLimited n)
         | None \<Rightarrow> seqP (record_ping env fp (query_ping kind q) who ip) (seqP (run_of_ping env fp kind q) (ret NoContent))))"

definition receive_start :: "cron_env \<Rightarrow> string \<Rightarrow> hb_query \<Rightarrow> string \<Rightarrow> string option \<Rightarrow> hb_reply cron_prog" where
  "receive_start env fp q who ip = receive_ping env fp PingStart q who ip"

definition receive_ok :: "cron_env \<Rightarrow> string \<Rightarrow> hb_query \<Rightarrow> string \<Rightarrow> string option \<Rightarrow> hb_reply cron_prog" where
  "receive_ok env fp q who ip = receive_ping env fp (PingOk None) q who ip"

definition receive_fail :: "cron_env \<Rightarrow> string \<Rightarrow> hb_query \<Rightarrow> string \<Rightarrow> string option \<Rightarrow> hb_reply cron_prog" where
  "receive_fail env fp q who ip = receive_ping env fp (PingFail None None) q who ip"

datatype register_reply = FingerprintMismatch | InvalidSchedule | RegisterLimited int | Registered cron_row bool

definition receive_register :: "cron_env \<Rightarrow> string \<Rightarrow> register_body \<Rightarrow> string \<Rightarrow> string option \<Rightarrow> register_reply cron_prog" where
  "receive_register env fp body who ip =
     (if cron_fingerprint (sha256 env) (rg_host body) (rg_source_path body) (rg_schedule body) (rg_command body) \<noteq> fp
      then ret FingerprintMismatch
      else if cron_canonical env (rg_schedule body) = None then ret InvalidSchedule
      else
        bindP (limit_check env fp) (\<lambda>limited.
        case limited of
          Some n \<Rightarrow> ret (RegisterLimited n)
        | None \<Rightarrow> bindP (register_cron env body fp who ip) (\<lambda>(row, created). ret (Registered row created))))"

end
