(* ===== verification/Reconciler.thy ===== *)
theory Reconciler
  imports CronEvents
begin

text \<open>
  The tick of the run reconciler (kernel/metrics/cron_run_reconciler.py): closing the windows of
  log-scraped runs, enriching closed runs from VictoriaLogs with their anomaly flags and failure
  snapshots (kernel/logs/cron_run_failure_enrichments_repo.py), and pruning.  \<open>vl n\<close> is VictoriaLogs at
  the n-th step.
\<close>

record reconciler_config =
  rc_retention_days :: int
  rc_max_rows_per_cron :: nat
  rc_bmode_timeout_hours :: int
  rc_enrich_grace_seconds :: int
  rc_enrich_max_per_tick :: nat
  rc_enrich_window_slack_seconds :: int
  rc_failure_max_lines :: nat
  rc_failure_retention_days :: int
  rc_failure_max_rows :: nat

definition default_reconciler_config :: reconciler_config where
  "default_reconciler_config =
     \<lparr>rc_retention_days = 30, rc_max_rows_per_cron = 50000, rc_bmode_timeout_hours = 6, rc_enrich_grace_seconds = 15,
      rc_enrich_max_per_tick = 200, rc_enrich_window_slack_seconds = 30, rc_failure_max_lines = 50,
      rc_failure_retention_days = 30, rc_failure_max_rows = 100\<rparr>"

section \<open>Closing windows\<close>

definition hours_us :: "int \<Rightarrow> int" where
  "hours_us h = h * 3600 * 1000000"

text \<open>The runs of one cron, oldest first.\<close>

fun finalize_runs :: "cron_env \<Rightarrow> reconciler_config \<Rightarrow> int \<Rightarrow> cron_run list \<Rightarrow> unit cron_prog" where
  "finalize_runs env cfg now [] = ret ()"
| "finalize_runs env cfg now [r] =
     (let started = text_us env (rn_started_at r) in
      if started < now - hours_us (rc_bmode_timeout_hours cfg) then
        seqP (finalize_bmode_run env (rn_id r) ''unknown'' (us_text env (started + hours_us (rc_bmode_timeout_hours cfg)))
               (Some (of_int (rc_bmode_timeout_hours cfg * 3600))))
          (set_overlapping env (rn_id r))
      else ret ())"
| "finalize_runs env cfg now (r # next_run # rs) =
     seqP (finalize_bmode_run env (rn_id r) ''unknown'' (rn_started_at next_run)
            (Some (seconds_between env (rn_started_at r) (rn_started_at next_run))))
       (finalize_runs env cfg now (next_run # rs))"

text \<open>The dict of lists, in the order in which the fingerprints first occur.\<close>

definition group_runs :: "cron_run list \<Rightarrow> cron_run list list" where
  "group_runs rs = map (\<lambda>fp. filter (\<lambda>r. rn_fingerprint r = fp) rs) (rev (remdups (rev (map rn_fingerprint rs))))"

definition window_finalize :: "cron_env \<Rightarrow> reconciler_config \<Rightarrow> int \<Rightarrow> unit cron_prog" where
  "window_finalize env cfg now =
     bindP (fetch env list_open_bmode_runs) (\<lambda>open_runs. for_each (group_runs open_runs) (finalize_runs env cfg now))"

section \<open>Failure snapshots\<close>

definition failure_known :: "string \<Rightarrow> string \<Rightarrow> cron_store \<Rightarrow> bool" where
  "failure_known fp run_id s = list_ex (\<lambda>f. fe_fingerprint f = fp \<and> fe_run_id f = run_id) (t_failures s)"

text \<open>\<open>INSERT OR IGNORE\<close> on the unique pair of fingerprint and run.\<close>

definition insert_failure :: "cron_env \<Rightarrow> failure_row \<Rightarrow> bool cron_prog" where
  "insert_failure env row =
     bindP (ask (now_iso env)) (\<lambda>now.
     txn env (bindP (getS (failure_known (fe_fingerprint row) (fe_run_id row))) (\<lambda>known.
       if known then ret False
       else seqP (modS (\<lambda>s. s\<lparr>t_failures := t_failures s @ [row\<lparr>fe_created_at := now\<rparr>]\<rparr>)) (ret True))))"

definition get_failure :: "string \<Rightarrow> string \<Rightarrow> cron_store \<Rightarrow> failure_row option" where
  "get_failure fp run_id s = List.find (\<lambda>f. fe_fingerprint f = fp \<and> fe_run_id f = run_id) (t_failures s)"

text \<open>Pruning by age and count; rows of the same time are ordered by insertion.\<close>

definition prune_failure_count :: "string \<Rightarrow> nat \<Rightarrow> failure_row list \<Rightarrow> failure_row list" where
  "prune_failure_count fp max_rows fs =
     (let keep = map fe_id (take max_rows (rev (sort_key fe_created_at (filter (\<lambda>f. fe_fingerprint f = fp) fs))))
      in filter (\<lambda>f. \<not> (fe_fingerprint f = fp \<and> fe_id f \<notin> set keep)) fs)"

definition pruned_failures :: "string \<Rightarrow> nat \<Rightarrow> failure_row list \<Rightarrow> failure_row list" where
  "pruned_failures cutoff max_rows fs =
     (let young = filter (\<lambda>f. \<not> fe_created_at f < cutoff) fs
      in fold (\<lambda>fp. prune_failure_count fp max_rows) (remdups (map fe_fingerprint young)) young)"

definition prune_failures :: "cron_env \<Rightarrow> string \<Rightarrow> nat \<Rightarrow> nat cron_prog" where
  "prune_failures env cutoff max_rows =
     txn env (bindP (getS t_failures) (\<lambda>fs.
       seqP (modS (\<lambda>s. s\<lparr>t_failures := pruned_failures cutoff max_rows (t_failures s)\<rparr>))
         (ret (length fs - length (pruned_failures cutoff max_rows fs)))))"

text \<open>
  \<open>_failure_enrich_run\<close>: the number of counter writes.  Only a VictoriaLogsClientError is caught; a
  ValueError of the query escapes to the caller.
\<close>

definition failure_enrich_run ::
  "cron_env \<Rightarrow> (nat \<Rightarrow> log_env) \<Rightarrow> vl_limits \<Rightarrow> cron_run \<Rightarrow> string \<Rightarrow> string \<Rightarrow> string \<Rightarrow> nat cron_prog" where
  "failure_enrich_run env vl failure_limits run expr window_start window_end =
     bindP (awaitP env (\<lambda>n. vl_query (vl n) failure_limits expr window_start window_end)) (\<lambda>answer.
     bindP (case answer of
              Inr res \<Rightarrow> ret (map from_victorialogs_line (vr_lines res), vr_truncated res, False)
            | Inl (VlClientError msg status) \<Rightarrow> ret ([], False, True)
            | Inl _ \<Rightarrow> raise (ValidationErr ''query'')) (\<lambda>(lines, truncated, degraded).
     bindP (ask (uuid env)) (\<lambda>i.
     bindP (insert_failure env
       \<lparr>fe_id = i, fe_fingerprint = rn_fingerprint run, fe_run_id = rn_id run, fe_exit_code = rn_exit_code run,
        fe_started_at = Some (rn_started_at run), fe_ended_at = rn_ended_at run, fe_lines = lines,
        fe_truncated = truncated, fe_degraded = degraded, fe_window_start = Some window_start,
        fe_window_end = Some window_end, fe_created_at = []\<rparr>) (\<lambda>inserted.
     if \<not> inserted then ret 0
     else
       bindP (fetch env (get_cron (rn_fingerprint run) True)) (\<lambda>c.
       seqP (emit (Act (Counter ''homelab_cron_run_failure_total''
         ([(''cron_fingerprint'', rn_fingerprint run), (''run_id'', rn_id run)] @
          (case c of None \<Rightarrow> [] | Some row \<Rightarrow> [(''name'', cr_name row), (''host'', cr_host row)])))))
         (ret 1))))))"

section \<open>Enrichment\<close>

definition truthy_or :: "string option \<Rightarrow> string \<Rightarrow> string" where
  "truthy_or a b = (case a of None \<Rightarrow> b | Some s \<Rightarrow> if s = [] then b else s)"

definition build_bmode_query :: "string \<Rightarrow> string" where
  "build_bmode_query command = logsql_quote_phrase (canonical_log_key command)"

definition with_enrichment :: "cron_run \<Rightarrow> int \<Rightarrow> int \<Rightarrow> string \<Rightarrow> string \<Rightarrow> cron_run" where
  "with_enrichment run lines bytes digest now =
     (enrichment_values lines bytes digest now run)\<lparr>rn_anomaly_flags := []\<rparr>"

text \<open>The body of the per-run try: query, write the fields, evaluate, write the flags.\<close>

definition enrich_fields ::
  "cron_env \<Rightarrow> (nat \<Rightarrow> log_env) \<Rightarrow> vl_limits \<Rightarrow> anomaly_config \<Rightarrow> cron_run \<Rightarrow> string \<Rightarrow> string \<Rightarrow> string \<Rightarrow> unit cron_prog" where
  "enrich_fields env vl limits anomaly run expr window_start window_end =
     bindP (awaitP env (\<lambda>n. vl_query (vl n) limits expr window_start window_end)) (\<lambda>answer.
     case answer of
       Inl _ \<Rightarrow> raise (ValidationErr ''query'')
     | Inr res \<Rightarrow>
         (let messages = map ln_message (vr_lines res);
              bytes = int (sum_list (map utf8_length messages));
              lines = int (length messages);
              digest = compute_content_digest env messages
          in bindP (ask (now_iso env)) (\<lambda>now.
             seqP (set_enrichment env (rn_id run) lines bytes digest now)
             (bindP (fetch env (list_recent_completed (rn_fingerprint run) (an_rolling_window anomaly) (rn_id run))) (\<lambda>history.
             let flags = evaluate_run (with_enrichment run lines bytes digest now) history anomaly
             in if flags = [] then ret () else set_anomaly_flags env (rn_id run) flags)))))"

definition enrich_window ::
  "cron_env \<Rightarrow> (nat \<Rightarrow> log_env) \<Rightarrow> reconciler_config \<Rightarrow> vl_limits \<Rightarrow> anomaly_config \<Rightarrow> cron_run \<Rightarrow>
     string \<Rightarrow> string \<Rightarrow> string \<Rightarrow> nat \<Rightarrow> nat cron_prog" where
  "enrich_window env vl cfg limits anomaly run expr window_start window_end emitted =
     bindP (tryP (seqP (enrich_fields env vl limits anomaly run expr window_start window_end) (ret True)) (\<lambda>_. ret False)) (\<lambda>ok.
     if \<not> ok \<or> rn_state run \<noteq> ''fail'' then ret emitted
     else
       tryP (bindP (failure_enrich_run env vl (limits\<lparr>max_lines := rc_failure_max_lines cfg\<rparr>) run expr window_start window_end)
              (\<lambda>n. ret (emitted + n)))
         (\<lambda>_. ret emitted))"

definition enrich_one ::
  "cron_env \<Rightarrow> (nat \<Rightarrow> log_env) \<Rightarrow> reconciler_config \<Rightarrow> vl_limits \<Rightarrow> anomaly_config \<Rightarrow> cron_run \<Rightarrow> nat \<Rightarrow> nat cron_prog" where
  "enrich_one env vl cfg limits anomaly run emitted =
     (case rn_ended_at run of
        None \<Rightarrow> ret emitted
      | Some ended_at \<Rightarrow>
          (let window_start = truthy_or (rn_window_start run) (rn_started_at run);
               window_end = truthy_or (rn_window_end run) ended_at
           in if rn_source run = ''wrapper'' then
                (let slack = rc_enrich_window_slack_seconds cfg;
                     wide_end = (if 0 < slack then us_text env (text_us env window_end + slack * 1000000) else window_end)
                 in enrich_window env vl cfg limits anomaly run (build_amode_query (rn_id run)) window_start wide_end emitted)
              else
                bindP (fetch env (get_cron (rn_fingerprint run) True)) (\<lambda>c.
                case c of
                  None \<Rightarrow> ret emitted
                | Some row \<Rightarrow>
                    enrich_window env vl cfg limits anomaly run (build_bmode_query (cr_command row)) window_start window_end emitted)))"

definition enrich ::
  "cron_env \<Rightarrow> (nat \<Rightarrow> log_env) \<Rightarrow> reconciler_config \<Rightarrow> vl_limits \<Rightarrow> anomaly_config \<Rightarrow> int \<Rightarrow> nat cron_prog" where
  "enrich env vl cfg limits anomaly now =
     bindP (fetch env (list_runs_needing_enrich (us_text env (now - rc_enrich_grace_seconds cfg * 1000000)))) (\<lambda>pending.
       fold_prog (enrich_one env vl cfg limits anomaly) (take (rc_enrich_max_per_tick cfg) pending) 0)"

section \<open>The tick\<close>

definition days_us :: "int \<Rightarrow> int" where
  "days_us d = d * 86400 * 1000000"

definition prune_phase :: "cron_env \<Rightarrow> reconciler_config \<Rightarrow> int \<Rightarrow> unit cron_prog" where
  "prune_phase env cfg now =
     seqP (prune_runs env (us_text env (now - days_us (rc_retention_days cfg))) (rc_max_rows_per_cron cfg))
     (seqP (prune_failures env (us_text env (now - days_us (rc_failure_retention_days cfg))) (rc_failure_max_rows cfg))
       (ret ()))"

record tick_result =
  tk_ok :: bool
  tk_metrics :: nat
  tk_errors :: "string list"

definition phase :: "string \<Rightarrow> 'a cron_prog \<Rightarrow> 'a \<Rightarrow> ('a \<times> string list) cron_prog" where
  "phase name m default_value =
     tryP (bindP m (\<lambda>x. ret (x, []))) (\<lambda>e. ret (default_value, [name @ '': '' @ exn_msg e]))"

definition reconciler_tick ::
  "cron_env \<Rightarrow> (nat \<Rightarrow> log_env) \<Rightarrow> reconciler_config \<Rightarrow> vl_limits \<Rightarrow> anomaly_config \<Rightarrow> tick_result cron_prog" where
  "reconciler_tick env vl cfg limits anomaly =
     bindP (ask (clock env)) (\<lambda>now.
     bindP (phase ''window_finalize'' (window_finalize env cfg now) ()) (\<lambda>(u, errs1).
     bindP (phase ''enrich'' (enrich env vl cfg limits anomaly now) 0) (\<lambda>(emitted, errs2).
     bindP (phase ''prune'' (prune_phase env cfg now) ()) (\<lambda>(v, errs3).
     let errors = errs1 @ errs2 @ errs3 in
     ret \<lparr>tk_ok = (errors = []), tk_metrics = emitted, tk_errors = errors\<rparr>))))"

end
