(* ===== verification/CronLaws.thy ===== *)
theory CronLaws
  imports Reconciler
begin

text \<open>
  What every task of the cron subsystem keeps of the rows it finds: the identity of the crons, the
  operator's settings, and the outcome of a run.  The laws are stated once, in locales over the
  relation that is kept, and interpreted for each of these relations.
\<close>

section \<open>Case splits\<close>

lemma guar_case_list [guar_intros]:
  "guar R m \<Longrightarrow> (\<And>x xs. guar R (n x xs)) \<Longrightarrow> guar R (case l of [] \<Rightarrow> m | x # xs \<Rightarrow> n x xs)"
  by (cases l) simp_all

lemma guar_case_ping [guar_intros]:
  "guar R a \<Longrightarrow> (\<And>d. guar R (b d)) \<Longrightarrow> (\<And>d x. guar R (c d x)) \<Longrightarrow>
     guar R (case p of PingStart \<Rightarrow> a | PingOk d \<Rightarrow> b d | PingFail d x \<Rightarrow> c d x)"
  by (cases p) simp_all

lemma guar_case_log_error [guar_intros]:
  "(\<And>m st. guar R (a m st)) \<Longrightarrow> (\<And>m. guar R (b m)) \<Longrightarrow> guar R c \<Longrightarrow>
     guar R (case e of VlClientError m st \<Rightarrow> a m st | InvalidCursor m \<Rightarrow> b m | PyValueError \<Rightarrow> c)"
  by (cases e) simp_all

lemma guar_fold_prog [guar_intros]: "(\<And>x b. guar R (f x b)) \<Longrightarrow> guar R (fold_prog f xs b)"
  by (induction xs arbitrary: b) (simp_all add: guar_intros)

section \<open>The registry\<close>

text \<open>What all tasks but the operator's own changes do to a row.\<close>

locale system_writes = table_writes t_crons keep for keep :: "cron_row \<Rightarrow> cron_row \<Rightarrow> bool" +
  assumes seen_kept: "keep c (seen_state st now c)"
    and restore_kept: "keep c (restore_cron now c)"
    and wrapper_kept: "keep c (wrapper_seen seen_at now c)"
    and version_kept: "keep c (c\<lparr>cr_wrapper_version := Some v, cr_updated_at := now\<rparr>)"
    and deleted_kept: "keep c (mark_deleted deleted_at now c)"
    and rediscover_kept: "keep c (rediscover env d canonical now c)"
begin

lemma on_cron_kept: "(\<And>c. keep c (f c)) \<Longrightarrow> guar (kept_rows t_crons keep) (modS (on_cron fp f))"
  by (rule mapped_rows [where f = "\<lambda>s c. if cr_fingerprint c = fp then f c else c"]) (simp_all add: on_cron_def keep_refl)

lemma add_cron_kept: "guar (kept_rows t_crons keep) (modS (add_cron c))"
  by (rule added_rows) (simp add: add_cron_def)

lemma upsert_hb_kept: "guar (kept_rows t_crons keep) (modS (upsert_hb h g))"
  by (rule same_rows) simp

lemmas row_kept = on_cron_kept [OF seen_kept] on_cron_kept [OF restore_kept] on_cron_kept [OF wrapper_kept]
  on_cron_kept [OF version_kept] on_cron_kept [OF deleted_kept] on_cron_kept [OF rediscover_kept]
  add_cron_kept upsert_hb_kept audited

lemma other_tables:
  "guar (kept_rows t_crons keep) (modS (insert_cursor c now))"
  "guar (kept_rows t_crons keep) (modS (\<lambda>s :: cron_store. s\<lparr>t_limiter := lm\<rparr>))"
  "guar (kept_rows t_crons keep) (modS (ignore_or_insert r))"
  "guar (kept_rows t_crons keep) (modS (upsert_closed env i fp source st e d x we))"
  "guar (kept_rows t_crons keep) (modS (on_run i f))"
  "guar (kept_rows t_crons keep) (modS (\<lambda>s :: cron_store. s\<lparr>t_runs := pruned cutoff n (t_runs s)\<rparr>))"
  "guar (kept_rows t_crons keep) (modS (\<lambda>s :: cron_store. s\<lparr>t_failures := t_failures s @ [fe]\<rparr>))"
  "guar (kept_rows t_crons keep) (modS (\<lambda>s :: cron_store. s\<lparr>t_failures := pruned_failures cutoff n (t_failures s)\<rparr>))"
  by (simp_all add: same_rows insert_cursor_def ignore_or_insert_def upsert_closed_def on_run_def Let_def)

lemmas steps = row_kept other_tables

lemma discovery_kept: "rely (kept_rows t_crons keep) env \<Longrightarrow> guar (kept_rows t_crons keep) (upsert_discovered env d now)"
  unfolding upsert_discovered_def Let_def by (intro guar_intros steps)

lemma reconcile_kept:
  "rely (kept_rows t_crons keep) env \<Longrightarrow> guar (kept_rows t_crons keep) (reconcile_soft_deletes env host paths found now)"
  unfolding reconcile_soft_deletes_def reconcile_row_def Let_def by (intro guar_intros steps)

lemma register_kept: "rely (kept_rows t_crons keep) env \<Longrightarrow> guar (kept_rows t_crons keep) (receive_register env fp body who ip)"
  unfolding receive_register_def register_cron_def limit_check_def Let_def by (intro guar_intros steps)

lemma wrapper_events_kept:
  assumes "rely (kept_rows t_crons keep) env"
  shows "guar (kept_rows t_crons keep) (record_wrapper_installed env fp who ip)"
    and "guar (kept_rows t_crons keep) (record_wrapper_uninstalled env fp who ip)"
    and "guar (kept_rows t_crons keep) (set_wrapper_format_version env fp v)"
  unfolding record_wrapper_installed_def record_wrapper_uninstalled_def set_wrapper_format_version_def
  by (intro guar_intros steps assms)+

lemma state_kept: "rely (kept_rows t_crons keep) env \<Longrightarrow> guar (kept_rows t_crons keep) (record_state_transition env fp tr now who ip)"
  unfolding record_state_transition_def Let_def by (intro guar_intros steps)

lemma observed_kept: "rely (kept_rows t_crons keep) env \<Longrightarrow> guar (kept_rows t_crons keep) (record_observed_run env fp ts who ip)"
  unfolding record_observed_run_def by (intro guar_intros steps)

lemma run_statements_kept:
  assumes "rely (kept_rows t_crons keep) env"
  shows "guar (kept_rows t_crons keep) (insert_run env i fp source started ws)"
    and "guar (kept_rows t_crons keep) (close_run env i fp source st ended d x we)"
    and "guar (kept_rows t_crons keep) (finalize_bmode_run env i st ended d)"
    and "guar (kept_rows t_crons keep) (set_overlapping env i)"
    and "guar (kept_rows t_crons keep) (set_enrichment env i lines bytes digest now)"
    and "guar (kept_rows t_crons keep) (set_anomaly_flags env i flags)"
    and "guar (kept_rows t_crons keep) (prune_runs env cutoff n)"
    and "guar (kept_rows t_crons keep) (insert_failure env row)"
    and "guar (kept_rows t_crons keep) (prune_failures env cutoff n)"
  unfolding insert_run_def close_run_def finalize_bmode_run_def set_overlapping_def set_enrichment_def
    set_anomaly_flags_def prune_runs_def insert_failure_def prune_failures_def
  by (intro guar_intros steps assms)+

lemma ping_kept: "rely (kept_rows t_crons keep) env \<Longrightarrow> guar (kept_rows t_crons keep) (receive_ping env fp kind q who ip)"
  unfolding receive_ping_def limit_check_def record_ping_def run_of_ping_def
  by (intro guar_intros steps state_kept run_statements_kept)

lemma event_kept: "rely (kept_rows t_crons keep) env \<Longrightarrow> guar (kept_rows t_crons keep) (process_one env ev)"
  unfolding process_one_def try_claim_cursor_def apply_event_def close_bmode_run_def record_ok_def record_fail_def record_ping_def
  by (intro guar_intros steps state_kept observed_kept run_statements_kept)

lemma events_kept: "rely (kept_rows t_crons keep) env \<Longrightarrow> guar (kept_rows t_crons keep) (ingest_dispositions env evs)"
  by (induction evs) (simp_all add: guar_intros event_kept)

lemma finalize_kept: "rely (kept_rows t_crons keep) env \<Longrightarrow> guar (kept_rows t_crons keep) (finalize_runs env cfg now rs)"
  by (induction env cfg now rs rule: finalize_runs.induct) (simp_all add: guar_intros run_statements_kept Let_def)

lemma failure_kept: "rely (kept_rows t_crons keep) env \<Longrightarrow> guar (kept_rows t_crons keep) (failure_enrich_run env vl limits run expr ws we)"
  unfolding failure_enrich_run_def by (intro guar_intros run_statements_kept)

lemma enrich_kept: "rely (kept_rows t_crons keep) env \<Longrightarrow> guar (kept_rows t_crons keep) (enrich env vl cfg limits anomaly now)"
  unfolding enrich_def enrich_one_def enrich_window_def enrich_fields_def Let_def
  by (intro guar_intros run_statements_kept failure_kept)

lemma tick_kept: "rely (kept_rows t_crons keep) env \<Longrightarrow> guar (kept_rows t_crons keep) (reconciler_tick env vl cfg limits anomaly)"
  unfolding reconciler_tick_def phase_def window_finalize_def prune_phase_def Let_def
  by (intro guar_intros finalize_kept enrich_kept run_statements_kept)

end

text \<open>The operator's changes as well.\<close>

locale all_writes = system_writes +
  assumes patch_kept: "keep c (patch_cron name grace enabled hidden now c)"
begin

lemma update_kept: "rely (kept_rows t_crons keep) env \<Longrightarrow> guar (kept_rows t_crons keep) (update_cron env fp payload who ip)"
  unfolding update_cron_def Let_def by (intro guar_intros steps on_cron_kept patch_kept)

lemma hide_kept: "rely (kept_rows t_crons keep) env \<Longrightarrow> guar (kept_rows t_crons keep) (soft_delete_cron env fp who ip)"
  unfolding soft_delete_cron_def by (intro guar_intros update_kept)

end

section \<open>The tasks\<close>

datatype cron_task =
    TaskUpdate string cron_update string "string option"
  | TaskHide string string "string option"
  | TaskRegister register_body string string "string option"
  | TaskInstalled string string "string option"
  | TaskUninstalled string string "string option"
  | TaskVersion string string
  | TaskDiscover discovered string
  | TaskReconcile string "string list" "string \<Rightarrow> string list" string
  | TaskPing string ping hb_query string "string option"
  | TaskEvents "log_event list"
  | TaskTick "nat \<Rightarrow> log_env" reconciler_config vl_limits anomaly_config

definition quietly :: "'a cron_prog \<Rightarrow> unit cron_prog" where
  "quietly m = seqP m (ret ())"

definition run_task :: "cron_env \<Rightarrow> cron_task \<Rightarrow> unit cron_prog" where
  "run_task env t =
     (case t of
        TaskUpdate fp payload who ip \<Rightarrow> quietly (update_cron env fp payload who ip)
      | TaskHide fp who ip \<Rightarrow> quietly (soft_delete_cron env fp who ip)
      | TaskRegister body fp who ip \<Rightarrow> quietly (receive_register env fp body who ip)
      | TaskInstalled fp who ip \<Rightarrow> record_wrapper_installed env fp who ip
      | TaskUninstalled fp who ip \<Rightarrow> record_wrapper_uninstalled env fp who ip
      | TaskVersion fp v \<Rightarrow> set_wrapper_format_version env fp v
      | TaskDiscover d now \<Rightarrow> quietly (upsert_discovered env d now)
      | TaskReconcile host paths found now \<Rightarrow> quietly (reconcile_soft_deletes env host paths found now)
      | TaskPing fp kind q who ip \<Rightarrow> quietly (receive_ping env fp kind q who ip)
      | TaskEvents evs \<Rightarrow> quietly (ingest_cron_events env evs)
      | TaskTick vl cfg limits anomaly \<Rightarrow> quietly (reconciler_tick env vl cfg limits anomaly))"

definition by_operator :: "cron_task \<Rightarrow> bool" where
  "by_operator t = (case t of TaskUpdate _ _ _ _ \<Rightarrow> True | TaskHide _ _ _ \<Rightarrow> True | _ \<Rightarrow> False)"

context system_writes
begin

lemma quietly_kept: "guar R m \<Longrightarrow> guar R (quietly m)"
  unfolding quietly_def by (intro guar_intros)

lemma system_task_kept:
  assumes "rely (kept_rows t_crons keep) env" and "\<not> by_operator t"
  shows "guar (kept_rows t_crons keep) (run_task env t)"
proof -
  have "guar (kept_rows t_crons keep) (ingest_cron_events env evs)" for evs
    unfolding ingest_cron_events_def by (intro guar_intros events_kept assms)
  then show ?thesis
    using assms(2) wrapper_events_kept [OF assms(1)]
    by (cases t) (simp_all add: run_task_def by_operator_def quietly_kept register_kept discovery_kept reconcile_kept
      ping_kept tick_kept assms(1))
qed

end

context all_writes
begin

lemma task_kept:
  assumes "rely (kept_rows t_crons keep) env"
  shows "guar (kept_rows t_crons keep) (run_task env t)"
proof (cases "by_operator t")
  case True
  then show ?thesis
    by (cases t) (simp_all add: by_operator_def run_task_def quietly_kept update_kept hide_kept assms)
qed (rule system_task_kept [OF assms])

end

section \<open>Identity and the operator's settings\<close>

definition same_identity :: "cron_row \<Rightarrow> cron_row \<Rightarrow> bool" where
  "same_identity c d \<longleftrightarrow>
     cr_fingerprint d = cr_fingerprint c \<and> cr_host d = cr_host c \<and> cr_source_path d = cr_source_path c \<and>
     cr_schedule d = cr_schedule c \<and> cr_created_at d = cr_created_at c"

definition same_settings :: "cron_row \<Rightarrow> cron_row \<Rightarrow> bool" where
  "same_settings c d \<longleftrightarrow>
     same_identity c d \<and> cr_enabled d = cr_enabled c \<and> cr_grace d = cr_grace c \<and> cr_hidden_at d = cr_hidden_at c"

interpretation identity: all_writes same_identity
  by unfold_locales
    (auto simp: same_identity_def seen_state_def restore_cron_def wrapper_seen_def mark_deleted_def rediscover_def
      patch_cron_def set_field_def split: option.split)

interpretation settings: system_writes same_settings
  by unfold_locales
    (auto simp: same_settings_def same_identity_def seen_state_def restore_cron_def wrapper_seen_def mark_deleted_def
      rediscover_def)

text \<open>
  No task loses a cron or confuses its identity.  Whatever task of the cron subsystem runs, whatever
  the other tasks do in between, and whether it returns or raises, every row of the registry is still
  there with its fingerprint, host, source path, schedule and creation time.
\<close>

theorem cron_identity_kept:
  assumes "rely (kept_rows t_crons same_identity) env" and "run_task env t w = (x, w')" and "c \<in> set (t_crons (shared w))"
  shows "\<exists>d \<in> set (t_crons (shared w')). same_identity c d"
  by (rule identity.returned [OF identity.task_kept [OF assms(1)] assms(2,3)])

text \<open>
  C33: Only the operator changes the operator's settings.  Discovery, reconciliation, registration,
  wrapper installs, pings, log events and the reconciler's tick leave whether a cron is enabled, its
  grace and whether it is hidden as they were, in every interleaving of such tasks.
\<close>

theorem settings_only_by_operator:
  assumes "rely (kept_rows t_crons same_settings) env" and "\<not> by_operator t" and "run_task env t w = (x, w')"
    and "c \<in> set (t_crons (shared w))"
  shows "\<exists>d \<in> set (t_crons (shared w')). same_settings c d"
  by (rule settings.returned [OF settings.system_task_kept [OF assms(1,2)] assms(3,4)])

lemma quiet_other [simp]: "other quiet_cron_env n s = s"
  by (simp add: quiet_cron_env_def)

lemma quiet_rely: "rely R quiet_cron_env"
  by (simp add: rely_def quiet_cron_env_def)

theorem cron_identity_kept_witness:
  "\<exists>d \<in> set (t_crons (shared (snd (run_task quiet_cron_env (TaskHide ''f1'' ''op'' None) nightly)))). same_identity nightly_row d"
  by (rule cron_identity_kept [OF quiet_rely, of "TaskHide ''f1'' ''op'' None" nightly
        "fst (run_task quiet_cron_env (TaskHide ''f1'' ''op'' None) nightly)"])
    (simp_all add: nightly_def nightly_store_def)

theorem settings_only_by_operator_witness:
  "\<exists>d \<in> set (t_crons (shared (snd (run_task quiet_cron_env (TaskPing ''f1'' (PingOk None) \<lparr>hq_duration = None, hq_exit_code = None, hq_run_id = Some ''r''\<rparr> ''token'' None) nightly)))). same_settings nightly_row d"
  by (rule settings_only_by_operator [OF quiet_rely, of _ nightly
        "fst (run_task quiet_cron_env (TaskPing ''f1'' (PingOk None) \<lparr>hq_duration = None, hq_exit_code = None, hq_run_id = Some ''r''\<rparr> ''token'' None) nightly)"])
    (simp_all add: nightly_def nightly_store_def by_operator_def)

end
