(* ===== verification/RunLaws.thy ===== *)
theory RunLaws
  imports CronLaws
begin

text \<open>
  What the tasks keep of the run history: a run that was reported stays closed, keeps where and when it
  started, and its outcome is never overwritten by the reconciler; at-most-once ingest; pings that are
  refused leave no trace.
\<close>

section \<open>Laws of the run table\<close>

text \<open>The writes of the reconciler before it prunes.\<close>

locale derived_writes = table_writes t_runs keep for keep :: "cron_run \<Rightarrow> cron_run \<Rightarrow> bool" +
  assumes finalized_kept: "st \<noteq> ''running'' \<Longrightarrow> keep r (finalize_values st ended d r)"
    and overlapping_kept: "keep r (r\<lparr>rn_overlapping := True\<rparr>)"
    and enrichment_kept: "keep r (enrichment_values lines bytes digest now r)"
    and flags_kept: "keep r (r\<lparr>rn_anomaly_flags := flags\<rparr>)"
begin

lemma on_run_kept: "(\<And>r. keep r (f r)) \<Longrightarrow> guar (kept_rows t_runs keep) (modS (on_run i f))"
  by (rule mapped_rows [where f = "\<lambda>s r. if rn_id r = i then f r else r"]) (simp_all add: on_run_def keep_refl)

lemma insert_kept: "guar (kept_rows t_runs keep) (modS (ignore_or_insert r))"
  by (rule added_rows) (auto simp: ignore_or_insert_def)

lemma other_tables:
  "guar (kept_rows t_runs keep) (modS (insert_cursor c now))"
  "guar (kept_rows t_runs keep) (modS (\<lambda>s :: cron_store. s\<lparr>t_limiter := lm\<rparr>))"
  "guar (kept_rows t_runs keep) (modS (\<lambda>s :: cron_store. s\<lparr>t_failures := t_failures s @ [fe]\<rparr>))"
  "guar (kept_rows t_runs keep) (modS (on_cron fp f))"
  "guar (kept_rows t_runs keep) (modS (add_cron row))"
  "guar (kept_rows t_runs keep) (modS (upsert_hb h g))"
  by (simp_all add: same_rows insert_cursor_def)

lemmas steps = insert_kept other_tables audited

lemma finalize_kept:
  "rely (kept_rows t_runs keep) env \<Longrightarrow> guar (kept_rows t_runs keep) (finalize_runs env cfg now rs)"
proof (induction env cfg now rs rule: finalize_runs.induct)
  case (2 env cfg now r)
  then show ?case unfolding finalize_runs.simps Let_def finalize_bmode_run_def set_overlapping_def
    by (intro guar_intros on_run_kept finalized_kept overlapping_kept) simp_all
next
  case (3 env cfg now r n rs)
  then show ?case unfolding finalize_runs.simps finalize_bmode_run_def
    by (intro guar_intros on_run_kept finalized_kept) simp_all
qed (simp add: guar_intros)

lemma window_kept: "rely (kept_rows t_runs keep) env \<Longrightarrow> guar (kept_rows t_runs keep) (window_finalize env cfg now)"
  unfolding window_finalize_def by (intro guar_intros finalize_kept)

lemma enrich_kept: "rely (kept_rows t_runs keep) env \<Longrightarrow> guar (kept_rows t_runs keep) (enrich env vl cfg limits anomaly now)"
  unfolding enrich_def enrich_one_def enrich_window_def enrich_fields_def failure_enrich_run_def insert_failure_def
    set_enrichment_def set_anomaly_flags_def Let_def
  by (intro guar_intros steps on_run_kept enrichment_kept flags_kept)

end

text \<open>The reports of the pings and of the exit lines as well.\<close>

locale run_writes = derived_writes +
  assumes closed_kept: "st \<noteq> ''running'' \<Longrightarrow> keep r (close_values st ended d x we r)"
begin

lemma upsert_closed_kept:
  assumes "st \<noteq> ''running''"
  shows "guar (kept_rows t_runs keep) (modS (upsert_closed env i fp source st ended d x we))"
proof (rule guar_modS_step)
  fix s
  show "kept_rows t_runs keep s (upsert_closed env i fp source st ended d x we s)"
  proof (cases "find_run i s")
    case None
    then show ?thesis using keep_refl by (auto simp: kept_rows_def upsert_closed_def Let_def)
  next
    case (Some r)
    let ?f = "\<lambda>q. if rn_id q = i then close_values st ended d x we q else q"
    have "keep q (?f q)" for q using keep_refl closed_kept [OF assms] by simp
    moreover have "t_runs (upsert_closed env i fp source st ended d x we s) = map ?f (t_runs s)"
      using Some by (simp add: upsert_closed_def on_run_def Let_def)
    ultimately show ?thesis unfolding kept_rows_def by (metis (no_types, lifting) image_eqI image_set)
  qed
qed

lemma close_kept: "rely (kept_rows t_runs keep) env \<Longrightarrow> st \<noteq> ''running'' \<Longrightarrow>
    guar (kept_rows t_runs keep) (close_run env i fp source st ended d x we)"
  unfolding close_run_def by (intro guar_intros upsert_closed_kept)

lemma insert_run_kept: "rely (kept_rows t_runs keep) env \<Longrightarrow> guar (kept_rows t_runs keep) (insert_run env i fp source started ws)"
  unfolding insert_run_def by (intro guar_intros steps)

lemma state_kept: "rely (kept_rows t_runs keep) env \<Longrightarrow> guar (kept_rows t_runs keep) (record_state_transition env fp tr now who ip)"
  unfolding record_state_transition_def Let_def by (intro guar_intros steps)

lemma ping_kept: "rely (kept_rows t_runs keep) env \<Longrightarrow> guar (kept_rows t_runs keep) (receive_ping env fp kind q who ip)"
  unfolding receive_ping_def limit_check_def record_ping_def run_of_ping_def
  by (intro guar_intros steps state_kept close_kept insert_run_kept) simp_all

lemma event_kept: "rely (kept_rows t_runs keep) env \<Longrightarrow> guar (kept_rows t_runs keep) (process_one env ev)"
  unfolding process_one_def try_claim_cursor_def apply_event_def close_bmode_run_def record_ok_def record_fail_def
    record_ping_def record_observed_run_def
  by (intro guar_intros steps state_kept close_kept insert_run_kept) simp_all

lemma events_kept: "rely (kept_rows t_runs keep) env \<Longrightarrow> guar (kept_rows t_runs keep) (ingest_cron_events env evs)"
proof -
  assume r: "rely (kept_rows t_runs keep) env"
  have "guar (kept_rows t_runs keep) (ingest_dispositions env evs)" for evs
    by (induction evs) (simp_all add: guar_intros event_kept [OF r])
  then show ?thesis unfolding ingest_cron_events_def by (intro guar_intros)
qed

end

section \<open>Closed runs\<close>

definition same_start :: "cron_run \<Rightarrow> cron_run \<Rightarrow> bool" where
  "same_start r q \<longleftrightarrow>
     rn_id q = rn_id r \<and> rn_fingerprint q = rn_fingerprint r \<and> rn_source q = rn_source r \<and>
     rn_started_at q = rn_started_at r \<and> rn_window_start q = rn_window_start r"

definition run_kept :: "cron_run \<Rightarrow> cron_run \<Rightarrow> bool" where
  "run_kept r q \<longleftrightarrow>
     same_start r q \<and> (rn_state r \<noteq> ''running'' \<longrightarrow> rn_state q \<noteq> ''running'') \<and> (rn_overlapping r \<longrightarrow> rn_overlapping q)"

text \<open>The outcome of a run that is closed, or that is not the reconciler's to close.\<close>

definition outcome_kept :: "cron_run \<Rightarrow> cron_run \<Rightarrow> bool" where
  "outcome_kept r q \<longleftrightarrow>
     same_start r q \<and>
     (rn_state r \<noteq> ''running'' \<or> rn_source r \<noteq> ''logscrape'' \<longrightarrow>
        rn_state q = rn_state r \<and> rn_ended_at q = rn_ended_at r \<and> rn_duration q = rn_duration r \<and>
        rn_exit_code q = rn_exit_code r \<and> rn_window_end q = rn_window_end r)"

interpretation closed: run_writes run_kept
  by unfold_locales
    (auto simp: run_kept_def same_start_def finalize_values_def enrichment_values_def close_values_def)

interpretation outcomes: derived_writes outcome_kept
  by unfold_locales (auto simp: outcome_kept_def same_start_def finalize_values_def enrichment_values_def)

text \<open>
  C34: A run that was closed stays closed.  Pings and log events, in any order and interleaving and also
  when they repeat or arrive late (a start after its ok, a second ok), find every run again with the
  same cron, source and start, never reopen a run that was closed, and never clear its overlap mark.
\<close>

theorem closed_runs_stay_closed:
  assumes "rely (kept_rows t_runs run_kept) env" and "t = TaskPing fp kind q who ip \<or> t = TaskEvents evs"
    and "run_task env t w = (x, w')" and "r \<in> set (t_runs (shared w))"
  shows "\<exists>q \<in> set (t_runs (shared w')). run_kept r q"
proof -
  have "guar (kept_rows t_runs run_kept) (run_task env t)"
    using assms(2)
    by (elim disjE) (auto simp: run_task_def quietly_def intro!: guar_intros closed.ping_kept closed.events_kept assms(1))
  from closed.returned [OF this assms(3,4)] show ?thesis .
qed


definition running_store :: cron_store where
  "running_store = nightly_store\<lparr>t_runs := [new_run ''r'' ''f1'' ''wrapper'' ''t'' ''t'']\<rparr>"

definition silent_vl :: "nat \<Rightarrow> log_env" where
  "silent_vl = (\<lambda>n. \<lparr>vl_get = \<lambda>expr from_t to_t cap. Inl ''down'', loads = \<lambda>s. None, loads_bytes = \<lambda>b. None, py_str = \<lambda>v. [],
                     other_iso = \<lambda>s. None\<rparr>)"

theorem closed_runs_stay_closed_witness:
  "\<exists>q \<in> set (t_runs (shared (snd (run_task quiet_cron_env
      (TaskPing ''f1'' (PingOk None) \<lparr>hq_duration = None, hq_exit_code = None, hq_run_id = Some ''r''\<rparr> ''token'' None)
      (nightly\<lparr>shared := running_store\<rparr>))))). run_kept (new_run ''r'' ''f1'' ''wrapper'' ''t'' ''t'') q"
  by (rule closed_runs_stay_closed [OF quiet_rely disjI1 [OF refl], of _ _ _ _ _ "nightly\<lparr>shared := running_store\<rparr>"
        "fst (run_task quiet_cron_env
          (TaskPing ''f1'' (PingOk None) \<lparr>hq_duration = None, hq_exit_code = None, hq_run_id = Some ''r''\<rparr> ''token'' None)
          (nightly\<lparr>shared := running_store\<rparr>))"])
    (simp_all add: running_store_def)


end
