(* ===== verification/CronFacts.thy ===== *)
theory CronFacts
  imports RunLaws
begin

text \<open>
  What single operations of the cron subsystem do: replayed events and refused pings change nothing, the
  order of the reports of a run does not matter to its outcome, the reconciliation of soft deletes is
  exact, and what discovery does to an operator's name.
\<close>

section \<open>Ingest at most once\<close>

interpretation cursors: table_writes t_cursors "(=)"
  by unfold_locales simp_all

definition cursor_claimed :: "string \<Rightarrow> cron_store \<Rightarrow> bool" where
  "cursor_claimed c s \<longleftrightarrow> c \<in> fst ` set (t_cursors s)"

lemma cursor_tables:
  "guar (kept_rows t_cursors (=)) (modS (\<lambda>s :: cron_store. s\<lparr>t_limiter := lm\<rparr>))"
  "guar (kept_rows t_cursors (=)) (modS (on_cron fp f))"
  "guar (kept_rows t_cursors (=)) (modS (upsert_hb h g))"
  "guar (kept_rows t_cursors (=)) (modS (ignore_or_insert r))"
  "guar (kept_rows t_cursors (=)) (modS (upsert_closed env i fp source st e d x we))"
  by (simp_all add: cursors.same_rows ignore_or_insert_def upsert_closed_def on_run_def Let_def)

lemma apply_keeps_cursors:
  "rely (kept_rows t_cursors (=)) env \<Longrightarrow> guar (kept_rows t_cursors (=)) (apply_event env fp ev)"
  unfolding apply_event_def close_bmode_run_def record_ok_def record_fail_def record_ping_def record_observed_run_def
    record_state_transition_def close_run_def insert_run_def Let_def
  by (intro guar_intros cursor_tables cursors.audited)

lemma cursors_kept: "kept_rows t_cursors (=) s t \<Longrightarrow> cursor_claimed c s \<Longrightarrow> cursor_claimed c t"
  by (auto simp: kept_rows_def cursor_claimed_def image_iff)

lemma claim_run:
  assumes "try_claim_cursor env c now w = (Inr b, w')"
  shows "b = (\<not> cursor_claimed c (shared (entered env w))) \<and> cursor_claimed c (shared w') \<and>
    (\<not> b \<longrightarrow> shared w' = shared (entered env w) \<and> trace w' = trace w)"
  using assms unfolding try_claim_cursor_def
proof (cases rule: txn_cases)
  case (ok x w2)
  then show ?thesis
    by (cases "cursor_claimed c (shared (entered env w))")
      (auto simp: run_simps cursor_claimed_def insert_cursor_def simp del: entered_simps(1))
qed simp

lemma process_claims:
  assumes r: "rely (kept_rows t_cursors (=)) env" and run: "process_one env ev w = (Inr d, w')"
  shows "cursor_claimed (event_cursor env ev) (shared w')"
proof -
  let ?now = "now_iso env (ticks w)" and ?w = "w\<lparr>ticks := Suc (ticks w)\<rparr>"
  let ?rest = "\<lambda>claimed. if \<not> claimed then ret ReplaySkipped
     else
       bindP (fetch env (match_by_log_key (ev_host ev) (canonical_log_key (ev_command ev)))) (\<lambda>candidates.
       case candidates of
         [] \<Rightarrow> ret NoMatch
       | c # others \<Rightarrow>
           if others \<noteq> [] then
             seqP (emit (Act (Counter ''homelab_cron_logscrape_ambiguous_total'' [(''host'', ev_host ev)]))) (ret Ambiguous)
           else
             seqP (emit (Act (Counter ''homelab_cron_logscrape_matches_total'' [(''host'', ev_host ev)])))
               (apply_event env (cr_fingerprint c) ev))"
  from run have "bindP (try_claim_cursor env (event_cursor env ev) ?now) ?rest ?w = (Inr d, w')"
    by (simp add: process_one_def run_simps)
  then obtain b w1 where b: "try_claim_cursor env (event_cursor env ev) ?now ?w = (Inr b, w1)" "?rest b w1 = (Inr d, w')"
    by (rule bindP_returned)
  have "guar (kept_rows t_cursors (=)) (?rest b)" by (intro guar_intros apply_keeps_cursors r)
  from cursors.kept_star [OF guarD [OF this b(2)]] claim_run [OF b(1)] show ?thesis using cursors_kept by blast
qed

lemma replay_run:
  assumes c: "cursor_claimed (event_cursor env ev) (other env (Suc (ticks w)) (shared w))" and run: "process_one env ev w = (r, w')"
  shows "(r = Inr ReplaySkipped \<or> (\<exists>m. r = Inl (DbError m))) \<and>
    shared w' = other env (Suc (ticks w)) (shared w) \<and> trace w' = trace w"
proof -
  let ?now = "now_iso env (ticks w)" and ?w = "w\<lparr>ticks := Suc (ticks w)\<rparr>"
  let ?body = "bindP (getS (\<lambda>s. event_cursor env ev \<in> fst ` set (t_cursors s))) (\<lambda>claimed.
     if claimed then ret False else seqP (modS (insert_cursor (event_cursor env ev) ?now)) (ret True))"
  have body: "?body (entered env ?w) = (Inr False, entered env ?w)"
    using c by (simp add: run_simps cursor_claimed_def)
  from body show ?thesis
  proof (cases rule: txn_returned)
    case committed
    with run show ?thesis by (auto simp: process_one_def run_simps try_claim_cursor_def bindP_def)
  next
    case (rolled_back m w3)
    with run show ?thesis by (auto simp: process_one_def run_simps try_claim_cursor_def bindP_def)
  qed
qed


definition backup_event :: log_event where
  "backup_event = \<lparr>ev_host = ''nas'', ev_command = ''other.sh'', ev_timestamp = ''t'', ev_exit_code = Some 0, ev_cursor = Some ''c1''\<rparr>"

lemma backup_event_result:
  "process_one quiet_cron_env backup_event nightly =
     (Inr NoMatch, nightly\<lparr>shared := nightly_store\<lparr>t_cursors := [(''c1'', ''2026-01-01'')]\<rparr>, ticks := 4\<rparr>)"
  by (simp add: process_one_def run_simps try_claim_cursor_def txn_def seqP_def bindP_def fetch_def quiet_cron_env_def
    event_cursor_def backup_event_def nightly_def nightly_store_def insert_cursor_def match_by_log_key_def nightly_row_def)


section \<open>Refused pings\<close>

text \<open>
  A ping that is refused, for a cron that is unknown or over its rate, leaves no trace: the registry,
  the heartbeat rows, the runs and the audit log are what the other tasks made of them, no event is
  written, and the refusal by rate asks the client to wait at least a second.
\<close>

theorem refused_ping_changes_nothing:
  assumes "receive_ping env fp kind q who ip w = (Inr reply, w')" and "reply \<noteq> NoContent"
  defines "s \<equiv> other env (ticks w) (shared w)"
  shows "t_crons (shared w') = t_crons s \<and> t_hb (shared w') = t_hb s \<and> t_runs (shared w') = t_runs s \<and>
    s_audits (shared w') = s_audits s \<and> trace w' = trace w \<and> (case reply of RateLimited n \<Rightarrow> 1 \<le> n | _ \<Rightarrow> True)"
proof (cases "find_cron fp s")
  case None
  with assms show ?thesis by (auto simp: receive_ping_def fetch_def seqP_def bindP_def run_simps)
next
  case (Some c)
  let ?w = "entered env w"
  let ?rest = "\<lambda>limited. case limited of
      Some n \<Rightarrow> ret (RateLimited n)
    | None \<Rightarrow> seqP (record_ping env fp (query_ping kind q) who ip) (seqP (run_of_ping env fp kind q) (ret NoContent))"
  have "bindP (limit_check env fp) ?rest ?w = (Inr reply, w')"
    using assms(1) Some by (simp add: receive_ping_def run_bindP_Inr [OF run_fetch] s_def)
  then obtain l w1 where l: "limit_check env fp ?w = (Inr l, w1)" "?rest l w1 = (Inr reply, w')" by (rule bindP_returned)
  obtain allowed wait lm where a: "try_acquire (t_limiter s) fp (monotonic env (Suc (ticks w))) = ((allowed, wait), lm)"
    by (metis prod.exhaust)
  then have w1: "w1 = ?w\<lparr>ticks := Suc (Suc (ticks w)), shared := s\<lparr>t_limiter := lm\<rparr>\<rparr>"
      "l = (if allowed then None else Some (max 1 \<lceil>wait\<rceil>))"
    using l(1) by (auto simp: limit_check_def seqP_def run_simps s_def entered_def)
  show ?thesis
  proof (cases l)
    case None
    with l(2) have "reply = NoContent" by (auto simp: run_simps elim!: seqP_returned)
    with assms(2) show ?thesis by simp
  next
    case (Some n)
    with l(2) w1 show ?thesis by (auto simp: run_simps split: if_splits)
  qed
qed

theorem refused_ping_changes_nothing_witness:
  "case receive_ping quiet_cron_env ''f9'' PingStart \<lparr>hq_duration = None, hq_exit_code = None, hq_run_id = None\<rparr> ''token'' None nightly of
     (r, w') \<Rightarrow> r = Inr (CronNotFound ''cron not found: f9'') \<and> t_hb (shared w') = [] \<and> s_audits (shared w') = [] \<and> trace w' = []"
proof -
  let ?q = "\<lparr>hq_duration = None, hq_exit_code = None, hq_run_id = None\<rparr>"
  obtain r w' where s: "receive_ping quiet_cron_env ''f9'' PingStart ?q ''token'' None nightly = (r, w')" by fastforce
  have "r = Inr (CronNotFound ''cron not found: f9'')"
    using s by (simp add: receive_ping_def fetch_def seqP_def bindP_def run_simps quiet_cron_env_def nightly_def nightly_store_def
      find_cron_def nightly_row_def)
  with refused_ping_changes_nothing [of quiet_cron_env "''f9''" PingStart ?q "''token''" None nightly _ w'] s
  show ?thesis by (simp add: quiet_cron_env_def nightly_def nightly_store_def)
qed

section \<open>The order of the reports of a run\<close>

text \<open>
  C35: It does not matter in which order the start and the end of a run are reported.  Both orders leave one
  row for the run, with the same cron, source, state, end, duration and exit code; only the times at
  which it started differ, which the lost start leaves to be derived.
\<close>

theorem report_order_irrelevant:
  fixes s :: cron_store and i fp source started_at window_start st ended window_end :: string
    and d :: "rat option" and x :: "int option" and env :: cron_env
  assumes "find_run i s = None"
  defines "start \<equiv> ignore_or_insert (new_run i fp source started_at window_start)"
    and "finish \<equiv> upsert_closed env i fp source st ended d x window_end"
  shows "\<exists>a b. find_run i (finish (start s)) = Some a \<and> find_run i (start (finish s)) = Some b \<and>
    b = a\<lparr>rn_started_at := derive_started_at env ended d, rn_window_start := Some (derive_started_at env ended d)\<rparr> \<and>
    rn_state a = st \<and> rn_started_at a = started_at \<and> rn_exit_code a = x \<and>
    length (t_runs (finish (start s))) = Suc (length (t_runs s)) \<and> length (t_runs (start (finish s))) = Suc (length (t_runs s))"
proof -
  have find: "find_run i (s\<lparr>t_runs := t_runs s @ [r]\<rparr>) = Some r" if "rn_id r = i" for r
    using assms(1) that by (simp add: find_run_def find_append)
  let ?n = "new_run i fp source started_at window_start" and ?f = "close_values st ended d x window_end"
  let ?m = "new_run i fp source (derive_started_at env ended d) (derive_started_at env ended d)"
  have start: "start s = s\<lparr>t_runs := t_runs s @ [?n]\<rparr>"
    using assms(1) by (simp add: start_def ignore_or_insert_def) (simp add: new_run_def)
  have finish: "finish s = s\<lparr>t_runs := t_runs s @ [?f ?m]\<rparr>"
    using assms(1) by (simp add: finish_def upsert_closed_def Let_def)
  have ids: "rn_id ?n = i" "rn_id (?f ?m) = i" by (simp_all add: new_run_def close_values_def)
  have a: "finish (start s) = on_run i ?f (start s)"
    using find [OF ids(1)] by (simp add: finish_def upsert_closed_def Let_def start)
  have b: "start (finish s) = finish s"
    using find [OF ids(2)] ids by (simp add: start_def ignore_or_insert_def finish)
  have "find_run i (finish (start s)) = map_option ?f (find_run i (start s))"
    unfolding a find_run_def on_run_def by (simp add: find_map_key close_values_def)
  then have "find_run i (finish (start s)) = Some (?f ?n)" by (simp add: start find ids)
  moreover have "find_run i (start (finish s)) = Some (?f ?m)" unfolding b by (simp add: finish find ids)
  moreover have "length (t_runs (finish (start s))) = Suc (length (t_runs s))" unfolding a by (simp add: on_run_def start)
  moreover have "length (t_runs (start (finish s))) = Suc (length (t_runs s))" unfolding b by (simp add: finish)
  ultimately show ?thesis by (simp add: close_values_def new_run_def)
qed

theorem report_order_irrelevant_witness:
  "\<exists>a b. find_run ''r'' (upsert_closed quiet_cron_env ''r'' ''f1'' ''wrapper'' ''ok'' ''t9'' (Some 5) (Some 0) ''t9''
        (ignore_or_insert (new_run ''r'' ''f1'' ''wrapper'' ''t4'' ''t4'') nightly_store)) = Some a \<and>
     find_run ''r'' (ignore_or_insert (new_run ''r'' ''f1'' ''wrapper'' ''t4'' ''t4'')
        (upsert_closed quiet_cron_env ''r'' ''f1'' ''wrapper'' ''ok'' ''t9'' (Some 5) (Some 0) ''t9'' nightly_store)) = Some b \<and>
     rn_state a = ''ok'' \<and> rn_state b = ''ok''"
proof -
  have "find_run ''r'' nightly_store = None" by (simp add: find_run_def nightly_store_def)
  from report_order_irrelevant [OF this, where fp = "''f1''" and source = "''wrapper''" and started_at = "''t4''" and
      window_start = "''t4''" and env = quiet_cron_env and st = "''ok''" and ended = "''t9''" and d = "Some 5" and x = "Some 0" and
      window_end = "''t9''"]
  show ?thesis by auto
qed

section \<open>Soft deletes\<close>

definition mark_of :: "string list \<Rightarrow> string \<Rightarrow> cron_row \<Rightarrow> string option \<Rightarrow> cron_row" where
  "mark_of found now c deleted_at =
     (if cr_fingerprint c \<notin> set found \<and> deleted_at = None then mark_deleted (Some now) now c
      else if cr_fingerprint c \<in> set found \<and> deleted_at \<noteq> None then mark_deleted None now c
      else c)"

text \<open>What the specification of the docstring says of one row.\<close>

definition reconciled :: "string \<Rightarrow> string set \<Rightarrow> (string \<Rightarrow> string list) \<Rightarrow> string \<Rightarrow> cron_row \<Rightarrow> cron_row" where
  "reconciled host paths found now c =
     (case cr_source_path c of
        None \<Rightarrow> c
      | Some p \<Rightarrow> if cr_host c = host \<and> p \<in> paths then mark_of (found p) now c (cr_soft_deleted_at c) else c)"

definition newly_deleted :: "string \<Rightarrow> string set \<Rightarrow> (string \<Rightarrow> string list) \<Rightarrow> cron_row \<Rightarrow> bool" where
  "newly_deleted host paths found c \<longleftrightarrow>
     (case cr_source_path c of
        None \<Rightarrow> False
      | Some p \<Rightarrow> cr_host c = host \<and> p \<in> paths \<and> cr_fingerprint c \<notin> set (found p) \<and> cr_soft_deleted_at c = None)"

definition newly_restored :: "string \<Rightarrow> string set \<Rightarrow> (string \<Rightarrow> string list) \<Rightarrow> cron_row \<Rightarrow> bool" where
  "newly_restored host paths found c \<longleftrightarrow>
     (case cr_source_path c of
        None \<Rightarrow> False
      | Some p \<Rightarrow> cr_host c = host \<and> p \<in> paths \<and> cr_fingerprint c \<in> set (found p) \<and> cr_soft_deleted_at c \<noteq> None)"

lemma mark_of_fields [simp]:
  "cr_fingerprint (mark_of found now c d) = cr_fingerprint c" "cr_host (mark_of found now c d) = cr_host c"
  "cr_source_path (mark_of found now c d) = cr_source_path c"
  by (simp_all add: mark_of_def mark_deleted_def)

lemma reconciled_fields [simp]:
  "cr_fingerprint (reconciled host paths found now c) = cr_fingerprint c"
  "cr_host (reconciled host paths found now c) = cr_host c"
  "cr_source_path (reconciled host paths found now c) = cr_source_path c"
  by (simp_all add: reconciled_def split: option.split)

lemma reconciled_twice:
  "reconciled host paths found later (reconciled host paths found now c) = reconciled host paths found now c"
  by (auto simp: reconciled_def mark_of_def mark_deleted_def split: option.splits)

text \<open>One row of the selection.\<close>

lemma reconcile_row_run:
  "\<exists>w'. reconcile_row env found now (fp, d) (n, m) w =
      (Inr (n + (if fp \<notin> set found \<and> d = None then 1 else 0), m + (if fp \<in> set found \<and> d \<noteq> None then 1 else 0)), w') \<and>
    t_crons (shared w') = map (\<lambda>c. if cr_fingerprint c = fp then mark_of found now c d else c) (t_crons (shared w))"
proof -
  have audited: "\<exists>w'. seqP (modS (on_cron fp f)) (seqP (cron_audit env who what before after ip now) (ret x)) w = (Inr x, w') \<and>
    t_crons (shared w') = map (\<lambda>c. if cr_fingerprint c = fp then f c else c) (t_crons (shared w))"
    for f who what before after ip and x :: "nat \<times> nat"
  proof -
    obtain row w1 where "cron_audit env who what before after ip now (w\<lparr>shared := on_cron fp f (shared w)\<rparr>) = (Inr (), w1)"
      "shared w1 = add_audit row (on_cron fp f (shared w))" 
      using run_cron_audit [of env who what before after ip now "w\<lparr>shared := on_cron fp f (shared w)\<rparr>"] by auto
    then show ?thesis by (simp add: run_simps run_seqP_Inr on_cron_def)
  qed
  have same: "cs = map (\<lambda>c. if cr_fingerprint c = fp then mark_of found now c d else c) cs"
    if "\<not> (fp \<notin> set found \<and> d = None)" "\<not> (fp \<in> set found \<and> d \<noteq> None)" for cs
    using that by (induction cs) (auto simp: mark_of_def)
  consider "fp \<notin> set found" "d = None" | "fp \<in> set found" "d \<noteq> None"
    | "\<not> (fp \<notin> set found \<and> d = None)" "\<not> (fp \<in> set found \<and> d \<noteq> None)" by blast
  then show ?thesis
  proof cases
    case 1
    then have m: "map (\<lambda>c. if cr_fingerprint c = fp then mark_of found now c d else c) cs =
      map (\<lambda>c. if cr_fingerprint c = fp then mark_deleted (Some now) now c else c) cs" for cs by (auto simp: mark_of_def)
    from 1 show ?thesis unfolding m using audited [of "mark_deleted (Some now) now"] by (simp add: reconcile_row_def)
  next
    case 2
    then have m: "map (\<lambda>c. if cr_fingerprint c = fp then mark_of found now c d else c) cs =
      map (\<lambda>c. if cr_fingerprint c = fp then mark_deleted None now c else c) cs" for cs by (auto simp: mark_of_def)
    from 2 show ?thesis unfolding m using audited [of "mark_deleted None now"] by (simp add: reconcile_row_def)
  next
    case 3
    then show ?thesis using same [OF 3] by (auto simp: reconcile_row_def run_simps)
  qed
qed

lemma reconcile_rows_run:
  "distinct (map fst rows) \<Longrightarrow>
   \<exists>w'. fold_prog (reconcile_row env found now) rows (n, m) w =
      (Inr (n + length (filter (\<lambda>(fp, d). fp \<notin> set found \<and> d = None) rows),
            m + length (filter (\<lambda>(fp, d). fp \<in> set found \<and> d \<noteq> None) rows)), w') \<and>
    t_crons (shared w') =
      map (\<lambda>c. case map_of rows (cr_fingerprint c) of None \<Rightarrow> c | Some d \<Rightarrow> mark_of found now c d) (t_crons (shared w))"
proof (induction rows arbitrary: n m w)
  case (Cons row rows)
  obtain fp d where row: "row = (fp, d)" by fastforce
  obtain w1 where w1: "reconcile_row env found now (fp, d) (n, m) w =
      (Inr (n + (if fp \<notin> set found \<and> d = None then 1 else 0), m + (if fp \<in> set found \<and> d \<noteq> None then 1 else 0)), w1)"
    "t_crons (shared w1) = map (\<lambda>c. if cr_fingerprint c = fp then mark_of found now c d else c) (t_crons (shared w))"
    using reconcile_row_run [of env found now fp d n m w] by blast
  from Cons.prems have "distinct (map fst rows)" "fp \<notin> fst ` set rows" by (simp_all add: row)
  then have none: "map_of rows fp = None" by (simp add: map_of_eq_None_iff)
  have "map (\<lambda>c. case map_of rows (cr_fingerprint c) of None \<Rightarrow> c | Some d \<Rightarrow> mark_of found now c d) (t_crons (shared w1)) =
    map (\<lambda>c. case map_of (row # rows) (cr_fingerprint c) of None \<Rightarrow> c | Some d \<Rightarrow> mark_of found now c d) (t_crons (shared w))"
    by (auto simp: w1(2) row none)
  moreover obtain w2 where "fold_prog (reconcile_row env found now) rows
      (n + (if fp \<notin> set found \<and> d = None then 1 else 0), m + (if fp \<in> set found \<and> d \<noteq> None then 1 else 0)) w1 =
      (Inr (n + (if fp \<notin> set found \<and> d = None then 1 else 0) + length (filter (\<lambda>(fp, d). fp \<notin> set found \<and> d = None) rows),
            m + (if fp \<in> set found \<and> d \<noteq> None then 1 else 0) + length (filter (\<lambda>(fp, d). fp \<in> set found \<and> d \<noteq> None) rows)), w2)"
    "t_crons (shared w2) = map (\<lambda>c. case map_of rows (cr_fingerprint c) of None \<Rightarrow> c | Some d \<Rightarrow> mark_of found now c d) (t_crons (shared w1))"
    using Cons.IH [OF \<open>distinct (map fst rows)\<close>] by blast
  ultimately show ?case by (auto simp: row bindP_def w1(1))
qed (simp add: run_simps)

lemma map_of_selected:
  "distinct (map cr_fingerprint cs) \<Longrightarrow> c \<in> set cs \<Longrightarrow>
     map_of (map (\<lambda>c. (cr_fingerprint c, cr_soft_deleted_at c)) (filter P cs)) (cr_fingerprint c) =
       (if P c then Some (cr_soft_deleted_at c) else None)"
  by (induction cs) (auto simp: map_of_eq_None_iff image_iff)

text \<open>One path.\<close>

lemma newly_one:
  "newly_deleted host {p} found = (\<lambda>c. cr_host c = host \<and> cr_source_path c = Some p \<and>
     cr_fingerprint c \<notin> set (found p) \<and> cr_soft_deleted_at c = None)"
  "newly_restored host {p} found = (\<lambda>c. cr_host c = host \<and> cr_source_path c = Some p \<and>
     cr_fingerprint c \<in> set (found p) \<and> cr_soft_deleted_at c \<noteq> None)"
  by (auto simp: fun_eq_iff newly_deleted_def newly_restored_def split: option.split)

lemma reconcile_path_run:
  assumes "distinct (map cr_fingerprint (t_crons (shared w)))"
  shows "\<exists>w'. fold_prog (reconcile_row env (found p) now) (rows_of_path host p (shared w)) (n, m) w =
      (Inr (n + length (filter (newly_deleted host {p} found) (t_crons (shared w))),
            m + length (filter (newly_restored host {p} found) (t_crons (shared w)))), w') \<and>
    t_crons (shared w') = map (reconciled host {p} found now) (t_crons (shared w))"
proof -
  let ?cs = "t_crons (shared w)" and ?P = "\<lambda>c. cr_host c = host \<and> cr_source_path c = Some p"
  have rows: "rows_of_path host p (shared w) = map (\<lambda>c. (cr_fingerprint c, cr_soft_deleted_at c)) (filter ?P ?cs)"
    by (simp add: rows_of_path_def)
  have "distinct (map fst (rows_of_path host p (shared w)))"
    using assms by (simp add: rows comp_def distinct_map_filter)
  note run = reconcile_rows_run [OF this, of env "found p" now n m w]
  have e1: "map (\<lambda>c. case map_of (rows_of_path host p (shared w)) (cr_fingerprint c) of None \<Rightarrow> c | Some d \<Rightarrow> mark_of (found p) now c d) ?cs =
    map (reconciled host {p} found now) ?cs"
    using map_of_selected [OF assms, of _ ?P] unfolding rows by (auto simp: reconciled_def split: option.split)
  have e2: "length (filter (\<lambda>(fp, d). fp \<notin> set (found p) \<and> d = None) (rows_of_path host p (shared w))) =
    length (filter (newly_deleted host {p} found) ?cs)"
    unfolding rows by (simp add: newly_one comp_def filter_map)
  have e3: "length (filter (\<lambda>(fp, d). fp \<in> set (found p) \<and> d \<noteq> None) (rows_of_path host p (shared w))) =
    length (filter (newly_restored host {p} found) ?cs)"
    unfolding rows by (simp add: newly_one comp_def filter_map)
  show ?thesis using run unfolding e1 e2 e3 .
qed

lemma reconciled_union:
  "p \<notin> paths \<Longrightarrow> reconciled host paths found now (reconciled host {p} found now c) = reconciled host (insert p paths) found now c"
  by (cases "cr_source_path c") (auto simp: reconciled_def)

lemma newly_after:
  assumes "p \<notin> paths"
  shows "newly_deleted host paths found (reconciled host {p} found now c) = newly_deleted host paths found c"
    and "newly_restored host paths found (reconciled host {p} found now c) = newly_restored host paths found c"
  using assms by (auto simp: newly_deleted_def newly_restored_def reconciled_def split: option.split)

lemma newly_split:
  assumes "p \<notin> paths"
  shows "length (filter (newly_deleted host {p} found) cs) + length (filter (newly_deleted host paths found) cs) =
      length (filter (newly_deleted host (insert p paths) found) cs)"
    and "length (filter (newly_restored host {p} found) cs) + length (filter (newly_restored host paths found) cs) =
      length (filter (newly_restored host (insert p paths) found) cs)"
  using assms by (induction cs) (auto simp: newly_deleted_def newly_restored_def split: option.splits)

definition reconcile_path :: "cron_env \<Rightarrow> string \<Rightarrow> (string \<Rightarrow> string list) \<Rightarrow> string \<Rightarrow> string \<Rightarrow> nat \<times> nat \<Rightarrow> (nat \<times> nat) cron_prog" where
  "reconcile_path env host found now p counts =
     bindP (getS (rows_of_path host p)) (\<lambda>rows. fold_prog (reconcile_row env (found p) now) rows counts)"

lemma reconcile_paths_run:
  "distinct (map cr_fingerprint (t_crons (shared w))) \<Longrightarrow> distinct ps \<Longrightarrow>
   \<exists>w'. fold_prog (reconcile_path env host found now) ps (n, m) w =
      (Inr (n + length (filter (newly_deleted host (set ps) found) (t_crons (shared w))),
            m + length (filter (newly_restored host (set ps) found) (t_crons (shared w)))), w') \<and>
    t_crons (shared w') = map (reconciled host (set ps) found now) (t_crons (shared w))"
proof (induction ps arbitrary: n m w)
  case Nil
  have "filter (newly_deleted host {} found) cs = []" "filter (newly_restored host {} found) cs = []"
    "map (reconciled host {} found now) cs = cs" for cs
    by (induction cs) (auto simp: newly_deleted_def newly_restored_def reconciled_def split: option.split)
  then show ?case by (simp add: run_simps)
next
  case (Cons p ps)
  obtain w1 where w1: "reconcile_path env host found now p (n, m) w =
      (Inr (n + length (filter (newly_deleted host {p} found) (t_crons (shared w))),
            m + length (filter (newly_restored host {p} found) (t_crons (shared w)))), w1)"
    "t_crons (shared w1) = map (reconciled host {p} found now) (t_crons (shared w))"
    using reconcile_path_run [OF Cons.prems(1), of env found p now host n m] by (auto simp: reconcile_path_def run_simps)
  have p: "p \<notin> set ps" "distinct ps" using Cons.prems(2) by simp_all
  have "distinct (map cr_fingerprint (t_crons (shared w1)))" using Cons.prems(1) by (simp add: w1(2) comp_def)
  from Cons.IH [OF this p(2)] obtain w2 where w2: "fold_prog (reconcile_path env host found now) ps
        (n + length (filter (newly_deleted host {p} found) (t_crons (shared w))),
         m + length (filter (newly_restored host {p} found) (t_crons (shared w)))) w1 =
      (Inr (n + length (filter (newly_deleted host {p} found) (t_crons (shared w))) +
              length (filter (newly_deleted host (set ps) found) (t_crons (shared w1))),
            m + length (filter (newly_restored host {p} found) (t_crons (shared w))) +
              length (filter (newly_restored host (set ps) found) (t_crons (shared w1)))), w2)"
    "t_crons (shared w2) = map (reconciled host (set ps) found now) (t_crons (shared w1))" by blast
  have "length (filter (newly_deleted host (set ps) found) (t_crons (shared w1))) =
      length (filter (newly_deleted host (set ps) found) (t_crons (shared w)))"
    "length (filter (newly_restored host (set ps) found) (t_crons (shared w1))) =
      length (filter (newly_restored host (set ps) found) (t_crons (shared w)))"
    by (simp_all add: w1(2) filter_map comp_def newly_after [OF p(1)])
  with w2 show ?case
    using newly_split [OF p(1), of host found "t_crons (shared w)"]
    by (simp add: bindP_def w1(1) add.assoc) (simp add: w1(2) comp_def reconciled_union [OF p(1)])
qed

text \<open>
  C31: The reconciliation of soft deletes does exactly what its contract says.  When it returns, every cron of
  the host whose source file was scanned cleanly and that the scan did not find is marked deleted, every
  one it found again is restored, and every other row, of other hosts, of files that were not scanned and
  of no file, is unchanged; the two counts are the numbers of these rows, and a second reconciliation
  with the same scan would change nothing.
\<close>

theorem reconcile_exact:
  assumes "reconcile_soft_deletes env host paths found now w = (Inr (n, m), w')" and "paths \<noteq> []"
  defines "cs \<equiv> t_crons (shared (entered env w))"
  assumes "distinct (map cr_fingerprint cs)"
  shows "t_crons (shared w') = map (reconciled host (set paths) found now) cs \<and>
    n = length (filter (newly_deleted host (set paths) found) cs) \<and>
    m = length (filter (newly_restored host (set paths) found) cs) \<and>
    map (reconciled host (set paths) found later) (t_crons (shared w')) = t_crons (shared w')"
proof -
  have body: "reconcile_soft_deletes env host paths found now =
      txn env (fold_prog (reconcile_path env host found now) (sort (remdups paths)) (0, 0))"
    using assms(2) by (simp add: reconcile_soft_deletes_def reconcile_path_def [abs_def])
  obtain w1 where w1: "fold_prog (reconcile_path env host found now) (sort (remdups paths)) (0, 0) (entered env w) =
      (Inr (length (filter (newly_deleted host (set paths) found) cs), length (filter (newly_restored host (set paths) found) cs)), w1)"
    "t_crons (shared w1) = map (reconciled host (set paths) found now) cs"
    using reconcile_paths_run [of "entered env w" "sort (remdups paths)" env host found now 0 0] assms(4)
    by (auto simp: cs_def simp del: entered_simps)
  from assms(1) have "txn env (fold_prog (reconcile_path env host found now) (sort (remdups paths)) (0, 0)) w = (Inr (n, m), w')"
    by (simp add: body)
  then show ?thesis
  proof (cases rule: txn_cases)
    case (ok x w2)
    with w1 show ?thesis by (simp add: comp_def reconciled_twice)
  qed simp
qed

text \<open>Discovery sets the name to the derived one, whatever the operator had called the cron.\<close>

lemma discovery_overwrites_name:
  assumes "find_cron (discovered_fingerprint env d) (shared (entered env w)) = Some c" and "cr_name c = operator_name"
    and "upsert_discovered env d now w = (Inr (row, ins, upd), w')"
  shows "cr_name row = derive_name (ds_command d) \<and> \<not> ins"
proof (cases "cron_canonical env (ds_schedule d)")
  case None
  with assms(3) show ?thesis by (simp add: upsert_discovered_def run_simps)
next
  case (Some canonical)
  let ?diff = "discovery_diff env d (Some canonical) c" and ?fp = "discovered_fingerprint env d"
  from assms(3) [unfolded upsert_discovered_def Let_def Some option.simps(5)] show ?thesis
  proof (cases rule: txn_cases)
    case (ok x w2)
    then show ?thesis
      using assms(1) by (auto simp: run_simps rediscover_def simp del: entered_simps elim!: seqP_returned)
  qed simp
qed

text \<open>A JSON null for \<open>enabled\<close> is taken for false.\<close>

lemma null_disables: "changed_enabled (Some None) True = Some False"
  by (simp add: changed_enabled_def)

text \<open>An exit line of the log closes the open run of a wrapper: the query does not look at the source.\<close>

lemma exit_line_finds_wrapper_run:
  "find_open_run_by_fingerprint ''f1'' ''u'' running_store = Some (new_run ''r'' ''f1'' ''wrapper'' ''t'' ''t'')"
  by (simp add: find_open_run_by_fingerprint_def running_store_def newest_runs_def new_run_def)

text \<open>Registration stores the command as it came, with the secrets that discovery would scrub.\<close>

lemma registration_stores_raw_command:
  assumes "register_cron env body fp who ip w = (Inr (row, True), w')"
  shows "cr_command row = rg_command body"
proof -
  let ?w = "w\<lparr>ticks := Suc (ticks w)\<rparr>"
  show ?thesis
  proof (cases "cron_canonical env (rg_schedule body)")
    case None
    with assms show ?thesis by (simp add: register_cron_def run_simps)
  next
    case (Some canonical)
    from assms [unfolded register_cron_def Let_def Some option.simps(5) run_bind_simps(5)] show ?thesis
    proof (cases rule: txn_cases)
      case (ok x w2)
      then show ?thesis
        by (auto simp: run_simps new_cron_def simp del: entered_simps elim!: seqP_returned split: option.splits if_splits)
    qed simp
  qed
qed

lemma scrubbing_example: "scrub_secrets ''curl --token=abc'' = ''curl --token=<redacted>''"
  by code_simp

theorem reconcile_exact_witness:
  "case reconcile_soft_deletes quiet_cron_env ''nas'' [''/etc/crontab''] (\<lambda>p. []) ''now'' nightly of
     (r, w') \<Rightarrow> r = Inr (1, 0) \<and> t_crons (shared w') = [mark_deleted (Some ''now'') ''now'' nightly_row]"
proof -
  let ?m = "reconcile_soft_deletes quiet_cron_env ''nas'' [''/etc/crontab''] (\<lambda>p. []) ''now''"
  obtain r w' where s: "?m nightly = (r, w')" by fastforce
  have "\<exists>n m w'. ?m nightly = (Inr (n, m), w')"
    by (simp add: reconcile_soft_deletes_def txn_def seqP_def bindP_def run_simps rows_of_path_def reconcile_row_def
      quiet_cron_env_def nightly_def nightly_store_def nightly_row_def cron_audit_def insert_audit_def Let_def on_cron_def add_audit_def)
  with s obtain n m where r: "r = Inr (n, m)" by auto
  have rows: "t_crons (shared nightly) = [nightly_row]" by (simp add: nightly_def nightly_store_def)
  from reconcile_exact [OF s [unfolded r], of "''now''"]
  show ?thesis
    by (simp add: s r rows entered_simps) (simp add: reconciled_def newly_deleted_def newly_restored_def nightly_row_def mark_of_def)
qed

end
