(* ===== verification/CrontabFacts.thy ===== *)
theory CrontabFacts
  imports Crontab
begin

text \<open>
  Wrapping and unwrapping: of a command, and of a line in a crontab through the parser and the two kits of the
  installer; and the lines at which discovery and installer disagree.
\<close>

section \<open>The wrapped command\<close>

lemma wrapper_path_facts:
  "\<forall>c \<in> set wrapper_path. \<not> is_space c" "wrapper_path \<noteq> []" "hd wrapper_path = CHR ''/''"
  by (simp_all add: wrapper_path_def is_space_def)

lemma takeWhile_word: "\<forall>c \<in> set w. P c \<Longrightarrow> \<not> P x \<Longrightarrow> takeWhile P (w @ x # r) = w"
  by (induction w) auto

lemma wrapped_prefix:
  assumes "fp \<noteq> []" and "\<forall>c \<in> set fp. \<not> is_space c"
  shows "wrapped_match (build_invocation_prefix fp @ cmd) = Some (fp, cmd)"
proof -
  have sp: "is_space CHR '' ''" by (simp add: is_space_def)
  have "takeWhile (\<lambda>c. \<not> is_space c) (fp @ CHR '' '' # wrapper_separator @ '' '' @ cmd) = fp"
    by (rule takeWhile_word) (use assms sp in auto)
  moreover have "build_invocation_prefix fp @ cmd = (wrapper_path @ '' '') @ fp @ CHR '' '' # wrapper_separator @ '' '' @ cmd"
    by (simp add: build_invocation_prefix_def)
  moreover have "strip_prefix ('' '' @ wrapper_separator @ '' '') (CHR '' '' # wrapper_separator @ '' '' @ cmd) = Some cmd"
    by (simp add: strip_prefix_def wrapper_separator_def)
  ultimately show ?thesis
    unfolding wrapped_match_def by (simp only: strip_prefix_append option.case Let_def) (simp add: assms(1))
qed

text \<open>
  Wrapping is undone by unwrapping: of a command wrapped for a fingerprint (any word), the command and the
  fingerprint are read back, the line counts as wrapped and not as one of the old format.
\<close>

theorem wrapping_roundtrip:
  assumes "fp \<noteq> []" and "\<forall>c \<in> set fp. \<not> is_space c"
  shows "unwrap_command (build_invocation_prefix fp @ cmd) = cmd \<and>
    wrapped_fingerprint (build_invocation_prefix fp @ cmd) = Some fp \<and>
    is_wrapped (build_invocation_prefix fp @ cmd) \<and> \<not> is_legacy_wrapped (build_invocation_prefix fp @ cmd)"
  by (simp add: unwrap_command_def wrapped_fingerprint_def is_wrapped_def is_legacy_wrapped_def wrapped_prefix [OF assms])

lemma unwrapped:
  assumes "\<And>r. cmd \<noteq> wrapper_path @ r"
  shows "\<not> is_wrapped cmd" "unwrap_command cmd = cmd"
proof -
  have "strip_prefix (wrapper_path @ s) cmd = None" for s
  proof (cases "strip_prefix (wrapper_path @ s) cmd")
    case (Some r)
    then have "cmd = wrapper_path @ s @ r" by (simp add: strip_prefix_Some)
    with assms show ?thesis by blast
  qed
  then show "\<not> is_wrapped cmd" "unwrap_command cmd = cmd"
    by (simp_all add: is_wrapped_def unwrap_command_def wrapped_match_def legacy_match_def)
qed

section \<open>Lines with five fields\<close>

lemma dropWhile_hd: "dropWhile P s \<noteq> [] \<Longrightarrow> \<not> P (hd (dropWhile P s))"
  by (rule hd_dropWhile)

lemma split_max_eqs:
  "split_max 0 s = (if dropWhile is_space s = [] then [] else [dropWhile is_space s])"
  "split_max (Suc n) s = (if dropWhile is_space s = [] then [] else
     takeWhile (\<lambda>c. \<not> is_space c) (dropWhile is_space s) #
     split_max n (dropWhile (\<lambda>c. \<not> is_space c) (dropWhile is_space s)))"
  by (subst split_max.simps, simp add: Let_def)+

lemma dropWhile_all: "\<forall>c \<in> set t. P c \<Longrightarrow> r = [] \<or> \<not> P (hd r) \<Longrightarrow> dropWhile P (t @ r) = r"
  by (induction t) (cases r; simp)+

lemma takeWhile_all: "\<forall>c \<in> set t. P c \<Longrightarrow> r = [] \<or> \<not> P (hd r) \<Longrightarrow> takeWhile P (t @ r) = t"
  by (induction t) (cases r; simp)+

lemma split_word:
  assumes "\<forall>c \<in> set t. is_space c" "w \<noteq> []" "\<forall>c \<in> set w. \<not> is_space c" "rest = [] \<or> is_space (hd rest)"
  shows "split_max (Suc n) (t @ w @ rest) = w # split_max n rest"
proof -
  have "dropWhile is_space (t @ w @ rest) = w @ rest"
    using assms(2,3) by (intro dropWhile_all assms(1)) (simp add: hd_append)
  moreover have "takeWhile (\<lambda>c. \<not> is_space c) (w @ rest) = w" "dropWhile (\<lambda>c. \<not> is_space c) (w @ rest) = rest"
    using assms(4) by (intro takeWhile_all dropWhile_all assms(3); simp)+
  ultimately show ?thesis using assms(2) by (simp add: split_max_eqs(2) del: dropWhile_eq_Nil_conv)
qed

lemma split_step:
  assumes "split_max (Suc n) s \<noteq> []"
  shows "\<exists>t w rest. s = t @ w @ rest \<and> (\<forall>c \<in> set t. is_space c) \<and> w \<noteq> [] \<and> (\<forall>c \<in> set w. \<not> is_space c) \<and>
    split_max (Suc n) s = w # split_max n rest \<and> (rest = [] \<or> is_space (hd rest))"
proof -
  let ?t = "takeWhile is_space s" and ?r = "dropWhile is_space s"
  let ?w = "takeWhile (\<lambda>c. \<not> is_space c) ?r" and ?rest = "dropWhile (\<lambda>c. \<not> is_space c) ?r"
  have r: "?r \<noteq> []" using assms by (simp add: split_max_eqs split: if_splits)
  then have "?w \<noteq> []" using hd_dropWhile [of is_space s] by (simp add: takeWhile_eq_Nil_iff)
  moreover have "?rest = [] \<or> is_space (hd ?rest)" using hd_dropWhile [of "\<lambda>c. \<not> is_space c" ?r] by blast
  moreover have "\<forall>c \<in> set ?t. is_space c" "\<forall>c \<in> set ?w. \<not> is_space c" using set_takeWhileD by fastforce+
  moreover have "s = ?t @ ?w @ ?rest" by simp
  moreover have "split_max (Suc n) s = ?w # split_max n ?rest" using r by (simp add: split_max_eqs(2) del: dropWhile_eq_Nil_conv)
  ultimately show ?thesis by blast
qed

text \<open>
  A line that splits into all its parts is a head, which ends in white space, and its last part; the parts
  before depend on the head alone.
\<close>

lemma split_max_parts:
  assumes "length (split_max n s) = Suc n"
  shows "\<exists>front cmd. s = front @ cmd \<and> cmd \<noteq> [] \<and> \<not> is_space (hd cmd) \<and> (front \<noteq> [] \<longrightarrow> is_space (last front)) \<and>
    (0 < n \<longrightarrow> front \<noteq> []) \<and>
    (\<forall>c. c \<noteq> [] \<longrightarrow> \<not> is_space (hd c) \<longrightarrow> split_max n (front @ c) = butlast (split_max n s) @ [c]) \<and>
    split_max n s = butlast (split_max n s) @ [cmd]"
  using assms
proof (induction n arbitrary: s)
  case 0
  let ?front = "takeWhile is_space s" and ?cmd = "dropWhile is_space s"
  have c: "?cmd \<noteq> []" using 0 by (simp add: split_max_eqs split: if_splits)
  have drop: "dropWhile is_space (?front @ c) = c" if "c \<noteq> []" "\<not> is_space (hd c)" for c
    using that by (cases c) (auto simp: dropWhile_append dest: set_takeWhileD)
  have "?front \<noteq> [] \<Longrightarrow> is_space (last ?front)" by (metis last_in_set set_takeWhileD)
  then show ?case
    by (intro exI [of _ ?front] exI [of _ ?cmd])
      (use c drop dropWhile_hd in \<open>auto simp: split_max_eqs simp del: dropWhile_eq_Nil_conv\<close>)
next
  case (Suc n)
  obtain t w rest where s: "s = t @ w @ rest" "\<forall>c \<in> set t. is_space c" "w \<noteq> []" "\<forall>c \<in> set w. \<not> is_space c"
    "split_max (Suc n) s = w # split_max n rest" "rest = [] \<or> is_space (hd rest)"
    using split_step Suc.prems by (metis length_0_conv nat.distinct(1))
  then have "length (split_max n rest) = Suc n" using Suc.prems by simp
  from Suc.IH [OF this] obtain front cmd where IH: "rest = front @ cmd" "cmd \<noteq> []" "\<not> is_space (hd cmd)"
    "front \<noteq> [] \<longrightarrow> is_space (last front)"
    "\<forall>c. c \<noteq> [] \<longrightarrow> \<not> is_space (hd c) \<longrightarrow> split_max n (front @ c) = butlast (split_max n rest) @ [c]"
    "split_max n rest = butlast (split_max n rest) @ [cmd]" by blast
  have front: "front \<noteq> []" "is_space (hd front)" using s(6) IH(1-3) by (auto simp: hd_append split: if_splits)
  have ne: "split_max n rest \<noteq> []" using \<open>length (split_max n rest) = Suc n\<close> by auto
  show ?case
  proof (rule exI [of _ "t @ w @ front"], rule exI [of _ cmd], intro conjI allI impI)
    show "s = (t @ w @ front) @ cmd" by (simp add: s(1) IH(1))
    show "is_space (last (t @ w @ front))" using front(1) IH(4) by simp
    fix c :: string assume c: "c \<noteq> []" "\<not> is_space (hd c)"
    have "front @ c = [] \<or> is_space (hd (front @ c))" using front by simp
    from split_word [OF s(2-4) this, of n] IH(5) c show "split_max (Suc n) ((t @ w @ front) @ c) = butlast (split_max (Suc n) s) @ [c]"
      by (simp add: s(5) ne)
  next
    show "split_max (Suc n) s = butlast (split_max (Suc n) s) @ [cmd]"
      using IH(6) ne by (simp add: s(5))
  qed (use IH(2,3) front in simp_all)
qed

text \<open>A five-field line, as a head and its command: another command in its place is parsed with the same schedule.\<close>

lemma fielded_parts:
  assumes "parse_fielded_line kind line = Inr (schedule, cmd)"
  shows "\<exists>front. line = front @ cmd \<and> cmd \<noteq> [] \<and> front \<noteq> [] \<and> is_space (last front) \<and>
    (\<forall>c. c \<noteq> [] \<longrightarrow> \<not> is_space (hd c) \<longrightarrow> parse_fielded_line kind (front @ c) = Inr (schedule, c))"
proof -
  define n :: nat where "n = (if kind = SYSTEM_WITH_USER_FIELD then 6 else 5)"
  have le: "length (split_max m s) \<le> Suc m" for m s
  proof (induction m arbitrary: s)
    case (Suc m)
    show ?case using Suc.IH by (simp add: split_max_eqs)
  qed (simp add: split_max_eqs)
  have p: "parse_fielded_line kind s = (if length (split_max n s) = Suc n
      then Inr (join_with '' '' (take 5 (split_max n s)), split_max n s ! n)
      else parse_fielded_line kind s)" for s
    by (simp add: parse_fielded_line_def n_def Let_def)
  have full: "length (split_max n line) = Suc n"
    using assms le [of n line] by (auto simp: parse_fielded_line_def n_def Let_def split: if_splits)
  obtain front c0 where f: "line = front @ c0" "c0 \<noteq> []" "\<not> is_space (hd c0)" "front \<noteq> [] \<longrightarrow> is_space (last front)"
    "0 < n \<longrightarrow> front \<noteq> []"
    "\<forall>c. c \<noteq> [] \<longrightarrow> \<not> is_space (hd c) \<longrightarrow> split_max n (front @ c) = butlast (split_max n line) @ [c]"
    "split_max n line = butlast (split_max n line) @ [c0]"
    using split_max_parts [OF full] by blast
  define b where "b = butlast (split_max n line)"
  have b: "length b = n" "5 \<le> n" using full by (simp_all add: b_def n_def)
  have result: "parse_fielded_line kind (front @ c) = Inr (join_with '' '' (take 5 b), c)" if "c \<noteq> []" "\<not> is_space (hd c)" for c
  proof -
    have "split_max n (front @ c) = b @ [c]" using f(6) that by (simp add: b_def)
    with b show ?thesis by (subst p) (simp add: nth_append)
  qed
  from result [OF f(2,3)] assms have "schedule = join_with '' '' (take 5 b)" "cmd = c0" by (simp_all add: f(1))
  then show ?thesis using f(1-5) result b(2) by (intro exI [of _ front] conjI allI impI) simp_all
qed

text \<open>Whether a line is skipped is decided by its head, if what follows does not begin with an equals sign.\<close>

lemma dropWhile_within: "dropWhile P front \<noteq> [] \<Longrightarrow> dropWhile P (front @ c) = dropWhile P front @ c"
  by (induction front) auto

lemma dropWhile_past: "dropWhile P front = [] \<Longrightarrow> dropWhile P (front @ c) = dropWhile P c"
  by (induction front) (auto split: if_splits)

lemma skipped_front:
  assumes "\<not> skipped_line (front @ c)" "front \<noteq> []" "is_space (last front)" "c' \<noteq> []" "\<not> is_space (hd c')" "hd c' \<noteq> CHR ''=''"
  shows "\<not> skipped_line (front @ c')"
proof -
  let ?P = "\<lambda>c. is_env_start c \<or> is_digit c"
  have "\<not> ?P (last front)" using assms(3) by (auto simp: is_space_def is_env_start_def is_digit_def Let_def)
  then have "dropWhile ?P front \<noteq> []" unfolding dropWhile_eq_Nil_conv using last_in_set [OF assms(2)] by blast
  note d = dropWhile_within [OF this]
  have "take 1 (dropWhile is_space (dropWhile ?P front @ c')) = ''='' \<Longrightarrow>
      take 1 (dropWhile is_space (dropWhile ?P front @ c)) = ''=''"
  proof (cases "dropWhile is_space (dropWhile ?P front) = []")
    case True
    moreover assume "take 1 (dropWhile is_space (dropWhile ?P front @ c')) = ''=''"
    ultimately have "take 1 (dropWhile is_space c') = ''=''" by (simp add: dropWhile_past)
    with assms(4,5,6) show ?thesis by (cases c') auto
  next
    case False
    moreover assume "take 1 (dropWhile is_space (dropWhile ?P front @ c')) = ''=''"
    moreover obtain x y where "dropWhile is_space (dropWhile ?P front) = x # y" using False by (cases "dropWhile is_space (dropWhile ?P front)") auto
    ultimately show ?thesis by (simp add: dropWhile_within del: dropWhile_eq_Nil_conv)
  qed
  moreover have "hd (front @ c') = hd (front @ c)" "take 1 (front @ c') = take 1 (front @ c)"
    using assms(2) by (cases front; simp)+
  ultimately show ?thesis
    using assms(1,2) by (auto simp: skipped_line_def is_env_line_def d)
qed

lemma parse_one_parts:
  assumes "parse_one_line kind False line = Some (schedule, cmd)" and "take 1 line \<noteq> ''@''"
  shows "\<exists>front. line = front @ cmd \<and> cmd \<noteq> [] \<and> front \<noteq> [] \<and> is_space (last front) \<and>
    (\<forall>c. c \<noteq> [] \<longrightarrow> \<not> is_space (hd c) \<longrightarrow> hd c \<noteq> CHR ''='' \<longrightarrow> parse_one_line kind False (front @ c) = Some (schedule, c))"
proof -
  have p: "\<not> skipped_line line" "parse_fielded_line kind line = Inr (schedule, cmd)"
    using assms by (auto simp: parse_one_line_def parse_line_def split: if_splits sum.splits)
  from fielded_parts [OF p(2)] obtain front where f: "line = front @ cmd" "cmd \<noteq> []" "front \<noteq> []" "is_space (last front)"
    "\<forall>c. c \<noteq> [] \<longrightarrow> \<not> is_space (hd c) \<longrightarrow> parse_fielded_line kind (front @ c) = Inr (schedule, c)" by blast
  have "parse_one_line kind False (front @ c) = Some (schedule, c)"
    if "c \<noteq> []" "\<not> is_space (hd c)" "hd c \<noteq> CHR ''=''" for c
  proof -
    have "\<not> skipped_line (front @ c)" using skipped_front p(1) f(1,3,4) that by blast
    moreover have "take 1 (front @ c) \<noteq> ''@''" using assms(2) f(1,3) by (cases front) simp_all
    ultimately show ?thesis using f(5) that by (simp add: parse_one_line_def parse_line_def)
  qed
  with f(1-4) show ?thesis by blast
qed

section \<open>Rewriting a line\<close>

definition mentions :: "string \<Rightarrow> string \<Rightarrow> bool" where
  "mentions p s \<longleftrightarrow> (\<exists>i. take (length p) (drop i s) = p)"

lemma not_mentioned: "\<not> mentions p (a @ b) \<Longrightarrow> take (length p) (drop i (a @ b)) \<noteq> p"
  by (simp add: mentions_def)

lemma rfind_suffix:
  assumes "c \<noteq> []"
  shows "rfind c (front @ c) = Some (length front)"
  unfolding rfind_def
proof (rule find_last)
  fix i assume i: "length front < i" "i < Suc (length (front @ c))"
  have "length (take (length c) (drop i (front @ c))) < length c" using i assms by simp
  then show "take (length c) (drop i (front @ c)) \<noteq> c" by (metis less_irrefl)
qed simp_all

lemma rfind_absent:
  assumes "\<not> mentions p s"
  shows "rfind p s = None"
  using assms by (simp add: rfind_def find_None_iff mentions_def)

text \<open>A line that does not mention the wrapper does not contain a longer text that begins with its path.\<close>

lemma mentions_longer: "mentions (p @ q) s \<Longrightarrow> mentions p s"
proof -
  assume "mentions (p @ q) s"
  then obtain i where "take (length (p @ q)) (drop i s) = p @ q" by (auto simp: mentions_def)
  then have "take (length p) (take (length (p @ q)) (drop i s)) = p" by simp
  then show "mentions p s" by (auto simp: mentions_def min_def)
qed

lemma rewrite_clean_line:
  assumes "\<not> mentions wrapper_path (front @ cmd)" and "cmd \<noteq> []"
  shows "rewrite_line (front @ cmd) cmd fp = Inr (front @ build_invocation_prefix fp @ cmd)"
proof -
  have "rfind (wrapper_path @ '' '' @ wrapper_separator @ '' '' @ cmd) (front @ cmd) = None"
    using assms(1) mentions_longer rfind_absent by blast
  with rfind_suffix [OF assms(2)] show ?thesis by (simp add: rewrite_line_def Let_def)
qed

lemma no_crossing:
  assumes "take (length w) (drop i (front @ r)) = w" "\<forall>c \<in> set w. \<not> is_space c" "front \<noteq> []" "is_space (last front)"
    "i < length front"
  shows "take (length w) (drop i front) = w"
proof -
  obtain a x where f: "front = a @ [x]" using assms(3) by (cases front rule: rev_cases) auto
  have "length w \<le> length a - i"
  proof (rule ccontr)
    assume n: "\<not> length w \<le> length a - i"
    then obtain k where k: "length w - (length a - i) = Suc k" by (cases "length w - (length a - i)") auto
    have "w = take (length w) (drop i a @ x # r)" using assms(1,5) by (simp add: f)
    also have "\<dots> = drop i a @ x # take k r" using n k by simp
    finally have "x \<in> set w" by (metis in_set_conv_decomp)
    with assms(2,4) show False by (simp add: f)
  qed
  with assms(1,5) show ?thesis by (simp add: f)
qed

lemma remove_prefix_wrapped:
  assumes "\<not> mentions wrapper_path front" and "front \<noteq> []" and "is_space (last front)"
  shows "remove_prefix (front @ build_invocation_prefix fp @ cmd) fp = Inr (front @ cmd)"
proof -
  let ?p = "build_invocation_prefix fp" and ?s = "front @ build_invocation_prefix fp @ cmd"
  have le: "length wrapper_path \<le> length ?p" and p: "take (length wrapper_path) ?p = wrapper_path"
    by (simp_all add: build_invocation_prefix_def)
  have "find_sub ?p ?s = Some (length front)"
    unfolding find_sub_def
  proof (rule find_first)
    fix i assume i: "i < length front"
    show "take (length ?p) (drop i ?s) \<noteq> ?p"
    proof
      assume t: "take (length ?p) (drop i ?s) = ?p"
      have "take (length wrapper_path) (drop i ?s) = take (length wrapper_path) (take (length ?p) (drop i ?s))"
        using le by (simp only: take_take min.absorb1)
      also have "\<dots> = wrapper_path" unfolding t by (rule p)
      finally have "take (length wrapper_path) (drop i front) = wrapper_path"
        by (rule no_crossing) (use wrapper_path_facts(1) assms(2,3) i in auto)
      with assms(1) show False by (auto simp: mentions_def)
    qed
  qed simp_all
  then show ?thesis by (simp add: remove_prefix_def Let_def)
qed

section \<open>Installing and uninstalling\<close>

lemma find_line_parsed:
  "find_line fp_of kind fp i ls = Some m \<Longrightarrow> parse_one_line kind False (lm_raw m) = Some (lm_schedule m, lm_command m) \<and>
    lm_inner m = unwrap_command (lm_command m) \<and> lm_wrapped m = is_wrapped (lm_command m)"
  by (induction ls arbitrary: i) (auto split: option.splits if_splits)

lemma find_line_index: "find_line fp_of kind fp i ls = Some m \<Longrightarrow> i \<le> lm_index m"
proof (induction ls arbitrary: i)
  case (Cons l ls)
  show ?case using Cons.prems Cons.IH [of "Suc i"] by (auto split: option.splits if_splits)
qed simp

lemma find_line_update:
  assumes "find_line fp_of kind fp i ls = Some m"
    and "parse_one_line kind False new = Some (lm_schedule m, c)" and "unwrap_command c = lm_inner m"
  shows "find_line fp_of kind fp i (ls[lm_index m - i := new]) =
    Some \<lparr>lm_index = lm_index m, lm_raw = new, lm_schedule = lm_schedule m, lm_inner = lm_inner m, lm_wrapped = is_wrapped c,
      lm_command = c\<rparr>"
  using assms(1)
proof (induction ls arbitrary: i)
  case (Cons l ls)
  have later: "find_line fp_of kind fp i ((l # ls)[lm_index m - i := new]) =
      Some \<lparr>lm_index = lm_index m, lm_raw = new, lm_schedule = lm_schedule m, lm_inner = lm_inner m, lm_wrapped = is_wrapped c,
        lm_command = c\<rparr>"
    if n: "find_line fp_of kind fp (Suc i) ls = Some m" and skip: "\<And>ls. find_line fp_of kind fp i (l # ls) = find_line fp_of kind fp (Suc i) ls"
  proof -
    from find_line_index [OF n] have "lm_index m - i = Suc (lm_index m - Suc i)" by simp
    with Cons.IH [OF n] show ?thesis by (simp only: list_update_code(3) skip)
  qed
  show ?case
  proof (cases "parse_one_line kind False l")
    case None
    then show ?thesis using Cons.prems by (intro later) simp_all
  next
    case (Some p)
    then obtain schedule cmd where p: "parse_one_line kind False l = Some (schedule, cmd)" by (cases p) simp
    show ?thesis
    proof (cases "fp_of schedule (unwrap_command cmd) = fp")
      case True
      with p Cons.prems have "m = \<lparr>lm_index = i, lm_raw = l, lm_schedule = schedule, lm_inner = unwrap_command cmd,
          lm_wrapped = is_wrapped cmd, lm_command = cmd\<rparr>" by simp
      with True assms(2,3) show ?thesis by simp
    next
      case False
      with p Cons.prems show ?thesis by (intro later) simp_all
    qed
  qed
qed simp

lemma kit_line_read:
  assumes "resolve_container_path root snap path = Inr file" and "read_file file = Content content"
  shows "kit_line sha256 read_file root snap fp host (Some path) op =
    (case find_line (cron_fingerprint sha256 host (Some path)) (source_kind_from_path path) fp 0 (splitlines content) of
       Some m \<Rightarrow> Inr (path, file, m)
     | None \<Rightarrow> Inl (CronLineNotFoundError (''no crontab line matches fingerprint '' @ fp)))"
  using assms by (simp add: kit_line_def find_matching_line_def split: option.split)

lemma install_kit_line:
  assumes "resolve_container_path root snap path = Inr file" and "read_file file = Content content"
    and "build_install_kit sha256 read_file root snap fp host (Some path) = Inr d"
  obtains m where "find_line (cron_fingerprint sha256 host (Some path)) (source_kind_from_path path) fp 0 (splitlines content) = Some m"
    "rewrite_line (lm_raw m) (lm_inner m) fp = Inr (cd_new_line d)" "d = diff_of path file m (cd_new_line d)"
proof (cases "find_line (cron_fingerprint sha256 host (Some path)) (source_kind_from_path path) fp 0 (splitlines content)")
  case None
  with assms(3) show ?thesis by (simp add: build_install_kit_def kit_line_read [where read_file = read_file, OF assms(1,2)])
next
  case (Some m)
  with assms(3) have "map_sum id (diff_of path file m) (rewrite_line (lm_raw m) (lm_inner m) fp) = Inr d"
    by (simp add: build_install_kit_def kit_line_read [where read_file = read_file, OF assms(1,2)] split: if_splits)
  then obtain new where "rewrite_line (lm_raw m) (lm_inner m) fp = Inr new" "d = diff_of path file m new"
    by (cases "rewrite_line (lm_raw m) (lm_inner m) fp") auto
  with Some show ?thesis by (intro that [of m]) (simp_all add: diff_of_def)
qed

lemma clean_line:
  assumes "parse_one_line kind False line = Some (schedule, cmd)" and "take 1 line \<noteq> ''@''" and "\<not> mentions wrapper_path line"
  obtains front where "line = front @ cmd" "unwrap_command cmd = cmd" "cmd \<noteq> []" "front \<noteq> []" "is_space (last front)"
    "\<not> mentions wrapper_path front"
    "\<And>fp. parse_one_line kind False (front @ build_invocation_prefix fp @ cmd) = Some (schedule, build_invocation_prefix fp @ cmd)"
proof -
  from parse_one_parts [OF assms(1,2)] obtain front where f: "line = front @ cmd" "cmd \<noteq> []" "front \<noteq> []" "is_space (last front)"
    "\<forall>c. c \<noteq> [] \<longrightarrow> \<not> is_space (hd c) \<longrightarrow> hd c \<noteq> CHR ''='' \<longrightarrow> parse_one_line kind False (front @ c) = Some (schedule, c)" by blast
  have sub: "\<not> mentions wrapper_path (a @ b) \<Longrightarrow> \<not> mentions wrapper_path b" for a b :: string
    unfolding mentions_def by (metis append_Nil diff_add_inverse drop_all drop_append le_add1)
  have "cmd \<noteq> wrapper_path @ r" for r
  proof
    assume "cmd = wrapper_path @ r"
    then have "take (length wrapper_path) (drop 0 cmd) = wrapper_path" by simp
    with sub assms(3) f(1) show False unfolding mentions_def by blast
  qed
  then have u: "unwrap_command cmd = cmd" by (rule unwrapped(2))
  have "\<not> mentions wrapper_path front"
  proof
    assume "mentions wrapper_path front"
    then obtain i where i: "take (length wrapper_path) (drop i front) = wrapper_path" by (auto simp: mentions_def)
    then have "length wrapper_path \<le> length (drop i front)" by (metis length_take min.cobounded1)
    then have "take (length wrapper_path) (drop i (front @ cmd)) = wrapper_path"
      using i wrapper_path_facts(2) by (cases "i \<le> length front") (simp_all)
    with assms(3) f(1) show False by (auto simp: mentions_def)
  qed
  moreover have "hd (build_invocation_prefix fp @ cmd) = CHR ''/''" "build_invocation_prefix fp @ cmd \<noteq> []" for fp
    using wrapper_path_facts(2,3) by (simp_all add: build_invocation_prefix_def)
  moreover have "\<not> is_space CHR ''/''" by (simp add: is_space_def)
  ultimately show ?thesis using f u that by simp
qed

text \<open>
  C38: Installing the wrapper changes one line, and uninstalling it restores that line to the letter.  Let a line of
  five fields that does not mention the wrapper be matched by the installer, and let the file then hold the
  rewritten line in its place.  The new line is the old one with the invocation before its command; a second
  install is refused as already wrapped; and the uninstaller finds the line again, by the same fingerprint and
  at the same place, and gives back the old one.
\<close>

theorem install_then_uninstall:
  assumes kit: "build_install_kit sha256 before root snap fp host (Some path) = Inr d"
    and fp: "fp \<noteq> []" "\<forall>c \<in> set fp. \<not> is_space c"
    and line: "take 1 (cd_old_line d) \<noteq> ''@''" "\<not> mentions wrapper_path (cd_old_line d)"
    and paths: "resolve_container_path root snap path = Inr file" "before file = Content old_text" "after file = Content new_text"
    and written: "splitlines new_text = (splitlines old_text)[cd_line_index d := cd_new_line d]"
  shows "(\<exists>front. cd_old_line d = front @ cd_inner_command d \<and>
        cd_new_line d = front @ build_invocation_prefix fp @ cd_inner_command d) \<and>
    build_uninstall_kit sha256 after root snap fp host (Some path) =
      Inr (d\<lparr>cd_old_line := cd_new_line d, cd_new_line := cd_old_line d\<rparr>) \<and>
    (\<exists>msg. build_install_kit sha256 after root snap fp host (Some path) = Inl (AlreadyWrappedError msg))"
proof -
  obtain m where m: "find_line (cron_fingerprint sha256 host (Some path)) (source_kind_from_path path) fp 0 (splitlines old_text) = Some m"
    "rewrite_line (lm_raw m) (lm_inner m) fp = Inr (cd_new_line d)" "d = diff_of path file m (cd_new_line d)"
    by (rule install_kit_line [OF paths(1,2) kit])
  have d: "cd_old_line d = lm_raw m" "cd_inner_command d = lm_inner m" "cd_line_index d = lm_index m"
    using arg_cong [OF m(3), of cd_old_line] arg_cong [OF m(3), of cd_inner_command] arg_cong [OF m(3), of cd_line_index]
    by (simp_all add: diff_of_def)
  from find_line_parsed [OF m(1)] have p: "parse_one_line (source_kind_from_path path) False (lm_raw m) = Some (lm_schedule m, lm_command m)"
    "lm_inner m = unwrap_command (lm_command m)" by blast+
  obtain front where f: "lm_raw m = front @ lm_command m" "unwrap_command (lm_command m) = lm_command m" "lm_command m \<noteq> []"
    "front \<noteq> []" "is_space (last front)" "\<not> mentions wrapper_path front"
    "\<And>fp. parse_one_line (source_kind_from_path path) False (front @ build_invocation_prefix fp @ lm_command m) =
       Some (lm_schedule m, build_invocation_prefix fp @ lm_command m)"
    by (rule clean_line [OF p(1)]) (use line d(1) in auto)
  have inner: "lm_inner m = lm_command m" using p(2) f(2) by simp
  have new: "cd_new_line d = front @ build_invocation_prefix fp @ lm_command m"
    using m(2) rewrite_clean_line [of front "lm_command m" fp] f(1,3) line(2) by (simp add: inner d(1))
  note w = wrapping_roundtrip [OF fp, of "lm_command m"]
  have "find_line (cron_fingerprint sha256 host (Some path)) (source_kind_from_path path) fp 0 (splitlines new_text) =
      Some \<lparr>lm_index = lm_index m, lm_raw = cd_new_line d, lm_schedule = lm_schedule m, lm_inner = lm_inner m,
        lm_wrapped = is_wrapped (build_invocation_prefix fp @ lm_command m), lm_command = build_invocation_prefix fp @ lm_command m\<rparr>"
    using find_line_update [OF m(1), of "cd_new_line d" "build_invocation_prefix fp @ lm_command m"] f(7) w
    by (simp add: new inner written d(3))
  note found = this
  have "build_uninstall_kit sha256 after root snap fp host (Some path) =
      Inr (d\<lparr>cd_old_line := cd_new_line d, cd_new_line := cd_old_line d\<rparr>)"
    using w remove_prefix_wrapped [OF f(6,4,5), of fp "lm_command m"] m(3)
    by (simp add: build_uninstall_kit_def kit_line_read [where read_file = after, OF paths(1,3)] found diff_of_def new d inner f(1))
  moreover have "\<exists>msg. build_install_kit sha256 after root snap fp host (Some path) = Inl (AlreadyWrappedError msg)"
    using w by (simp add: build_install_kit_def kit_line_read [where read_file = after, OF paths(1,3)] found)
  ultimately show ?thesis using f(1) by (auto simp: d inner new)
qed

lemma mentions_iff: "mentions p s \<longleftrightarrow> p = [] \<or> find_sub p s \<noteq> None"
proof (cases "p = []")
  case False
  have "take (length p) (drop i s) \<noteq> p" if "length s < i" for i using that False by simp
  then have "mentions p s \<longleftrightarrow> (\<exists>i \<le> length s. take (length p) (drop i s) = p)"
    unfolding mentions_def by (meson not_le)
  also have "\<dots> \<longleftrightarrow> find_sub p s \<noteq> None"
    unfolding find_sub_def find_None_iff by (auto simp del: upt_Suc simp: less_Suc_eq_le)
  finally show ?thesis using False by simp
qed (simp add: mentions_def)

definition alice_before :: string where
  "alice_before = ''MAILTO=root'' @ [char_of (10 :: nat)] @ ''0 3 * * *  /bin/backup -q'' @ [char_of (10 :: nat)]"

definition alice_after :: string where
  "alice_after = ''MAILTO=root'' @ [char_of (10 :: nat)] @ ''0 3 * * *  '' @ build_invocation_prefix ''f1'' @ ''/bin/backup -q'' @ [char_of (10 :: nat)]"

definition alice_diff :: crontab_diff where
  "alice_diff = \<lparr>cd_source_path = ''crontab:alice'', cd_container_file = ''/snap/alice'', cd_old_line = ''0 3 * * *  /bin/backup -q'',
     cd_new_line = ''0 3 * * *  '' @ build_invocation_prefix ''f1'' @ ''/bin/backup -q'', cd_line_index = 1,
     cd_inner_command = ''/bin/backup -q''\<rparr>"

theorem install_then_uninstall_witness:
  "build_uninstall_kit (\<lambda>_. ''f1'') (\<lambda>_. Content alice_after) ''/host'' ''/snap'' ''f1'' ''home'' (Some ''crontab:alice'') =
     Inr (alice_diff\<lparr>cd_old_line := cd_new_line alice_diff, cd_new_line := ''0 3 * * *  /bin/backup -q''\<rparr>)"
proof -
  have 1: "build_install_kit (\<lambda>_. ''f1'') (\<lambda>_. Content alice_before) ''/host'' ''/snap'' ''f1'' ''home'' (Some ''crontab:alice'') =
      Inr alice_diff"
    by code_simp
  have 2: "''f1'' \<noteq> []" "\<forall>c \<in> set ''f1''. \<not> is_space c" by code_simp+
  have 3: "take 1 (cd_old_line alice_diff) \<noteq> ''@''" by code_simp
  have 4: "\<not> mentions wrapper_path (cd_old_line alice_diff)" unfolding mentions_iff by code_simp
  have 5: "resolve_container_path ''/host'' ''/snap'' ''crontab:alice'' = Inr ''/snap/alice''" by code_simp
  have 6: "splitlines alice_after = (splitlines alice_before)[cd_line_index alice_diff := cd_new_line alice_diff]" by code_simp
  from install_then_uninstall [OF 1 2 3 4 5 refl refl 6] show ?thesis by (simp add: alice_diff_def)
qed

section \<open>Where discovery and installer disagree\<close>

text \<open>
  Discovery strips a line before it parses it, the installer does not: of a command that is followed by a blank
  the installer's copy keeps it, so its fingerprint is not the one discovery has registered and no line matches.
\<close>

theorem trailing_blank_differs:
  "parse_one_line USER_CRONTAB True ''0 3 * * * /bin/backup '' = Some (''0 3 * * *'', ''/bin/backup '') \<and>
   map pe_command (fst (parse_cron_file (\<lambda>_. True) USER_CRONTAB ''home'' ''crontab:alice'' ''0 3 * * * /bin/backup '')) =
     [''/bin/backup'']"
  by code_simp

text \<open>
  The command of a nickname line is joined from its words, which loses the second of two blanks; the installer
  then does not find the command in the line and fails with an internal error.
\<close>

theorem nickname_blanks_fail:
  "parse_one_line USER_CRONTAB False ''@daily /bin/backup  -q'' = Some (''@daily'', ''/bin/backup -q'') \<and>
   rewrite_line ''@daily /bin/backup  -q'' ''/bin/backup -q'' ''f1'' =
     Inl (WrapperInstallError ''internal: command not found in raw line'')"
  by code_simp

text \<open>
  A line in the old wrapped format counts as wrapped and so passes the gate of the uninstaller, which then looks
  for the new prefix only and fails with an internal error: the old wrapper cannot be uninstalled.
\<close>

theorem legacy_not_uninstalled:
  "build_uninstall_kit (\<lambda>_. ''f1'') (\<lambda>_. Content (''0 3 * * * '' @ wrapper_path @ '' -- /bin/backup'')) ''/host'' ''/snap'' ''f1''
     ''home'' (Some ''crontab:alice'') = Inl (WrapperInstallError ''internal: wrapper prefix not found in raw line'')"
  by code_simp

text \<open>The two formats are not mutually exclusive: a command that itself begins with the separator matches both.\<close>

theorem formats_overlap:
  "wrapped_match (wrapper_path @ '' -- -- x'') = Some (''--'', ''x'') \<and> legacy_match (wrapper_path @ '' -- -- x'') = Some ''-- x''"
  by code_simp

end
