(* ===== verification/WrapperInstall.thy ===== *)
theory WrapperInstall
  imports CronFacts CrontabFacts
begin

text \<open>
  The installation of the wrapper of a cron and its removal (\<open>install_wrapper_local\<close> and
  \<open>uninstall_wrapper_local\<close> of kernel/cron/install.py), and the exchange of files with the executor on the
  host, which alone may write a crontab (kernel/cron/cron_apply_ipc.py).  The executor, the file system and the
  clock are the environment.  The token of the wrapper comes from the store of secrets, which is not modelled:
  it is answered by the environment.
\<close>

section \<open>The exchange\<close>

datatype ipc_error =
    ApplyUnavailable string
  | ApplyRejected string string
  | ApplyFailed string

text \<open>
  A result file that is not there, one that cannot be read or has no valid status, and a result: whether it
  is \<open>ok\<close>, its error code and its message.
\<close>

datatype result_file = NoResult | BadResult string | Result bool "string option" string

text \<open>
  The path of the directory of the requests, and what the environment answers: whether it exists, whether the request can be
  written, the result of a request, the clock of the event loop, the removal of a request, the token, and
  the files of the host; \<open>utf8_bytes\<close> is the length of the encoding of a text.
\<close>

record ipc =
  ipc_requests :: string
  ipc_ready :: "nat \<Rightarrow> bool"
  ipc_write :: "nat \<Rightarrow> string option"
  ipc_result :: "nat \<Rightarrow> string \<Rightarrow> result_file"
  ipc_clock :: "nat \<Rightarrow> rat"
  ipc_unlink :: "nat \<Rightarrow> string option"
  ipc_token :: "nat \<Rightarrow> string + string"
  ipc_files :: "nat \<Rightarrow> string \<Rightarrow> file_read"
  utf8_bytes :: "string \<Rightarrow> int"

definition poll_interval :: rat where "poll_interval = 1 / 4"

definition poll_timeout :: rat where "poll_timeout = 30"

definition max_op_content :: int where "max_op_content = 64 * 1024"

definition plain_name :: "string \<Rightarrow> bool" where
  "plain_name s \<longleftrightarrow> s \<noteq> [] \<and> CHR ''/'' \<notin> set s \<and> find_sub ''..'' s = None"

definition is_valid_target_crontab :: "string \<Rightarrow> bool" where
  "is_valid_target_crontab target =
     (if target = ''/etc/crontab'' then True
      else case strip_prefix ''/etc/cron.d/'' target of
        Some name \<Rightarrow> plain_name name
      | None \<Rightarrow> (case strip_prefix ''crontab:'' target of Some user \<Rightarrow> plain_name user | None \<Rightarrow> False))"

definition check_target :: "string \<Rightarrow> ipc_error option" where
  "check_target target =
     (if is_valid_target_crontab target then None
      else Some (ApplyRejected (''invalid target_crontab: '' @ py_repr target) ''bad_path''))"

definition check_content :: "ipc \<Rightarrow> string \<Rightarrow> ipc_error option" where
  "check_content ipc content =
     (if max_op_content < utf8_bytes ipc content
      then Some (ApplyRejected (''op content too large: '' @ str_of_int (utf8_bytes ipc content) @ '' bytes (max '' @
             str_of_int max_op_content @ '')'') ''bad_request'')
      else None)"

fun check_op :: "ipc \<Rightarrow> cron_op \<Rightarrow> ipc_error option" where
  "check_op ipc (WrapCrontab target old_line command new_line) = check_target target"
| "check_op ipc (UnwrapCrontab target old_line new_line) = check_target target"
| "check_op ipc (WriteWrapperScript content) = check_content ipc content"
| "check_op ipc (WriteToken content) = check_content ipc content"
| "check_op ipc (WriteWrapperEnv content) = check_content ipc content"

fun check_ops :: "ipc \<Rightarrow> cron_op list \<Rightarrow> ipc_error option" where
  "check_ops ipc [] = None"
| "check_ops ipc (oper # ops) = (case check_op ipc oper of Some e \<Rightarrow> Some e | None \<Rightarrow> check_ops ipc ops)"

text \<open>
  The loop that waits for the result; the fuel counts its rounds, and None is a wait that goes on.  Otherwise
  it gives the result, or \<open>NoResult\<close> at the deadline.
\<close>

fun poll_result :: "cron_env \<Rightarrow> ipc \<Rightarrow> string \<Rightarrow> rat \<Rightarrow> nat \<Rightarrow> result_file option cron_prog" where
  "poll_result env ipc request_id deadline 0 = ret None"
| "poll_result env ipc request_id deadline (Suc n) =
     bindP (ask (ipc_clock ipc)) (\<lambda>now.
     if deadline \<le> now then ret (Some NoResult)
     else
       bindP (ask (\<lambda>k. ipc_result ipc k request_id)) (\<lambda>result.
       if result \<noteq> NoResult then ret (Some result)
       else seqP (suspend env) (poll_result env ipc request_id deadline n)))"

text \<open>What follows the loop: the log line of a result, the withdrawal of a request nobody answered.\<close>

definition conclude :: "ipc \<Rightarrow> string \<Rightarrow> result_file \<Rightarrow> (ipc_error + unit) cron_prog" where
  "conclude ipc request_id result =
     (case result of
        BadResult msg \<Rightarrow> ret (Inl (ApplyFailed msg))
      | Result ok error_code message \<Rightarrow>
          seqP (emit (Act (VerdictRead request_id ok)))
            (ret (if ok then Inr () else Inl (ApplyRejected message (case error_code of Some c \<Rightarrow> if c = [] then ''unknown'' else c | None \<Rightarrow> ''unknown''))))
      | NoResult \<Rightarrow>
          bindP (ask (ipc_unlink ipc)) (\<lambda>failure.
          case failure of
            Some msg \<Rightarrow> ret (Inl (ApplyFailed msg))
          | None \<Rightarrow>
              seqP (emit (Act (RequestRemoved request_id)))
                (ret (Inl (ApplyUnavailable ''cron-apply executor did not respond within 30s; ensure homelab-monitor-cron-apply.path is enabled (run host-setup.sh)'')))))"

definition submit_and_wait :: "cron_env \<Rightarrow> ipc \<Rightarrow> nat \<Rightarrow> cron_op list \<Rightarrow> (ipc_error + unit) option cron_prog" where
  "submit_and_wait env ipc fuel ops =
     (if ops = [] then ret (Some (Inl (ApplyFailed ''operations must be non-empty'')))
      else
        bindP (ask (ipc_ready ipc)) (\<lambda>ready.
        if \<not> ready then ret (Some (Inl (ApplyUnavailable (''cron-apply IPC requests dir not found: '' @ ipc_requests ipc @ ''; run scripts/host-setup.sh on the host''))))
        else case check_ops ipc ops of
          Some e \<Rightarrow> ret (Some (Inl e))
        | None \<Rightarrow>
            bindP (ask (uuid env)) (\<lambda>request_id.
            bindP (ask (ipc_write ipc)) (\<lambda>failure.
            case failure of
              Some msg \<Rightarrow> ret (Some (Inl (ApplyFailed msg)))
            | None \<Rightarrow>
                seqP (emit (Act (RequestWritten request_id ops)))
                (bindP (ask (ipc_clock ipc)) (\<lambda>start.
                bindP (poll_result env ipc request_id (start + poll_timeout) fuel) (\<lambda>result.
                case result of
                  None \<Rightarrow> ret None
                | Some r \<Rightarrow> bindP (conclude ipc request_id r) (\<lambda>v. ret (Some v)))))))))"

section \<open>Installing\<close>

record install_config =
  ic_host_root :: string
  ic_snapshot_dir :: string
  ic_public_url :: string
  ic_local_hostname :: string
  ic_wrapper_content :: string

definition wrapper_format_version :: string where "wrapper_format_version = ''1.1.0''"

definition kit_for_install :: "cron_env \<Rightarrow> install_config \<Rightarrow> (string \<Rightarrow> file_read) \<Rightarrow> cron_row \<Rightarrow> install_error + crontab_diff" where
  "kit_for_install env cfg files cron =
     build_install_kit (sha256 env) files (ic_host_root cfg) (ic_snapshot_dir cfg) (cr_fingerprint cron) (cr_host cron)
       (cr_source_path cron)"

definition kit_for_uninstall :: "cron_env \<Rightarrow> install_config \<Rightarrow> (string \<Rightarrow> file_read) \<Rightarrow> cron_row \<Rightarrow> install_error + crontab_diff" where
  "kit_for_uninstall env cfg files cron =
     build_uninstall_kit (sha256 env) files (ic_host_root cfg) (ic_snapshot_dir cfg) (cr_fingerprint cron) (cr_host cron)
       (cr_source_path cron)"

definition install_ops :: "install_config \<Rightarrow> string \<Rightarrow> crontab_diff \<Rightarrow> cron_op list" where
  "install_ops cfg token d =
     [WriteWrapperScript (ic_wrapper_content cfg), WriteToken token,
      WriteWrapperEnv (''HEARTBEAT_URL_BASE='' @ ic_public_url cfg @ [CHR 0x0A]),
      WrapCrontab (cd_source_path d) (cd_old_line d) (cd_inner_command d) (cd_new_line d)]"

definition uninstall_ops :: "crontab_diff \<Rightarrow> cron_op list" where
  "uninstall_ops d = [UnwrapCrontab (cd_source_path d) (cd_old_line d) (cd_new_line d)]"

text \<open>How the errors of the exchange are translated.\<close>

definition rejected :: "string \<Rightarrow> install_error \<Rightarrow> string \<Rightarrow> string \<Rightarrow> install_error" where
  "rejected own own_error msg code =
     (if code = own then own_error
      else if code = ''write_failed'' \<or> code = ''crontab_missing'' then CrontabWriteError msg
      else CronLineNotFoundError msg)"

fun install_failure :: "ipc_error \<Rightarrow> install_error" where
  "install_failure (ApplyUnavailable msg) = CronApplyUnavailableError msg"
| "install_failure (ApplyRejected msg code) = rejected ''already_wrapped'' (AlreadyWrappedError msg) msg code"
| "install_failure (ApplyFailed msg) = CrontabWriteError (''cron-apply IPC error: '' @ msg)"

fun uninstall_failure :: "ipc_error \<Rightarrow> install_error" where
  "uninstall_failure (ApplyUnavailable msg) = CronApplyUnavailableError msg"
| "uninstall_failure (ApplyRejected msg code) = rejected ''not_wrapped'' (NotWrappedError msg) msg code"
| "uninstall_failure (ApplyFailed msg) = CrontabWriteError (''cron-apply IPC error: '' @ msg)"

text \<open>Steps 1 and 2 of both: the row of the cron, which has to be on this host.\<close>

definition local_cron :: "cron_env \<Rightarrow> install_config \<Rightarrow> string \<Rightarrow> (install_error + cron_row) cron_prog" where
  "local_cron env cfg fp =
     bindP (fetch env (get_cron fp True)) (\<lambda>r.
     case r of
       None \<Rightarrow> ret (Inl (CronLineNotFoundError (''cron not found: '' @ fp)))
     | Some cron \<Rightarrow>
         if cr_host cron \<noteq> ic_local_hostname cfg
         then ret (Inl (RemoteHostError (''cron is on host '' @ py_repr (cr_host cron) @ '', not local '' @ py_repr (ic_local_hostname cfg))))
         else ret (Inr cron))"

definition touch :: "cron_env \<Rightarrow> cron_row \<Rightarrow> crontab_diff \<Rightarrow> bool \<Rightarrow> unit cron_prog" where
  "touch env cron d wrapped =
     bindP (ask (now_iso env)) (\<lambda>now.
     seqP (upsert_discovered env
             \<lparr>ds_host = cr_host cron, ds_source_path = cd_source_path d, ds_schedule = cr_schedule cron,
              ds_command = cr_command cron, ds_wrapped = wrapped\<rparr> now)
       (ret ()))"

definition refreshed :: "cron_env \<Rightarrow> string \<Rightarrow> string \<Rightarrow> (install_error + cron_row) option cron_prog" where
  "refreshed env fp msg =
     bindP (fetch env (get_cron fp True)) (\<lambda>r.
     ret (Some (case r of None \<Rightarrow> Inl (CrontabWriteError msg) | Some cron \<Rightarrow> Inr cron)))"

definition installed :: "cron_env \<Rightarrow> string \<Rightarrow> string \<Rightarrow> string option \<Rightarrow> cron_row \<Rightarrow> crontab_diff \<Rightarrow> (install_error + cron_row) option cron_prog" where
  "installed env fp who ip cron d =
     seqP (set_wrapper_format_version env fp wrapper_format_version)
     (seqP (touch env cron d True)
     (seqP (record_wrapper_installed env fp who ip)
       (refreshed env fp ''cron disappeared after install'')))"

definition uninstalled :: "cron_env \<Rightarrow> string \<Rightarrow> string \<Rightarrow> string option \<Rightarrow> cron_row \<Rightarrow> crontab_diff \<Rightarrow> (install_error + cron_row) option cron_prog" where
  "uninstalled env fp who ip cron d =
     seqP (touch env cron d False)
     (seqP (record_wrapper_uninstalled env fp who ip)
       (refreshed env fp ''cron disappeared after uninstall''))"

definition after_exchange ::
  "(ipc_error \<Rightarrow> install_error) \<Rightarrow> (install_error + cron_row) option cron_prog \<Rightarrow> (ipc_error + unit) option \<Rightarrow>
   (install_error + cron_row) option cron_prog" where
  "after_exchange failure done_prog v =
     (case v of
        None \<Rightarrow> ret None
      | Some (Inl e) \<Rightarrow> ret (Some (Inl (failure e)))
      | Some (Inr _) \<Rightarrow> done_prog)"

text \<open>Steps 4 to 11: the token, the operations, the exchange and the bookkeeping.\<close>

definition apply_install ::
  "cron_env \<Rightarrow> ipc \<Rightarrow> install_config \<Rightarrow> nat \<Rightarrow> string \<Rightarrow> string \<Rightarrow> string option \<Rightarrow> cron_row \<Rightarrow> crontab_diff \<Rightarrow>
   (install_error + cron_row) option cron_prog" where
  "apply_install env ipc cfg fuel fp who ip cron d =
     bindP (awaitP env (ipc_token ipc)) (\<lambda>t.
     case t of
       Inl msg \<Rightarrow> ret (Some (Inl (CrontabWriteError (''failed to ensure token: '' @ msg))))
     | Inr token \<Rightarrow>
         if CHR 0x0A \<in> set (ic_public_url cfg) \<or> CHR 0x0D \<in> set (ic_public_url cfg)
         then ret (Some (Inl (WrapperInstallError ''public_url contains a newline -- refusing to write wrapper.env'')))
         else bindP (submit_and_wait env ipc fuel (install_ops cfg token d))
                (after_exchange install_failure (installed env fp who ip cron d)))"

definition with_kit ::
  "ipc \<Rightarrow> ((string \<Rightarrow> file_read) \<Rightarrow> cron_row \<Rightarrow> install_error + crontab_diff) \<Rightarrow>
   (cron_row \<Rightarrow> crontab_diff \<Rightarrow> (install_error + cron_row) option cron_prog) \<Rightarrow> install_error + cron_row \<Rightarrow>
   (install_error + cron_row) option cron_prog" where
  "with_kit ipc kit carry_out r =
     (case r of
        Inl e \<Rightarrow> ret (Some (Inl e))
      | Inr cron \<Rightarrow>
          bindP (ask (ipc_files ipc)) (\<lambda>files.
          case kit files cron of Inl e \<Rightarrow> ret (Some (Inl e)) | Inr d \<Rightarrow> carry_out cron d))"

definition install_wrapper_local ::
  "cron_env \<Rightarrow> ipc \<Rightarrow> install_config \<Rightarrow> nat \<Rightarrow> string \<Rightarrow> string \<Rightarrow> string option \<Rightarrow> (install_error + cron_row) option cron_prog" where
  "install_wrapper_local env ipc cfg fuel fp who ip =
     bindP (local_cron env cfg fp)
       (with_kit ipc (kit_for_install env cfg) (apply_install env ipc cfg fuel fp who ip))"

definition uninstall_wrapper_local ::
  "cron_env \<Rightarrow> ipc \<Rightarrow> install_config \<Rightarrow> nat \<Rightarrow> string \<Rightarrow> string \<Rightarrow> string option \<Rightarrow> (install_error + cron_row) option cron_prog" where
  "uninstall_wrapper_local env ipc cfg fuel fp who ip =
     bindP (local_cron env cfg fp)
       (with_kit ipc (kit_for_uninstall env cfg) (\<lambda>cron d.
          bindP (submit_and_wait env ipc fuel (uninstall_ops d))
            (after_exchange uninstall_failure (uninstalled env fp who ip cron d))))"

end
