(* ===== verification/WrapperFacts.thy ===== *)
theory WrapperFacts
  imports WrapperInstall
begin

text \<open>
  What the installer of the wrapper asks of the executor and what it writes into the registry: one request at
  most, for the line of the cron and no other, and nothing in the registry before the executor has agreed; and
  that it always returns.
\<close>

section \<open>The line of a request\<close>

text \<open>The change is to a line of the crontab of the cron that is the cron's own and not wrapped yet.\<close>

definition names_line :: "cron_env \<Rightarrow> install_config \<Rightarrow> (string \<Rightarrow> file_read) \<Rightarrow> cron_row \<Rightarrow> crontab_diff \<Rightarrow> bool" where
  "names_line env cfg files cron d \<longleftrightarrow>
     (\<exists>path f content schedule cmd.
        cr_source_path cron = Some path \<and> cd_source_path d = path \<and>
        resolve_container_path (ic_host_root cfg) (ic_snapshot_dir cfg) path = Inr f \<and> files f = Content content \<and>
        cd_line_index d < length (splitlines content) \<and> splitlines content ! cd_line_index d = cd_old_line d \<and>
        parse_one_line (source_kind_from_path path) False (cd_old_line d) = Some (schedule, cmd) \<and>
        cron_fingerprint (sha256 env) (cr_host cron) (Some path) schedule (unwrap_command cmd) = cr_fingerprint cron \<and>
        wrapped_match cmd = None \<and> cd_inner_command d = unwrap_command cmd \<and>
        rewrite_line (cd_old_line d) (cd_inner_command d) (cr_fingerprint cron) = Inr (cd_new_line d))"

lemma find_line_found:
  "find_line fp_of kind fp i ls = Some m \<Longrightarrow>
     lm_index m - i < length ls \<and> ls ! (lm_index m - i) = lm_raw m \<and> fp_of (lm_schedule m) (lm_inner m) = fp"
proof (induction ls arbitrary: i)
  case (Cons l ls)
  show ?case
  proof (cases "find_line fp_of kind fp (Suc i) ls = Some m")
    case True
    with find_line_index [OF True] Cons.IH [OF True] show ?thesis
      by (auto simp: nth_Cons' less_Suc_eq_0_disj) (metis Suc_diff_Suc Suc_le_eq not_less_eq)
  next
    case False
    with Cons.prems show ?thesis by (auto split: option.splits if_splits)
  qed
qed simp

lemma install_kit_names_line:
  assumes "kit_for_install env cfg files cron = Inr d"
  shows "names_line env cfg files cron d"
proof -
  let ?kit = "kit_line (sha256 env) files (ic_host_root cfg) (ic_snapshot_dir cfg) (cr_fingerprint cron) (cr_host cron)
    (cr_source_path cron) ''install''"
  from assms obtain path f m where k: "?kit = Inr (path, f, m)"
    by (auto simp: kit_for_install_def build_install_kit_def split: sum.splits)
  then obtain content where paths: "cr_source_path cron = Some path"
    "resolve_container_path (ic_host_root cfg) (ic_snapshot_dir cfg) path = Inr f" "files f = Content content"
    and m: "find_line (cron_fingerprint (sha256 env) (cr_host cron) (Some path)) (source_kind_from_path path) (cr_fingerprint cron) 0
       (splitlines content) = Some m"
    by (auto simp: kit_line_def find_matching_line_def split: option.splits sum.splits file_read.splits)
  from assms k have unwrapped: "\<not> (lm_wrapped m \<and> \<not> is_legacy_wrapped (lm_command m))"
    and d: "map_sum id (diff_of path f m) (rewrite_line (lm_raw m) (lm_inner m) (cr_fingerprint cron)) = Inr d"
    by (auto simp: kit_for_install_def build_install_kit_def split: if_splits)
  from d obtain new where new: "rewrite_line (lm_raw m) (lm_inner m) (cr_fingerprint cron) = Inr new" "d = diff_of path f m new"
    by (cases "rewrite_line (lm_raw m) (lm_inner m) (cr_fingerprint cron)") auto
  have "wrapped_match (lm_command m) = None"
    using unwrapped find_line_parsed [OF m]
    by (cases "wrapped_match (lm_command m)") (simp_all add: is_wrapped_def is_legacy_wrapped_def)
  with paths new find_line_parsed [OF m] find_line_found [OF m] show ?thesis
    by (auto simp: names_line_def diff_of_def)
qed

section \<open>The exchange\<close>

text \<open>
  The shape of an exchange: nothing, or one request and then nothing, a refusal, a withdrawal, or the consent
  of the executor, and only after it the audit rows of the registry.
\<close>

definition is_audit :: "'e event \<Rightarrow> bool" where
  "is_audit e = (case e of Audit _ \<Rightarrow> True | _ \<Rightarrow> False)"

definition exchange :: "(cron_op list \<Rightarrow> bool) \<Rightarrow> cron_act event list \<Rightarrow> bool" where
  "exchange rightful es \<longleftrightarrow>
     es = [] \<or>
     (\<exists>i ops rest. rightful ops \<and> es = Act (RequestWritten i ops) # rest \<and>
        (rest = [] \<or> rest = [Act (VerdictRead i False)] \<or> rest = [Act (RequestRemoved i)] \<or>
         (\<exists>audits. rest = Act (VerdictRead i True) # audits \<and> list_all is_audit audits)))"

definition consented :: "cron_act event list \<Rightarrow> bool" where
  "consented es \<longleftrightarrow> (\<exists>i. Act (VerdictRead i True) \<in> set es)"

lemma poll_quiet:
  "\<exists>result w'. poll_result env ipc i deadline fuel w = (Inr result, w') \<and> trace w' = trace w"
proof (induction fuel arbitrary: w)
  case (Suc n)
  show ?case
    using Suc [of "w\<lparr>shared := other env (Suc (Suc (ticks w))) (shared w), ticks := Suc (Suc (Suc (ticks w)))\<rparr>"]
    by (auto simp: run_simps seqP_def bindP_def)
qed (simp add: run_simps)

lemma guar_poll: "rely R env \<Longrightarrow> guar R (poll_result env ipc i deadline fuel)"
  by (induction fuel) (auto intro!: guar_intros)

lemma guar_case_result [guar_intros]:
  "guar R a \<Longrightarrow> (\<And>m. guar R (b m)) \<Longrightarrow> (\<And>x y z. guar R (c x y z)) \<Longrightarrow>
     guar R (case v of NoResult \<Rightarrow> a | BadResult m \<Rightarrow> b m | Result x y z \<Rightarrow> c x y z)"
  by (cases v) simp_all

lemma guar_submit: "rely R env \<Longrightarrow> guar R (submit_and_wait env ipc fuel ops)"
  unfolding submit_and_wait_def conclude_def by (intro guar_intros guar_poll)

lemma conclude_run:
  "\<exists>v w'. conclude ipc i r w = (Inr v, w') \<and>
     (trace w' = trace w \<and> v \<noteq> Inr () \<or> trace w' = trace w @ [Act (VerdictRead i False)] \<and> v \<noteq> Inr () \<or>
      trace w' = trace w @ [Act (RequestRemoved i)] \<and> v \<noteq> Inr () \<or> trace w' = trace w @ [Act (VerdictRead i True)] \<and> v = Inr ())"
  by (auto simp: conclude_def run_simps seqP_def bindP_def split: result_file.splits option.splits)

lemma submit_run:
  "\<exists>v w' es. submit_and_wait env ipc fuel ops w = (Inr v, w') \<and> trace w' = trace w @ es \<and> exchange (\<lambda>o'. o' = ops) es \<and>
     (consented es \<longleftrightarrow> v = Some (Inr ())) \<and> (consented es \<longrightarrow> (\<exists>i. es = [Act (RequestWritten i ops), Act (VerdictRead i True)]))"
proof -
  have silent: ?thesis if "submit_and_wait env ipc fuel ops w = (Inr v, w')" "trace w' = trace w" "v \<noteq> Some (Inr ())" for v w'
    using that by (auto simp: exchange_def consented_def)
  show ?thesis
  proof (cases "ops = [] \<or> \<not> ipc_ready ipc (ticks w) \<or> check_ops ipc ops \<noteq> None \<or> ipc_write ipc (Suc (Suc (ticks w))) \<noteq> None")
    case True
    then have "\<exists>v w'. submit_and_wait env ipc fuel ops w = (Inr v, w') \<and> trace w' = trace w \<and> v \<noteq> Some (Inr ())"
      by (cases "check_ops ipc ops"; cases "ipc_write ipc (Suc (Suc (ticks w)))") (auto simp: submit_and_wait_def run_simps)
    then show ?thesis using silent by blast
  next
    case False
    define i where "i = uuid env (Suc (ticks w))"
    define w1 where "w1 = w\<lparr>trace := trace w @ [Act (RequestWritten i ops)], ticks := Suc (Suc (Suc (Suc (ticks w))))\<rparr>"
    define deadline where "deadline = ipc_clock ipc (Suc (Suc (Suc (ticks w)))) + poll_timeout"
    have run: "submit_and_wait env ipc fuel ops w = bindP (poll_result env ipc i deadline fuel) (\<lambda>result.
        case result of None \<Rightarrow> ret None | Some r \<Rightarrow> bindP (conclude ipc i r) (\<lambda>v. ret (Some v))) w1"
      unfolding w1_def i_def deadline_def using False by (simp add: submit_and_wait_def run_simps run_seqP_Inr)
    obtain result w2 where p: "poll_result env ipc i deadline fuel w1 = (Inr result, w2)" "trace w2 = trace w1"
      using poll_quiet by blast
    show ?thesis
    proof (cases result)
      case None
      with run p show ?thesis
        by (simp add: run_bindP_Inr run_simps w1_def) (auto simp: exchange_def consented_def)
    next
      case (Some r)
      obtain v w3 where c: "conclude ipc i r w2 = (Inr v, w3)" and t:
        "trace w3 = trace w2 \<and> v \<noteq> Inr () \<or> trace w3 = trace w2 @ [Act (VerdictRead i False)] \<and> v \<noteq> Inr () \<or>
         trace w3 = trace w2 @ [Act (RequestRemoved i)] \<and> v \<noteq> Inr () \<or> trace w3 = trace w2 @ [Act (VerdictRead i True)] \<and> v = Inr ()"
        using conclude_run by blast
      have "submit_and_wait env ipc fuel ops w = (Inr (Some v), w3)"
        using run p(1) Some c by (simp add: run_bindP_Inr run_simps)
      with t p(2) show ?thesis
        by (auto simp: w1_def exchange_def consented_def)
    qed
  qed
qed

text \<open>What a handler that may hold an exchange guarantees.\<close>

definition lawful ::
  "(cron_op list \<Rightarrow> bool) \<Rightarrow> cron_env \<Rightarrow> (cron_store, cron_act event) world \<Rightarrow>
   (exn + (install_error + cron_row) option) \<times> (cron_store, cron_act event) world \<Rightarrow> bool" where
  "lawful rightful env w outcome \<longleftrightarrow>
     (case outcome of (r, w') \<Rightarrow>
        \<exists>es. trace w' = trace w @ es \<and> exchange rightful es \<and> ((\<exists>c. r = Inr (Some (Inr c))) \<longrightarrow> consented es) \<and>
          (\<not> consented es \<longrightarrow> (\<forall>R. rely R env \<longrightarrow> R\<^sup>*\<^sup>* (shared w) (shared w'))))"

lemma lawful_silent: "lawful P env w (ret (Some (Inl e)) w)"
  by (auto simp: lawful_def run_simps exchange_def consented_def)

lemma lawful_later:
  assumes "lawful P env w1 (m w1)" "trace w1 = trace w" "\<And>R. rely R env \<Longrightarrow> R\<^sup>*\<^sup>* (shared w) (shared w1)"
  shows "lawful P env w (m w1)"
  using assms unfolding lawful_def by (auto split: prod.splits) (meson rtranclp_trans)+

lemma lawful_mono: "lawful P env w x \<Longrightarrow> (\<And>ops. P ops \<Longrightarrow> Q ops) \<Longrightarrow> lawful Q env w x"
  unfolding lawful_def exchange_def by blast

lemma lawful_exchange:
  assumes k: "emits {e. is_audit e} k"
  shows "lawful (\<lambda>o'. o' = ops) env w (bindP (submit_and_wait env ipc fuel ops) (after_exchange f k) w)"
proof -
  obtain v w1 es where s: "submit_and_wait env ipc fuel ops w = (Inr v, w1)" "trace w1 = trace w @ es" "exchange (\<lambda>o'. o' = ops) es"
    and c: "consented es \<longleftrightarrow> v = Some (Inr ())" "consented es \<longrightarrow> (\<exists>i. es = [Act (RequestWritten i ops), Act (VerdictRead i True)])"
    using submit_run [of env ipc fuel ops w] by (elim exE conjE) (rule that)
  have kept: "R\<^sup>*\<^sup>* (shared w) (shared w1)" if "rely R env" for R using guarD [OF guar_submit [OF that] s(1)] .
  have run: "bindP (submit_and_wait env ipc fuel ops) (after_exchange f k) w = after_exchange f k v w1"
    using s(1) by (simp add: bindP_def)
  show ?thesis
  proof (cases "v = Some (Inr ())")
    case True
    with c obtain i where es: "es = [Act (RequestWritten i ops), Act (VerdictRead i True)]" by blast
    obtain r w' where k_run: "k w1 = (r, w')" by fastforce
    from emitsD [OF k this] obtain audits where a: "trace w' = trace w1 @ audits" "set audits \<subseteq> {e. is_audit e}" by blast
    have "exchange (\<lambda>o'. o' = ops) (es @ audits)" "consented (es @ audits)"
      using a(2) by (auto simp: exchange_def consented_def es list_all_iff)
    with a(1) s(2) show ?thesis
      unfolding run by (auto simp: lawful_def after_exchange_def True k_run)
  next
    case False
    then consider "v = None" | e where "v = Some (Inl e)" by (cases v; cases "the v") auto
    then show ?thesis
      using False s(2,3) c(1) kept unfolding run by cases (auto simp: lawful_def after_exchange_def run_simps)
  qed
qed

section \<open>Installing and removing\<close>

lemma emits_cron_audit [emits_intros]: "emits {e. is_audit e} (cron_audit env who what before after ip now)"
  unfolding cron_audit_def by (intro emits_intros) (simp add: is_audit_def)

lemma emits_statements:
  "emits {e. is_audit e} (upsert_discovered env d now)"
  "emits {e. is_audit e} (set_wrapper_format_version env fp v)"
  "emits {e. is_audit e} (record_wrapper_installed env fp who ip)"
  "emits {e. is_audit e} (record_wrapper_uninstalled env fp who ip)"
  unfolding upsert_discovered_def set_wrapper_format_version_def record_wrapper_installed_def record_wrapper_uninstalled_def Let_def
  by (intro emits_intros)+

lemma emits_installed: "emits {e. is_audit e} (installed env fp who ip cron d)"
  and emits_uninstalled: "emits {e. is_audit e} (uninstalled env fp who ip cron d)"
  unfolding installed_def uninstalled_def touch_def refreshed_def by (intro emits_intros emits_statements)+

lemma local_cron_run:
  "\<exists>x. local_cron env cfg fp w = (Inr x, entered env w) \<and>
     (\<forall>cron. x = Inr cron \<longrightarrow> find_cron fp (shared (entered env w)) = Some cron \<and> cr_host cron = ic_local_hostname cfg)"
  by (auto simp: local_cron_def run_bindP_Inr [OF run_fetch] run_simps get_cron_def split: option.split)

lemma rely_entered: "rely R env \<Longrightarrow> R\<^sup>*\<^sup>* (shared w) (shared (entered env w))"
  by (simp add: rely_def)

lemma lawful_with_kit:
  assumes "\<And>cron d w. kit (ipc_files ipc (Suc (ticks w0))) cron = Inr d \<Longrightarrow>
      find_cron fp (shared (entered env w0)) = Some cron \<Longrightarrow> cr_host cron = ic_local_hostname cfg \<Longrightarrow> lawful P env w (carry_out cron d w)"
  shows "lawful P env w0 (bindP (local_cron env cfg fp) (with_kit ipc kit carry_out) w0)"
proof -
  obtain x where x: "local_cron env cfg fp w0 = (Inr x, entered env w0)"
    "\<And>cron. x = Inr cron \<Longrightarrow> find_cron fp (shared (entered env w0)) = Some cron \<and> cr_host cron = ic_local_hostname cfg"
    using local_cron_run by blast
  have run: "bindP (local_cron env cfg fp) (with_kit ipc kit carry_out) w0 = with_kit ipc kit carry_out x (entered env w0)"
    using x(1) by (simp add: bindP_def)
  show ?thesis unfolding run
  proof (rule lawful_later)
    let ?w = "entered env w0" and ?files = "ipc_files ipc (Suc (ticks w0))"
    show "lawful P env ?w (with_kit ipc kit carry_out x ?w)"
    proof (cases x)
      case (Inl e)
      then show ?thesis by (simp add: with_kit_def lawful_silent)
    next
      case (Inr cron)
      let ?w1 = "?w\<lparr>ticks := Suc (Suc (ticks w0))\<rparr>"
      show ?thesis
      proof (cases "kit ?files cron")
        case (Inl e)
        have "lawful P env ?w (ret (Some (Inl e)) ?w1)" by (rule lawful_later [OF lawful_silent]) simp_all
        with Inl \<open>x = Inr cron\<close> show ?thesis by (simp add: with_kit_def run_simps)
      next
        case (Inr d)
        have "lawful P env ?w (carry_out cron d ?w1)"
          by (rule lawful_later [OF assms [OF Inr]]) (use x(2) \<open>x = Inr cron\<close> in simp_all)
        with Inr \<open>x = Inr cron\<close> show ?thesis by (simp add: with_kit_def run_simps)
      qed
    qed
  qed (simp_all add: rely_def)
qed

lemma lawful_apply:
  "lawful (\<lambda>ops. \<exists>token. ops = install_ops cfg token d) env w (apply_install env ipc cfg fuel fp who ip cron d w)"
proof -
  let ?t = "ipc_token ipc (Suc (ticks w))" and ?w = "entered env w\<lparr>ticks := Suc (Suc (ticks w))\<rparr>"
  let ?rest = "\<lambda>t. case t of
       Inl msg \<Rightarrow> ret (Some (Inl (CrontabWriteError (''failed to ensure token: '' @ msg))))
     | Inr token \<Rightarrow>
         if CHR 0x0A \<in> set (ic_public_url cfg) \<or> CHR 0x0D \<in> set (ic_public_url cfg)
         then ret (Some (Inl (WrapperInstallError ''public_url contains a newline -- refusing to write wrapper.env'')))
         else bindP (submit_and_wait env ipc fuel (install_ops cfg token d))
                (after_exchange install_failure (installed env fp who ip cron d))"
  have run: "apply_install env ipc cfg fuel fp who ip cron d w = ?rest ?t ?w"
    unfolding apply_install_def
    by (rule run_bindP_Inr) (simp add: awaitP_def seqP_def bindP_def run_simps entered_def)
  have "lawful (\<lambda>ops. \<exists>token. ops = install_ops cfg token d) env ?w (?rest ?t ?w)"
    by (auto split: sum.split intro!: lawful_silent lawful_mono [OF lawful_exchange [OF emits_installed]])
  then show ?thesis unfolding run by (rule lawful_later) (simp_all add: rely_def)
qed


text \<open>Removing it: the same, for the change that takes the prefix of the cron's fingerprint out of its line.\<close>

lemma uninstall_needs_consent:
  "lawful (\<lambda>ops. \<exists>cron d. find_cron fp (shared (entered env w)) = Some cron \<and> cr_host cron = ic_local_hostname cfg \<and>
      kit_for_uninstall env cfg (ipc_files ipc (Suc (ticks w))) cron = Inr d \<and> ops = uninstall_ops d) env w
    (uninstall_wrapper_local env ipc cfg fuel fp who ip w)"
  unfolding uninstall_wrapper_local_def
  by (intro lawful_with_kit lawful_mono [OF lawful_exchange [OF emits_uninstalled]]) blast

section \<open>The wait ends\<close>

lemma poll_returns:
  assumes tick: "\<And>k. ipc_clock ipc k + poll_interval \<le> ipc_clock ipc (k + 3)"
    and "deadline \<le> ipc_clock ipc (ticks w) + of_nat n * poll_interval" and "n < fuel"
  shows "\<exists>r w'. poll_result env ipc i deadline fuel w = (Inr (Some r), w')"
  using assms(2,3)
proof (induction fuel arbitrary: w n)
  case (Suc fuel)
  let ?w = "w\<lparr>shared := other env (Suc (Suc (ticks w))) (shared w), ticks := Suc (Suc (Suc (ticks w)))\<rparr>"
  show ?case
  proof (cases "deadline \<le> ipc_clock ipc (ticks w) \<or> ipc_result ipc (Suc (ticks w)) i \<noteq> NoResult")
    case True
    then show ?thesis by (auto simp: run_simps)
  next
    case False
    with Suc.prems(1) obtain m where n: "n = Suc m" by (cases n) auto
    have "deadline \<le> ipc_clock ipc (ticks ?w) + of_nat m * poll_interval"
      using Suc.prems(1) tick [of "ticks w"] by (simp add: n algebra_simps eval_nat_numeral)
    with Suc.IH [of ?w m] Suc.prems(2) n False show ?thesis by (simp add: run_simps seqP_def bindP_def)
  qed
qed simp

text \<open>The clock moves on, and a sleep takes its interval.\<close>

definition ticking :: "ipc \<Rightarrow> bool" where
  "ticking ipc \<longleftrightarrow> (\<forall>k. ipc_clock ipc k \<le> ipc_clock ipc (Suc k) \<and> ipc_clock ipc k + poll_interval \<le> ipc_clock ipc (k + 3))"

lemma submit_returns:
  assumes "ticking ipc" and "120 < fuel"
  shows "fst (submit_and_wait env ipc fuel ops w) \<noteq> Inr None"
proof (cases "ops = [] \<or> \<not> ipc_ready ipc (ticks w) \<or> check_ops ipc ops \<noteq> None \<or> ipc_write ipc (Suc (Suc (ticks w))) \<noteq> None")
  case True
  then show ?thesis
    by (cases "check_ops ipc ops"; cases "ipc_write ipc (Suc (Suc (ticks w)))") (auto simp: submit_and_wait_def run_simps)
next
  case False
  define i where "i = uuid env (Suc (ticks w))"
  define w1 where "w1 = w\<lparr>trace := trace w @ [Act (RequestWritten i ops)], ticks := Suc (Suc (Suc (Suc (ticks w))))\<rparr>"
  define deadline where "deadline = ipc_clock ipc (Suc (Suc (Suc (ticks w)))) + poll_timeout"
  have run: "submit_and_wait env ipc fuel ops w = bindP (poll_result env ipc i deadline fuel) (\<lambda>result.
      case result of None \<Rightarrow> ret None | Some r \<Rightarrow> bindP (conclude ipc i r) (\<lambda>v. ret (Some v))) w1"
    unfolding w1_def i_def deadline_def using False by (simp add: submit_and_wait_def run_simps run_seqP_Inr)
  have "deadline \<le> ipc_clock ipc (ticks w1) + of_nat 120 * poll_interval"
    using assms(1) by (simp add: ticking_def deadline_def w1_def poll_timeout_def poll_interval_def)
  then obtain r w2 where "poll_result env ipc i deadline fuel w1 = (Inr (Some r), w2)"
    using poll_returns [of ipc deadline w1 120 fuel env i] assms by (auto simp: ticking_def)
  moreover obtain v w3 where "conclude ipc i r w2 = (Inr v, w3)" using conclude_run by blast
  ultimately show ?thesis by (simp add: run bindP_def run_simps)
qed

definition settles :: "('s, 'e, 'b option) prog \<Rightarrow> bool" where
  "settles m \<longleftrightarrow> (\<forall>w. fst (m w) \<noteq> Inr None)"

lemma settles_bindP: "(\<And>x. settles (k x)) \<Longrightarrow> settles (bindP m k)"
  unfolding settles_def bindP_def by (auto split: prod.split sum.split)

lemma settles_ret: "settles (ret (Some x))"
  by (simp add: settles_def run_simps)

lemma settles_exchange:
  assumes "ticking ipc" "120 < fuel" "settles k"
  shows "settles (bindP (submit_and_wait env ipc fuel ops) (after_exchange f k))"
  unfolding settles_def
proof
  fix w
  obtain v w' es where s: "submit_and_wait env ipc fuel ops w = (Inr v, w')"
    using submit_run [of env ipc fuel ops w] by (elim exE conjE) (rule that)
  with submit_returns [OF assms(1,2), of env ops w] obtain u where "v = Some u" by (cases v) auto
  with s assms(3) show "fst (bindP (submit_and_wait env ipc fuel ops) (after_exchange f k) w) \<noteq> Inr None"
    by (cases u) (simp_all add: bindP_def after_exchange_def run_simps settles_def)
qed

lemma settles_with_kit: "(\<And>cron d. settles (carry_out cron d)) \<Longrightarrow> settles (with_kit ipc kit carry_out r)"
  unfolding with_kit_def by (auto intro!: settles_bindP settles_ret split: sum.split)

text \<open>
  C40: The installer returns.  Under a clock that does not go back and a sleep that lasts at least its quarter of a
  second, 121 rounds of the loop are enough for the 30 seconds, whatever the executor does: installing and
  removing a wrapper never wait on.
\<close>

theorem installer_returns:
  assumes "ticking ipc" and "120 < fuel"
  shows "fst (install_wrapper_local env ipc cfg fuel fp who ip w) \<noteq> Inr None \<and>
    fst (uninstall_wrapper_local env ipc cfg fuel fp who ip w) \<noteq> Inr None"
proof -
  have "settles (installed env fp who ip cron d)" "settles (uninstalled env fp who ip cron d)" for cron d
    unfolding installed_def uninstalled_def refreshed_def seqP_def by (intro settles_bindP settles_ret)+
  then have "settles (install_wrapper_local env ipc cfg fuel fp who ip)" "settles (uninstall_wrapper_local env ipc cfg fuel fp who ip)"
    unfolding install_wrapper_local_def uninstall_wrapper_local_def apply_install_def
    by (auto intro!: settles_bindP settles_with_kit settles_exchange [OF assms] settles_ret split: sum.split)
  then show ?thesis by (simp add: settles_def)
qed

section \<open>An example, and a second row\<close>

definition helpful_ipc :: "string \<Rightarrow> ipc" where
  "helpful_ipc content =
     \<lparr>ipc_requests = ''/host-ipc/requests'', ipc_ready = \<lambda>_. True, ipc_write = \<lambda>_. None, ipc_result = \<lambda>_ _. Result True None ''ok'',
      ipc_clock = \<lambda>k. of_nat k, ipc_unlink = \<lambda>_. None, ipc_token = \<lambda>_. Inr ''token'', ipc_files = \<lambda>_ _. Content content,
      utf8_bytes = \<lambda>s. int (length s)\<rparr>"

definition nas_config :: install_config where
  "nas_config = \<lparr>ic_host_root = ''/host'', ic_snapshot_dir = ''/snap'', ic_public_url = ''http://nas'', ic_local_hostname = ''nas'',
     ic_wrapper_content = ''script''\<rparr>"

text \<open>A hash that tells the texts with a secret from the others.\<close>

definition hash_env :: cron_env where
  "hash_env = quiet_cron_env\<lparr>sha256 := \<lambda>s. if find_sub ''q7'' s \<noteq> None then ''f1'' else ''f2''\<rparr>"

text \<open>A registry with the cron of a crontab line, its command as discovery stores it.\<close>

definition listed :: "string \<Rightarrow> string \<Rightarrow> (cron_store, cron_act event) world" where
  "listed fp command =
     nightly\<lparr>shared := nightly_store\<lparr>t_crons := [nightly_row\<lparr>cr_fingerprint := fp,
       cr_command := scrub_secrets command, cr_schedule := ''@daily'', cr_source_path := Some ''crontab:u''\<rparr>]\<rparr>\<rparr>"

definition try_install :: "string \<Rightarrow> string \<Rightarrow> (exn + (install_error + cron_row) option) \<times> (cron_store, cron_act event) world" where
  "try_install fp command =
     install_wrapper_local hash_env (helpful_ipc (''@daily '' @ command)) nas_config 121 fp ''admin'' None (listed fp command)"

theorem installer_returns_witness:
  "fst (try_install ''f2'' ''b'') \<noteq> Inr None"
  unfolding try_install_def
  by (rule installer_returns [THEN conjunct1]) (simp_all add: ticking_def helpful_ipc_def poll_interval_def)

lemma try_install_succeeds: "\<exists>c. fst (try_install ''f2'' ''b'') = Inr (Some (Inr c))"
proof -
  have "(case fst (try_install ''f2'' ''b'') of Inr (Some (Inr c)) \<Rightarrow> True | _ \<Rightarrow> False)" by code_simp
  then show ?thesis by (auto split: sum.splits option.splits) (metis old.sum.exhaust)
qed


text \<open>
  The touch after an install passes the stored command, from which the secrets were scrubbed, to an upsert that
  computes the fingerprint from the command it gets: of a cron with a secret a second row is made, which
  is said to be wrapped, while the row of the cron is not.
\<close>

lemma install_makes_second_row:
  "map (\<lambda>c. (cr_fingerprint c, cr_wrapper_installed c))
     (t_crons (shared (snd (try_install ''f1'' ''b --token=q7'')))) = [(''f1'', False), (''f2'', True)]"
  by code_simp

end
