(* ===== verification/Scheduler.thy ===== *)
theory Scheduler
  imports FailureBudget
begin

text \<open>
  The collector scheduler (kernel/scheduler/scheduler.py) on top of the failure budget: one tick with its
  quarantine gate, the lock of its concurrency group, the call of the collector under its timeout, the
  classification of the outcome, the self-metrics, the event of the tick and the futures of callers that
  wait for an immediate run; the queue of immediate runs; the loop that spaces the scheduled ticks.  What a
  collector does is the environment's answer to its call.  Seconds are rationals.
\<close>

section \<open>State\<close>

record collector =
  c_name :: string
  c_interval :: rat
  c_timeout :: rat
  c_group :: string

record collector_result =
  cr_ok :: bool
  cr_metrics_emitted :: nat
  cr_errors :: "string list"

text \<open>How the call of \<open>_dispatch\<close> under \<open>asyncio.timeout\<close> ends, and how the wait for the lock ends.\<close>

datatype dispatch_end = Returned collector_result | TimedOut | Raised | CancelledRun

datatype lock_end = InTime | TooLate | CancelledWait

text \<open>The future of a caller of \<open>await_immediate_run\<close>.\<close>

datatype future = Waiting | Answered "collector_result option"

text \<open>
  The attributes of the scheduler.  \<open>m_locks\<close> maps the key of a group to the id of the tick that holds its
  lock; \<open>asyncio.Lock\<close> itself only knows that it is held.
\<close>

record scheduler_store = budget_store +
  m_locks :: "(string \<times> string) list"
  m_last_error_ts :: "(string \<times> rat) list"
  m_immediate :: "string \<Rightarrow> (string \<times> trigger_context) list"
  m_pending :: "string set"
  m_futures :: "string \<Rightarrow> future option"
  m_stopping :: bool

record 's scheduler_env = "'s budget_env" +
  budget_wired :: bool
  default_threshold :: int
  collector_configs :: "(string \<times> int option) list"
  loop_time :: "nat \<Rightarrow> rat"
  lock_answer :: "nat \<Rightarrow> lock_end"
  ctx_error :: "nat \<Rightarrow> exn option"
  run_answer :: "nat \<Rightarrow> dispatch_end"

type_synonym ('z, 'a) scheduler_prog = "('z scheduler_store_scheme, notice event, 'a) prog"

section \<open>Metrics, events and futures\<close>

definition write_sample :: "sample \<Rightarrow> ('z, unit) scheduler_prog" where
  "write_sample m = emit (Act (Sample m))"

definition publish_event :: "('z scheduler_store_scheme, 'y) scheduler_env_scheme \<Rightarrow> tick_event \<Rightarrow> ('z, unit) scheduler_prog" where
  "publish_event env ev = seqP (emit (Act (TickNotice ev))) (suspend env)"

definition resolve_future :: "string \<Rightarrow> collector_result option \<Rightarrow> 'z scheduler_store_scheme \<Rightarrow> 'z scheduler_store_scheme" where
  "resolve_future tid r s =
     (if tid \<in> m_pending s then
        s\<lparr>m_pending := m_pending s - {tid},
          m_futures := (if m_futures s tid = Some Waiting then (m_futures s)(tid \<mapsto> Answered r) else m_futures s)\<rparr>
      else s)"

definition signal_awaitable_done :: "string \<Rightarrow> collector_result option \<Rightarrow> ('z, unit) scheduler_prog" where
  "signal_awaitable_done tid r = modS (resolve_future tid r)"

definition record_error :: "('z scheduler_store_scheme, 'y) scheduler_env_scheme \<Rightarrow> string \<Rightarrow> ('z, unit) scheduler_prog" where
  "record_error env name =
     bindP (ask (loop_time env)) (\<lambda>t.
     seqP (modS (\<lambda>s. s\<lparr>m_last_error_ts := dict_set name t (m_last_error_ts s)\<rparr>))
       (write_sample (Gauge ''homelab_collector_run_last_error_age_seconds'' 0 [(''name'', name)])))"

definition threshold_for :: "('z scheduler_store_scheme, 'y) scheduler_env_scheme \<Rightarrow> collector \<Rightarrow> int option" where
  "threshold_for env c = (case map_of (collector_configs env) (c_name c) of None \<Rightarrow> None | Some q \<Rightarrow> q)"

definition group_key :: "collector \<Rightarrow> string" where
  "group_key c = (if c_group c = ''default'' then c_name c else c_group c)"

definition lock_held :: "string \<Rightarrow> 'z scheduler_store_scheme \<Rightarrow> bool" where
  "lock_held g s = (map_of (m_locks s) g \<noteq> None)"

definition take_lock :: "string \<Rightarrow> string \<Rightarrow> 'z scheduler_store_scheme \<Rightarrow> 'z scheduler_store_scheme" where
  "take_lock g tid s = s\<lparr>m_locks := (g, tid) # m_locks s\<rparr>"

text \<open>\<open>asyncio.Lock.release\<close> raises on a lock that is not held.\<close>

definition release_lock :: "string \<Rightarrow> ('z, unit) scheduler_prog" where
  "release_lock g =
     bindP (getS (lock_held g)) (\<lambda>held.
     if held then modS (\<lambda>s. s\<lparr>m_locks := filter (\<lambda>(k, _). k \<noteq> g) (m_locks s)\<rparr>)
     else raise (AssertionErr ''Lock is not acquired.''))"

text \<open>
  \<open>wait_for(lock.acquire(), timeout = interval / 2)\<close>: a free lock is taken at once; otherwise the task sleeps
  until the lock is free and its turn has come, until the time is over, or until it is cancelled.
\<close>

definition acquire_lock :: "('z scheduler_store_scheme, 'y) scheduler_env_scheme \<Rightarrow> string \<Rightarrow> string \<Rightarrow> ('z, bool) scheduler_prog" where
  "acquire_lock env g tid =
     bindP (awaitP env (lock_answer env)) (\<lambda>a.
     bindP (getS (lock_held g)) (\<lambda>held.
     case a of
       CancelledWait \<Rightarrow> raise Cancelled
     | TooLate \<Rightarrow> ret False
     | InTime \<Rightarrow> if held then ret False else seqP (modS (take_lock g tid)) (ret True)))"

section \<open>One tick\<close>

definition tick_event_of :: "collector \<Rightarrow> string \<Rightarrow> trigger_context \<Rightarrow> string \<Rightarrow> string option \<Rightarrow> rat option \<Rightarrow> string \<Rightarrow> tick_event" where
  "tick_event_of c tid trig outcome reason duration ts =
     \<lparr>te_collector = c_name c, te_tick_id = tid, te_outcome = outcome, te_reason = reason, te_duration = duration,
      te_trigger_kind = tr_kind trig, te_request_id = tr_request_id trig, te_ts = ts\<rparr>"

definition publish_tick ::
  "('z scheduler_store_scheme, 'y) scheduler_env_scheme \<Rightarrow> collector \<Rightarrow> string \<Rightarrow> trigger_context \<Rightarrow> string \<Rightarrow>
   string option \<Rightarrow> rat option \<Rightarrow> ('z, unit) scheduler_prog" where
  "publish_tick env c tid trig outcome reason duration =
     bindP (ask (now_iso env)) (\<lambda>ts. publish_event env (tick_event_of c tid trig outcome reason duration ts))"

definition skip_tick ::
  "('z scheduler_store_scheme, 'y) scheduler_env_scheme \<Rightarrow> collector \<Rightarrow> string \<Rightarrow> trigger_context \<Rightarrow> string \<Rightarrow> ('z, unit) scheduler_prog" where
  "skip_tick env c tid trig reason =
     seqP (write_sample (Counter ''homelab_collector_run_skipped_total'' 1 [(''name'', c_name c), (''reason'', reason)]))
    (seqP (publish_tick env c tid trig ''skipped'' (Some reason) None)
          (signal_awaitable_done tid None))"

text \<open>Counter, last error, failure budget and event of a failed run, the same in its three arms.\<close>

definition report_failure ::
  "('z scheduler_store_scheme, 'y) scheduler_env_scheme \<Rightarrow> collector \<Rightarrow> string \<Rightarrow> trigger_context \<Rightarrow> string \<Rightarrow> rat \<Rightarrow> ('z, unit) scheduler_prog" where
  "report_failure env c tid trig reason duration =
     seqP (write_sample (Counter ''homelab_collector_run_failure_total'' 1 [(''name'', c_name c), (''reason'', reason)]))
    (seqP (record_error env (c_name c))
    (seqP (if budget_wired env
           then record_failure env (default_threshold env) (c_name c) reason (threshold_for env c) else ret ())
          (publish_tick env c tid trig ''failure'' (Some reason) (Some duration))))"

definition report_success ::
  "('z scheduler_store_scheme, 'y) scheduler_env_scheme \<Rightarrow> collector \<Rightarrow> string \<Rightarrow> trigger_context \<Rightarrow> rat \<Rightarrow> ('z, unit) scheduler_prog" where
  "report_success env c tid trig duration =
     seqP (write_sample (Counter ''homelab_collector_run_success_total'' 1 [(''name'', c_name c)]))
    (seqP (bindP (getS (\<lambda>s. map_of (m_last_error_ts s) (c_name c))) (\<lambda>last.
           case last of
             None \<Rightarrow> ret ()
           | Some t \<Rightarrow> bindP (ask (loop_time env)) (\<lambda>now. write_sample
               (Gauge ''homelab_collector_run_last_error_age_seconds'' (now - t) [(''name'', c_name c)]))))
    (seqP (if budget_wired env then record_success (c_name c) else ret ())
          (publish_tick env c tid trig ''success'' None (Some duration))))"

text \<open>\<open>duration = self._loop.time() - start\<close>\<close>

definition since :: "('z scheduler_store_scheme, 'y) scheduler_env_scheme \<Rightarrow> rat \<Rightarrow> ('z, rat) scheduler_prog" where
  "since env start = bindP (ask (loop_time env)) (\<lambda>t. ret (t - start))"

text \<open>
  The arms of the \<open>except\<close> clauses: a cancellation while the scheduler stops, and the two failures.  They
  answer the waiting caller themselves.
\<close>

definition shutdown_arm ::
  "('z scheduler_store_scheme, 'y) scheduler_env_scheme \<Rightarrow> collector \<Rightarrow> string \<Rightarrow> trigger_context \<Rightarrow> rat \<Rightarrow> ('z, unit) scheduler_prog" where
  "shutdown_arm env c tid trig start =
     bindP (getS m_stopping) (\<lambda>stopping.
     if \<not> stopping then raise Cancelled
     else bindP (since env start) (\<lambda>duration.
       seqP (write_sample (Counter ''homelab_collector_run_shutdown_total'' 1 [(''name'', c_name c)]))
      (seqP (publish_tick env c tid trig ''shutdown'' None (Some duration))
            (signal_awaitable_done tid None))))"

definition failure_arm ::
  "('z scheduler_store_scheme, 'y) scheduler_env_scheme \<Rightarrow> collector \<Rightarrow> string \<Rightarrow> trigger_context \<Rightarrow> string \<Rightarrow> rat \<Rightarrow> ('z, unit) scheduler_prog" where
  "failure_arm env c tid trig reason start =
     bindP (since env start) (\<lambda>duration.
     seqP (report_failure env c tid trig reason duration) (signal_awaitable_done tid None))"

definition write_duration :: "('z scheduler_store_scheme, 'y) scheduler_env_scheme \<Rightarrow> collector \<Rightarrow> rat \<Rightarrow> ('z, unit) scheduler_prog" where
  "write_duration env c start =
     bindP (since env start) (\<lambda>d. write_sample (Summary ''homelab_collector_run_duration_seconds'' d [(''name'', c_name c)]))"

definition result_arm ::
  "('z scheduler_store_scheme, 'y) scheduler_env_scheme \<Rightarrow> collector \<Rightarrow> string \<Rightarrow> trigger_context \<Rightarrow> rat \<Rightarrow> collector_result \<Rightarrow> ('z, unit) scheduler_prog" where
  "result_arm env c tid trig start result =
     bindP (since env start) (\<lambda>duration.
     seqP (if cr_ok result then report_success env c tid trig duration
           else report_failure env c tid trig ''result_error'' duration)
          (signal_awaitable_done tid (Some result)))"

definition classify ::
  "('z scheduler_store_scheme, 'y) scheduler_env_scheme \<Rightarrow> collector \<Rightarrow> string \<Rightarrow> trigger_context \<Rightarrow> rat \<Rightarrow> dispatch_end \<Rightarrow> ('z, unit) scheduler_prog" where
  "classify env c tid trig start a =
     (case a of
        CancelledRun \<Rightarrow> finallyP (shutdown_arm env c tid trig start) (write_duration env c start)
      | TimedOut \<Rightarrow> finallyP (failure_arm env c tid trig ''timeout'' start) (write_duration env c start)
      | Raised \<Rightarrow> finallyP (failure_arm env c tid trig ''exception'' start) (write_duration env c start)
      | Returned result \<Rightarrow> seqP (write_duration env c start) (result_arm env c tid trig start result))"

text \<open>The body between \<open>lock.acquire\<close> and \<open>lock.release\<close>.\<close>

definition locked_body ::
  "('z scheduler_store_scheme, 'y) scheduler_env_scheme \<Rightarrow> collector \<Rightarrow> string \<Rightarrow> trigger_context \<Rightarrow> ('z, unit) scheduler_prog" where
  "locked_body env c tid trig =
     bindP (ask (loop_time env)) (\<lambda>start.
     bindP (ask (ctx_error env)) (\<lambda>err.
     case err of
       Some e \<Rightarrow> raise e
     | None \<Rightarrow>
         seqP (emit (Act (Dispatched (c_name c) tid)))
         (bindP (awaitP env (run_answer env)) 
          (classify env c tid trig start))))"

definition tick ::
  "('z scheduler_store_scheme, 'y) scheduler_env_scheme \<Rightarrow> collector \<Rightarrow> trigger_context option \<Rightarrow> string option \<Rightarrow> ('z, unit) scheduler_prog" where
  "tick env c trigger predetermined =
     bindP (case predetermined of Some t \<Rightarrow> ret t | None \<Rightarrow> ask (uuid env)) (\<lambda>tid.
     let trig = (case trigger of Some t \<Rightarrow> t | None \<Rightarrow> \<lparr>tr_kind = ''scheduled'', tr_request_id = None\<rparr>)
     in bindP (getS (\<lambda>s. budget_wired env \<and> is_quarantined (c_name c) s)) (\<lambda>gated.
        if gated then skip_tick env c tid trig ''quarantined''
        else bindP (acquire_lock env (group_key c) tid) (\<lambda>got.
          if \<not> got then skip_tick env c tid trig ''group_busy''
          else finallyP (locked_body env c tid trig) (release_lock (group_key c)))))"

section \<open>Immediate runs\<close>

definition push_run :: "string \<Rightarrow> string \<times> trigger_context \<Rightarrow> 'z scheduler_store_scheme \<Rightarrow> 'z scheduler_store_scheme" where
  "push_run name x s = s\<lparr>m_immediate := (m_immediate s)(name := m_immediate s name @ [x])\<rparr>"

definition request_immediate_run ::
  "('z scheduler_store_scheme, 'y) scheduler_env_scheme \<Rightarrow> string \<Rightarrow> trigger_context \<Rightarrow> ('z, string) scheduler_prog" where
  "request_immediate_run env name trig =
     (if name \<notin> fst ` set (collector_configs env) then raise (LookupErr (''unknown collector: '' @ name))
      else bindP (ask (uuid env)) (\<lambda>tid. seqP (modS (push_run name (tid, trig))) (ret tid)))"

definition await_immediate_run ::
  "('z scheduler_store_scheme, 'y) scheduler_env_scheme \<Rightarrow> string \<Rightarrow> trigger_context \<Rightarrow> ('z, collector_result option) scheduler_prog" where
  "await_immediate_run env name trig =
     (if name \<notin> fst ` set (collector_configs env) then raise (LookupErr (''unknown collector: '' @ name))
      else bindP (ask (uuid env)) (\<lambda>tid.
        seqP (modS (\<lambda>s. s\<lparr>m_futures := (m_futures s)(tid \<mapsto> Waiting), m_pending := insert tid (m_pending s)\<rparr>))
        (finallyP
          (seqP (modS (push_run name (tid, trig)))
          (seqP (suspend env)
          (bindP (getS (\<lambda>s. m_futures s tid)) (\<lambda>f.
           case f of Some (Answered r) \<Rightarrow> ret r | _ \<Rightarrow> ret None))))
          (modS (\<lambda>s. s\<lparr>m_pending := m_pending s - {tid}\<rparr>)))))"

section \<open>The loop of a collector\<close>

text \<open>
  One round from the test of \<open>_stopping\<close> to the next \<open>continue\<close>: the new deadline, or None when the loop ends.
  How long \<open>asyncio.sleep\<close> really sleeps is up to the environment.
\<close>

definition skip_forward :: "rat \<Rightarrow> rat \<Rightarrow> rat \<Rightarrow> rat" where
  "skip_forward interval now deadline = (if deadline + interval < now then now + interval else deadline)"

definition loop_round ::
  "('z scheduler_store_scheme, 'y) scheduler_env_scheme \<Rightarrow> collector \<Rightarrow> rat \<Rightarrow> ('z, rat option) scheduler_prog" where
  "loop_round env c deadline =
     bindP (getS m_stopping) (\<lambda>stop.
     if stop then ret None
     else bindP (ask (loop_time env)) (\<lambda>now.
       let deadline = skip_forward (c_interval c) now deadline
       in seqP (suspend env)
         (bindP (getS m_stopping) (\<lambda>stop.
          if stop then ret None
          else bindP (getS (\<lambda>s. m_immediate s (c_name c))) (\<lambda>runs.
            if runs \<noteq> [] then
              seqP (modS (\<lambda>s. s\<lparr>m_immediate := (m_immediate s)(c_name c := [])\<rparr>))
             (seqP (for_each runs (\<lambda>x. emit (Act (TickTask (c_name c) (Some x)))))
             (bindP (ask (loop_time env)) (\<lambda>t. ret (Some (t + c_interval c)))))
            else bindP (ask (loop_time env)) (\<lambda>t.
              if t < deadline then ret (Some deadline)
              else seqP (emit (Act (TickTask (c_name c) None))) (ret (Some (deadline + c_interval c)))))))))"

text \<open>\<open>offset\<close> is \<open>hash(name) % max(1, int(interval))\<close>; \<open>hash\<close> is Python's.  The number of rounds is the fuel.\<close>

definition start_offset :: "(string \<Rightarrow> int) \<Rightarrow> collector \<Rightarrow> rat" where
  "start_offset hash c =
     (if 1 \<le> c_interval c then of_int (hash (c_name c) mod max 1 \<lfloor>c_interval c\<rfloor>) else 0)"

fun loop_rounds ::
  "('z scheduler_store_scheme, 'y) scheduler_env_scheme \<Rightarrow> collector \<Rightarrow> nat \<Rightarrow> rat \<Rightarrow> ('z, rat option) scheduler_prog" where
  "loop_rounds env c 0 deadline = ret (Some deadline)"
| "loop_rounds env c (Suc n) deadline =
     bindP (loop_round env c deadline) (\<lambda>d. case d of None \<Rightarrow> ret None | Some d' \<Rightarrow> loop_rounds env c n d')"

definition run_collector ::
  "('z scheduler_store_scheme, 'y) scheduler_env_scheme \<Rightarrow> (string \<Rightarrow> int) \<Rightarrow> collector \<Rightarrow> nat \<Rightarrow> ('z, rat option) scheduler_prog" where
  "run_collector env hash c n = bindP (ask (loop_time env)) (\<lambda>t. loop_rounds env c n (t + start_offset hash c))"

end
