(* ===== verification/CronDiscovery.thy ===== *)
theory CronDiscovery
  imports CronFacts Scheduler
begin

text \<open>
  The cron discoverer (plugins/discoverers/cron_discoverer.py): one scan of the crontabs of the host, the
  upserts of what it found, the choice of the files whose crons may be marked deleted, and the tick around
  it.  The disk is read without a suspension, so a scan sees one state of it, which the environment answers;
  whether croniter takes a schedule is an argument.
\<close>

section \<open>The disk\<close>

text \<open>A child may be no file, or \<open>is_file()\<close> may raise.\<close>

datatype dir_child = NoRegularFile | KindFails string | Regular file_read

datatype dir_read = NoDirectory | DirStatFails string | ListFails string | Children "(string \<times> dir_child) list"

record disk =
  dk_crontab :: file_read
  dk_cron_d :: dir_read
  dk_snapshot :: dir_read

definition resolve_hostname :: "string \<Rightarrow> string \<Rightarrow> string" where
  "resolve_hostname explicit gethostname = (if strip explicit \<noteq> [] then strip explicit else gethostname)"

section \<open>Reading\<close>

definition scan_one_file ::
  "(string \<Rightarrow> bool) \<Rightarrow> cron_source_kind \<Rightarrow> string \<Rightarrow> string \<Rightarrow> file_read \<Rightarrow> string + parsed_entry list \<times> scan_error list \<times> bool" where
  "scan_one_file valid kind host path f =
     (case f of
        Absent \<Rightarrow> Inr ([], [], False)
      | StatFails msg \<Rightarrow> Inl msg
      | ReadFails msg \<Rightarrow> Inr ([], [\<lparr>se_source_path = path, se_error = msg\<rparr>], True)
      | Content content \<Rightarrow> (case parse_cron_file valid kind host path content of (es, errs) \<Rightarrow> Inr (es, errs, errs \<noteq> [])))"

text \<open>The sets of paths are lists; their order and repetitions do not matter.\<close>

record disk_scan =
  sc_entries :: "parsed_entry list"
  sc_errors :: "scan_error list"
  sc_partial :: bool
  sc_clean :: "string list"
  sc_unreadable :: "string list"
  sc_unreachable :: "string list"

definition take_file :: "string \<Rightarrow> parsed_entry list \<times> scan_error list \<times> bool \<Rightarrow> disk_scan \<Rightarrow> disk_scan" where
  "take_file path r sc =
     (case r of (es, errs, file_partial) \<Rightarrow>
        let sc = sc\<lparr>sc_entries := sc_entries sc @ es, sc_errors := sc_errors sc @ errs,
                    sc_partial := sc_partial sc \<or> file_partial\<rparr>
        in if errs = [] then sc\<lparr>sc_clean := path # sc_clean sc\<rparr> else sc\<lparr>sc_unreadable := path # sc_unreadable sc\<rparr>)"

text \<open>The loop over the sorted children; an OSError of one of them ends it, what was read before stays.\<close>

fun scan_children ::
  "(string \<Rightarrow> bool) \<Rightarrow> cron_source_kind \<Rightarrow> string \<Rightarrow> string \<Rightarrow> (string \<times> dir_child) list \<Rightarrow> disk_scan \<Rightarrow> disk_scan \<times> string option" where
  "scan_children valid kind host prefix [] sc = (sc, None)"
| "scan_children valid kind host prefix ((name, child) # cs) sc =
     (if take 1 name = ''.'' then scan_children valid kind host prefix cs sc
      else (case child of
              NoRegularFile \<Rightarrow> scan_children valid kind host prefix cs sc
            | KindFails msg \<Rightarrow> (sc, Some msg)
            | Regular f \<Rightarrow>
                (case scan_one_file valid kind host (prefix @ name) f of
                   Inl msg \<Rightarrow> (sc, Some msg)
                 | Inr r \<Rightarrow> scan_children valid kind host prefix cs (take_file (prefix @ name) r sc))))"

definition dir_failed :: "string \<Rightarrow> string \<Rightarrow> disk_scan \<Rightarrow> disk_scan" where
  "dir_failed label msg sc =
     sc\<lparr>sc_errors := sc_errors sc @ [\<lparr>se_source_path = label, se_error = msg\<rparr>], sc_partial := True,
        sc_unreachable := label # sc_unreachable sc\<rparr>"

text \<open>\<open>is_dir()\<close> stands outside of the \<open>try\<close>.\<close>

definition scan_dir ::
  "(string \<Rightarrow> bool) \<Rightarrow> cron_source_kind \<Rightarrow> string \<Rightarrow> string \<Rightarrow> string \<Rightarrow> dir_read \<Rightarrow> disk_scan \<Rightarrow> string + disk_scan" where
  "scan_dir valid kind host prefix label d sc =
     (case d of
        NoDirectory \<Rightarrow> Inr sc
      | DirStatFails msg \<Rightarrow> Inl msg
      | ListFails msg \<Rightarrow> Inr (dir_failed label msg sc)
      | Children cs \<Rightarrow>
          (case scan_children valid kind host prefix (sort_key fst cs) sc of
             (sc', None) \<Rightarrow> Inr sc'
           | (sc', Some msg) \<Rightarrow> Inr (dir_failed label msg sc')))"

definition empty_scan :: disk_scan where
  "empty_scan = \<lparr>sc_entries = [], sc_errors = [], sc_partial = False, sc_clean = [], sc_unreadable = [], sc_unreachable = []\<rparr>"

definition crontab_path :: string where "crontab_path = ''/etc/crontab''"

definition cron_d_label :: string where "cron_d_label = ''/etc/cron.d''"

definition spool_label :: string where "spool_label = ''/var/spool/cron/crontabs''"

definition cron_d_prefix :: string where "cron_d_prefix = ''/etc/cron.d/''"

definition user_prefix :: string where "user_prefix = ''crontab:''"

definition scan_disk :: "(string \<Rightarrow> bool) \<Rightarrow> string \<Rightarrow> disk \<Rightarrow> string + disk_scan" where
  "scan_disk valid host dk =
     (case scan_one_file valid SYSTEM_WITH_USER_FIELD host crontab_path (dk_crontab dk) of
        Inl msg \<Rightarrow> Inl msg
      | Inr r \<Rightarrow>
          (case scan_dir valid SYSTEM_WITH_USER_FIELD host cron_d_prefix cron_d_label (dk_cron_d dk)
                  (take_file crontab_path r empty_scan) of
             Inl msg \<Rightarrow> Inl msg
           | Inr sc \<Rightarrow> scan_dir valid USER_CRONTAB host user_prefix spool_label (dk_snapshot dk) sc))"

section \<open>The scan\<close>

text \<open>\<open>CronScanResult\<close>; the dictionary of the fingerprints by path has the empty set as its default.\<close>

record cron_scan_result =
  sr_found :: "string list"
  sr_partial :: bool
  sr_errors :: "scan_error list"
  sr_inserted :: nat
  sr_updated :: nat
  sr_bumped :: nat
  sr_host :: string
  sr_clean :: "string list"
  sr_unreachable :: "string list"
  sr_unreadable :: "string list"
  sr_by_path :: "string \<Rightarrow> string list"

definition scan_begun :: "string \<Rightarrow> disk_scan \<Rightarrow> cron_scan_result" where
  "scan_begun host sc =
     \<lparr>sr_found = [], sr_partial = sc_partial sc, sr_errors = sc_errors sc, sr_inserted = 0, sr_updated = 0, sr_bumped = 0,
      sr_host = host, sr_clean = sc_clean sc, sr_unreachable = sc_unreachable sc, sr_unreadable = sc_unreadable sc,
      sr_by_path = \<lambda>_. []\<rparr>"

definition discovered_of :: "parsed_entry \<Rightarrow> discovered" where
  "discovered_of e =
     \<lparr>ds_host = pe_host e, ds_source_path = pe_source_path e, ds_schedule = pe_schedule e, ds_command = pe_command e,
      ds_wrapped = pe_wrapped e\<rparr>"

definition found_entry :: "parsed_entry \<Rightarrow> cron_row \<times> bool \<times> bool \<Rightarrow> cron_scan_result \<Rightarrow> cron_scan_result" where
  "found_entry e r u =
     (case r of (row, ins, upd) \<Rightarrow>
        u\<lparr>sr_found := cr_fingerprint row # sr_found u,
          sr_by_path := (sr_by_path u)(pe_source_path e := cr_fingerprint row # sr_by_path u (pe_source_path e)),
          sr_inserted := sr_inserted u + (if ins then 1 else 0),
          sr_updated := sr_updated u + (if \<not> ins \<and> upd then 1 else 0),
          sr_bumped := sr_bumped u + (if \<not> ins \<and> \<not> upd then 1 else 0)\<rparr>)"

definition failed_entry :: "parsed_entry \<Rightarrow> exn \<Rightarrow> cron_scan_result \<Rightarrow> cron_scan_result" where
  "failed_entry e x u =
     u\<lparr>sr_errors := sr_errors u @ [\<lparr>se_source_path = pe_source_path e, se_error = ''upsert failed: '' @ exn_msg x\<rparr>],
       sr_partial := True, sr_clean := removeAll (pe_source_path e) (sr_clean u)\<rparr>"

definition upsert_entry :: "cron_env \<Rightarrow> string \<Rightarrow> parsed_entry \<Rightarrow> cron_scan_result \<Rightarrow> cron_scan_result cron_prog" where
  "upsert_entry env now e u =
     tryP (bindP (upsert_discovered env (discovered_of e) now) (\<lambda>r. ret (found_entry e r u)))
       (\<lambda>x. if x = Cancelled then raise x else ret (failed_entry e x u))"

text \<open>The SELECT of the known paths, which may fail.\<close>

definition read_known_paths :: "cron_env \<Rightarrow> string \<Rightarrow> string list cron_prog" where
  "read_known_paths env host =
     bindP (fetch env (list_source_paths_for_host host)) (\<lambda>paths.
     bindP (ask (fault env)) (\<lambda>failure.
     case failure of Some msg \<Rightarrow> raise (DbError msg) | None \<Rightarrow> ret paths))"

definition known_paths :: "cron_env \<Rightarrow> string \<Rightarrow> cron_scan_result \<Rightarrow> (string list \<times> cron_scan_result) cron_prog" where
  "known_paths env host u =
     tryP (bindP (read_known_paths env host) (\<lambda>paths. ret (paths, u)))
       (\<lambda>x. if x = Cancelled then raise x
            else ret ([], u\<lparr>sr_errors := sr_errors u @ [\<lparr>se_source_path = ''<reconcile-prep>'', se_error = exn_msg x\<rparr>],
                           sr_partial := True\<rparr>))"

text \<open>A known path is inspected when the directory it would be in was read, also when no file is there.\<close>

definition re_added :: "string list \<Rightarrow> string list \<Rightarrow> string \<Rightarrow> bool" where
  "re_added unreadable unreachable path \<longleftrightarrow>
     path \<noteq> crontab_path \<and> path \<notin> set unreadable \<and>
     (starts_with path cron_d_prefix \<and> cron_d_label \<notin> set unreachable \<or>
      starts_with path user_prefix \<and> spool_label \<notin> set unreachable)"

definition final_clean :: "string list \<Rightarrow> cron_scan_result \<Rightarrow> cron_scan_result" where
  "final_clean known u =
     u\<lparr>sr_clean := filter (\<lambda>p. p \<notin> set (sr_unreadable u))
         (sr_clean u @ filter (re_added (sr_unreadable u) (sr_unreachable u)) known)\<rparr>"

definition scan_crons :: "cron_env \<Rightarrow> (string \<Rightarrow> bool) \<Rightarrow> (nat \<Rightarrow> disk) \<Rightarrow> string \<Rightarrow> cron_scan_result cron_prog" where
  "scan_crons env valid disk_at host =
     bindP (ask (now_iso env)) (\<lambda>now.
     bindP (ask disk_at) (\<lambda>dk.
     case scan_disk valid host dk of
       Inl msg \<Rightarrow> raise (OSErr msg)
     | Inr sc \<Rightarrow>
         bindP (fold_prog (upsert_entry env now) (sc_entries sc) (scan_begun host sc)) (\<lambda>u.
         bindP (known_paths env host u) (\<lambda>(known, u). ret (final_clean known u)))))"

section \<open>The tick and the request\<close>

definition reconcile_scan :: "cron_env \<Rightarrow> cron_scan_result \<Rightarrow> (nat \<times> nat) cron_prog" where
  "reconcile_scan env u =
     tryP (bindP (ask (now_iso env)) (\<lambda>now. reconcile_soft_deletes env (sr_host u) (sr_clean u) (sr_by_path u) now))
       (\<lambda>x. if x = Cancelled then raise x else ret (0, 0))"

definition run_discovery ::
  "cron_env \<Rightarrow> (string \<Rightarrow> bool) \<Rightarrow> (nat \<Rightarrow> disk) \<Rightarrow> string \<Rightarrow> bool \<Rightarrow> collector_result cron_prog" where
  "run_discovery env valid disk_at host wired =
     (if \<not> wired then ret \<lparr>cr_ok = False, cr_metrics_emitted = 0, cr_errors = [''cron_repo not wired'']\<rparr>
      else
        bindP (scan_crons env valid disk_at host) (\<lambda>u.
        bindP (reconcile_scan env u) (\<lambda>counts.
        ret \<lparr>cr_ok = \<not> sr_partial u, cr_metrics_emitted = 0, cr_errors = map se_error (sr_errors u)\<rparr>)))"

text \<open>
  \<open>POST /api/crons/discover-now\<close> (kernel/api/routers/crons.py), under its lock: the time of the last call,
  and the answer: wait, or the result with the counts of the reconciliation.
\<close>

definition throttle_seconds :: rat where "throttle_seconds = 10"

definition discover_wait :: "rat \<Rightarrow> rat \<Rightarrow> int option" where
  "discover_wait last_call now =
     (if now - last_call < throttle_seconds then Some (max 1 \<lfloor>throttle_seconds - (now - last_call)\<rfloor>) else None)"

definition discover_now ::
  "cron_env \<Rightarrow> (string \<Rightarrow> bool) \<Rightarrow> (nat \<Rightarrow> disk) \<Rightarrow> string \<Rightarrow> rat \<Rightarrow> (rat \<times> (int + cron_scan_result \<times> nat \<times> nat)) cron_prog" where
  "discover_now env valid disk_at host last_call =
     bindP (ask (monotonic env)) (\<lambda>now.
     case discover_wait last_call now of
       Some retry_after \<Rightarrow> ret (last_call, Inl retry_after)
     | None \<Rightarrow>
         bindP (scan_crons env valid disk_at host) (\<lambda>u.
         bindP (reconcile_scan env u) (\<lambda>counts. ret (now, Inr (u, counts)))))"

end
