(* ===== verification/DiscoveryFacts.thy ===== *)
theory DiscoveryFacts
  imports CronDiscovery
begin

text \<open>
  What a discovery tick keeps: the crons of a file that could not be read in full are not marked deleted.
  And what it does not keep: a cron whose upsert failed is.
\<close>

section \<open>The crons of a path\<close>

definition live_kept :: "string \<Rightarrow> cron_row \<Rightarrow> cron_row \<Rightarrow> bool" where
  "live_kept p c d \<longleftrightarrow>
     cr_fingerprint d = cr_fingerprint c \<and> cr_source_path d = cr_source_path c \<and>
     (cr_source_path c = Some p \<and> cr_soft_deleted_at c = None \<longrightarrow> cr_soft_deleted_at d = None)"

text \<open>As long as the fingerprint is a key, it stays one and no cron of the path is lost or marked.\<close>

definition spares :: "string \<Rightarrow> cron_store \<Rightarrow> cron_store \<Rightarrow> bool" where
  "spares p s t \<longleftrightarrow>
     (distinct (map cr_fingerprint (t_crons s)) \<longrightarrow>
        distinct (map cr_fingerprint (t_crons t)) \<and> (\<forall>c \<in> set (t_crons s). \<exists>d \<in> set (t_crons t). live_kept p c d))"

lemma live_kept_refl [simp]: "live_kept p c c"
  and live_kept_trans: "live_kept p c d \<Longrightarrow> live_kept p d e \<Longrightarrow> live_kept p c e"
  by (auto simp: live_kept_def)

lemma spares_same: "t_crons t = t_crons s \<Longrightarrow> spares p s t"
  by (auto simp: spares_def intro: live_kept_refl)

lemma spares_trans: "spares p s t \<Longrightarrow> spares p t u \<Longrightarrow> spares p s u"
  unfolding spares_def using live_kept_trans by meson

lemma spares_star: "(spares p)\<^sup>*\<^sup>* s t \<Longrightarrow> spares p s t"
  by (induction rule: rtranclp_induct) (auto intro: spares_trans spares_same)

lemma spares_mapped:
  assumes "t_crons t = map f (t_crons s)" and "\<And>c. c \<in> set (t_crons s) \<Longrightarrow> live_kept p c (f c)"
  shows "spares p s t"
proof -
  have same: "map cr_fingerprint (t_crons t) = map cr_fingerprint (t_crons s)"
    using assms by (auto simp: live_kept_def)
  have "\<exists>d \<in> set (t_crons t). live_kept p c d" if "c \<in> set (t_crons s)" for c
    using that assms by auto
  then show ?thesis unfolding spares_def same by blast
qed

lemma spares_added:
  assumes "t_crons t = t_crons s @ [c]" and "find_cron (cr_fingerprint c) s = None"
  shows "spares p s t"
  using assms find_none_key [of cr_fingerprint "cr_fingerprint c" "t_crons s"]
  by (auto simp: spares_def find_cron_def intro: live_kept_refl)

lemma guar_sparesI: "(\<And>w r w'. m w = (r, w') \<Longrightarrow> spares p (shared w) (shared w')) \<Longrightarrow> guar (spares p) m"
  by (rule guarI) (metis prod.collapse r_into_rtranclp)

lemma guar_sparesD: "guar (spares p) m \<Longrightarrow> m w = (r, w') \<Longrightarrow> spares p (shared w) (shared w')"
  by (rule spares_star) (rule guarD)

section \<open>The statements of a tick\<close>

lemma run_audited:
  "seqP (cron_audit env who what before after ip now) (ret x) w = (r, w') \<Longrightarrow> t_crons (shared w') = t_crons (shared w)"
  by (erule cron_audit_seq) (auto simp: run_simps)

lemma run_audited_unless:
  "seqP (unlessP b (cron_audit env who what before after ip now)) (ret x) w = (r, w') \<Longrightarrow> t_crons (shared w') = t_crons (shared w)"
  by (cases b) (auto simp: unlessP_def run_simps seqP_def [of "ret ()"] dest!: run_audited)

lemma upsert_spares:
  assumes "rely (spares p) env"
  shows "guar (spares p) (upsert_discovered env d now)"
proof (cases "cron_canonical env (ds_schedule d)")
  case None
  then show ?thesis by (simp add: upsert_discovered_def guar_intros)
next
  case (Some canonical)
  let ?fp = "discovered_fingerprint env d"
  let ?row = "new_cron ?fp (derive_name (ds_command d)) (ds_host d) (scrub_secrets (ds_command d)) (ds_schedule d)
                (Some canonical) (cron_cadence env (ds_schedule d)) (Some (ds_source_path d)) None (Some now)
                (log_match_key_or_none (ds_command d)) (ds_wrapped d) now"
  have fp: "cr_fingerprint ?row = ?fp" by (simp add: new_cron_def)
  show ?thesis unfolding upsert_discovered_def Some option.simps(5) Let_def
  proof (rule guar_txn [OF assms], rule guar_sparesI, goal_cases)
    case (1 w r w')
    show ?case
    proof (cases "find_cron ?fp (shared w)")
      case None
      with 1 have "t_crons (shared w') = t_crons (shared w) @ [?row]"
        by (auto simp: run_simps add_cron_def dest!: run_audited)
      then show ?thesis by (rule spares_added) (simp only: fp None)
    next
      case (Some c)
      let ?f = "\<lambda>c. if cr_fingerprint c = ?fp then rediscover env d (Some canonical) now c else c"
      from 1 Some have "t_crons (shared w') = map ?f (t_crons (shared w))"
        by (auto simp: run_simps on_cron_def dest!: run_audited_unless)
      then show ?thesis by (rule spares_mapped) (simp add: live_kept_def rediscover_def)
    qed
  qed
qed

lemma reconcile_spares:
  assumes "rely (spares p) env" and "p \<notin> set paths"
  shows "guar (spares p) (reconcile_soft_deletes env host paths found now)"
proof (cases "paths = []")
  case False
  have body: "reconcile_soft_deletes env host paths found now =
      txn env (fold_prog (reconcile_path env host found now) (sort (remdups paths)) (0, 0))"
    using False by (simp add: reconcile_soft_deletes_def reconcile_path_def [abs_def])
  show ?thesis unfolding body
  proof (rule guar_txn [OF assms(1)], rule guar_sparesI)
    fix w :: "(cron_store, cron_act event) world" and r w'
    assume run: "fold_prog (reconcile_path env host found now) (sort (remdups paths)) (0, 0) w = (r, w')"
    show "spares p (shared w) (shared w')"
    proof (cases "distinct (map cr_fingerprint (t_crons (shared w)))")
      case True
      with run reconcile_paths_run [of w "sort (remdups paths)" env host found now 0 0]
      have "t_crons (shared w') = map (reconciled host (set paths) found now) (t_crons (shared w))" by auto
      then show ?thesis
        by (rule spares_mapped) (use assms(2) in \<open>auto simp: live_kept_def reconciled_def split: option.split\<close>)
    qed (simp add: spares_def)
  qed
qed (simp add: reconcile_soft_deletes_def guar_intros)

lemma entry_spares: "rely (spares p) env \<Longrightarrow> guar (spares p) (upsert_entry env now e u)"
  unfolding upsert_entry_def by (intro guar_intros upsert_spares)

lemma known_spares: "rely (spares p) env \<Longrightarrow> guar (spares p) (known_paths env host u)"
  unfolding known_paths_def read_known_paths_def by (intro guar_intros)

section \<open>The files a scan leaves alone\<close>

text \<open>A path that is not to be reconciled: it cannot have entered the set of clean ones, now or later.\<close>

definition set_aside :: "string \<Rightarrow> string list \<Rightarrow> string list \<Rightarrow> string list \<Rightarrow> bool" where
  "set_aside p clean unreadable unreachable \<longleftrightarrow>
     p \<in> set unreadable \<or>
     p \<notin> set clean \<and> \<not> re_added unreadable unreachable p"

definition aside :: "string \<Rightarrow> disk_scan \<Rightarrow> bool" where
  "aside p sc \<longleftrightarrow> set_aside p (sc_clean sc) (sc_unreadable sc) (sc_unreachable sc)"

text \<open>The upserts only take paths from the clean set.\<close>

definition shrinks :: "cron_scan_result \<Rightarrow> cron_scan_result \<Rightarrow> bool" where
  "shrinks u v \<longleftrightarrow>
     set (sr_clean v) \<subseteq> set (sr_clean u) \<and> sr_unreadable v = sr_unreadable u \<and> sr_unreachable v = sr_unreachable u"

lemma entry_shrinks: "upsert_entry env now e u w = (Inr v, w') \<Longrightarrow> shrinks u v"
  by (auto simp: upsert_entry_def tryP_def bindP_def run_simps shrinks_def found_entry_def failed_entry_def
    split: prod.splits sum.splits if_splits)

lemma fold_shrinks: "fold_prog (upsert_entry env now) es u w = (Inr v, w') \<Longrightarrow> shrinks u v"
proof (induction es arbitrary: u w)
  case (Cons e es)
  then obtain u1 w1 where "upsert_entry env now e u w = (Inr u1, w1)" "fold_prog (upsert_entry env now) es u1 w1 = (Inr v, w')"
    by (auto elim: bindP_returned)
  with Cons.IH entry_shrinks show ?case unfolding shrinks_def by fastforce
qed (simp add: run_simps shrinks_def)

lemma known_shrinks: "known_paths env host u w = (Inr (known, v), w') \<Longrightarrow> shrinks u v"
  by (auto simp: known_paths_def tryP_def bindP_def run_simps shrinks_def split: prod.splits sum.splits if_splits)

lemma aside_kept:
  assumes "aside p sc" and "shrinks (scan_begun host sc) u"
  shows "p \<notin> set (sr_clean (final_clean known u))"
  using assms by (auto simp: aside_def set_aside_def shrinks_def scan_begun_def final_clean_def)

lemma scan_leaves_aside:
  assumes run: "scan_crons env valid disk_at host w = (Inr u, w')"
    and "scan_disk valid host (disk_at (Suc (ticks w))) = Inr sc" and "aside p sc"
  shows "p \<notin> set (sr_clean u)"
proof -
  let ?w = "w\<lparr>ticks := Suc (Suc (ticks w))\<rparr>" and ?now = "now_iso env (ticks w)"
  from run assms(2) have "bindP (fold_prog (upsert_entry env ?now) (sc_entries sc) (scan_begun host sc)) (\<lambda>u.
         bindP (known_paths env host u) (\<lambda>(known, u). ret (final_clean known u))) ?w = (Inr u, w')"
    by (simp add: scan_crons_def run_simps)
  then obtain u1 w1 where u1: "fold_prog (upsert_entry env ?now) (sc_entries sc) (scan_begun host sc) ?w = (Inr u1, w1)"
    and "bindP (known_paths env host u1) (\<lambda>(known, u). ret (final_clean known u)) w1 = (Inr u, w')"
    by (rule bindP_returned)
  then obtain known u2 where u2: "known_paths env host u1 w1 = (Inr (known, u2), w')" and u: "u = final_clean known u2"
    by (auto simp: run_simps elim!: bindP_returned)
  have "shrinks (scan_begun host sc) u2"
    using fold_shrinks [OF u1] known_shrinks [OF u2] by (auto simp: shrinks_def)
  with assms(3) show ?thesis unfolding u by (rule aside_kept)
qed

section \<open>Damaged files\<close>

text \<open>A file that cannot be read, or a line of which is no cron line; a child whose kind cannot be told.\<close>

definition bad_file :: "(string \<Rightarrow> bool) \<Rightarrow> cron_source_kind \<Rightarrow> string \<Rightarrow> string \<Rightarrow> file_read \<Rightarrow> bool" where
  "bad_file valid kind host path f =
     (case scan_one_file valid kind host path f of Inl _ \<Rightarrow> True | Inr (_, errs, _) \<Rightarrow> errs \<noteq> [])"

definition bad_child :: "(string \<Rightarrow> bool) \<Rightarrow> cron_source_kind \<Rightarrow> string \<Rightarrow> string \<Rightarrow> dir_child \<Rightarrow> bool" where
  "bad_child valid kind host path child =
     (case child of NoRegularFile \<Rightarrow> False | KindFails _ \<Rightarrow> True | Regular f \<Rightarrow> bad_file valid kind host path f)"

definition damaged_in :: "(string \<Rightarrow> bool) \<Rightarrow> cron_source_kind \<Rightarrow> string \<Rightarrow> string \<Rightarrow> dir_read \<Rightarrow> string \<Rightarrow> bool" where
  "damaged_in valid kind host prefix d p =
     (case strip_prefix prefix p of
        None \<Rightarrow> False
      | Some name \<Rightarrow>
          take 1 name \<noteq> ''.'' \<and>
          (case d of
             ListFails _ \<Rightarrow> True
           | Children cs \<Rightarrow> (\<exists>(n, child) \<in> set cs. n = name \<and> bad_child valid kind host p child)
           | _ \<Rightarrow> False))"

definition damaged :: "(string \<Rightarrow> bool) \<Rightarrow> string \<Rightarrow> disk \<Rightarrow> string \<Rightarrow> bool" where
  "damaged valid host dk p \<longleftrightarrow>
     p = crontab_path \<and> bad_file valid SYSTEM_WITH_USER_FIELD host p (dk_crontab dk) \<or>
     damaged_in valid SYSTEM_WITH_USER_FIELD host cron_d_prefix (dk_cron_d dk) p \<or>
     damaged_in valid USER_CRONTAB host user_prefix (dk_snapshot dk) p"

definition distinct_names :: "dir_read \<Rightarrow> bool" where
  "distinct_names d = (case d of Children cs \<Rightarrow> distinct (map fst cs) | _ \<Rightarrow> True)"

lemma take_file_simps [simp]:
  "sc_unreachable (take_file path r sc) = sc_unreachable sc"
  "p \<in> set (sc_clean (take_file path r sc)) \<longleftrightarrow> p \<in> set (sc_clean sc) \<or> p = path \<and> fst (snd r) = []"
  "p \<in> set (sc_unreadable (take_file path r sc)) \<longleftrightarrow> p \<in> set (sc_unreadable sc) \<or> p = path \<and> fst (snd r) \<noteq> []"
  by (cases r; auto simp: take_file_def Let_def)+

lemma dir_failed_simps [simp]:
  "sc_clean (dir_failed label msg sc) = sc_clean sc" "sc_unreadable (dir_failed label msg sc) = sc_unreadable sc"
  "sc_unreachable (dir_failed label msg sc) = label # sc_unreachable sc"
  by (simp_all add: dir_failed_def)

lemma children_others:
  assumes "\<forall>n \<in> fst ` set cs. p \<noteq> prefix @ n" and "scan_children valid kind host prefix cs sc = (sc', r)"
  shows "(p \<in> set (sc_clean sc') \<longleftrightarrow> p \<in> set (sc_clean sc)) \<and> (p \<in> set (sc_unreadable sc') \<longleftrightarrow> p \<in> set (sc_unreadable sc)) \<and>
    sc_unreachable sc' = sc_unreachable sc"
  using assms
proof (induction cs arbitrary: sc)
  case (Cons c cs)
  then show ?case by (cases c) (fastforce split: if_splits dir_child.splits sum.splits)
qed simp

lemma children_unreadable:
  "scan_children valid kind host prefix cs sc = (sc', r) \<Longrightarrow> p \<in> set (sc_unreadable sc) \<Longrightarrow> p \<in> set (sc_unreadable sc')"
  by (induction cs arbitrary: sc) (auto split: if_splits dir_child.splits sum.splits)

lemma children_bad:
  assumes "distinct (map fst cs)" "(name, child) \<in> set cs" "bad_child valid kind host (prefix @ name) child"
    "take 1 name \<noteq> ''.''" "prefix @ name \<notin> set (sc_clean sc)" "scan_children valid kind host prefix cs sc = (sc', r)"
  shows "prefix @ name \<in> set (sc_unreadable sc') \<or> prefix @ name \<notin> set (sc_clean sc') \<and> r \<noteq> None"
  using assms
proof (induction cs arbitrary: sc)
  case (Cons c cs)
  obtain n ch where c: "c = (n, ch)" by fastforce
  show ?case
  proof (cases "n = name")
    case True
    with Cons.prems(1,2) c have ch: "ch = child" by (auto simp: rev_image_eqI)
    show ?thesis
    proof (cases child)
      case (Regular f)
      show ?thesis
      proof (cases "scan_one_file valid kind host (prefix @ name) f")
        case (Inr q)
        with Cons.prems Regular True ch c have "fst (snd q) \<noteq> []" "scan_children valid kind host prefix cs (take_file (prefix @ name) q sc) = (sc', r)"
          by (auto simp: bad_child_def bad_file_def split: prod.splits)
        then show ?thesis using children_unreadable by fastforce
      qed (use Cons.prems Regular True ch c in auto)
    qed (use Cons.prems True ch c in \<open>auto simp: bad_child_def\<close>)
  next
    case False
    have ih: "prefix @ name \<notin> set (sc_clean sc1) \<Longrightarrow> scan_children valid kind host prefix cs sc1 = (sc', r) \<Longrightarrow> ?thesis" for sc1
      using Cons.IH [of sc1] Cons.prems(1-4) False c by auto
    show ?thesis
    proof (cases "scan_children valid kind host prefix cs sc = (sc', r)")
      case True
      with ih Cons.prems(5) show ?thesis by blast
    next
      case stopped: False
      consider msg where "sc' = sc" "r = Some msg"
        | q where "scan_children valid kind host prefix cs (take_file (prefix @ n) q sc) = (sc', r)"
        using Cons.prems(6) stopped c by (auto split: if_splits dir_child.splits sum.splits)
      then show ?thesis
      proof cases
        case 1
        with Cons.prems(5) show ?thesis by simp
      next
        case (2 q)
        with ih [of "take_file (prefix @ n) q sc"] Cons.prems(5) False show ?thesis by simp
      qed
    qed
  qed
qed simp

lemma dir_others:
  assumes "strip_prefix prefix p = None" and "scan_dir valid kind host prefix label d sc = Inr sc'"
  shows "(p \<in> set (sc_clean sc') \<longleftrightarrow> p \<in> set (sc_clean sc)) \<and> (p \<in> set (sc_unreadable sc') \<longleftrightarrow> p \<in> set (sc_unreadable sc)) \<and>
    set (sc_unreachable sc) \<subseteq> set (sc_unreachable sc')"
proof -
  have no: "\<forall>n \<in> fst ` set cs. p \<noteq> prefix @ n" for cs :: "(string \<times> dir_child) list"
    using assms(1) by auto
  show ?thesis using assms(2) children_others [OF no]
    by (auto simp: scan_dir_def split: dir_read.splits prod.splits option.splits)
qed

lemma dir_damaged:
  assumes "damaged_in valid kind host prefix d p" "distinct_names d" "p \<notin> set (sc_clean sc)"
    and "scan_dir valid kind host prefix label d sc = Inr sc'"
  shows "p \<in> set (sc_unreadable sc') \<or> p \<notin> set (sc_clean sc') \<and> label \<in> set (sc_unreachable sc')"
proof (cases d)
  case (Children cs)
  with assms(1) obtain name child where p: "p = prefix @ name" and c: "(name, child) \<in> set (sort_key fst cs)"
      "bad_child valid kind host (prefix @ name) child" "take 1 name \<noteq> ''.''"
    by (auto simp: damaged_in_def strip_prefix_Some split: option.splits)
  obtain sc1 r where s: "scan_children valid kind host prefix (sort_key fst cs) sc = (sc1, r)" by fastforce
  have "distinct (map fst (sort_key fst cs))"
    using assms(2) Children by (simp add: distinct_names_def distinct_map)
  from children_bad [OF this c assms(3) [unfolded p] s] assms(4) s Children
  show ?thesis by (auto simp: scan_dir_def p split: option.splits)
qed (use assms in \<open>auto simp: scan_dir_def damaged_in_def split: option.splits\<close>)

lemma prefix_facts:
  "strip_prefix cron_d_prefix crontab_path = None" "strip_prefix user_prefix crontab_path = None"
  "strip_prefix user_prefix (cron_d_prefix @ name) = None" "strip_prefix cron_d_prefix (user_prefix @ name) = None"
  "cron_d_prefix @ name \<noteq> crontab_path" "user_prefix @ name \<noteq> crontab_path"
  by (simp_all add: strip_prefix_def cron_d_prefix_def user_prefix_def crontab_path_def)

text \<open>Whatever happens on the way, a damaged file is not among those that are reconciled.\<close>

lemma damaged_aside:
  assumes "damaged valid host dk p" "distinct_names (dk_cron_d dk)" "distinct_names (dk_snapshot dk)"
    and "scan_disk valid host dk = Inr sc"
  shows "aside p sc"
proof -
  from assms(4) obtain r sc2 where r: "scan_one_file valid SYSTEM_WITH_USER_FIELD host crontab_path (dk_crontab dk) = Inr r"
    and sc2: "scan_dir valid SYSTEM_WITH_USER_FIELD host cron_d_prefix cron_d_label (dk_cron_d dk) (take_file crontab_path r empty_scan) = Inr sc2"
    and sc: "scan_dir valid USER_CRONTAB host user_prefix spool_label (dk_snapshot dk) sc2 = Inr sc"
    by (auto simp: scan_disk_def split: sum.splits)
  let ?sc1 = "take_file crontab_path r empty_scan"
  have clean1: "q \<in> set (sc_clean ?sc1) \<Longrightarrow> q = crontab_path" for q by (simp add: empty_scan_def)
  from assms(1) consider "p = crontab_path" "bad_file valid SYSTEM_WITH_USER_FIELD host p (dk_crontab dk)"
    | "damaged_in valid SYSTEM_WITH_USER_FIELD host cron_d_prefix (dk_cron_d dk) p"
    | "damaged_in valid USER_CRONTAB host user_prefix (dk_snapshot dk) p"
    by (auto simp: damaged_def)
  then show ?thesis
  proof cases
    case 1
    with r have "p \<in> set (sc_unreadable ?sc1)" by (simp add: bad_file_def split: prod.splits)
    with dir_others [OF _ sc2] dir_others [OF _ sc] show ?thesis
      by (simp add: 1(1) prefix_facts aside_def set_aside_def)
  next
    case 2
    then obtain name where p: "p = cron_d_prefix @ name" by (auto simp: damaged_in_def strip_prefix_Some split: option.splits)
    with clean1 [of p] have "p \<notin> set (sc_clean ?sc1)" by (auto simp: prefix_facts)
    from dir_damaged [OF 2 assms(2) this sc2] dir_others [of user_prefix p, OF _ sc] show ?thesis
      by (auto simp: p prefix_facts aside_def set_aside_def re_added_def starts_with_def)
  next
    case 3
    then obtain name where p: "p = user_prefix @ name" by (auto simp: damaged_in_def strip_prefix_Some split: option.splits)
    with clean1 [of p] dir_others [of cron_d_prefix p, OF _ sc2] have "p \<notin> set (sc_clean sc2)" by (auto simp: prefix_facts)
    from dir_damaged [OF 3 assms(3) this sc] show ?thesis
      by (auto simp: p prefix_facts aside_def set_aside_def re_added_def starts_with_def)
  qed
qed

section \<open>The tick\<close>

lemma scan_spares: "rely (spares p) env \<Longrightarrow> guar (spares p) (scan_crons env valid disk_at host)"
  unfolding scan_crons_def by (intro guar_intros guar_fold_prog entry_spares known_spares)

lemma tick_spares:
  assumes rely: "rely (spares p) env" and run: "run_discovery env valid disk_at host wired w = (r, w')"
    and aside: "\<And>sc. scan_disk valid host (disk_at (Suc (ticks w))) = Inr sc \<Longrightarrow> aside p sc"
  shows "spares p (shared w) (shared w')"
proof (cases wired)
  case True
  obtain q w1 where scan: "scan_crons env valid disk_at host w = (q, w1)" by fastforce
  have 1: "spares p (shared w) (shared w1)" using guar_sparesD [OF scan_spares [OF rely] scan] .
  show ?thesis
  proof (cases q)
    case (Inl e)
    with run True scan 1 show ?thesis by (simp add: run_discovery_def run_bindP_Inl)
  next
    case (Inr u)
    have "\<exists>sc. scan_disk valid host (disk_at (Suc (ticks w))) = Inr sc"
      using scan Inr by (auto simp: scan_crons_def run_simps split: sum.splits)
    then have "p \<notin> set (sr_clean u)" using scan_leaves_aside scan Inr aside by blast
    then have "guar (spares p) (reconcile_scan env u)"
      unfolding reconcile_scan_def by (intro guar_intros reconcile_spares rely)
    then have "guar (spares p) (bindP (reconcile_scan env u) (\<lambda>counts.
        ret \<lparr>cr_ok = \<not> sr_partial u, cr_metrics_emitted = 0, cr_errors = map se_error (sr_errors u)\<rparr>))"
      by (intro guar_intros)
    then have "spares p (shared w1) (shared w')"
      by (rule guar_sparesD) (use run True scan Inr in \<open>simp add: run_discovery_def run_bindP_Inr\<close>)
    with 1 show ?thesis by (rule spares_trans)
  qed
qed (use run in \<open>auto simp: run_discovery_def run_simps intro: spares_same\<close>)

text \<open>
  C37: A discovery tick never marks a cron deleted because of a file it could not read.  When the file cannot be
  opened, when one of its lines is no cron line, or when its directory cannot be listed, every cron of the file
  that was not marked deleted before the tick is there and not marked after it, whatever else the scan
  found, whichever statements failed, and whatever the other tasks did that spare the crons of this file.
\<close>

theorem damaged_file_keeps_crons:
  assumes "rely (spares p) env" and "run_discovery env valid disk_at host wired w = (r, w')"
    and "damaged valid host (disk_at (Suc (ticks w))) p"
    and "distinct_names (dk_cron_d (disk_at (Suc (ticks w))))" and "distinct_names (dk_snapshot (disk_at (Suc (ticks w))))"
    and "distinct (map cr_fingerprint (t_crons (shared w)))"
    and "c \<in> set (t_crons (shared w))" and "cr_source_path c = Some p" and "cr_soft_deleted_at c = None"
  shows "\<exists>d \<in> set (t_crons (shared w')). cr_fingerprint d = cr_fingerprint c \<and> cr_source_path d = Some p \<and>
    cr_soft_deleted_at d = None"
proof -
  have "aside p sc" if "scan_disk valid host (disk_at (Suc (ticks w))) = Inr sc" for sc
    using damaged_aside [OF assms(3-5) that] .
  from tick_spares [OF assms(1,2) this] assms(6-9) show ?thesis
    by (fastforce simp: spares_def live_kept_def)
qed

section \<open>An upsert that fails\<close>

text \<open>The crontab of the example row, which cannot be read.\<close>

definition locked_disk :: disk where
  "locked_disk = \<lparr>dk_crontab = ReadFails ''denied'', dk_cron_d = NoDirectory, dk_snapshot = NoDirectory\<rparr>"

theorem damaged_file_keeps_crons_witness:
  "\<exists>d \<in> set (t_crons (shared (snd (run_discovery quiet_cron_env (\<lambda>_. True) (\<lambda>_. locked_disk) ''nas'' True nightly)))).
     cr_fingerprint d = ''f1'' \<and> cr_source_path d = Some ''/etc/crontab'' \<and> cr_soft_deleted_at d = None"
proof -
  obtain r w' where s: "run_discovery quiet_cron_env (\<lambda>_. True) (\<lambda>_. locked_disk) ''nas'' True nightly = (r, w')" by fastforce
  have "rely (spares crontab_path) quiet_cron_env" by (simp add: rely_def quiet_cron_env_def)
  from damaged_file_keeps_crons [OF this s, of nightly_row] s show ?thesis
    by (simp add: damaged_def bad_file_def scan_one_file_def locked_disk_def distinct_names_def nightly_def nightly_store_def
      nightly_row_def crontab_path_def)
qed

text \<open>
  The clean set forgets a path when an upsert of it fails, and then takes it back because the registry knows it.
  So the only statement that fails, the upsert of the cron the file lists, marks this cron deleted.
\<close>

definition cron_d_disk :: disk where
  "cron_d_disk =
     \<lparr>dk_crontab = Absent, dk_cron_d = Children [(''backup'', Regular (Content ''0 3 * * * root backup.sh''))],
      dk_snapshot = NoDirectory\<rparr>"

definition busy_env :: cron_env where
  "busy_env = quiet_cron_env\<lparr>fault := \<lambda>n. if n = 4 then Some ''locked'' else None\<rparr>"

definition cron_d_row :: cron_row where
  "cron_d_row =
     nightly_row\<lparr>cr_fingerprint := cron_fingerprint (\<lambda>s. s) ''nas'' (Some ''/etc/cron.d/backup'') ''0 3 * * *'' ''backup.sh'',
       cr_source_path := Some ''/etc/cron.d/backup''\<rparr>"

definition cron_d_world :: "(cron_store, cron_act event) world" where
  "cron_d_world = nightly\<lparr>shared := nightly_store\<lparr>t_crons := [cron_d_row]\<rparr>\<rparr>"

lemma failed_upsert_loses_cron:
  "case run_discovery busy_env (\<lambda>_. True) (\<lambda>_. cron_d_disk) ''nas'' True cron_d_world of
     (r, w') \<Rightarrow>
       (case r of Inl _ \<Rightarrow> False | Inr result \<Rightarrow> cr_errors result = [''upsert failed: locked'']) \<and>
       map (\<lambda>c. (cr_fingerprint c = cr_fingerprint cron_d_row, cr_soft_deleted_at c)) (t_crons (shared w')) = [(True, Some ''2026-01-01'')]"
  by code_simp

end
