(* ===== verification/Auth.thy ===== *)
theory Auth
  imports AuditLog Limiters
begin

text \<open>
  Users, sessions and API tokens (kernel/auth/): the session cookie, the CSRF check, token scopes, and the
  repository with its audit rows.  bcrypt, HMAC-SHA256 under the key derived from the master key, SHA-256
  and the parsing of timestamps are fields of the environment.  The constraints of the tables
  (the migrations 0001 and 0004: unique user names, token names and token hashes, the reference from a
  session to its user) are part of the statements.
\<close>

section \<open>Rows\<close>

record auth_user =
  us_id :: int
  us_name :: string
  us_created_at :: string

record user_row = auth_user +
  us_hash :: string

record session =
  ss_id :: string
  ss_user :: int
  ss_expires_at :: string
  ss_ip :: string
  ss_csrf :: string

record api_token =
  tk_id :: string
  tk_name :: string
  tk_scopes :: string
  tk_created_at :: string
  tk_last_used_at :: "string option"
  tk_rotated_at :: "string option"

record token_row = api_token +
  tk_hash :: string

record auth_store = audit_store +
  au_users :: "user_row list"
  au_sessions :: "session list"
  au_tokens :: "token_row list"
  au_limiter :: login_limiter

text \<open>
  The environment: \<open>bcrypt.checkpw\<close> (False when it raises) and \<open>bcrypt.hashpw\<close> with its salt, the digest of
  a session id under a master key, the hex digest of a token, the master key of the application, the instant
  of a timestamp text (None when \<open>fromisoformat\<close> raises; a naive one is read as UTC) and the text of an
  instant, both in microseconds, and the clock of the login limiter.
\<close>

record auth_env = "auth_store tenv" +
  bcrypt_check :: "string \<Rightarrow> string \<Rightarrow> bool"
  bcrypt_hash :: "nat \<Rightarrow> string \<Rightarrow> string"
  session_hmac :: "string \<Rightarrow> string \<Rightarrow> nat list"
  token_sha :: "string \<Rightarrow> string"
  master_key :: "string option"
  iso_us :: "string \<Rightarrow> int option"
  us_iso :: "int \<Rightarrow> string"
  login_clock :: "nat \<Rightarrow> rat"

type_synonym 'a auth_prog = "(auth_store, unit event, 'a) prog"

text \<open>What a request may die of besides a problem response (all of them end in a 500).\<close>

datatype py_raise = UnicodeEncodeErr | CompareTypeErr | PyValueErr string

section \<open>The session cookie\<close>

definition hex_of_bytes :: "nat list \<Rightarrow> string" where
  "hex_of_bytes bs = concat (map (\<lambda>b. [hex_digit (b div 16), hex_digit (b mod 16)]) bs)"

definition session_hmac_len_bytes :: nat where "session_hmac_len_bytes = 16"
definition session_id_len :: nat where "session_id_len = 32"

definition cookie_value_len :: nat where
  "cookie_value_len = session_id_len + 1 + session_hmac_len_bytes * 2"

definition make_session_cookie_value :: "('z) auth_env_scheme \<Rightarrow> string \<Rightarrow> string \<Rightarrow> py_raise + string" where
  "make_session_cookie_value env sid key =
     (if is_ascii sid
      then Inr (sid @ ''.'' @ hex_of_bytes (take session_hmac_len_bytes (session_hmac env key sid)))
      else Inl UnicodeEncodeErr)"

text \<open>\<open>hmac.compare_digest\<close> of two strings raises a TypeError unless both are ASCII.\<close>

definition compare_digest :: "string \<Rightarrow> string \<Rightarrow> py_raise + bool" where
  "compare_digest a b = (if is_ascii a \<and> is_ascii b then Inr (a = b) else Inl CompareTypeErr)"

definition verify_session_cookie_value :: "('z) auth_env_scheme \<Rightarrow> string \<Rightarrow> string \<Rightarrow> py_raise + string option" where
  "verify_session_cookie_value env v key =
     (if length v \<noteq> cookie_value_len then Inr None
      else if length (takeWhile (\<lambda>c. c \<noteq> CHR ''.'') v) \<noteq> session_id_len then Inr None
      else
        let sid = take session_id_len v
        in case make_session_cookie_value env sid key of
             Inl e \<Rightarrow> Inl e
           | Inr expected \<Rightarrow>
               (case compare_digest v expected of
                  Inl e \<Rightarrow> Inl e
                | Inr same \<Rightarrow> Inr (if same then Some sid else None)))"

definition verify_csrf_token :: "string \<Rightarrow> string \<Rightarrow> py_raise + bool" where
  "verify_csrf_token provided expected =
     (if provided = [] \<or> expected = [] then Inr False else compare_digest provided expected)"

section \<open>Scopes\<close>

datatype scope =
    HEARTBEAT_WRITE | ALERTS_INGEST_WRITE | CRON_EVENTS_INGEST_WRITE | READ_STATUS | ADMIN_BACKUP_WRITE
  | DOCKER_WRITE | HA_EVENT_WRITE | PIHOLE_WRITE

fun scope_value :: "scope \<Rightarrow> string" where
  "scope_value HEARTBEAT_WRITE = ''heartbeat:write''"
| "scope_value ALERTS_INGEST_WRITE = ''alerts:ingest:write''"
| "scope_value CRON_EVENTS_INGEST_WRITE = ''cron:events:ingest:write''"
| "scope_value READ_STATUS = ''read:status''"
| "scope_value ADMIN_BACKUP_WRITE = ''admin:backup:write''"
| "scope_value DOCKER_WRITE = ''docker:write''"
| "scope_value HA_EVENT_WRITE = ''ha:event:write''"
| "scope_value PIHOLE_WRITE = ''pihole:write''"

definition all_scopes :: "scope list" where
  "all_scopes = [HEARTBEAT_WRITE, ALERTS_INGEST_WRITE, CRON_EVENTS_INGEST_WRITE, READ_STATUS, ADMIN_BACKUP_WRITE,
     DOCKER_WRITE, HA_EVENT_WRITE, PIHOLE_WRITE]"

definition scope_of_value :: "string \<Rightarrow> scope option" where
  "scope_of_value s = List.find (\<lambda>x. scope_value x = s) all_scopes"

fun parse_entries :: "string list \<Rightarrow> py_raise + scope set" where
  "parse_entries [] = Inr {}"
| "parse_entries (raw # rest) =
     (let token = strip raw
      in if token = [] then parse_entries rest
         else case scope_of_value token of
                None \<Rightarrow> Inl (PyValueErr (''unknown scope: '' @ py_repr token))
              | Some x \<Rightarrow> map_sum id (insert x) (parse_entries rest))"

definition parse_scopes :: "string \<Rightarrow> py_raise + scope set" where
  "parse_scopes stored =
     (if strip stored = [] then Inr {} else parse_entries (split_on (CHR '','') stored))"

definition serialize_scopes :: "scope set \<Rightarrow> string" where
  "serialize_scopes S = join_with '','' (sort (map scope_value (filter (\<lambda>x. x \<in> S) all_scopes)))"

section \<open>Statements\<close>

definition user_by_id :: "int \<Rightarrow> auth_store \<Rightarrow> user_row option" where
  "user_by_id i s = List.find (\<lambda>u. us_id u = i) (au_users s)"

definition user_by_name :: "string \<Rightarrow> auth_store \<Rightarrow> user_row option" where
  "user_by_name n s = List.find (\<lambda>u. us_name u = n) (au_users s)"

definition session_by_id :: "string \<Rightarrow> auth_store \<Rightarrow> session option" where
  "session_by_id i s = List.find (\<lambda>r. ss_id r = i) (au_sessions s)"

definition token_by_hash :: "string \<Rightarrow> auth_store \<Rightarrow> token_row option" where
  "token_by_hash h s = List.find (\<lambda>t. tk_hash t = h) (au_tokens s)"

definition token_by_name :: "string \<Rightarrow> auth_store \<Rightarrow> token_row option" where
  "token_by_name n s = List.find (\<lambda>t. tk_name t = n) (au_tokens s)"

text \<open>An INTEGER PRIMARY KEY without a value takes the largest id plus one.\<close>

definition next_user_id :: "auth_store \<Rightarrow> int" where
  "next_user_id s = fold max (map us_id (au_users s)) 0 + 1"

definition insert_user_stmt :: "string \<Rightarrow> string \<Rightarrow> string \<Rightarrow> int auth_prog" where
  "insert_user_stmt name h now =
     bindP (getS (\<lambda>s. (user_by_name name s, next_user_id s))) (\<lambda>(present, i).
     if present \<noteq> None then raise (IntegrityErr ''UNIQUE constraint failed: users.username'')
     else seqP (modS (\<lambda>s. s\<lparr>au_users := au_users s @ [\<lparr>us_id = i, us_name = name, us_created_at = now, us_hash = h\<rparr>]\<rparr>))
            (ret i))"

definition insert_session_stmt :: "session \<Rightarrow> unit auth_prog" where
  "insert_session_stmt row =
     bindP (getS (\<lambda>s. (session_by_id (ss_id row) s, user_by_id (ss_user row) s))) (\<lambda>(present, owner).
     if present \<noteq> None then raise (IntegrityErr ''UNIQUE constraint failed: sessions.id'')
     else if owner = None then raise (IntegrityErr ''FOREIGN KEY constraint failed'')
     else modS (\<lambda>s. s\<lparr>au_sessions := au_sessions s @ [row]\<rparr>))"

definition insert_token_stmt :: "token_row \<Rightarrow> unit auth_prog" where
  "insert_token_stmt row =
     bindP (getS au_tokens) (\<lambda>ts.
     if tk_id row \<in> tk_id ` set ts then raise (IntegrityErr ''UNIQUE constraint failed: api_tokens.id'')
     else if tk_name row \<in> tk_name ` set ts then raise (IntegrityErr ''UNIQUE constraint failed: api_tokens.name'')
     else if tk_hash row \<in> tk_hash ` set ts then raise (IntegrityErr ''UNIQUE constraint failed: api_tokens.hash'')
     else modS (\<lambda>s. s\<lparr>au_tokens := au_tokens s @ [row]\<rparr>))"

text \<open>A DELETE with its row count.\<close>

definition delete_users :: "(user_row \<Rightarrow> bool) \<Rightarrow> nat auth_prog" where
  "delete_users P =
     bindP (getS (\<lambda>s. length (filter P (au_users s)))) (\<lambda>n.
     seqP (modS (\<lambda>s. s\<lparr>au_users := filter (\<lambda>u. \<not> P u) (au_users s)\<rparr>)) (ret n))"

definition delete_sessions :: "(session \<Rightarrow> bool) \<Rightarrow> nat auth_prog" where
  "delete_sessions P =
     bindP (getS (\<lambda>s. length (filter P (au_sessions s)))) (\<lambda>n.
     seqP (modS (\<lambda>s. s\<lparr>au_sessions := filter (\<lambda>r. \<not> P r) (au_sessions s)\<rparr>)) (ret n))"

definition delete_tokens :: "(token_row \<Rightarrow> bool) \<Rightarrow> nat auth_prog" where
  "delete_tokens P =
     bindP (getS (\<lambda>s. length (filter P (au_tokens s)))) (\<lambda>n.
     seqP (modS (\<lambda>s. s\<lparr>au_tokens := filter (\<lambda>t. \<not> P t) (au_tokens s)\<rparr>)) (ret n))"

section \<open>Users\<close>

definition users_count :: "('z) auth_env_scheme \<Rightarrow> nat auth_prog" where
  "users_count env = fetch env (\<lambda>s. length (au_users s))"

definition list_users :: "('z) auth_env_scheme \<Rightarrow> auth_user list auth_prog" where
  "list_users env = fetch env (\<lambda>s. map auth_user.truncate (sort_key us_id (au_users s)))"

definition get_user_by_id :: "('z) auth_env_scheme \<Rightarrow> int \<Rightarrow> auth_user option auth_prog" where
  "get_user_by_id env i = fetch env (\<lambda>s. map_option auth_user.truncate (user_by_id i s))"

definition get_user_by_username :: "('z) auth_env_scheme \<Rightarrow> string \<Rightarrow> auth_user option auth_prog" where
  "get_user_by_username env n = fetch env (\<lambda>s. map_option auth_user.truncate (user_by_name n s))"

definition create_user :: "('z) auth_env_scheme \<Rightarrow> string \<Rightarrow> string \<Rightarrow> string \<Rightarrow> string option \<Rightarrow> auth_user auth_prog" where
  "create_user env name h who ip =
     bindP (ask (now_iso env)) (\<lambda>now.
     bindP (txn env
       (bindP (insert_user_stmt name h now) (\<lambda>i.
        seqP (insert_audit env who ''user.create'' None (Some [(''user_id'', JInt i), (''username'', JStr name)]) ip None)
          (ret i))))
       (\<lambda>i. ret \<lparr>us_id = i, us_name = name, us_created_at = now\<rparr>))"

definition user_missing :: "int \<Rightarrow> exn" where
  "user_missing i = LookupErr (''user not found: id='' @ str_of_int i)"

definition set_password :: "int \<Rightarrow> string \<Rightarrow> auth_store \<Rightarrow> auth_store" where
  "set_password i h s = s\<lparr>au_users := map (\<lambda>u. if us_id u = i then u\<lparr>us_hash := h\<rparr> else u) (au_users s)\<rparr>"

definition change_password :: "('z) auth_env_scheme \<Rightarrow> int \<Rightarrow> string \<Rightarrow> string \<Rightarrow> string option \<Rightarrow> unit auth_prog" where
  "change_password env i h who ip =
     txn env
       (bindP (getS (user_by_id i)) (\<lambda>present.
        if present = None then raise (user_missing i)
        else seqP (modS (set_password i h))
               (insert_audit env who ''user.password_change'' None (Some [(''user_id'', JInt i)]) ip None)))"

text \<open>The two DELETE statements of \<open>delete_user\<close>, children first, with the row count of the second.\<close>

definition delete_user_rows :: "int \<Rightarrow> nat auth_prog" where
  "delete_user_rows i = bindP (delete_sessions (\<lambda>r. ss_user r = i)) (\<lambda>_. delete_users (\<lambda>u. us_id u = i))"

definition delete_user :: "('z) auth_env_scheme \<Rightarrow> int \<Rightarrow> string \<Rightarrow> string option \<Rightarrow> unit auth_prog" where
  "delete_user env i who ip =
     txn env
       (bindP (delete_user_rows i) (\<lambda>n.
        if n = 0 then raise (user_missing i)
        else insert_audit env who ''user.delete'' (Some [(''user_id'', JInt i)]) None ip None))"

definition verify_user_password :: "('z) auth_env_scheme \<Rightarrow> string \<Rightarrow> string \<Rightarrow> auth_user option auth_prog" where
  "verify_user_password env name plaintext =
     bindP (fetch env (user_by_name name)) (\<lambda>row.
     case row of
       None \<Rightarrow> ret None
     | Some u \<Rightarrow> if \<not> bcrypt_check env plaintext (us_hash u) then ret None else ret (Some (auth_user.truncate u)))"

section \<open>Sessions\<close>

definition create_session :: "('z) auth_env_scheme \<Rightarrow> int \<Rightarrow> string \<Rightarrow> int \<Rightarrow> string \<Rightarrow> session auth_prog" where
  "create_session env user_id ip ttl_seconds csrf =
     bindP (ask (uuid env)) (\<lambda>sid.
     bindP (ask (clock env)) (\<lambda>now.
     let row = \<lparr>ss_id = sid, ss_user = user_id, ss_expires_at = us_iso env (now + ttl_seconds * 1000000),
                ss_ip = ip, ss_csrf = csrf\<rparr>
     in seqP (txn env
          (seqP (insert_session_stmt row)
            (insert_audit env (str_of_int user_id) ''session.login'' None (Some [(''session_id'', JStr sid)]) (Some ip) None)))
          (ret row)))"

definition get_session :: "('z) auth_env_scheme \<Rightarrow> string \<Rightarrow> session option auth_prog" where
  "get_session env i = fetch env (session_by_id i)"

definition delete_session :: "('z) auth_env_scheme \<Rightarrow> string \<Rightarrow> string \<Rightarrow> string option \<Rightarrow> unit auth_prog" where
  "delete_session env i who ip =
     txn env
       (bindP (delete_sessions (\<lambda>r. ss_id r = i)) (\<lambda>_.
        insert_audit env who ''session.logout'' (Some [(''session_id'', JStr i)]) None ip None))"

definition delete_all_user_sessions :: "('z) auth_env_scheme \<Rightarrow> int \<Rightarrow> nat auth_prog" where
  "delete_all_user_sessions env i = txn env (delete_sessions (\<lambda>r. ss_user r = i))"

definition cleanup_expired_sessions :: "('z) auth_env_scheme \<Rightarrow> nat auth_prog" where
  "cleanup_expired_sessions env =
     bindP (ask (clock env)) (\<lambda>t.
     let now = us_iso env t in txn env (delete_sessions (\<lambda>r. ss_expires_at r < now)))"

definition is_session_expired :: "('z) auth_env_scheme \<Rightarrow> string \<Rightarrow> bool auth_prog" where
  "is_session_expired env expires_at =
     (case iso_us env expires_at of
        None \<Rightarrow> ret True
      | Some ts \<Rightarrow> bindP (ask (clock env)) (\<lambda>now. ret (ts < now)))"

section \<open>API tokens\<close>

definition create_api_token ::
  "('z) auth_env_scheme \<Rightarrow> string \<Rightarrow> scope set \<Rightarrow> string \<Rightarrow> string \<Rightarrow> string option \<Rightarrow> api_token auth_prog" where
  "create_api_token env name scopes plaintext who ip =
     bindP (ask (uuid env)) (\<lambda>i.
     bindP (ask (now_iso env)) (\<lambda>now.
     let stored = serialize_scopes scopes;
         row = \<lparr>tk_id = i, tk_name = name, tk_scopes = stored, tk_created_at = now, tk_last_used_at = None,
                tk_rotated_at = None, tk_hash = token_sha env plaintext\<rparr>
     in seqP (txn env
          (seqP (insert_token_stmt row)
            (insert_audit env who ''api_token.create'' None
              (Some [(''id'', JStr i), (''name'', JStr name), (''scopes'', JStr stored)]) ip None)))
          (ret (api_token.truncate row))))"

definition get_api_token_by_hash :: "('z) auth_env_scheme \<Rightarrow> string \<Rightarrow> api_token option auth_prog" where
  "get_api_token_by_hash env h = fetch env (\<lambda>s. map_option api_token.truncate (token_by_hash h s))"

definition get_api_token_by_name :: "('z) auth_env_scheme \<Rightarrow> string \<Rightarrow> api_token option auth_prog" where
  "get_api_token_by_name env n = fetch env (\<lambda>s. map_option api_token.truncate (token_by_name n s))"

definition delete_api_token_by_name :: "('z) auth_env_scheme \<Rightarrow> string \<Rightarrow> bool auth_prog" where
  "delete_api_token_by_name env n = bindP (txn env (delete_tokens (\<lambda>t. tk_name t = n))) (\<lambda>k. ret (0 < k))"

definition list_api_tokens :: "('z) auth_env_scheme \<Rightarrow> api_token list auth_prog" where
  "list_api_tokens env = fetch env (\<lambda>s. map api_token.truncate (rev (sort_key tk_created_at (rev (au_tokens s)))))"

definition revoke_api_token :: "('z) auth_env_scheme \<Rightarrow> string \<Rightarrow> string \<Rightarrow> string option \<Rightarrow> unit auth_prog" where
  "revoke_api_token env i who ip =
     txn env
       (bindP (delete_tokens (\<lambda>t. tk_id t = i)) (\<lambda>n.
        if n = 0 then raise (LookupErr (''api token not found: id='' @ i))
        else insert_audit env who ''api_token.revoke'' (Some [(''id'', JStr i)]) None ip None))"

text \<open>A failed write of the last use is logged and forgotten.\<close>

definition update_token_last_used :: "('z) auth_env_scheme \<Rightarrow> string \<Rightarrow> string \<Rightarrow> unit auth_prog" where
  "update_token_last_used env i at_time =
     tryP (txn env (modS (\<lambda>s. s\<lparr>au_tokens :=
        map (\<lambda>t. if tk_id t = i then t\<lparr>tk_last_used_at := Some at_time\<rparr> else t) (au_tokens s)\<rparr>)))
       (\<lambda>e. ret ())"

end
