(* ===== verification/AuthGate.thy ===== *)
theory AuthGate
  imports Auth
begin

text \<open>
  Who a request is from and what it may do: the resolution of credentials (\<open>AuthMiddleware\<close> of
  kernel/api/middleware.py), the route guards (\<open>require_session\<close> and its kin of kernel/api/dependencies.py)
  and the routes of kernel/api/routers/auth.py.  A guarded route is its guard followed by its body.
\<close>

section \<open>Requests and resolved credentials\<close>

text \<open>An absent header is the empty string, as \<open>headers.get(name, "")\<close> has it; the header names are the code's.\<close>

record request =
  hr_path :: string
  hr_method :: string
  hr_authorization :: string
  hr_cookie :: "string option"
  hr_csrf :: string
  hr_ip :: string

datatype auth_kind = KSession | KToken | Unauthenticated

record cred_state =
  cs_user :: "auth_user option"
  cs_session :: "session option"
  cs_token :: "api_token option"
  cs_kind :: auth_kind

definition no_credential :: cred_state where
  "no_credential = \<lparr>cs_user = None, cs_session = None, cs_token = None, cs_kind = Unauthenticated\<rparr>"

definition auth_exempt_paths :: "string list" where
  "auth_exempt_paths =
     [''/api/healthz'', ''/api/version'', ''/api/openapi.json'', ''/api/docs'', ''/api/redoc'',
      ''/api/docs/oauth2-redirect'', ''/api/auth/login'']"

text \<open>The token of an \<open>Authorization: Bearer\<close> header.\<close>

definition bearer_token :: "string \<Rightarrow> string option" where
  "bearer_token header =
     (if take 7 (lower header) = ''bearer ''
      then (let candidate = strip (drop 7 header) in if candidate = [] then None else Some candidate)
      else None)"

definition resolve_token :: "('z) auth_env_scheme \<Rightarrow> string \<Rightarrow> cred_state auth_prog" where
  "resolve_token env plaintext =
     (if plaintext = [] then ret no_credential
      else bindP (get_api_token_by_hash env (token_sha env plaintext)) (\<lambda>found.
        case found of
          None \<Rightarrow> ret no_credential
        | Some t \<Rightarrow>
            bindP (ask (now_iso env)) (\<lambda>now.
            seqP (update_token_last_used env (tk_id t) now)
              (ret (no_credential\<lparr>cs_token := Some t, cs_kind := KToken\<rparr>)))))"

definition resolve_session :: "('z) auth_env_scheme \<Rightarrow> string \<Rightarrow> (py_raise + cred_state) auth_prog" where
  "resolve_session env cookie =
     (case master_key env of
        None \<Rightarrow> ret (Inr no_credential)
      | Some key \<Rightarrow>
        (case verify_session_cookie_value env cookie key of
           Inl e \<Rightarrow> ret (Inl e)
         | Inr None \<Rightarrow> ret (Inr no_credential)
         | Inr (Some sid) \<Rightarrow>
             bindP (get_session env sid) (\<lambda>found.
             case found of
               None \<Rightarrow> ret (Inr no_credential)
             | Some row \<Rightarrow>
                 bindP (is_session_expired env (ss_expires_at row)) (\<lambda>expired.
                 if expired then ret (Inr no_credential)
                 else bindP (get_user_by_id env (ss_user row)) (\<lambda>owner.
                   case owner of
                     None \<Rightarrow> ret (Inr no_credential)
                   | Some u \<Rightarrow>
                       ret (Inr (no_credential\<lparr>cs_user := Some u, cs_session := Some row, cs_kind := KSession\<rparr>)))))))"

definition resolve_auth :: "('z) auth_env_scheme \<Rightarrow> request \<Rightarrow> (py_raise + cred_state) auth_prog" where
  "resolve_auth env req =
     (if hr_path req \<in> set auth_exempt_paths then ret (Inr no_credential)
      else case bearer_token (hr_authorization req) of
        Some t \<Rightarrow> bindP (resolve_token env t) (\<lambda>st. ret (Inr st))
      | None \<Rightarrow>
          (case hr_cookie req of
             None \<Rightarrow> ret (Inr no_credential)
           | Some cookie \<Rightarrow> resolve_session env cookie))"

section \<open>Guards\<close>

datatype refusal = Denied http_problem | Crashed py_raise

definition unauthenticated_problem :: http_problem where
  "unauthenticated_problem = HttpProblem 401 ''unauthenticated'' ''authentication required''"

definition csrf_mismatch_problem :: http_problem where
  "csrf_mismatch_problem = HttpProblem 403 ''csrf_mismatch'' ''missing or invalid CSRF token''"

definition insufficient_scope :: "string \<Rightarrow> http_problem" where
  "insufficient_scope msg = HttpProblem 403 ''insufficient_scope'' msg"

definition upper_ascii :: "string \<Rightarrow> string" where
  "upper_ascii s =
     map (\<lambda>c. let n = (of_char c :: nat) in if 97 \<le> n \<and> n \<le> 122 then char_of (n - 32) else c) s"

definition state_changing_methods :: "string list" where
  "state_changing_methods = [''POST'', ''PUT'', ''PATCH'', ''DELETE'']"

definition enforce_csrf :: "request \<Rightarrow> cred_state \<Rightarrow> refusal + unit" where
  "enforce_csrf req st =
     (if upper_ascii (hr_method req) \<notin> set state_changing_methods then Inr ()
      else case cs_session st of
        None \<Rightarrow> Inl (Denied (HttpProblem 403 ''csrf_mismatch'' ''missing session for CSRF check''))
      | Some row \<Rightarrow>
          (case verify_csrf_token (hr_csrf req) (ss_csrf row) of
             Inl e \<Rightarrow> Inl (Crashed e)
           | Inr ok \<Rightarrow> if ok then Inr () else Inl (Denied csrf_mismatch_problem)))"

definition require_session :: "request \<Rightarrow> cred_state \<Rightarrow> refusal + auth_user" where
  "require_session req st =
     (case cs_user st of
        None \<Rightarrow> Inl (Denied unauthenticated_problem)
      | Some u \<Rightarrow>
          if cs_kind st \<noteq> KSession then Inl (Denied unauthenticated_problem)
          else (case enforce_csrf req st of Inl e \<Rightarrow> Inl e | Inr _ \<Rightarrow> Inr u))"

definition require_session_no_csrf :: "cred_state \<Rightarrow> refusal + auth_user" where
  "require_session_no_csrf st =
     (case cs_user st of
        None \<Rightarrow> Inl (Denied unauthenticated_problem)
      | Some u \<Rightarrow> if cs_kind st \<noteq> KSession then Inl (Denied unauthenticated_problem) else Inr u)"

definition require_token_scope :: "scope \<Rightarrow> cred_state \<Rightarrow> refusal + api_token" where
  "require_token_scope x st =
     (case cs_token st of
        None \<Rightarrow> Inl (Denied unauthenticated_problem)
      | Some t \<Rightarrow>
          if cs_kind st \<noteq> KToken then Inl (Denied unauthenticated_problem)
          else (case parse_scopes (tk_scopes t) of
              Inl e \<Rightarrow> Inl (Crashed e)
            | Inr granted \<Rightarrow>
                if x \<notin> granted then Inl (Denied (insufficient_scope (''token lacks required scope: '' @ scope_value x)))
                else Inr t))"

text \<open>The text of \<open>sorted(s.value for s in scopes)\<close>.\<close>

definition scope_list_text :: "scope set \<Rightarrow> string" where
  "scope_list_text S =
     ''['' @ join_with '', '' (map py_repr (sort (map scope_value (filter (\<lambda>x. x \<in> S) all_scopes)))) @ '']''"

definition require_user_or_token :: "scope set \<Rightarrow> request \<Rightarrow> cred_state \<Rightarrow> refusal + (auth_user + api_token)" where
  "require_user_or_token scopes req st =
     (case (cs_kind st, cs_user st, cs_token st) of
        (KSession, Some u, _) \<Rightarrow> (case enforce_csrf req st of Inl e \<Rightarrow> Inl e | Inr _ \<Rightarrow> Inr (Inl u))
      | (KToken, _, Some t) \<Rightarrow>
          (case parse_scopes (tk_scopes t) of
             Inl e \<Rightarrow> Inl (Crashed e)
           | Inr granted \<Rightarrow>
               if scopes \<inter> granted = {}
               then Inl (Denied (insufficient_scope (''token lacks any of required scopes: '' @ scope_list_text scopes)))
               else Inr (Inr t))
      | _ \<Rightarrow> Inl (Denied unauthenticated_problem))"

section \<open>Routes\<close>

definition min_password_length :: nat where "min_password_length = 12"
definition default_session_ttl_days :: int where "default_session_ttl_days = 7"

text \<open>\<open>_session_ttl_seconds\<close>: the variable of the process environment, and \<open>int()\<close> (None when it raises).\<close>

definition session_ttl_seconds :: "(string \<Rightarrow> int option) \<Rightarrow> string option \<Rightarrow> int" where
  "session_ttl_seconds py_int raw =
     (case raw of
        None \<Rightarrow> default_session_ttl_days * 24 * 3600
      | Some text \<Rightarrow>
          if strip text = [] then default_session_ttl_days * 24 * 3600
          else case py_int text of
              None \<Rightarrow> default_session_ttl_days * 24 * 3600
            | Some days \<Rightarrow> (if days < 1 then 1 else days) * 24 * 3600)"

text \<open>The answer of a route: the user, and the two cookies when they are set.\<close>

record auth_reply =
  ar_user_id :: int
  ar_username :: string
  ar_cookie :: string
  ar_csrf :: string
  ar_max_age :: int

definition rate_limited_problem :: http_problem where
  "rate_limited_problem = HttpProblem 429 ''rate_limited'' ''too many login attempts; try again later''"

definition wrong_password_problem :: http_problem where
  "wrong_password_problem = HttpProblem 401 ''wrong_password'' ''invalid username or password''"

definition weak_password_problem :: http_problem where
  "weak_password_problem = HttpProblem 400 ''weak_password'' ''new password must be at least 12 characters''"

text \<open>A failed check of a password counts against the address of the client.\<close>

definition failed_attempt :: "('z) auth_env_scheme \<Rightarrow> string \<Rightarrow> (refusal + 'a) auth_prog" where
  "failed_attempt env ip =
     bindP (ask (login_clock env)) (\<lambda>now.
     bindP (getS (\<lambda>s. check_and_record (au_limiter s) ip now)) (\<lambda>(ok, lm).
     seqP (modS (\<lambda>s. s\<lparr>au_limiter := lm\<rparr>))
       (ret (Inl (Denied (if ok then wrong_password_problem else rate_limited_problem))))))"

definition issue_session ::
  "('z) auth_env_scheme \<Rightarrow> string \<Rightarrow> auth_user \<Rightarrow> string \<Rightarrow> int \<Rightarrow> (refusal + auth_reply) auth_prog" where
  "issue_session env key u ip ttl =
     bindP (ask (uuid env)) (\<lambda>csrf.
     bindP (create_session env (us_id u) ip ttl csrf) (\<lambda>row.
     ret (case make_session_cookie_value env (ss_id row) key of
            Inl e \<Rightarrow> Inl (Crashed e)
          | Inr cookie \<Rightarrow>
              Inr \<lparr>ar_user_id = us_id u, ar_username = us_name u, ar_cookie = cookie, ar_csrf = csrf,
                   ar_max_age = ttl\<rparr>)))"

definition login ::
  "('z) auth_env_scheme \<Rightarrow> string \<Rightarrow> int \<Rightarrow> string \<Rightarrow> string \<Rightarrow> string \<Rightarrow> (refusal + auth_reply) auth_prog" where
  "login env key ttl ip username password =
     bindP (verify_user_password env username password) (\<lambda>user.
     case user of
       None \<Rightarrow> failed_attempt env ip
     | Some u \<Rightarrow> issue_session env key u ip ttl)"

definition change_password_body ::
  "('z) auth_env_scheme \<Rightarrow> string \<Rightarrow> int \<Rightarrow> auth_user \<Rightarrow> string \<Rightarrow> string \<Rightarrow> string \<Rightarrow> (refusal + auth_reply) auth_prog" where
  "change_password_body env key ttl u ip current new =
     (if length new < min_password_length then ret (Inl (Denied weak_password_problem))
      else bindP (verify_user_password env (us_name u) current) (\<lambda>verified.
        case verified of
          None \<Rightarrow> failed_attempt env ip
        | Some _ \<Rightarrow>
            bindP (ask (\<lambda>n. bcrypt_hash env n new)) (\<lambda>h.
            seqP (change_password env (us_id u) h (str_of_int (us_id u)) (Some ip))
              (bindP (delete_all_user_sessions env (us_id u)) (\<lambda>_.
               issue_session env key u ip ttl)))))"

text \<open>The guarded routes: the middleware, the guard, the body.\<close>

definition guarded ::
  "('z) auth_env_scheme \<Rightarrow> request \<Rightarrow> (auth_user \<Rightarrow> cred_state \<Rightarrow> (refusal + 'a) auth_prog) \<Rightarrow> (refusal + 'a) auth_prog" where
  "guarded env req body =
     bindP (resolve_auth env req) (\<lambda>r.
     case r of
       Inl e \<Rightarrow> ret (Inl (Crashed e))
     | Inr st \<Rightarrow>
         (case require_session req st of
            Inl e \<Rightarrow> ret (Inl e)
          | Inr u \<Rightarrow> body u st))"

text \<open>The guard has checked that there is a session; without one \<open>session.id\<close> would raise.\<close>

definition logout_body :: "('z) auth_env_scheme \<Rightarrow> string \<Rightarrow> auth_user \<Rightarrow> cred_state \<Rightarrow> (refusal + unit) auth_prog" where
  "logout_body env ip u st =
     (case cs_session st of
        None \<Rightarrow> ret (Inl (Crashed (PyValueErr ''AttributeError'')))
      | Some row \<Rightarrow>
          bindP (delete_session env (ss_id row) (str_of_int (us_id u)) (Some ip)) (\<lambda>_. ret (Inr ())))"

definition logout :: "('z) auth_env_scheme \<Rightarrow> request \<Rightarrow> (refusal + unit) auth_prog" where
  "logout env req = guarded env req (logout_body env (hr_ip req))"

definition me :: "('z) auth_env_scheme \<Rightarrow> request \<Rightarrow> (refusal + int \<times> string) auth_prog" where
  "me env req = guarded env req (\<lambda>u st. ret (Inr (us_id u, us_name u)))"

definition change_password_route ::
  "('z) auth_env_scheme \<Rightarrow> string \<Rightarrow> int \<Rightarrow> request \<Rightarrow> string \<Rightarrow> string \<Rightarrow> (refusal + auth_reply) auth_prog" where
  "change_password_route env key ttl req current new =
     guarded env req (\<lambda>u st. change_password_body env key ttl u (hr_ip req) current new)"

end
