(* ===== verification/AuthFacts.thy ===== *)
theory AuthFacts
  imports AuthGate
begin

text \<open>
  What the credentials of a request are worth: a cookie is accepted only for the session it was made for, the
  scopes of a token are read back as they were written, and a request counts as a user's exactly when it
  carries the cookie of a live session of an existing user.
\<close>

section \<open>Scopes\<close>

lemma split_on_nonempty: "split_on d s \<noteq> []"
  by (cases s) (auto split: list.split)

lemma split_on_word: "d \<notin> set v \<Longrightarrow> split_on d v = [v]"
  by (induction v) auto

lemma split_on_append: "d \<notin> set v \<Longrightarrow> split_on d (v @ d # s) = v # split_on d s"
  by (induction v) auto

lemma split_on_join:
  "vs \<noteq> [] \<Longrightarrow> \<forall>v \<in> set vs. d \<notin> set v \<Longrightarrow> split_on d (join_with [d] vs) = vs"
proof (induction vs)
  case (Cons v vs)
  then show ?case by (cases vs) (simp_all add: split_on_word split_on_append)
qed simp

lemma scope_value_facts:
  "scope_of_value (scope_value x) = Some x" "strip (scope_value x) = scope_value x" "scope_value x \<noteq> []"
  "CHR '','' \<notin> set (scope_value x)" "x \<in> set all_scopes"
  by (cases x; simp add: scope_of_value_def all_scopes_def strip_def is_space_def)+

lemma parse_scope_values: "parse_entries (map scope_value xs) = Inr (set xs)"
  by (induction xs) (simp_all add: scope_value_facts)

lemma sort_map_values: "\<exists>ys. sort (map scope_value xs) = map scope_value ys \<and> set ys = set xs"
proof -
  have "set (sort (map scope_value xs)) = scope_value ` set xs" by simp
  then have "\<forall>v \<in> set (sort (map scope_value xs)). \<exists>x \<in> set xs. v = scope_value x" by auto
  then obtain g where g: "\<forall>v \<in> set (sort (map scope_value xs)). g v \<in> set xs \<and> v = scope_value (g v)" by metis
  then have "map scope_value (map g (sort (map scope_value xs))) = sort (map scope_value xs)"
    by (auto intro!: map_idI)
  moreover have "set (map g (sort (map scope_value xs))) = set xs"
  proof (intro equalityI subsetI)
    fix x assume "x \<in> set xs"
    then have v: "scope_value x \<in> set (sort (map scope_value xs))" by simp
    with g have "scope_value (g (scope_value x)) = scope_value x" by auto
    then have "g (scope_value x) = x" by (metis option.inject scope_value_facts(1))
    with v show "x \<in> set (map g (sort (map scope_value xs)))" by force
  qed (use g in auto)
  ultimately show ?thesis by metis
qed

lemma strip_nonempty: "s \<noteq> [] \<Longrightarrow> \<not> is_space (hd s) \<Longrightarrow> strip s \<noteq> []"
  by (cases s) (auto simp: strip_def dropWhile_eq_Nil_conv)

lemma hd_join: "vs \<noteq> [] \<Longrightarrow> hd vs \<noteq> [] \<Longrightarrow> hd (join_with sep vs) = hd (hd vs) \<and> join_with sep vs \<noteq> []"
  by (cases "(sep, vs)" rule: join_with.cases) auto

lemma hd_scope: "\<not> is_space (hd (scope_value x))"
  by (cases x) (simp_all add: is_space_def)

text \<open>
  The scopes of a token survive the store: what \<open>parse_scopes\<close> reads from the text \<open>
  Serialize_scopes\<close>
  wrote is the set of scopes the token was created with, for every set of scopes.
\<close>

theorem scopes_roundtrip: "parse_scopes (serialize_scopes S) = Inr S"
proof -
  obtain ys where ys: "sort (map scope_value (filter (\<lambda>x. x \<in> S) all_scopes)) = map scope_value ys" "set ys = S"
    using sort_map_values [of "filter (\<lambda>x. x \<in> S) all_scopes"] scope_value_facts(5) by auto
  show ?thesis
  proof (cases "ys = []")
    case True
    then show ?thesis using ys by (simp add: serialize_scopes_def parse_scopes_def strip_def)
  next
    case False
    then have ne: "map scope_value ys \<noteq> []" "hd (map scope_value ys) \<noteq> []"
      by (simp_all add: hd_map scope_value_facts)
    have "strip (join_with '','' (map scope_value ys)) \<noteq> []"
      using hd_join [OF ne, where sep = "'',''"] False by (intro strip_nonempty) (simp_all add: hd_map hd_scope)
    moreover have "split_on (CHR '','') (join_with '','' (map scope_value ys)) = map scope_value ys"
      by (rule split_on_join [OF ne(1)]) (simp add: scope_value_facts)
    ultimately show ?thesis
      by (simp add: serialize_scopes_def ys(1) parse_scopes_def parse_scope_values ys(2))
  qed
qed

section \<open>Cookies\<close>

definition session_id_ok :: "string \<Rightarrow> bool" where
  "session_id_ok sid \<longleftrightarrow> length sid = session_id_len \<and> is_ascii sid \<and> CHR ''.'' \<notin> set sid"

definition hmac_ok :: "('z) auth_env_scheme \<Rightarrow> bool" where
  "hmac_ok env \<longleftrightarrow> (\<forall>key sid. length (session_hmac env key sid) = 32 \<and> list_all (\<lambda>b. b < 256) (session_hmac env key sid))"

lemma is_ascii_simps [simp]:
  "is_ascii []" "is_ascii (c # s) \<longleftrightarrow> (of_char c :: nat) < 128 \<and> is_ascii s" "is_ascii (s @ t) \<longleftrightarrow> is_ascii s \<and> is_ascii t"
  by (simp_all add: is_ascii_def)

lemma ascii_hex: "n < 16 \<Longrightarrow> (of_char (hex_digit n) :: nat) < 128"
  by (simp add: hex_digit_def)

lemma ascii_hex_of_bytes: "list_all (\<lambda>b. b < 256) bs \<Longrightarrow> is_ascii (hex_of_bytes bs)"
  by (induction bs) (auto simp: hex_of_bytes_def intro!: ascii_hex)

lemma length_hex_of_bytes [simp]: "length (hex_of_bytes bs) = 2 * length bs"
  by (induction bs) (simp_all add: hex_of_bytes_def)

lemma takeWhile_dot: "CHR ''.'' \<notin> set sid \<Longrightarrow> takeWhile (\<lambda>c. c \<noteq> CHR ''.'') (sid @ CHR ''.'' # s) = sid"
  by (induction sid) auto

text \<open>
  A session cookie is accepted for one session only, and only if it is the cookie that was made for it: for
  a session id of the form the server deals, the check of a cookie answers that id exactly when the cookie
  is the id with the truncated HMAC of the id behind it.
\<close>

theorem cookie_accepted_iff:
  assumes "session_id_ok sid" and "hmac_ok env"
  shows "verify_session_cookie_value env v key = Inr (Some sid) \<longleftrightarrow> make_session_cookie_value env sid key = Inr v"
proof
  assume made: "make_session_cookie_value env sid key = Inr v"
  let ?h = "hex_of_bytes (take session_hmac_len_bytes (session_hmac env key sid))"
  from made assms(1) have v: "v = sid @ CHR ''.'' # ?h" by (simp add: make_session_cookie_value_def session_id_ok_def)
  have mac: "length (session_hmac env key sid) = 32" "list_all (\<lambda>b. b < 256) (session_hmac env key sid)"
    using assms(2) by (simp_all add: hmac_ok_def)
  then have h: "is_ascii ?h" "length ?h = 32"
    by (auto intro!: ascii_hex_of_bytes simp: list_all_iff session_hmac_len_bytes_def dest!: in_set_takeD)
  have sid: "length sid = 32" "is_ascii sid" "CHR ''.'' \<notin> set sid" using assms(1) by (simp_all add: session_id_ok_def session_id_len_def)
  have "length v = cookie_value_len" "take session_id_len v = sid" "is_ascii v"
    using sid h by (simp_all add: v cookie_value_len_def session_id_len_def session_hmac_len_bytes_def)
  moreover have "length (takeWhile (\<lambda>c. c \<noteq> CHR ''.'') v) = session_id_len"
    using sid by (simp add: v takeWhile_dot session_id_len_def)
  ultimately show "verify_session_cookie_value env v key = Inr (Some sid)"
    using made by (simp add: verify_session_cookie_value_def compare_digest_def Let_def)
next
  assume "verify_session_cookie_value env v key = Inr (Some sid)"
  then show "make_session_cookie_value env sid key = Inr v"
    by (auto simp: verify_session_cookie_value_def compare_digest_def Let_def split: if_splits sum.splits)
qed

text \<open>
  The check promises never to raise; a cookie with a character beyond ASCII, which a header may carry, makes it.
\<close>

lemma cookie_check_raises:
  assumes "length sid = 32" and "CHR ''.'' \<notin> set sid" and "\<not> is_ascii sid" and "length mac = 32"
  shows "verify_session_cookie_value env (sid @ ''.'' @ mac) key = Inl UnicodeEncodeErr"
  using assms by (simp add: verify_session_cookie_value_def make_session_cookie_value_def cookie_value_len_def
      session_id_len_def session_hmac_len_bytes_def takeWhile_dot Let_def)

lemma csrf_check_raises: "\<not> is_ascii provided \<Longrightarrow> expected \<noteq> [] \<Longrightarrow> verify_csrf_token provided expected = Inl CompareTypeErr"
  by (auto simp: verify_csrf_token_def compare_digest_def)

section \<open>What a request is taken for\<close>

text \<open>The world after the expiry of a session was checked: one reading of the clock later.\<close>

definition clocked :: "('s, 'e) world \<Rightarrow> ('s, 'e) world" where
  "clocked w = w\<lparr>ticks := Suc (ticks w)\<rparr>"

definition live_session :: "('z) auth_env_scheme \<Rightarrow> string \<Rightarrow> (auth_store, unit event) world \<Rightarrow> session \<Rightarrow> auth_user \<Rightarrow> bool" where
  "live_session env sid w row u \<longleftrightarrow>
     session_by_id sid (shared (entered env w)) = Some row \<and>
     (\<exists>ts. iso_us env (ss_expires_at row) = Some ts \<and> clock env (ticks (entered env w)) \<le> ts) \<and>
     map_option auth_user.truncate (user_by_id (ss_user row) (shared (entered env (clocked (entered env w))))) = Some u"

lemma run_get_session: "get_session env i w = (Inr (session_by_id i (shared (entered env w))), entered env w)"
  and run_get_user: "get_user_by_id env j w =
    (Inr (map_option auth_user.truncate (user_by_id j (shared (entered env w)))), entered env w)"
  and run_get_token: "get_api_token_by_hash env h w =
    (Inr (map_option api_token.truncate (token_by_hash h (shared (entered env w)))), entered env w)"
  by (simp_all add: get_session_def get_user_by_id_def get_api_token_by_hash_def run_fetch)

lemma run_expired:
  "is_session_expired env x w =
     (case iso_us env x of None \<Rightarrow> (Inr True, w) | Some ts \<Rightarrow> (Inr (ts < clock env (ticks w)), clocked w))"
  by (simp add: is_session_expired_def run_simps clocked_def split: option.split)

lemma bind_reads:
  "bindP (get_session env i) k w = k (session_by_id i (shared (entered env w))) (entered env w)"
  "bindP (get_api_token_by_hash env h) m w = m (map_option api_token.truncate (token_by_hash h (shared (entered env w)))) (entered env w)"
  "bindP (get_user_by_id env j) n w = n (map_option auth_user.truncate (user_by_id j (shared (entered env w)))) (entered env w)"
  "bindP (is_session_expired env x) q w =
     (case iso_us env x of None \<Rightarrow> q True w | Some ts \<Rightarrow> q (ts < clock env (ticks w)) (clocked w))"
  by (rule run_bindP_Inr [OF run_get_session] run_bindP_Inr [OF run_get_token] run_bindP_Inr [OF run_get_user])+
    (simp add: bindP_def run_expired split: option.split)

lemma last_used_returns: "\<exists>w'. update_token_last_used env i now w = (Inr (), w')"
proof (cases "update_token_last_used env i now w")
  case (Pair r w')
  then show ?thesis
    by (cases r) (auto simp: update_token_last_used_def tryP_def ret_def split: prod.splits sum.splits)
qed

lemma resolve_token_result:
  "\<exists>w'. resolve_token env t w = (Inr (case if t = [] then None else token_by_hash (token_sha env t) (shared (entered env w)) of
       None \<Rightarrow> no_credential
     | Some row \<Rightarrow> no_credential\<lparr>cs_token := Some (api_token.truncate row), cs_kind := KToken\<rparr>), w')"
proof (cases "t = [] \<or> token_by_hash (token_sha env t) (shared (entered env w)) = None")
  case True
  then show ?thesis by (auto simp: resolve_token_def bind_reads run_simps simp del: entered_simps)
next
  case False
  then obtain row where row: "token_by_hash (token_sha env t) (shared (entered env w)) = Some row" by auto
  obtain w' where "update_token_last_used env (tk_id (api_token.truncate row)) (now_iso env (ticks (entered env w)))
      ((entered env w)\<lparr>ticks := Suc (ticks (entered env w))\<rparr>) = (Inr (), w')"
    using last_used_returns by metis
  with False show ?thesis
    by (auto simp: resolve_token_def bind_reads row run_simps run_seqP_Inr simp del: entered_simps)
qed

lemma resolve_session_iff:
  "(\<exists>w'. resolve_session env cookie w = (Inr (Inr st), w') \<and> cs_kind st = KSession) \<longleftrightarrow>
     (\<exists>key sid row u. master_key env = Some key \<and> verify_session_cookie_value env cookie key = Inr (Some sid) \<and>
        live_session env sid w row u \<and>
        st = \<lparr>cs_user = Some u, cs_session = Some row, cs_token = None, cs_kind = KSession\<rparr>)"
proof (cases "master_key env")
  case (Some key)
  show ?thesis
  proof (cases "verify_session_cookie_value env cookie key")
    case (Inr found)
    show ?thesis
    proof (cases found)
      case v: (Some sid)
      show ?thesis
      proof (cases "session_by_id sid (shared (entered env w))")
        case row: (Some row)
        show ?thesis
          by (cases "iso_us env (ss_expires_at row)";
              cases "user_by_id (ss_user row) (shared (entered env (clocked (entered env w))))")
            (auto simp: resolve_session_def Some Inr v row bind_reads
              run_simps no_credential_def live_session_def simp del: entered_simps)
      qed (auto simp del: entered_simps simp: resolve_session_def Some Inr v bind_reads run_simps no_credential_def live_session_def)
    qed (auto simp: resolve_session_def Some Inr run_simps no_credential_def)
  qed (auto simp: resolve_session_def Some run_simps)
qed (auto simp: resolve_session_def run_simps no_credential_def)

text \<open>
  C14: A request is taken for a user exactly when it may be: it is not for an exempt path, it offers no bearer
  token, and its cookie, checked under the master key, names a session that is in the table when it is
  read and has not expired at the reading of the clock, and whose user is in the table when that is read.
  Whatever the other tasks change between these reads, no other request is.
\<close>

theorem session_authenticates_iff:
  "(\<exists>w'. resolve_auth env req w = (Inr (Inr st), w') \<and> cs_kind st = KSession) \<longleftrightarrow>
     hr_path req \<notin> set auth_exempt_paths \<and> bearer_token (hr_authorization req) = None \<and>
     (\<exists>cookie key sid row u. hr_cookie req = Some cookie \<and> master_key env = Some key \<and>
        verify_session_cookie_value env cookie key = Inr (Some sid) \<and> live_session env sid w row u \<and>
        st = \<lparr>cs_user = Some u, cs_session = Some row, cs_token = None, cs_kind = KSession\<rparr>)"
proof (cases "hr_path req \<in> set auth_exempt_paths \<or> bearer_token (hr_authorization req) \<noteq> None")
  case True
  have "\<not> (bindP (resolve_token env t) (\<lambda>st. ret (Inr st)) w = (Inr (Inr st :: py_raise + cred_state), w') \<and> cs_kind st = KSession)" for t w'
    using resolve_token_result [of env t w]
    by (auto simp: bindP_def run_simps no_credential_def split: option.splits if_splits)
  with True show ?thesis by (auto simp: resolve_auth_def run_simps no_credential_def split: if_splits)
next
  case False
  then have r: "resolve_auth env req w = (case hr_cookie req of None \<Rightarrow> (Inr (Inr no_credential), w) | Some cookie \<Rightarrow> resolve_session env cookie w)"
    by (auto simp: resolve_auth_def run_simps split: option.split)
  show ?thesis
  proof (cases "hr_cookie req")
    case None
    with False show ?thesis by (auto simp: r no_credential_def)
  next
    case (Some cookie)
    with False show ?thesis using resolve_session_iff [of env cookie w st] by (simp add: r)
  qed
qed

end
