(* ===== verification/AuthLaws.thy ===== *)
theory AuthLaws
  imports AuthFacts
begin

text \<open>
  What every task of the authentication subsystem keeps: the shape of its tables, and the absence of a
  session or token that is gone.  The laws are stated once, in a locale over an invariant of the statements,
  and interpreted for each invariant.
\<close>

section \<open>The contract of the statements\<close>

locale auth_writes =
  fixes I :: "auth_store \<Rightarrow> bool" and ok_session :: "session \<Rightarrow> bool" and ok_token :: "token_row \<Rightarrow> bool"
  assumes user_in: "guar (preserves I) (insert_user_stmt name h now)"
    and session_in: "ok_session row \<Longrightarrow> guar (preserves I) (insert_session_stmt row)"
    and token_in: "ok_token tok \<Longrightarrow> guar (preserves I) (insert_token_stmt tok)"
    and user_out: "guar (preserves I) (delete_user_rows i)"
    and sessions_out: "guar (preserves I) (delete_sessions P)"
    and tokens_out: "guar (preserves I) (delete_tokens Q)"
    and password: "preserves I s (set_password i h s)"
    and last_use: "preserves I s (s\<lparr>au_tokens := map (\<lambda>t. if tk_id t = k then t\<lparr>tk_last_used_at := u\<rparr> else t) (au_tokens s)\<rparr>)"
    and limiter: "preserves I s (s\<lparr>au_limiter := lm\<rparr>)"
    and audit: "preserves I s (add_audit arow s)"
begin

lemma audited: "guar (preserves I) (insert_audit env who what before after ip when)"
  by (rule guar_insert_audit) (rule audit)

lemmas statements = user_in user_out sessions_out tokens_out audited
  guar_modS_step [of "preserves I", OF password] guar_modS_step [of "preserves I", OF last_use]

lemma writes_kept:
  assumes "rely (preserves I) env"
  shows "guar (preserves I) (create_user env name h who ip)"
    and "guar (preserves I) (change_password env i h who ip)"
    and "guar (preserves I) (delete_user env i who ip)"
    and "guar (preserves I) (delete_session env sid who ip)"
    and "guar (preserves I) (delete_all_user_sessions env i)"
    and "guar (preserves I) (cleanup_expired_sessions env)"
    and "guar (preserves I) (delete_api_token_by_name env n)"
    and "guar (preserves I) (revoke_api_token env k who ip)"
    and "guar (preserves I) (update_token_last_used env k t)"
  unfolding create_user_def change_password_def delete_user_def delete_session_def delete_all_user_sessions_def
    cleanup_expired_sessions_def delete_api_token_by_name_def revoke_api_token_def update_token_last_used_def Let_def
  by (intro guar_intros statements assms)+

lemma resolve_kept: "rely (preserves I) env \<Longrightarrow> guar (preserves I) (resolve_auth env req)"
  unfolding resolve_auth_def resolve_token_def resolve_session_def get_api_token_by_hash_def get_session_def get_user_by_id_def
    is_session_expired_def
  by (intro guar_intros writes_kept)

lemma create_session_kept:
  assumes "rely (preserves I) env" and "\<And>r. ss_id r \<in> range (uuid env) \<Longrightarrow> ok_session r"
  shows "guar (preserves I) (create_session env i ip ttl csrf)"
  unfolding create_session_def Let_def
  by (intro guar_ask_bind guar_intros session_in statements assms) simp

lemma issue_kept:
  assumes "rely (preserves I) env" and "\<And>r. ss_id r \<in> range (uuid env) \<Longrightarrow> ok_session r"
  shows "guar (preserves I) (issue_session env key u ip ttl)"
  unfolding issue_session_def by (intro guar_intros create_session_kept assms)

lemma failed_kept: "guar (preserves I) (failed_attempt env ip)"
  unfolding failed_attempt_def by (intro guar_intros guar_modS_step limiter)

lemma guarded_kept:
  "rely (preserves I) env \<Longrightarrow> (\<And>u st. guar (preserves I) (body u st)) \<Longrightarrow> guar (preserves I) (guarded env req body)"
  unfolding guarded_def by (intro guar_intros resolve_kept)

lemma create_token_kept:
  assumes "rely (preserves I) env" and "\<And>r. tk_hash r = token_sha env p \<Longrightarrow> ok_token r"
  shows "guar (preserves I) (create_api_token env name S p who ip)"
  unfolding create_api_token_def Let_def
  by (intro guar_intros token_in statements assms) simp

end

section \<open>The tasks\<close>

datatype auth_task =
    TaskLogin string int string string string
  | TaskLogout request
  | TaskMe request
  | TaskPassword string int request string string
  | TaskRequest request
  | TaskCreateUser string string string "string option"
  | TaskSetPassword int string string "string option"
  | TaskDeleteUser int string "string option"
  | TaskCleanup
  | TaskCreateToken string "scope set" string string "string option"
  | TaskDropToken string
  | TaskRevoke string string "string option"

definition forget :: "'a auth_prog \<Rightarrow> unit auth_prog" where
  "forget m = seqP m (ret ())"

definition run_auth_task :: "('z) auth_env_scheme \<Rightarrow> auth_task \<Rightarrow> unit auth_prog" where
  "run_auth_task env t =
     (case t of
        TaskLogin key ttl ip name password \<Rightarrow> forget (login env key ttl ip name password)
      | TaskLogout req \<Rightarrow> forget (logout env req)
      | TaskMe req \<Rightarrow> forget (me env req)
      | TaskPassword key ttl req current new \<Rightarrow> forget (change_password_route env key ttl req current new)
      | TaskRequest req \<Rightarrow> forget (resolve_auth env req)
      | TaskCreateUser name h who ip \<Rightarrow> forget (create_user env name h who ip)
      | TaskSetPassword i h who ip \<Rightarrow> change_password env i h who ip
      | TaskDeleteUser i who ip \<Rightarrow> delete_user env i who ip
      | TaskCleanup \<Rightarrow> forget (cleanup_expired_sessions env)
      | TaskCreateToken name S p who ip \<Rightarrow> forget (create_api_token env name S p who ip)
      | TaskDropToken name \<Rightarrow> forget (delete_api_token_by_name env name)
      | TaskRevoke i who ip \<Rightarrow> revoke_api_token env i who ip)"

text \<open>The tokens a task mints.\<close>

definition mints :: "('z) auth_env_scheme \<Rightarrow> auth_task \<Rightarrow> string \<Rightarrow> bool" where
  "mints env t h = (case t of TaskCreateToken name S p who ip \<Rightarrow> token_sha env p = h | _ \<Rightarrow> False)"

context auth_writes
begin

lemma task_kept:
  assumes r: "rely (preserves I) env" and s: "\<And>r. ss_id r \<in> range (uuid env) \<Longrightarrow> ok_session r"
    and t: "\<And>r. mints env t (tk_hash r) \<Longrightarrow> ok_token r"
  shows "guar (preserves I) (run_auth_task env t)"
proof -
  have forget: "guar (preserves I) m \<Longrightarrow> guar (preserves I) (forget m)" for m :: "'x auth_prog"
    unfolding forget_def by (intro guar_intros)
  have logout: "guar (preserves I) (logout_body env ip u st)" for ip u st
    unfolding logout_body_def by (intro guar_intros writes_kept r)
  have password: "guar (preserves I) (change_password_body env key ttl u ip current new)" for key ttl u ip current new
    unfolding change_password_body_def verify_user_password_def
    by (intro guar_intros writes_kept issue_kept failed_kept r s)
  have login: "guar (preserves I) (login env key ttl ip name pw)" for key ttl ip name pw
    unfolding login_def verify_user_password_def by (intro guar_intros issue_kept failed_kept r s)
  have "guar (preserves I) (me env req)" "guar (preserves I) (logout env req)"
    "guar (preserves I) (change_password_route env key ttl req current new)" for req key ttl current new
    unfolding me_def logout_def change_password_route_def by (intro guarded_kept guar_intros logout password r)+
  then show ?thesis
    using t by (cases t) (simp_all add: run_auth_task_def mints_def forget login writes_kept resolve_kept create_token_kept r)
qed

lemma tasks_kept:
  assumes "rely (preserves I) env" and "\<And>r. ss_id r \<in> range (uuid env) \<Longrightarrow> ok_session r"
    and "\<And>t r. t \<in> set ts \<Longrightarrow> mints env t (tk_hash r) \<Longrightarrow> ok_token r" and "I (shared w)"
  shows "I (shared (fold (\<lambda>t w. snd (run_auth_task env t w)) ts w))"
  using assms(3,4)
proof (induction ts arbitrary: w)
  case (Cons t ts)
  have "guar (preserves I) (run_auth_task env t)" by (rule task_kept [OF assms(1,2)]) (use Cons.prems(1) in auto)
  then have i: "I (shared (snd (run_auth_task env t w)))" using Cons.prems(2) by (simp add: guar_preserves)
  have "ok_token r" if "t' \<in> set ts" "mints env t' (tk_hash r)" for t' r
    using Cons.prems(1) [of t'] that by simp
  from Cons.IH [OF this i] show ?case by simp
qed simp

end

section \<open>The shape of the tables\<close>

definition auth_wf :: "auth_store \<Rightarrow> bool" where
  "auth_wf s \<longleftrightarrow>
     distinct (map us_id (au_users s)) \<and> distinct (map us_name (au_users s)) \<and>
     distinct (map ss_id (au_sessions s)) \<and> ss_user ` set (au_sessions s) \<subseteq> us_id ` set (au_users s) \<and>
     distinct (map tk_id (au_tokens s)) \<and> distinct (map tk_name (au_tokens s)) \<and> distinct (map tk_hash (au_tokens s))"

lemma find_None_key: "List.find (\<lambda>c. k c = x) xs = None \<longleftrightarrow> x \<notin> k ` set xs"
  by (induction xs) auto

lemma find_Some_key: "List.find (\<lambda>c. k c = x) xs = Some c \<Longrightarrow> c \<in> set xs \<and> k c = x"
  by (induction xs) (auto split: if_splits)

lemma fold_max_ge: "i \<in> set is \<or> i = b \<Longrightarrow> i \<le> fold max is (b :: int)"
proof (induction "is" arbitrary: i b)
  case (Cons j "is")
  have "max j b \<le> fold max is (max j b)" by (rule Cons.IH) simp
  with Cons show ?case by auto
qed simp

lemma next_user_id_fresh: "next_user_id s \<notin> us_id ` set (au_users s)"
proof
  assume "next_user_id s \<in> us_id ` set (au_users s)"
  then have "next_user_id s \<in> set (map us_id (au_users s))" by simp
  then have "next_user_id s \<le> fold max (map us_id (au_users s)) 0" by (intro fold_max_ge) simp
  then show False by (simp add: next_user_id_def)
qed

lemma map_field: "(\<And>x. k (f x) = k x) \<Longrightarrow> map (k \<circ> f) xs = map k xs"
  by simp

lemma password_fields: "us_id (if b then u\<lparr>us_hash := h\<rparr> else u) = us_id u" "us_name (if b then u\<lparr>us_hash := h\<rparr> else u) = us_name u"
  by simp_all

lemma last_use_fields:
  "tk_id (if b then t\<lparr>tk_last_used_at := u\<rparr> else t) = tk_id t" "tk_name (if b then t\<lparr>tk_last_used_at := u\<rparr> else t) = tk_name t"
  "tk_hash (if b then t\<lparr>tk_last_used_at := u\<rparr> else t) = tk_hash t"
  by simp_all

lemma run_deletes:
  "delete_sessions P w = (Inr (length (filter P (au_sessions (shared w)))),
     w\<lparr>shared := (shared w)\<lparr>au_sessions := filter (\<lambda>r. \<not> P r) (au_sessions (shared w))\<rparr>\<rparr>)"
  "delete_tokens Q w = (Inr (length (filter Q (au_tokens (shared w)))),
     w\<lparr>shared := (shared w)\<lparr>au_tokens := filter (\<lambda>r. \<not> Q r) (au_tokens (shared w))\<rparr>\<rparr>)"
  "delete_users U w = (Inr (length (filter U (au_users (shared w)))),
     w\<lparr>shared := (shared w)\<lparr>au_users := filter (\<lambda>r. \<not> U r) (au_users (shared w))\<rparr>\<rparr>)"
  by (simp_all add: delete_sessions_def delete_tokens_def delete_users_def run_simps seqP_def)

lemma run_delete_user_rows:
  "delete_user_rows i w = (Inr (length (filter (\<lambda>u. us_id u = i) (au_users (shared w)))),
     w\<lparr>shared := (shared w)\<lparr>au_sessions := filter (\<lambda>r. ss_user r \<noteq> i) (au_sessions (shared w)),
       au_users := filter (\<lambda>u. us_id u \<noteq> i) (au_users (shared w))\<rparr>\<rparr>)"
  by (simp add: delete_user_rows_def bindP_def run_deletes)

lemma run_inserts:
  "insert_session_stmt row w =
     (if session_by_id (ss_id row) (shared w) \<noteq> None then (Inl (IntegrityErr ''UNIQUE constraint failed: sessions.id''), w)
      else if user_by_id (ss_user row) (shared w) = None then (Inl (IntegrityErr ''FOREIGN KEY constraint failed''), w)
      else (Inr (), w\<lparr>shared := (shared w)\<lparr>au_sessions := au_sessions (shared w) @ [row]\<rparr>\<rparr>))"
  "shared (snd (insert_token_stmt tok w)) =
     (if tk_id tok \<in> tk_id ` set (au_tokens (shared w)) \<or> tk_name tok \<in> tk_name ` set (au_tokens (shared w)) \<or>
         tk_hash tok \<in> tk_hash ` set (au_tokens (shared w)) then shared w
      else (shared w)\<lparr>au_tokens := au_tokens (shared w) @ [tok]\<rparr>)"
  "shared (snd (insert_user_stmt name h now w)) =
     (if user_by_name name (shared w) \<noteq> None then shared w
      else (shared w)\<lparr>au_users := au_users (shared w) @ [\<lparr>us_id = next_user_id (shared w), us_name = name, us_created_at = now, us_hash = h\<rparr>]\<rparr>)"
  by (simp_all add: insert_session_stmt_def insert_token_stmt_def insert_user_stmt_def run_simps seqP_def)

lemma wf_drop: "auth_wf s \<Longrightarrow> auth_wf (s\<lparr>au_sessions := filter P (au_sessions s)\<rparr>)"
  "auth_wf s \<Longrightarrow> auth_wf (s\<lparr>au_tokens := filter Q (au_tokens s)\<rparr>)"
  by (auto simp: auth_wf_def distinct_map_filter)

lemma wf_drop_user:
  "auth_wf s \<Longrightarrow> auth_wf (s\<lparr>au_sessions := filter (\<lambda>r. ss_user r \<noteq> i) (au_sessions s), au_users := filter (\<lambda>u. us_id u \<noteq> i) (au_users s)\<rparr>)"
  unfolding auth_wf_def by (simp add: distinct_map_filter) (auto simp: image_iff subset_iff)

lemma wf_add_session:
  assumes "auth_wf s" and "session_by_id (ss_id row) s = None" and "user_by_id (ss_user row) s = Some u"
  shows "auth_wf (s\<lparr>au_sessions := au_sessions s @ [row]\<rparr>)"
proof -
  have "ss_user row \<in> us_id ` set (au_users s)"
    using find_Some_key [OF assms(3) [unfolded user_by_id_def]] by (metis image_eqI)
  with assms(1,2) show ?thesis by (auto simp: auth_wf_def session_by_id_def find_None_key)
qed

lemma wf_add_token:
  "auth_wf s \<Longrightarrow> tk_id t \<notin> tk_id ` set (au_tokens s) \<Longrightarrow> tk_name t \<notin> tk_name ` set (au_tokens s) \<Longrightarrow>
     tk_hash t \<notin> tk_hash ` set (au_tokens s) \<Longrightarrow> auth_wf (s\<lparr>au_tokens := au_tokens s @ [t]\<rparr>)"
  by (simp add: auth_wf_def)

lemma wf_add_user:
  "auth_wf s \<Longrightarrow> us_id u \<notin> us_id ` set (au_users s) \<Longrightarrow> us_name u \<notin> us_name ` set (au_users s) \<Longrightarrow>
     auth_wf (s\<lparr>au_users := au_users s @ [u]\<rparr>)"
  by (auto simp: auth_wf_def)

lemma wf_password: "auth_wf s \<Longrightarrow> auth_wf (set_password i h s)"
  unfolding auth_wf_def set_password_def list.set_map [symmetric]
  by (simp add: map_field password_fields del: list.set_map)

lemma wf_last_use:
  "auth_wf s \<Longrightarrow> auth_wf (s\<lparr>au_tokens := map (\<lambda>t. if tk_id t = k then t\<lparr>tk_last_used_at := u\<rparr> else t) (au_tokens s)\<rparr>)"
  unfolding auth_wf_def by (simp add: map_field last_use_fields)

interpretation tables: auth_writes auth_wf "\<lambda>r. True" "\<lambda>t. True"
proof unfold_locales
  fix name h now
  show "guar (preserves auth_wf) (insert_user_stmt name h now)"
    unfolding guar_preserves run_inserts by (simp add: user_by_name_def find_None_key wf_add_user next_user_id_fresh)
next
  fix row
  show "guar (preserves auth_wf) (insert_session_stmt row)"
    unfolding guar_preserves run_inserts by (auto simp: wf_add_session)
next
  fix tok
  show "guar (preserves auth_wf) (insert_token_stmt tok)"
    unfolding guar_preserves run_inserts by (simp add: wf_add_token)
next
  fix i P Q
  show "guar (preserves auth_wf) (delete_user_rows i)" "guar (preserves auth_wf) (delete_sessions P)"
    "guar (preserves auth_wf) (delete_tokens Q)"
    unfolding guar_preserves run_deletes run_delete_user_rows by (simp_all add: wf_drop wf_drop_user)
next
  fix s i h k u lm arow
  show "preserves auth_wf s (set_password i h s)"
    by (simp add: preserves_def wf_password)
  show "preserves auth_wf s (s\<lparr>au_tokens := map (\<lambda>t. if tk_id t = k then t\<lparr>tk_last_used_at := u\<rparr> else t) (au_tokens s)\<rparr>)"
    by (simp add: preserves_def wf_last_use)
  show "preserves auth_wf s (s\<lparr>au_limiter := lm\<rparr>)" "preserves auth_wf s (add_audit arow s)"
    by (simp_all add: preserves_def auth_wf_def add_audit_def)
qed

section \<open>Credentials that are gone\<close>

interpretation gone: auth_writes "\<lambda>s. session_by_id sid s = None" "\<lambda>r. ss_id r \<noteq> sid" "\<lambda>t. True" for sid :: string
proof unfold_locales
  fix name h now row tok i P Q s k u lm arow
  let ?I = "preserves (\<lambda>s. session_by_id sid s = None)"
  show "guar ?I (insert_user_stmt name h now)" "guar ?I (insert_token_stmt tok)"
    unfolding guar_preserves run_inserts by (simp_all add: session_by_id_def)
  show "guar ?I (insert_session_stmt row)" if "ss_id row \<noteq> sid"
    using that unfolding guar_preserves run_inserts by (auto simp: session_by_id_def find_None_key)
  show "guar ?I (delete_user_rows i)" "guar ?I (delete_sessions P)" "guar ?I (delete_tokens Q)"
    unfolding guar_preserves run_deletes run_delete_user_rows by (auto simp: session_by_id_def find_None_key)
  show "?I s (set_password i h s)" "?I s (s\<lparr>au_limiter := lm\<rparr>)" "?I s (add_audit arow s)"
    "?I s (s\<lparr>au_tokens := map (\<lambda>t. if tk_id t = k then t\<lparr>tk_last_used_at := u\<rparr> else t) (au_tokens s)\<rparr>)"
    by (simp_all add: preserves_def session_by_id_def set_password_def add_audit_def)
qed

interpretation revoked: auth_writes "\<lambda>s. token_by_hash d s = None" "\<lambda>r. True" "\<lambda>t. tk_hash t \<noteq> d" for d :: string
proof unfold_locales
  fix name h now row tok i P Q s k u lm arow
  let ?I = "preserves (\<lambda>s. token_by_hash d s = None)"
  show "guar ?I (insert_user_stmt name h now)" "guar ?I (insert_session_stmt row)"
    unfolding guar_preserves run_inserts by (simp_all add: token_by_hash_def)
  show "guar ?I (insert_token_stmt tok)" if "tk_hash tok \<noteq> d"
    using that unfolding guar_preserves run_inserts by (auto simp: token_by_hash_def find_None_key)
  show "guar ?I (delete_user_rows i)" "guar ?I (delete_sessions P)" "guar ?I (delete_tokens Q)"
    unfolding guar_preserves run_deletes run_delete_user_rows by (auto simp: token_by_hash_def find_None_key)
  show "?I s (set_password i h s)" "?I s (s\<lparr>au_limiter := lm\<rparr>)" "?I s (add_audit arow s)"
    by (simp_all add: preserves_def token_by_hash_def set_password_def add_audit_def)
  show "?I s (s\<lparr>au_tokens := map (\<lambda>t. if tk_id t = k then t\<lparr>tk_last_used_at := u\<rparr> else t) (au_tokens s)\<rparr>)"
    by (auto simp: preserves_def token_by_hash_def find_None_key)
qed

text \<open>A list of tasks, one after the other; each may be interleaved with anything the environment does.\<close>

definition after_tasks ::
  "('z) auth_env_scheme \<Rightarrow> auth_task list \<Rightarrow> (auth_store, unit event) world \<Rightarrow> (auth_store, unit event) world" where
  "after_tasks env ts w = fold (\<lambda>t w. snd (run_auth_task env t w)) ts w"

text \<open>
  C17: The tables of users, sessions and tokens keep their shape.  Whatever task runs, whatever the others do
  in between, and whether it returns or raises: ids, user names, token names and token hashes stay unique,
  and every session belongs to a user that exists.
\<close>

theorem auth_tables_well_formed:
  assumes "rely (preserves auth_wf) env" and "run_auth_task env t w = (x, w')" and "auth_wf (shared w)"
  shows "auth_wf (shared w')"
  using tables.task_kept [OF assms(1), of t] assms(2,3) by (metis guar_preserves snd_conv)

lemma audit_tail:
  assumes "insert_audit env who what before after ip t w = (Inr x, w')"
  shows "\<exists>row. shared w' = add_audit row (shared w)"
  using run_insert_audit [of env who what before after ip t w] assms by auto

lemma logout_removes:
  assumes "logout_body env ip u st w = (Inr (Inr ()), w')" and "cs_session st = Some row"
  shows "session_by_id (ss_id row) (shared w') = None"
proof -
  let ?del = "delete_sessions (\<lambda>r. ss_id r = ss_id row)"
  let ?log = "insert_audit env (str_of_int (us_id u)) ''session.logout'' (Some [(''session_id'', JStr (ss_id row))]) None (Some ip) None"
  obtain w1 where w1: "txn env (bindP ?del (\<lambda>_. ?log)) w = (Inr (), w1)" "w' = w1"
    using assms by (auto simp: logout_body_def delete_session_def bindP_def run_simps split: prod.splits sum.splits)
  from w1(1) show ?thesis
  proof (cases rule: txn_cases)
    case (ok x w2)
    then have "?log (snd (?del (entered env w))) = (Inr x, w2)" by (simp add: bindP_def run_deletes del: entered_simps)
    from audit_tail [OF this] show ?thesis
      by (auto simp: w1(2) ok run_deletes session_by_id_def add_audit_def find_None_key)
  qed simp
qed

text \<open>
  C15: Logged out is logged out.  Once the logout of a session has returned, no request with its cookie is ever
  taken for a user again: whatever tasks run afterwards and whatever the others do in between, as long as
  the server does not deal the same session id a second time and the others do not restore the row.
\<close>

theorem logged_out_stays_out:
  assumes "logout_body env ip u st w = (Inr (Inr ()), w1)" and "cs_session st = Some row"
    and rely: "rely (preserves (\<lambda>s. session_by_id (ss_id row) s = None)) env" and "ss_id row \<notin> range (uuid env)"
    and "master_key env = Some key" and "verify_session_cookie_value env cookie key = Inr (Some (ss_id row))"
  shows "\<exists>w'. resolve_session env cookie (after_tasks env ts w1) = (Inr (Inr no_credential), w')"
proof -
  have "session_by_id (ss_id row) (shared (after_tasks env ts w1)) = None"
    unfolding after_tasks_def using logout_removes [OF assms(1,2)] assms(4)
    by (intro gone.tasks_kept [OF rely]) auto
  then have "session_by_id (ss_id row) (shared (entered env (after_tasks env ts w1))) = None"
    using rely by (simp add: rely_preserves)
  then show ?thesis by (simp add: resolve_session_def assms(5,6) bind_reads run_simps del: entered_simps)
qed

lemma revoke_removes:
  assumes "revoke_api_token env (tk_id tok) who ip w = (Inr (), w')" and "auth_wf (shared (entered env w))"
    and "tok \<in> set (au_tokens (shared (entered env w)))"
  shows "token_by_hash (tk_hash tok) (shared w') = None"
proof -
  let ?del = "delete_tokens (\<lambda>t. tk_id t = tk_id tok)"
  let ?log = "insert_audit env who ''api_token.revoke'' (Some [(''id'', JStr (tk_id tok))]) None ip None"
  have same: "tk_id t = tk_id tok" if "t \<in> set (au_tokens (shared (entered env w)))" "tk_hash t = tk_hash tok" for t
    using assms(2,3) that by (auto simp: auth_wf_def distinct_map dest: inj_onD simp del: entered_simps)
  from assms(1) show ?thesis
    unfolding revoke_api_token_def
  proof (cases rule: txn_cases)
    case (ok x w2)
    have "?log (snd (?del (entered env w))) = (Inr x, w2)"
      using ok(2) by (auto simp: bindP_def run_deletes run_simps split: if_splits)
    from audit_tail [OF this] show ?thesis
      using same by (auto simp: ok run_deletes token_by_hash_def add_audit_def find_None_key simp del: entered_simps)
  qed simp
qed

text \<open>
  A revoked token opens nothing.  Once its revocation has returned, a request that carries the token is
  unauthenticated, whatever tasks run afterwards, unless one of them mints a token with the same digest.
\<close>

theorem revoked_token_stays_out:
  assumes "revoke_api_token env (tk_id tok) who ip w = (Inr (), w1)" and "auth_wf (shared (entered env w))"
    and "tok \<in> set (au_tokens (shared (entered env w)))" and "token_sha env p = tk_hash tok"
    and rely: "rely (preserves (\<lambda>s. token_by_hash (tk_hash tok) s = None)) env"
    and "\<And>t. t \<in> set ts \<Longrightarrow> \<not> mints env t (tk_hash tok)"
  shows "\<exists>w'. resolve_token env p (after_tasks env ts w1) = (Inr no_credential, w')"
proof -
  have "token_by_hash (tk_hash tok) (shared (after_tasks env ts w1)) = None"
    unfolding after_tasks_def using revoke_removes [OF assms(1-3)] assms(6)
    by (intro revoked.tasks_kept [OF rely]) auto
  then have "token_by_hash (token_sha env p) (shared (entered env (after_tasks env ts w1))) = None"
    using rely by (simp add: rely_preserves assms(4))
  with resolve_token_result [of env p "after_tasks env ts w1"] show ?thesis by auto
qed

end
