(* ===== verification/AuthRoutes.thy ===== *)
theory AuthRoutes
  imports AuthLaws
begin

text \<open>
  The routes as a whole: a guarded request either proves a live session and its CSRF token or has no effect, what
  a login and a change of password leave behind, and what a login that was under way when the password
  changed leaves behind as well.
\<close>

section \<open>Guarded requests\<close>

definition csrf_ok :: "request \<Rightarrow> session \<Rightarrow> bool" where
  "csrf_ok req row \<longleftrightarrow>
     upper_ascii (hr_method req) \<in> set state_changing_methods \<longrightarrow> ss_csrf row \<noteq> [] \<and> hr_csrf req = ss_csrf row"

lemma require_session_result:
  "require_session req st = Inr u \<Longrightarrow> cs_kind st = KSession \<and> cs_user st = Some u \<and> (\<forall>row. cs_session st = Some row \<longrightarrow> csrf_ok req row)"
  by (auto simp: require_session_def enforce_csrf_def csrf_ok_def verify_csrf_token_def compare_digest_def
      split: option.splits if_splits sum.splits)

lemma guar_resolve_trace: "emits {} (resolve_auth env req)"
  unfolding resolve_auth_def resolve_token_def resolve_session_def get_api_token_by_hash_def get_session_def
    get_user_by_id_def is_session_expired_def update_token_last_used_def
  by (intro emits_intros)

text \<open>
  C13: No effect without proof.  A request to a guarded route either is turned down, and then it has written no
  audit row, or it carries the cookie of a live session, is taken for the user of that session, and, if its
  method changes state, repeats the CSRF token of that very session; only then does the body run.
\<close>

theorem guarded_needs_proof:
  fixes body :: "auth_user \<Rightarrow> cred_state \<Rightarrow> (refusal + 'a) auth_prog"
  shows "(\<exists>e w'. guarded env req body w = (Inr (Inl e), w') \<and> trace w' = trace w) \<or>
    (\<exists>e w'. guarded env req body w = (Inl e, w') \<and> trace w' = trace w) \<or>
    (\<exists>cookie key sid row u w'. hr_cookie req = Some cookie \<and> master_key env = Some key \<and>
       verify_session_cookie_value env cookie key = Inr (Some sid) \<and> live_session env sid w row u \<and> csrf_ok req row \<and>
       trace w' = trace w \<and>
       guarded env req body w =
         body u \<lparr>cs_user = Some u, cs_session = Some row, cs_token = None, cs_kind = KSession\<rparr> w')"
proof -
  obtain r w1 where r: "resolve_auth env req w = (r, w1)" by fastforce
  have same: "trace w1 = trace w" using emitsD [OF guar_resolve_trace r] by auto
  show ?thesis
  proof (cases r)
    case (Inl e)
    with r same show ?thesis by (auto simp: guarded_def bindP_def)
  next
    case (Inr q)
    show ?thesis
    proof (cases q)
      case (Inl e)
      with r Inr same show ?thesis by (auto simp: guarded_def bindP_def run_simps)
    next
      case st: (Inr st)
      have run: "guarded env req body w = (case require_session req st of Inl e \<Rightarrow> (Inr (Inl e), w1) | Inr u \<Rightarrow> body u st w1)"
        using r Inr st by (auto simp: guarded_def bindP_def run_simps split: sum.split)
      show ?thesis
      proof (cases "require_session req st")
        case (Inl e)
        with run same show ?thesis by auto
      next
        case u: (Inr u)
        have kind: "cs_kind st = KSession" "cs_user st = Some u" "\<forall>row. cs_session st = Some row \<longrightarrow> csrf_ok req row"
          using require_session_result [OF u] by simp_all
        then obtain cookie key sid row u' where c: "hr_cookie req = Some cookie" "master_key env = Some key"
          "verify_session_cookie_value env cookie key = Inr (Some sid)" "live_session env sid w row u'"
          "st = \<lparr>cs_user = Some u', cs_session = Some row, cs_token = None, cs_kind = KSession\<rparr>"
          using session_authenticates_iff [of env req w st] r Inr st by auto
        with kind have "u' = u" "csrf_ok req row" by simp_all
        with c run u same show ?thesis
          by (intro disjI2 exI [of _ cookie] exI [of _ key] exI [of _ sid] exI [of _ row] exI [of _ u] exI [of _ w1] conjI) simp_all
      qed
    qed
  qed
qed

section \<open>Login\<close>

lemma run_verify_password:
  "verify_user_password env n p w =
     (Inr (case user_by_name n (shared (entered env w)) of
         None \<Rightarrow> None
       | Some u \<Rightarrow> if bcrypt_check env p (us_hash u) then Some (auth_user.truncate u) else None), entered env w)"
  by (auto simp: verify_user_password_def bindP_def run_fetch run_simps split: option.split simp del: entered_simps)

text \<open>
  C18: A failed login leaves nothing but a slot of the limiter: when the name is unknown or bcrypt refuses the
  password, the answer is a wrong password, or too many attempts when the limiter of the address refuses,
  no table changes, no audit row is written and no cookie is set.
\<close>

theorem failed_login_leaves_nothing:
  assumes "\<And>u. user_by_name n (shared (entered env w)) = Some u \<Longrightarrow> \<not> bcrypt_check env p (us_hash u)"
  shows "\<exists>w' ok lm. check_and_record (au_limiter (shared (entered env w))) ip (login_clock env (ticks (entered env w))) = (ok, lm) \<and>
    login env key ttl ip n p w = (Inr (Inl (Denied (if ok then wrong_password_problem else rate_limited_problem))), w') \<and>
    shared w' = (shared (entered env w))\<lparr>au_limiter := lm\<rparr> \<and> trace w' = trace w"
proof -
  have "(case user_by_name n (shared (entered env w)) of
         None \<Rightarrow> None
       | Some u \<Rightarrow> if bcrypt_check env p (us_hash u) then Some (auth_user.truncate u) else None) = None"
    using assms by (auto split: option.split simp del: entered_simps)
  then have "login env key ttl ip n p w = failed_attempt env ip (entered env w)"
    by (simp add: login_def bindP_def run_verify_password del: entered_simps)
  then show ?thesis
    by (cases "check_and_record (au_limiter (shared (entered env w))) ip (login_clock env (ticks (entered env w)))")
      (simp add: failed_attempt_def run_simps seqP_def del: entered_simps, simp)
qed

section \<open>Change of password\<close>

definition sessions_of :: "int \<Rightarrow> auth_store \<Rightarrow> session list" where
  "sessions_of i s = filter (\<lambda>r. ss_user r = i) (au_sessions s)"

text \<open>The other tasks log the user out at most.\<close>

definition no_login :: "int \<Rightarrow> auth_store \<Rightarrow> auth_store \<Rightarrow> bool" where
  "no_login i s t \<longleftrightarrow> (sessions_of i s = [] \<longrightarrow> sessions_of i t = [])"

lemma create_session_run:
  assumes "create_session env i ip ttl csrf w = (Inr row, w')"
  obtains s where "shared w' = s" "au_sessions s = au_sessions (shared (entered env (w\<lparr>ticks := Suc (Suc (ticks w))\<rparr>))) @ [row]"
    "ss_user row = i" "ss_csrf row = csrf"
proof -
  let ?w = "w\<lparr>ticks := Suc (Suc (ticks w))\<rparr>"
  let ?row = "\<lparr>ss_id = uuid env (ticks w), ss_user = i, ss_expires_at = us_iso env (clock env (Suc (ticks w)) + ttl * 1000000),
                ss_ip = ip, ss_csrf = csrf\<rparr>"
  let ?log = "insert_audit env (str_of_int i) ''session.login'' None (Some [(''session_id'', JStr (uuid env (ticks w)))]) (Some ip) None"
  have r: "row = ?row" "txn env (seqP (insert_session_stmt ?row) ?log) ?w = (Inr (), w')"
    using assms by (auto simp: create_session_def Let_def run_simps seqP_def bindP_def split: prod.splits sum.splits)
  from r(2) show ?thesis
  proof (cases rule: txn_cases)
    case (ok x w2)
    obtain w1 where w1: "insert_session_stmt ?row (entered env ?w) = (Inr (), w1)" "?log w1 = (Inr x, w2)"
      using ok(2) by (auto simp: seqP_def bindP_def split: prod.splits sum.splits)
    then have "au_sessions (shared w1) = au_sessions (shared (entered env ?w)) @ [?row]"
      by (auto simp: run_inserts split: if_splits)
    moreover have "au_sessions (shared w') = au_sessions (shared w1)"
      using audit_tail [OF w1(2)] ok(3) by (auto simp: add_audit_def)
    ultimately show ?thesis using that [of "shared w'"] r(1) by simp
  qed simp
qed

text \<open>
  C16: A change of password ends every other session.  When the route answers with new cookies, the user has
  exactly one session, the one the answer's CSRF token and cookie belong to, provided the other tasks do not
  log the same user in meanwhile.
\<close>

theorem password_change_leaves_one_session:
  assumes "change_password_body env key ttl u ip current new w = (Inr (Inr rep), w')"
    and "rely (no_login (us_id u)) env"
  shows "\<exists>row. sessions_of (us_id u) (shared w') = [row] \<and> ss_csrf row = ar_csrf rep \<and>
    make_session_cookie_value env (ss_id row) key = Inr (ar_cookie rep)"
proof -
  have keep: "sessions_of (us_id u) (other env n s) = []" if "sessions_of (us_id u) s = []" for n s
  proof -
    have "(no_login (us_id u))\<^sup>*\<^sup>* s (other env n s)" using assms(2) by (simp add: rely_def)
    then show ?thesis using that by (induction rule: rtranclp_induct) (auto simp: no_login_def)
  qed
  have "length new \<ge> min_password_length" using assms(1) by (auto simp: change_password_body_def run_simps split: if_splits)
  with assms(1) obtain n w1 w2 where w2: "delete_all_user_sessions env (us_id u) w1 = (Inr n, w2)"
    "issue_session env key u ip ttl w2 = (Inr (Inr rep), w')"
    by (auto simp: change_password_body_def bindP_def seqP_def run_verify_password run_simps failed_attempt_def
        simp del: entered_simps split: option.splits prod.splits sum.splits if_splits)
  have none: "sessions_of (us_id u) (shared w2) = []"
    using w2(1) unfolding delete_all_user_sessions_def
    by (cases rule: txn_cases) (auto simp: run_deletes sessions_of_def filter_filter)
  obtain row w3 where w3: "create_session env (us_id u) ip ttl (uuid env (ticks w2)) (w2\<lparr>ticks := Suc (ticks w2)\<rparr>) = (Inr row, w3)"
    "w' = w3" "make_session_cookie_value env (ss_id row) key = Inr (ar_cookie rep)" "ar_csrf rep = uuid env (ticks w2)"
    using w2(2) by (auto simp: issue_session_def bindP_def run_simps split: prod.splits sum.splits)
  from w3(1) show ?thesis
  proof (rule create_session_run)
    fix s assume s: "shared w3 = s" "ss_user row = us_id u" "ss_csrf row = uuid env (ticks w2)"
      "au_sessions s = au_sessions (shared (entered env (w2\<lparr>ticks := Suc (ticks w2)\<rparr>\<lparr>ticks := Suc (Suc (ticks (w2\<lparr>ticks := Suc (ticks w2)\<rparr>)))\<rparr>))) @ [row]"
    have "sessions_of (us_id u) s = [row]"
      using keep [OF none] s(2) by (simp add: sessions_of_def s(4))
    then show ?thesis using s w3 by auto
  qed
qed

section \<open>Examples\<close>

definition quiet_auth_env :: auth_env where
  "quiet_auth_env =
     \<lparr>other = \<lambda>n s. s, fault = \<lambda>n. None, clock = \<lambda>n. 1000, uuid = \<lambda>n. replicate n (CHR ''u''), now_iso = \<lambda>n. ''2026-01-01'',
      bcrypt_check = \<lambda>p h. h = p, bcrypt_hash = \<lambda>n p. p, session_hmac = \<lambda>key sid. replicate 32 0, token_sha = \<lambda>p. p,
      master_key = Some ''master'', iso_us = \<lambda>x. Some 5000, us_iso = \<lambda>n. ''later'', login_clock = \<lambda>n. 0\<rparr>"

definition ann_id :: string where
  "ann_id = replicate 32 (CHR ''a'')"

definition ann_session :: session where
  "ann_session = \<lparr>ss_id = ann_id, ss_user = 1, ss_expires_at = ''later'', ss_ip = ''ip'', ss_csrf = ''c''\<rparr>"

definition cron_token :: token_row where
  "cron_token = \<lparr>tk_id = ''t1'', tk_name = ''cron'', tk_scopes = ''heartbeat:write'', tk_created_at = ''2026-01-01'', tk_last_used_at = None,
     tk_rotated_at = None, tk_hash = ''secret''\<rparr>"

definition ann_store :: auth_store where
  "ann_store = \<lparr>s_audits = [], au_users = [\<lparr>us_id = 1, us_name = ''ann'', us_created_at = ''2026-01-01'', us_hash = ''old''\<rparr>],
     au_sessions = [ann_session], au_tokens = [cron_token], au_limiter = default_login_limiter\<rparr>"

definition ann_world :: "(auth_store, unit event) world" where
  "ann_world = \<lparr>shared = ann_store, trace = [], ticks = 0\<rparr>"

definition ann :: auth_user where
  "ann = \<lparr>us_id = 1, us_name = ''ann'', us_created_at = ''2026-01-01''\<rparr>"

definition ann_state :: cred_state where
  "ann_state = \<lparr>cs_user = Some ann, cs_session = Some ann_session, cs_token = None, cs_kind = KSession\<rparr>"

definition ann_cookie :: string where
  "ann_cookie = ann_id @ ''.'' @ replicate 32 (CHR ''0'')"

lemmas ann_defs = quiet_auth_env_def ann_id_def ann_session_def cron_token_def ann_store_def ann_world_def ann_def ann_state_def

lemma quiet_auth_rely: "rely R quiet_auth_env"
  by (simp add: rely_def quiet_auth_env_def)

lemma zero_char: "char_of (48 :: nat) = CHR ''0''"
  by (simp add: char_of_eq_iff)

lemma list_all_replicate: "list_all P (replicate n x) \<longleftrightarrow> n = 0 \<or> P x"
  by (auto simp: list_all_iff)

lemma hex_zeros: "hex_of_bytes (replicate n 0) = replicate (2 * n) (CHR ''0'')"
  by (induction n) (simp_all add: hex_of_bytes_def hex_digit_def zero_char)

lemma ann_cookie_made: "make_session_cookie_value quiet_auth_env ann_id ''master'' = Inr ann_cookie"
  by (simp add: make_session_cookie_value_def ann_defs is_ascii_def list_all_replicate session_hmac_len_bytes_def hex_zeros ann_cookie_def)

lemma ann_cookie_ok: "session_id_ok ann_id" "hmac_ok quiet_auth_env"
  by (simp_all add: session_id_ok_def hmac_ok_def ann_defs session_id_len_def is_ascii_def list_all_replicate)

theorem cookie_accepted_iff_witness:
  "verify_session_cookie_value quiet_auth_env ann_cookie ''master'' = Inr (Some ann_id)"
  using cookie_accepted_iff [OF ann_cookie_ok, of ann_cookie "''master''"] ann_cookie_made by simp

lemma ann_wf: "auth_wf ann_store"
  by (simp add: auth_wf_def ann_defs)

theorem auth_tables_well_formed_witness:
  "auth_wf (shared (snd (run_auth_task quiet_auth_env (TaskDeleteUser 1 ''op'' None) ann_world)))"
  by (rule auth_tables_well_formed [OF quiet_auth_rely, of "TaskDeleteUser 1 ''op'' None" ann_world
        "fst (run_auth_task quiet_auth_env (TaskDeleteUser 1 ''op'' None) ann_world)"])
    (simp, simp add: ann_world_def ann_wf)

lemma ann_logout: "fst (logout_body quiet_auth_env ''ip'' ann ann_state ann_world) = Inr (Inr ())"
  by (simp add: logout_body_def delete_session_def txn_def insert_audit_def Let_def run_deletes run_simps seqP_def bindP_def ann_defs)

theorem logged_out_stays_out_witness:
  "\<exists>w'. resolve_session quiet_auth_env ann_cookie
      (after_tasks quiet_auth_env [TaskCleanup] (snd (logout_body quiet_auth_env ''ip'' ann ann_state ann_world))) =
    (Inr (Inr no_credential), w')"
proof (rule logged_out_stays_out [where row = ann_session and key = "''master''"])
  show "logout_body quiet_auth_env ''ip'' ann ann_state ann_world =
      (Inr (Inr ()), snd (logout_body quiet_auth_env ''ip'' ann ann_state ann_world))"
    using ann_logout by (metis prod.collapse)
  show "ss_id ann_session \<notin> range (uuid quiet_auth_env)" by (auto simp: ann_defs)
  show "verify_session_cookie_value quiet_auth_env ann_cookie ''master'' = Inr (Some (ss_id ann_session))"
    by (simp add: verify_session_cookie_value_def ann_cookie_def ann_defs cookie_value_len_def session_id_len_def
        session_hmac_len_bytes_def takeWhile_dot make_session_cookie_value_def compare_digest_def is_ascii_def list_all_replicate hex_zeros Let_def)
qed (simp_all add: quiet_auth_rely, simp_all add: ann_defs)

lemma cron_revoked: "fst (revoke_api_token quiet_auth_env (tk_id cron_token) ''op'' None ann_world) = Inr ()"
  by (simp add: revoke_api_token_def txn_def insert_audit_def Let_def run_deletes run_simps seqP_def bindP_def ann_defs)

theorem revoked_token_stays_out_witness:
  "\<exists>w'. resolve_token quiet_auth_env ''secret''
      (after_tasks quiet_auth_env [TaskCreateToken ''cron'' {} ''new'' ''op'' None]
        (snd (revoke_api_token quiet_auth_env (tk_id cron_token) ''op'' None ann_world))) = (Inr no_credential, w')"
proof (rule revoked_token_stays_out [where tok = cron_token and who = "''op''" and ip = None and w = ann_world])
  show "revoke_api_token quiet_auth_env (tk_id cron_token) ''op'' None ann_world =
      (Inr (), snd (revoke_api_token quiet_auth_env (tk_id cron_token) ''op'' None ann_world))"
    using cron_revoked by (metis prod.collapse)
  show "auth_wf (shared (entered quiet_auth_env ann_world))" using ann_wf by (simp add: ann_world_def quiet_auth_env_def)
  show "rely (preserves (\<lambda>s. token_by_hash (tk_hash cron_token) s = None)) quiet_auth_env" by (rule quiet_auth_rely)
qed (auto simp: mints_def ann_defs)

theorem failed_login_leaves_nothing_witness:
  "\<exists>w' ok lm. check_and_record default_login_limiter ''ip'' 0 = (ok, lm) \<and>
    login quiet_auth_env ''master'' 60 ''ip'' ''ann'' ''guess'' ann_world =
      (Inr (Inl (Denied (if ok then wrong_password_problem else rate_limited_problem))), w') \<and>
    shared w' = ann_store\<lparr>au_limiter := lm\<rparr> \<and> trace w' = []"
  using failed_login_leaves_nothing [of "''ann''" quiet_auth_env ann_world "''guess''" "''ip''" "''master''" 60]
  by (simp add: user_by_name_def ann_defs)

lemmas auth_runs = login_def change_password_body_def min_password_length_def change_password_def delete_all_user_sessions_def
  issue_session_def create_session_def make_session_cookie_value_def txn_def insert_audit_def Let_def run_deletes run_inserts
  run_verify_password run_simps seqP_def bindP_def user_by_name_def user_by_id_def session_by_id_def set_password_def
  add_audit_def sessions_of_def

lemma ann_changes: "\<exists>rep w'. change_password_body quiet_auth_env ''master'' 60 ann ''ip'' ''old'' ''long enough!'' ann_world = (Inr (Inr rep), w')"
  by (simp add: auth_runs ann_defs auth_user.defs is_ascii_def list_all_replicate)

theorem password_change_leaves_one_session_witness:
  "\<exists>rep w' row. change_password_body quiet_auth_env ''master'' 60 ann ''ip'' ''old'' ''long enough!'' ann_world = (Inr (Inr rep), w') \<and>
    sessions_of 1 (shared w') = [row] \<and> ss_csrf row = ar_csrf rep"
proof -
  obtain rep w' where r: "change_password_body quiet_auth_env ''master'' 60 ann ''ip'' ''old'' ''long enough!'' ann_world = (Inr (Inr rep), w')"
    using ann_changes by blast
  from password_change_leaves_one_session [OF r quiet_auth_rely] r show ?thesis by (auto simp: ann_def)
qed

text \<open>
  A login that read the old password before it was changed, and inserts its session after, leaves a session
  that the change of password did not end: the two transactions of the change fall between its own steps.
\<close>

definition password_changed :: "auth_store \<Rightarrow> auth_store" where
  "password_changed s = shared (snd (change_password_body quiet_auth_env ''master'' 60 ann ''ip'' ''old'' ''long enough!''
     \<lparr>shared = s, trace = [], ticks = 100\<rparr>))"

definition racing_env :: auth_env where
  "racing_env = quiet_auth_env\<lparr>other := \<lambda>n s. if n = 4 then password_changed s else s\<rparr>"

lemma password_changed_ann:
  "map us_hash (au_users (password_changed ann_store)) = [''long enough!'']"
  "map us_id (au_users (password_changed ann_store)) = [1]"
  "au_sessions (password_changed ann_store) = [\<lparr>ss_id = replicate 109 (CHR ''u''), ss_user = 1, ss_expires_at = ''later'',
     ss_ip = ''ip'', ss_csrf = replicate 108 (CHR ''u'')\<rparr>]"
  by (simp_all add: password_changed_def auth_runs ann_defs auth_user.defs is_ascii_def list_all_replicate)

lemma login_in_flight_survives:
  "\<exists>rep w'. login racing_env ''master'' 60 ''ip'' ''ann'' ''old'' ann_world = (Inr (Inr rep), w') \<and>
     map us_hash (au_users (shared w')) = [''long enough!''] \<and>
     map ss_csrf (sessions_of 1 (shared w')) = [replicate 108 (CHR ''u''), ar_csrf rep]"
proof -
  obtain row where row: "au_users (password_changed ann_store) = [row]" "us_hash row = ''long enough!''" "us_id row = 1"
    using password_changed_ann(1,2) by auto
  have env: "other racing_env = (\<lambda>n s. if n = 4 then password_changed s else s)"
    "fault racing_env = (\<lambda>n. None)" "uuid racing_env = (\<lambda>n. replicate n (CHR ''u''))" "clock racing_env = (\<lambda>n. 1000)"
    "bcrypt_check racing_env = (\<lambda>p h. h = p)" "us_iso racing_env = (\<lambda>n. ''later'')" "session_hmac racing_env = (\<lambda>key sid. replicate 32 0)"
    by (simp_all add: racing_env_def quiet_auth_env_def)
  have start: "ann_world = \<lparr>shared = ann_store, trace = [], ticks = 0\<rparr>"
    "au_users ann_store = [\<lparr>us_id = 1, us_name = ''ann'', us_created_at = ''2026-01-01'', us_hash = ''old''\<rparr>]"
    by (simp_all add: ann_defs)
  have fresh: "replicate 109 (CHR ''u'') \<noteq> ''uu''" by (rule notI) (drule arg_cong [where f = length], simp)
  show ?thesis
    unfolding start(1)
    by (simp add: fresh auth_runs env start(2) row password_changed_ann(3) auth_user.defs is_ascii_def list_all_replicate)
qed

end
