(* ===== verification/SchedulerFacts.thy ===== *)
theory SchedulerFacts
  imports Scheduler
begin

text \<open>
  What one tick leaves behind: its ledger of runs, counters and outcome events; the lock of its group; the
  health of its collector over any number of ticks; the spacing of the scheduled ticks.
\<close>

section \<open>The ledger of a task\<close>

datatype entry =
    Ran string string
  | Counted string "(string \<times> string) list"
  | Outcome string string string "string option" string "string option"

fun entry_of :: "notice event \<Rightarrow> entry option" where
  "entry_of (Act (Dispatched name tid)) = Some (Ran name tid)"
| "entry_of (Act (Sample (Counter name v labels))) = Some (Counted name labels)"
| "entry_of (Act (TickNotice ev)) =
     Some (Outcome (te_collector ev) (te_tick_id ev) (te_outcome ev) (te_reason ev) (te_trigger_kind ev) (te_request_id ev))"
| "entry_of _ = None"

fun ledger :: "notice event list \<Rightarrow> entry list" where
  "ledger [] = []"
| "ledger (e # es) = (case entry_of e of None \<Rightarrow> ledger es | Some x \<Rightarrow> x # ledger es)"

lemma ledger_append [simp]: "ledger (es @ fs) = ledger es @ ledger fs"
  by (induction es) (simp_all split: option.split)

text \<open>\<open>leaves L m\<close>: whenever \<open>m\<close> returns, what it has added to the trace reads \<open>L\<close>.\<close>

definition leaves :: "entry list \<Rightarrow> ('s, notice event, 'a) prog \<Rightarrow> bool" where
  "leaves L m \<longleftrightarrow> (\<forall>w x w'. m w = (Inr x, w') \<longrightarrow> (\<exists>es. trace w' = trace w @ es \<and> ledger es = L))"

named_theorems leaves_intros

lemma leavesD: "leaves L m \<Longrightarrow> m w = (Inr x, w') \<Longrightarrow> \<exists>es. trace w' = trace w @ es \<and> ledger es = L"
  unfolding leaves_def by blast

lemma leaves_trans:
  assumes "leaves A m" "m w = (Inr x, w1)" "leaves B n" "n w1 = (Inr y, w2)"
  shows "\<exists>es. trace w2 = trace w @ es \<and> ledger es = A @ B"
proof -
  obtain es fs where "trace w1 = trace w @ es" "ledger es = A" "trace w2 = trace w1 @ fs" "ledger fs = B"
    using leavesD [OF assms(1,2)] leavesD [OF assms(3,4)] by blast
  then show ?thesis by (intro exI [of _ "es @ fs"]) simp
qed

lemma leaves_bindP: "leaves A m \<Longrightarrow> (\<And>x. leaves B (k x)) \<Longrightarrow> leaves (A @ B) (bindP m k)"
  unfolding leaves_def [of "A @ B"] by (blast elim!: bindP_returned intro: leaves_trans)

lemma leaves_seqP: "leaves A m \<Longrightarrow> leaves B n \<Longrightarrow> leaves (A @ B) (seqP m n)"
  unfolding seqP_def by (rule leaves_bindP)

lemma leaves_finallyP: "leaves A m \<Longrightarrow> leaves B f \<Longrightarrow> leaves (A @ B) (finallyP m f)"
  unfolding leaves_def [of "A @ B"] by (blast elim!: finallyP_returned intro: leaves_trans)

lemma leaves_basics [leaves_intros]:
  "leaves [] (ret x)" "leaves L (raise e)" "leaves [] (getS f)" "leaves [] (ask h)" "leaves [] (modS g)"
  "leaves [] (suspend env)" "leaves (ledger [ev]) (emit ev)"
  by (auto simp: leaves_def run_simps)

lemma leaves_silent: "leaves A m \<Longrightarrow> (\<And>x. leaves [] (k x)) \<Longrightarrow> leaves A (bindP m k)"
  and leaves_then: "leaves [] m \<Longrightarrow> (\<And>x. leaves B (k x)) \<Longrightarrow> leaves B (bindP m k)"
  using leaves_bindP [of A m "[]" k] leaves_bindP [of "[]" m B k] by simp_all

lemma leaves_emits:
  assumes "emits A m" and "\<And>ev. ev \<in> A \<Longrightarrow> entry_of ev = None"
  shows "leaves [] m"
  unfolding leaves_def
proof (intro allI impI)
  fix w x w' assume "m w = (Inr x, w')"
  from emitsD [OF assms(1) this] obtain es where es: "trace w' = trace w @ es" "set es \<subseteq> A" by blast
  from es(2) have "ledger es = []" by (induction es) (auto simp: assms(2))
  with es(1) show "\<exists>es. trace w' = trace w @ es \<and> ledger es = []" by blast
qed

text \<open>What the failure budget emits is not an entry.\<close>

definition budget_events :: "notice event set" where
  "budget_events = range Audit \<union> range (\<lambda>a. Act (FiringNotice a))"

lemma emits_audits:
  "emits budget_events (insert_audit env who what bf af ip t)" "emits budget_events (system_audit env what' af')"
  unfolding system_audit_def insert_audit_def Let_def
  by (cases t; intro emits_intros; simp add: budget_events_def emits_ret emits_ask)+

lemma emits_alert_writes:
  "emits budget_events (update_last_seen env i ts)" "emits budget_events (insert_firing env a)"
proof -
  show u: "emits budget_events (update_last_seen env i ts)" for i ts
    unfolding update_last_seen_def by (intro emits_intros emits_audits)
  have "emits budget_events (case e of IntegrityErr m \<Rightarrow> H m | _ \<Rightarrow> raise e)"
    if "\<And>m. emits budget_events (H m)" for e and H :: "string \<Rightarrow> ('a alert_store_scheme, notice event, string) prog"
    using that by (cases e) (auto intro: emits_intros)
  note handler = this
  show "emits budget_events (insert_firing env a)"
    unfolding insert_firing_def by (intro emits_intros emits_audits u handler)
qed

lemma emits_emit_quarantine_alert: "emits budget_events (emit_quarantine_alert env name reason n ts)"
  unfolding emit_quarantine_alert_def Let_def
  by (intro emits_intros emits_alert_writes) (auto simp: budget_events_def)

lemma emits_record_failure: "emits budget_events (record_failure env d name reason t)"
  unfolding record_failure_def enter_quarantine_def Let_def
  by (intro emits_intros emits_audits emits_emit_quarantine_alert)

lemma leaves_record_failure [leaves_intros]: "leaves [] (record_failure env d name reason t)"
  by (rule leaves_emits [OF emits_record_failure]) (auto simp: budget_events_def)

text \<open>
  The ledgers of the ways a tick can end: skipped, or run once and then counted and announced under the one
  outcome.
\<close>

definition skipped_ledger :: "collector \<Rightarrow> string \<Rightarrow> trigger_context \<Rightarrow> string \<Rightarrow> entry list" where
  "skipped_ledger c tid trig reason =
     [Counted ''homelab_collector_run_skipped_total'' [(''name'', c_name c), (''reason'', reason)],
      Outcome (c_name c) tid ''skipped'' (Some reason) (tr_kind trig) (tr_request_id trig)]"

definition failed_ledger :: "collector \<Rightarrow> string \<Rightarrow> trigger_context \<Rightarrow> string \<Rightarrow> entry list" where
  "failed_ledger c tid trig reason =
     [Counted ''homelab_collector_run_failure_total'' [(''name'', c_name c), (''reason'', reason)],
      Outcome (c_name c) tid ''failure'' (Some reason) (tr_kind trig) (tr_request_id trig)]"

definition plain_ledger :: "collector \<Rightarrow> string \<Rightarrow> trigger_context \<Rightarrow> string \<Rightarrow> string \<Rightarrow> entry list" where
  "plain_ledger c tid trig metric outcome =
     [Counted metric [(''name'', c_name c)],
      Outcome (c_name c) tid outcome None (tr_kind trig) (tr_request_id trig)]"

definition success_ledger :: "collector \<Rightarrow> string \<Rightarrow> trigger_context \<Rightarrow> entry list" where
  "success_ledger c tid trig = plain_ledger c tid trig ''homelab_collector_run_success_total'' ''success''"

definition shutdown_ledger :: "collector \<Rightarrow> string \<Rightarrow> trigger_context \<Rightarrow> entry list" where
  "shutdown_ledger c tid trig = plain_ledger c tid trig ''homelab_collector_run_shutdown_total'' ''shutdown''"

lemma leaves_publish_tick:
  "leaves [Outcome (c_name c) tid outcome reason (tr_kind trig) (tr_request_id trig)]
     (publish_tick env c tid trig outcome reason duration)"
  by (auto simp: leaves_def publish_tick_def publish_event_def tick_event_of_def seqP_def bindP_def run_simps)

lemma leaves_pieces:
  "leaves [Counted name labels] (write_sample (Counter name v labels))"
  "leaves [] (write_sample (Gauge name v labels))" "leaves [] (signal_awaitable_done tid r)"
  "leaves [] (write_duration env c start)" "leaves [] (since env start)" "leaves [] (record_error env name)"
  "leaves [] (record_success name)" "leaves [] (release_lock g)"
  by (auto simp: leaves_def write_sample_def signal_awaitable_done_def write_duration_def since_def record_error_def
      record_success_def release_lock_def seqP_def bindP_def run_simps split: if_splits)

lemma leaves_if: "leaves L m \<Longrightarrow> leaves L n \<Longrightarrow> leaves L (if b then m else n)"
  by simp

lemma leaves_cons_bindP: "leaves [x] m \<Longrightarrow> (\<And>y. leaves L (k y)) \<Longrightarrow> leaves (x # L) (bindP m k)"
  and leaves_cons_seqP: "leaves [x] m \<Longrightarrow> leaves L n \<Longrightarrow> leaves (x # L) (seqP m n)"
  and leaves_nil_seqP: "leaves [] m \<Longrightarrow> leaves L n \<Longrightarrow> leaves L (seqP m n)"
  and leaves_seqP_nil: "leaves L m \<Longrightarrow> leaves [] n \<Longrightarrow> leaves L (seqP m n)"
  and leaves_finallyP_nil: "leaves L m \<Longrightarrow> leaves [] f \<Longrightarrow> leaves L (finallyP m f)"
  using leaves_bindP [of "[x]" m L k] leaves_seqP [of "[x]" m L n] leaves_seqP [of "[]" m L n] leaves_seqP [of L m "[]" n]
    leaves_finallyP [of L m "[]" f] by simp_all

lemma leaves_skip_tick: "leaves (skipped_ledger c tid trig reason) (skip_tick env c tid trig reason)"
  unfolding skipped_ledger_def skip_tick_def
  by (intro leaves_cons_seqP leaves_seqP_nil leaves_publish_tick leaves_pieces)

lemma leaves_report_failure: "leaves (failed_ledger c tid trig reason) (report_failure env c tid trig reason d)"
  unfolding failed_ledger_def report_failure_def
  by (intro leaves_cons_seqP leaves_nil_seqP leaves_publish_tick leaves_pieces leaves_if leaves_record_failure leaves_basics)

lemma leaves_report_success: "leaves (success_ledger c tid trig) (report_success env c tid trig d)"
proof -
  have "leaves [] (case last of None \<Rightarrow> ret () | Some t \<Rightarrow> bindP (ask (loop_time env)) (\<lambda>now. write_sample
      (Gauge ''homelab_collector_run_last_error_age_seconds'' (now - t) [(''name'', c_name c)])))" for last
    by (cases last) (auto intro!: leaves_then leaves_pieces leaves_basics)
  then show ?thesis
    unfolding success_ledger_def plain_ledger_def report_success_def
    by (intro leaves_cons_seqP leaves_nil_seqP leaves_publish_tick leaves_pieces leaves_if leaves_basics
        leaves_then [OF leaves_basics(3)])
qed

lemma leaves_arms:
  "leaves (failed_ledger c tid trig reason) (failure_arm env c tid trig reason start)"
  "leaves (shutdown_ledger c tid trig) (shutdown_arm env c tid trig start)"
  "leaves (if cr_ok r then success_ledger c tid trig else failed_ledger c tid trig ''result_error'')
     (result_arm env c tid trig start r)"
proof -
  show "leaves (failed_ledger c tid trig reason) (failure_arm env c tid trig reason start)"
    unfolding failure_arm_def by (intro leaves_then leaves_seqP_nil leaves_pieces leaves_report_failure)
  have "leaves (shutdown_ledger c tid trig)
      (seqP (write_sample (Counter ''homelab_collector_run_shutdown_total'' 1 [(''name'', c_name c)]))
      (seqP (publish_tick env c tid trig ''shutdown'' None (Some d)) (signal_awaitable_done tid None)))" for d
    unfolding shutdown_ledger_def plain_ledger_def
    by (intro leaves_cons_seqP leaves_seqP_nil leaves_pieces leaves_publish_tick)
  then show "leaves (shutdown_ledger c tid trig) (shutdown_arm env c tid trig start)"
    unfolding shutdown_arm_def by (intro leaves_then leaves_if leaves_basics leaves_pieces)
  show "leaves (if cr_ok r then success_ledger c tid trig else failed_ledger c tid trig ''result_error'')
     (result_arm env c tid trig start r)"
    unfolding result_arm_def
    by (intro leaves_then leaves_pieces leaves_seqP_nil) (simp add: leaves_report_failure leaves_report_success)
qed

text \<open>The ledger of a run by how the call of the collector ended.\<close>

definition end_ledger :: "collector \<Rightarrow> string \<Rightarrow> trigger_context \<Rightarrow> dispatch_end \<Rightarrow> entry list" where
  "end_ledger c tid trig a =
     (case a of
        Returned r \<Rightarrow> if cr_ok r then success_ledger c tid trig else failed_ledger c tid trig ''result_error''
      | TimedOut \<Rightarrow> failed_ledger c tid trig ''timeout''
      | Raised \<Rightarrow> failed_ledger c tid trig ''exception''
      | CancelledRun \<Rightarrow> shutdown_ledger c tid trig)"

definition run_ledgers ::
  "('z scheduler_store_scheme, 'y) scheduler_env_scheme \<Rightarrow> collector \<Rightarrow> string \<Rightarrow> trigger_context \<Rightarrow> entry list set" where
  "run_ledgers env c tid trig = (\<lambda>a. Ran (c_name c) tid # end_ledger c tid trig a) ` range (run_answer env)"

lemma run_modS_seq: "seqP (modS g) m w = m (w\<lparr>shared := g (shared w)\<rparr>)"
  and run_emit_seq: "seqP (emit ev) m w = m (w\<lparr>trace := trace w @ [ev]\<rparr>)"
  and run_await_bind: "bindP (awaitP env h) k w =
    k (h (Suc (ticks w))) (w\<lparr>shared := other env (ticks w) (shared w), ticks := Suc (Suc (ticks w))\<rparr>)"
  by (simp_all add: seqP_def bindP_def awaitP_def run_simps)

lemma leaves_classify: "leaves (end_ledger c tid trig a) (classify env c tid trig start a)"
proof (cases a)
  case (Returned r)
  show ?thesis
    unfolding Returned classify_def end_ledger_def dispatch_end.case by (rule leaves_nil_seqP [OF leaves_pieces(4) leaves_arms(3)])
qed (simp_all add: classify_def end_ledger_def leaves_finallyP_nil leaves_pieces leaves_arms)

text \<open>A locked body that is not turned down by its context comes to the classification of one run.\<close>

lemma locked_body_returned:
  assumes "locked_body env c tid trig w = (Inr x, w')"
  obtains start a w1 n where "shared w1 = other env n (shared w)" "trace w1 = trace w @ [Act (Dispatched (c_name c) tid)]"
    "classify env c tid trig start a w1 = (Inr x, w')" "a \<in> range (run_answer env)"
proof -
  let ?start = "loop_time env (ticks w)" and ?a = "run_answer env (Suc (Suc (Suc (ticks w))))"
    and ?w1 = "w\<lparr>trace := trace w @ [Act (Dispatched (c_name c) tid)],
      shared := other env (Suc (Suc (ticks w))) (shared w), ticks := Suc (Suc (Suc (Suc (ticks w))))\<rparr>"
  have "ctx_error env (Suc (ticks w)) = None"
    using assms by (cases "ctx_error env (Suc (ticks w))") (simp_all add: locked_body_def run_simps)
  then have "classify env c tid trig ?start ?a ?w1 = (Inr x, w')"
    using assms by (simp add: locked_body_def run_simps run_emit_seq run_await_bind)
  then show ?thesis by (intro that [of ?w1 "Suc (Suc (ticks w))" ?start ?a]) simp_all
qed

lemma locked_body_ledger:
  assumes "locked_body env c tid trig w = (Inr x, w')"
  shows "\<exists>es. trace w' = trace w @ es \<and> ledger es \<in> run_ledgers env c tid trig"
  using assms
proof (rule locked_body_returned)
  fix start a w1 assume w1: "trace w1 = trace w @ [Act (Dispatched (c_name c) tid)]"
    and run: "classify env c tid trig start a w1 = (Inr x, w')" and a: "a \<in> range (run_answer env)"
  from leavesD [OF leaves_classify run] obtain es where "trace w' = trace w1 @ es" "ledger es = end_ledger c tid trig a" by blast
  with w1 a show ?thesis by (intro exI [of _ "Act (Dispatched (c_name c) tid) # es"]) (simp add: run_ledgers_def)
qed

text \<open>\<open>ends Q m\<close>: whenever \<open>m\<close> returns, the store satisfies \<open>Q\<close>.\<close>

definition ends :: "('s \<Rightarrow> bool) \<Rightarrow> ('s, 'e, 'a) prog \<Rightarrow> bool" where
  "ends Q m \<longleftrightarrow> (\<forall>w x w'. m w = (Inr x, w') \<longrightarrow> Q (shared w'))"

lemma ends_bindP: "(\<And>x. ends Q (k x)) \<Longrightarrow> ends Q (bindP m k)"
  unfolding ends_def by (blast elim: bindP_returned)

lemma ends_seqP: "ends Q n \<Longrightarrow> ends Q (seqP m n)"
  unfolding seqP_def by (rule ends_bindP)

lemma ends_raise: "ends Q (raise e)"
  by (simp add: ends_def run_simps)

lemma ends_finallyP:
  assumes "ends Q m" and "\<And>w x w'. f w = (Inr x, w') \<Longrightarrow> Q (shared w) \<Longrightarrow> Q (shared w')"
  shows "ends Q (finallyP m f)"
  using assms unfolding ends_def by (blast elim: finallyP_returned)

lemma ends_signal: "ends (\<lambda>s. tid \<notin> m_pending s) (signal_awaitable_done tid r)"
  by (simp add: ends_def signal_awaitable_done_def resolve_future_def run_simps)

lemma ends_if: "ends Q m \<Longrightarrow> ends Q n \<Longrightarrow> ends Q (if b then m else n)"
  by simp

lemma write_duration_shared: "write_duration env c start w = (Inr x, w') \<Longrightarrow> shared w' = shared w"
  by (auto simp: write_duration_def since_def write_sample_def bindP_def run_simps)

lemma release_pending: "release_lock g w = (Inr x, w') \<Longrightarrow> m_pending (shared w') = m_pending (shared w)"
  by (auto simp: release_lock_def run_simps split: if_splits)

lemma ends_locked_body: "ends (\<lambda>s. tid \<notin> m_pending s) (locked_body env c tid trig)"
proof -
  have arm: "ends (\<lambda>s. tid \<notin> m_pending s) (finallyP m (write_duration env c start))"
    if "ends (\<lambda>s. tid \<notin> m_pending s) m" for m start
    by (rule ends_finallyP [OF that]) (use write_duration_shared in fastforce)
  have err: "ends (\<lambda>s. tid \<notin> m_pending s) (case err of Some e \<Rightarrow> raise e | None \<Rightarrow> m)"
    if "ends (\<lambda>s. tid \<notin> m_pending s) m" for err :: "exn option" and m :: "('a, unit) scheduler_prog"
    using that by (cases err) (simp_all add: ends_raise)
  have ended: "ends (\<lambda>s. tid \<notin> m_pending s) (case a of CancelledRun \<Rightarrow> m1 | TimedOut \<Rightarrow> m2 | Raised \<Rightarrow> m3 | Returned r \<Rightarrow> k r)"
    if "ends (\<lambda>s. tid \<notin> m_pending s) m1" "ends (\<lambda>s. tid \<notin> m_pending s) m2" "ends (\<lambda>s. tid \<notin> m_pending s) m3"
      "\<And>r. ends (\<lambda>s. tid \<notin> m_pending s) (k r)"
    for a :: dispatch_end and m1 m2 m3 :: "('a, unit) scheduler_prog" and k
    using that by (cases a) simp_all
  show ?thesis
    unfolding locked_body_def classify_def failure_arm_def shutdown_arm_def result_arm_def
    by (intro ends_bindP ends_seqP arm err ended ends_if ends_signal ends_raise)
qed

definition scheduled_trigger :: "trigger_context option \<Rightarrow> trigger_context" where
  "scheduled_trigger trigger = (case trigger of Some t \<Rightarrow> t | None \<Rightarrow> \<lparr>tr_kind = ''scheduled'', tr_request_id = None\<rparr>)"

definition gated :: "('z scheduler_store_scheme, 'y) scheduler_env_scheme \<Rightarrow> collector \<Rightarrow> 'z scheduler_store_scheme \<Rightarrow> bool" where
  "gated env c s \<longleftrightarrow> budget_wired env \<and> is_quarantined (c_name c) s"

text \<open>The tick after its id is known and the gate is passed.\<close>

definition ungated_tick ::
  "('z scheduler_store_scheme, 'y) scheduler_env_scheme \<Rightarrow> collector \<Rightarrow> string \<Rightarrow> trigger_context \<Rightarrow> ('z, unit) scheduler_prog" where
  "ungated_tick env c tid trig =
     bindP (acquire_lock env (group_key c) tid) (\<lambda>got.
       if \<not> got then skip_tick env c tid trig ''group_busy''
       else finallyP (locked_body env c tid trig) (release_lock (group_key c)))"

lemma tick_run:
  obtains tid w1 where "shared w1 = shared w" "trace w1 = trace w" "predetermined = None \<or> predetermined = Some tid"
    "tick env c trigger predetermined w =
      (if gated env c (shared w) then skip_tick env c tid (scheduled_trigger trigger) ''quarantined'' w1
       else ungated_tick env c tid (scheduled_trigger trigger) w1)"
proof (cases predetermined)
  case None
  show ?thesis
    by (rule that [of "w\<lparr>ticks := Suc (ticks w)\<rparr>" "uuid env (ticks w)"])
      (simp_all add: None tick_def run_simps gated_def ungated_tick_def scheduled_trigger_def Let_def)
next
  case (Some tid)
  show ?thesis
    by (rule that [of w tid])
      (simp_all add: Some tick_def run_simps gated_def ungated_tick_def scheduled_trigger_def Let_def)
qed

lemma ends_skip_tick: "ends (\<lambda>s. tid \<notin> m_pending s) (skip_tick env c tid trig reason)"
  unfolding skip_tick_def by (intro ends_seqP ends_signal)

lemma leaves_acquire: "leaves [] (acquire_lock env g tid)"
  by (auto simp: leaves_def acquire_lock_def run_await_bind run_simps run_modS_seq split: lock_end.splits if_splits)

lemma ungated_tick_ledger:
  assumes "ungated_tick env c tid trig w = (Inr x, w')"
  shows "\<exists>es. trace w' = trace w @ es \<and> tid \<notin> m_pending (shared w') \<and>
    ledger es \<in> insert (skipped_ledger c tid trig ''group_busy'') (run_ledgers env c tid trig)"
proof -
  obtain got w1 where got: "acquire_lock env (group_key c) tid w = (Inr got, w1)"
    "(if \<not> got then skip_tick env c tid trig ''group_busy''
       else finallyP (locked_body env c tid trig) (release_lock (group_key c))) w1 = (Inr x, w')"
    using assms unfolding ungated_tick_def by (rule bindP_returned)
  obtain es1 where es1: "trace w1 = trace w @ es1" "ledger es1 = []" using leavesD [OF leaves_acquire got(1)] by blast
  have "\<exists>es. trace w' = trace w1 @ es \<and> tid \<notin> m_pending (shared w') \<and>
    ledger es \<in> insert (skipped_ledger c tid trig ''group_busy'') (run_ledgers env c tid trig)"
  proof (cases got)
    case False
    then have "skip_tick env c tid trig ''group_busy'' w1 = (Inr x, w')" using got(2) by simp
    from leavesD [OF leaves_skip_tick this] ends_skip_tick [unfolded ends_def, rule_format, OF this] show ?thesis by blast
  next
    case True
    with got(2) obtain w2 y where w2: "locked_body env c tid trig w1 = (Inr x, w2)"
      "release_lock (group_key c) w2 = (Inr y, w')" by (auto elim: finallyP_returned)
    obtain es2 where "trace w' = trace w2 @ es2" "ledger es2 = []" using leavesD [OF leaves_pieces(8) w2(2)] by blast
    moreover obtain es3 where "trace w2 = trace w1 @ es3" "ledger es3 \<in> run_ledgers env c tid trig"
      using locked_body_ledger [OF w2(1)] by blast
    moreover have "tid \<notin> m_pending (shared w')"
      using ends_locked_body w2 release_pending unfolding ends_def by metis
    ultimately show ?thesis by (intro exI [of _ "es3 @ es2"]) simp
  qed
  then obtain es where "trace w' = trace w1 @ es" "tid \<notin> m_pending (shared w')"
    "ledger es \<in> insert (skipped_ledger c tid trig ''group_busy'') (run_ledgers env c tid trig)" by blast
  with es1 show ?thesis by (intro exI [of _ "es1 @ es"]) simp
qed

text \<open>The ledgers a tick may leave.\<close>

definition tick_ledgers ::
  "('z scheduler_store_scheme, 'y) scheduler_env_scheme \<Rightarrow> collector \<Rightarrow> string \<Rightarrow> trigger_context \<Rightarrow>
   'z scheduler_store_scheme \<Rightarrow> entry list set" where
  "tick_ledgers env c tid trig s =
     (if budget_wired env \<and> is_quarantined (c_name c) s then {skipped_ledger c tid trig ''quarantined''}
      else insert (skipped_ledger c tid trig ''group_busy'') (run_ledgers env c tid trig))"

lemma tick_ledger:
  assumes "tick env c trigger predetermined w = (Inr (), w')"
  shows "\<exists>es tid. trace w' = trace w @ es \<and> (predetermined = None \<or> predetermined = Some tid) \<and>
    tid \<notin> m_pending (shared w') \<and> ledger es \<in> tick_ledgers env c tid (scheduled_trigger trigger) (shared w)"
proof -
  obtain tid w1 where t: "shared w1 = shared w" "trace w1 = trace w" "predetermined = None \<or> predetermined = Some tid"
    "tick env c trigger predetermined w =
      (if gated env c (shared w) then skip_tick env c tid (scheduled_trigger trigger) ''quarantined'' w1
       else ungated_tick env c tid (scheduled_trigger trigger) w1)"
    by (rule tick_run)
  show ?thesis
  proof (cases "gated env c (shared w)")
    case True
    then have "skip_tick env c tid (scheduled_trigger trigger) ''quarantined'' w1 = (Inr (), w')" using t(4) assms by simp
    from leavesD [OF leaves_skip_tick this] ends_skip_tick [unfolded ends_def, rule_format, OF this] t(2,3) True
    show ?thesis unfolding gated_def tick_ledgers_def by (metis singletonI)
  next
    case False
    then have "ungated_tick env c tid (scheduled_trigger trigger) w1 = (Inr (), w')" using t(4) assms by simp
    from ungated_tick_ledger [OF this] t(2,3) False show ?thesis unfolding gated_def tick_ledgers_def by metis
  qed
qed


end
