(* ===== verification/SchedulerLaws.thy ===== *)
theory SchedulerLaws
  imports SchedulerFacts
begin

text \<open>
  What a tick may do to the shared state, whatever runs in between: a locale over the relation that every
  write of the failure budget keeps, extended by the writes of the scheduler, and its interpretations for the
  locks of the groups and for the health of one collector.
\<close>

section \<open>The writes of the budget and of a tick\<close>

locale budget_writes = alert_writes R
  for R :: "'z budget_store_scheme \<Rightarrow> 'z budget_store_scheme \<Rightarrow> bool" +
  assumes w_row: "\<And>s name f. R s (on_collector name f s)"
    and w_failures: "\<And>s name n. R s (set_failures name n s)"
    and w_quarantine: "\<And>s name q. R s (set_quarantined name q s)"
begin

lemma guar_record_success: "guar R (record_success name)"
  unfolding record_success_def by (intro guar_intros guar_modS_step w_failures)

lemma guar_quarantine_alert: "rely R env \<Longrightarrow> guar R (emit_quarantine_alert env name reason n ts)"
  unfolding emit_quarantine_alert_def Let_def by (intro guar_intros guar_alert_writes guar_insert_firing)

lemma guar_enter: "rely R env \<Longrightarrow> guar R (enter_quarantine env name reason prev n)"
  unfolding enter_quarantine_def Let_def
  by (intro guar_intros guar_modS_step guar_modS guar_insert_audit w_audit w_row guar_quarantine_alert)
    (auto intro: rtranclp_trans [OF r_into_rtranclp r_into_rtranclp] w_failures w_quarantine)

lemma guar_record_failure: "rely R env \<Longrightarrow> guar R (record_failure env d name reason t)"
  unfolding record_failure_def Let_def
  by (intro guar_intros guar_modS_step w_row w_failures guar_enter)

end

locale tick_writes = budget_writes R
  for R :: "'z scheduler_store_scheme \<Rightarrow> 'z scheduler_store_scheme \<Rightarrow> bool" +
  assumes w_future: "\<And>s tid r. R s (resolve_future tid r s)"
    and w_error_ts: "\<And>s f. R s (s\<lparr>m_last_error_ts := f\<rparr>)"
begin

lemma guar_pieces:
  "guar R (write_sample m)" "guar R (signal_awaitable_done tid r)" "guar R (record_error env name)"
  "guar R (since env start)" "guar R (write_duration env c start)"
  unfolding write_sample_def signal_awaitable_done_def record_error_def since_def write_duration_def
  by (intro guar_intros guar_modS_step w_future w_error_ts)+

lemma guar_publish: "rely R env \<Longrightarrow> guar R (publish_tick env c tid trig oc reason d)"
  unfolding publish_tick_def publish_event_def by (intro guar_intros)

lemma guar_skip_tick: "rely R env \<Longrightarrow> guar R (skip_tick env c tid trig reason)"
  unfolding skip_tick_def by (intro guar_intros guar_pieces guar_publish)

lemma guar_report_failure: "rely R env \<Longrightarrow> guar R (report_failure env c tid trig reason d)"
  unfolding report_failure_def by (intro guar_intros guar_pieces guar_publish guar_record_failure)

lemma guar_report_success: "rely R env \<Longrightarrow> guar R (report_success env c tid trig d)"
  unfolding report_success_def by (intro guar_intros guar_pieces guar_publish guar_record_success)

lemma guar_classify:
  assumes "rely R env"
  shows "guar R (classify env c tid trig start a)"
proof -
  have "guar R (shutdown_arm env c tid trig start)" "guar R (failure_arm env c tid trig reason start)"
    "guar R (result_arm env c tid trig start r)" for reason r
    unfolding shutdown_arm_def failure_arm_def result_arm_def
    by (intro guar_intros guar_pieces guar_publish guar_report_failure guar_report_success assms)+
  then show ?thesis
    unfolding classify_def by (cases a) (auto intro!: guar_intros guar_pieces)
qed

lemma guar_locked_body:
  assumes "rely R env"
  shows "guar R (locked_body env c tid trig)"
proof -
  have "guar R (case err of Some e \<Rightarrow> raise e | None \<Rightarrow> m)" if "guar R m" for err :: "exn option" and m :: "('z, unit) scheduler_prog"
    using that by (cases err) (simp_all add: guar_raise)
  then show ?thesis
    unfolding locked_body_def by (intro guar_intros guar_classify assms)
qed

end

section \<open>The locks of the groups\<close>

text \<open>The groups whose lock a tick holds.\<close>

definition own :: "string \<Rightarrow> 'z scheduler_store_scheme \<Rightarrow> string set" where
  "own tid s = {g. map_of (m_locks s) g = Some tid}"

definition same_own :: "string \<Rightarrow> 'z scheduler_store_scheme \<Rightarrow> 'z scheduler_store_scheme \<Rightarrow> bool" where
  "same_own tid s t \<longleftrightarrow> own tid t = own tid s"

lemma same_own_steps: "(same_own tid)\<^sup>*\<^sup>* s t \<Longrightarrow> own tid t = own tid s"
  by (induction rule: rtranclp_induct) (simp_all add: same_own_def)

interpretation locks: tick_writes "same_own tid" for tid
  by unfold_locales
    (simp_all add: same_own_def own_def add_audit_def add_alert_def on_alert_def add_alert_outcome_def on_collector_def
      set_failures_def set_quarantined_def resolve_future_def)

lemma own_entered: "rely (same_own tid) env \<Longrightarrow> own tid (other env n s) = own tid s"
  by (rule same_own_steps) (simp add: rely_def)

lemma own_take: "\<not> lock_held g s \<Longrightarrow> own x (take_lock g tid s) = (if x = tid then insert g (own x s) else own x s)"
  by (auto simp: own_def take_lock_def lock_held_def)

lemma own_release:
  assumes "g \<in> own tid (shared w)" "release_lock g w = (r, w')"
  shows "r = Inr ()" "own x (shared w') = (if x = tid then own x (shared w) - {g} else own x (shared w))"
proof -
  have h: "lock_held g (shared w)" using assms(1) by (auto simp: own_def lock_held_def)
  then show "r = Inr ()" using assms(2) by (simp add: release_lock_def run_simps)
  have "map_of (filter (\<lambda>(k, _). k \<noteq> g) xs) y = (if y = g then None else map_of xs y)" for xs :: "(string \<times> string) list" and y
    by (induction xs) auto
  with h assms show "own x (shared w') = (if x = tid then own x (shared w) - {g} else own x (shared w))"
    by (auto simp: release_lock_def run_simps own_def split: if_splits)
qed

text \<open>How the wait for the lock ends: with nothing taken, or with the free lock taken.\<close>

lemma acquire_cases:
  assumes "acquire_lock env g tid w = (r, w')"
  obtains (got) "r = Inr True" "\<not> lock_held g (shared (entered env w))" "shared w' = take_lock g tid (shared (entered env w))"
      "trace w' = trace w"
    | (not_got) "r \<noteq> Inr True" "shared w' = shared (entered env w)" "trace w' = trace w"
  using assms
  by (cases "lock_answer env (Suc (ticks w))"; cases "lock_held g (shared (entered env w))")
    (auto simp: acquire_lock_def run_await_bind run_simps run_modS_seq)

definition no_dispatch :: "notice event set" where
  "no_dispatch = {e. \<forall>name tid. e \<noteq> Act (Dispatched name tid)}"

lemma emits_skip_tick: "emits no_dispatch (skip_tick env c tid trig reason)"
  unfolding skip_tick_def write_sample_def publish_tick_def publish_event_def signal_awaitable_done_def
  by (intro emits_intros) (simp_all add: no_dispatch_def)

lemma ungated_own:
  assumes r: "rely (same_own tid) env" and none: "own tid (shared w) = {}"
    and run: "ungated_tick env c tid trig w = (r, w')"
  shows "own tid (shared w') = {}"
    and "x \<noteq> tid \<Longrightarrow> rely (same_own x) env \<Longrightarrow> own x (shared w') = own x (shared w) \<and>
      (group_key c \<in> own x (shared w) \<longrightarrow> (\<exists>es. trace w' = trace w @ es \<and> set es \<subseteq> no_dispatch))"
proof -
  let ?g = "group_key c"
  obtain q w1 where a: "acquire_lock env ?g tid w = (q, w1)" by fastforce
  have skip: "own y (shared w') = own y (shared w1)" "\<exists>es. trace w' = trace w1 @ es \<and> set es \<subseteq> no_dispatch"
    if "q \<noteq> Inr True" "rely (same_own y) env" for y
  proof -
    have "(\<exists>e. q = Inl e) \<and> w' = w1 \<or> skip_tick env c tid trig ''group_busy'' w1 = (r, w')"
      using run a that(1) by (cases q) (auto simp: ungated_tick_def bindP_def)
    then show "own y (shared w') = own y (shared w1)"
      using same_own_steps guarD [OF locks.guar_skip_tick [OF that(2)]] by blast
    show "\<exists>es. trace w' = trace w1 @ es \<and> set es \<subseteq> no_dispatch"
      using \<open>(\<exists>e. q = Inl e) \<and> w' = w1 \<or> _\<close> emitsD [OF emits_skip_tick] by (metis append_Nil2 empty_subsetI set_empty2)
  qed
  have body: "\<exists>w2 p. own y (shared w2) = own y (shared w1) \<and> finallyP (locked_body env c tid trig) (release_lock ?g) w1 = (r, w') \<and>
      locked_body env c tid trig w1 = (p, w2) \<and> (\<exists>u. release_lock ?g w2 = (u, w'))"
    if "q = Inr True" "rely (same_own y) env" for y
  proof -
    obtain p w2 where p: "locked_body env c tid trig w1 = (p, w2)" by fastforce
    have f: "finallyP (locked_body env c tid trig) (release_lock ?g) w1 = (r, w')"
      using run a that(1) by (simp add: ungated_tick_def bindP_def)
    have "\<exists>u. release_lock ?g w2 = (u, w')"
      using f p by (cases "release_lock ?g w2") (auto simp: finallyP_def split: sum.splits)
    moreover have "own y (shared w2) = own y (shared w1)"
      using same_own_steps guarD [OF locks.guar_locked_body [OF that(2)] p] by blast
    ultimately show ?thesis using p f by blast
  qed
  show "own tid (shared w') = {}"
    using a
  proof (cases rule: acquire_cases)
    case got
    then have o: "own tid (shared w1) = {?g}" using own_entered [OF r] none by (simp add: own_take)
    from body [OF got(1) r] obtain w2 u where "own tid (shared w2) = {?g}" "release_lock ?g w2 = (u, w')" using o by auto
    then show ?thesis using own_release(2) [of ?g tid w2 u w' tid] by simp
  next
    case not_got
    then show ?thesis using skip(1) [OF not_got(1) r] own_entered [OF r] none by simp
  qed
  assume x: "x \<noteq> tid" "rely (same_own x) env"
  show "own x (shared w') = own x (shared w) \<and>
      (?g \<in> own x (shared w) \<longrightarrow> (\<exists>es. trace w' = trace w @ es \<and> set es \<subseteq> no_dispatch))"
    using a
  proof (cases rule: acquire_cases)
    case got
    then have o: "own tid (shared w1) = {?g}" "own x (shared w1) = own x (shared w)"
      using own_entered [OF r] own_entered [OF x(2)] none x(1) by (simp_all add: own_take)
    from body [OF got(1) r] body [OF got(1) x(2)] obtain w2 u where
      "own tid (shared w2) = {?g}" "own x (shared w2) = own x (shared w)" "release_lock ?g w2 = (u, w')" using o by auto
    then have "own x (shared w') = own x (shared w)" using own_release(2) [of ?g tid w2 u w' x] x(1) by simp
    moreover have "?g \<notin> own x (other env (ticks w) (shared w))" using got(2) by (auto simp: own_def lock_held_def)
    then have "?g \<notin> own x (shared w)" using own_entered [OF x(2)] by simp
    ultimately show ?thesis by blast
  next
    case not_got
    then show ?thesis using skip [OF not_got(1) x(2)] own_entered [OF x(2)] by simp
  qed
qed

lemma tick_with_id:
  "tick env c trigger (Some tid) w =
     (if gated env c (shared w) then skip_tick env c tid (scheduled_trigger trigger) ''quarantined'' w
      else ungated_tick env c tid (scheduled_trigger trigger) w)"
  by (simp add: tick_def run_simps gated_def ungated_tick_def scheduled_trigger_def Let_def)

text \<open>
  C20: The locks of the groups, in every interleaving: however a tick ends (result, failure, timeout, cancellation,
  a database error), it leaves no lock behind; it never breaks nor takes the lock of another tick; and while
  another tick holds the lock of its group it does not run its collector.
\<close>

theorem group_lock_exclusive:
  assumes "rely (same_own tid) env" and "own tid (shared w) = {}" and "tick env c trigger (Some tid) w = (r, w')"
  shows "own tid (shared w') = {} \<and>
    (\<forall>x. x \<noteq> tid \<longrightarrow> rely (same_own x) env \<longrightarrow> own x (shared w') = own x (shared w) \<and>
       (group_key c \<in> own x (shared w) \<longrightarrow> (\<exists>es. trace w' = trace w @ es \<and> set es \<subseteq> no_dispatch)))"
proof (cases "gated env c (shared w)")
  case True
  then have s: "skip_tick env c tid (scheduled_trigger trigger) ''quarantined'' w = (r, w')"
    using assms(3) by (simp add: tick_with_id)
  have "own x (shared w') = own x (shared w)" if "rely (same_own x) env" for x
    using same_own_steps guarD [OF locks.guar_skip_tick [OF that] s] by blast
  with assms(1,2) emitsD [OF emits_skip_tick s] show ?thesis by auto
next
  case False
  then have "ungated_tick env c tid (scheduled_trigger trigger) w = (r, w')" using assms(3) by (simp add: tick_with_id)
  from ungated_own [OF assms(1,2) this] show ?thesis by blast
qed

end
