(* ===== verification/SchedulerHealth.thy ===== *)
theory SchedulerHealth
  imports SchedulerLaws
begin

text \<open>
  The scheduler and the failure budget together: the health of a collector is a function of the outcomes its
  ticks announced, so that a failing collector is run only up to its threshold.
\<close>

definition same_health :: "string \<Rightarrow> 'z scheduler_store_scheme \<Rightarrow> 'z scheduler_store_scheme \<Rightarrow> bool" where
  "same_health name s t \<longleftrightarrow> health_of name t = health_of name s"

lemma same_health_steps: "(same_health name)\<^sup>*\<^sup>* s t \<Longrightarrow> health_of name t = health_of name s"
  by (induction rule: rtranclp_induct) (simp_all add: same_health_def)

lemma guar_health: "guar (same_health name) m \<Longrightarrow> m w = (r, w') \<Longrightarrow> health_of name (shared w') = health_of name (shared w)"
  using same_health_steps guarD by blast

interpretation alert_health: alert_writes "same_health name" for name
  by unfold_locales
    (simp_all add: same_health_def health_of_def is_quarantined_def failures_of_def add_audit_def add_alert_def
      on_alert_def add_alert_outcome_def)

lemma health_reads:
  "health_of name (resolve_future tid r s) = health_of name s"
  "health_of name (s\<lparr>m_last_error_ts := f\<rparr>) = health_of name s"
  "health_of name (take_lock g tid s) = health_of name s"
  "health_of name (s\<lparr>m_locks := l\<rparr>) = health_of name s"
  by (simp_all add: health_of_def is_quarantined_def failures_of_def resolve_future_def take_lock_def)

lemma guar_health_pieces:
  "guar (same_health name) (write_sample m)" "guar (same_health name) (signal_awaitable_done tid r)"
  "guar (same_health name) (record_error env n)" "guar (same_health name) (since env start)"
  "guar (same_health name) (write_duration env c start)" "guar (same_health name) (release_lock g)"
  unfolding write_sample_def signal_awaitable_done_def record_error_def since_def write_duration_def release_lock_def
  by (intro guar_intros guar_modS_step; simp add: same_health_def health_reads)+

lemma guar_health_waits:
  assumes "rely (same_health name) env"
  shows "guar (same_health name) (publish_tick env c tid trig oc reason d)"
    "guar (same_health name) (skip_tick env c tid trig why)" "guar (same_health name) (acquire_lock env g tid)"
proof -
  show p: "guar (same_health name) (publish_tick env c tid trig oc reason d)" for oc reason d
    unfolding publish_tick_def publish_event_def by (intro guar_intros assms)
  show "guar (same_health name) (skip_tick env c tid trig why)"
    unfolding skip_tick_def by (intro guar_intros guar_health_pieces p)
  have "guar (same_health name) (case a of CancelledWait \<Rightarrow> raise Cancelled | TooLate \<Rightarrow> ret False
      | InTime \<Rightarrow> if held then ret False else seqP (modS (take_lock g tid)) (ret True))" for a held
    by (cases a) (auto intro!: guar_intros guar_modS_step simp: same_health_def health_reads)
  then show "guar (same_health name) (acquire_lock env g tid)"
    unfolding acquire_lock_def by (intro guar_intros assms)
qed

lemma guar_health_alert:
  "rely (same_health name) env \<Longrightarrow> guar (same_health name) (emit_quarantine_alert env n reason k ts)"
  unfolding emit_quarantine_alert_def Let_def
  by (intro guar_intros alert_health.guar_alert_writes alert_health.guar_insert_firing)

lemma rely_health: "rely (same_health name) env \<Longrightarrow> health_of name (other env n s) = health_of name s"
  by (rule same_health_steps) (simp add: rely_def)

lemma run_ask_bind_returned: "bindP (ask h) k w = (Inr x, w') \<Longrightarrow> \<exists>v w1. shared w1 = shared w \<and> k v w1 = (Inr x, w')"
  by (intro exI [of _ "h (ticks w)"] exI [of _ "w\<lparr>ticks := Suc (ticks w)\<rparr>"]) (simp add: run_simps)

lemma run_modS_seq_returned: "seqP (modS g) m w = (r, w') \<Longrightarrow> \<exists>w1. shared w1 = g (shared w) \<and> m w1 = (r, w')"
  by (intro exI [of _ "w\<lparr>shared := g (shared w)\<rparr>"]) (simp add: run_modS_seq)

lemma enter_quarantine_health:
  assumes f: "rely (same_health name) env" and run: "enter_quarantine env name reason prev n w = (Inr u, w')"
  shows "health_of name (shared w') = Quarantined"
proof -
  obtain ts w0 where "seqP (txn env (seqP (modS (on_collector name (persist_state
          \<lparr>qs_failures = n, qs_at = Some ts, qs_reason = Some (reason_text n reason)\<rparr>)))
        (insert_audit env ''scheduler'' ''collector.quarantine_entered''
          (Some (state_fields name \<lparr>qs_failures = prev, qs_at = None, qs_reason = None\<rparr>))
          (Some (state_fields name \<lparr>qs_failures = n, qs_at = Some ts, qs_reason = Some (reason_text n reason)\<rparr>)) None None)))
      (seqP (modS (set_quarantined name \<lparr>qs_failures = n, qs_at = Some ts, qs_reason = Some (reason_text n reason)\<rparr> \<circ> set_failures name n))
        (if alerts_wired env then emit_quarantine_alert env name reason n ts else ret ())) w0 = (Inr u, w')"
    using run_ask_bind_returned [OF run [unfolded enter_quarantine_def Let_def]] by blast
  then obtain w1 where "seqP (modS (set_quarantined name \<lparr>qs_failures = n, qs_at = Some ts, qs_reason = Some (reason_text n reason)\<rparr> \<circ> set_failures name n))
        (if alerts_wired env then emit_quarantine_alert env name reason n ts else ret ()) w1 = (Inr u, w')"
    by (rule seqP_returned)
  from run_modS_seq_returned [OF this] obtain w2 where
    w2: "shared w2 = (set_quarantined name \<lparr>qs_failures = n, qs_at = Some ts, qs_reason = Some (reason_text n reason)\<rparr>
        \<circ> set_failures name n) (shared w1)" "(if alerts_wired env then emit_quarantine_alert env name reason n ts else ret ()) w2 = (Inr u, w')" by blast
  have "guar (same_health name) (if alerts_wired env then emit_quarantine_alert env name reason n ts else ret ())"
    by (intro guar_intros guar_health_alert f)
  from guar_health [OF this w2(2)] show ?thesis by (simp add: w2(1) health_of_def mem_writes)
qed

lemma record_failure_health:
  assumes f: "rely (same_health name) env" and run: "record_failure env d name reason t w = (Inr u, w')"
  shows "health_of name (shared w') = health_step d (Failed reason t) (health_of name (shared w))"
proof (cases "is_quarantined name (shared w)")
  case True
  with run show ?thesis by (simp add: record_failure_def run_simps health_of_def)
next
  case False
  let ?n = "failures_of name (shared w) + 1"
  have h: "health_of name (shared w) = Healthy (?n - 1)" using False by (simp add: health_of_def)
  show ?thesis
  proof (cases "?n < threshold_of d t")
    case True
    then have "seqP (txn env (modS (on_collector name (\<lambda>c. c\<lparr>co_failures := ?n\<rparr>)))) (modS (set_failures name ?n)) w = (Inr u, w')"
      using run False by (simp add: record_failure_def run_simps threshold_of_def Let_def)
    from txn_then_mem [OF run_modS_total this] obtain w1 where
      w1: "shared w1 = on_collector name (\<lambda>c. c\<lparr>co_failures := ?n\<rparr>) (shared (entered env w))"
        "modS (set_failures name ?n) w1 = (Inr u, w')" by blast
    have "\<not> is_quarantined name (other env (ticks w) (shared w))"
      using rely_health [OF f, of "ticks w" "shared w"] False by (auto simp: health_of_def split: if_splits)
    moreover have "shared w' = set_failures name ?n (on_collector name (\<lambda>c. c\<lparr>co_failures := ?n\<rparr>) (other env (ticks w) (shared w)))"
      using w1 by (auto simp: run_simps)
    ultimately have "health_of name (shared w') = Healthy ?n" by (simp add: health_of_def mem_writes)
    with h True show ?thesis by simp
  next
    case over: False
    then have "enter_quarantine env name reason (failures_of name (shared w)) ?n w = (Inr u, w')"
      using run False by (simp add: record_failure_def run_simps threshold_of_def Let_def)
    from enter_quarantine_health [OF f this] h over show ?thesis by simp
  qed
qed

section \<open>The verdicts of a ledger\<close>

fun verdicts :: "int option \<Rightarrow> entry list \<Rightarrow> tick_result list" where
  "verdicts t [] = []"
| "verdicts t (Outcome name tid oc reason kind req # L) =
     (if oc = ''success'' then Succeeded # verdicts t L
      else if oc = ''failure'' then Failed (case reason of None \<Rightarrow> [] | Some r \<Rightarrow> r) t # verdicts t L
      else verdicts t L)"
| "verdicts t (_ # L) = verdicts t L"

lemma verdicts_append [simp]: "verdicts t (L @ M) = verdicts t L @ verdicts t M"
  by (induction t L rule: verdicts.induct) simp_all

lemma verdicts_ledgers [simp]:
  "verdicts t (skipped_ledger c tid trig reason) = []"
  "verdicts t (failed_ledger c tid trig reason) = [Failed reason t]"
  "verdicts t (success_ledger c tid trig) = [Succeeded]" "verdicts t (shutdown_ledger c tid trig) = []"
  by (simp_all add: skipped_ledger_def failed_ledger_def success_ledger_def shutdown_ledger_def plain_ledger_def)

lemma report_failure_health:
  assumes f: "rely (same_health (c_name c)) env" and b: "budget_wired env"
    and run: "report_failure env c tid trig reason d w = (Inr u, w')"
  shows "health_of (c_name c) (shared w') =
    health_step (default_threshold env) (Failed reason (threshold_for env c)) (health_of (c_name c) (shared w))"
proof -
  obtain x w1 y w2 z w3 where 1: "write_sample (Counter ''homelab_collector_run_failure_total'' 1 [(''name'', c_name c), (''reason'', reason)]) w = (Inr x, w1)"
    "record_error env (c_name c) w1 = (Inr y, w2)"
    "record_failure env (default_threshold env) (c_name c) reason (threshold_for env c) w2 = (Inr z, w3)"
    "publish_tick env c tid trig ''failure'' (Some reason) (Some d) w3 = (Inr u, w')"
    using run b unfolding report_failure_def by (auto elim!: seqP_returned)
  show ?thesis
    using guar_health [OF guar_health_pieces(1) 1(1)] guar_health [OF guar_health_pieces(3) 1(2)]
      record_failure_health [OF f 1(3)] guar_health [OF guar_health_waits(1) [OF f] 1(4)] by simp
qed

lemma record_success_health:
  "record_success name w = (Inr u, w') \<Longrightarrow> health_of name (shared w') = health_step d Succeeded (health_of name (shared w))"
  by (auto simp: record_success_def run_simps health_of_def mem_writes split: if_splits)

lemma report_success_health:
  assumes f: "rely (same_health (c_name c)) env" and b: "budget_wired env"
    and run: "report_success env c tid trig d w = (Inr u, w')"
  shows "health_of (c_name c) (shared w') =
    health_step (default_threshold env) Succeeded (health_of (c_name c) (shared w))"
proof -
  let ?gauge = "bindP (getS (\<lambda>s. map_of (m_last_error_ts s) (c_name c))) (\<lambda>last.
           case last of
             None \<Rightarrow> ret ()
           | Some t \<Rightarrow> bindP (ask (loop_time env)) (\<lambda>now. write_sample
               (Gauge ''homelab_collector_run_last_error_age_seconds'' (now - t) [(''name'', c_name c)])))"
  have g: "guar (same_health (c_name c)) ?gauge" by (intro guar_intros guar_health_pieces)
  obtain x w1 y w2 z w3 where 1: "write_sample (Counter ''homelab_collector_run_success_total'' 1 [(''name'', c_name c)]) w = (Inr x, w1)"
    "?gauge w1 = (Inr y, w2)" "record_success (c_name c) w2 = (Inr z, w3)"
    "publish_tick env c tid trig ''success'' None (Some d) w3 = (Inr u, w')"
    using run b unfolding report_success_def by (auto elim!: seqP_returned)
  show ?thesis
    using guar_health [OF guar_health_pieces(1) 1(1)] guar_health [OF g 1(2)]
      record_success_health [OF 1(3)] guar_health [OF guar_health_waits(1) [OF f] 1(4)] by simp
qed

text \<open>The step of the budget's state machine for the end of a run.\<close>

definition verdict_steps :: "('z scheduler_store_scheme, 'y) scheduler_env_scheme \<Rightarrow> collector \<Rightarrow> entry list \<Rightarrow> health \<Rightarrow> health" where
  "verdict_steps env c L = fold (health_step (default_threshold env)) (verdicts (threshold_for env c) L)"

lemma arms_health:
  assumes f: "rely (same_health (c_name c)) env" and b: "budget_wired env"
  shows "failure_arm env c tid trig reason start w = (Inr u, w') \<Longrightarrow> health_of (c_name c) (shared w') =
      health_step (default_threshold env) (Failed reason (threshold_for env c)) (health_of (c_name c) (shared w))"
    and "shutdown_arm env c tid trig start w = (Inr u, w') \<Longrightarrow> health_of (c_name c) (shared w') = health_of (c_name c) (shared w)"
    and "result_arm env c tid trig start r w = (Inr u, w') \<Longrightarrow> health_of (c_name c) (shared w') =
      health_step (default_threshold env) (if cr_ok r then Succeeded else Failed ''result_error'' (threshold_for env c))
        (health_of (c_name c) (shared w))"
proof -
  note pieces = guar_health [where name = "c_name c", OF guar_health_pieces(2)]
    guar_health [where name = "c_name c", OF guar_health_pieces(4)]
  show "failure_arm env c tid trig reason start w = (Inr u, w') \<Longrightarrow> health_of (c_name c) (shared w') =
      health_step (default_threshold env) (Failed reason (threshold_for env c)) (health_of (c_name c) (shared w))"
    unfolding failure_arm_def by (auto elim!: bindP_returned seqP_returned dest!: pieces report_failure_health [OF f b])
  have "guar (same_health (c_name c)) (shutdown_arm env c tid trig start)"
    unfolding shutdown_arm_def by (intro guar_intros guar_health_pieces guar_health_waits f)
  then show "shutdown_arm env c tid trig start w = (Inr u, w') \<Longrightarrow> health_of (c_name c) (shared w') = health_of (c_name c) (shared w)"
    by (rule guar_health)
  show "result_arm env c tid trig start r w = (Inr u, w') \<Longrightarrow> health_of (c_name c) (shared w') =
      health_step (default_threshold env) (if cr_ok r then Succeeded else Failed ''result_error'' (threshold_for env c))
        (health_of (c_name c) (shared w))"
    unfolding result_arm_def
    by (cases "cr_ok r") (auto elim!: bindP_returned seqP_returned
        dest!: pieces report_failure_health [OF f b] report_success_health [OF f b])
qed

lemma classify_health:
  assumes f: "rely (same_health (c_name c)) env" and b: "budget_wired env"
    and run: "classify env c tid trig start a w = (Inr u, w')"
  shows "health_of (c_name c) (shared w') = verdict_steps env c (end_ledger c tid trig a) (health_of (c_name c) (shared w))"
proof -
  note written = guar_health [where name = "c_name c", OF guar_health_pieces(5)]
  show ?thesis
  proof (cases a)
    case (Returned r)
    then obtain x w1 where "write_duration env c start w = (Inr x, w1)" "result_arm env c tid trig start r w1 = (Inr u, w')"
      using run by (auto simp: classify_def elim: seqP_returned)
    from Returned this show ?thesis
      by (simp add: end_ledger_def verdict_steps_def arms_health(3) [OF f b] written)
  next
    case TimedOut
    then obtain x w1 where "failure_arm env c tid trig ''timeout'' start w = (Inr u, w1)" "write_duration env c start w1 = (Inr x, w')"
      using run by (auto simp: classify_def elim: finallyP_returned)
    from TimedOut this show ?thesis
      by (simp add: end_ledger_def verdict_steps_def arms_health(1) [OF f b] written)
  next
    case Raised
    then obtain x w1 where "failure_arm env c tid trig ''exception'' start w = (Inr u, w1)" "write_duration env c start w1 = (Inr x, w')"
      using run by (auto simp: classify_def elim: finallyP_returned)
    from Raised this show ?thesis
      by (simp add: end_ledger_def verdict_steps_def arms_health(1) [OF f b] written)
  next
    case CancelledRun
    then obtain x w1 where "shutdown_arm env c tid trig start w = (Inr u, w1)" "write_duration env c start w1 = (Inr x, w')"
      using run by (auto simp: classify_def elim: finallyP_returned)
    from CancelledRun this show ?thesis
      by (simp add: end_ledger_def verdict_steps_def arms_health(2) [OF f b] written)
  qed
qed

lemma verdict_steps_append: "verdict_steps env c (L @ M) h = verdict_steps env c M (verdict_steps env c L h)"
  by (simp add: verdict_steps_def)

lemma skip_health:
  assumes "rely (same_health (c_name c)) env" and "skip_tick env c tid trig reason w = (r, w')"
  shows "health_of (c_name c) (shared w') = health_of (c_name c) (shared w)"
  by (rule guar_health [OF guar_health_waits(2) [OF assms(1)] assms(2)])

lemma locked_body_health:
  assumes f: "rely (same_health (c_name c)) env" and b: "budget_wired env"
    and run: "locked_body env c tid trig w = (Inr x, w')"
  shows "\<exists>es. trace w' = trace w @ es \<and>
    health_of (c_name c) (shared w') = verdict_steps env c (ledger es) (health_of (c_name c) (shared w))"
  using run
proof (rule locked_body_returned)
  fix start a w1 n assume w1: "shared w1 = other env n (shared w)" "trace w1 = trace w @ [Act (Dispatched (c_name c) tid)]"
    and run: "classify env c tid trig start a w1 = (Inr x, w')"
  from leavesD [OF leaves_classify run] obtain es where es: "trace w' = trace w1 @ es" "ledger es = end_ledger c tid trig a"
    by blast
  have "health_of (c_name c) (shared w1) = health_of (c_name c) (shared w)" using rely_health [OF f] by (simp add: w1(1))
  with classify_health [OF f b run] es w1(2) show ?thesis
    by (intro exI [of _ "Act (Dispatched (c_name c) tid) # es"]) (simp add: verdict_steps_def)
qed

lemma ungated_tick_health:
  assumes f: "rely (same_health (c_name c)) env" and b: "budget_wired env"
    and run: "ungated_tick env c tid trig w = (Inr x, w')"
  shows "\<exists>es. trace w' = trace w @ es \<and>
    health_of (c_name c) (shared w') = verdict_steps env c (ledger es) (health_of (c_name c) (shared w))"
proof -
  obtain got w1 where got: "acquire_lock env (group_key c) tid w = (Inr got, w1)"
    "(if \<not> got then skip_tick env c tid trig ''group_busy''
       else finallyP (locked_body env c tid trig) (release_lock (group_key c))) w1 = (Inr x, w')"
    using run unfolding ungated_tick_def by (rule bindP_returned)
  obtain es1 where es1: "trace w1 = trace w @ es1" "ledger es1 = []" using leavesD [OF leaves_acquire got(1)] by blast
  have h1: "health_of (c_name c) (shared w1) = health_of (c_name c) (shared w)"
    by (rule guar_health [OF guar_health_waits(3) [OF f] got(1)])
  have "\<exists>es. trace w' = trace w1 @ es \<and>
    health_of (c_name c) (shared w') = verdict_steps env c (ledger es) (health_of (c_name c) (shared w1))"
  proof (cases got)
    case False
    then have "skip_tick env c tid trig ''group_busy'' w1 = (Inr x, w')" using got(2) by simp
    from leavesD [OF leaves_skip_tick this] skip_health [OF f this] show ?thesis by (auto simp: verdict_steps_def)
  next
    case True
    with got(2) obtain w2 y where w2: "locked_body env c tid trig w1 = (Inr x, w2)"
      "release_lock (group_key c) w2 = (Inr y, w')" by (auto elim: finallyP_returned)
    obtain es2 where es2: "trace w' = trace w2 @ es2" "ledger es2 = []" using leavesD [OF leaves_pieces(8) w2(2)] by blast
    obtain es3 where "trace w2 = trace w1 @ es3"
      "health_of (c_name c) (shared w2) = verdict_steps env c (ledger es3) (health_of (c_name c) (shared w1))"
      using locked_body_health [OF f b w2(1)] by blast
    with es2 guar_health [OF guar_health_pieces(6) w2(2)] show ?thesis by (intro exI [of _ "es3 @ es2"]) simp
  qed
  then obtain es where "trace w' = trace w1 @ es"
    "health_of (c_name c) (shared w') = verdict_steps env c (ledger es) (health_of (c_name c) (shared w1))" by blast
  with es1 h1 show ?thesis by (intro exI [of _ "es1 @ es"]) simp
qed

lemma tick_health:
  assumes f: "rely (same_health (c_name c)) env" and b: "budget_wired env"
    and run: "tick env c trigger predetermined w = (Inr (), w')"
  shows "\<exists>es tid. trace w' = trace w @ es \<and> ledger es \<in> tick_ledgers env c tid (scheduled_trigger trigger) (shared w) \<and>
    health_of (c_name c) (shared w') = verdict_steps env c (ledger es) (health_of (c_name c) (shared w))"
proof -
  obtain tid w1 where t: "shared w1 = shared w" "trace w1 = trace w"
    "tick env c trigger predetermined w =
      (if gated env c (shared w) then skip_tick env c tid (scheduled_trigger trigger) ''quarantined'' w1
       else ungated_tick env c tid (scheduled_trigger trigger) w1)"
    by (rule tick_run)
  have "\<exists>es. trace w' = trace w1 @ es \<and>
    health_of (c_name c) (shared w') = verdict_steps env c (ledger es) (health_of (c_name c) (shared w1))"
  proof (cases "gated env c (shared w)")
    case True
    then have s: "skip_tick env c tid (scheduled_trigger trigger) ''quarantined'' w1 = (Inr (), w')" using run t(3) by simp
    from leavesD [OF leaves_skip_tick s] skip_health [OF f s] show ?thesis by (auto simp: verdict_steps_def)
  next
    case False
    then show ?thesis using ungated_tick_health [OF f b] run t(3) by simp
  qed
  with tick_ledger [OF run] t(1,2) show ?thesis by (metis same_append_eq)
qed

text \<open>A history of one collector: its ticks in the order they ran, up to the first that raised.\<close>

definition tick_history ::
  "('z scheduler_store_scheme, 'y) scheduler_env_scheme \<Rightarrow> collector \<Rightarrow> (trigger_context option \<times> string option) list \<Rightarrow>
   ('z, unit) scheduler_prog" where
  "tick_history env c xs = for_each xs (\<lambda>(trigger, tid). tick env c trigger tid)"

lemma tick_history_simps:
  "tick_history env c [] = ret ()"
  "tick_history env c (x # xs) = seqP (tick env c (fst x) (snd x)) (tick_history env c xs)"
  by (simp_all add: tick_history_def split: prod.split)

text \<open>
  C21: The announced outcomes decide the health.  Over any history of scheduled and immediate ticks of a collector
  the health its budget ends with is the one the specification of the budget computes from the outcome events
  of the ticks alone: every announced success or failure is booked exactly once, skips and shutdowns never.
\<close>

theorem outcomes_decide_health:
  assumes "rely (same_health (c_name c)) env" and "budget_wired env" and "tick_history env c xs w = (Inr (), w')"
  shows "\<exists>es. trace w' = trace w @ es \<and> health_of (c_name c) (shared w') =
    fold (health_step (default_threshold env)) (verdicts (threshold_for env c) (ledger es)) (health_of (c_name c) (shared w))"
  using assms(3)
proof (induction xs arbitrary: w)
  case Nil
  then show ?case by (simp add: tick_history_simps run_simps)
next
  case (Cons x xs)
  obtain u w1 where w1: "tick env c (fst x) (snd x) w = (Inr u, w1)" "tick_history env c xs w1 = (Inr (), w')"
    using Cons.prems by (auto simp: tick_history_simps elim: seqP_returned)
  obtain es where "trace w1 = trace w @ es"
    "health_of (c_name c) (shared w1) = verdict_steps env c (ledger es) (health_of (c_name c) (shared w))"
    using tick_health [OF assms(1,2)] w1(1) by fastforce
  with Cons.IH [OF w1(2)] show ?case
    by (elim exE) (rule_tac x = "es @ esa" in exI, simp add: verdict_steps_def)
qed

section \<open>A collector that always fails\<close>

fun fails :: "dispatch_end \<Rightarrow> bool" where
  "fails (Returned r) = (\<not> cr_ok r)"
| "fails CancelledRun = False"
| "fails _ = True"

fun is_run :: "entry \<Rightarrow> bool" where
  "is_run (Ran name tid) = True"
| "is_run _ = False"

definition runs_in :: "entry list \<Rightarrow> nat" where
  "runs_in L = length (filter is_run L)"

lemma runs_in_simps [simp]:
  "runs_in [] = 0" "runs_in (x # L) = (if is_run x then 1 else 0) + runs_in L" "runs_in (L @ M) = runs_in L + runs_in M"
  by (simp_all add: runs_in_def)

lemma runs_in_ledgers [simp]: "runs_in (skipped_ledger c tid trig reason) = 0" "runs_in (end_ledger c tid trig a) = 0"
  by (simp_all add: skipped_ledger_def end_ledger_def failed_ledger_def success_ledger_def shutdown_ledger_def
      plain_ledger_def split: dispatch_end.split)

definition effective_threshold :: "('z scheduler_store_scheme, 'y) scheduler_env_scheme \<Rightarrow> collector \<Rightarrow> int" where
  "effective_threshold env c = threshold_of (default_threshold env) (threshold_for env c)"

text \<open>The health after \<open>k\<close> failed runs, and how many runs a health leaves room for.\<close>

fun failed_health :: "int \<Rightarrow> nat \<Rightarrow> health \<Rightarrow> health" where
  "failed_health limit k Quarantined = Quarantined"
| "failed_health limit k (Healthy f) =
     (if k = 0 then Healthy f else if f + int k < limit then Healthy (f + int k) else Quarantined)"

fun room :: "int \<Rightarrow> health \<Rightarrow> nat" where
  "room limit Quarantined = 0"
| "room limit (Healthy f) = nat (max 1 (limit - f))"

lemma room_step:
  assumes "k \<le> room limit (failed_health limit 1 (Healthy f))"
  shows "Suc k \<le> room limit (Healthy f)"
    "failed_health limit k (failed_health limit 1 (Healthy f)) = failed_health limit (Suc k) (Healthy f)"
  using assms by (auto split: if_splits)

lemma failing_tick:
  assumes "rely (same_health (c_name c)) env" and b: "budget_wired env" and a: "\<And>n. fails (run_answer env n)"
    and run: "tick env c trigger predetermined w = (Inr (), w')"
  shows "\<exists>es. trace w' = trace w @ es \<and>
    (runs_in (ledger es) = 0 \<and> health_of (c_name c) (shared w') = health_of (c_name c) (shared w) \<or>
     runs_in (ledger es) = 1 \<and> (\<exists>f. health_of (c_name c) (shared w) = Healthy f) \<and> health_of (c_name c) (shared w') =
       failed_health (effective_threshold env c) 1 (health_of (c_name c) (shared w)))"
proof -
  let ?h = "health_of (c_name c) (shared w)"
  obtain es tid where es: "trace w' = trace w @ es" "ledger es \<in> tick_ledgers env c tid (scheduled_trigger trigger) (shared w)"
    "health_of (c_name c) (shared w') = verdict_steps env c (ledger es) ?h"
    using tick_health [OF assms(1,2) run] by blast
  have "runs_in (ledger es) = 0 \<and> verdict_steps env c (ledger es) ?h = ?h \<or>
     runs_in (ledger es) = 1 \<and> (\<exists>f. ?h = Healthy f) \<and>
     verdict_steps env c (ledger es) ?h = failed_health (effective_threshold env c) 1 ?h"
  proof (cases "\<exists>reason. ledger es = skipped_ledger c tid (scheduled_trigger trigger) reason")
    case True
    then show ?thesis by (auto simp: verdict_steps_def)
  next
    case False
    then obtain n where n: "ledger es = Ran (c_name c) tid # end_ledger c tid (scheduled_trigger trigger) (run_answer env n)"
      and h: "\<not> is_quarantined (c_name c) (shared w)"
      using es(2) b by (auto simp: tick_ledgers_def run_ledgers_def split: if_splits)
    obtain f where f: "?h = Healthy f" using h by (simp add: health_of_def)
    have "\<exists>r. verdicts (threshold_for env c) (ledger es) = [Failed r (threshold_for env c)]"
      using a [of n] by (cases "run_answer env n") (simp_all add: n end_ledger_def)
    with f n show ?thesis by (auto simp: verdict_steps_def effective_threshold_def)
  qed
  with es show ?thesis by auto
qed

text \<open>
  A failing collector is contained.  If no run of a collector succeeds, then over any history of ticks,
  scheduled or requested, it is run at most as often as its failure threshold has room for (once, if there is
  none); the health of its budget counts exactly these runs, and once they reach the threshold it is quarantined and
  stays so.
\<close>

theorem failing_collector_contained:
  assumes "rely (same_health (c_name c)) env" and "budget_wired env" and "\<And>n. fails (run_answer env n)"
    and "tick_history env c xs w = (Inr (), w')"
  shows "\<exists>es. trace w' = trace w @ es \<and>
    runs_in (ledger es) \<le> room (effective_threshold env c) (health_of (c_name c) (shared w)) \<and>
    health_of (c_name c) (shared w') =
      failed_health (effective_threshold env c) (runs_in (ledger es)) (health_of (c_name c) (shared w))"
  using assms(4)
proof (induction xs arbitrary: w)
  case Nil
  have "failed_health d 0 h = h" for d h by (cases h) simp_all
  with Nil show ?case by (simp add: tick_history_simps run_simps)
next
  case (Cons x xs)
  let ?h = "\<lambda>w. health_of (c_name c) (shared w)" and ?d = "effective_threshold env c"
  obtain u w1 where w1: "tick env c (fst x) (snd x) w = (Inr u, w1)" "tick_history env c xs w1 = (Inr (), w')"
    using Cons.prems by (auto simp: tick_history_simps elim: seqP_returned)
  obtain es where es: "trace w1 = trace w @ es"
    "runs_in (ledger es) = 0 \<and> ?h w1 = ?h w \<or>
     runs_in (ledger es) = 1 \<and> (\<exists>f. ?h w = Healthy f) \<and> ?h w1 = failed_health ?d 1 (?h w)"
    using failing_tick [OF assms(1,2,3)] w1(1) by fastforce
  obtain fs where fs: "trace w' = trace w1 @ fs" "runs_in (ledger fs) \<le> room ?d (?h w1)"
    "?h w' = failed_health ?d (runs_in (ledger fs)) (?h w1)"
    using Cons.IH [OF w1(2)] by blast
  have "runs_in (ledger (es @ fs)) \<le> room ?d (?h w) \<and> ?h w' = failed_health ?d (runs_in (ledger (es @ fs))) (?h w)"
    using es(2)
  proof
    assume "runs_in (ledger es) = 0 \<and> ?h w1 = ?h w"
    with fs show ?thesis by simp
  next
    assume r: "runs_in (ledger es) = 1 \<and> (\<exists>f. ?h w = Healthy f) \<and> ?h w1 = failed_health ?d 1 (?h w)"
    then obtain f where "?h w = Healthy f" by blast
    with r fs room_step [of "runs_in (ledger fs)" ?d f] show ?thesis by simp
  qed
  with es(1) fs(1) show ?case by (intro exI [of _ "es @ fs"]) simp
qed

end
