(* ===== verification/SchedulerLoop.thy ===== *)
theory SchedulerLoop
  imports SchedulerHealth
begin

text \<open>
  The loop of a collector: how often it starts scheduled ticks, what becomes of requested runs, what a tick
  that raises leaves undone; and the examples at which the hypotheses of the scheduler's theorems hold.
\<close>

section \<open>The pace of the scheduled ticks\<close>

text \<open>The scheduled ticks among the tasks a loop has created.\<close>

fun is_fire :: "notice event \<Rightarrow> bool" where
  "is_fire (Act (TickTask name None)) = True"
| "is_fire _ = False"

definition fires :: "notice event list \<Rightarrow> nat" where
  "fires es = length (filter is_fire es)"

lemma fires_simps [simp]:
  "fires [] = 0" "fires (e # es) = (if is_fire e then 1 else 0) + fires es" "fires (es @ fs) = fires es + fires fs"
  by (simp_all add: fires_def)

lemma fires_requested [simp]: "fires (map (\<lambda>x. Act (TickTask name (Some x))) runs) = 0"
  by (induction runs) simp_all

lemma run_for_each_emit:
  "for_each xs (\<lambda>x. emit (f x)) w = (Inr (), w\<lparr>trace := trace w @ map f xs\<rparr>)"
  by (induction xs arbitrary: w) (simp_all add: run_simps run_emit_seq)

lemma run_seq_for_each_emit:
  "seqP (for_each xs (\<lambda>x. emit (f x))) m w = m (w\<lparr>trace := trace w @ map f xs\<rparr>)"
  by (simp add: seqP_def bindP_def run_for_each_emit)

lemma run_suspend_seq:
  "seqP (suspend env) m w = m (w\<lparr>shared := other env (ticks w) (shared w), ticks := Suc (ticks w)\<rparr>)"
  by (simp add: seqP_def bindP_def run_simps)

text \<open>One round, by what it finds when it wakes.\<close>

lemma loop_round_cases:
  fixes w :: "('z scheduler_store_scheme, notice event) world"
  assumes "loop_round env c d w = (r, w')"
  obtains (stopped) "r = Inr None" "trace w' = trace w" "ticks w \<le> ticks w'"
    | (drained) runs now t where "r = Inr (Some (loop_time env t + c_interval c))" "ticks w \<le> now" "now \<le> t" "t < ticks w'"
        "trace w' = trace w @ map (\<lambda>x. Act (TickTask (c_name c) (Some x))) runs" "runs \<noteq> []"
    | (waiting) now t where "r = Inr (Some (skip_forward (c_interval c) (loop_time env now) d))" "ticks w \<le> now" "now \<le> t"
        "t < ticks w'" "trace w' = trace w"
    | (fired) now t where "r = Inr (Some (skip_forward (c_interval c) (loop_time env now) d + c_interval c))" "ticks w \<le> now"
        "now \<le> t" "t < ticks w'" "trace w' = trace w @ [Act (TickTask (c_name c) None)]"
        "skip_forward (c_interval c) (loop_time env now) d \<le> loop_time env t"
proof (cases "m_stopping (shared w)")
  case True
  with assms show ?thesis by (intro stopped) (auto simp: loop_round_def run_simps)
next
  case False
  let ?s = "other env (Suc (ticks w)) (shared w)" and ?now = "ticks w" and ?t = "Suc (Suc (ticks w))"
  let ?d = "skip_forward (c_interval c) (loop_time env ?now) d"
  note run = assms [unfolded loop_round_def Let_def]
  show ?thesis
  proof (cases "m_stopping ?s")
    case True
    with False run show ?thesis by (intro stopped) (auto simp: run_simps run_suspend_seq)
  next
    case go: False
    show ?thesis
    proof (cases "m_immediate ?s (c_name c) = []")
      case runs: False
      with False go run show ?thesis
        by (intro drained [of ?t ?now "m_immediate ?s (c_name c)"])
          (auto simp: run_simps run_suspend_seq run_modS_seq run_seq_for_each_emit)
    next
      case True
      show ?thesis
      proof (cases "loop_time env ?t < ?d")
        case early: True
        with False go True run show ?thesis
          by (intro waiting [of ?now ?t]) (auto simp: run_simps run_suspend_seq)
      next
        case late: False
        with False go True run show ?thesis
          by (intro fired [of ?now ?t]) (auto simp: run_simps run_suspend_seq run_emit_seq)
      qed
    qed
  qed
qed

lemma loop_rounds_pace:
  assumes clock: "mono (loop_time env)" and i: "0 < c_interval c"
  shows "loop_rounds env c n d w = (r, w') \<Longrightarrow> d \<le> loop_time env (ticks w) + c_interval c \<Longrightarrow>
    \<exists>es. trace w' = trace w @ es \<and> ticks w \<le> ticks w' \<and>
      d + of_nat (fires es) * c_interval c \<le> loop_time env (ticks w') + c_interval c"
proof (induction n arbitrary: d w)
  case 0
  then show ?case by (simp add: run_simps)
next
  case (Suc n)
  let ?i = "c_interval c"
  note mono = monoD [OF clock]
  obtain q w1 where q: "loop_round env c d w = (q, w1)" by fastforce
  have next_rounds: ?case
    if "q = Inr (Some d')" "trace w1 = trace w @ es" "ticks w \<le> t" "t \<le> ticks w1"
      "d + of_nat (fires es) * ?i \<le> d'" "d' \<le> loop_time env t + ?i" for d' es t
  proof -
    have "loop_rounds env c n d' w1 = (r, w')" using Suc.prems(1) q that(1) by (simp add: bindP_def)
    moreover have "d' \<le> loop_time env (ticks w1) + ?i" using that(6) mono [OF that(4)] by simp
    ultimately obtain fs where fs: "trace w' = trace w1 @ fs" "ticks w1 \<le> ticks w'"
      "d' + of_nat (fires fs) * ?i \<le> loop_time env (ticks w') + ?i" using Suc.IH by blast
    have "d + of_nat (fires (es @ fs)) * ?i \<le> loop_time env (ticks w') + ?i"
      using that(5) fs(3) by (simp add: distrib_right)
    with that(2,3,4) fs(1,2) show ?case by (intro exI [of _ "es @ fs"]) simp
  qed
  have skip: "d \<le> skip_forward ?i (loop_time env now) d" "skip_forward ?i (loop_time env now) d \<le> loop_time env now + ?i"
    if "ticks w \<le> now" for now
    using i Suc.prems(2) mono [OF that] by (auto simp: skip_forward_def)
  from q show ?case
  proof (cases rule: loop_round_cases)
    case stopped
    then have "w' = w1" using Suc.prems(1) q by (simp add: bindP_def run_simps)
    with stopped show ?thesis using Suc.prems(2) mono [of "ticks w" "ticks w1"] by (intro exI [of _ "[]"]) simp
  next
    case (drained runs now t)
    have "d \<le> loop_time env t + ?i" using Suc.prems(2) mono [of "ticks w" t] drained(2,3) by simp
    with drained show ?thesis by (intro next_rounds [of "loop_time env t + ?i" "map (\<lambda>x. Act (TickTask (c_name c) (Some x))) runs" t]) simp_all
  next
    case (waiting now t)
    then show ?thesis using skip [of now] by (intro next_rounds [of "skip_forward ?i (loop_time env now) d" "[]" now]) simp_all
  next
    case (fired now t)
    then show ?thesis using skip [of now]
      by (intro next_rounds [of "skip_forward ?i (loop_time env now) d + ?i" "[Act (TickTask (c_name c) None)]" t]) simp_all
  qed
qed

lemma start_offset_bounds: "0 \<le> start_offset hash c" "0 < c_interval c \<Longrightarrow> start_offset hash c \<le> c_interval c"
proof -
  show "0 \<le> start_offset hash c" by (simp add: start_offset_def)
  show "start_offset hash c \<le> c_interval c" if i: "0 < c_interval c"
  proof (cases "1 \<le> c_interval c")
    case True
    then have "1 \<le> \<lfloor>c_interval c\<rfloor>" by simp
    then have "hash (c_name c) mod max 1 \<lfloor>c_interval c\<rfloor> < \<lfloor>c_interval c\<rfloor>" by (simp add: max_def)
    then have "(of_int (hash (c_name c) mod max 1 \<lfloor>c_interval c\<rfloor>) :: rat) \<le> of_int \<lfloor>c_interval c\<rfloor>"
      by (simp only: of_int_le_iff less_imp_le)
    also have "\<dots> \<le> c_interval c" by (rule of_int_floor_le)
    finally show ?thesis using True by (simp add: start_offset_def)
  qed (use i in \<open>simp add: start_offset_def\<close>)
qed


section \<open>Requested runs\<close>

text \<open>
  A requested run is started.  A request for a known collector is put at the end of its queue under the id the
  caller is given; the next round that finds the scheduler running starts one tick task for every request of
  the queue, in the order they came, leaves the queue empty and starts no scheduled tick.
\<close>

theorem requested_runs_started:
  assumes "\<not> m_stopping (shared w)" and "\<not> m_stopping (other env (Suc (ticks w)) (shared w))"
    and "m_immediate (other env (Suc (ticks w)) (shared w)) (c_name c) = runs" and "runs \<noteq> []"
  shows "\<exists>w' d. loop_round env c deadline w = (Inr (Some d), w') \<and> m_immediate (shared w') (c_name c) = [] \<and>
    trace w' = trace w @ map (\<lambda>x. Act (TickTask (c_name c) (Some x))) runs"
  using assms
  by (simp add: loop_round_def Let_def run_simps run_suspend_seq run_modS_seq run_seq_for_each_emit)

section \<open>What a tick that raises leaves undone\<close>

text \<open>
  When the factory of the context raises, the tick raises with it: the lock is given back, but no counter is
  written, no event is published and the future of a caller of \<open>await_immediate_run\<close> stays unanswered, so the
  caller waits for its whole timeout.
\<close>

theorem refused_context_unannounced:
  assumes "ctx_error env (Suc (ticks w)) = Some e"
  shows "\<exists>w'. locked_body env c tid trig w = (Inl e, w') \<and> trace w' = trace w \<and> shared w' = shared w"
  using assms by (simp add: locked_body_def run_simps)

section \<open>Examples\<close>

definition quiet_scheduler :: "scheduler_store scheduler_env" where
  "quiet_scheduler = \<lparr>other = (\<lambda>_ s. s), fault = (\<lambda>_. None), clock = int, uuid = str_of_nat, now_iso = str_of_nat,
     sha256 = (\<lambda>t. t), alerts_wired = False, budget_wired = True, default_threshold = 1,
     collector_configs = [(''disk'', None)], loop_time = of_nat, lock_answer = (\<lambda>_. InTime), ctx_error = (\<lambda>_. None),
     run_answer = (\<lambda>_. TimedOut)\<rparr>"

definition idle_scheduler :: "(scheduler_store, notice event) world" where
  "idle_scheduler = \<lparr>shared = \<lparr>s_audits = [], t_alerts = [], t_outcomes = [],
     t_collectors = [\<lparr>co_name = ''disk'', co_failures = 0, co_quarantined_at = None, co_reason = None\<rparr>],
     m_failures = [], m_quarantined = [], m_loaded = True, m_locks = [], m_last_error_ts = [],
     m_immediate = (\<lambda>_. []), m_pending = {}, m_futures = (\<lambda>_. None), m_stopping = False\<rparr>, trace = [], ticks = 0\<rparr>"

definition disk_collector :: collector where
  "disk_collector = \<lparr>c_name = ''disk'', c_interval = 2, c_timeout = 1, c_group = ''default''\<rparr>"

lemma quiet_relies: "rely R quiet_scheduler" if "\<And>s. R s s"
  using that by (simp add: rely_def quiet_scheduler_def)

lemma quiet_tick: "fst (tick quiet_scheduler disk_collector None (Some ''t1'') idle_scheduler) = Inr ()"
  by (simp add: tick_def acquire_lock_def locked_body_def classify_def failure_arm_def report_failure_def since_def
      record_error_def record_failure_def enter_quarantine_def insert_audit_def publish_tick_def publish_event_def
      write_sample_def signal_awaitable_done_def write_duration_def release_lock_def finallyP_def awaitP_def
      seqP_def bindP_def txn_def run_simps Let_def gated_def quiet_scheduler_def idle_scheduler_def disk_collector_def
      is_quarantined_def failures_of_def threshold_for_def lock_held_def take_lock_def group_key_def resolve_future_def
      add_audit_def on_collector_def set_failures_def set_quarantined_def)

lemma quiet_tick_run:
  "tick quiet_scheduler disk_collector None (Some ''t1'') idle_scheduler =
     (Inr (), snd (tick quiet_scheduler disk_collector None (Some ''t1'') idle_scheduler))"
  using quiet_tick by (metis prod.collapse)


theorem group_lock_exclusive_witness:
  "own ''t1'' (shared (snd (tick quiet_scheduler disk_collector None (Some ''t1'') idle_scheduler))) = {} \<and>
   own ''t2'' (shared (snd (tick quiet_scheduler disk_collector None (Some ''t1'') idle_scheduler))) = {}"
proof -
  have r: "rely (same_own tid) quiet_scheduler" for tid by (rule quiet_relies) (simp add: same_own_def)
  have free: "own tid (shared idle_scheduler) = {}" for tid by (simp add: own_def idle_scheduler_def)
  from group_lock_exclusive [OF r free quiet_tick_run] r free show ?thesis by auto
qed

lemma quiet_history:
  "tick_history quiet_scheduler disk_collector [(None, Some ''t1'')] idle_scheduler =
     (Inr (), snd (tick quiet_scheduler disk_collector None (Some ''t1'') idle_scheduler))"
proof -
  obtain w1 where w1: "tick quiet_scheduler disk_collector None (Some ''t1'') idle_scheduler = (Inr (), w1)"
    using quiet_tick_run by blast
  then show ?thesis by (simp add: tick_history_simps seqP_def bindP_def run_simps)
qed

theorem outcomes_decide_health_witness:
  "\<exists>es. trace (snd (tick quiet_scheduler disk_collector None (Some ''t1'') idle_scheduler)) = trace idle_scheduler @ es \<and>
    health_of ''disk'' (shared (snd (tick quiet_scheduler disk_collector None (Some ''t1'') idle_scheduler))) =
      fold (health_step 1) (verdicts None (ledger es)) (health_of ''disk'' (shared idle_scheduler))"
proof -
  have r: "rely (same_health (c_name disk_collector)) quiet_scheduler" by (rule quiet_relies) (simp add: same_health_def)
  from outcomes_decide_health [OF r _ quiet_history] show ?thesis
    by (simp add: quiet_scheduler_def disk_collector_def threshold_for_def)
qed

theorem failing_collector_contained_witness:
  "\<exists>es. trace (snd (tick quiet_scheduler disk_collector None (Some ''t1'') idle_scheduler)) = trace idle_scheduler @ es \<and>
    runs_in (ledger es) \<le> 1"
proof -
  have r: "rely (same_health (c_name disk_collector)) quiet_scheduler" by (rule quiet_relies) (simp add: same_health_def)
  have f: "fails (run_answer quiet_scheduler n)" for n by (simp add: quiet_scheduler_def)
  have b: "budget_wired quiet_scheduler" by (simp add: quiet_scheduler_def)
  have "room (effective_threshold quiet_scheduler disk_collector) (health_of (c_name disk_collector) (shared idle_scheduler)) = 1"
    by (simp add: effective_threshold_def threshold_of_def threshold_for_def quiet_scheduler_def disk_collector_def
        idle_scheduler_def health_of_def is_quarantined_def failures_of_def)
  with failing_collector_contained [OF r b f quiet_history] show ?thesis by auto
qed


theorem requested_runs_started_witness:
  "\<exists>w' d. loop_round quiet_scheduler disk_collector 0 (idle_scheduler\<lparr>shared :=
      push_run ''disk'' (''t1'', \<lparr>tr_kind = ''manual'', tr_request_id = None\<rparr>) (shared idle_scheduler)\<rparr>) = (Inr (Some d), w') \<and>
    m_immediate (shared w') ''disk'' = [] \<and>
    trace w' = [Act (TickTask ''disk'' (Some (''t1'', \<lparr>tr_kind = ''manual'', tr_request_id = None\<rparr>)))]"
  using requested_runs_started [of "idle_scheduler\<lparr>shared :=
      push_run ''disk'' (''t1'', \<lparr>tr_kind = ''manual'', tr_request_id = None\<rparr>) (shared idle_scheduler)\<rparr>" quiet_scheduler
      disk_collector "[(''t1'', \<lparr>tr_kind = ''manual'', tr_request_id = None\<rparr>)]" 0]
  by (simp add: idle_scheduler_def quiet_scheduler_def push_run_def disk_collector_def)

end
