(* ===== verification/Spec2Isabelle.thy ===== *)
theory Spec2Isabelle
  imports Completion Kill Pin FailureBudget Registry Rotator Pagination Tail WrapperFacts DiscoveryFacts AuthRoutes SchedulerLoop
begin

text \<open>
  A verification development for homelab-monitor, a monitoring service for home servers (Python, under
  src/apps/monitor/homelab_monitor/).  Paths below are relative to \<^verbatim>\<open>kernel/\<close>.  Each theory models one
  component: its rows and messages as records and datatypes with the names of the source, one definition
  per operation with every branch and early return of the code, and the lemmas that make it correct.

  \<^bold>\<open>How handlers are modelled.\<close>  The service is one asyncio process over a SQLite database.  A handler is a
  function from a world (shared state, trace of external calls and audit rows, a counter of the questions
  asked so far) to a result or an exception and a new world (theory \<^verbatim>\<open>Prelude\<close>).  At every \<^verbatim>\<open>await\<close> the
  environment may replace the shared state; inside a transaction it may not, and a transaction may fail, which
  undoes it.  Nothing is known of the environment but what a theorem states, usually that the other tasks obey
  the same step relation (\<^verbatim>\<open>rely\<close>).  Theorems that quantify over an environment therefore hold for every
  interleaving.  Code of third parties is a field of an environment record or an argument: the Docker daemon,
  VictoriaLogs, croniter, SHA-256, bcrypt, json.loads, YAML and pydantic parsing, the file system, the parsing
  of foreign time stamps.  Python floats are rationals; their rounding is not modelled.

  \<^bold>\<open>Shared ground.\<close>  \<^verbatim>\<open>Prelude\<close>: JSON values, Python string helpers, the calculus of handlers and its rules
  (\<^verbatim>\<open>guar\<close>: what a handler may do to the shared state, \<^verbatim>\<open>emits\<close>: which events it may leave, \<^verbatim>\<open>precedes\<close>: in
  which order).  \<^verbatim>\<open>AuditLog\<close> (db/audit.py), \<^verbatim>\<open>Timestamps\<close> (db/time.py: the order of texts is the order of
  times), \<^verbatim>\<open>JsonText\<close> and \<^verbatim>\<open>Base64\<close> (what json.dumps and urlsafe_b64encode write, and that it can be read
  back), \<^verbatim>\<open>IsoTime\<close> (nanosecond stamps), \<^verbatim>\<open>TableWrites\<close> (a locale: every row of a table is found again,
  changed only as a relation allows).

  \<^bold>\<open>Automatic fixing\<close> (autofix/, runbooks/).  \<^verbatim>\<open>AutofixTypes\<close>, \<^verbatim>\<open>RunsRepo\<close>, \<^verbatim>\<open>ApprovalsRepo\<close>, \<^verbatim>\<open>Feedback\<close> are
  the tables; \<^verbatim>\<open>Matcher\<close>, \<^verbatim>\<open>Intents\<close>, \<^verbatim>\<open>Egress\<close> and \<^verbatim>\<open>Gates\<close> the decisions; \<^verbatim>\<open>Exec\<close> one execution of the
  fixer; \<^verbatim>\<open>Orchestrator\<close> the claim and the entry points (alert, operator trigger, approval); \<^verbatim>\<open>Kill\<close> the
  panic path; \<^verbatim>\<open>Loader\<close>, \<^verbatim>\<open>RunbookHash\<close> and \<^verbatim>\<open>Registry\<close> the runbooks on disk and in the database;
  \<^verbatim>\<open>Rotator\<close> the transcripts.  \<^verbatim>\<open>Safety\<close> proves what may start a real run, \<^verbatim>\<open>Completion\<close> what every handler
  leaves behind, \<^verbatim>\<open>Transitions\<close> the step relation of all tasks, and \<^verbatim>\<open>Interleaving\<close>, over the limiter
  contract of \<^verbatim>\<open>Admission\<close>, that rate limit and mutual exclusion hold at every moment.

  \<^bold>\<open>Alerts, limits and credentials.\<close>  \<^verbatim>\<open>AlertsRepo\<close> (alerts/repository.py), \<^verbatim>\<open>Fingerprints\<close>
  (alerts/fingerprinting.py), \<^verbatim>\<open>FailureBudget\<close> (scheduler/failure_budget.py), \<^verbatim>\<open>Limiters\<close>
  (auth/rate_limit.py, heartbeat/rate_limiter.py), \<^verbatim>\<open>Pin\<close> (security/pin.py).

  \<^bold>\<open>The collector scheduler\<close> (scheduler/scheduler.py).  \<^verbatim>\<open>Scheduler\<close> is one tick of a collector on top of the
  failure budget: quarantine gate, lock of the concurrency group, timeout, the end of the call, metrics, event
  and waiting callers; the immediate runs; the loop that spaces the ticks.  \<^verbatim>\<open>SchedulerFacts\<close> proves that every
  tick is accounted for, \<^verbatim>\<open>SchedulerLaws\<close>, in locales over the relation that is kept, that a group runs one
  collector at a time, \<^verbatim>\<open>SchedulerHealth\<close> that outcomes decide health and a failing collector is contained,
  \<^verbatim>\<open>SchedulerLoop\<close> that ticks are spaced and requested runs start.

  \<^bold>\<open>Authentication\<close> (auth/, api/middleware.py, api/dependencies.py, api/routers/auth.py).  \<^verbatim>\<open>Auth\<close> holds users,
  sessions and tokens with their repository, the signed cookie, the CSRF comparison and the scope lists;
  \<^verbatim>\<open>AuthGate\<close> the middleware that resolves a request to a user or a token, the guards of the routes, and
  login, logout, me and the change of password.  \<^verbatim>\<open>AuthFacts\<close> proves the round trips and when a session
  authenticates; \<^verbatim>\<open>AuthLaws\<close>, a locale over the relation every write keeps, that the tables stay well formed
  and that an ended session or revoked token is never accepted again; \<^verbatim>\<open>AuthRoutes\<close> what a request must prove
  before a guarded body runs, and what login and the change of password leave behind.

  \<^bold>\<open>Logs\<close> (logs/).  \<^verbatim>\<open>LogQuery\<close> is the bounded VictoriaLogs query, \<^verbatim>\<open>Pagination\<close> backward paging with its
  completeness, \<^verbatim>\<open>LogViews\<close> severities, windows and the histogram, \<^verbatim>\<open>Tail\<close> the live stream.

  \<^bold>\<open>Crons\<close> (cron/, heartbeat/, metrics/cron_run_reconciler.py, api/routers/cron_events.py and heartbeat.py).
  \<^verbatim>\<open>CronText\<close> holds the texts, \<^verbatim>\<open>Crontab\<close> the lines of crontabs, plain and wrapped, their parser and the kits of
  the wrapper installer, \<^verbatim>\<open>WrapperInstall\<close> the installer and its exchange with the executor, \<^verbatim>\<open>CronDiscovery\<close> the scan of the disk (plugins/discoverers/), \<^verbatim>\<open>CronStore\<close> the tables, \<^verbatim>\<open>Crons\<close>, \<^verbatim>\<open>Heartbeats\<close> and \<^verbatim>\<open>CronRuns\<close> their
  repositories, \<^verbatim>\<open>RunHealth\<close> the output digest and the anomaly rules, \<^verbatim>\<open>CronEvents\<close> the two ingest paths,
  \<^verbatim>\<open>Reconciler\<close> the periodic tick.  \<^verbatim>\<open>CronLaws\<close> and \<^verbatim>\<open>RunLaws\<close> prove, once in locales over the relation that
  is kept and interpreted for each relation, that no task loses a cron, that only the operator changes the
  operator's settings, that a closed run stays closed and that its outcome is never overwritten;
  \<^verbatim>\<open>CronFacts\<close> proves what single operations do, \<^verbatim>\<open>CrontabFacts\<close> that a wrapper that was installed can be
  removed again and leaves the line as it was, \<^verbatim>\<open>WrapperFacts\<close> that the installer sends one request, for the line
  of the cron, and writes nothing into the registry before the executor agreed, \<^verbatim>\<open>DiscoveryFacts\<close> that a file that cannot be read costs no cron.

  \<^bold>\<open>Bounds and fuel.\<close>  The unwind poll of \<^verbatim>\<open>Kill\<close> is a \<^verbatim>\<open>partial_function (option)\<close> with a proof that it
  returns under a monotone clock.  Clients that follow cursors carry fuel: one page more than there are rows
  (\<^verbatim>\<open>load_pages\<close>, \<^verbatim>\<open>load_runs\<close>), and the completeness theorems prove that this always suffices.  The scrubbing
  substitutions consume at least one character per step, their fuel is the length of the text and one.  The wait for
  the executor has the number of its rounds as fuel, and 121 are proved to be enough.  A tail
  session is a list of polls of a given length; the theorem that it ends bounds the number of polls it needs.

  \<^bold>\<open>Not modelled.\<close>  HTTP clients of external systems, FastAPI routing,
  collectors that map device responses to samples, Alembic migrations, the template miner drain3, croniter,
  the executor on the host that writes crontabs, and the parts named as partial in the components
  list.  SQL statements are functions on the value of a table: their text and the decoding of a row are not.
\<close>

end
